(* ===== verification/Dfc_Prelude.thy ===== *)
theory Dfc_Prelude
  imports Main "HOL-Library.Word"
begin

text \<open>
  Shared vocabulary of the development: the machine types of the C code, the byte
  buffers it manipulates through \<^verbatim>\<open>memcpy\<close>, \<^verbatim>\<open>memmove\<close>
  and \<^verbatim>\<open>memset\<close>, little-endian serialisation, bytewise exclusive or, and
  the lemma collections the component theories rely on.

  Conventions. A buffer is a list of octets whose length is the size of the C object. A
  \<open>size_t\<close> is a natural number and the code's own overflow checks against
  \<^verbatim>\<open>SIZE_MAX\<close> are kept; struct fields keep the width the header gives
  them. A pointer argument that the code compares with \<^verbatim>\<open>NULL\<close> is an
  \<open>option\<close>.
\<close>

unbundle bit_operations_syntax

type_synonym u8 = "8 word"
type_synonym u16 = "16 word"
type_synonym u32 = "32 word"
type_synonym bytes = "u8 list"
type_synonym size_t = nat

named_theorems mem_simps "reads and writes of byte buffers"
named_theorems pool_simps "fields of the slice pools"

definition SIZE_MAX :: size_t where
  "SIZE_MAX = 2 ^ 64 - 1"

definition UINT16_MAX :: nat where
  "UINT16_MAX = 65535"

definition UINT8_MAX :: nat where
  "UINT8_MAX = 255"

subsection \<open>Byte buffers\<close>

text \<open>
  \<open>mem_read\<close> is the octets a pointer and a length denote. \<open>mem_write\<close> is
  \<^verbatim>\<open>memcpy\<close> into a buffer, \<open>mem_move\<close> is \<^verbatim>\<open>memmove\<close>
  inside one buffer and \<open>mem_set\<close> is \<^verbatim>\<open>memset\<close> (and the secure wipe).
\<close>

definition mem_read :: "size_t \<Rightarrow> size_t \<Rightarrow> 'a list \<Rightarrow> 'a list" where
  "mem_read off n buf = take n (drop off buf)"

definition mem_write :: "size_t \<Rightarrow> 'a list \<Rightarrow> 'a list \<Rightarrow> 'a list" where
  "mem_write off src buf = take off buf @ src @ drop (off + length src) buf"

definition mem_move :: "size_t \<Rightarrow> size_t \<Rightarrow> size_t \<Rightarrow> 'a list \<Rightarrow> 'a list" where
  "mem_move dst src n buf = mem_write dst (mem_read src n buf) buf"

definition mem_set :: "size_t \<Rightarrow> 'a \<Rightarrow> size_t \<Rightarrow> 'a list \<Rightarrow> 'a list" where
  "mem_set off v n buf = mem_write off (replicate n v) buf"

lemma length_mem_read [simp]: "length (mem_read off n buf) = min n (length buf - off)"
  by (simp add: mem_read_def)

lemma length_mem_write [simp]:
  "off + length src \<le> length buf \<Longrightarrow> length (mem_write off src buf) = length buf"
  by (simp add: mem_write_def)

lemma length_mem_move [simp]:
  "dst + n \<le> length buf \<Longrightarrow> src + n \<le> length buf \<Longrightarrow> length (mem_move dst src n buf) = length buf"
  by (simp add: mem_move_def)

lemma length_mem_set [simp]:
  "off + n \<le> length buf \<Longrightarrow> length (mem_set off v n buf) = length buf"
  by (simp add: mem_set_def)

lemma nth_mem_read [simp]:
  "i < n \<Longrightarrow> off + i < length buf \<Longrightarrow> mem_read off n buf ! i = buf ! (off + i)"
  by (simp add: mem_read_def)

lemma nth_mem_write:
  "off + length src \<le> length buf \<Longrightarrow> i < length buf \<Longrightarrow>
   mem_write off src buf ! i =
     (if off \<le> i \<and> i < off + length src then src ! (i - off) else buf ! i)"
  by (auto simp: mem_write_def nth_append)

lemma nth_mem_move:
  "dst + n \<le> length buf \<Longrightarrow> src + n \<le> length buf \<Longrightarrow> i < length buf \<Longrightarrow>
   mem_move dst src n buf ! i =
     (if dst \<le> i \<and> i < dst + n then buf ! (src + (i - dst)) else buf ! i)"
  by (auto simp: mem_move_def nth_mem_write)

lemma nth_mem_set:
  "off + n \<le> length buf \<Longrightarrow> i < length buf \<Longrightarrow>
   mem_set off v n buf ! i = (if off \<le> i \<and> i < off + n then v else buf ! i)"
  by (auto simp: mem_set_def nth_mem_write)

lemma mem_read_cong:
  assumes "length a = length b" "off + n \<le> length a"
    and "\<And>i. off \<le> i \<Longrightarrow> i < off + n \<Longrightarrow> a ! i = b ! i"
  shows "mem_read off n a = mem_read off n b"
  using assms by (intro nth_equalityI) auto

lemma mem_read_shift_eqI:
  assumes "off + n \<le> length a" "off' + n \<le> length b"
    and "\<And>i. i < n \<Longrightarrow> a ! (off + i) = b ! (off' + i)"
  shows "mem_read off n a = mem_read off' n b"
  using assms by (intro nth_equalityI) auto

lemma mem_read_write_same [mem_simps]:
  "off + length src \<le> length buf \<Longrightarrow> mem_read off (length src) (mem_write off src buf) = src"
  by (simp add: mem_read_def mem_write_def)

lemma mem_read_write_other [mem_simps]:
  "off + length src \<le> length buf \<Longrightarrow> a + n \<le> length buf \<Longrightarrow>
   a + n \<le> off \<or> off + length src \<le> a \<Longrightarrow>
   mem_read a n (mem_write off src buf) = mem_read a n buf"
  by (rule mem_read_cong) (auto simp: nth_mem_write)

lemma mem_read_set_same [mem_simps]:
  "off + n \<le> length buf \<Longrightarrow> mem_read off n (mem_set off v n buf) = replicate n v"
  using mem_read_write_same [of off "replicate n v" buf] by (simp add: mem_set_def)

lemma mem_read_set_other [mem_simps]:
  "off + m \<le> length buf \<Longrightarrow> a + n \<le> length buf \<Longrightarrow> a + n \<le> off \<or> off + m \<le> a \<Longrightarrow>
   mem_read a n (mem_set off v m buf) = mem_read a n buf"
  by (simp add: mem_set_def mem_read_write_other)

lemma mem_write_Nil [simp]: "mem_write off [] buf = buf"
  by (simp add: mem_write_def)

lemma mem_read_0 [simp]: "mem_read off 0 buf = []"
  by (simp add: mem_read_def)

lemma mem_set_0 [simp]: "mem_set off v 0 buf = buf"
  by (simp add: mem_set_def)

lemma mem_move_0 [simp]: "mem_move dst src 0 buf = buf"
  by (simp add: mem_move_def)

lemma mem_read_all [simp]: "length buf \<le> n \<Longrightarrow> mem_read 0 n buf = buf"
  by (simp add: mem_read_def)

lemma mem_read_prefix: "mem_read 0 n buf = take n buf"
  by (simp add: mem_read_def)

subsection \<open>Casts between sizes and fixed-width fields\<close>

lemma unat_of_nat_u16 [simp]: "n < 65536 \<Longrightarrow> unat (of_nat n :: u16) = n"
  by (simp add: unat_of_nat)

lemma unat_of_nat_u8 [simp]: "n < 256 \<Longrightarrow> unat (of_nat n :: u8) = n"
  by (simp add: unat_of_nat)

lemma unat_of_nat_u32 [simp]: "n < 4294967296 \<Longrightarrow> unat (of_nat n :: u32) = n"
  by (simp add: unat_of_nat)

lemma unat_u8_less: "unat (x :: u8) < 256"
  using unsigned_less [of x] by simp

lemma unat_u16_less: "unat (x :: u16) < 65536"
  using unsigned_less [of x] by simp

lemma unat_u32_less: "unat (x :: u32) < 4294967296"
  using unsigned_less [of x] by simp

lemma unat_of_nat_diff_u16 [simp]: "unat (of_nat (unat (x :: u16) - m) :: u16) = unat x - m"
  by (rule unat_of_nat_u16) (use unat_u16_less [of x] in linarith)

lemma of_nat_u16_nonzero: "0 < n \<Longrightarrow> n < 65536 \<Longrightarrow> (of_nat n :: u16) \<noteq> 0"
  using unat_of_nat_u16 [of n] by (auto simp del: unat_of_nat_u16)

lemma unat_add_of_nat_u16 [simp]:
  "unat (x :: u16) + n < 65536 \<Longrightarrow> unat (x + of_nat n) = unat x + n"
  using unat_of_nat_u16 [of "unat x + n"] by simp

subsection \<open>Exclusive or of byte strings\<close>

definition xor_bytes :: "bytes \<Rightarrow> bytes \<Rightarrow> bytes" where
  "xor_bytes xs ys = map2 (XOR) xs ys"

lemma length_xor_bytes [simp]: "length (xor_bytes xs ys) = min (length xs) (length ys)"
  by (simp add: xor_bytes_def)

lemma nth_xor_bytes [simp]:
  "i < length xs \<Longrightarrow> i < length ys \<Longrightarrow> xor_bytes xs ys ! i = xs ! i XOR ys ! i"
  by (simp add: xor_bytes_def)

lemma xor_bytes_zero [simp]: "length xs = n \<Longrightarrow> xor_bytes xs (replicate n 0) = xs"
  by (rule nth_equalityI) auto

lemma xor_bytes_zero_left [simp]: "length xs = n \<Longrightarrow> xor_bytes (replicate n 0) xs = xs"
  by (rule nth_equalityI) auto

lemma xor_bytes_cancel [simp]:
  "length xs = length ys \<Longrightarrow> xor_bytes (xor_bytes xs ys) ys = xs"
  by (rule nth_equalityI) (auto simp: xor.assoc)

lemma xor_bytes_commute: "xor_bytes xs ys = xor_bytes ys xs"
  by (rule nth_equalityI) (auto simp: xor.commute)

lemma xor_bytes_assoc:
  "xor_bytes (xor_bytes xs ys) zs = xor_bytes xs (xor_bytes ys zs)"
  by (rule nth_equalityI) (auto simp: xor.assoc)

subsection \<open>Lists\<close>

lemma list_all_list_update: "list_all P xs \<Longrightarrow> P x \<Longrightarrow> list_all P (xs[i := x])"
  using set_update_subset_insert [of xs i x] by (auto simp: list_all_iff)

subsection \<open>Search loops\<close>

text \<open>The loop over an array that returns at the first match: the first index from \<open>i\<close> on.\<close>

function find_index_from :: "(nat \<Rightarrow> bool) \<Rightarrow> nat \<Rightarrow> nat \<Rightarrow> nat option" where
  "find_index_from P i n =
     (if i < n then (if P i then Some i else find_index_from P (Suc i) n) else None)"
  by pat_completeness auto
termination
  by (relation "measure (\<lambda>(P, i, n). n - i)") auto

declare find_index_from.simps [simp del]

lemma find_index_from_Some:
  "find_index_from P i n = Some k \<Longrightarrow> i \<le> k \<and> k < n \<and> P k \<and> (\<forall>j. i \<le> j \<and> j < k \<longrightarrow> \<not> P j)"
proof (induction P i n rule: find_index_from.induct)
  case (1 P i n)
  show ?case
  proof (cases "i < n \<and> \<not> P i")
    case True
    then have "find_index_from P (Suc i) n = Some k"
      using 1(2) by (simp add: find_index_from.simps [of P i n])
    with 1(1) True have "Suc i \<le> k \<and> k < n \<and> P k \<and> (\<forall>j. Suc i \<le> j \<and> j < k \<longrightarrow> \<not> P j)" by blast
    with True show ?thesis by (metis Suc_leI le_neq_implies_less Suc_leD)
  next
    case False
    then show ?thesis using 1(2) by (auto simp: find_index_from.simps [of P i n] split: if_splits)
  qed
qed

lemma find_index_from_None:
  "find_index_from P i n = None \<longleftrightarrow> (\<forall>j. i \<le> j \<and> j < n \<longrightarrow> \<not> P j)"
proof (induction P i n rule: find_index_from.induct)
  case (1 P i n)
  show ?case
  proof (cases "i < n \<and> \<not> P i")
    case True
    then have "find_index_from P (Suc i) n = None \<longleftrightarrow> (\<forall>j. Suc i \<le> j \<and> j < n \<longrightarrow> \<not> P j)"
      using 1 by blast
    moreover have "find_index_from P i n = find_index_from P (Suc i) n"
      using True by (simp add: find_index_from.simps [of P i n])
    moreover have "(\<forall>j. i \<le> j \<and> j < n \<longrightarrow> \<not> P j) \<longleftrightarrow> (\<forall>j. Suc i \<le> j \<and> j < n \<longrightarrow> \<not> P j)"
      using True by (metis Suc_leD Suc_leI le_neq_implies_less)
    ultimately show ?thesis by simp
  next
    case False
    then show ?thesis by (auto simp: find_index_from.simps [of P i n])
  qed
qed

lemma find_index_from_unique:
  assumes "i \<le> k" "k < n" "P k" "\<And>j. i \<le> j \<Longrightarrow> j < n \<Longrightarrow> P j \<Longrightarrow> j = k"
  shows "find_index_from P i n = Some k"
proof (cases "find_index_from P i n")
  case None
  then have "\<not> P k" using assms(1,2) by (simp add: find_index_from_None)
  then show ?thesis using assms(3) by simp
next
  case (Some l)
  then have "l = k" using find_index_from_Some [OF Some] by (intro assms(4)) auto
  then show ?thesis using Some by simp
qed

lemma find_index_from_cong:
  "(\<And>j. i \<le> j \<Longrightarrow> j < n \<Longrightarrow> P j = Q j) \<Longrightarrow> find_index_from P i n = find_index_from Q i n"
proof (induction P i n rule: find_index_from.induct)
  case (1 P i n)
  have "\<lbrakk>i < n; \<not> P i\<rbrakk> \<Longrightarrow> find_index_from P (Suc i) n = find_index_from Q (Suc i) n"
    by (rule 1(1)) (use 1(2) in auto)
  then show ?case
    using 1(2) [of i] by (simp add: find_index_from.simps [of P i n] find_index_from.simps [of Q i n])
qed

end
