(* ===== verification/Dfc_Types.thy ===== *)
theory Dfc_Types
  imports Dfc_Prelude
begin

text \<open>
  The in-memory credential of \<^verbatim>\<open>src/dfc_credential.h\<close> with the constants of
  \<^verbatim>\<open>src/dfc_common.h\<close>, for the default build: the full EV3 profile and the
  simulator role, so every optional field is present. Arrays are lists of the declared
  length; a count field says how much of an array is live. Field names carry the prefix of
  their struct (\<open>f_\<close> file, \<open>a_\<close> application, \<open>c_\<close> credential).

  \<open>DfcFileState\<close> is a C union whose live member is the one \<open>f_type\<close> names. The
  model keeps the members side by side: the code reads a member only under the matching type
  and clears the whole union when it creates a file.
\<close>

subsection \<open>Constants\<close>

definition DFC_MAX_KEYS :: size_t where "DFC_MAX_KEYS = 14"
definition DFC_MAX_KEY_LEN :: size_t where "DFC_MAX_KEY_LEN = 24"
definition DFC_MAX_APPS :: size_t where "DFC_MAX_APPS = 28"
definition DFC_MAX_FILES :: size_t where "DFC_MAX_FILES = 32"
definition DFC_EV1_MAX_KEYS_PER_APP :: size_t where "DFC_EV1_MAX_KEYS_PER_APP = 14"
definition DFC_MAX_KEY_SETS :: size_t where "DFC_MAX_KEY_SETS = 16"
definition DFC_KEY_SET_MINIMUM_COUNT :: size_t where "DFC_KEY_SET_MINIMUM_COUNT = 2"
definition DFC_FILE_POOL_SIZE :: size_t where "DFC_FILE_POOL_SIZE = 8192"
definition DFC_MAX_FILE_DATA :: size_t where "DFC_MAX_FILE_DATA = 2048"
definition DFC_KEY_POOL_SIZE :: size_t where "DFC_KEY_POOL_SIZE = 4096"
definition DFC_KEY_SET_METADATA_POOL_SIZE :: size_t where
  "DFC_KEY_SET_METADATA_POOL_SIZE =
     (DFC_KEY_POOL_SIZE div 32) * 7 + ((DFC_KEY_POOL_SIZE mod 32) * 7 + 31) div 32"
definition DFC_BLANK_FILE_SIZE :: u32 where "DFC_BLANK_FILE_SIZE = 256"
definition DFC_PICC_ATS_MAX :: size_t where "DFC_PICC_ATS_MAX = 20"
definition DFC_DEFAULT_CARD_STORAGE :: u32 where "DFC_DEFAULT_CARD_STORAGE = 2048"
definition DFC_DESFIRE_UID_LEN :: size_t where "DFC_DESFIRE_UID_LEN = 7"
definition DFC_DESFIRE_UID_SHORT_LEN :: size_t where "DFC_DESFIRE_UID_SHORT_LEN = 4"
definition DFC_DESFIRE_UID_LONG_LEN :: size_t where "DFC_DESFIRE_UID_LONG_LEN = 10"
definition DFC_DESFIRE_UID_MAX_LENGTH :: size_t where "DFC_DESFIRE_UID_MAX_LENGTH = 10"
definition DFC_DESFIRE_UID_FIRST_BYTE :: u8 where "DFC_DESFIRE_UID_FIRST_BYTE = 0x04"

text \<open>The pools fit sixteen-bit offsets in this build, so offsets and sentinels are \<open>u16\<close>.\<close>

definition DFC_FILE_POOL_NONE :: u16 where "DFC_FILE_POOL_NONE = 0xFFFF"
definition DFC_KEY_POOL_NONE :: u16 where "DFC_KEY_POOL_NONE = 0xFFFF"
definition DFC_KEY_SET_METADATA_POOL_NONE :: u16 where "DFC_KEY_SET_METADATA_POOL_NONE = 0xFFFF"
definition DFC_FILE_OWNER_PICC :: u8 where "DFC_FILE_OWNER_PICC = 0xFF"

definition DFC_CMD_AUTHENTICATE_LEGACY :: u8 where "DFC_CMD_AUTHENTICATE_LEGACY = 0x0A"
definition DFC_CMD_AUTHENTICATE_ISO :: u8 where "DFC_CMD_AUTHENTICATE_ISO = 0x1A"
definition DFC_CMD_AUTHENTICATE_AES :: u8 where "DFC_CMD_AUTHENTICATE_AES = 0xAA"

definition DFC_AUTH_COMMAND_D40 :: u8 where "DFC_AUTH_COMMAND_D40 = 0x01"
definition DFC_AUTH_COMMAND_ISO_NATIVE :: u8 where "DFC_AUTH_COMMAND_ISO_NATIVE = 0x02"
definition DFC_AUTH_COMMAND_AES :: u8 where "DFC_AUTH_COMMAND_AES = 0x04"
definition DFC_AUTH_COMMAND_EV2_FIRST :: u8 where "DFC_AUTH_COMMAND_EV2_FIRST = 0x08"
definition DFC_AUTH_COMMAND_EV2_NON_FIRST :: u8 where "DFC_AUTH_COMMAND_EV2_NON_FIRST = 0x10"
definition DFC_AUTH_COMMAND_ISO7816 :: u8 where "DFC_AUTH_COMMAND_ISO7816 = 0x20"

definition DFC_KEY_TYPE_DES_2K3DES :: u8 where "DFC_KEY_TYPE_DES_2K3DES = 0x00"
definition DFC_KEY_TYPE_3K3DES :: u8 where "DFC_KEY_TYPE_3K3DES = 0x40"
definition DFC_KEY_TYPE_AES :: u8 where "DFC_KEY_TYPE_AES = 0x80"
definition DFC_KEY_TYPE_MASK :: u8 where "DFC_KEY_TYPE_MASK = 0xC0"
definition DFC_NUM_KEYS_MASK :: u8 where "DFC_NUM_KEYS_MASK = 0x0F"
definition DFC_KEY_SET_TYPE_2K3DES :: u8 where "DFC_KEY_SET_TYPE_2K3DES = 0x00"
definition DFC_KEY_SET_TYPE_3K3DES :: u8 where "DFC_KEY_SET_TYPE_3K3DES = 0x01"
definition DFC_KEY_SET_TYPE_AES :: u8 where "DFC_KEY_SET_TYPE_AES = 0x02"
definition DFC_KEY_SET_MAXIMUM_16_BYTE :: u8 where "DFC_KEY_SET_MAXIMUM_16_BYTE = 0x10"
definition DFC_KEY_SET_MAXIMUM_24_BYTE :: u8 where "DFC_KEY_SET_MAXIMUM_24_BYTE = 0x18"

definition DFC_COMM_PLAIN :: u8 where "DFC_COMM_PLAIN = 0x00"
definition DFC_COMM_MAC :: u8 where "DFC_COMM_MAC = 0x01"
definition DFC_COMM_ENCIPHERED :: u8 where "DFC_COMM_ENCIPHERED = 0x03"
definition DFC_COMM_MODE_MASK :: u8 where "DFC_COMM_MODE_MASK = 0x03"
definition DFC_FILE_OPTION_ADDITIONAL_RIGHTS :: u8 where "DFC_FILE_OPTION_ADDITIONAL_RIGHTS = 0x80"
definition DFC_SDM_ENABLED_MASK :: u8 where "DFC_SDM_ENABLED_MASK = 0x40"
definition DFC_ACCESS_FREE :: u8 where "DFC_ACCESS_FREE = 0x0E"
definition DFC_ACCESS_DENY :: u8 where "DFC_ACCESS_DENY = 0x0F"
definition DFC_TRANSACTION_MAC_KEY_TYPE_AES :: u8 where "DFC_TRANSACTION_MAC_KEY_TYPE_AES = 0x02"

definition DFC_FILE_TYPE_STANDARD_DATA :: u8 where "DFC_FILE_TYPE_STANDARD_DATA = 0x00"
definition DFC_FILE_TYPE_BACKUP_DATA :: u8 where "DFC_FILE_TYPE_BACKUP_DATA = 0x01"
definition DFC_FILE_TYPE_VALUE :: u8 where "DFC_FILE_TYPE_VALUE = 0x02"
definition DFC_FILE_TYPE_LINEAR_RECORD :: u8 where "DFC_FILE_TYPE_LINEAR_RECORD = 0x03"
definition DFC_FILE_TYPE_CYCLIC_RECORD :: u8 where "DFC_FILE_TYPE_CYCLIC_RECORD = 0x04"
definition DFC_FILE_TYPE_TRANSACTION_MAC :: u8 where "DFC_FILE_TYPE_TRANSACTION_MAC = 0x05"

lemmas dfc_size_consts =
  DFC_MAX_KEYS_def DFC_MAX_KEY_LEN_def DFC_MAX_APPS_def DFC_MAX_FILES_def
  DFC_EV1_MAX_KEYS_PER_APP_def DFC_MAX_KEY_SETS_def DFC_KEY_SET_MINIMUM_COUNT_def
  DFC_FILE_POOL_SIZE_def DFC_MAX_FILE_DATA_def DFC_KEY_POOL_SIZE_def
  DFC_KEY_SET_METADATA_POOL_SIZE_def

lemmas dfc_none_consts =
  DFC_FILE_POOL_NONE_def DFC_KEY_POOL_NONE_def DFC_KEY_SET_METADATA_POOL_NONE_def

lemmas dfc_key_type_consts =
  DFC_KEY_TYPE_DES_2K3DES_def DFC_KEY_TYPE_3K3DES_def DFC_KEY_TYPE_AES_def DFC_KEY_TYPE_MASK_def
  DFC_NUM_KEYS_MASK_def

lemmas dfc_file_type_consts =
  DFC_FILE_TYPE_STANDARD_DATA_def DFC_FILE_TYPE_BACKUP_DATA_def DFC_FILE_TYPE_VALUE_def
  DFC_FILE_TYPE_LINEAR_RECORD_def DFC_FILE_TYPE_CYCLIC_RECORD_def
  DFC_FILE_TYPE_TRANSACTION_MAC_def

subsection \<open>Files\<close>

record DfcSdmSettings =
  sdm_flags :: u8
  sdm_options :: u8
  sdm_access_rights :: u16
  sdm_uid_offset :: u32
  sdm_counter_offset :: u32
  sdm_picc_data_offset :: u32
  sdm_mac_input_offset :: u32
  sdm_encrypted_file_offset :: u32
  sdm_encrypted_file_length :: u32
  sdm_mac_offset :: u32
  sdm_counter_limit :: u32

record DfcValueFileState =
  lower_limit :: "32 word"
  upper_limit :: "32 word"
  current_value :: "32 word"
  pending_delta :: "32 word"
  pending_value :: "32 word"
  limited_credit_value :: "32 word"
  limited_credit_pending :: "32 word"
  limited_credit :: u8
  value_pending :: bool
  pending_absolute :: bool

record DfcRecordFileState =
  record_size :: u32
  record_max_records :: u32
  record_count :: u32

record DfcTransactionMacFileState =
  tmac_counter :: u32
  tmac_key :: bytes
  tmac_mac :: bytes
  tmac_previous_reader_id :: bytes
  tmac_key_type :: u8
  tmac_key_version :: u8

record DfcDataFileState =
  declared_size :: u32
  data_sdm :: DfcSdmSettings
  sdm_read_counter :: u32

record DfcFileState =
  state_data :: DfcDataFileState
  state_value :: DfcValueFileState
  state_record :: DfcRecordFileState
  state_transaction_mac :: DfcTransactionMacFileState

record DfcFile =
  f_app_index :: u8
  f_data_offset :: u16
  f_data_len :: u16
  f_access_rights :: u16
  f_iso_file_id :: u16
  f_number :: u8
  f_type :: u8
  f_comm_settings :: u8
  f_has_iso_file_id :: bool
  f_contents_complete :: bool
  f_transaction_pending :: bool
  f_state :: DfcFileState

definition zero_sdm :: DfcSdmSettings where
  "zero_sdm = \<lparr>sdm_flags = 0, sdm_options = 0, sdm_access_rights = 0, sdm_uid_offset = 0,
     sdm_counter_offset = 0, sdm_picc_data_offset = 0, sdm_mac_input_offset = 0,
     sdm_encrypted_file_offset = 0, sdm_encrypted_file_length = 0, sdm_mac_offset = 0,
     sdm_counter_limit = 0\<rparr>"

definition zero_file_state :: DfcFileState where
  "zero_file_state = \<lparr>
     state_data = \<lparr>declared_size = 0, data_sdm = zero_sdm, sdm_read_counter = 0\<rparr>,
     state_value = \<lparr>lower_limit = 0, upper_limit = 0, current_value = 0, pending_delta = 0,
       pending_value = 0, limited_credit_value = 0, limited_credit_pending = 0,
       limited_credit = 0, value_pending = False, pending_absolute = False\<rparr>,
     state_record = \<lparr>record_size = 0, record_max_records = 0, record_count = 0\<rparr>,
     state_transaction_mac = \<lparr>tmac_counter = 0, tmac_key = replicate 16 0,
       tmac_mac = replicate 8 0, tmac_previous_reader_id = replicate 16 0,
       tmac_key_type = 0, tmac_key_version = 0\<rparr>\<rparr>"

text \<open>\<^verbatim>\<open>memset(file, 0, sizeof(DfcFile))\<close>.\<close>

definition zero_file :: DfcFile where
  "zero_file = \<lparr>f_app_index = 0, f_data_offset = 0, f_data_len = 0, f_access_rights = 0,
     f_iso_file_id = 0, f_number = 0, f_type = 0, f_comm_settings = 0,
     f_has_iso_file_id = False, f_contents_complete = False, f_transaction_pending = False,
     f_state = zero_file_state\<rparr>"

definition dfc_file_type_is_data :: "u8 \<Rightarrow> bool" where
  "dfc_file_type_is_data ty \<longleftrightarrow>
     ty = DFC_FILE_TYPE_STANDARD_DATA \<or> ty = DFC_FILE_TYPE_BACKUP_DATA"

definition dfc_file_set_declared_size :: "DfcFile \<Rightarrow> u32 \<Rightarrow> bool \<times> DfcFile" where
  "dfc_file_set_declared_size file sz =
     (if \<not> dfc_file_type_is_data (f_type file) then (False, file)
      else (True, file\<lparr>f_state := (f_state file)\<lparr>state_data :=
        (state_data (f_state file))\<lparr>declared_size := sz\<rparr>\<rparr>\<rparr>))"

definition dfc_file_get_declared_size :: "DfcFile \<Rightarrow> u32 option" where
  "dfc_file_get_declared_size file =
     (if \<not> dfc_file_type_is_data (f_type file) then None
      else Some (declared_size (state_data (f_state file))))"

subsection \<open>Applications\<close>

record DfcApplication =
  a_key_offset :: u16
  a_key_pool_len :: u16
  a_iso_aid_len :: u8
  a_num_keys :: u8
  a_key_len :: u8
  a_key_storage_len :: u8
  a_key_set_metadata_offset :: u16
  a_key_set_metadata_len :: u16
  a_iso_file_id :: u16
  a_delegated_slot_number :: u16
  a_delegated_quota_limit :: u16
  a_delegated_free_blocks :: u16
  a_delegated_slot_version :: u8
  a_delegated :: bool
  a_delegated_format_disabled :: bool
  a_aid :: bytes
  a_iso_aid :: bytes
  a_has_iso_file_id :: bool
  a_key_settings_1 :: u8
  a_key_settings_2 :: u8
  a_auth_command :: u8
  a_has_auth_commands :: bool
  a_auth_commands :: u8
  a_has_preferred_auth_command :: bool
  a_preferred_auth_command :: u8
  a_has_sm_disable :: bool
  a_sm_disable :: u8
  a_key_versions :: bytes
  a_num_key_sets :: u8
  a_max_key_size :: u8
  a_key_set_settings :: u8
  a_has_capability_data :: bool
  a_capability_data :: bytes

definition zero_application :: DfcApplication where
  "zero_application = \<lparr>a_key_offset = 0, a_key_pool_len = 0, a_iso_aid_len = 0, a_num_keys = 0,
     a_key_len = 0, a_key_storage_len = 0, a_key_set_metadata_offset = 0,
     a_key_set_metadata_len = 0, a_iso_file_id = 0, a_delegated_slot_number = 0,
     a_delegated_quota_limit = 0, a_delegated_free_blocks = 0, a_delegated_slot_version = 0,
     a_delegated = False, a_delegated_format_disabled = False, a_aid = replicate 3 0,
     a_iso_aid = replicate 16 0, a_has_iso_file_id = False, a_key_settings_1 = 0,
     a_key_settings_2 = 0, a_auth_command = 0, a_has_auth_commands = False, a_auth_commands = 0,
     a_has_preferred_auth_command = False, a_preferred_auth_command = 0, a_has_sm_disable = False,
     a_sm_disable = 0, a_key_versions = replicate 14 0, a_num_key_sets = 0, a_max_key_size = 0,
     a_key_set_settings = 0, a_has_capability_data = False, a_capability_data = replicate 10 0\<rparr>"

subsection \<open>The credential\<close>

text \<open>
  \<open>DfcGenerationZero\<close> is the all-zero value the enumeration's storage has after a wipe; no
  named generation has that value.
\<close>

datatype DfcGeneration = DfcGenerationZero | DfcGenerationEv1 | DfcGenerationEv2 | DfcGenerationEv3

datatype DfcUidProvenance =
  DfcUidProvenanceReal | DfcUidProvenanceRandom | DfcUidProvenanceUnknown

record DfcCard =
  card_generation :: DfcGeneration
  card_storage :: u32
  card_uid_provenance :: DfcUidProvenance
  card_has_hardware_version :: bool
  card_has_software_version :: bool
  card_hardware_version :: bytes
  card_software_version :: bytes

record DfcCredential =
  c_uid_len :: u8
  c_picc_key_offset :: u16
  c_picc_key_pool_len :: u16
  c_picc_num_keys :: u8
  c_picc_key_len :: u8
  c_picc_ats_len :: u8
  c_virtual_card_installation_id_len :: u8
  c_virtual_card_uid_len :: u8
  c_num_apps :: u8
  c_num_files :: u8
  c_file_pool_used :: u16
  c_key_pool_used :: u16
  c_apps :: "DfcApplication list"
  c_files :: "DfcFile list"
  c_card :: DfcCard
  c_picc_proximity_published_response_time :: u16
  c_picc_has_proximity_key :: bool
  c_picc_proximity_key :: bytes
  c_picc_proximity_option :: u8
  c_picc_has_proximity_bitrate :: bool
  c_picc_proximity_bitrate :: u8
  c_uid :: bytes
  c_picc_key_settings_1 :: u8
  c_picc_key_settings_2 :: u8
  c_picc_auth_command :: u8
  c_picc_has_auth_commands :: bool
  c_picc_auth_commands :: u8
  c_picc_has_preferred_auth_command :: bool
  c_picc_preferred_auth_command :: u8
  c_picc_key_versions :: bytes
  c_picc_random_id :: bool
  c_picc_random_id_legacy :: bool
  c_picc_format_disabled :: bool
  c_picc_ats :: bytes
  c_picc_has_sak :: bool
  c_picc_sak :: u8
  c_picc_has_atqa :: bool
  c_picc_atqa :: bytes
  c_picc_has_sm_disable :: bool
  c_picc_sm_disable :: u8
  c_picc_has_ev2_capabilities :: bool
  c_picc_ev2_capabilities :: bytes
  c_picc_has_static_signature :: bool
  c_picc_static_signature :: bytes
  c_virtual_card_configured :: bool
  c_virtual_card_installation_id :: bytes
  c_virtual_card_information :: u8
  c_virtual_card_capabilities :: bytes
  c_virtual_card_uid :: bytes
  c_virtual_card_select_mac_key :: bytes
  c_virtual_card_select_encryption_key :: bytes
  c_virtual_card_authentication_mandatory :: bool
  c_virtual_card_proximity_mandatory :: bool
  c_picc_has_dam_keys :: bool
  c_picc_dam_auth_key :: bytes
  c_picc_dam_mac_key :: bytes
  c_picc_dam_encryption_key :: bytes
  c_file_pool :: bytes
  c_key_pool :: bytes
  c_key_set_metadata_pool :: bytes
  c_key_set_metadata_pool_used :: u16
  c_dirty :: bool

definition zero_card :: DfcCard where
  "zero_card = \<lparr>card_generation = DfcGenerationZero, card_storage = 0,
     card_uid_provenance = DfcUidProvenanceReal, card_has_hardware_version = False,
     card_has_software_version = False, card_hardware_version = replicate 7 0,
     card_software_version = replicate 7 0\<rparr>"

text \<open>All octets of the credential zero, as after \<^verbatim>\<open>dfc_secure_wipe\<close>.\<close>

definition zero_credential :: DfcCredential where
  "zero_credential = \<lparr>c_uid_len = 0, c_picc_key_offset = 0, c_picc_key_pool_len = 0,
     c_picc_num_keys = 0, c_picc_key_len = 0, c_picc_ats_len = 0,
     c_virtual_card_installation_id_len = 0, c_virtual_card_uid_len = 0, c_num_apps = 0,
     c_num_files = 0, c_file_pool_used = 0, c_key_pool_used = 0,
     c_apps = replicate DFC_MAX_APPS zero_application,
     c_files = replicate DFC_MAX_FILES zero_file, c_card = zero_card,
     c_picc_proximity_published_response_time = 0, c_picc_has_proximity_key = False,
     c_picc_proximity_key = replicate 16 0, c_picc_proximity_option = 0,
     c_picc_has_proximity_bitrate = False, c_picc_proximity_bitrate = 0,
     c_uid = replicate 10 0, c_picc_key_settings_1 = 0, c_picc_key_settings_2 = 0,
     c_picc_auth_command = 0, c_picc_has_auth_commands = False, c_picc_auth_commands = 0,
     c_picc_has_preferred_auth_command = False, c_picc_preferred_auth_command = 0,
     c_picc_key_versions = replicate 14 0, c_picc_random_id = False,
     c_picc_random_id_legacy = False, c_picc_format_disabled = False,
     c_picc_ats = replicate 20 0, c_picc_has_sak = False, c_picc_sak = 0,
     c_picc_has_atqa = False, c_picc_atqa = replicate 2 0, c_picc_has_sm_disable = False,
     c_picc_sm_disable = 0, c_picc_has_ev2_capabilities = False,
     c_picc_ev2_capabilities = replicate 6 0, c_picc_has_static_signature = False,
     c_picc_static_signature = replicate 56 0, c_virtual_card_configured = False,
     c_virtual_card_installation_id = replicate 16 0, c_virtual_card_information = 0,
     c_virtual_card_capabilities = replicate 2 0, c_virtual_card_uid = replicate 10 0,
     c_virtual_card_select_mac_key = replicate 16 0,
     c_virtual_card_select_encryption_key = replicate 16 0,
     c_virtual_card_authentication_mandatory = False,
     c_virtual_card_proximity_mandatory = False, c_picc_has_dam_keys = False,
     c_picc_dam_auth_key = replicate 16 0, c_picc_dam_mac_key = replicate 16 0,
     c_picc_dam_encryption_key = replicate 16 0,
     c_file_pool = replicate DFC_FILE_POOL_SIZE 0, c_key_pool = replicate DFC_KEY_POOL_SIZE 0,
     c_key_set_metadata_pool = replicate DFC_KEY_SET_METADATA_POOL_SIZE 0,
     c_key_set_metadata_pool_used = 0, c_dirty = False\<rparr>"

end
