(* ===== verification/Slice_Pool.thy ===== *)
theory Slice_Pool
  imports Dfc_Prelude
begin

text \<open>
  The credential keeps three byte pools (file contents, key material, key-set metadata).
  Each is a bump allocator whose release slides the tail down over the hole and wipes what
  the slide uncovers. This theory states once what such a pool promises: the slices of the
  records stay inside the used prefix and apart from each other, together they account for
  every used octet, and every octet past the used prefix is zero. The locales fix the
  operations a pool's client calls; the file store and the two key stores interpret them.
\<close>

type_synonym slice = "size_t \<times> size_t"

definition slice_disj :: "slice \<Rightarrow> slice \<Rightarrow> bool" where
  "slice_disj s t \<longleftrightarrow>
     snd s = 0 \<or> snd t = 0 \<or> fst s + snd s \<le> fst t \<or> fst t + snd t \<le> fst s"

definition slice_contents :: "bytes \<Rightarrow> slice \<Rightarrow> bytes" where
  "slice_contents buf s = mem_read (fst s) (snd s) buf"

definition pool_ok :: "slice list \<Rightarrow> size_t \<Rightarrow> bytes \<Rightarrow> bool" where
  "pool_ok xs used buf \<longleftrightarrow>
     used \<le> length buf \<and>
     list_all (\<lambda>s. 0 < snd s \<longrightarrow> fst s + snd s \<le> used) xs \<and>
     sorted_wrt slice_disj xs \<and>
     sum_list (map snd xs) = used \<and>
     list_all (\<lambda>b. b = 0) (drop used buf)"

text \<open>The abstract effect of a release on the offsets and on the octets.\<close>

definition slice_shift :: "size_t \<Rightarrow> size_t \<Rightarrow> slice \<Rightarrow> slice" where
  "slice_shift a m s = (if a < fst s then (fst s - m, snd s) else s)"

definition pool_compact :: "size_t \<Rightarrow> size_t \<Rightarrow> size_t \<Rightarrow> bytes \<Rightarrow> bytes" where
  "pool_compact a m used buf =
     mem_set (used - m) 0 m (mem_move a (a + m) (used - (a + m)) buf)"

definition slices_release :: "nat \<Rightarrow> slice list \<Rightarrow> slice list" where
  "slices_release i xs =
     (if snd (xs ! i) = 0 then xs
      else (map (slice_shift (fst (xs ! i)) (snd (xs ! i))) xs)[i := (0, 0)])"

subsection \<open>Consequences of the invariant\<close>

lemma slice_disj_commute: "slice_disj s t \<longleftrightarrow> slice_disj t s"
  by (auto simp: slice_disj_def)

lemma slice_disj_empty [simp]: "slice_disj (a, 0) t" "slice_disj s (b, 0)"
  by (auto simp: slice_disj_def)

lemma pool_ok_disj:
  assumes "pool_ok xs used buf" "i < length xs" "j < length xs" "i \<noteq> j"
  shows "slice_disj (xs ! i) (xs ! j)"
proof -
  have "\<And>i j. i < j \<Longrightarrow> j < length xs \<Longrightarrow> slice_disj (xs ! i) (xs ! j)"
    using assms(1) by (auto simp: pool_ok_def sorted_wrt_iff_nth_less)
  then show ?thesis
    using assms(2-4) by (metis linorder_neqE_nat slice_disj_commute)
qed

lemma pool_ok_inside:
  "pool_ok xs used buf \<Longrightarrow> i < length xs \<Longrightarrow> 0 < snd (xs ! i) \<Longrightarrow>
   fst (xs ! i) + snd (xs ! i) \<le> used"
  by (auto simp: pool_ok_def list_all_length)

lemma pool_ok_used: "pool_ok xs used buf \<Longrightarrow> used \<le> length buf"
  by (simp add: pool_ok_def)

lemma pool_ok_total: "pool_ok xs used buf \<Longrightarrow> sum_list (map snd xs) = used"
  by (simp add: pool_ok_def)

lemma pool_ok_clean:
  assumes "pool_ok xs used buf" "used \<le> i" "i < length buf"
  shows "buf ! i = 0"
proof -
  have "i - used < length (drop used buf)" using assms by simp
  then have "drop used buf ! (i - used) = 0"
    using assms(1) unfolding pool_ok_def list_all_length by blast
  then show ?thesis using assms by simp
qed

lemma pool_okI:
  assumes "used \<le> length buf"
    and "\<And>i. i < length xs \<Longrightarrow> 0 < snd (xs ! i) \<Longrightarrow> fst (xs ! i) + snd (xs ! i) \<le> used"
    and "\<And>i j. i < j \<Longrightarrow> j < length xs \<Longrightarrow> slice_disj (xs ! i) (xs ! j)"
    and "sum_list (map snd xs) = used"
    and "\<And>i. used \<le> i \<Longrightarrow> i < length buf \<Longrightarrow> buf ! i = 0"
  shows "pool_ok xs used buf"
  using assms by (auto simp: pool_ok_def list_all_length sorted_wrt_iff_nth_less)

lemma pool_ok_slice_le:
  assumes "pool_ok xs used buf" "i < length xs"
  shows "snd (xs ! i) \<le> used"
  using pool_ok_inside [OF assms] by (cases "snd (xs ! i) = 0") auto

lemma sum_list_update_snd:
  "i < length xs \<Longrightarrow>
   sum_list (map snd (xs[i := s])) + snd (xs ! i) = sum_list (map snd xs) + (snd s :: nat)"
proof (induction xs arbitrary: i)
  case (Cons x xs)
  then show ?case by (cases i) auto
qed simp

lemma snd_slice_shift [simp]: "snd (slice_shift a m s) = snd s"
  by (simp add: slice_shift_def)

lemma map_snd_slice_shift [simp]: "map snd (map (slice_shift a m) xs) = map snd xs"
  by simp

lemma length_slices_release [simp]: "length (slices_release i xs) = length xs"
  by (simp add: slices_release_def)

lemma length_pool_compact [simp]:
  "a + m \<le> used \<Longrightarrow> used \<le> length buf \<Longrightarrow> length (pool_compact a m used buf) = length buf"
  by (simp add: pool_compact_def)

lemma nth_pool_compact:
  "a + m \<le> used \<Longrightarrow> used \<le> length buf \<Longrightarrow> i < length buf \<Longrightarrow>
   pool_compact a m used buf ! i =
     (if i < a then buf ! i else if i < used - m then buf ! (i + m)
      else if i < used then 0 else buf ! i)"
  by (auto simp: pool_compact_def nth_mem_set nth_mem_move intro!: arg_cong [of _ _ "(!) buf"])

subsection \<open>Release keeps the invariant and the other slices\<close>

lemma slices_release_nth:
  "i < length xs \<Longrightarrow> j < length xs \<Longrightarrow> 0 < snd (xs ! i) \<Longrightarrow>
   slices_release i xs ! j =
     (if j = i then (0, 0) else slice_shift (fst (xs ! i)) (snd (xs ! i)) (xs ! j))"
  by (simp add: slices_release_def)

lemma slice_shift_cases:
  assumes "slice_disj (a, m) s" "0 < m" "0 < snd s"
  obtains "fst s + snd s \<le> a" "slice_shift a m s = s"
  | "a + m \<le> fst s" "slice_shift a m s = (fst s - m, snd s)"
  using assms by (cases s) (fastforce simp: slice_disj_def slice_shift_def)

lemma slice_shift_disj:
  assumes "slice_disj (a, m) s" "slice_disj (a, m) t" "slice_disj s t" "0 < m"
  shows "slice_disj (slice_shift a m s) (slice_shift a m t)"
proof (cases "snd s = 0 \<or> snd t = 0")
  case True
  then show ?thesis by (auto simp: slice_disj_def)
next
  case False
  then have "0 < snd s" "0 < snd t" by auto
  then show ?thesis
    using assms by (auto simp: slice_disj_def slice_shift_def)
qed

lemma pool_ok_release:
  assumes ok: "pool_ok xs used buf" and i: "i < length xs"
    and m: "0 < snd (xs ! i)"
  shows "pool_ok (slices_release i xs) (used - snd (xs ! i))
           (pool_compact (fst (xs ! i)) (snd (xs ! i)) used buf)"
proof (rule pool_okI)
  let ?a = "fst (xs ! i)" and ?m = "snd (xs ! i)"
  have am: "?a + ?m \<le> used" by (rule pool_ok_inside [OF ok i m])
  have ub: "used \<le> length buf" by (rule pool_ok_used [OF ok])
  show "used - ?m \<le> length (pool_compact ?a ?m used buf)" using am ub by simp
  have d: "\<And>j. j < length xs \<Longrightarrow> j \<noteq> i \<Longrightarrow> slice_disj (?a, ?m) (xs ! j)"
    using pool_ok_disj [OF ok i] by simp
  show "fst (slices_release i xs ! j) + snd (slices_release i xs ! j) \<le> used - ?m"
    if j: "j < length (slices_release i xs)" and n: "0 < snd (slices_release i xs ! j)" for j
  proof -
    have j': "j < length xs" "j \<noteq> i" "0 < snd (xs ! j)"
      using j n i m by (auto simp: slices_release_nth split: if_splits)
    have "fst (xs ! j) + snd (xs ! j) \<le> used" using pool_ok_inside [OF ok] j' by blast
    then show ?thesis
      using i j' m am d [OF j'(1,2)]
      by (simp add: slices_release_nth) (auto simp: slice_disj_def slice_shift_def)
  qed
  show "slice_disj (slices_release i xs ! j) (slices_release i xs ! k)"
    if jk: "j < k" "k < length (slices_release i xs)" for j k
  proof (cases "j = i \<or> k = i")
    case True
    then show ?thesis using jk i m by (auto simp: slices_release_nth)
  next
    case False
    moreover have "slice_disj (xs ! j) (xs ! k)" using jk pool_ok_disj [OF ok] by simp
    ultimately show ?thesis
      using jk i m d slice_shift_disj [OF d d _ m] by (simp add: slices_release_nth)
  qed
  show "sum_list (map snd (slices_release i xs)) = used - ?m"
    using sum_list_update_snd [of i "map (slice_shift ?a ?m) xs" "(0, 0)"] i m
      pool_ok_total [OF ok] by (simp add: slices_release_def comp_def)
  show "pool_compact ?a ?m used buf ! j = 0"
    if "used - ?m \<le> j" "j < length (pool_compact ?a ?m used buf)" for j
    using that am ub pool_ok_clean [OF ok, of j] by (auto simp: nth_pool_compact)
qed

lemma slice_contents_release:
  assumes ok: "pool_ok xs used buf" and i: "i < length xs" and m: "0 < snd (xs ! i)"
    and j: "j < length xs" "j \<noteq> i"
  shows "slice_contents (pool_compact (fst (xs ! i)) (snd (xs ! i)) used buf) (slices_release i xs ! j)
       = slice_contents buf (xs ! j)"
proof (cases "snd (xs ! j) = 0")
  case True
  then show ?thesis using i j m by (simp add: slice_contents_def slices_release_nth)
next
  case False
  let ?a = "fst (xs ! i)" and ?m = "snd (xs ! i)"
  have am: "?a + ?m \<le> used" "used \<le> length buf"
    using pool_ok_inside [OF ok i m] pool_ok_used [OF ok] by auto
  have b: "fst (xs ! j) + snd (xs ! j) \<le> used" using pool_ok_inside [OF ok] j False by blast
  have "slice_disj (?a, ?m) (xs ! j)" using pool_ok_disj [OF ok i j(1)] j(2) by simp
  then show ?thesis
  proof (rule slice_shift_cases [OF _ m])
    show "0 < snd (xs ! j)" using False by simp
  next
    assume "fst (xs ! j) + snd (xs ! j) \<le> ?a" "slice_shift ?a ?m (xs ! j) = xs ! j"
    then show ?thesis using am b i j m unfolding slice_contents_def
      by (simp add: slices_release_nth) (intro mem_read_shift_eqI, auto simp: nth_pool_compact)
  next
    assume "?a + ?m \<le> fst (xs ! j)" "slice_shift ?a ?m (xs ! j) = (fst (xs ! j) - ?m, snd (xs ! j))"
    then show ?thesis using am b i j m unfolding slice_contents_def
      by (simp add: slices_release_nth) (intro mem_read_shift_eqI, auto simp: nth_pool_compact)
  qed
qed

subsection \<open>Allocation at the end of the used prefix\<close>

lemma pool_ok_alloc:
  assumes ok: "pool_ok xs used buf" and i: "i < length xs" and e: "snd (xs ! i) = 0"
    and n: "used + n \<le> length buf"
  shows "pool_ok (xs[i := (used, n)]) (used + n) (mem_set used 0 n buf)"
proof (rule pool_okI)
  have ins: "\<And>j. j < length xs \<Longrightarrow> snd (xs ! j) = 0 \<or> fst (xs ! j) + snd (xs ! j) \<le> used"
    using pool_ok_inside [OF ok] by blast
  show "slice_disj (xs[i := (used, n)] ! j) (xs[i := (used, n)] ! k)"
    if jk: "j < k" "k < length (xs[i := (used, n)])" for j k
    using jk i ins [of j] ins [of k] pool_ok_disj [OF ok, of j k]
    by (cases "j = i"; cases "k = i") (auto simp: slice_disj_def nth_list_update)
  show "fst (xs[i := (used, n)] ! j) + snd (xs[i := (used, n)] ! j) \<le> used + n"
    if "j < length (xs[i := (used, n)])" "0 < snd (xs[i := (used, n)] ! j)" for j
    using that i ins [of j] by (auto simp: nth_list_update split: if_splits)
  show "sum_list (map snd (xs[i := (used, n)])) = used + n"
    using sum_list_update_snd [OF i, of "(used, n)"] pool_ok_total [OF ok] e by simp
  show "mem_set used 0 n buf ! j = 0"
    if "used + n \<le> j" "j < length (mem_set used 0 n buf)" for j
    using that n pool_ok_clean [OF ok] by (simp add: nth_mem_set)
qed (use n in simp)

lemma slice_contents_alloc_other:
  assumes "pool_ok xs used buf" "j < length xs" "used + n \<le> length buf"
  shows "slice_contents (mem_set used 0 n buf) (xs ! j) = slice_contents buf (xs ! j)"
proof (cases "snd (xs ! j) = 0")
  case True
  then show ?thesis by (simp add: slice_contents_def)
next
  case False
  then show ?thesis
    using assms pool_ok_inside [OF assms(1,2)]
    by (auto simp: slice_contents_def intro!: mem_read_set_other)
qed

text \<open>The last slice can also grow in place.\<close>

lemma pool_ok_grow:
  assumes ok: "pool_ok xs used buf" and i: "i < length xs" and x: "xs ! i = (a, m)"
    and m: "0 < m" "a + m = used" and g: "used + g \<le> length buf"
  shows "pool_ok (xs[i := (a, m + g)]) (used + g) (mem_set used 0 g buf)"
proof (rule pool_okI)
  have ins: "\<And>j. j < length xs \<Longrightarrow> snd (xs ! j) = 0 \<or> fst (xs ! j) + snd (xs ! j) \<le> used"
    using pool_ok_inside [OF ok] by blast
  have d: "\<And>j. j < length xs \<Longrightarrow> j \<noteq> i \<Longrightarrow> snd (xs ! j) = 0 \<or> fst (xs ! j) + snd (xs ! j) \<le> a"
    using pool_ok_disj [OF ok i] x m ins by (fastforce simp: slice_disj_def)
  show "slice_disj (xs[i := (a, m + g)] ! j) (xs[i := (a, m + g)] ! k)"
    if jk: "j < k" "k < length (xs[i := (a, m + g)])" for j k
    using jk i d [of j] d [of k] pool_ok_disj [OF ok, of j k]
    by (cases "j = i"; cases "k = i") (auto simp: slice_disj_def nth_list_update)
  show "fst (xs[i := (a, m + g)] ! j) + snd (xs[i := (a, m + g)] ! j) \<le> used + g"
    if "j < length (xs[i := (a, m + g)])" "0 < snd (xs[i := (a, m + g)] ! j)" for j
    using that i m ins [of j] by (auto simp: nth_list_update split: if_splits)
  show "sum_list (map snd (xs[i := (a, m + g)])) = used + g"
    using sum_list_update_snd [OF i, of "(a, m + g)"] pool_ok_total [OF ok] x by simp
  show "mem_set used 0 g buf ! j = 0"
    if "used + g \<le> j" "j < length (mem_set used 0 g buf)" for j
    using that g pool_ok_clean [OF ok] by (simp add: nth_mem_set)
qed (use g in simp)

lemma slice_contents_grow:
  assumes "a + m = used" "used + g \<le> length buf"
  shows "slice_contents (mem_set used 0 g buf) (a, m + g) = slice_contents buf (a, m) @ replicate g 0"
  using assms by (intro nth_equalityI) (auto simp: slice_contents_def nth_mem_set nth_append)

text \<open>An octet string written into a record's own slice disturbs no other record.\<close>

lemma pool_ok_write:
  assumes ok: "pool_ok xs used buf" and i: "i < length xs"
    and w: "fst (xs ! i) \<le> off" "off + length src \<le> fst (xs ! i) + snd (xs ! i)"
    and m: "0 < snd (xs ! i)"
  shows "pool_ok xs used (mem_write off src buf)"
proof -
  have "fst (xs ! i) + snd (xs ! i) \<le> used" by (rule pool_ok_inside [OF ok i m])
  with w have o: "off + length src \<le> used" by simp
  show ?thesis
  proof (rule pool_okI)
    show "mem_write off src buf ! j = 0"
      if "used \<le> j" "j < length (mem_write off src buf)" for j
      using that o pool_ok_used [OF ok] pool_ok_clean [OF ok, of j] by (simp add: nth_mem_write)
  qed (use ok o pool_ok_used [OF ok] in \<open>auto intro: pool_ok_inside pool_ok_disj pool_ok_total\<close>)
qed

lemma slice_contents_write_other:
  assumes ok: "pool_ok xs used buf" and i: "i < length xs"
    and w: "fst (xs ! i) \<le> off" "off + length src \<le> fst (xs ! i) + snd (xs ! i)"
    and m: "0 < snd (xs ! i)" and j: "j < length xs" "j \<noteq> i"
  shows "slice_contents (mem_write off src buf) (xs ! j) = slice_contents buf (xs ! j)"
proof (cases "snd (xs ! j) = 0")
  case False
  then show ?thesis
    using pool_ok_disj [OF ok i j(1)] j(2) m w pool_ok_inside [OF ok i m] pool_ok_inside [OF ok j(1)]
      pool_ok_used [OF ok]
    by (auto simp: slice_contents_def slice_disj_def intro!: mem_read_write_other)
qed (simp add: slice_contents_def)

lemma slice_contents_write_prefix:
  assumes "length src \<le> snd s" "fst s + snd s \<le> length buf"
  shows "slice_contents (mem_write (fst s) src buf) s = src @ drop (length src) (slice_contents buf s)"
  using assms by (intro nth_equalityI) (auto simp: slice_contents_def nth_mem_write nth_append)

text \<open>Dropping a record that owns nothing, as the array shifts of the code do.\<close>

lemma pool_ok_remove:
  assumes "pool_ok (xs @ s # ys) used buf" "snd s = 0"
  shows "pool_ok (xs @ ys) used buf"
  using assms by (auto simp: pool_ok_def sorted_wrt_append)

lemma pool_ok_insert_empty:
  assumes "pool_ok (xs @ ys) used buf" "snd s = 0"
  shows "pool_ok (xs @ s # ys) used buf"
  using assms by (auto simp: pool_ok_def sorted_wrt_append slice_disj_def)

lemma pool_ok_empty:
  "list_all (\<lambda>s. snd s = 0) xs \<Longrightarrow> list_all (\<lambda>b. b = 0) buf \<Longrightarrow> pool_ok xs 0 buf"
  by (auto simp: pool_ok_def list_all_iff sorted_wrt_iff_nth_less slice_disj_def)

subsection \<open>Slots: the offset and length fields a record keeps\<close>

text \<open>
  A record names its slice by two sixteen-bit fields. The sentinel offset or a zero length
  mean that it owns nothing.
\<close>

definition SLOT_NONE :: u16 where "SLOT_NONE = 0xFFFF"

definition slot_slice :: "u16 \<times> u16 \<Rightarrow> slice" where
  "slot_slice s = (if fst s = SLOT_NONE \<or> snd s = 0 then (0, 0) else (unat (fst s), unat (snd s)))"

definition slot_ok :: "u16 \<times> u16 \<Rightarrow> bool" where
  "slot_ok s \<longleftrightarrow> (if snd s = 0 then fst s = 0 \<or> fst s = SLOT_NONE else fst s \<noteq> SLOT_NONE)"

definition offset_shift :: "size_t \<Rightarrow> size_t \<Rightarrow> u16 \<Rightarrow> u16" where
  "offset_shift freed_offset freed_len offset =
     (if offset \<noteq> SLOT_NONE \<and> unat offset > freed_offset then of_nat (unat offset - freed_len)
      else offset)"

definition slots_release :: "nat \<Rightarrow> (u16 \<times> u16) list \<Rightarrow> (u16 \<times> u16) list" where
  "slots_release i xs =
     (if snd (xs ! i) = 0 then xs
      else map (apfst (offset_shift (unat (fst (xs ! i))) (unat (snd (xs ! i))))) xs)[i := (SLOT_NONE, 0)]"

text \<open>
  \<^verbatim>\<open>dfc_pool_slice_resolve\<close>, which every resize calls first: \<open>None\<close> is the
  \<open>false\<close> return, \<open>Some\<close> the resolved offset.
\<close>

definition dfc_pool_slice_resolve ::
  "size_t \<Rightarrow> size_t \<Rightarrow> size_t \<Rightarrow> size_t \<Rightarrow> size_t option" where
  "dfc_pool_slice_resolve offset len used none =
     (if len = 0 then
        (if offset \<noteq> 0 \<and> offset \<noteq> none then None else Some none)
      else if offset = none \<or> offset > used \<or> len > used - offset then None
      else Some offset)"

lemma unat_SLOT_NONE [simp]: "unat SLOT_NONE = 65535"
  by (simp add: SLOT_NONE_def)

lemma u16_eq_SLOT_NONE_iff: "(x :: u16) = SLOT_NONE \<longleftrightarrow> unat x = 65535"
  by (metis unat_SLOT_NONE word_unat_eq_iff)

lemma slot_slice_none [simp]: "slot_slice (SLOT_NONE, n) = (0, 0)" "slot_slice (a, 0) = (0, 0)"
  by (simp_all add: slot_slice_def)

lemma slot_ok_none [simp]: "slot_ok (SLOT_NONE, 0)" "slot_ok (0, 0)"
  by (simp_all add: slot_ok_def)

lemma slot_slice_shift:
  "0 < m \<Longrightarrow> slot_slice (apfst (offset_shift a m) s) = slice_shift a m (slot_slice s)"
  using unat_u16_less [of "fst s"]
  by (auto simp: offset_shift_def slot_slice_def slice_shift_def u16_eq_SLOT_NONE_iff apfst_def map_prod_def
      split: prod.splits)

lemma slot_ok_shift: "slot_ok s \<Longrightarrow> 0 < m \<Longrightarrow> slot_ok (apfst (offset_shift a m) s)"
  using unat_u16_less [of "fst s"]
  by (cases s) (auto simp: offset_shift_def slot_ok_def u16_eq_SLOT_NONE_iff split: if_splits)

lemma slot_slice_eqs:
  assumes "slot_ok s"
  shows "snd (slot_slice s) = unat (snd s)"
    and "snd s \<noteq> 0 \<Longrightarrow> fst (slot_slice s) = unat (fst s)"
  using assms by (auto simp: slot_slice_def slot_ok_def unat_eq_0 split: if_splits)

lemma length_slots_release [simp]: "length (slots_release i xs) = length xs"
  by (simp add: slots_release_def)

lemma slots_release_view:
  assumes ok: "list_all slot_ok xs" and i: "i < length xs"
  shows "map slot_slice (slots_release i xs) = slices_release i (map slot_slice xs)"
    and "list_all slot_ok (slots_release i xs)"
proof -
  let ?a = "unat (fst (xs ! i))" and ?m = "unat (snd (xs ! i))"
  have s: "slot_ok (xs ! i)" using ok i by (auto simp: list_all_length)
  show "map slot_slice (slots_release i xs) = slices_release i (map slot_slice xs)"
  proof (cases "snd (xs ! i) = 0")
    case True
    then have "(map slot_slice xs)[i := (0, 0)] = map slot_slice xs"
      using i by (metis list_update_id map_update prod.collapse slot_slice_none(2))
    with True i show ?thesis
      using slot_slice_eqs(1) [OF s] by (simp add: slots_release_def slices_release_def map_update)
  next
    case False
    then have m: "0 < ?m" by (simp add: unat_gt_0)
    have "map slot_slice (map (apfst (offset_shift ?a ?m)) xs) =
        map (slice_shift ?a ?m) (map slot_slice xs)"
      using slot_slice_shift [OF m] by simp
    moreover have "slot_slice (xs ! i) = (?a, ?m)"
      using slot_slice_eqs [OF s] False by (simp add: prod_eq_iff)
    ultimately show ?thesis
      using False m i
      by (simp del: map_map add: slots_release_def slices_release_def map_update)
  qed
  have "list_all slot_ok (map (apfst (offset_shift ?a ?m)) xs)" if "snd (xs ! i) \<noteq> 0"
    using ok slot_ok_shift that by (auto simp: list_all_iff unat_gt_0)
  then show "list_all slot_ok (slots_release i xs)"
    using ok by (auto simp: slots_release_def intro!: list_all_list_update)
qed

lemma slot_slice_new: "n \<noteq> 0 \<Longrightarrow> a \<noteq> SLOT_NONE \<Longrightarrow> slot_slice (a, n) = (unat a, unat n)"
  by (simp add: slot_slice_def)

lemma map_update_same: "h (g (xs ! i)) = h (xs ! i) \<Longrightarrow> map h (xs[i := g (xs ! i)]) = map h xs"
  by (metis list_update_id map_update)

subsection \<open>The interface of a compacting pool\<close>

text \<open>
  A provider shows how its release acts on the slices, the used length and the octets. The
  client's facts follow for every provider.
\<close>

locale slice_pool =
  fixes slices :: "'s \<Rightarrow> slice list"
    and used :: "'s \<Rightarrow> size_t"
    and octets :: "'s \<Rightarrow> bytes"
    and capacity :: size_t
    and wf :: "'s \<Rightarrow> bool"
    and release :: "nat \<Rightarrow> 's \<Rightarrow> 's"
  assumes length_octets: "wf s \<Longrightarrow> length (octets s) = capacity"
    and wf_release:
      "wf s \<Longrightarrow> pool_ok (slices s) (used s) (octets s) \<Longrightarrow> i < length (slices s) \<Longrightarrow>
       wf (release i s)"
    and slices_release_eq:
      "wf s \<Longrightarrow> pool_ok (slices s) (used s) (octets s) \<Longrightarrow> i < length (slices s) \<Longrightarrow>
       slices (release i s) = slices_release i (slices s)"
    and used_release_eq:
      "wf s \<Longrightarrow> pool_ok (slices s) (used s) (octets s) \<Longrightarrow> i < length (slices s) \<Longrightarrow>
       used (release i s) = used s - snd (slices s ! i)"
    and octets_release_eq:
      "wf s \<Longrightarrow> pool_ok (slices s) (used s) (octets s) \<Longrightarrow> i < length (slices s) \<Longrightarrow>
       octets (release i s) =
         (if snd (slices s ! i) = 0 then octets s
          else pool_compact (fst (slices s ! i)) (snd (slices s ! i)) (used s) (octets s))"
begin

definition invar :: "'s \<Rightarrow> bool" where
  "invar s \<longleftrightarrow> wf s \<and> pool_ok (slices s) (used s) (octets s)"

definition contents :: "'s \<Rightarrow> nat \<Rightarrow> bytes" where
  "contents s i = slice_contents (octets s) (slices s ! i)"

lemma release_invar:
  assumes "invar s" "i < length (slices s)"
  shows "invar (release i s)"
  using assms pool_ok_release [of "slices s" "used s" "octets s" i]
  by (cases "snd (slices s ! i) = 0")
    (auto simp: invar_def wf_release slices_release_eq used_release_eq octets_release_eq
      slices_release_def)

lemma release_slice_empty:
  assumes "invar s" "i < length (slices s)"
  shows "snd (slices (release i s) ! i) = 0"
  using assms by (auto simp: invar_def slices_release_eq slices_release_def)

lemma length_slices_after_release:
  "invar s \<Longrightarrow> i < length (slices s) \<Longrightarrow> length (slices (release i s)) = length (slices s)"
  by (simp add: invar_def slices_release_eq)

lemma release_contents:
  assumes "invar s" "i < length (slices s)" "j < length (slices s)" "j \<noteq> i"
  shows "contents (release i s) j = contents s j"
  using assms slice_contents_release [of "slices s" "used s" "octets s" i j]
  by (cases "snd (slices s ! i) = 0")
    (auto simp: invar_def contents_def slices_release_eq used_release_eq octets_release_eq
      slices_release_def)

lemma release_frees:
  assumes "invar s" "i < length (slices s)"
  shows "capacity - used (release i s) = capacity - used s + snd (slices s ! i)"
  using assms pool_ok_slice_le [of "slices s" "used s" "octets s" i] pool_ok_used
  by (fastforce simp: invar_def used_release_eq length_octets)

lemma unused_is_zero:
  "invar s \<Longrightarrow> used s \<le> i \<Longrightarrow> i < capacity \<Longrightarrow> octets s ! i = 0"
  by (metis invar_def length_octets pool_ok_clean)

end

lemma dfc_pool_slice_resolve_eq:
  assumes "slot_ok s" "snd s \<noteq> 0 \<Longrightarrow> unat (fst s) + unat (snd s) \<le> used"
  shows "dfc_pool_slice_resolve (unat (fst s)) (unat (snd s)) used 65535 =
    Some (if snd s = 0 then 65535 else unat (fst s))"
  using assms by (auto simp: dfc_pool_slice_resolve_def slot_ok_def u16_eq_SLOT_NONE_iff unat_eq_0
      split: if_splits)

text \<open>
  A pool whose records can be resized. \<open>keeps\<close> says whether a request for the length a
  record already has leaves its slice where it is.
\<close>

locale resizable_pool = slice_pool slices used octets capacity wf release
  for slices :: "'s \<Rightarrow> slice list"
    and used :: "'s \<Rightarrow> size_t"
    and octets :: "'s \<Rightarrow> bytes"
    and capacity :: size_t
    and wf :: "'s \<Rightarrow> bool"
    and release :: "nat \<Rightarrow> 's \<Rightarrow> 's" +
  fixes resize :: "nat \<Rightarrow> 'r \<Rightarrow> 's \<Rightarrow> bool \<times> 's"
    and want :: "'r \<Rightarrow> size_t"
    and admissible :: "'r \<Rightarrow> bool"
    and keeps :: bool
  assumes resize_accepts:
      "invar s \<Longrightarrow> i < length (slices s) \<Longrightarrow>
       fst (resize i r s) \<longleftrightarrow>
         admissible r \<and> used s - snd (slices s ! i) + want r \<le> capacity"
    and resize_refused:
      "invar s \<Longrightarrow> i < length (slices s) \<Longrightarrow> resize i r s = (False, s') \<Longrightarrow> s' = s"
    and resize_wf:
      "invar s \<Longrightarrow> i < length (slices s) \<Longrightarrow> resize i r s = (True, s') \<Longrightarrow> wf s'"
    and resize_slices:
      "invar s \<Longrightarrow> i < length (slices s) \<Longrightarrow> resize i r s = (True, s') \<Longrightarrow>
       slices s' =
         (if keeps \<and> snd (slices s ! i) = want r then slices s
          else if want r = 0 then slices (release i s)
          else (slices (release i s))[i := (used (release i s), want r)])"
    and resize_used:
      "invar s \<Longrightarrow> i < length (slices s) \<Longrightarrow> resize i r s = (True, s') \<Longrightarrow>
       used s' =
         (if keeps \<and> snd (slices s ! i) = want r then used s else used (release i s) + want r)"
    and resize_octets:
      "invar s \<Longrightarrow> i < length (slices s) \<Longrightarrow> resize i r s = (True, s') \<Longrightarrow>
       octets s' =
         (if keeps \<and> snd (slices s ! i) = want r then octets s
          else mem_set (used (release i s)) 0 (want r) (octets (release i s)))"
begin

lemma resize_fits:
  assumes "invar s" "i < length (slices s)" "resize i r s = (True, s')"
  shows "used (release i s) + want r \<le> capacity"
  using resize_accepts [OF assms(1,2), of r] assms by (simp add: invar_def used_release_eq)

lemma resize_invar:
  assumes inv: "invar s" and i: "i < length (slices s)" and r: "resize i r s = (True, s')"
  shows "invar s'"
proof (cases "keeps \<and> snd (slices s ! i) = want r")
  case True
  then show ?thesis
    using inv resize_wf [OF inv i r] resize_slices [OF inv i r] resize_used [OF inv i r]
      resize_octets [OF inv i r]
    by (simp add: invar_def)
next
  case False
  let ?t = "release i s"
  have t: "invar ?t" by (rule release_invar [OF inv i])
  have "used ?t + want r \<le> length (octets ?t)"
    using resize_fits [OF inv i r] t by (simp add: invar_def length_octets)
  then have "pool_ok ((slices ?t)[i := (used ?t, want r)]) (used ?t + want r)
       (mem_set (used ?t) 0 (want r) (octets ?t))"
    using t i release_slice_empty [OF inv i] length_slices_after_release [OF inv i]
    by (intro pool_ok_alloc) (auto simp: invar_def)
  then show ?thesis
    using False t resize_wf [OF inv i r] resize_slices [OF inv i r] resize_used [OF inv i r]
      resize_octets [OF inv i r]
    by (auto simp: invar_def)
qed

lemma resize_length:
  assumes "invar s" "i < length (slices s)" "resize i r s = (True, s')"
  shows "length (slices s') = length (slices s)"
  using resize_slices [OF assms] length_slices_after_release [OF assms(1,2)] by auto

lemma resize_size:
  assumes "invar s" "i < length (slices s)" "resize i r s = (True, s')"
  shows "snd (slices s' ! i) = want r"
  using resize_slices [OF assms] assms(2) release_slice_empty [OF assms(1,2)]
    length_slices_after_release [OF assms(1,2)]
  by (auto split: if_splits)

lemma resize_others:
  assumes inv: "invar s" and i: "i < length (slices s)" and r: "resize i r s = (True, s')"
    and j: "j < length (slices s)" "j \<noteq> i"
  shows "contents s' j = contents s j"
proof (cases "keeps \<and> snd (slices s ! i) = want r")
  case True
  then show ?thesis
    using resize_slices [OF inv i r] resize_octets [OF inv i r] by (simp add: contents_def)
next
  case False
  let ?t = "release i s"
  have t: "invar ?t" by (rule release_invar [OF inv i])
  have "used ?t + want r \<le> length (octets ?t)"
    using resize_fits [OF inv i r] t by (simp add: invar_def length_octets)
  then have "slice_contents (mem_set (used ?t) 0 (want r) (octets ?t)) (slices ?t ! j) =
      slice_contents (octets ?t) (slices ?t ! j)"
    using t j length_slices_after_release [OF inv i]
    by (intro slice_contents_alloc_other) (auto simp: invar_def)
  moreover have "slices s' ! j = slices ?t ! j"
    using resize_slices [OF inv i r] False j by simp
  ultimately show ?thesis
    using False resize_octets [OF inv i r] release_contents [OF inv i j]
    by (auto simp: contents_def)
qed

lemma resize_fresh:
  assumes inv: "invar s" and i: "i < length (slices s)" and r: "resize i r s = (True, s')"
    and new: "\<not> (keeps \<and> snd (slices s ! i) = want r)"
  shows "contents s' i = replicate (want r) 0"
proof (cases "want r = 0")
  case True
  then show ?thesis
    using resize_size [OF inv i r] by (simp add: contents_def slice_contents_def)
next
  case False
  have "used (release i s) + want r \<le> length (octets (release i s))"
    using resize_fits [OF inv i r] release_invar [OF inv i]
    by (simp add: invar_def length_octets)
  then show ?thesis
    using False new i resize_slices [OF inv i r] resize_octets [OF inv i r]
      length_slices_after_release [OF inv i]
    by (auto simp: contents_def slice_contents_def mem_simps)
qed

lemma resize_same_keeps:
  assumes "invar s" "i < length (slices s)" "resize i r s = (True, s')"
    and "keeps" "snd (slices s ! i) = want r"
  shows "contents s' i = contents s i"
  using resize_slices [OF assms(1-3)] resize_octets [OF assms(1-3)] assms(4,5)
  by (simp add: contents_def)

text \<open>No fragmentation: a request is refused only when the records really do not fit.\<close>

lemma resize_complete:
  assumes inv: "invar s" and i: "i < length (slices s)"
  shows "fst (resize i r s) \<longleftrightarrow>
    admissible r \<and> sum_list (map snd ((slices s)[i := (0, want r)])) \<le> capacity"
proof -
  have "snd (slices s ! i) \<le> used s" "sum_list (map snd (slices s)) = used s"
    using inv i by (auto simp: invar_def intro: pool_ok_slice_le pool_ok_total)
  then show ?thesis
    using resize_accepts [OF inv i, of r] sum_list_update_snd [OF i, of "(0, want r)"] by auto
qed

end

end
