(* ===== verification/Dfc_File_Pool.thy ===== *)
theory Dfc_File_Pool
  imports Dfc_Types Slice_Pool
begin

text \<open>
  The file records and the shared file-contents pool of \<^verbatim>\<open>src/dfc_credential.c\<close>.
  A \<^verbatim>\<open>DfcFile*\<close> into the credential's array is its index; a returned data
  pointer is its offset in the pool; \<^verbatim>\<open>NULL\<close> is \<open>None\<close>.
\<close>

definition upd_file :: "size_t \<Rightarrow> (DfcFile \<Rightarrow> DfcFile) \<Rightarrow> DfcCredential \<Rightarrow> DfcCredential" where
  "upd_file i g c = c\<lparr>c_files := (c_files c)[i := g (c_files c ! i)]\<rparr>"

text \<open>One round of the loop that corrects the offsets held by the other records.\<close>

definition file_offset_shift :: "size_t \<Rightarrow> size_t \<Rightarrow> DfcFile \<Rightarrow> DfcFile" where
  "file_offset_shift freed_offset freed_len other =
     (if f_data_offset other \<noteq> DFC_FILE_POOL_NONE \<and> unat (f_data_offset other) > freed_offset
      then other\<lparr>f_data_offset := of_nat (unat (f_data_offset other) - freed_len)\<rparr>
      else other)"

definition dfc_file_pool_compact_after_release ::
  "DfcCredential \<Rightarrow> size_t \<Rightarrow> size_t \<Rightarrow> DfcCredential" where
  "dfc_file_pool_compact_after_release c freed_offset freed_len =
     (if freed_len = 0 \<or> freed_offset = unat DFC_FILE_POOL_NONE then c
      else
        let tail = unat (c_file_pool_used c) - (freed_offset + freed_len);
            pool = (if tail > 0
              then mem_move freed_offset (freed_offset + freed_len) tail (c_file_pool c)
              else c_file_pool c);
            used = (of_nat (unat (c_file_pool_used c) - freed_len) :: u16);
            n = unat (c_num_files c)
        in c\<lparr>c_file_pool_used := used,
             c_file_pool := mem_set (unat used) 0 freed_len pool,
             c_files :=
               map (file_offset_shift freed_offset freed_len) (take n (c_files c))
               @ drop n (c_files c)\<rparr>)"

definition dfc_file_data :: "DfcCredential \<Rightarrow> size_t \<Rightarrow> size_t option" where
  "dfc_file_data c i =
     (let file = c_files c ! i in
      if f_data_offset file = DFC_FILE_POOL_NONE \<or> f_data_len file = 0 then None
      else if unat (f_data_offset file) + unat (f_data_len file) > unat (c_file_pool_used c)
      then None
      else Some (unat (f_data_offset file)))"

definition dfc_file_resize :: "DfcCredential \<Rightarrow> size_t \<Rightarrow> size_t \<Rightarrow> bool \<times> DfcCredential" where
  "dfc_file_resize c i data_len =
     (let file = c_files c ! i in
      if data_len > DFC_MAX_FILE_DATA then (False, c)
      else if data_len > DFC_FILE_POOL_SIZE then (False, c)
      else if unat (c_file_pool_used c) > DFC_FILE_POOL_SIZE then (False, c)
      else case dfc_pool_slice_resolve (unat (f_data_offset file)) (unat (f_data_len file))
                  (unat (c_file_pool_used c)) (unat DFC_FILE_POOL_NONE) of
        None \<Rightarrow> (False, c)
      | Some old_offset \<Rightarrow>
        if old_offset \<noteq> unat DFC_FILE_POOL_NONE \<and> unat (f_data_len file) = data_len then (True, c)
        else if old_offset \<noteq> unat DFC_FILE_POOL_NONE \<and>
                unat (f_data_len file) > unat (c_file_pool_used c) then (False, c)
        else
          let used_without_old =
                (if old_offset \<noteq> unat DFC_FILE_POOL_NONE
                 then unat (c_file_pool_used c) - unat (f_data_len file)
                 else unat (c_file_pool_used c))
          in
          if data_len > DFC_FILE_POOL_SIZE - used_without_old then (False, c)
          else
            let old_len = unat (f_data_len file);
                c1 = (if old_offset \<noteq> unat DFC_FILE_POOL_NONE
                  then dfc_file_pool_compact_after_release
                         (upd_file i (\<lambda>f. f\<lparr>f_data_offset := DFC_FILE_POOL_NONE, f_data_len := 0\<rparr>) c)
                         old_offset old_len
                  else c)
            in
            if data_len = 0
            then (True, upd_file i (\<lambda>f. f\<lparr>f_data_offset := DFC_FILE_POOL_NONE, f_data_len := 0\<rparr>) c1)
            else
              let c2 = upd_file i (\<lambda>f. f\<lparr>f_data_offset := c_file_pool_used c1,
                                           f_data_len := of_nat data_len\<rparr>) c1
              in (True, c2\<lparr>
                    c_file_pool := mem_set (unat (c_file_pool_used c1)) 0 data_len (c_file_pool c2),
                    c_file_pool_used := of_nat (unat (c_file_pool_used c2) + data_len)\<rparr>))"

definition dfc_file_release :: "DfcCredential \<Rightarrow> size_t \<Rightarrow> DfcCredential" where
  "dfc_file_release c i =
     (let file = c_files c ! i in
      if f_data_offset file = DFC_FILE_POOL_NONE then upd_file i (\<lambda>f. f\<lparr>f_data_len := 0\<rparr>) c
      else
        let off = unat (f_data_offset file); len = unat (f_data_len file)
        in dfc_file_pool_compact_after_release
             (upd_file i (\<lambda>f. f\<lparr>f_data_offset := DFC_FILE_POOL_NONE, f_data_len := 0\<rparr>) c) off len)"

definition dfc_credential_file_pool_free :: "DfcCredential \<Rightarrow> size_t" where
  "dfc_credential_file_pool_free c =
     (if unat (c_file_pool_used c) \<ge> DFC_FILE_POOL_SIZE then 0
      else DFC_FILE_POOL_SIZE - unat (c_file_pool_used c))"

subsection \<open>Finding, creating and deleting file records\<close>

definition dfc_credential_find_file_in_app ::
  "DfcCredential \<Rightarrow> size_t \<Rightarrow> u8 \<Rightarrow> size_t option" where
  "dfc_credential_find_file_in_app c app_index number =
     find_index_from (\<lambda>i. unat (f_app_index (c_files c ! i)) = app_index \<and>
                          f_number (c_files c ! i) = number) 0 (unat (c_num_files c))"

definition dfc_credential_find_file :: "DfcCredential \<Rightarrow> u8 \<Rightarrow> size_t option" where
  "dfc_credential_find_file c number = dfc_credential_find_file_in_app c 0 number"

definition dfc_credential_find_transaction_mac_file ::
  "DfcCredential \<Rightarrow> size_t \<Rightarrow> size_t option" where
  "dfc_credential_find_transaction_mac_file c app_index =
     find_index_from (\<lambda>i. unat (f_app_index (c_files c ! i)) = app_index \<and>
                          f_type (c_files c ! i) = DFC_FILE_TYPE_TRANSACTION_MAC)
       0 (unat (c_num_files c))"

definition dfc_credential_create_file ::
  "DfcCredential \<Rightarrow> size_t \<Rightarrow> u8 \<Rightarrow> size_t option \<times> DfcCredential" where
  "dfc_credential_create_file c app_index number =
     (if app_index \<ge> unat (c_num_apps c) then (None, c)
      else if unat (c_num_files c) \<ge> DFC_MAX_FILES then (None, c)
      else if dfc_credential_find_file_in_app c app_index number \<noteq> None then (None, c)
      else
        let i = unat (c_num_files c);
            c1 = c\<lparr>c_num_files := c_num_files c + 1\<rparr>;
            c2 = upd_file i (\<lambda>_. zero_file) c1
        in (Some i, upd_file i (\<lambda>f. f\<lparr>f_app_index := of_nat app_index, f_number := number,
                      f_data_offset := DFC_FILE_POOL_NONE, f_data_len := 0\<rparr>) c2))"

text \<open>
  The array shift both deletions perform: the records after \<open>i\<close> move down, the count
  drops and the vacated last record is cleared.
\<close>

definition remove_file_record :: "DfcCredential \<Rightarrow> size_t \<Rightarrow> DfcCredential" where
  "remove_file_record c i =
     (let n = unat (c_num_files c);
          files = (if i + 1 < n then mem_move i (i + 1) (n - i - 1) (c_files c) else c_files c)
      in c\<lparr>c_num_files := c_num_files c - 1,
           c_files := files[unat (c_num_files c - 1) := zero_file]\<rparr>)"

definition dfc_credential_delete_file ::
  "DfcCredential \<Rightarrow> size_t \<Rightarrow> u8 \<Rightarrow> bool \<times> DfcCredential" where
  "dfc_credential_delete_file c app_index number =
     (case find_index_from (\<lambda>i. unat (f_app_index (c_files c ! i)) = app_index \<and>
                                f_number (c_files c ! i) = number) 0 (unat (c_num_files c)) of
        None \<Rightarrow> (False, c)
      | Some i \<Rightarrow> (True, remove_file_record (dfc_file_release c i) i))"

definition dfc_credential_count_files_in_app :: "DfcCredential \<Rightarrow> size_t \<Rightarrow> size_t" where
  "dfc_credential_count_files_in_app c app_index =
     length (filter (\<lambda>f. unat (f_app_index f) = app_index) (take (unat (c_num_files c)) (c_files c)))"

definition dfc_file_set_data_size ::
  "DfcCredential \<Rightarrow> size_t \<Rightarrow> u32 \<Rightarrow> bool \<times> DfcCredential" where
  "dfc_file_set_data_size c i sz =
     (if \<not> dfc_file_type_is_data (f_type (c_files c ! i)) then (False, c)
      else case dfc_file_resize c i (unat sz) of
        (False, c1) \<Rightarrow> (False, c1)
      | (True, c1) \<Rightarrow>
          (case dfc_file_set_declared_size (c_files c1 ! i) sz of
             (False, _) \<Rightarrow> (False, c1)
           | (True, file) \<Rightarrow>
               (True, upd_file i (\<lambda>_. file\<lparr>f_contents_complete := True\<rparr>) c1)))"

subsection \<open>The pool view of the file records\<close>

definition file_slice :: "DfcFile \<Rightarrow> slice" where
  "file_slice f =
     (if f_data_offset f = DFC_FILE_POOL_NONE \<or> f_data_len f = 0 then (0, 0)
      else (unat (f_data_offset f), unat (f_data_len f)))"

definition file_slices :: "DfcCredential \<Rightarrow> slice list" where
  "file_slices c = map file_slice (take (unat (c_num_files c)) (c_files c))"

definition file_slot_ok :: "DfcFile \<Rightarrow> bool" where
  "file_slot_ok f \<longleftrightarrow>
     (if f_data_len f = 0 then f_data_offset f = 0 \<or> f_data_offset f = DFC_FILE_POOL_NONE
      else f_data_offset f \<noteq> DFC_FILE_POOL_NONE)"

definition file_wf :: "DfcCredential \<Rightarrow> bool" where
  "file_wf c \<longleftrightarrow>
     length (c_file_pool c) = DFC_FILE_POOL_SIZE \<and> length (c_files c) = DFC_MAX_FILES \<and>
     unat (c_num_files c) \<le> DFC_MAX_FILES \<and>
     list_all file_slot_ok (take (unat (c_num_files c)) (c_files c))"

definition file_pool_used :: "DfcCredential \<Rightarrow> size_t" where
  "file_pool_used c = unat (c_file_pool_used c)"

lemma length_file_slices:
  "file_wf c \<Longrightarrow> length (file_slices c) = unat (c_num_files c)"
  by (simp add: file_slices_def file_wf_def)

lemma file_slices_nth:
  "file_wf c \<Longrightarrow> i < unat (c_num_files c) \<Longrightarrow> file_slices c ! i = file_slice (c_files c ! i)"
  by (simp add: file_slices_def file_wf_def)

lemma file_wf_slot:
  "file_wf c \<Longrightarrow> i < unat (c_num_files c) \<Longrightarrow> file_slot_ok (c_files c ! i)"
  by (auto simp: file_wf_def list_all_length)

lemma file_wf_bounds:
  "file_wf c \<Longrightarrow> i < unat (c_num_files c) \<Longrightarrow> i < length (c_files c)"
  by (simp add: file_wf_def)

lemma unat_FILE_NONE [simp]: "unat DFC_FILE_POOL_NONE = 65535"
  by (simp add: DFC_FILE_POOL_NONE_def)

lemma u16_eq_NONE_iff: "(x :: u16) = DFC_FILE_POOL_NONE \<longleftrightarrow> unat x = 65535"
  by (metis unat_FILE_NONE word_unat_eq_iff)

lemma upd_file_simps [simp]:
  "c_num_files (upd_file i g c) = c_num_files c"
  "c_file_pool (upd_file i g c) = c_file_pool c"
  "c_file_pool_used (upd_file i g c) = c_file_pool_used c"
  "c_files (upd_file i g c) = (c_files c)[i := g (c_files c ! i)]"
  "c_apps (upd_file i g c) = c_apps c"
  "c_num_apps (upd_file i g c) = c_num_apps c"
  by (simp_all add: upd_file_def)

lemma dfc_file_pool_compact_num [simp]:
  "c_num_files (dfc_file_pool_compact_after_release c a m) = c_num_files c"
  by (simp add: dfc_file_pool_compact_after_release_def Let_def)

lemma dfc_file_release_num [simp]: "c_num_files (dfc_file_release c i) = c_num_files c"
  by (simp add: dfc_file_release_def Let_def)

subsection \<open>Release\<close>

text \<open>A slice the code can shift is one of the abstract shift.\<close>

lemma file_slice_shift:
  assumes "0 < m"
  shows "file_slice (file_offset_shift a m f) = slice_shift a m (file_slice f)"
  using assms unat_u16_less [of "f_data_offset f"]
  by (auto simp: file_offset_shift_def file_slice_def slice_shift_def u16_eq_NONE_iff)

lemma file_slot_ok_shift:
  assumes "file_slot_ok f" "0 < m"
  shows "file_slot_ok (file_offset_shift a m f)"
  using assms unat_u16_less [of "f_data_offset f"]
  by (auto simp: file_offset_shift_def file_slot_ok_def u16_eq_NONE_iff split: if_splits)

lemma file_slice_eqs:
  assumes "file_slot_ok f"
  shows "snd (file_slice f) = unat (f_data_len f)"
    and "f_data_len f \<noteq> 0 \<Longrightarrow> fst (file_slice f) = unat (f_data_offset f)"
  using assms by (auto simp: file_slice_def file_slot_ok_def unat_eq_0 split: if_splits)

abbreviation file_pool_ok :: "DfcCredential \<Rightarrow> bool" where
  "file_pool_ok c \<equiv> pool_ok (file_slices c) (file_pool_used c) (c_file_pool c)"

lemma file_pool_ok_inside:
  assumes "file_wf c" "file_pool_ok c" "i < unat (c_num_files c)" "f_data_len (c_files c ! i) \<noteq> 0"
  shows "unat (f_data_offset (c_files c ! i)) + unat (f_data_len (c_files c ! i))
    \<le> unat (c_file_pool_used c)"
  using pool_ok_inside [OF assms(2), of i] assms file_slice_eqs [OF file_wf_slot [OF assms(1,3)]]
  by (simp add: length_file_slices file_slices_nth file_pool_used_def unat_eq_0 unat_gt_0)

lemma file_pool_used_le:
  "file_wf c \<Longrightarrow> file_pool_ok c \<Longrightarrow> unat (c_file_pool_used c) \<le> DFC_FILE_POOL_SIZE"
  using pool_ok_used by (fastforce simp: file_wf_def file_pool_used_def)

text \<open>The effect of the release on the three parts of the view, for a file that owns octets.\<close>

lemma dfc_file_release_view:
  assumes wf: "file_wf c" and ok: "file_pool_ok c" and i: "i < unat (c_num_files c)"
    and len: "f_data_len (c_files c ! i) \<noteq> 0"
  shows "file_slices (dfc_file_release c i) = slices_release i (file_slices c)"
    and "file_pool_used (dfc_file_release c i) = file_pool_used c - snd (file_slices c ! i)"
    and "c_file_pool (dfc_file_release c i) =
      pool_compact (fst (file_slices c ! i)) (snd (file_slices c ! i)) (file_pool_used c) (c_file_pool c)"
    and "file_wf (dfc_file_release c i)"
proof -
  let ?f = "c_files c ! i" and ?n = "unat (c_num_files c)"
  let ?a = "unat (f_data_offset ?f)" and ?m = "unat (f_data_len ?f)"
  let ?g = "file_offset_shift ?a ?m"
  let ?e = "?f\<lparr>f_data_offset := DFC_FILE_POOL_NONE, f_data_len := 0\<rparr>"
  have slot: "file_slot_ok ?f" by (rule file_wf_slot [OF wf i])
  have none: "f_data_offset ?f \<noteq> DFC_FILE_POOL_NONE"
    using slot len by (simp add: file_slot_ok_def)
  have m: "0 < ?m" using len by (simp add: unat_gt_0)
  have in1: "?a + ?m \<le> unat (c_file_pool_used c)" by (rule file_pool_ok_inside [OF wf ok i len])
  have used: "unat (c_file_pool_used c) \<le> 8192"
    using file_pool_used_le [OF wf ok] by (simp add: DFC_FILE_POOL_SIZE_def)
  have sl: "file_slices c ! i = (?a, ?m)"
    using file_slices_nth [OF wf i] none len by (simp add: file_slice_def)
  have cast: "unat (of_nat (unat (c_file_pool_used c) - ?m) :: u16) = unat (c_file_pool_used c) - ?m"
    using used by simp
  have files: "c_files (dfc_file_release c i) =
      map ?g (take ?n ((c_files c)[i := ?e])) @ drop ?n ((c_files c)[i := ?e])"
    using none len in1 used
    by (simp add: dfc_file_release_def dfc_file_pool_compact_after_release_def Let_def unat_eq_0)
  have nf: "?n \<le> length (c_files c)" using wf by (simp add: file_wf_def)
  have ge: "?g ?e = ?e" by (simp add: file_offset_shift_def)
  have taken: "take ?n (c_files (dfc_file_release c i)) = (map ?g (take ?n (c_files c)))[i := ?e]"
    using nf i ge by (simp add: files take_update_swap map_update)
  show "file_slices (dfc_file_release c i) = slices_release i (file_slices c)"
  proof -
    have "map file_slice (map ?g (take ?n (c_files c))) = map (slice_shift ?a ?m) (file_slices c)"
      unfolding file_slices_def map_map comp_def
      by (rule map_cong [OF refl]) (use file_slice_shift [of ?m] m used in1 in auto)
    then show ?thesis
      using m by (simp add: file_slices_def [of "dfc_file_release c i"] taken map_update
          slices_release_def sl file_slice_def)
  qed
  show "file_pool_used (dfc_file_release c i) = file_pool_used c - snd (file_slices c ! i)"
    using none len in1 used cast
    by (simp add: file_pool_used_def dfc_file_release_def sl
        dfc_file_pool_compact_after_release_def Let_def unat_eq_0)
  show pool: "c_file_pool (dfc_file_release c i) =
      pool_compact (fst (file_slices c ! i)) (snd (file_slices c ! i)) (file_pool_used c) (c_file_pool c)"
    using none len in1 used cast
    by (simp add: file_pool_used_def dfc_file_release_def sl pool_compact_def
        dfc_file_pool_compact_after_release_def Let_def unat_eq_0)
  have "list_all file_slot_ok (map ?g (take ?n (c_files c)))"
    using wf file_slot_ok_shift [OF _ m, of _ ?a] by (auto simp: file_wf_def list_all_iff)
  then have "list_all file_slot_ok ((map ?g (take ?n (c_files c)))[i := ?e])"
    by (rule list_all_list_update) (simp add: file_slot_ok_def)
  moreover have "length (c_files (dfc_file_release c i)) = length (c_files c)"
    using nf by (simp add: files)
  ultimately show "file_wf (dfc_file_release c i)"
    using wf in1 used
    by (simp add: file_wf_def taken pool sl file_pool_used_def DFC_FILE_POOL_SIZE_def)
qed

text \<open>A file without octets: the record is normalised, the pool stays.\<close>

lemma file_slot_empty_cases:
  assumes "file_slot_ok f" "f_data_len f = 0"
  shows "f_data_offset f = 0 \<or> f_data_offset f = DFC_FILE_POOL_NONE"
  using assms by (simp add: file_slot_ok_def)

lemma upd_file_empty_view:
  assumes wf: "file_wf c" and i: "i < unat (c_num_files c)" and len: "f_data_len (c_files c ! i) = 0"
    and g: "f_data_len (g (c_files c ! i)) = 0"
      "f_data_offset (g (c_files c ! i)) = 0 \<or>
       f_data_offset (g (c_files c ! i)) = DFC_FILE_POOL_NONE"
  shows "file_slices (upd_file i g c) = file_slices c" and "file_wf (upd_file i g c)"
proof -
  have b: "i < length (c_files c)" by (rule file_wf_bounds [OF wf i])
  have "(file_slices c)[i := (0, 0)] = file_slices c"
    using file_slices_nth [OF wf i] len length_file_slices [OF wf] i
    by (metis file_slice_def list_update_id)
  then show "file_slices (upd_file i g c) = file_slices c"
    using g(1) by (simp add: file_slices_def take_update_swap map_update file_slice_def)
  have "list_all file_slot_ok (take (unat (c_num_files c)) (c_files c))"
    using wf by (simp add: file_wf_def)
  then show "file_wf (upd_file i g c)"
    using wf g by (auto simp: file_wf_def take_update_swap file_slot_ok_def intro: list_all_list_update)
qed

lemma dfc_file_release_empty_view:
  assumes wf: "file_wf c" and i: "i < unat (c_num_files c)"
    and len: "f_data_len (c_files c ! i) = 0"
  shows "file_slices (dfc_file_release c i) = file_slices c"
    and "c_file_pool (dfc_file_release c i) = c_file_pool c"
    and "c_file_pool_used (dfc_file_release c i) = c_file_pool_used c"
    and "file_wf (dfc_file_release c i)"
  using file_slot_empty_cases [OF file_wf_slot [OF wf i] len] len
    upd_file_empty_view [OF wf i len, of "\<lambda>f. f\<lparr>f_data_len := 0\<rparr>"]
    upd_file_empty_view [OF wf i len, of "\<lambda>f. f\<lparr>f_data_offset := DFC_FILE_POOL_NONE, f_data_len := 0\<rparr>"]
  by (auto simp: dfc_file_release_def dfc_file_pool_compact_after_release_def Let_def)

lemma file_slice_empty_iff:
  "file_wf c \<Longrightarrow> i < unat (c_num_files c) \<Longrightarrow>
   snd (file_slices c ! i) = 0 \<longleftrightarrow> f_data_len (c_files c ! i) = 0"
  using file_slice_eqs(1) [OF file_wf_slot] by (simp add: file_slices_nth unat_eq_0)

interpretation file_pool: slice_pool file_slices file_pool_used c_file_pool DFC_FILE_POOL_SIZE
  file_wf "\<lambda>i c. dfc_file_release c i"
proof
  fix s i
  assume *: "file_wf s" "file_pool_ok s" "i < length (file_slices s)"
  then have i: "i < unat (c_num_files s)" by (simp add: length_file_slices)
  show "file_wf (dfc_file_release s i)"
    using * i dfc_file_release_view(4) dfc_file_release_empty_view(4) by blast
  show "file_slices (dfc_file_release s i) = slices_release i (file_slices s)"
    using * i dfc_file_release_view(1) dfc_file_release_empty_view(1) file_slice_empty_iff
    by (metis slices_release_def)
  show "file_pool_used (dfc_file_release s i) = file_pool_used s - snd (file_slices s ! i)"
    using * i dfc_file_release_view(2) dfc_file_release_empty_view(3) file_slice_empty_iff
    by (metis diff_zero file_pool_used_def)
  show "c_file_pool (dfc_file_release s i) =
      (if snd (file_slices s ! i) = 0 then c_file_pool s
       else pool_compact (fst (file_slices s ! i)) (snd (file_slices s ! i)) (file_pool_used s)
              (c_file_pool s))"
    using * i dfc_file_release_view(3) dfc_file_release_empty_view(2) file_slice_empty_iff
    by (metis)
qed (simp add: file_wf_def)

subsection \<open>Resize\<close>

text \<open>The last step of a resize, after the old slice is gone: the new slice at the end.\<close>

definition file_alloc :: "DfcCredential \<Rightarrow> size_t \<Rightarrow> size_t \<Rightarrow> DfcCredential" where
  "file_alloc c i n =
     (upd_file i (\<lambda>f. f\<lparr>f_data_offset := c_file_pool_used c, f_data_len := of_nat n\<rparr>) c)\<lparr>
        c_file_pool := mem_set (unat (c_file_pool_used c)) 0 n (c_file_pool c),
        c_file_pool_used := of_nat (unat (c_file_pool_used c) + n)\<rparr>"

lemma file_alloc_view:
  assumes wf: "file_wf c" and i: "i < unat (c_num_files c)"
    and n: "0 < n" "file_pool_used c + n \<le> DFC_FILE_POOL_SIZE"
  shows "file_slices (file_alloc c i n) = (file_slices c)[i := (file_pool_used c, n)]"
    and "file_pool_used (file_alloc c i n) = file_pool_used c + n"
    and "c_file_pool (file_alloc c i n) = mem_set (file_pool_used c) 0 n (c_file_pool c)"
    and "file_wf (file_alloc c i n)"
proof -
  let ?f = "(c_files c ! i)\<lparr>f_data_offset := c_file_pool_used c, f_data_len := of_nat n\<rparr>"
  have small: "unat (c_file_pool_used c) + n \<le> 8192"
    using n by (simp add: file_pool_used_def DFC_FILE_POOL_SIZE_def)
  then have un: "unat (of_nat n :: u16) = n" "(of_nat n :: u16) \<noteq> 0"
    using n(1) by (auto simp: unat_eq_0 [symmetric])
  have none: "c_file_pool_used c \<noteq> DFC_FILE_POOL_NONE"
    using small by (simp add: u16_eq_NONE_iff)
  show "file_slices (file_alloc c i n) = (file_slices c)[i := (file_pool_used c, n)]"
    using un none
    by (simp add: file_alloc_def file_slices_def take_update_swap map_update file_slice_def
        file_pool_used_def)
  show "file_pool_used (file_alloc c i n) = file_pool_used c + n"
    using small by (simp add: file_pool_used_def file_alloc_def)
  show pool: "c_file_pool (file_alloc c i n) = mem_set (file_pool_used c) 0 n (c_file_pool c)"
    by (simp add: file_alloc_def file_pool_used_def)
  have "file_slot_ok ?f" using un none by (simp add: file_slot_ok_def)
  then show "file_wf (file_alloc c i n)"
    using wf n(2)
    by (auto simp: file_wf_def file_alloc_def file_pool_used_def take_update_swap
        intro: list_all_list_update)
qed

text \<open>
  On a well-formed credential the guards of the resize reduce to the bound on one file and
  to the room left once the old slice is returned.
\<close>

lemma dfc_file_resize_eq:
  assumes wf: "file_wf c" and ok: "file_pool_ok c" and i: "i < unat (c_num_files c)"
  shows "dfc_file_resize c i n =
    (let m = unat (f_data_len (c_files c ! i)) in
     if n > DFC_MAX_FILE_DATA then (False, c)
     else if 0 < m \<and> m = n then (True, c)
     else if n > DFC_FILE_POOL_SIZE - (file_pool_used c - m) then (False, c)
     else
       let c1 = (if 0 < m then dfc_file_release c i else c)
       in if n = 0
          then (True, upd_file i (\<lambda>f. f\<lparr>f_data_offset := DFC_FILE_POOL_NONE, f_data_len := 0\<rparr>) c1)
          else (True, file_alloc c1 i n))"
proof (cases "f_data_len (c_files c ! i) = 0")
  case True
  then show ?thesis
    using file_slot_empty_cases [OF file_wf_slot [OF wf i] True] file_pool_used_le [OF wf ok]
    by (auto simp: dfc_file_resize_def dfc_pool_slice_resolve_def Let_def file_pool_used_def
        file_alloc_def dfc_size_consts)
next
  case False
  have "f_data_offset (c_files c ! i) \<noteq> DFC_FILE_POOL_NONE"
    using file_wf_slot [OF wf i] False by (simp add: file_slot_ok_def)
  moreover have "unat (f_data_offset (c_files c ! i)) \<noteq> 65535"
    using calculation by (simp add: u16_eq_NONE_iff)
  moreover have "0 < unat (f_data_len (c_files c ! i))" using False by (simp add: unat_gt_0)
  ultimately show ?thesis
    using file_pool_ok_inside [OF wf ok i False] file_pool_used_le [OF wf ok]
    by (auto simp: dfc_file_resize_def dfc_pool_slice_resolve_def Let_def file_pool_used_def
        file_alloc_def dfc_size_consts dfc_file_release_def)
qed

lemma dfc_file_release_empties:
  assumes "file_wf c" "file_pool_ok c" "i < unat (c_num_files c)"
  shows "f_data_len (c_files (dfc_file_release c i) ! i) = 0"
proof -
  have "file_pool.invar c" using assms by (simp add: file_pool.invar_def)
  then show ?thesis
    using assms file_pool.release_slice_empty [of c i] file_pool.release_invar [of c i]
    by (simp add: length_file_slices file_pool.invar_def file_slice_empty_iff)
qed

lemma dfc_file_resize_accepted:
  assumes wf: "file_wf c" and ok: "file_pool_ok c" and i: "i < unat (c_num_files c)"
    and res: "dfc_file_resize c i n = (True, c')"
  shows "file_wf c'"
    and "file_slices c' =
      (if snd (file_slices c ! i) = n then file_slices c
       else if n = 0 then file_slices (dfc_file_release c i)
       else (file_slices (dfc_file_release c i))[i := (file_pool_used (dfc_file_release c i), n)])"
    and "file_pool_used c' =
      (if snd (file_slices c ! i) = n then file_pool_used c
       else file_pool_used (dfc_file_release c i) + n)"
    and "c_file_pool c' =
      (if snd (file_slices c ! i) = n then c_file_pool c
       else mem_set (file_pool_used (dfc_file_release c i)) 0 n (c_file_pool (dfc_file_release c i)))"
proof -
  let ?m = "unat (f_data_len (c_files c ! i))" and ?r = "dfc_file_release c i"
  let ?none = "upd_file i (\<lambda>f. f\<lparr>f_data_offset := DFC_FILE_POOL_NONE, f_data_len := 0\<rparr>)"
  have m: "snd (file_slices c ! i) = ?m"
    using file_slice_eqs(1) [OF file_wf_slot [OF wf i]] by (simp add: file_slices_nth [OF wf i])
  have i': "i < length (file_slices c)" using i by (simp add: length_file_slices [OF wf])
  have inv: "file_pool.invar c" using wf ok by (simp add: file_pool.invar_def)
  have r: "file_wf ?r" "i < unat (c_num_files ?r)" "f_data_len (c_files ?r ! i) = 0"
    using file_pool.release_invar [OF inv i'] i dfc_file_release_empties [OF wf ok i]
    by (auto simp: file_pool.invar_def)
  have ru: "file_pool_used ?r = file_pool_used c - ?m"
    using file_pool.used_release_eq [OF wf ok i'] m by simp
  note eq = dfc_file_resize_eq [OF wf ok i, of n] and upd = upd_file_empty_view
  consider (same) "0 < ?m" "?m = n" "c' = c"
    | (none) "n = 0" "0 < ?m" "c' = ?none ?r"
    | (none0) "n = 0" "?m = 0" "c' = ?none c"
    | (alloc) "0 < n" "0 < ?m" "?m \<noteq> n" "c' = file_alloc ?r i n"
        "n \<le> DFC_FILE_POOL_SIZE - (file_pool_used c - ?m)"
    | (alloc0) "0 < n" "?m = 0" "c' = file_alloc c i n"
        "n \<le> DFC_FILE_POOL_SIZE - file_pool_used c"
    using res unfolding eq by (auto simp: Let_def split: if_splits)
  then have "file_wf c' \<and>
      file_slices c' = (if ?m = n then file_slices c else if n = 0 then file_slices ?r
        else (file_slices ?r)[i := (file_pool_used ?r, n)]) \<and>
      file_pool_used c' = (if ?m = n then file_pool_used c else file_pool_used ?r + n) \<and>
      c_file_pool c' = (if ?m = n then c_file_pool c
        else mem_set (file_pool_used ?r) 0 n (c_file_pool ?r))"
  proof cases
    case same
    then show ?thesis using wf by simp
  next
    case none
    then show ?thesis
      using upd [OF r, of "\<lambda>f. f\<lparr>f_data_offset := DFC_FILE_POOL_NONE, f_data_len := 0\<rparr>"]
      by (simp add: file_pool_used_def)
  next
    case none0
    then show ?thesis
      using upd [OF wf i, of "\<lambda>f. f\<lparr>f_data_offset := DFC_FILE_POOL_NONE, f_data_len := 0\<rparr>"]
      by (simp add: file_pool_used_def unat_eq_0)
  next
    case alloc
    then have "file_pool_used ?r + n \<le> DFC_FILE_POOL_SIZE"
      using ru file_pool_used_le [OF wf ok] by (simp add: file_pool_used_def)
    then show ?thesis using alloc file_alloc_view [OF r(1,2)] by simp
  next
    case alloc0
    then have "file_pool_used c + n \<le> DFC_FILE_POOL_SIZE"
      using file_pool_used_le [OF wf ok] by (simp add: file_pool_used_def)
    moreover have "file_slices ?r = file_slices c" "file_pool_used ?r = file_pool_used c"
      "c_file_pool ?r = c_file_pool c"
      using alloc0(2) dfc_file_release_empty_view [OF wf i] by (auto simp: unat_eq_0 file_pool_used_def)
    ultimately show ?thesis using alloc0 file_alloc_view [OF wf i] by simp
  qed
  then show "file_wf c'"
    and "file_slices c' =
      (if snd (file_slices c ! i) = n then file_slices c
       else if n = 0 then file_slices ?r
       else (file_slices ?r)[i := (file_pool_used ?r, n)])"
    and "file_pool_used c' =
      (if snd (file_slices c ! i) = n then file_pool_used c else file_pool_used ?r + n)"
    and "c_file_pool c' =
      (if snd (file_slices c ! i) = n then c_file_pool c
       else mem_set (file_pool_used ?r) 0 n (c_file_pool ?r))"
    unfolding m by blast+
qed

interpretation file_pool: resizable_pool file_slices file_pool_used c_file_pool DFC_FILE_POOL_SIZE
  file_wf "\<lambda>i c. dfc_file_release c i" "\<lambda>i n c. dfc_file_resize c i n" "\<lambda>n. n"
  "\<lambda>n. n \<le> DFC_MAX_FILE_DATA" True
proof
  fix s i r s'
  assume inv: "file_pool.invar s" and i': "i < length (file_slices s)"
  then have wf: "file_wf s" and ok: "file_pool_ok s" and i: "i < unat (c_num_files s)"
    by (auto simp: file_pool.invar_def length_file_slices)
  have m: "snd (file_slices s ! i) = unat (f_data_len (c_files s ! i))"
    using file_slice_eqs(1) [OF file_wf_slot [OF wf i]] by (simp add: file_slices_nth [OF wf i])
  show "fst (dfc_file_resize s i r) = (r \<le> DFC_MAX_FILE_DATA \<and>
      file_pool_used s - snd (file_slices s ! i) + r \<le> DFC_FILE_POOL_SIZE)"
    using file_pool_used_le [OF wf ok] pool_ok_slice_le [OF ok i']
    by (auto simp: dfc_file_resize_eq [OF wf ok i] Let_def m file_pool_used_def)
  show "dfc_file_resize s i r = (False, s') \<Longrightarrow> s' = s"
    by (auto simp: dfc_file_resize_eq [OF wf ok i] Let_def split: if_splits)
  assume res: "dfc_file_resize s i r = (True, s')"
  show "file_wf s'" by (rule dfc_file_resize_accepted(1) [OF wf ok i res])
  show "file_slices s' = (if True \<and> snd (file_slices s ! i) = r then file_slices s
       else if r = 0 then file_slices (dfc_file_release s i)
       else (file_slices (dfc_file_release s i))[i := (file_pool_used (dfc_file_release s i), r)])"
    using dfc_file_resize_accepted(2) [OF wf ok i res] by simp
  show "file_pool_used s' = (if True \<and> snd (file_slices s ! i) = r then file_pool_used s
       else file_pool_used (dfc_file_release s i) + r)"
    using dfc_file_resize_accepted(3) [OF wf ok i res] by simp
  show "c_file_pool s' = (if True \<and> snd (file_slices s ! i) = r then c_file_pool s
       else mem_set (file_pool_used (dfc_file_release s i)) 0 r (c_file_pool (dfc_file_release s i)))"
    using dfc_file_resize_accepted(4) [OF wf ok i res] by simp
qed

subsection \<open>Live records, contents and the invariant\<close>

definition live_files :: "DfcCredential \<Rightarrow> DfcFile list" where
  "live_files c = take (unat (c_num_files c)) (c_files c)"

definition file_bytes :: "DfcCredential \<Rightarrow> size_t \<Rightarrow> bytes" where
  "file_bytes c i = slice_contents (c_file_pool c) (file_slice (c_files c ! i))"

definition file_invar :: "DfcCredential \<Rightarrow> bool" where
  "file_invar c \<longleftrightarrow> file_wf c \<and> file_pool_ok c"

lemma file_invar_eq: "file_invar c = file_pool.invar c"
  by (simp add: file_invar_def file_pool.invar_def)

lemma file_bytes_eq: "file_wf c \<Longrightarrow> i < unat (c_num_files c) \<Longrightarrow> file_bytes c i = file_pool.contents c i"
  by (simp add: file_bytes_def file_pool.contents_def file_slices_nth)

lemma length_file_bytes:
  assumes "file_invar c" "i < unat (c_num_files c)"
  shows "length (file_bytes c i) = unat (f_data_len (c_files c ! i))"
proof (cases "f_data_len (c_files c ! i) = 0")
  case True
  then show ?thesis by (simp add: file_bytes_def slice_contents_def file_slice_def)
next
  case False
  have inv: "file_wf c" "file_pool_ok c" using assms(1) by (auto simp: file_invar_def)
  show ?thesis
    using file_pool_ok_inside [OF inv assms(2) False] file_pool_used_le [OF inv] inv(1)
      file_slice_eqs [OF file_wf_slot [OF inv(1) assms(2)]] False
    by (simp add: file_bytes_def slice_contents_def file_wf_def)
qed

lemma length_live_files: "file_wf c \<Longrightarrow> length (live_files c) = unat (c_num_files c)"
  by (simp add: live_files_def file_wf_def)

lemma live_files_nth: "i < unat (c_num_files c) \<Longrightarrow> live_files c ! i = c_files c ! i"
  by (simp add: live_files_def)

lemma file_wf_live:
  "file_wf c \<longleftrightarrow> length (c_file_pool c) = DFC_FILE_POOL_SIZE \<and>
     length (c_files c) = DFC_MAX_FILES \<and> unat (c_num_files c) \<le> DFC_MAX_FILES \<and>
     list_all file_slot_ok (live_files c)"
  by (simp add: file_wf_def live_files_def)

lemma file_slices_live: "file_slices c = map file_slice (live_files c)"
  by (simp add: file_slices_def live_files_def)

text \<open>\<^verbatim>\<open>dfc_file_data\<close> returns a pointer exactly to a file's octets.\<close>

lemma dfc_file_data_reads:
  assumes inv: "file_invar c" and i: "i < unat (c_num_files c)"
  shows "dfc_file_data c i =
      (if f_data_len (c_files c ! i) = 0 then None else Some (unat (f_data_offset (c_files c ! i))))"
    and "dfc_file_data c i = Some p \<Longrightarrow>
      file_bytes c i = mem_read p (unat (f_data_len (c_files c ! i))) (c_file_pool c)"
  using assms file_pool_ok_inside [of c i] file_wf_slot [of c i]
  by (auto simp: dfc_file_data_def Let_def file_invar_def file_slot_ok_def file_bytes_def
      slice_contents_def file_slice_def split: if_splits)

subsection \<open>Removing a record from the array\<close>

lemma remove_file_record_live:
  assumes wf: "file_wf c" and i: "i < unat (c_num_files c)"
  shows "live_files (remove_file_record c i) = take i (live_files c) @ drop (Suc i) (live_files c)"
    and "unat (c_num_files (remove_file_record c i)) = unat (c_num_files c) - 1"
    and "length (c_files (remove_file_record c i)) = DFC_MAX_FILES"
proof -
  let ?n = "unat (c_num_files c)" and ?fs = "c_files c"
  have n: "unat (c_num_files c - 1) = ?n - 1"
    using i by (intro unat_minus_one) (auto simp: unat_gt_0 [symmetric])
  have le: "?n \<le> length ?fs" using wf by (simp add: file_wf_def)
  show "unat (c_num_files (remove_file_record c i)) = ?n - 1"
    by (simp add: remove_file_record_def Let_def n)
  show "length (c_files (remove_file_record c i)) = DFC_MAX_FILES"
    using i le wf by (auto simp: remove_file_record_def Let_def file_wf_def)
  have "take (?n - 1) (if i + 1 < ?n then mem_move i (i + 1) (?n - i - 1) ?fs else ?fs) =
      take i (take ?n ?fs) @ drop (Suc i) (take ?n ?fs)"
  proof (cases "i + 1 < ?n")
    case True
    then have "mem_move i (i + 1) (?n - i - 1) ?fs =
        take i ?fs @ take (?n - Suc i) (drop (Suc i) ?fs) @ drop (?n - 1) ?fs"
      using le by (simp add: mem_move_def mem_write_def mem_read_def)
    then show ?thesis using True le by (simp add: drop_take)
  next
    case False
    then have "?n - 1 = i" using i by simp
    then show ?thesis using False i by (simp add: min_def)
  qed
  then show "live_files (remove_file_record c i) = take i (live_files c) @ drop (Suc i) (live_files c)"
    by (simp add: remove_file_record_def Let_def live_files_def n)
qed

lemma remove_file_record_pool [simp]:
  "c_file_pool (remove_file_record c i) = c_file_pool c"
  "c_file_pool_used (remove_file_record c i) = c_file_pool_used c"
  by (simp_all add: remove_file_record_def Let_def)

lemma list_split_nth: "i < length xs \<Longrightarrow> xs = take i xs @ xs ! i # drop (Suc i) xs"
  by (simp add: id_take_nth_drop)

lemma remove_file_record_invar:
  assumes inv: "file_invar c" and i: "i < unat (c_num_files c)"
    and e: "f_data_len (c_files c ! i) = 0"
  shows "file_invar (remove_file_record c i)"
proof -
  let ?S = "file_slices c" and ?c = "remove_file_record c i"
  have wf: "file_wf c" and ok: "file_pool_ok c" using inv by (auto simp: file_invar_def)
  have S: "?S = take i ?S @ ?S ! i # drop (Suc i) ?S"
    by (rule list_split_nth) (simp add: length_file_slices [OF wf] i)
  have "pool_ok (take i ?S @ drop (Suc i) ?S) (file_pool_used c) (c_file_pool c)"
  proof (rule pool_ok_remove)
    show "pool_ok (take i ?S @ ?S ! i # drop (Suc i) ?S) (file_pool_used c) (c_file_pool c)"
      using ok by (simp only: S [symmetric])
    show "snd (?S ! i) = 0" using e i wf by (simp add: file_slice_empty_iff)
  qed
  moreover have "file_slices ?c = take i ?S @ drop (Suc i) ?S"
    by (simp add: file_slices_live remove_file_record_live(1) [OF wf i] take_map drop_map)
  moreover have "list_all file_slot_ok (live_files ?c)"
  proof -
    have "set (live_files ?c) \<subseteq> set (live_files c)"
      by (auto simp: remove_file_record_live(1) [OF wf i] dest: in_set_takeD in_set_dropD)
    then show ?thesis using wf by (auto simp: file_wf_def list_all_iff live_files_def [of c])
  qed
  ultimately show ?thesis
    using wf remove_file_record_live(2,3) [OF wf i]
    by (auto simp: file_invar_def file_wf_def file_pool_used_def live_files_def)
qed

subsection \<open>What a file operation leaves alone\<close>

text \<open>A file operation writes only the file records and the file pool.\<close>

definition file_frame :: "DfcCredential \<Rightarrow> DfcCredential \<Rightarrow> bool" where
  "file_frame c c' \<longleftrightarrow>
     c' = c\<lparr>c_num_files := c_num_files c', c_files := c_files c', c_file_pool := c_file_pool c',
            c_file_pool_used := c_file_pool_used c'\<rparr>"

definition file_meta :: "DfcFile \<Rightarrow> DfcFile" where
  "file_meta f = f\<lparr>f_data_offset := 0, f_data_len := 0\<rparr>"

lemma file_frame_refl [simp]: "file_frame c c"
  by (simp add: file_frame_def)

lemma file_frame_trans: "file_frame c d \<Longrightarrow> file_frame d e \<Longrightarrow> file_frame c e"
  unfolding file_frame_def by (cases c, cases d, cases e) simp

lemma file_frame_upd [simp]: "file_frame c (upd_file i g c)"
  by (simp add: file_frame_def upd_file_def)

lemma file_frame_compact [simp]: "file_frame c (dfc_file_pool_compact_after_release c a m)"
  by (simp add: file_frame_def dfc_file_pool_compact_after_release_def Let_def)

lemma file_frame_release [simp]: "file_frame c (dfc_file_release c i)"
  unfolding dfc_file_release_def Let_def
  by (auto intro: file_frame_trans [OF file_frame_upd file_frame_compact])

lemma file_frame_remove [simp]: "file_frame c (remove_file_record c i)"
  by (simp add: file_frame_def remove_file_record_def Let_def)

lemma file_meta_shift [simp]: "file_meta (file_offset_shift a m f) = file_meta f"
  by (simp add: file_meta_def file_offset_shift_def)

lemma file_meta_release [simp]:
  "map file_meta (c_files (dfc_file_release c i)) = map file_meta (c_files c)"
proof -
  have upd: "map file_meta ((c_files c)[i := g (c_files c ! i)]) = map file_meta (c_files c)"
    if "\<And>f. file_meta (g f) = file_meta f" for g
    using that by (rule map_update_same)
  have comp: "map file_meta (c_files (dfc_file_pool_compact_after_release d a m)) = map file_meta (c_files d)"
    for d a m
    by (simp add: dfc_file_pool_compact_after_release_def Let_def comp_def take_map [symmetric]
        drop_map [symmetric])
  show ?thesis
    unfolding dfc_file_release_def Let_def
    by (simp add: comp) (auto intro!: upd simp: file_meta_def)
qed

lemma file_meta_release_nth:
  "j < length (c_files c) \<Longrightarrow> file_meta (c_files (dfc_file_release c i) ! j) = file_meta (c_files c ! j)"
  by (metis file_meta_release length_map nth_map)

lemma file_frame_resize: "dfc_file_resize c i n = (ok, c') \<Longrightarrow> file_frame c c'"
  unfolding dfc_file_resize_def Let_def
  by (auto simp: file_frame_def upd_file_def dfc_file_pool_compact_after_release_def Let_def
      split: if_splits option.splits)

lemma dfc_file_resize_num: "dfc_file_resize c i n = (ok, c') \<Longrightarrow> c_num_files c' = c_num_files c"
  unfolding dfc_file_resize_def Let_def by (auto split: if_splits option.splits)

lemma file_meta_resize:
  assumes inv: "file_invar c" and i: "i < unat (c_num_files c)" and res: "dfc_file_resize c i n = (ok, c')"
  shows "map file_meta (c_files c') = map file_meta (c_files c)"
proof -
  have upd: "map file_meta ((c_files d)[i := g (c_files d ! i)]) = map file_meta (c_files d)"
    if "\<And>f. file_meta (g f) = file_meta f" for g d
    using that by (rule map_update_same)
  have "\<And>d. map file_meta (c_files (file_alloc d i n)) = map file_meta (c_files d)"
    by (simp add: file_alloc_def) (rule upd, simp add: file_meta_def)
  moreover have "\<And>d. map file_meta (c_files (upd_file i
      (\<lambda>f. f\<lparr>f_data_offset := DFC_FILE_POOL_NONE, f_data_len := 0\<rparr>) d)) = map file_meta (c_files d)"
    by simp (rule upd, simp add: file_meta_def)
  ultimately show ?thesis
    using res inv unfolding file_invar_def
    by (auto simp: dfc_file_resize_eq [OF _ _ i] Let_def split: if_splits)
qed

subsection \<open>Deleting and creating files\<close>

text \<open>The step both deletions share: a record is released and the array closed over it.\<close>

lemma remove_released_file:
  assumes inv: "file_invar c" and k: "i < unat (c_num_files c)"
    and c': "c' = remove_file_record (dfc_file_release c i) i"
  shows "file_invar c'" "file_frame c c'"
    and "map file_meta (live_files c') = map file_meta (take i (live_files c) @ drop (Suc i) (live_files c))"
    and "map (slice_contents (c_file_pool c')) (file_slices c') =
      take i (map (slice_contents (c_file_pool c)) (file_slices c)) @
      drop (Suc i) (map (slice_contents (c_file_pool c)) (file_slices c))"
proof -
  let ?r = "dfc_file_release c i"
  have wf: "file_wf c" "file_pool_ok c" using inv by (auto simp: file_invar_def)
  have i': "i < length (file_slices c)" using k by (simp add: length_file_slices [OF wf(1)])
  have rinv: "file_invar ?r" using file_pool.release_invar i' inv by (simp add: file_invar_eq)
  then have rwf: "file_wf ?r" by (simp add: file_invar_def)
  show "file_invar c'" unfolding c'
    using remove_file_record_invar [OF rinv] k dfc_file_release_empties [OF wf k] by simp
  show "file_frame c c'" unfolding c'
    by (rule file_frame_trans [OF file_frame_release file_frame_remove])
  have live: "live_files c' = take i (live_files ?r) @ drop (Suc i) (live_files ?r)"
    unfolding c' by (rule remove_file_record_live(1) [OF rwf]) (simp add: k)
  have meta: "map file_meta (live_files ?r) = map file_meta (live_files c)"
    by (simp add: live_files_def take_map [symmetric])
  show "map file_meta (live_files c') =
      map file_meta (take i (live_files c) @ drop (Suc i) (live_files c))"
    using live meta by (simp add: take_map [symmetric] drop_map [symmetric])
  let ?cont = "\<lambda>c. map (slice_contents (c_file_pool c)) (file_slices c)"
  have len: "length (file_slices ?r) = length (file_slices c)"
    using file_pool.length_slices_after_release [of c i] inv i' by (simp add: file_invar_eq)
  have "\<And>j. j < length (file_slices c) \<Longrightarrow> j \<noteq> i \<Longrightarrow> ?cont ?r ! j = ?cont c ! j"
    using file_pool.release_contents [of c i] inv i' len
    by (simp add: file_invar_eq file_pool.contents_def)
  then have "take i (?cont ?r) = take i (?cont c)" "drop (Suc i) (?cont ?r) = drop (Suc i) (?cont c)"
    using i' len by (auto intro!: nth_equalityI)
  moreover have "?cont c' = take i (?cont ?r) @ drop (Suc i) (?cont ?r)"
    using live by (simp add: file_slices_live take_map drop_map c')
  ultimately show "?cont c' = take i (?cont c) @ drop (Suc i) (?cont c)" by simp
qed

lemma dfc_credential_delete_file_effect:
  assumes inv: "file_invar c" and i: "dfc_credential_find_file_in_app c app_index number = Some i"
    and res: "dfc_credential_delete_file c app_index number = (ok, c')"
  shows "ok" "file_invar c'" "file_frame c c'"
    and "map file_meta (live_files c') = map file_meta (take i (live_files c) @ drop (Suc i) (live_files c))"
    and "map (slice_contents (c_file_pool c')) (file_slices c') =
      take i (map (slice_contents (c_file_pool c)) (file_slices c)) @
      drop (Suc i) (map (slice_contents (c_file_pool c)) (file_slices c))"
proof -
  have k: "i < unat (c_num_files c)"
    using find_index_from_Some [OF i [unfolded dfc_credential_find_file_in_app_def]] by simp
  have c': "ok" "c' = remove_file_record (dfc_file_release c i) i"
    using res i by (auto simp: dfc_credential_delete_file_def dfc_credential_find_file_in_app_def)
  show "ok" by (rule c')
  note rem = remove_released_file [OF inv k c'(2)]
  show "file_invar c'" by (rule rem(1))
  show "file_frame c c'" by (rule rem(2))
  show "map file_meta (live_files c') = map file_meta (take i (live_files c) @ drop (Suc i) (live_files c))"
    by (rule rem(3))
  show "map (slice_contents (c_file_pool c')) (file_slices c') =
      take i (map (slice_contents (c_file_pool c)) (file_slices c)) @
      drop (Suc i) (map (slice_contents (c_file_pool c)) (file_slices c))"
    by (rule rem(4))
qed

lemma dfc_credential_create_file_effect:
  assumes inv: "file_invar c" and res: "dfc_credential_create_file c app_index number = (Some i, c')"
  shows "file_invar c'" "file_frame c c'" "i = unat (c_num_files c)"
    and "unat (c_num_files c') = Suc (unat (c_num_files c))"
    and "live_files c' = live_files c @ [zero_file\<lparr>f_app_index := of_nat app_index,
      f_number := number, f_data_offset := DFC_FILE_POOL_NONE\<rparr>]"
proof -
  let ?new = "zero_file\<lparr>f_app_index := of_nat app_index, f_number := number,
    f_data_offset := DFC_FILE_POOL_NONE\<rparr>"
  let ?n = "unat (c_num_files c)"
  have wf: "file_wf c" and ok: "file_pool_ok c" using inv by (auto simp: file_invar_def)
  have room: "?n < DFC_MAX_FILES" and i: "i = ?n"
    and c': "c' = c\<lparr>c_num_files := c_num_files c + 1, c_files := (c_files c)[?n := ?new]\<rparr>"
    using res wf
    by (auto simp: dfc_credential_create_file_def Let_def upd_file_def zero_file_def file_wf_def
        split: if_splits)
  show "i = ?n" by (rule i)
  show n: "unat (c_num_files c') = Suc ?n"
    using room unat_of_nat_u8 [of "Suc ?n"] by (simp add: c' DFC_MAX_FILES_def add.commute)
  have len: "?n < length (c_files c)" using wf room by (simp add: file_wf_def)
  show live: "live_files c' = live_files c @ [?new]"
    using len by (simp add: live_files_def n) (simp add: c' take_Suc_conv_app_nth)
  show "file_frame c c'" by (simp add: c' file_frame_def)
  have "pool_ok (file_slices c @ [file_slice ?new]) (file_pool_used c) (c_file_pool c)"
    using pool_ok_insert_empty [of "file_slices c" "[]"] ok by (simp add: file_slice_def)
  moreover have "list_all file_slot_ok (live_files c')"
    using wf by (simp add: live file_wf_def live_files_def [of c] file_slot_ok_def zero_file_def)
  moreover have "c_file_pool c' = c_file_pool c" "c_file_pool_used c' = c_file_pool_used c"
    "length (c_files c') = length (c_files c)"
    by (simp_all add: c')
  ultimately show "file_invar c'"
    using wf room n by (simp add: file_invar_def file_wf_live file_slices_live live file_pool_used_def)
qed

lemma dfc_credential_create_file_refused:
  "dfc_credential_create_file c app_index number = (None, c') \<Longrightarrow> c' = c"
  by (auto simp: dfc_credential_create_file_def Let_def split: if_splits)


subsection \<open>A concrete credential\<close>

text \<open>A blank credential with one application, and the same with two files in it.\<close>

definition sample_credential :: DfcCredential where
  "sample_credential = zero_credential\<lparr>c_num_apps := 1\<rparr>"

definition sample_with_files :: DfcCredential where
  "sample_with_files =
     snd (dfc_credential_create_file (snd (dfc_credential_create_file sample_credential 0 1)) 0 2)"

lemma file_invar_zero_pool:
  assumes "c_num_files c = 0" "c_file_pool_used c = 0" "length (c_files c) = DFC_MAX_FILES"
    "c_file_pool c = replicate DFC_FILE_POOL_SIZE 0"
  shows "file_invar c"
  using assms pool_ok_empty [of "[]"]
  by (simp add: file_invar_def file_wf_def file_slices_def file_pool_used_def pool_ok_def list_all_iff)

lemma file_invar_sample [simp]: "file_invar sample_credential"
  by (rule file_invar_zero_pool) (simp_all add: sample_credential_def zero_credential_def)

lemma sample_files:
  "dfc_credential_create_file sample_credential 0 1 =
     (Some 0, snd (dfc_credential_create_file sample_credential 0 1))"
  "dfc_credential_create_file (snd (dfc_credential_create_file sample_credential 0 1)) 0 2 =
     (Some 1, sample_with_files)"
  by (simp_all add: sample_with_files_def sample_credential_def zero_credential_def zero_file_def
      dfc_credential_create_file_def dfc_credential_find_file_in_app_def find_index_from.simps
      DFC_MAX_FILES_def Let_def upd_file_def)

lemma sample_with_files_invar [simp]:
  "file_invar sample_with_files" "c_num_files sample_with_files = 2"
proof -
  note one = dfc_credential_create_file_effect [OF file_invar_sample sample_files(1)]
  note two = dfc_credential_create_file_effect [OF one(1) sample_files(2)]
  show "file_invar sample_with_files" by (rule two(1))
  show "c_num_files sample_with_files = 2"
    using one(4) two(4) by (simp add: sample_credential_def zero_credential_def word_unat_eq_iff)
qed

lemma sample_find: "dfc_credential_find_file_in_app sample_with_files 0 1 = Some 0"
  by (simp add: sample_with_files_def sample_credential_def zero_credential_def zero_file_def
      dfc_credential_create_file_def dfc_credential_find_file_in_app_def find_index_from.simps
      DFC_MAX_FILES_def Let_def upd_file_def)

lemma sample_bytes: "i < 2 \<Longrightarrow> file_bytes sample_with_files i = []"
  by (auto simp: less_2_cases_iff file_bytes_def slice_contents_def file_slice_def
      sample_with_files_def sample_credential_def zero_credential_def zero_file_def
      dfc_credential_create_file_def dfc_credential_find_file_in_app_def find_index_from.simps
      DFC_MAX_FILES_def Let_def upd_file_def)

subsection \<open>Properties of the file store\<close>

lemma file_pool_used_total:
  assumes "file_invar c"
  shows "file_pool_used c = (\<Sum>j<unat (c_num_files c). length (file_bytes c j))"
proof -
  have wf: "file_wf c" and ok: "file_pool_ok c" using assms by (auto simp: file_invar_def)
  have "file_pool_used c = sum_list (map snd (file_slices c))" by (rule pool_ok_total [OF ok, symmetric])
  also have "\<dots> = (\<Sum>j<unat (c_num_files c). snd (file_slices c ! j))"
    by (simp add: sum_list_sum_nth length_file_slices [OF wf] atLeast0LessThan)
  also have "\<dots> = (\<Sum>j<unat (c_num_files c). length (file_bytes c j))"
    using length_file_bytes [OF assms] file_slice_eqs(1) [OF file_wf_slot [OF wf]]
    by (intro sum.cong) (auto simp: file_slices_nth [OF wf])
  finally show ?thesis .
qed

lemma dfc_file_resize_effect:
  assumes inv: "file_invar c" and i: "i < unat (c_num_files c)"
    and res: "dfc_file_resize c i n = (True, c')"
  shows "file_invar c' \<and> c_num_files c' = c_num_files c \<and>
    file_bytes c' i = (if length (file_bytes c i) = n then file_bytes c i else replicate n 0) \<and>
    (\<forall>j < unat (c_num_files c). j \<noteq> i \<longrightarrow> file_bytes c' j = file_bytes c j) \<and>
    file_frame c c' \<and> map file_meta (c_files c') = map file_meta (c_files c)"
proof -
  have pinv: "file_pool.invar c" using inv by (simp add: file_invar_eq)
  have wf: "file_wf c" using inv by (simp add: file_invar_def)
  have i': "i < length (file_slices c)" using i by (simp add: length_file_slices [OF wf])
  have inv': "file_invar c'" using file_pool.resize_invar [OF pinv i' res] by (simp add: file_invar_eq)
  then have wf': "file_wf c'" by (simp add: file_invar_def)
  have num: "c_num_files c' = c_num_files c" by (rule dfc_file_resize_num [OF res])
  have m: "snd (file_slices c ! i) = length (file_bytes c i)"
    using file_slice_eqs(1) [OF file_wf_slot [OF wf i]] length_file_bytes [OF inv i]
    by (simp add: file_slices_nth [OF wf i])
  have eq: "file_bytes c' j = file_pool.contents c' j" "file_bytes c j = file_pool.contents c j"
    if "j < unat (c_num_files c)" for j
    using that num file_bytes_eq [OF wf] file_bytes_eq [OF wf'] by simp_all
  have "file_bytes c' i = (if length (file_bytes c i) = n then file_bytes c i else replicate n 0)"
    using file_pool.resize_fresh [OF pinv i' res] file_pool.resize_same_keeps [OF pinv i' res] m eq [OF i]
    by auto
  moreover have "file_bytes c' j = file_bytes c j" if "j < unat (c_num_files c)" "j \<noteq> i" for j
    using file_pool.resize_others [OF pinv i' res, of j] that eq [OF that(1)]
    by (simp add: length_file_slices [OF wf])
  ultimately show ?thesis
    using inv' num file_frame_resize [OF res] file_meta_resize [OF inv i res] by blast
qed

text \<open>
  C28. A resize of a file that the code accepts keeps the pool invariant, gives the file exactly
  the requested length, leaves the octets of every other file and every other field of the
  credential as they were, and hands out zeroed octets; a resize to the current length keeps
  the file's octets.
\<close>

theorem dfc_file_resize_correct:
  assumes inv: "file_invar c" and i: "i < unat (c_num_files c)"
    and res: "dfc_file_resize c i n = (True, c')"
  shows "file_invar c' \<and> c_num_files c' = c_num_files c \<and>
    file_bytes c' i = (if length (file_bytes c i) = n then file_bytes c i else replicate n 0) \<and>
    (\<forall>j < unat (c_num_files c). j \<noteq> i \<longrightarrow> file_bytes c' j = file_bytes c j) \<and>
    file_frame c c' \<and> map file_meta (c_files c') = map file_meta (c_files c)"
  by (rule dfc_file_resize_effect [OF inv i res])

theorem dfc_file_resize_correct_witness:
  "\<exists>c'. dfc_file_resize sample_with_files 0 5 = (True, c') \<and> file_bytes c' 0 = replicate 5 0"
proof -
  have "fst (dfc_file_resize sample_with_files 0 5)"
    by (simp add: dfc_file_resize_def dfc_pool_slice_resolve_def Let_def dfc_size_consts upd_file_def
      sample_with_files_def sample_credential_def zero_credential_def zero_file_def DFC_FILE_POOL_NONE_def
      dfc_credential_create_file_def dfc_credential_find_file_in_app_def find_index_from.simps)
  then obtain c' where c': "dfc_file_resize sample_with_files 0 5 = (True, c')"
    by (cases "dfc_file_resize sample_with_files 0 5") auto
  have "file_bytes c' 0 = replicate 5 0"
    using dfc_file_resize_correct [OF sample_with_files_invar(1) _ c'] sample_bytes [of 0] by simp
  with c' show ?thesis by blast
qed

text \<open>
  C29. The file pool never fragments: a resize succeeds exactly when the requested length is
  within the per-file limit and the lengths of the other files leave that many octets of the
  pool, wherever the files lie. A refused resize changes nothing.
\<close>

theorem dfc_file_resize_succeeds_iff:
  assumes inv: "file_invar c" and i: "i < unat (c_num_files c)"
  shows "(fst (dfc_file_resize c i n) \<longleftrightarrow>
      n \<le> DFC_MAX_FILE_DATA \<and>
      (\<Sum>j \<in> {..<unat (c_num_files c)} - {i}. length (file_bytes c j)) + n \<le> DFC_FILE_POOL_SIZE) \<and>
    (fst (dfc_file_resize c i n) \<or> snd (dfc_file_resize c i n) = c)"
proof -
  have pinv: "file_pool.invar c" using inv by (simp add: file_invar_eq)
  have wf: "file_wf c" using inv by (simp add: file_invar_def)
  have i': "i < length (file_slices c)" using i by (simp add: length_file_slices [OF wf])
  have m: "snd (file_slices c ! i) = length (file_bytes c i)"
    using file_slice_eqs(1) [OF file_wf_slot [OF wf i]] length_file_bytes [OF inv i]
    by (simp add: file_slices_nth [OF wf i])
  have "(\<Sum>j \<in> {..<unat (c_num_files c)} - {i}. length (file_bytes c j)) =
      file_pool_used c - length (file_bytes c i)"
    using i by (simp add: file_pool_used_total [OF inv] sum_diff1_nat)
  then show ?thesis
    using file_pool.resize_accepts [OF pinv i', of n] file_pool.resize_refused [OF pinv i', of n]
    by (cases "dfc_file_resize c i n") (auto simp: m)
qed

theorem dfc_file_resize_succeeds_iff_witness:
  "fst (dfc_file_resize sample_with_files 0 2048) \<and> \<not> fst (dfc_file_resize sample_with_files 0 2049)"
proof -
  have "{..<2} - {0::nat} = {1}" by auto
  then have "(\<Sum>j \<in> {..<2} - {0}. length (file_bytes sample_with_files j)) = 0"
    by (simp add: sample_bytes)
  then show ?thesis
    using dfc_file_resize_succeeds_iff [OF sample_with_files_invar(1), of 0 2048]
      dfc_file_resize_succeeds_iff [OF sample_with_files_invar(1), of 0 2049]
    by (simp add: dfc_size_consts)
qed

text \<open>
  C30. Deleting a file that exists removes exactly its record: the other records keep their
  order, their metadata and their octets, the rest of the credential is untouched, and the
  pool shrinks by the file's length with every freed octet wiped.
\<close>

theorem dfc_credential_delete_file_correct:
  assumes inv: "file_invar c" and i: "dfc_credential_find_file_in_app c app_index number = Some i"
  shows "\<exists>c'. dfc_credential_delete_file c app_index number = (True, c') \<and> file_invar c' \<and>
    file_frame c c' \<and>
    map file_meta (live_files c') = map file_meta (take i (live_files c) @ drop (Suc i) (live_files c)) \<and>
    map (file_bytes c') [0..<unat (c_num_files c')] =
      take i (map (file_bytes c) [0..<unat (c_num_files c)]) @
      drop (Suc i) (map (file_bytes c) [0..<unat (c_num_files c)]) \<and>
    list_all (\<lambda>b. b = 0) (drop (file_pool_used c') (c_file_pool c'))"
proof -
  obtain ok c' where res: "dfc_credential_delete_file c app_index number = (ok, c')" by fastforce
  note eff = dfc_credential_delete_file_effect [OF inv i res]
  have view: "map (file_bytes d) [0..<unat (c_num_files d)] =
      map (slice_contents (c_file_pool d)) (file_slices d)" if "file_invar d" for d
    using that by (intro nth_equalityI)
      (auto simp: file_invar_def length_file_slices file_slices_nth file_bytes_def)
  show ?thesis
    using res eff view [OF inv] view [OF eff(2)] by (auto simp: file_invar_def pool_ok_def)
qed

theorem dfc_credential_delete_file_correct_witness:
  "\<exists>c'. dfc_credential_delete_file sample_with_files 0 1 = (True, c') \<and> file_invar c'"
  using dfc_credential_delete_file_correct [OF sample_with_files_invar(1) sample_find] by blast

text \<open>
  C31. Creating a file succeeds exactly when its application exists, a record is free and no
  file of the application has the number. The new record is the only addition, is found under
  its number, holds no octets and leaves every existing file and the rest of the credential
  alone; a refused creation changes nothing.
\<close>

theorem dfc_credential_create_file_correct:
  assumes inv: "file_invar c" and apps: "unat (c_num_apps c) \<le> DFC_MAX_APPS"
  shows "if app_index < unat (c_num_apps c) \<and> unat (c_num_files c) < DFC_MAX_FILES \<and>
        dfc_credential_find_file_in_app c app_index number = None
    then \<exists>c'. dfc_credential_create_file c app_index number = (Some (unat (c_num_files c)), c') \<and>
      file_invar c' \<and> file_frame c c' \<and>
      dfc_credential_find_file_in_app c' app_index number = Some (unat (c_num_files c)) \<and>
      take (unat (c_num_files c)) (live_files c') = live_files c \<and>
      length (live_files c') = Suc (length (live_files c)) \<and>
      file_bytes c' (unat (c_num_files c)) = [] \<and> c_file_pool c' = c_file_pool c
    else dfc_credential_create_file c app_index number = (None, c)"
proof -
  let ?n = "unat (c_num_files c)"
  let ?ok = "app_index < unat (c_num_apps c) \<and> ?n < DFC_MAX_FILES \<and>
    dfc_credential_find_file_in_app c app_index number = None"
  obtain r c' where res: "dfc_credential_create_file c app_index number = (r, c')" by fastforce
  show ?thesis
  proof (cases ?ok)
    case False
    then show ?thesis by (auto simp: dfc_credential_create_file_def)
  next
    case True
    then have r: "r = Some ?n" and pool: "c_file_pool c' = c_file_pool c"
      using res by (auto simp: dfc_credential_create_file_def Let_def)
    note eff = dfc_credential_create_file_effect [OF inv res [unfolded r]]
    have wf: "file_wf c" and wf': "file_wf c'" using inv eff(1) by (auto simp: file_invar_def)
    have idx: "unat (of_nat app_index :: u8) = app_index" using True apps by (simp add: DFC_MAX_APPS_def)
    have at: "c_files c' ! j = live_files c' ! j" if "j < Suc ?n" for j
      using that eff(4) by (simp add: live_files_nth)
    have old: "c_files c' ! j = c_files c ! j" if "j < ?n" for j
      using that at [of j] eff(5) by (simp add: nth_append length_live_files [OF wf] live_files_nth)
    have new: "c_files c' ! ?n = zero_file\<lparr>f_app_index := of_nat app_index, f_number := number,
        f_data_offset := DFC_FILE_POOL_NONE\<rparr>"
      using at [of ?n] eff(5) by (simp add: nth_append length_live_files [OF wf])
    have "dfc_credential_find_file_in_app c' app_index number = Some ?n"
      unfolding dfc_credential_find_file_in_app_def
    proof (rule find_index_from_unique)
      fix j assume j: "0 \<le> j" "j < unat (c_num_files c')"
        "unat (f_app_index (c_files c' ! j)) = app_index \<and> f_number (c_files c' ! j) = number"
      show "j = ?n"
      proof (rule ccontr)
        assume "j \<noteq> ?n"
        then have "j < ?n" using j eff(4) by simp
        then show False
          using True j old by (auto simp: dfc_credential_find_file_in_app_def find_index_from_None)
      qed
    qed (use eff(4) idx new in simp_all)
    moreover have "file_bytes c' ?n = []" using new by (simp add: file_bytes_def slice_contents_def file_slice_def)
    ultimately show ?thesis
      using True res r eff pool by (auto simp: length_live_files [OF wf])
  qed
qed

theorem dfc_credential_create_file_correct_witness:
  "\<exists>c'. dfc_credential_create_file sample_credential 0 1 = (Some 0, c') \<and> file_invar c'"
proof -
  have "unat (c_num_apps sample_credential) = 1" "unat (c_num_files sample_credential) = 0"
    "dfc_credential_find_file_in_app sample_credential 0 1 = None"
    by (simp_all add: sample_credential_def zero_credential_def dfc_credential_find_file_in_app_def
        find_index_from.simps)
  then show ?thesis
    using dfc_credential_create_file_correct [OF file_invar_sample, of 0 1]
    by (auto simp: dfc_size_consts)
qed

end
