(* ===== verification/Dfc_Materialize.thy ===== *)
theory Dfc_Materialize
  imports Dfc_File_Pool
begin

text \<open>
  \<^verbatim>\<open>dfc_credential_materialize_contents\<close>: every data and record file grows to its
  declared allocation and keeps the octets known so far. The caller's scratch buffer is part
  of the state, because the code parks a file's octets in it while the slice moves.
\<close>

text \<open>The size the code wants for a file: \<open>Inl\<close> is the early return, \<open>Inr None\<close> the files it skips.\<close>

definition materialize_want :: "DfcFile \<Rightarrow> unit + size_t option" where
  "materialize_want file =
     (if f_type file = 0x00 \<or> f_type file = 0x01 then
        (case dfc_file_get_declared_size file of
           None \<Rightarrow> Inl ()
         | Some sz \<Rightarrow> Inr (Some (unat sz)))
      else if f_type file = 0x03 \<or> f_type file = 0x04 then
        Inr (Some (unat (record_count (state_record (f_state file))) *
                   unat (record_size (state_record (f_state file)))))
      else Inr None)"

abbreviation set_complete :: "size_t \<Rightarrow> DfcCredential \<Rightarrow> DfcCredential" where
  "set_complete i \<equiv> upd_file i (\<lambda>f. f\<lparr>f_contents_complete := True\<rparr>)"

text \<open>The body of the loop for one file. The flag is \<open>False\<close> where the code clears \<open>complete\<close>.\<close>

definition materialize_file ::
  "size_t \<Rightarrow> size_t \<Rightarrow> DfcCredential \<Rightarrow> bytes \<Rightarrow> bool \<times> DfcCredential \<times> bytes" where
  "materialize_file i want c scratch =
     (let file = c_files c ! i; known_len = unat (f_data_len file) in
      if known_len \<ge> want then (True, set_complete i c, scratch)
      else if known_len > length scratch then (False, c, scratch)
      else if known_len > 0 \<and> f_data_offset file \<noteq> DFC_FILE_POOL_NONE \<and>
              unat (f_data_offset file) + known_len = unat (c_file_pool_used c) \<and>
              want \<le> DFC_MAX_FILE_DATA \<and>
              want - known_len \<le> dfc_credential_file_pool_free c
      then
        let grow = want - known_len;
            c1 = c\<lparr>c_file_pool := mem_set (unat (c_file_pool_used c)) 0 grow (c_file_pool c),
                   c_file_pool_used := of_nat (unat (c_file_pool_used c) + grow)\<rparr>
        in (True, upd_file i (\<lambda>f. f\<lparr>f_data_len := of_nat want, f_contents_complete := True\<rparr>) c1,
            scratch)
      else
        let scratch1 = (case dfc_file_data c i of
              Some src \<Rightarrow> if known_len \<noteq> 0
                then mem_write 0 (mem_read src known_len (c_file_pool c)) scratch else scratch
            | None \<Rightarrow> scratch)
        in case dfc_file_resize c i want of
          (False, c1) \<Rightarrow> (False, c1, scratch1)
        | (True, c1) \<Rightarrow>
            let c2 = (case dfc_file_data c1 i of
                Some dst \<Rightarrow> if known_len \<noteq> 0
                  then c1\<lparr>c_file_pool := mem_write dst (mem_read 0 known_len scratch1) (c_file_pool c1)\<rparr>
                  else c1
              | None \<Rightarrow> c1)
            in (True, set_complete i c2, scratch1))"

lemma materialize_file_num:
  "materialize_file i want c scratch = (ok, c', scratch') \<Longrightarrow> c_num_files c' = c_num_files c"
  unfolding materialize_file_def Let_def
  by (auto dest: dfc_file_resize_num split: if_splits option.splits prod.splits bool.splits)

function materialize_loop ::
  "size_t \<Rightarrow> bool \<Rightarrow> DfcCredential \<Rightarrow> bytes \<Rightarrow> bool \<times> DfcCredential" where
  "materialize_loop i complete c scratch =
     (if i < unat (c_num_files c) then
        (case materialize_want (c_files c ! i) of
           Inl _ \<Rightarrow> (False, c)
         | Inr None \<Rightarrow> materialize_loop (Suc i) complete c scratch
         | Inr (Some want) \<Rightarrow>
             (case materialize_file i want c scratch of
                (ok, c1, scratch1) \<Rightarrow> materialize_loop (Suc i) (complete \<and> ok) c1 scratch1))
      else (complete, c))"
  by pat_completeness auto
termination
  by (relation "measure (\<lambda>(i, _, c, _). unat (c_num_files c) - i)")
    (auto dest: materialize_file_num [OF sym])

declare materialize_loop.simps [simp del]

definition dfc_credential_materialize_contents ::
  "DfcCredential \<Rightarrow> bytes \<Rightarrow> bool \<times> DfcCredential" where
  "dfc_credential_materialize_contents c scratch = materialize_loop 0 True c scratch"

subsection \<open>One file\<close>

lemma set_complete_view:
  assumes "file_invar c" "i < unat (c_num_files c)"
  shows "file_invar (set_complete i c)"
    and "\<And>j. j < unat (c_num_files c) \<Longrightarrow> file_bytes (set_complete i c) j = file_bytes c j"
proof -
  let ?g = "\<lambda>f. f\<lparr>f_contents_complete := True\<rparr>"
  have sl: "\<And>f. file_slice (?g f) = file_slice f" "\<And>f. file_slot_ok (?g f) = file_slot_ok f"
    by (simp_all add: file_slice_def file_slot_ok_def)
  have wf: "file_wf c" using assms(1) by (simp add: file_invar_def)
  have "map file_slice ((c_files c)[i := ?g (c_files c ! i)]) = map file_slice (c_files c)"
    by (rule map_update_same) (simp add: sl)
  then have fs: "file_slices (set_complete i c) = file_slices c"
    by (simp add: file_slices_def take_map [symmetric])
  have "list_all file_slot_ok (take (unat (c_num_files c)) ((c_files c)[i := ?g (c_files c ! i)]))"
    using wf assms(2) sl(2) file_wf_slot [OF wf assms(2)]
    by (simp add: take_update_swap file_wf_def list_all_list_update)
  then show "file_invar (set_complete i c)"
    using assms(1) fs by (simp add: file_invar_def file_wf_def file_pool_used_def)
  show "file_bytes (set_complete i c) j = file_bytes c j" if "j < unat (c_num_files c)" for j
    using that file_wf_bounds [OF wf that] sl(1) [of "c_files c ! j"]
    by (cases "j = i") (simp_all add: file_bytes_def)
qed

lemma set_complete_slices: "file_slice (c_files (set_complete i c) ! j) = file_slice (c_files c ! j)"
  by (cases "j = i"; cases "i < length (c_files c)") (simp_all add: file_slice_def list_update_beyond)

lemma materialize_grow_effect:
  assumes inv: "file_invar c" and i: "i < unat (c_num_files c)"
    and known: "0 < unat (f_data_len (c_files c ! i))" "unat (f_data_len (c_files c ! i)) \<le> want"
    and last: "unat (f_data_offset (c_files c ! i)) + unat (f_data_len (c_files c ! i)) =
      unat (c_file_pool_used c)"
    and room: "want - unat (f_data_len (c_files c ! i)) \<le> dfc_credential_file_pool_free c"
    and c': "c' = upd_file i (\<lambda>f. f\<lparr>f_data_len := of_nat want, f_contents_complete := True\<rparr>)
      (c\<lparr>c_file_pool := mem_set (unat (c_file_pool_used c)) 0
            (want - unat (f_data_len (c_files c ! i))) (c_file_pool c),
         c_file_pool_used := of_nat (unat (c_file_pool_used c) +
            (want - unat (f_data_len (c_files c ! i))))\<rparr>)"
  shows "file_invar c'"
    and "file_bytes c' i = file_bytes c i @ replicate (want - unat (f_data_len (c_files c ! i))) 0"
    and "\<And>j. j < unat (c_num_files c) \<Longrightarrow> j \<noteq> i \<Longrightarrow> file_bytes c' j = file_bytes c j"
proof -
  let ?f = "c_files c ! i" and ?n = "unat (c_num_files c)"
  let ?a = "unat (f_data_offset ?f)" and ?m = "unat (f_data_len ?f)" and ?u = "unat (c_file_pool_used c)"
  let ?g = "want - ?m"
  have wf: "file_wf c" and ok: "file_pool_ok c" using inv by (auto simp: file_invar_def)
  have fits: "?u + ?g \<le> 8192" "?u \<le> 8192"
    using room file_pool_used_le [OF wf ok]
    by (auto simp: dfc_credential_file_pool_free_def DFC_FILE_POOL_SIZE_def split: if_splits)
  have want: "want = ?m + ?g" "want \<le> 8192" using known last fits by auto
  have slot: "file_slot_ok ?f" by (rule file_wf_slot [OF wf i])
  have sl: "file_slices c ! i = (?a, ?m)"
    using file_slices_nth [OF wf i] file_slice_eqs [OF slot] known(1) by (simp add: prod_eq_iff unat_gt_0)
  have i': "i < length (file_slices c)" using i by (simp add: length_file_slices [OF wf])
  have buf: "length (c_file_pool c) = 8192" using wf by (simp add: file_wf_def DFC_FILE_POOL_SIZE_def)
  have none: "f_data_offset ?f \<noteq> DFC_FILE_POOL_NONE" "(of_nat want :: u16) \<noteq> 0"
  proof -
    have "f_data_len ?f \<noteq> 0" using known(1) by (simp add: unat_gt_0)
    then show "f_data_offset ?f \<noteq> DFC_FILE_POOL_NONE" using slot by (simp add: file_slot_ok_def)
    show "(of_nat want :: u16) \<noteq> 0" using known want(2) by (intro of_nat_u16_nonzero) auto
  qed
  have slices: "file_slices c' = (file_slices c)[i := (?a, ?m + ?g)]"
    using none want by (simp add: c' file_slices_def take_update_swap map_update file_slice_def)
  have used: "file_pool_used c' = ?u + ?g" using fits by (simp add: c' file_pool_used_def)
  have pool: "c_file_pool c' = mem_set ?u 0 ?g (c_file_pool c)" by (simp add: c')
  have num: "c_num_files c' = c_num_files c" by (simp add: c')
  have "file_slot_ok (?f\<lparr>f_data_len := of_nat want, f_contents_complete := True\<rparr>)"
    using none by (simp add: file_slot_ok_def)
  then have wf': "file_wf c'"
    using wf fits(1) buf by (simp add: c' file_wf_def take_update_swap list_all_list_update)
  have "pool_ok (file_slices c') (file_pool_used c') (c_file_pool c')"
    unfolding slices used pool
    using pool_ok_grow [OF ok i' sl known(1)] last fits(1) buf by (simp add: file_pool_used_def)
  with wf' show "file_invar c'" by (simp add: file_invar_def)
  have c'i: "file_bytes c' j = slice_contents (c_file_pool c') (file_slices c' ! j)"
    "file_bytes c j = slice_contents (c_file_pool c) (file_slices c ! j)" if "j < ?n" for j
    using that num file_slices_nth [OF wf'] file_slices_nth [OF wf] by (simp_all add: file_bytes_def)
  show "file_bytes c' i = file_bytes c i @ replicate ?g 0"
    using slice_contents_grow [of ?a ?m ?u ?g "c_file_pool c"] last fits(1) buf i' sl
    by (simp add: c'i [OF i] slices pool)
  show "file_bytes c' j = file_bytes c j" if j: "j < ?n" "j \<noteq> i" for j
    using slice_contents_alloc_other [OF ok, of j ?g] j fits(1) buf length_file_slices [OF wf]
    by (simp add: c'i [OF j(1)] slices pool file_pool_used_def)
qed

lemma materialize_move_effect:
  assumes inv: "file_invar c" and i: "i < unat (c_num_files c)"
    and known: "unat (f_data_len (c_files c ! i)) < want" "unat (f_data_len (c_files c ! i)) \<le> length scratch"
    and res: "dfc_file_resize c i want = (True, c1)"
    and scr: "scratch1 = (case dfc_file_data c i of
              Some src \<Rightarrow> if unat (f_data_len (c_files c ! i)) \<noteq> 0
                then mem_write 0 (mem_read src (unat (f_data_len (c_files c ! i))) (c_file_pool c)) scratch
                else scratch
            | None \<Rightarrow> scratch)"
    and c2: "c2 = (case dfc_file_data c1 i of
                Some dst \<Rightarrow> if unat (f_data_len (c_files c ! i)) \<noteq> 0
                  then c1\<lparr>c_file_pool := mem_write dst
                    (mem_read 0 (unat (f_data_len (c_files c ! i))) scratch1) (c_file_pool c1)\<rparr>
                  else c1
              | None \<Rightarrow> c1)"
  shows "file_invar c2" "c_num_files c2 = c_num_files c"
    and "file_bytes c2 i = file_bytes c i @ replicate (want - unat (f_data_len (c_files c ! i))) 0"
    and "\<And>j. j < unat (c_num_files c) \<Longrightarrow> j \<noteq> i \<Longrightarrow> file_bytes c2 j = file_bytes c j"
proof -
  let ?m = "unat (f_data_len (c_files c ! i))" and ?n = "unat (c_num_files c)"
  let ?s = "file_slices c1 ! i"
  have pinv: "file_pool.invar c" using inv by (simp add: file_invar_eq)
  have wf: "file_wf c" using inv by (simp add: file_invar_def)
  have i': "i < length (file_slices c)" using i by (simp add: length_file_slices [OF wf])
  have num1: "c_num_files c1 = c_num_files c" by (rule dfc_file_resize_num [OF res])
  have inv1: "file_invar c1" using file_pool.resize_invar [OF pinv i' res] by (simp add: file_invar_eq)
  then have wf1: "file_wf c1" and ok1: "file_pool_ok c1" by (auto simp: file_invar_def)
  have m: "snd (file_slices c ! i) = ?m"
    using file_slice_eqs(1) [OF file_wf_slot [OF wf i]] by (simp add: file_slices_nth [OF wf i])
  have size1: "snd ?s = want" by (rule file_pool.resize_size [OF pinv i' res])
  have i1: "i < unat (c_num_files c1)" "i < length (file_slices c1)"
    using i num1 by (auto simp: length_file_slices [OF wf1])
  have len1: "f_data_len (c_files c1 ! i) \<noteq> 0"
    using size1 known(1) file_slice_empty_iff [OF wf1 i1(1)] by auto
  have fresh: "file_bytes c1 i = replicate want 0"
    using file_pool.resize_fresh [OF pinv i' res] m known(1) file_bytes_eq [OF wf1 i1(1)] by simp
  have dst: "dfc_file_data c1 i = Some (fst ?s)"
    using dfc_file_data_reads(1) [OF inv1 i1(1)] len1 file_slice_eqs(2) [OF file_wf_slot [OF wf1 i1(1)] len1]
    by (simp add: file_slices_nth [OF wf1 i1(1)])
  have parked: "mem_read 0 ?m scratch1 = file_bytes c i"
  proof (cases "?m = 0")
    case True
    then show ?thesis using length_file_bytes [OF inv i] by simp
  next
    case False
    then obtain p where p: "dfc_file_data c i = Some p"
      using dfc_file_data_reads(1) [OF inv i] by (auto simp: unat_eq_0)
    have "file_bytes c i = mem_read p ?m (c_file_pool c)" by (rule dfc_file_data_reads(2) [OF inv i p])
    moreover have "length (file_bytes c i) = ?m" by (rule length_file_bytes [OF inv i])
    ultimately show ?thesis
      using False p known(2) mem_read_write_same [of 0 "file_bytes c i" scratch] by (simp add: scr)
  qed
  have lenb: "length (file_bytes c i) = ?m" by (rule length_file_bytes [OF inv i])
  have c2': "c2 = c1\<lparr>c_file_pool := mem_write (fst ?s) (file_bytes c i) (c_file_pool c1)\<rparr>"
    using lenb by (cases "?m = 0") (simp_all add: c2 dst parked)
  have fields: "file_slices c2 = file_slices c1" "file_pool_used c2 = file_pool_used c1"
    "c_num_files c2 = c_num_files c1"
    by (simp_all add: c2' file_slices_def file_pool_used_def)
  show "c_num_files c2 = c_num_files c" using fields num1 by simp
  have ins: "fst ?s + snd ?s \<le> file_pool_used c1" using pool_ok_inside [OF ok1 i1(2)] size1 known(1) by simp
  then have le: "fst ?s + snd ?s \<le> length (c_file_pool c1)" using pool_ok_used [OF ok1] by simp
  have w: "fst ?s \<le> fst ?s" "fst ?s + length (file_bytes c i) \<le> fst ?s + snd ?s" "0 < snd ?s"
    using lenb size1 known(1) by auto
  have "pool_ok (file_slices c1) (file_pool_used c1) (c_file_pool c2)"
    unfolding c2' using pool_ok_write [OF ok1 i1(2) w] by simp
  then show "file_invar c2"
    using wf1 fields le w by (simp add: file_invar_def file_wf_def c2')
  have sl2: "file_slice (c_files c2 ! j) = file_slices c1 ! j" if "j < ?n" for j
    using that num1 file_slices_nth [OF wf1] by (simp add: c2')
  have "file_bytes c2 i = file_bytes c i @ drop (length (file_bytes c i)) (slice_contents (c_file_pool c1) ?s)"
    using slice_contents_write_prefix [of "file_bytes c i" ?s "c_file_pool c1"] w le
    by (simp add: file_bytes_def [of c2] sl2 [OF i]) (simp add: c2')
  moreover have "slice_contents (c_file_pool c1) ?s = file_bytes c1 i"
    by (simp add: file_bytes_def file_slices_nth [OF wf1 i1(1)])
  ultimately show "file_bytes c2 i = file_bytes c i @ replicate (want - ?m) 0"
    using fresh lenb by simp
  show "file_bytes c2 j = file_bytes c j" if j: "j < ?n" "j \<noteq> i" for j
  proof -
    have j1: "j < unat (c_num_files c1)" "j < length (file_slices c)" "j < length (file_slices c1)"
      using j num1 length_file_slices [OF wf] length_file_slices [OF wf1] by auto
    have "file_bytes c2 j = slice_contents (c_file_pool c1) (file_slices c1 ! j)"
      using slice_contents_write_other [OF ok1 i1(2) w j1(3) j(2)]
      by (simp add: file_bytes_def [of c2] sl2 [OF j(1)]) (simp add: c2')
    also have "\<dots> = file_pool.contents c1 j" by (simp add: file_pool.contents_def)
    also have "\<dots> = file_pool.contents c j" by (rule file_pool.resize_others [OF pinv i' res j1(2) j(2)])
    finally show ?thesis using file_bytes_eq [OF wf j(1)] by simp
  qed
qed

lemma materialize_file_effect:
  assumes inv: "file_invar c" and i: "i < unat (c_num_files c)"
    and res: "materialize_file i want c scratch = (ok, c', scratch')"
  shows "file_invar c'"
    and "ok \<Longrightarrow> file_bytes c' i = file_bytes c i @ replicate (want - length (file_bytes c i)) 0"
    and "\<not> ok \<Longrightarrow> c' = c"
    and "\<And>j. j < unat (c_num_files c) \<Longrightarrow> j \<noteq> i \<Longrightarrow> file_bytes c' j = file_bytes c j"
proof -
  let ?m = "unat (f_data_len (c_files c ! i))"
  have len: "length (file_bytes c i) = ?m" by (rule length_file_bytes [OF inv i])
  have pinv: "file_pool.invar c" and i': "i < length (file_slices c)"
    using inv i by (auto simp: file_invar_eq file_pool.invar_def length_file_slices)
  have "file_invar c' \<and>
      (ok \<longrightarrow> file_bytes c' i = file_bytes c i @ replicate (want - ?m) 0) \<and> (\<not> ok \<longrightarrow> c' = c) \<and>
      (\<forall>j. j < unat (c_num_files c) \<and> j \<noteq> i \<longrightarrow> file_bytes c' j = file_bytes c j)"
  proof (cases "?m \<ge> want \<or> ?m > length scratch")
    case True
    then show ?thesis
      using res set_complete_view [OF inv i] inv i by (auto simp: materialize_file_def Let_def split: if_splits)
  next
    case False
    show ?thesis
    proof (cases "?m > 0 \<and> f_data_offset (c_files c ! i) \<noteq> DFC_FILE_POOL_NONE \<and>
          unat (f_data_offset (c_files c ! i)) + ?m = unat (c_file_pool_used c) \<and>
          want \<le> DFC_MAX_FILE_DATA \<and> want - ?m \<le> dfc_credential_file_pool_free c")
      case True
      then have ok: "ok" and c': "c' = upd_file i (\<lambda>f. f\<lparr>f_data_len := of_nat want, f_contents_complete := True\<rparr>)
          (c\<lparr>c_file_pool := mem_set (unat (c_file_pool_used c)) 0 (want - ?m) (c_file_pool c),
             c_file_pool_used := of_nat (unat (c_file_pool_used c) + (want - ?m))\<rparr>)"
        using False res unfolding materialize_file_def Let_def
        by (simp_all del: of_nat_add of_nat_diff of_nat_unat)
      show ?thesis
        using ok True False materialize_grow_effect [OF inv i _ _ _ _ c'] by simp
    next
      case moved: False
      let ?scr = "case dfc_file_data c i of
              Some src \<Rightarrow> if ?m \<noteq> 0 then mem_write 0 (mem_read src ?m (c_file_pool c)) scratch else scratch
            | None \<Rightarrow> scratch"
      obtain b c1 where r: "dfc_file_resize c i want = (b, c1)" by fastforce
      show ?thesis
      proof (cases b)
        case b: True
        let ?c2 = "case dfc_file_data c1 i of
                Some dst \<Rightarrow> if ?m \<noteq> 0
                  then c1\<lparr>c_file_pool := mem_write dst (mem_read 0 ?m ?scr) (c_file_pool c1)\<rparr> else c1
              | None \<Rightarrow> c1"
        have c': "c' = set_complete i ?c2" "ok"
          using res False moved r b by (auto simp: materialize_file_def Let_def)
        note move = materialize_move_effect [OF inv i _ _ r [unfolded b [THEN eqTrueI]] refl refl]
        have k: "?m < want" "?m \<le> length scratch" using False by auto
        note mv = move [OF k]
        have i2: "i < unat (c_num_files ?c2)" using mv(2) i by metis
        show ?thesis
          unfolding c'(1) using set_complete_view [OF mv(1) i2] mv i c'(2) by simp
      next
        case b: False
        then have "c1 = c" using file_pool.resize_refused [OF pinv i', of want c1] r by simp
        then show ?thesis using res False moved r b inv by (auto simp: materialize_file_def Let_def)
      qed
    qed
  qed
  then show "file_invar c'"
    and "ok \<Longrightarrow> file_bytes c' i = file_bytes c i @ replicate (want - length (file_bytes c i)) 0"
    and "\<not> ok \<Longrightarrow> c' = c"
    and "\<And>j. j < unat (c_num_files c) \<Longrightarrow> j \<noteq> i \<Longrightarrow> file_bytes c' j = file_bytes c j"
    by (simp_all add: len)
qed

subsection \<open>The whole loop\<close>

lemma materialize_want_cong:
  "f_type f = f_type g \<Longrightarrow> f_state f = f_state g \<Longrightarrow> materialize_want f = materialize_want g"
  by (simp add: materialize_want_def dfc_file_get_declared_size_def)

lemma materialize_want_not_Inl [simp]: "materialize_want f \<noteq> Inl e"
  by (simp add: materialize_want_def dfc_file_get_declared_size_def dfc_file_type_is_data_def
      dfc_file_type_consts)

lemma materialize_want_meta: "materialize_want (file_meta f) = materialize_want f"
  by (rule materialize_want_cong) (simp_all add: file_meta_def)

lemma materialize_wants_upd:
  "(\<And>f. f_type (g f) = f_type f) \<Longrightarrow> (\<And>f. f_state (g f) = f_state f) \<Longrightarrow>
   map materialize_want (c_files (upd_file i g c)) = map materialize_want (c_files c)"
  by simp (rule map_update_same, rule materialize_want_cong, simp_all)

lemma materialize_file_wants:
  assumes inv: "file_invar c" and i: "i < unat (c_num_files c)"
    and res: "materialize_file i want c scratch = (ok, c', scratch')"
  shows "map materialize_want (c_files c') = map materialize_want (c_files c)"
proof -
  have r: "map materialize_want (c_files c1) = map materialize_want (c_files c)"
    if "dfc_file_resize c i want = (b, c1)" for b c1
    using arg_cong [OF file_meta_resize [OF inv i that], of "map materialize_want"]
    by (simp add: comp_def materialize_want_meta)
  have sc: "map materialize_want (c_files (set_complete i d)) = map materialize_want (c_files d)" for d
    by (rule materialize_wants_upd) simp_all
  have gr: "map materialize_want (c_files (upd_file i
      (\<lambda>f. f\<lparr>f_data_len := x, f_contents_complete := True\<rparr>) d)) = map materialize_want (c_files d)" for d x
    by (rule materialize_wants_upd) simp_all
  show ?thesis
    using res r unfolding materialize_file_def Let_def
    by (auto simp: sc gr simp del: upd_file_simps split: if_splits prod.splits bool.splits option.splits)
qed

definition materialized :: "DfcFile \<Rightarrow> bytes \<Rightarrow> bytes \<Rightarrow> bool" where
  "materialized f old new \<longleftrightarrow>
     (case materialize_want f of
        Inr (Some want) \<Rightarrow> new = old @ replicate (want - length old) 0
      | _ \<Rightarrow> new = old)"

lemma materialize_loop_effect:
  assumes "file_invar c" "materialize_loop i complete c scratch = (ok, c')"
  shows "file_invar c' \<and> c_num_files c' = c_num_files c \<and> (ok \<longrightarrow> complete) \<and>
    (\<forall>j < unat (c_num_files c). j < i \<longrightarrow> file_bytes c' j = file_bytes c j) \<and>
    (\<forall>j < unat (c_num_files c). file_bytes c' j = file_bytes c j \<or>
       materialized (c_files c ! j) (file_bytes c j) (file_bytes c' j)) \<and>
    (ok \<longrightarrow> (\<forall>j < unat (c_num_files c). i \<le> j \<longrightarrow>
       materialized (c_files c ! j) (file_bytes c j) (file_bytes c' j)))"
  using assms
proof (induction i complete c scratch rule: materialize_loop.induct)
  case (1 i complete c scratch)
  let ?n = "unat (c_num_files c)"
  show ?case
  proof (cases "i < ?n")
    case False
    then show ?thesis using "1.prems" by (simp add: materialize_loop.simps [of i])
  next
    case True
    then obtain w where w: "materialize_want (c_files c ! i) = Inr w"
      by (cases "materialize_want (c_files c ! i)") auto
    show ?thesis
    proof (cases w)
      case None
      have rest: "materialize_loop (Suc i) complete c scratch = (ok, c')"
        using "1.prems"(2) True w None by (simp add: materialize_loop.simps [of i])
      note IH = "1.IH"(1) [OF True w None "1.prems"(1) rest]
      have "materialized (c_files c ! i) (file_bytes c i) (file_bytes c' i)"
        using IH True w None by (simp add: materialized_def)
      then show ?thesis using IH by (metis Suc_leI less_Suc_eq nat_less_le)
    next
      case (Some want)
      obtain b c1 scr where m: "materialize_file i want c scratch = (b, c1, scr)" by (metis prod_cases3)
      have rest: "materialize_loop (Suc i) (complete \<and> b) c1 scr = (ok, c')"
        using "1.prems"(2) True w Some m by (simp add: materialize_loop.simps [of i])
      note eff = materialize_file_effect [OF "1.prems"(1) True m]
      note IH = "1.IH"(2) [OF True w Some m [symmetric] refl eff(1) rest]
      have num: "c_num_files c1 = c_num_files c" by (rule materialize_file_num [OF m])
      have want1: "materialize_want (c_files c1 ! j) = materialize_want (c_files c ! j)" if "j < ?n" for j
        using arg_cong [OF materialize_file_wants [OF "1.prems"(1) True m], of "\<lambda>xs. xs ! j"] that
          file_wf_bounds [of c j] file_wf_bounds [of c1 j] "1.prems"(1) eff(1) num
        by (simp add: file_invar_def)
      have mat1: "materialized (c_files c1 ! j) x y = materialized (c_files c ! j) x y" if "j < ?n" for j x y
        using want1 [OF that] by (simp add: materialized_def)
      have at_i: "file_bytes c' i = file_bytes c1 i" using IH True num by simp
      have own: "b \<Longrightarrow> materialized (c_files c ! i) (file_bytes c i) (file_bytes c' i)"
        using eff(2) w Some at_i by (simp add: materialized_def)
      have others: "file_bytes c1 j = file_bytes c j" if "j < ?n" "j \<noteq> i" for j
        using eff(4) that by blast
      have "file_bytes c' j = file_bytes c j \<or> materialized (c_files c ! j) (file_bytes c j) (file_bytes c' j)"
        if "j < ?n" for j
        using that IH others mat1 num own at_i eff(3) by (cases "j = i"; cases b) auto
      moreover have "materialized (c_files c ! j) (file_bytes c j) (file_bytes c' j)"
        if "ok" "j < ?n" "i \<le> j" for j
        using that IH others mat1 num own by (cases "j = i") auto
      moreover have "file_bytes c' j = file_bytes c j" if "j < ?n" "j < i" for j
        using that IH others num by simp
      ultimately show ?thesis using IH num by simp
    qed
  qed
qed


text \<open>
  C32. Materialising the contents keeps the pool invariant and never disturbs an octet that was
  known: whatever the outcome, a file either keeps its octets or is extended with zeros to the
  size its type declares. When the code reports success every data and record file has been
  extended, so each holds at least its declared allocation.
\<close>

theorem dfc_credential_materialize_contents_correct:
  assumes inv: "file_invar c"
    and res: "dfc_credential_materialize_contents c scratch = (ok, c')"
  shows "file_invar c' \<and> c_num_files c' = c_num_files c \<and>
    (\<forall>j < unat (c_num_files c).
       (file_bytes c' j = file_bytes c j \<or> materialized (c_files c ! j) (file_bytes c j) (file_bytes c' j)) \<and>
       (ok \<longrightarrow> materialized (c_files c ! j) (file_bytes c j) (file_bytes c' j)))"
  using materialize_loop_effect [OF inv res [unfolded dfc_credential_materialize_contents_def]] by blast

theorem dfc_credential_materialize_contents_correct_witness:
  "file_invar (snd (dfc_credential_materialize_contents sample_with_files []))"
  using dfc_credential_materialize_contents_correct [OF sample_with_files_invar(1), of "[]"]
  by (cases "dfc_credential_materialize_contents sample_with_files []") auto

end
