(* ===== verification/Dfc_Key_Pool.thy ===== *)
theory Dfc_Key_Pool
  imports Dfc_Types Slice_Pool
begin

text \<open>
  The key pool and the key-set metadata pool of \<^verbatim>\<open>src/dfc_credential.c\<close>. A
  \<^verbatim>\<open>DfcApplication*\<close> is an index into the credential's array, and where the
  code also accepts \<^verbatim>\<open>NULL\<close> for the card itself an \<open>option\<close> of it.
\<close>

definition upd_app :: "size_t \<Rightarrow> (DfcApplication \<Rightarrow> DfcApplication) \<Rightarrow> DfcCredential \<Rightarrow> DfcCredential" where
  "upd_app i g c = c\<lparr>c_apps := (c_apps c)[i := g (c_apps c ! i)]\<rparr>"

subsection \<open>The key-set metadata pool\<close>

definition dfc_key_set_metadata_length :: "size_t \<Rightarrow> size_t \<Rightarrow> size_t" where
  "dfc_key_set_metadata_length num_key_sets num_keys =
     (if num_key_sets < DFC_KEY_SET_MINIMUM_COUNT \<or> num_key_sets > DFC_MAX_KEY_SETS \<or>
         num_keys = 0 \<or> num_keys > DFC_MAX_KEYS then 0
      else 2 * num_key_sets + 2 + (num_key_sets - 1) * num_keys)"

text \<open>The slice of an application's metadata: \<open>None\<close> is the \<open>false\<close> return.\<close>

definition dfc_key_set_metadata_slice :: "DfcCredential \<Rightarrow> size_t \<Rightarrow> size_t option" where
  "dfc_key_set_metadata_slice c i =
     (let app = c_apps c ! i; used = unat (c_key_set_metadata_pool_used c);
          off = unat (a_key_set_metadata_offset app) in
      if unat (a_num_key_sets app) < DFC_KEY_SET_MINIMUM_COUNT \<or>
         used > DFC_KEY_SET_METADATA_POOL_SIZE then None
      else
        let expected = dfc_key_set_metadata_length (unat (a_num_key_sets app)) (unat (a_num_keys app)) in
        if expected = 0 \<or> unat (a_key_set_metadata_len app) \<noteq> expected \<or>
           a_key_set_metadata_offset app = DFC_KEY_SET_METADATA_POOL_NONE \<or>
           off > DFC_KEY_SET_METADATA_POOL_SIZE \<or>
           expected > DFC_KEY_SET_METADATA_POOL_SIZE - off \<or>
           off > used \<or> expected > used - off then None
        else Some off)"

definition meta_offset_shift :: "size_t \<Rightarrow> size_t \<Rightarrow> DfcApplication \<Rightarrow> DfcApplication" where
  "meta_offset_shift freed_offset freed_len other =
     (if a_key_set_metadata_offset other \<noteq> DFC_KEY_SET_METADATA_POOL_NONE \<and>
         unat (a_key_set_metadata_offset other) > freed_offset
      then other\<lparr>a_key_set_metadata_offset :=
             of_nat (unat (a_key_set_metadata_offset other) - freed_len)\<rparr>
      else other)"

definition dfc_key_set_metadata_compact_after_release ::
  "DfcCredential \<Rightarrow> size_t \<Rightarrow> size_t \<Rightarrow> DfcCredential" where
  "dfc_key_set_metadata_compact_after_release c freed_offset freed_len =
     (if freed_len = 0 \<or> freed_offset = unat DFC_KEY_SET_METADATA_POOL_NONE then c
      else
        let tail = unat (c_key_set_metadata_pool_used c) - (freed_offset + freed_len);
            pool = (if tail > 0
              then mem_move freed_offset (freed_offset + freed_len) tail (c_key_set_metadata_pool c)
              else c_key_set_metadata_pool c);
            used = (of_nat (unat (c_key_set_metadata_pool_used c) - freed_len) :: u16)
        in c\<lparr>c_key_set_metadata_pool_used := used,
             c_key_set_metadata_pool := mem_set (unat used) 0 freed_len pool,
             c_apps := map (meta_offset_shift freed_offset freed_len) (c_apps c)\<rparr>)"

definition dfc_key_set_metadata_release :: "DfcCredential \<Rightarrow> size_t \<Rightarrow> DfcCredential" where
  "dfc_key_set_metadata_release c i =
     (let app = c_apps c ! i;
          old_offset = unat (a_key_set_metadata_offset app);
          old_len = unat (a_key_set_metadata_len app);
          c1 = upd_app i (\<lambda>a. a\<lparr>a_key_set_metadata_offset := DFC_KEY_SET_METADATA_POOL_NONE,
                                  a_key_set_metadata_len := 0\<rparr>) c
      in if old_offset = unat DFC_KEY_SET_METADATA_POOL_NONE \<or> old_len = 0 then c1
         else if old_offset > unat (c_key_set_metadata_pool_used c1) \<or>
                 old_len > unat (c_key_set_metadata_pool_used c1) - old_offset then c1
         else dfc_key_set_metadata_compact_after_release c1 old_offset old_len)"

definition dfc_key_set_metadata_can_resize :: "DfcCredential \<Rightarrow> size_t \<Rightarrow> size_t \<Rightarrow> bool" where
  "dfc_key_set_metadata_can_resize c i want =
     (if want > DFC_KEY_SET_METADATA_POOL_SIZE \<or>
         unat (c_key_set_metadata_pool_used c) > DFC_KEY_SET_METADATA_POOL_SIZE then False
      else
        let app = c_apps c ! i in
        case dfc_pool_slice_resolve (unat (a_key_set_metadata_offset app))
               (unat (a_key_set_metadata_len app)) (unat (c_key_set_metadata_pool_used c))
               (unat DFC_KEY_SET_METADATA_POOL_NONE) of
          None \<Rightarrow> False
        | Some old_offset \<Rightarrow>
            let used_without_old =
                  (if old_offset \<noteq> unat DFC_KEY_SET_METADATA_POOL_NONE
                   then unat (c_key_set_metadata_pool_used c) - unat (a_key_set_metadata_len app)
                   else unat (c_key_set_metadata_pool_used c))
            in want \<le> DFC_KEY_SET_METADATA_POOL_SIZE - used_without_old)"

definition dfc_key_set_metadata_resize ::
  "DfcCredential \<Rightarrow> size_t \<Rightarrow> size_t \<Rightarrow> bool \<times> DfcCredential" where
  "dfc_key_set_metadata_resize c i want =
     (if \<not> dfc_key_set_metadata_can_resize c i want then (False, c)
      else
        let c1 = dfc_key_set_metadata_release c i in
        if want = 0 then (True, c1)
        else
          let used = unat (c_key_set_metadata_pool_used c1);
              c2 = upd_app i (\<lambda>a. a\<lparr>a_key_set_metadata_offset := of_nat used,
                                      a_key_set_metadata_len := of_nat want\<rparr>) c1
          in (True, c2\<lparr>c_key_set_metadata_pool := mem_set used 0 want (c_key_set_metadata_pool c2),
                       c_key_set_metadata_pool_used := of_nat (used + want)\<rparr>))"

text \<open>The per-set entries, as offsets into the metadata pool.\<close>

definition dfc_credential_key_set_version :: "DfcCredential \<Rightarrow> size_t \<Rightarrow> size_t \<Rightarrow> size_t option" where
  "dfc_credential_key_set_version c i key_set_number =
     (case dfc_key_set_metadata_slice c i of
        None \<Rightarrow> None
      | Some data \<Rightarrow>
          if key_set_number < unat (a_num_key_sets (c_apps c ! i)) then Some (data + key_set_number)
          else None)"

definition dfc_credential_key_set_type :: "DfcCredential \<Rightarrow> size_t \<Rightarrow> size_t \<Rightarrow> size_t option" where
  "dfc_credential_key_set_type c i key_set_number =
     (case dfc_key_set_metadata_slice c i of
        None \<Rightarrow> None
      | Some data \<Rightarrow>
          if key_set_number < unat (a_num_key_sets (c_apps c ! i))
          then Some (data + (unat (a_num_key_sets (c_apps c ! i)) + key_set_number)) else None)"

definition u16_from_le :: "u8 \<Rightarrow> u8 \<Rightarrow> u16" where
  "u16_from_le lo hi = ucast lo OR push_bit 8 (ucast hi)"

definition dfc_credential_key_set_is_initialized :: "DfcCredential \<Rightarrow> size_t \<Rightarrow> size_t \<Rightarrow> bool" where
  "dfc_credential_key_set_is_initialized c i key_set_number =
     (let app = c_apps c ! i in
      if key_set_number \<ge> unat (a_num_key_sets app) then False
      else if unat (a_num_key_sets app) < DFC_KEY_SET_MINIMUM_COUNT then key_set_number = 0
      else case dfc_key_set_metadata_slice c i of
        None \<Rightarrow> False
      | Some data \<Rightarrow>
          let mask_offset = data + 2 * unat (a_num_key_sets app);
              mask = u16_from_le (c_key_set_metadata_pool c ! mask_offset)
                                 (c_key_set_metadata_pool c ! (mask_offset + 1))
          in mask AND push_bit key_set_number 1 \<noteq> 0)"

definition dfc_credential_key_set_set_initialized ::
  "DfcCredential \<Rightarrow> size_t \<Rightarrow> size_t \<Rightarrow> bool \<Rightarrow> bool \<times> DfcCredential" where
  "dfc_credential_key_set_set_initialized c i key_set_number initialized =
     (let app = c_apps c ! i in
      case dfc_key_set_metadata_slice c i of
        None \<Rightarrow> (False, c)
      | Some data \<Rightarrow>
          if key_set_number \<ge> unat (a_num_key_sets app) then (False, c)
          else
            let mask_offset = data + 2 * unat (a_num_key_sets app);
                mask = u16_from_le (c_key_set_metadata_pool c ! mask_offset)
                                   (c_key_set_metadata_pool c ! (mask_offset + 1));
                bit = push_bit key_set_number (1 :: u16);
                mask1 = (if initialized then mask OR bit else mask AND NOT bit)
            in (True, c\<lparr>c_key_set_metadata_pool := (c_key_set_metadata_pool c)
                  [mask_offset := ucast mask1, mask_offset + 1 := ucast (drop_bit 8 mask1)]\<rparr>))"

subsection \<open>The key pool\<close>

definition dfc_credential_stored_key_length :: "size_t \<Rightarrow> size_t" where
  "dfc_credential_stored_key_length key_len = (if key_len = 24 then 24 else 16)"

definition key_offset_of :: "DfcCredential \<Rightarrow> size_t option \<Rightarrow> size_t" where
  "key_offset_of c app = (case app of Some i \<Rightarrow> unat (a_key_offset (c_apps c ! i))
     | None \<Rightarrow> unat (c_picc_key_offset c))"

definition set_key_offset :: "DfcCredential \<Rightarrow> size_t option \<Rightarrow> u16 \<Rightarrow> DfcCredential" where
  "set_key_offset c app offset = (case app of
       Some i \<Rightarrow> upd_app i (\<lambda>a. a\<lparr>a_key_offset := offset\<rparr>) c
     | None \<Rightarrow> c\<lparr>c_picc_key_offset := offset\<rparr>)"

definition num_keys_of :: "DfcCredential \<Rightarrow> size_t option \<Rightarrow> size_t" where
  "num_keys_of c app = (case app of Some i \<Rightarrow> unat (a_num_keys (c_apps c ! i))
     | None \<Rightarrow> unat (c_picc_num_keys c))"

definition set_num_keys :: "DfcCredential \<Rightarrow> size_t option \<Rightarrow> u8 \<Rightarrow> DfcCredential" where
  "set_num_keys c app count = (case app of
       Some i \<Rightarrow> upd_app i (\<lambda>a. a\<lparr>a_num_keys := count\<rparr>) c
     | None \<Rightarrow> c\<lparr>c_picc_num_keys := count\<rparr>)"

definition key_len_of :: "DfcCredential \<Rightarrow> size_t option \<Rightarrow> size_t" where
  "key_len_of c app = (case app of Some i \<Rightarrow> unat (a_key_len (c_apps c ! i))
     | None \<Rightarrow> unat (c_picc_key_len c))"

definition set_key_len :: "DfcCredential \<Rightarrow> size_t option \<Rightarrow> u8 \<Rightarrow> DfcCredential" where
  "set_key_len c app len = (case app of
       Some i \<Rightarrow> upd_app i (\<lambda>a. a\<lparr>a_key_len := len\<rparr>) c
     | None \<Rightarrow> c\<lparr>c_picc_key_len := len\<rparr>)"

definition key_pool_len_of :: "DfcCredential \<Rightarrow> size_t option \<Rightarrow> size_t" where
  "key_pool_len_of c app = (case app of Some i \<Rightarrow> unat (a_key_pool_len (c_apps c ! i))
     | None \<Rightarrow> unat (c_picc_key_pool_len c))"

definition set_key_pool_len :: "DfcCredential \<Rightarrow> size_t option \<Rightarrow> u16 \<Rightarrow> DfcCredential" where
  "set_key_pool_len c app len = (case app of
       Some i \<Rightarrow> upd_app i (\<lambda>a. a\<lparr>a_key_pool_len := len\<rparr>) c
     | None \<Rightarrow> c\<lparr>c_picc_key_pool_len := len\<rparr>)"

text \<open>\<^verbatim>\<open>if(app) app->key_storage_len = len;\<close>\<close>

definition set_key_storage_len :: "DfcCredential \<Rightarrow> size_t option \<Rightarrow> u8 \<Rightarrow> DfcCredential" where
  "set_key_storage_len c app len = (case app of
       Some i \<Rightarrow> upd_app i (\<lambda>a. a\<lparr>a_key_storage_len := len\<rparr>) c
     | None \<Rightarrow> c)"

definition key_offset_shift :: "size_t \<Rightarrow> size_t \<Rightarrow> DfcApplication \<Rightarrow> DfcApplication" where
  "key_offset_shift freed_offset freed_len app =
     (if a_key_offset app \<noteq> DFC_KEY_POOL_NONE \<and> unat (a_key_offset app) > freed_offset
      then app\<lparr>a_key_offset := of_nat (unat (a_key_offset app) - freed_len)\<rparr>
      else app)"

definition dfc_key_pool_compact_after_release ::
  "DfcCredential \<Rightarrow> size_t \<Rightarrow> size_t \<Rightarrow> DfcCredential" where
  "dfc_key_pool_compact_after_release c freed_offset freed_len =
     (if freed_len = 0 \<or> freed_offset = unat DFC_KEY_POOL_NONE then c
      else
        let tail = unat (c_key_pool_used c) - (freed_offset + freed_len);
            pool = (if tail > 0
              then mem_move freed_offset (freed_offset + freed_len) tail (c_key_pool c)
              else c_key_pool c);
            used = (of_nat (unat (c_key_pool_used c) - freed_len) :: u16);
            c1 = c\<lparr>c_key_pool_used := used,
                   c_key_pool := mem_set (unat used) 0 freed_len pool,
                   c_apps := map (key_offset_shift freed_offset freed_len) (c_apps c)\<rparr>
        in if c_picc_key_offset c1 \<noteq> DFC_KEY_POOL_NONE \<and> unat (c_picc_key_offset c1) > freed_offset
           then c1\<lparr>c_picc_key_offset := of_nat (unat (c_picc_key_offset c1) - freed_len)\<rparr>
           else c1)"

definition dfc_credential_key_at ::
  "DfcCredential \<Rightarrow> size_t \<Rightarrow> size_t \<Rightarrow> size_t \<Rightarrow> size_t \<Rightarrow> size_t \<Rightarrow> size_t option" where
  "dfc_credential_key_at c offset pool_len num_keys key_len slot =
     (if offset = unat DFC_KEY_POOL_NONE \<or> pool_len = 0 then None
      else if slot \<ge> num_keys then None
      else
        let stride = dfc_credential_stored_key_length key_len in
        if (slot + 1) * stride > pool_len then None
        else if offset + pool_len > unat (c_key_pool_used c) then None
        else Some (offset + slot * stride))"

definition key_storage_len_of :: "DfcCredential \<Rightarrow> size_t option \<Rightarrow> size_t" where
  "key_storage_len_of c app = (case app of Some i \<Rightarrow> unat (a_key_storage_len (c_apps c ! i))
     | None \<Rightarrow> key_len_of c None)"

definition dfc_credential_key :: "DfcCredential \<Rightarrow> size_t option \<Rightarrow> size_t \<Rightarrow> size_t option" where
  "dfc_credential_key c app slot =
     dfc_credential_key_at c (key_offset_of c app) (key_pool_len_of c app) (num_keys_of c app)
       (key_storage_len_of c app) slot"

definition dfc_credential_keys_release :: "DfcCredential \<Rightarrow> size_t option \<Rightarrow> DfcCredential" where
  "dfc_credential_keys_release c app =
     (let old_offset = key_offset_of c app;
          old_len = key_pool_len_of c app;
          c1 = set_key_offset c app DFC_KEY_POOL_NONE;
          c2 = set_key_pool_len c1 app 0;
          c3 = set_num_keys c2 app 0;
          c4 = set_key_len c3 app 0;
          c5 = (case app of
                 None \<Rightarrow> c4
               | Some i \<Rightarrow> dfc_key_set_metadata_release (set_key_storage_len c4 app 0) i)
      in if old_offset \<noteq> unat DFC_KEY_POOL_NONE \<and> old_len > 0
         then dfc_key_pool_compact_after_release c5 old_offset old_len
         else c5)"

definition dfc_credential_keys_resize_total ::
  "DfcCredential \<Rightarrow> size_t option \<Rightarrow> size_t \<Rightarrow> size_t \<Rightarrow> size_t \<Rightarrow> size_t \<Rightarrow> bool \<times> DfcCredential" where
  "dfc_credential_keys_resize_total c app num_keys allocated_keys key_len storage_key_len =
     (if num_keys > DFC_MAX_KEYS then (False, c)
      else if key_len > DFC_MAX_KEY_LEN \<or> storage_key_len > DFC_MAX_KEY_LEN then (False, c)
      else if allocated_keys < num_keys then (False, c)
      else
        let offset = key_offset_of c app;
            pool_len = key_pool_len_of c app;
            stride = dfc_credential_stored_key_length storage_key_len
        in
        if allocated_keys > DFC_KEY_POOL_SIZE div stride then (False, c)
        else
        let want = allocated_keys * stride in
        if want > DFC_KEY_POOL_SIZE then (False, c)
        else if unat (c_key_pool_used c) > DFC_KEY_POOL_SIZE then (False, c)
        else case dfc_pool_slice_resolve offset pool_len (unat (c_key_pool_used c))
                    (unat DFC_KEY_POOL_NONE) of
          None \<Rightarrow> (False, c)
        | Some old_offset \<Rightarrow>
          if old_offset \<noteq> unat DFC_KEY_POOL_NONE \<and> pool_len = want \<and> want > 0 then
            (True, set_key_storage_len (set_key_len (set_num_keys c app (of_nat num_keys)) app
                     (of_nat key_len)) app (of_nat storage_key_len))
          else if old_offset \<noteq> unat DFC_KEY_POOL_NONE \<and> pool_len > unat (c_key_pool_used c)
          then (False, c)
          else
            let used_without_old =
                  (if old_offset \<noteq> unat DFC_KEY_POOL_NONE then unat (c_key_pool_used c) - pool_len
                   else unat (c_key_pool_used c))
            in
            if want > DFC_KEY_POOL_SIZE - used_without_old then (False, c)
            else
              let c1 = dfc_credential_keys_release c app in
              if want = 0
              then (True, set_key_len (set_num_keys c1 app (of_nat num_keys)) app (of_nat key_len))
              else
                let used = unat (c_key_pool_used c1);
                    c2 = set_key_pool_len (set_key_offset c1 app (of_nat used)) app (of_nat want);
                    c3 = c2\<lparr>c_key_pool := mem_set used 0 want (c_key_pool c2),
                            c_key_pool_used := of_nat (used + want)\<rparr>
                in (True, set_key_storage_len (set_key_len (set_num_keys c3 app (of_nat num_keys)) app
                     (of_nat key_len)) app (of_nat storage_key_len)))"

definition dfc_credential_keys_resize ::
  "DfcCredential \<Rightarrow> size_t option \<Rightarrow> size_t \<Rightarrow> size_t \<Rightarrow> bool \<times> DfcCredential" where
  "dfc_credential_keys_resize c app num_keys key_len =
     (case dfc_credential_keys_resize_total c app num_keys num_keys key_len key_len of
        (False, c1) \<Rightarrow> (False, c1)
      | (True, c1) \<Rightarrow>
          (case app of
             None \<Rightarrow> (True, c1)
           | Some i \<Rightarrow>
               dfc_key_set_metadata_resize
                 (upd_app i (\<lambda>a. a\<lparr>a_num_key_sets := 1, a_max_key_size := 0, a_key_set_settings := 0\<rparr>) c1)
                 i 0))"

definition dfc_credential_key_sets_resize ::
  "DfcCredential \<Rightarrow> size_t \<Rightarrow> size_t \<Rightarrow> size_t \<Rightarrow> size_t \<Rightarrow> size_t \<Rightarrow> bool \<times> DfcCredential" where
  "dfc_credential_key_sets_resize c i num_key_sets num_keys active_key_len max_key_size =
     (if num_key_sets < DFC_KEY_SET_MINIMUM_COUNT \<or> num_key_sets > DFC_MAX_KEY_SETS then (False, c)
      else if num_keys > SIZE_MAX div num_key_sets then (False, c)
      else
        let metadata_len = dfc_key_set_metadata_length num_key_sets num_keys in
        if metadata_len = 0 \<or> \<not> dfc_key_set_metadata_can_resize c i metadata_len then (False, c)
        else case dfc_credential_keys_resize_total c (Some i) num_keys (num_keys * num_key_sets)
                    active_key_len max_key_size of
          (False, c1) \<Rightarrow> (False, c1)
        | (True, c1) \<Rightarrow>
          (case dfc_key_set_metadata_resize c1 i metadata_len of
             (False, c2) \<Rightarrow> (False, c2)
           | (True, c2) \<Rightarrow>
               let c3 = upd_app i (\<lambda>a. a\<lparr>a_num_key_sets := of_nat num_key_sets,
                                           a_max_key_size := of_nat max_key_size\<rparr>) c2
               in case dfc_key_set_metadata_slice c3 i of
                    None \<Rightarrow> (False, c3)
                  | Some metadata \<Rightarrow>
                      let mask_offset = metadata + 2 * num_key_sets;
                          mask = (if num_key_sets = 16 then 0xFFFF
                                  else push_bit num_key_sets 1 - 1 :: u16)
                      in (True, c3\<lparr>c_key_set_metadata_pool := (c_key_set_metadata_pool c3)
                            [mask_offset := ucast mask, mask_offset + 1 := ucast (drop_bit 8 mask)]\<rparr>)))"

definition dfc_credential_key_in_set ::
  "DfcCredential \<Rightarrow> size_t \<Rightarrow> size_t \<Rightarrow> size_t \<Rightarrow> size_t option" where
  "dfc_credential_key_in_set c i key_set_number slot =
     (let app = c_apps c ! i in
      if key_set_number \<ge> unat (a_num_key_sets app) \<or> slot \<ge> unat (a_num_keys app) then None
      else dfc_credential_key_at c (unat (a_key_offset app)) (unat (a_key_pool_len app))
             (unat (a_num_keys app) * unat (a_num_key_sets app)) (unat (a_key_storage_len app))
             (key_set_number * unat (a_num_keys app) + slot))"

text \<open>
  The pointer to a key version: into the application's own array for the active set, into the
  metadata pool for the others.
\<close>

datatype version_ref = InApp size_t | InPool size_t

definition dfc_credential_key_version_in_set ::
  "DfcCredential \<Rightarrow> size_t \<Rightarrow> size_t \<Rightarrow> size_t \<Rightarrow> version_ref option" where
  "dfc_credential_key_version_in_set c i key_set_number slot =
     (let app = c_apps c ! i in
      if key_set_number \<ge> unat (a_num_key_sets app) \<or> slot \<ge> unat (a_num_keys app) then None
      else if key_set_number = 0 then Some (InApp slot)
      else case dfc_key_set_metadata_slice c i of
        None \<Rightarrow> None
      | Some metadata \<Rightarrow>
          Some (InPool (metadata + (2 * unat (a_num_key_sets app) + 2 +
                  (key_set_number - 1) * unat (a_num_keys app) + slot))))"

definition dfc_credential_key_pool_free :: "DfcCredential \<Rightarrow> size_t" where
  "dfc_credential_key_pool_free c =
     (if unat (c_key_pool_used c) \<ge> DFC_KEY_POOL_SIZE then 0
      else DFC_KEY_POOL_SIZE - unat (c_key_pool_used c))"

subsection \<open>The pool views\<close>

definition key_slot :: "DfcApplication \<Rightarrow> u16 \<times> u16" where
  "key_slot a = (a_key_offset a, a_key_pool_len a)"

definition meta_slot :: "DfcApplication \<Rightarrow> u16 \<times> u16" where
  "meta_slot a = (a_key_set_metadata_offset a, a_key_set_metadata_len a)"

text \<open>The owners of key slots: the applications by index, then the card.\<close>

definition key_owner :: "nat \<Rightarrow> size_t option" where
  "key_owner i = (if i < DFC_MAX_APPS then Some i else None)"

definition owner_index :: "size_t option \<Rightarrow> nat" where
  "owner_index app = (case app of Some i \<Rightarrow> i | None \<Rightarrow> DFC_MAX_APPS)"

definition key_slots :: "DfcCredential \<Rightarrow> (u16 \<times> u16) list" where
  "key_slots c = map key_slot (c_apps c) @ [(c_picc_key_offset c, c_picc_key_pool_len c)]"

definition meta_slots :: "DfcCredential \<Rightarrow> (u16 \<times> u16) list" where
  "meta_slots c = map meta_slot (c_apps c)"

definition key_slices :: "DfcCredential \<Rightarrow> slice list" where
  "key_slices c = map slot_slice (key_slots c)"

definition meta_slices :: "DfcCredential \<Rightarrow> slice list" where
  "meta_slices c = map slot_slice (meta_slots c)"

definition key_wf :: "DfcCredential \<Rightarrow> bool" where
  "key_wf c \<longleftrightarrow> length (c_key_pool c) = DFC_KEY_POOL_SIZE \<and> length (c_apps c) = DFC_MAX_APPS \<and>
     list_all slot_ok (key_slots c)"

definition meta_wf :: "DfcCredential \<Rightarrow> bool" where
  "meta_wf c \<longleftrightarrow> length (c_key_set_metadata_pool c) = DFC_KEY_SET_METADATA_POOL_SIZE \<and>
     length (c_apps c) = DFC_MAX_APPS \<and> list_all slot_ok (meta_slots c)"

definition key_pool_used :: "DfcCredential \<Rightarrow> size_t" where
  "key_pool_used c = unat (c_key_pool_used c)"

definition meta_pool_used :: "DfcCredential \<Rightarrow> size_t" where
  "meta_pool_used c = unat (c_key_set_metadata_pool_used c)"


abbreviation key_pool_ok :: "DfcCredential \<Rightarrow> bool" where
  "key_pool_ok c \<equiv> pool_ok (key_slices c) (key_pool_used c) (c_key_pool c)"

abbreviation meta_pool_ok :: "DfcCredential \<Rightarrow> bool" where
  "meta_pool_ok c \<equiv> pool_ok (meta_slices c) (meta_pool_used c) (c_key_set_metadata_pool c)"

lemma upd_app_simps [simp]:
  "c_apps (upd_app i g c) = (c_apps c)[i := g (c_apps c ! i)]"
  "c_num_apps (upd_app i g c) = c_num_apps c"
  "c_key_pool (upd_app i g c) = c_key_pool c"
  "c_key_pool_used (upd_app i g c) = c_key_pool_used c"
  "c_key_set_metadata_pool (upd_app i g c) = c_key_set_metadata_pool c"
  "c_key_set_metadata_pool_used (upd_app i g c) = c_key_set_metadata_pool_used c"
  "c_picc_key_offset (upd_app i g c) = c_picc_key_offset c"
  "c_picc_key_pool_len (upd_app i g c) = c_picc_key_pool_len c"
  "c_picc_num_keys (upd_app i g c) = c_picc_num_keys c"
  "c_picc_key_len (upd_app i g c) = c_picc_key_len c"
  by (simp_all add: upd_app_def)

lemma length_key_slices: "key_wf c \<Longrightarrow> length (key_slices c) = Suc DFC_MAX_APPS"
  by (simp add: key_slices_def key_slots_def key_wf_def)

lemma length_meta_slices: "meta_wf c \<Longrightarrow> length (meta_slices c) = DFC_MAX_APPS"
  by (simp add: meta_slices_def meta_slots_def meta_wf_def)

subsection \<open>Releasing metadata\<close>

lemma meta_slot_shift: "meta_slot (meta_offset_shift a m x) = apfst (offset_shift a m) (meta_slot x)"
  by (simp add: meta_slot_def meta_offset_shift_def offset_shift_def
      DFC_KEY_SET_METADATA_POOL_NONE_def SLOT_NONE_def)

lemma key_slot_shift: "key_slot (key_offset_shift a m x) = apfst (offset_shift a m) (key_slot x)"
  by (simp add: key_slot_def key_offset_shift_def offset_shift_def DFC_KEY_POOL_NONE_def SLOT_NONE_def)

lemma META_NONE_eq: "DFC_KEY_SET_METADATA_POOL_NONE = SLOT_NONE"
  by (simp add: DFC_KEY_SET_METADATA_POOL_NONE_def SLOT_NONE_def)

lemma KEY_NONE_eq: "DFC_KEY_POOL_NONE = SLOT_NONE"
  by (simp add: DFC_KEY_POOL_NONE_def SLOT_NONE_def)

lemma META_SIZE_eq: "DFC_KEY_SET_METADATA_POOL_SIZE = 896"
  by (simp add: dfc_size_consts)

lemma meta_slot_in:
  assumes wf: "meta_wf c" and ok: "meta_pool_ok c" and i: "i < DFC_MAX_APPS"
  shows "slot_ok (meta_slots c ! i)"
    and "a_key_set_metadata_len (c_apps c ! i) \<noteq> 0 \<Longrightarrow>
      unat (a_key_set_metadata_offset (c_apps c ! i)) + unat (a_key_set_metadata_len (c_apps c ! i))
        \<le> unat (c_key_set_metadata_pool_used c)"
    and "meta_slots c ! i = (a_key_set_metadata_offset (c_apps c ! i), a_key_set_metadata_len (c_apps c ! i))"
    and "unat (c_key_set_metadata_pool_used c) \<le> 896"
proof -
  show m: "meta_slots c ! i = (a_key_set_metadata_offset (c_apps c ! i), a_key_set_metadata_len (c_apps c ! i))"
    using wf i by (simp add: meta_slots_def meta_wf_def meta_slot_def)
  show s: "slot_ok (meta_slots c ! i)"
    using wf i by (auto simp: meta_wf_def meta_slots_def list_all_length)
  have sl: "meta_slices c ! i = slot_slice (meta_slots c ! i)"
    using wf i by (simp add: meta_slices_def meta_slots_def meta_wf_def)
  show "unat (a_key_set_metadata_offset (c_apps c ! i)) + unat (a_key_set_metadata_len (c_apps c ! i))
        \<le> unat (c_key_set_metadata_pool_used c)" if "a_key_set_metadata_len (c_apps c ! i) \<noteq> 0"
    using pool_ok_inside [OF ok, of i] i length_meta_slices [OF wf] slot_slice_eqs [OF s] m that sl
    by (simp add: unat_gt_0 meta_pool_used_def)
  show "unat (c_key_set_metadata_pool_used c) \<le> 896"
    using pool_ok_used [OF ok] wf by (simp add: meta_wf_def META_SIZE_eq meta_pool_used_def)
qed

lemma meta_release_view:
  assumes wf: "meta_wf c" and ok: "meta_pool_ok c" and i: "i < DFC_MAX_APPS"
  shows "meta_slots (dfc_key_set_metadata_release c i) = slots_release i (meta_slots c)"
    and "meta_pool_used (dfc_key_set_metadata_release c i) = meta_pool_used c - snd (meta_slices c ! i)"
    and "c_key_set_metadata_pool (dfc_key_set_metadata_release c i) =
      (if snd (meta_slices c ! i) = 0 then c_key_set_metadata_pool c
       else pool_compact (fst (meta_slices c ! i)) (snd (meta_slices c ! i)) (meta_pool_used c)
              (c_key_set_metadata_pool c))"
    and "length (c_apps (dfc_key_set_metadata_release c i)) = length (c_apps c)"
proof -
  note sl = meta_slot_in [OF wf ok i]
  have ms: "meta_slices c ! i = slot_slice (meta_slots c ! i)"
    using wf i by (simp add: meta_slices_def meta_slots_def meta_wf_def)
  let ?a = "a_key_set_metadata_offset (c_apps c ! i)" and ?m = "a_key_set_metadata_len (c_apps c ! i)"
  let ?e = "(c_apps c ! i)\<lparr>a_key_set_metadata_offset := SLOT_NONE, a_key_set_metadata_len := 0\<rparr>"
  have len: "snd (meta_slices c ! i) = unat ?m" "?m \<noteq> 0 \<Longrightarrow> fst (meta_slices c ! i) = unat ?a"
    using slot_slice_eqs [OF sl(1)] ms sl(3) by simp_all
  have none: "?m \<noteq> 0 \<Longrightarrow> unat ?a \<noteq> 65535"
    using sl(1,3) by (simp add: slot_ok_def u16_eq_SLOT_NONE_iff)
  have ge: "meta_offset_shift x y ?e = ?e" for x y
    by (simp add: meta_offset_shift_def META_NONE_eq)
  have r: "dfc_key_set_metadata_release c i =
     (let c1 = c\<lparr>c_apps := (c_apps c)[i := ?e]\<rparr> in
      if ?m = 0 then c1
      else c1\<lparr>c_key_set_metadata_pool_used := of_nat (unat (c_key_set_metadata_pool_used c) - unat ?m),
             c_key_set_metadata_pool := pool_compact (unat ?a) (unat ?m)
               (unat (c_key_set_metadata_pool_used c)) (c_key_set_metadata_pool c),
             c_apps := (map (meta_offset_shift (unat ?a) (unat ?m)) (c_apps c))[i := ?e]\<rparr>)"
    using sl(2,4) none
    by (auto simp: dfc_key_set_metadata_release_def Let_def upd_app_def META_NONE_eq unat_eq_0
        dfc_key_set_metadata_compact_after_release_def pool_compact_def map_update ge)
  show "length (c_apps (dfc_key_set_metadata_release c i)) = length (c_apps c)"
    by (simp add: r Let_def)
  show "meta_pool_used (dfc_key_set_metadata_release c i) = meta_pool_used c - snd (meta_slices c ! i)"
    by (simp add: r Let_def meta_pool_used_def len)
  show "c_key_set_metadata_pool (dfc_key_set_metadata_release c i) =
      (if snd (meta_slices c ! i) = 0 then c_key_set_metadata_pool c
       else pool_compact (fst (meta_slices c ! i)) (snd (meta_slices c ! i)) (meta_pool_used c)
              (c_key_set_metadata_pool c))"
    by (simp add: r Let_def meta_pool_used_def len unat_eq_0)
  have "map meta_slot (map (meta_offset_shift (unat ?a) (unat ?m)) (c_apps c)) =
      map (apfst (offset_shift (unat ?a) (unat ?m))) (map meta_slot (c_apps c))"
    by (simp add: meta_slot_shift)
  then show "meta_slots (dfc_key_set_metadata_release c i) = slots_release i (meta_slots c)"
    using sl(3) by (simp add: r Let_def slots_release_def meta_slots_def map_update del: map_map)
      (simp add: meta_slot_def)
qed

lemma meta_release_wf:
  assumes wf: "meta_wf c" and ok: "meta_pool_ok c" and i: "i < DFC_MAX_APPS"
  shows "meta_wf (dfc_key_set_metadata_release c i)"
proof -
  have li: "i < length (meta_slots c)" using wf i by (simp add: meta_slots_def meta_wf_def)
  have "fst (meta_slices c ! i) + snd (meta_slices c ! i) \<le> meta_pool_used c" if "snd (meta_slices c ! i) \<noteq> 0"
    using pool_ok_inside [OF ok, of i] i length_meta_slices [OF wf] that by simp
  then show ?thesis
    using slots_release_view(2) [OF _ li] wf pool_ok_used [OF ok] meta_release_view [OF wf ok i]
    by (auto simp: meta_wf_def)
qed

interpretation meta_pool: slice_pool meta_slices meta_pool_used c_key_set_metadata_pool
  DFC_KEY_SET_METADATA_POOL_SIZE meta_wf "\<lambda>i c. dfc_key_set_metadata_release c i"
proof
  fix s i
  assume *: "meta_wf s" "meta_pool_ok s" "i < length (meta_slices s)"
  then have i: "i < DFC_MAX_APPS" by (simp add: length_meta_slices)
  have li: "i < length (meta_slots s)" "list_all slot_ok (meta_slots s)"
    using * by (auto simp: meta_slices_def meta_wf_def)
  show "meta_wf (dfc_key_set_metadata_release s i)" by (rule meta_release_wf [OF *(1,2) i])
  show "meta_slices (dfc_key_set_metadata_release s i) = slices_release i (meta_slices s)"
    using meta_release_view(1) [OF *(1,2) i] slots_release_view(1) [OF li(2,1)]
    by (simp add: meta_slices_def)
  show "meta_pool_used (dfc_key_set_metadata_release s i) = meta_pool_used s - snd (meta_slices s ! i)"
    by (rule meta_release_view(2) [OF *(1,2) i])
  show "c_key_set_metadata_pool (dfc_key_set_metadata_release s i) =
      (if snd (meta_slices s ! i) = 0 then c_key_set_metadata_pool s
       else pool_compact (fst (meta_slices s ! i)) (snd (meta_slices s ! i)) (meta_pool_used s)
              (c_key_set_metadata_pool s))"
    by (rule meta_release_view(3) [OF *(1,2) i])
qed (simp add: meta_wf_def)


subsection \<open>Resizing metadata\<close>

lemma slots_alloc_view:
  assumes "0 < n" "a + n \<le> 8192"
  shows "map slot_slice (xs[i := (of_nat a, of_nat n)]) = (map slot_slice xs)[i := (a, n)]"
    and "list_all slot_ok xs \<Longrightarrow> list_all slot_ok (xs[i := (of_nat a, of_nat n)])"
proof -
  have n: "(of_nat n :: u16) \<noteq> 0" "unat (of_nat n :: u16) = n"
    using assms of_nat_u16_nonzero [of n] by auto
  have a: "(of_nat a :: u16) \<noteq> SLOT_NONE" "unat (of_nat a :: u16) = a"
    using assms by (auto simp: u16_eq_SLOT_NONE_iff)
  show "map slot_slice (xs[i := (of_nat a, of_nat n)]) = (map slot_slice xs)[i := (a, n)]"
    using n a by (simp add: map_update slot_slice_new)
  show "list_all slot_ok xs \<Longrightarrow> list_all slot_ok (xs[i := (of_nat a, of_nat n)])"
    using n a by (intro list_all_list_update) (auto simp: slot_ok_def)
qed

lemma meta_can_resize_eq:
  assumes wf: "meta_wf c" and ok: "meta_pool_ok c" and i: "i < DFC_MAX_APPS"
  shows "dfc_key_set_metadata_can_resize c i want \<longleftrightarrow>
    meta_pool_used c - snd (meta_slices c ! i) + want \<le> DFC_KEY_SET_METADATA_POOL_SIZE"
proof -
  note sl = meta_slot_in [OF wf ok i]
  have ms: "snd (meta_slices c ! i) = unat (a_key_set_metadata_len (c_apps c ! i))"
    using wf i sl(3) slot_slice_eqs(1) [OF sl(1)] by (simp add: meta_slices_def meta_slots_def meta_wf_def)
  have none: "a_key_set_metadata_len (c_apps c ! i) \<noteq> 0 \<Longrightarrow>
      unat (a_key_set_metadata_offset (c_apps c ! i)) \<noteq> 65535"
    using sl(1,3) by (simp add: slot_ok_def u16_eq_SLOT_NONE_iff)
  show ?thesis
    using dfc_pool_slice_resolve_eq [OF sl(1), of "unat (c_key_set_metadata_pool_used c)"] sl(2-4) none
    by (auto simp: dfc_key_set_metadata_can_resize_def META_NONE_eq ms meta_pool_used_def META_SIZE_eq
        Let_def)
qed

definition meta_alloc :: "DfcCredential \<Rightarrow> size_t \<Rightarrow> size_t \<Rightarrow> DfcCredential" where
  "meta_alloc c i want =
     (upd_app i (\<lambda>a. a\<lparr>a_key_set_metadata_offset := of_nat (meta_pool_used c),
                        a_key_set_metadata_len := of_nat want\<rparr>) c)
       \<lparr>c_key_set_metadata_pool := mem_set (meta_pool_used c) 0 want (c_key_set_metadata_pool c),
        c_key_set_metadata_pool_used := of_nat (meta_pool_used c + want)\<rparr>"

lemma meta_alloc_view:
  assumes wf: "meta_wf c" and n: "0 < n" "meta_pool_used c + n \<le> DFC_KEY_SET_METADATA_POOL_SIZE"
  shows "meta_slices (meta_alloc c i n) = (meta_slices c)[i := (meta_pool_used c, n)]"
    and "meta_pool_used (meta_alloc c i n) = meta_pool_used c + n"
    and "c_key_set_metadata_pool (meta_alloc c i n) =
      mem_set (meta_pool_used c) 0 n (c_key_set_metadata_pool c)"
    and "meta_wf (meta_alloc c i n)"
proof -
  have slots: "meta_slots (meta_alloc c i n) = (meta_slots c)[i := (of_nat (meta_pool_used c), of_nat n)]"
    by (simp add: meta_alloc_def meta_slots_def map_update meta_slot_def)
  note v = slots_alloc_view [OF n(1), of "meta_pool_used c" "meta_slots c" i]
  show "meta_slices (meta_alloc c i n) = (meta_slices c)[i := (meta_pool_used c, n)]"
    using v(1) n by (simp add: meta_slices_def slots META_SIZE_eq)
  show "meta_pool_used (meta_alloc c i n) = meta_pool_used c + n"
    using n by (simp add: meta_alloc_def meta_pool_used_def META_SIZE_eq)
  show "c_key_set_metadata_pool (meta_alloc c i n) =
      mem_set (meta_pool_used c) 0 n (c_key_set_metadata_pool c)"
    by (simp add: meta_alloc_def)
  then show "meta_wf (meta_alloc c i n)"
    using wf n v(2) by (simp add: meta_wf_def slots META_SIZE_eq) (simp add: meta_alloc_def)
qed

lemma meta_resize_eq:
  "dfc_key_set_metadata_resize c i want =
     (if \<not> dfc_key_set_metadata_can_resize c i want then (False, c)
      else if want = 0 then (True, dfc_key_set_metadata_release c i)
      else (True, meta_alloc (dfc_key_set_metadata_release c i) i want))"
  by (simp add: dfc_key_set_metadata_resize_def Let_def meta_alloc_def meta_pool_used_def)

interpretation meta_pool: resizable_pool meta_slices meta_pool_used c_key_set_metadata_pool
  DFC_KEY_SET_METADATA_POOL_SIZE meta_wf "\<lambda>i c. dfc_key_set_metadata_release c i"
  "\<lambda>i n c. dfc_key_set_metadata_resize c i n" "\<lambda>n. n" "\<lambda>_. True" False
proof
  fix s i r s'
  assume inv: "meta_pool.invar s" and i': "i < length (meta_slices s)"
  then have wf: "meta_wf s" and ok: "meta_pool_ok s" and i: "i < DFC_MAX_APPS"
    by (auto simp: meta_pool.invar_def length_meta_slices)
  let ?r = "dfc_key_set_metadata_release s i"
  have rwf: "meta_wf ?r" and used: "meta_pool_used ?r = meta_pool_used s - snd (meta_slices s ! i)"
    using meta_release_wf [OF wf ok i] meta_release_view(2) [OF wf ok i] by auto
  note can = meta_can_resize_eq [OF wf ok i, of r]
  show "fst (dfc_key_set_metadata_resize s i r) = (True \<and>
      meta_pool_used s - snd (meta_slices s ! i) + r \<le> DFC_KEY_SET_METADATA_POOL_SIZE)"
    by (simp add: meta_resize_eq can)
  show "dfc_key_set_metadata_resize s i r = (False, s') \<Longrightarrow> s' = s"
    by (auto simp: meta_resize_eq split: if_splits)
  assume res: "dfc_key_set_metadata_resize s i r = (True, s')"
  then have fits: "meta_pool_used ?r + r \<le> DFC_KEY_SET_METADATA_POOL_SIZE"
    and s': "s' = (if r = 0 then ?r else meta_alloc ?r i r)"
    using used can by (auto simp: meta_resize_eq split: if_splits)
  note al = meta_alloc_view [OF rwf _ fits]
  show "meta_wf s'" using al(4) rwf s' by auto
  show "meta_slices s' = (if False \<and> snd (meta_slices s ! i) = r then meta_slices s
       else if r = 0 then meta_slices ?r else (meta_slices ?r)[i := (meta_pool_used ?r, r)])"
    using al(1) s' by auto
  show "meta_pool_used s' = (if False \<and> snd (meta_slices s ! i) = r then meta_pool_used s
       else meta_pool_used ?r + r)"
    using al(2) s' by auto
  show "c_key_set_metadata_pool s' = (if False \<and> snd (meta_slices s ! i) = r
       then c_key_set_metadata_pool s else mem_set (meta_pool_used ?r) 0 r (c_key_set_metadata_pool ?r))"
    using al(3) s' by auto
qed


subsection \<open>What the setters touch\<close>

definition owner_ok :: "size_t option \<Rightarrow> bool" where
  "owner_ok app \<longleftrightarrow> (case app of Some i \<Rightarrow> i < DFC_MAX_APPS | None \<Rightarrow> True)"

lemmas key_setters = set_key_offset_def set_num_keys_def set_key_len_def set_key_pool_len_def
  set_key_storage_len_def

lemma setter_pools [simp]:
  "c_key_pool (set_key_offset c app x) = c_key_pool c"
  "c_key_pool (set_key_pool_len c app x) = c_key_pool c"
  "c_key_pool (set_num_keys c app y) = c_key_pool c"
  "c_key_pool (set_key_len c app y) = c_key_pool c"
  "c_key_pool (set_key_storage_len c app y) = c_key_pool c"
  "c_key_pool_used (set_key_offset c app x) = c_key_pool_used c"
  "c_key_pool_used (set_key_pool_len c app x) = c_key_pool_used c"
  "c_key_pool_used (set_num_keys c app y) = c_key_pool_used c"
  "c_key_pool_used (set_key_len c app y) = c_key_pool_used c"
  "c_key_pool_used (set_key_storage_len c app y) = c_key_pool_used c"
  "c_key_set_metadata_pool (set_key_offset c app x) = c_key_set_metadata_pool c"
  "c_key_set_metadata_pool (set_key_pool_len c app x) = c_key_set_metadata_pool c"
  "c_key_set_metadata_pool (set_num_keys c app y) = c_key_set_metadata_pool c"
  "c_key_set_metadata_pool (set_key_len c app y) = c_key_set_metadata_pool c"
  "c_key_set_metadata_pool (set_key_storage_len c app y) = c_key_set_metadata_pool c"
  "c_key_set_metadata_pool_used (set_key_offset c app x) = c_key_set_metadata_pool_used c"
  "c_key_set_metadata_pool_used (set_key_pool_len c app x) = c_key_set_metadata_pool_used c"
  "c_key_set_metadata_pool_used (set_num_keys c app y) = c_key_set_metadata_pool_used c"
  "c_key_set_metadata_pool_used (set_key_len c app y) = c_key_set_metadata_pool_used c"
  "c_key_set_metadata_pool_used (set_key_storage_len c app y) = c_key_set_metadata_pool_used c"
  "length (c_apps (set_key_offset c app x)) = length (c_apps c)"
  "length (c_apps (set_key_pool_len c app x)) = length (c_apps c)"
  "length (c_apps (set_num_keys c app y)) = length (c_apps c)"
  "length (c_apps (set_key_len c app y)) = length (c_apps c)"
  "length (c_apps (set_key_storage_len c app y)) = length (c_apps c)"
  by (simp_all add: key_setters split: option.split)

lemma meta_slots_upd_app:
  "(\<And>a. meta_slot (g a) = meta_slot a) \<Longrightarrow> meta_slots (upd_app i g c) = meta_slots c"
  by (simp add: meta_slots_def map_update_same)

lemma key_slots_upd_app:
  "(\<And>a. key_slot (g a) = key_slot a) \<Longrightarrow> key_slots (upd_app i g c) = key_slots c"
  by (simp add: key_slots_def map_update_same)

lemma setter_slots [simp]:
  "meta_slots (set_key_offset c app x) = meta_slots c"
  "meta_slots (set_key_pool_len c app x) = meta_slots c"
  "meta_slots (set_num_keys c app y) = meta_slots c"
  "meta_slots (set_key_len c app y) = meta_slots c"
  "meta_slots (set_key_storage_len c app y) = meta_slots c"
  "key_slots (set_num_keys c app y) = key_slots c"
  "key_slots (set_key_len c app y) = key_slots c"
  "key_slots (set_key_storage_len c app y) = key_slots c"
  by (auto simp: key_setters meta_slot_def key_slot_def intro!: meta_slots_upd_app key_slots_upd_app
      split: option.split) (simp_all add: meta_slots_def key_slots_def)

lemma key_slots_set:
  assumes "length (c_apps c) = DFC_MAX_APPS" "owner_ok app"
  shows "key_slots (set_key_pool_len (set_key_offset c app a) app n) = (key_slots c)[owner_index app := (a, n)]"
  using assms
  by (auto simp: key_setters key_slots_def owner_ok_def owner_index_def list_update_append map_update
      key_slot_def split: option.splits)

lemma key_slot_at:
  assumes "length (c_apps c) = DFC_MAX_APPS" "owner_ok app"
  shows "unat (fst (key_slots c ! owner_index app)) = key_offset_of c app"
    and "unat (snd (key_slots c ! owner_index app)) = key_pool_len_of c app"
    and "owner_index app < length (key_slots c)"
  using assms by (auto simp: key_slots_def owner_index_def key_offset_of_def owner_ok_def
      key_pool_len_of_def nth_append key_slot_def split: option.splits)

lemma meta_release_key_view [simp]:
  "key_slots (dfc_key_set_metadata_release c i) = key_slots c"
  "c_key_pool (dfc_key_set_metadata_release c i) = c_key_pool c"
  "c_key_pool_used (dfc_key_set_metadata_release c i) = c_key_pool_used c"
proof -
  have upd: "map key_slot ((c_apps c)[i := g (c_apps c ! i)]) = map key_slot (c_apps c)"
    if "\<And>a. key_slot (g a) = key_slot a" for g
    using that by (rule map_update_same)
  have sh: "key_slot (meta_offset_shift a m x) = key_slot x" for a m x
    by (simp add: meta_offset_shift_def key_slot_def)
  show "key_slots (dfc_key_set_metadata_release c i) = key_slots c"
    by (auto simp: dfc_key_set_metadata_release_def Let_def key_slots_def sh comp_def
        dfc_key_set_metadata_compact_after_release_def intro!: upd) (simp_all add: key_slot_def)
qed (simp_all add: dfc_key_set_metadata_release_def Let_def dfc_key_set_metadata_compact_after_release_def)

lemma key_compact_meta_view [simp]:
  "meta_slots (dfc_key_pool_compact_after_release c a m) = meta_slots c"
  "c_key_set_metadata_pool (dfc_key_pool_compact_after_release c a m) = c_key_set_metadata_pool c"
  "c_key_set_metadata_pool_used (dfc_key_pool_compact_after_release c a m) = c_key_set_metadata_pool_used c"
  "length (c_apps (dfc_key_pool_compact_after_release c a m)) = length (c_apps c)"
proof -
  have "meta_slot (key_offset_shift a m x) = meta_slot x" for x
    by (simp add: key_offset_shift_def meta_slot_def)
  then show "meta_slots (dfc_key_pool_compact_after_release c a m) = meta_slots c"
    by (simp add: dfc_key_pool_compact_after_release_def Let_def meta_slots_def comp_def)
qed (simp_all add: dfc_key_pool_compact_after_release_def Let_def)

subsection \<open>Releasing keys\<close>

lemma key_slot_in:
  assumes wf: "key_wf c" and ok: "key_pool_ok c" and o: "owner_ok app"
  shows "slot_ok (key_slots c ! owner_index app)"
    and "0 < key_pool_len_of c app \<Longrightarrow>
      key_offset_of c app \<noteq> 65535 \<and> key_offset_of c app + key_pool_len_of c app \<le> unat (c_key_pool_used c)"
    and "snd (key_slices c ! owner_index app) = key_pool_len_of c app"
    and "0 < key_pool_len_of c app \<Longrightarrow> fst (key_slices c ! owner_index app) = key_offset_of c app"
    and "unat (c_key_pool_used c) \<le> 4096"
    and "owner_index app < length (key_slices c)"
proof -
  have la: "length (c_apps c) = DFC_MAX_APPS" using wf by (simp add: key_wf_def)
  note at = key_slot_at [OF la o]
  show s: "slot_ok (key_slots c ! owner_index app)"
    using wf at(3) by (simp add: key_wf_def list_all_length)
  have sl: "key_slices c ! owner_index app = slot_slice (key_slots c ! owner_index app)"
    using at(3) by (simp add: key_slices_def)
  show len: "snd (key_slices c ! owner_index app) = key_pool_len_of c app"
    using slot_slice_eqs(1) [OF s] sl at(2) by simp
  show off: "fst (key_slices c ! owner_index app) = key_offset_of c app" if "0 < key_pool_len_of c app"
    using slot_slice_eqs(2) [OF s] sl at that by (simp add: unat_gt_0 [symmetric])
  show i: "owner_index app < length (key_slices c)" using at(3) by (simp add: key_slices_def)
  show "unat (c_key_pool_used c) \<le> 4096"
    using pool_ok_used [OF ok] wf by (simp add: key_wf_def DFC_KEY_POOL_SIZE_def key_pool_used_def)
  show "key_offset_of c app \<noteq> 65535 \<and> key_offset_of c app + key_pool_len_of c app \<le> unat (c_key_pool_used c)"
    if "0 < key_pool_len_of c app"
    using pool_ok_inside [OF ok i] len off that s at
    by (auto simp: key_pool_used_def slot_ok_def u16_eq_SLOT_NONE_iff unat_gt_0 [symmetric] split: if_splits)
qed

lemma key_compact_slots:
  "0 < m \<Longrightarrow> a \<noteq> 65535 \<Longrightarrow>
   key_slots (dfc_key_pool_compact_after_release c a m) = map (apfst (offset_shift a m)) (key_slots c)"
  by (simp add: dfc_key_pool_compact_after_release_def Let_def key_slots_def key_slot_shift
      KEY_NONE_eq offset_shift_def comp_def)

lemma keys_release_view:
  assumes wf: "key_wf c" and ok: "key_pool_ok c" and o: "owner_ok app"
  shows "key_slots (dfc_credential_keys_release c app) = slots_release (owner_index app) (key_slots c)"
    and "key_pool_used (dfc_credential_keys_release c app) =
      key_pool_used c - snd (key_slices c ! owner_index app)"
    and "c_key_pool (dfc_credential_keys_release c app) =
      (if snd (key_slices c ! owner_index app) = 0 then c_key_pool c
       else pool_compact (fst (key_slices c ! owner_index app)) (snd (key_slices c ! owner_index app))
              (key_pool_used c) (c_key_pool c))"
proof -
  let ?a = "key_offset_of c app" and ?m = "key_pool_len_of c app" and ?i = "owner_index app"
  have la: "length (c_apps c) = DFC_MAX_APPS" using wf by (simp add: key_wf_def)
  note sl = key_slot_in [OF wf ok o] and at = key_slot_at [OF la o]
  let ?c4 = "set_key_len (set_num_keys (set_key_pool_len (set_key_offset c app SLOT_NONE) app 0) app 0) app 0"
  let ?c5 = "case app of None \<Rightarrow> ?c4 | Some i \<Rightarrow> dfc_key_set_metadata_release (set_key_storage_len ?c4 app 0) i"
  have c5: "key_slots ?c5 = (key_slots c)[?i := (SLOT_NONE, 0)]" "c_key_pool ?c5 = c_key_pool c"
    "c_key_pool_used ?c5 = c_key_pool_used c"
    using key_slots_set [OF la o] by (auto split: option.split)
  have r: "dfc_credential_keys_release c app =
      (if 0 < ?m then dfc_key_pool_compact_after_release ?c5 ?a ?m else ?c5)"
    using sl(2) by (auto simp: dfc_credential_keys_release_def Let_def KEY_NONE_eq)
  have sh: "offset_shift x y SLOT_NONE = SLOT_NONE" for x y
    by (simp add: offset_shift_def)
  have z: "snd (key_slots c ! ?i) = 0 \<longleftrightarrow> ?m = 0" using at(2) by (metis unat_eq_0)
  show "key_slots (dfc_credential_keys_release c app) = slots_release ?i (key_slots c)"
    using sl(2) at z by (simp add: r key_compact_slots c5 slots_release_def map_update sh)
  show "key_pool_used (dfc_credential_keys_release c app) = key_pool_used c - snd (key_slices c ! ?i)"
    using sl(2) by (auto simp: r key_pool_used_def sl(3) c5 dfc_key_pool_compact_after_release_def
        Let_def KEY_NONE_eq)
  show "c_key_pool (dfc_credential_keys_release c app) =
      (if snd (key_slices c ! ?i) = 0 then c_key_pool c
       else pool_compact (fst (key_slices c ! ?i)) (snd (key_slices c ! ?i))
              (key_pool_used c) (c_key_pool c))"
    using sl(2) by (auto simp: r key_pool_used_def sl(3,4) c5 dfc_key_pool_compact_after_release_def
        Let_def KEY_NONE_eq pool_compact_def)
qed

lemma keys_release_length [simp]:
  "length (c_apps (dfc_credential_keys_release c app)) = length (c_apps c)"
  by (simp add: dfc_credential_keys_release_def Let_def dfc_key_set_metadata_release_def
      dfc_key_set_metadata_compact_after_release_def split: option.split)

lemma keys_release_wf:
  assumes wf: "key_wf c" and ok: "key_pool_ok c" and o: "owner_ok app"
  shows "key_wf (dfc_credential_keys_release c app)"
proof -
  have la: "length (c_apps c) = DFC_MAX_APPS" using wf by (simp add: key_wf_def)
  note sl = key_slot_in [OF wf ok o] and at = key_slot_at [OF la o]
  have "fst (key_slices c ! owner_index app) + snd (key_slices c ! owner_index app) \<le> key_pool_used c"
    if "snd (key_slices c ! owner_index app) \<noteq> 0"
    using pool_ok_inside [OF ok sl(6)] that by simp
  then show ?thesis
    using slots_release_view(2) [OF _ at(3)] wf pool_ok_used [OF ok] keys_release_view [OF wf ok o]
    by (auto simp: key_wf_def)
qed

lemma owner_index_key_owner:
  "i \<le> DFC_MAX_APPS \<Longrightarrow> owner_index (key_owner i) = i" "owner_ok (key_owner i)"
  "owner_ok app \<Longrightarrow> key_owner (owner_index app) = app" "owner_ok app \<Longrightarrow> owner_index app \<le> DFC_MAX_APPS"
  by (auto simp: owner_index_def key_owner_def owner_ok_def split: option.splits)

interpretation key_pool: slice_pool key_slices key_pool_used c_key_pool
  DFC_KEY_POOL_SIZE key_wf "\<lambda>i c. dfc_credential_keys_release c (key_owner i)"
proof
  fix s i
  assume *: "key_wf s" "key_pool_ok s" "i < length (key_slices s)"
  then have i: "owner_index (key_owner i) = i" "owner_ok (key_owner i)"
    by (simp_all add: length_key_slices owner_index_key_owner)
  have li: "i < length (key_slots s)" "list_all slot_ok (key_slots s)"
    using * by (auto simp: key_slices_def key_wf_def)
  note v = keys_release_view [OF *(1,2) i(2), unfolded i(1)]
  show "key_wf (dfc_credential_keys_release s (key_owner i))" by (rule keys_release_wf [OF *(1,2) i(2)])
  show "key_slices (dfc_credential_keys_release s (key_owner i)) = slices_release i (key_slices s)"
    using v(1) slots_release_view(1) [OF li(2,1)] by (simp add: key_slices_def)
  show "key_pool_used (dfc_credential_keys_release s (key_owner i)) =
      key_pool_used s - snd (key_slices s ! i)"
    by (rule v(2))
  show "c_key_pool (dfc_credential_keys_release s (key_owner i)) =
      (if snd (key_slices s ! i) = 0 then c_key_pool s
       else pool_compact (fst (key_slices s ! i)) (snd (key_slices s ! i)) (key_pool_used s)
              (c_key_pool s))"
    by (rule v(3))
qed (simp add: key_wf_def)

text \<open>
  On the metadata pool a release of keys is the release of the application's metadata. Two
  credentials with the same metadata fields have the same view.
\<close>

definition meta_same :: "DfcCredential \<Rightarrow> DfcCredential \<Rightarrow> bool" where
  "meta_same c d \<longleftrightarrow> meta_slots d = meta_slots c \<and> length (c_apps d) = length (c_apps c) \<and>
     c_key_set_metadata_pool d = c_key_set_metadata_pool c \<and>
     c_key_set_metadata_pool_used d = c_key_set_metadata_pool_used c"

lemma meta_same_view:
  assumes "meta_same c d"
  shows "meta_pool.invar d = meta_pool.invar c" "meta_slices d = meta_slices c"
    "meta_pool.contents d = meta_pool.contents c" "meta_pool_used d = meta_pool_used c"
  using assms by (auto simp: meta_same_def meta_pool.invar_def meta_wf_def meta_slices_def
      meta_pool_used_def meta_pool.contents_def)

lemma keys_release_meta:
  assumes inv: "meta_pool.invar c" and o: "owner_ok app"
  shows "meta_pool.invar (dfc_credential_keys_release c app)"
    and "j < DFC_MAX_APPS \<Longrightarrow> app \<noteq> Some j \<Longrightarrow>
      meta_pool.contents (dfc_credential_keys_release c app) j = meta_pool.contents c j"
    and "app = Some j \<Longrightarrow> snd (meta_slices (dfc_credential_keys_release c app) ! j) = 0"
    and "meta_pool_used (dfc_credential_keys_release c app) =
      (case app of None \<Rightarrow> meta_pool_used c | Some i \<Rightarrow> meta_pool_used c - snd (meta_slices c ! i))"
proof -
  let ?d = "set_key_storage_len (set_key_len (set_num_keys
          (set_key_pool_len (set_key_offset c app SLOT_NONE) app 0) app 0) app 0) app 0"
  let ?e = "case app of None \<Rightarrow> ?d | Some i \<Rightarrow> dfc_key_set_metadata_release ?d i"
  have d: "meta_same c ?d" by (simp add: meta_same_def)
  have e: "meta_same ?e (dfc_credential_keys_release c app)"
    by (auto simp: meta_same_def dfc_credential_keys_release_def Let_def KEY_NONE_eq
        set_key_storage_len_def split: option.split)
  note dv = meta_same_view [OF d] and ev = meta_same_view [OF e]
  have dinv: "meta_pool.invar ?d" using inv dv by simp
  have li: "length (meta_slices ?d) = DFC_MAX_APPS"
    using dinv by (simp add: meta_pool.invar_def length_meta_slices)
  show "meta_pool.invar (dfc_credential_keys_release c app)"
    using ev(1) dinv meta_pool.release_invar [OF dinv] o li
    by (auto simp: owner_ok_def split: option.splits)
  show "meta_pool.contents (dfc_credential_keys_release c app) j = meta_pool.contents c j"
    if "j < DFC_MAX_APPS" "app \<noteq> Some j"
    using ev(3) dv(3) that o li meta_pool.release_contents [OF dinv, of _ j]
    by (auto simp: owner_ok_def split: option.splits)
  show "snd (meta_slices (dfc_credential_keys_release c app) ! j) = 0" if "app = Some j"
    using ev(2) that o li meta_pool.release_slice_empty [OF dinv, of j]
    by (auto simp: owner_ok_def split: option.splits)
  show "meta_pool_used (dfc_credential_keys_release c app) =
      (case app of None \<Rightarrow> meta_pool_used c | Some i \<Rightarrow> meta_pool_used c - snd (meta_slices c ! i))"
    using ev(4) dv o li dinv meta_release_view(2) [of ?d]
    by (auto simp: owner_ok_def meta_pool.invar_def split: option.splits)
qed


subsection \<open>Resizing keys\<close>

record key_request =
  rq_num_keys :: size_t
  rq_allocated :: size_t
  rq_key_len :: size_t
  rq_storage_len :: size_t

definition key_want :: "key_request \<Rightarrow> size_t" where
  "key_want r = rq_allocated r * dfc_credential_stored_key_length (rq_storage_len r)"

definition key_admissible :: "key_request \<Rightarrow> bool" where
  "key_admissible r \<longleftrightarrow> rq_num_keys r \<le> DFC_MAX_KEYS \<and> rq_key_len r \<le> DFC_MAX_KEY_LEN \<and>
     rq_storage_len r \<le> DFC_MAX_KEY_LEN \<and> rq_num_keys r \<le> rq_allocated r"

definition key_resize :: "nat \<Rightarrow> key_request \<Rightarrow> DfcCredential \<Rightarrow> bool \<times> DfcCredential" where
  "key_resize i r c = dfc_credential_keys_resize_total c (key_owner i) (rq_num_keys r)
     (rq_allocated r) (rq_key_len r) (rq_storage_len r)"

text \<open>The counts a successful resize records, and the allocation of the new slice.\<close>

definition key_counts :: "DfcCredential \<Rightarrow> size_t option \<Rightarrow> size_t \<Rightarrow> size_t \<Rightarrow> size_t \<Rightarrow> DfcCredential" where
  "key_counts c app num_keys key_len storage_key_len =
     set_key_storage_len (set_key_len (set_num_keys c app (of_nat num_keys)) app (of_nat key_len)) app
       (of_nat storage_key_len)"

definition key_alloc :: "DfcCredential \<Rightarrow> size_t option \<Rightarrow> size_t \<Rightarrow> DfcCredential" where
  "key_alloc c app want =
     (set_key_pool_len (set_key_offset c app (of_nat (key_pool_used c))) app (of_nat want))
       \<lparr>c_key_pool := mem_set (key_pool_used c) 0 want (c_key_pool c),
        c_key_pool_used := of_nat (key_pool_used c + want)\<rparr>"

lemma key_slots_pool_upd [simp]:
  "key_slots (c\<lparr>c_key_pool := p, c_key_pool_used := u\<rparr>) = key_slots c"
  "meta_slots (c\<lparr>c_key_pool := p, c_key_pool_used := u\<rparr>) = meta_slots c"
  by (simp_all add: key_slots_def meta_slots_def)

lemma key_alloc_view:
  assumes wf: "key_wf c" and o: "owner_ok app"
    and n: "0 < n" "key_pool_used c + n \<le> DFC_KEY_POOL_SIZE"
  shows "key_slices (key_alloc c app n) = (key_slices c)[owner_index app := (key_pool_used c, n)]"
    and "key_pool_used (key_alloc c app n) = key_pool_used c + n"
    and "c_key_pool (key_alloc c app n) = mem_set (key_pool_used c) 0 n (c_key_pool c)"
    and "key_wf (key_alloc c app n)"
proof -
  have la: "length (c_apps c) = DFC_MAX_APPS" using wf by (simp add: key_wf_def)
  have slots: "key_slots (key_alloc c app n) =
      (key_slots c)[owner_index app := (of_nat (key_pool_used c), of_nat n)]"
    using key_slots_set [OF la o] by (simp add: key_alloc_def)
  note v = slots_alloc_view [OF n(1), of "key_pool_used c" "key_slots c" "owner_index app"]
  show "key_slices (key_alloc c app n) = (key_slices c)[owner_index app := (key_pool_used c, n)]"
    using v(1) n by (simp add: key_slices_def slots DFC_KEY_POOL_SIZE_def)
  show "key_pool_used (key_alloc c app n) = key_pool_used c + n"
    using n by (simp add: key_alloc_def key_pool_used_def DFC_KEY_POOL_SIZE_def)
  show "c_key_pool (key_alloc c app n) = mem_set (key_pool_used c) 0 n (c_key_pool c)"
    by (simp add: key_alloc_def)
  then show "key_wf (key_alloc c app n)"
    using wf n v(2) la by (simp add: key_wf_def slots DFC_KEY_POOL_SIZE_def) (simp add: key_alloc_def)
qed

lemma key_counts_view [simp]:
  "key_slots (key_counts c app x y z) = key_slots c"
  "meta_slots (key_counts c app x y z) = meta_slots c"
  "c_key_pool (key_counts c app x y z) = c_key_pool c"
  "c_key_pool_used (key_counts c app x y z) = c_key_pool_used c"
  "length (c_apps (key_counts c app x y z)) = length (c_apps c)"
  by (simp_all add: key_counts_def)

lemma key_counts_pool [simp]:
  "key_slices (key_counts c app x y z) = key_slices c"
  "key_pool_used (key_counts c app x y z) = key_pool_used c"
  "key_wf (key_counts c app x y z) = key_wf c"
  by (simp_all add: key_slices_def key_pool_used_def key_wf_def)

lemma stored_key_length_cases: "dfc_credential_stored_key_length n \<in> {16, 24}"
  by (simp add: dfc_credential_stored_key_length_def)

text \<open>On a well-formed credential the guards reduce to the limits on a request and to the room left.\<close>

lemma keys_resize_total_eq:
  assumes wf: "key_wf c" and ok: "key_pool_ok c" and o: "owner_ok app"
  shows "dfc_credential_keys_resize_total c app n al kl sl =
    (let m = key_pool_len_of c app; want = al * dfc_credential_stored_key_length sl in
     if \<not> (n \<le> DFC_MAX_KEYS \<and> kl \<le> DFC_MAX_KEY_LEN \<and> sl \<le> DFC_MAX_KEY_LEN \<and> n \<le> al)
     then (False, c)
     else if key_pool_used c - m + want > DFC_KEY_POOL_SIZE then (False, c)
     else if 0 < m \<and> m = want then (True, key_counts c app n kl sl)
     else
       let c1 = dfc_credential_keys_release c app
       in if want = 0 then (True, set_key_len (set_num_keys c1 app (of_nat n)) app (of_nat kl))
          else (True, key_counts (key_alloc c1 app want) app n kl sl))"
proof -
  have la: "length (c_apps c) = DFC_MAX_APPS" using wf by (simp add: key_wf_def)
  let ?m = "key_pool_len_of c app" and ?st = "dfc_credential_stored_key_length sl"
  let ?want = "al * ?st"
  note in1 = key_slot_in [OF wf ok o] and at = key_slot_at [OF la o]
  have z: "snd (key_slots c ! owner_index app) = 0 \<longleftrightarrow> ?m = 0" using at(2) by (metis unat_eq_0)
  have res: "dfc_pool_slice_resolve (key_offset_of c app) ?m (unat (c_key_pool_used c)) 65535 =
      Some (if ?m = 0 then 65535 else key_offset_of c app)"
    using dfc_pool_slice_resolve_eq [OF in1(1), of "unat (c_key_pool_used c)"] in1(2) at z by auto
  have div: "al \<le> 4096 div ?st \<longleftrightarrow> ?want \<le> 4096"
    using stored_key_length_cases [of sl] by (auto simp: less_eq_div_iff_mult_less_eq)
  show ?thesis
    using in1(2,5) res div
    by (auto simp: dfc_credential_keys_resize_total_def Let_def KEY_NONE_eq key_counts_def key_alloc_def
        key_pool_used_def DFC_KEY_POOL_SIZE_def not_less)
qed


lemma setter_key_wf [simp]:
  "key_wf (set_key_len c app x) = key_wf c" "key_wf (set_num_keys c app x) = key_wf c"
  "key_slices (set_key_len c app x) = key_slices c" "key_slices (set_num_keys c app x) = key_slices c"
  "key_pool_used (set_key_len c app x) = key_pool_used c"
  "key_pool_used (set_num_keys c app x) = key_pool_used c"
  by (simp_all add: key_wf_def key_slices_def key_pool_used_def)

lemma keys_resize_total_accepted:
  assumes wf: "key_wf c" and ok: "key_pool_ok c" and o: "owner_ok app"
    and res: "dfc_credential_keys_resize_total c app n al kl sl = (True, c')"
    and want: "want = al * dfc_credential_stored_key_length sl"
  defines "r \<equiv> dfc_credential_keys_release c app"
  shows "key_wf c'"
    and "key_slices c' = (if key_pool_len_of c app = want then key_slices c
      else if want = 0 then key_slices r else (key_slices r)[owner_index app := (key_pool_used r, want)])"
    and "key_pool_used c' = (if key_pool_len_of c app = want then key_pool_used c else key_pool_used r + want)"
    and "c_key_pool c' = (if key_pool_len_of c app = want then c_key_pool c
      else mem_set (key_pool_used r) 0 want (c_key_pool r))"
proof -
  let ?m = "key_pool_len_of c app"
  note in1 = key_slot_in [OF wf ok o] and v = keys_release_view [OF wf ok o, folded r_def]
  have rwf: "key_wf r" unfolding r_def by (rule keys_release_wf [OF wf ok o])
  have used: "key_pool_used r = key_pool_used c - ?m" using v(2) in1(3) by simp
  have len: "owner_index app < length (key_slots c)" "list_all slot_ok (key_slots c)"
    using in1(6) wf by (auto simp: key_slices_def key_wf_def)
  have empty: "key_slices r = key_slices c" "c_key_pool r = c_key_pool c" if "?m = 0"
    using that v(1,3) in1(3) slots_release_view(1) [OF len(2,1)]
    by (auto simp: key_slices_def slices_release_def)
  consider (same) "0 < ?m" "?m = want" "c' = key_counts c app n kl sl"
    | (none) "want = 0" "c' = set_key_len (set_num_keys r app (of_nat n)) app (of_nat kl)"
    | (alloc) "0 < want" "?m \<noteq> want" "key_pool_used c - ?m + want \<le> DFC_KEY_POOL_SIZE"
        "c' = key_counts (key_alloc r app want) app n kl sl"
    using res unfolding keys_resize_total_eq [OF wf ok o] want r_def
    by (auto simp: Let_def split: if_splits)
  then have "key_wf c' \<and> key_slices c' = (if ?m = want then key_slices c
      else if want = 0 then key_slices r else (key_slices r)[owner_index app := (key_pool_used r, want)]) \<and>
    key_pool_used c' = (if ?m = want then key_pool_used c else key_pool_used r + want) \<and>
    c_key_pool c' = (if ?m = want then c_key_pool c
      else mem_set (key_pool_used r) 0 want (c_key_pool r))"
  proof cases
    case same
    then show ?thesis using wf by simp
  next
    case none
    then show ?thesis using rwf empty used by simp
  next
    case alloc
    then have "key_pool_used r + want \<le> DFC_KEY_POOL_SIZE" using used by simp
    then show ?thesis using alloc key_alloc_view [OF rwf o alloc(1)] by simp
  qed
  then show "key_wf c'"
    and "key_slices c' = (if ?m = want then key_slices c
      else if want = 0 then key_slices r else (key_slices r)[owner_index app := (key_pool_used r, want)])"
    and "key_pool_used c' = (if ?m = want then key_pool_used c else key_pool_used r + want)"
    and "c_key_pool c' = (if ?m = want then c_key_pool c
      else mem_set (key_pool_used r) 0 want (c_key_pool r))"
    by blast+
qed

interpretation key_pool: resizable_pool key_slices key_pool_used c_key_pool
  DFC_KEY_POOL_SIZE key_wf "\<lambda>i c. dfc_credential_keys_release c (key_owner i)"
  key_resize key_want key_admissible True
proof
  fix s i r s'
  assume inv: "key_pool.invar s" and i': "i < length (key_slices s)"
  then have wf: "key_wf s" and ok: "key_pool_ok s"
    and o: "owner_ok (key_owner i)" "owner_index (key_owner i) = i"
    by (auto simp: key_pool.invar_def length_key_slices owner_index_key_owner)
  have m: "key_pool_len_of s (key_owner i) = snd (key_slices s ! i)"
    using key_slot_in(3) [OF wf ok o(1)] o(2) by simp
  note eq = keys_resize_total_eq [OF wf ok o(1)]
  show "fst (key_resize i r s) = (key_admissible r \<and>
      key_pool_used s - snd (key_slices s ! i) + key_want r \<le> DFC_KEY_POOL_SIZE)"
    by (auto simp: key_resize_def eq Let_def m key_admissible_def key_want_def)
  show "key_resize i r s = (False, s') \<Longrightarrow> s' = s"
    by (auto simp: key_resize_def eq Let_def split: if_splits)
  assume "key_resize i r s = (True, s')"
  note acc = keys_resize_total_accepted [OF wf ok o(1) this [unfolded key_resize_def] refl,
      folded key_want_def, unfolded m o(2)]
  let ?r = "dfc_credential_keys_release s (key_owner i)"
  show "key_wf s'" by (rule acc(1))
  show "key_slices s' = (if True \<and> snd (key_slices s ! i) = key_want r then key_slices s
       else if key_want r = 0 then key_slices ?r
       else (key_slices ?r)[i := (key_pool_used ?r, key_want r)])"
    using acc(2) by simp
  show "key_pool_used s' = (if True \<and> snd (key_slices s ! i) = key_want r then key_pool_used s
       else key_pool_used ?r + key_want r)"
    using acc(3) by simp
  show "c_key_pool s' = (if True \<and> snd (key_slices s ! i) = key_want r then c_key_pool s
       else mem_set (key_pool_used ?r) 0 (key_want r) (c_key_pool ?r))"
    using acc(4) by simp
qed


subsection \<open>The invariant and the frame of the key operations\<close>

definition key_invar :: "DfcCredential \<Rightarrow> bool" where
  "key_invar c \<longleftrightarrow> key_wf c \<and> key_pool_ok c \<and> meta_wf c \<and> meta_pool_ok c"

definition key_bytes :: "DfcCredential \<Rightarrow> size_t option \<Rightarrow> bytes" where
  "key_bytes c app = slice_contents (c_key_pool c) (key_slices c ! owner_index app)"

definition meta_bytes :: "DfcCredential \<Rightarrow> size_t \<Rightarrow> bytes" where
  "meta_bytes c i = slice_contents (c_key_set_metadata_pool c) (meta_slices c ! i)"

lemma key_invar_eq: "key_invar c \<longleftrightarrow> key_pool.invar c \<and> meta_pool.invar c"
  by (auto simp: key_invar_def key_pool.invar_def meta_pool.invar_def)

lemma key_bytes_eq: "key_bytes c app = key_pool.contents c (owner_index app)"
  by (simp add: key_bytes_def key_pool.contents_def)

lemma meta_bytes_eq: "meta_bytes c i = meta_pool.contents c i"
  by (simp add: meta_bytes_def meta_pool.contents_def)

lemma key_invar_length: "key_invar c \<Longrightarrow> length (c_apps c) = DFC_MAX_APPS"
  by (simp add: key_invar_def key_wf_def)

lemma length_key_bytes:
  assumes inv: "key_invar c" and o: "owner_ok app"
  shows "length (key_bytes c app) = key_pool_len_of c app"
proof (cases "key_pool_len_of c app = 0")
  case True
  then show ?thesis
    using inv key_slot_in(3) [OF _ _ o, of c] by (simp add: key_bytes_def slice_contents_def key_invar_def)
next
  case False
  then show ?thesis
    using inv key_slot_in [OF _ _ o, of c]
    by (auto simp: key_bytes_def slice_contents_def key_invar_def key_wf_def DFC_KEY_POOL_SIZE_def)
qed

text \<open>No key operation touches the files or the number of applications.\<close>

definition files_same :: "DfcCredential \<Rightarrow> DfcCredential \<Rightarrow> bool" where
  "files_same c d \<longleftrightarrow> c_files d = c_files c \<and> c_num_files d = c_num_files c \<and>
     c_file_pool d = c_file_pool c \<and> c_file_pool_used d = c_file_pool_used c \<and>
     c_num_apps d = c_num_apps c"

lemma files_same_refl [simp]: "files_same c c"
  by (simp add: files_same_def)

lemma files_same_trans: "files_same c d \<Longrightarrow> files_same d e \<Longrightarrow> files_same c e"
  by (simp add: files_same_def)

lemma files_same_setters [simp]:
  "files_same c (set_key_offset d app x) = files_same c d"
  "files_same c (set_key_pool_len d app x) = files_same c d"
  "files_same c (set_num_keys d app y) = files_same c d"
  "files_same c (set_key_len d app y) = files_same c d"
  "files_same c (set_key_storage_len d app y) = files_same c d"
  "files_same c (upd_app i g d) = files_same c d"
  by (simp_all add: files_same_def key_setters upd_app_def split: option.split)

lemma files_same_meta_release [simp]: "files_same c (dfc_key_set_metadata_release d i) = files_same c d"
  by (simp add: files_same_def dfc_key_set_metadata_release_def Let_def upd_app_def
      dfc_key_set_metadata_compact_after_release_def)

lemma files_same_meta_resize:
  "dfc_key_set_metadata_resize d i n = (ok, e) \<Longrightarrow> files_same c d \<Longrightarrow> files_same c e"
proof -
  have "files_same d (meta_alloc (dfc_key_set_metadata_release d i) i n)"
    using files_same_meta_release [of d d i] by (simp add: meta_alloc_def files_same_def upd_app_def)
  then show "dfc_key_set_metadata_resize d i n = (ok, e) \<Longrightarrow> files_same c d \<Longrightarrow> files_same c e"
    by (auto simp: meta_resize_eq split: if_splits intro: files_same_trans)
qed

lemma files_same_keys_release [simp]: "files_same c (dfc_credential_keys_release c app)"
proof -
  have "files_same c (dfc_key_pool_compact_after_release d a m) = files_same c d" for d a m
    by (simp add: files_same_def dfc_key_pool_compact_after_release_def Let_def)
  then show ?thesis
    by (simp add: dfc_credential_keys_release_def Let_def split: option.split)
qed

lemma files_same_resize_total:
  assumes "dfc_credential_keys_resize_total c app n al kl sl = (ok, c')"
  shows "files_same c c'"
proof -
  have pool: "files_same c (d\<lparr>c_key_pool := p, c_key_pool_used := u\<rparr>) = files_same c d" for d p u
    by (simp add: files_same_def)
  show ?thesis
    using assms unfolding dfc_credential_keys_resize_total_def Let_def
    by (auto simp: pool split: if_splits option.splits)
qed

subsection \<open>The counts of an owner\<close>

text \<open>The fields of an application that the metadata pool does not own.\<close>

definition app_core :: "DfcApplication \<Rightarrow> DfcApplication" where
  "app_core a = a\<lparr>a_key_set_metadata_offset := 0, a_key_set_metadata_len := 0\<rparr>"

lemma meta_release_core: "map app_core (c_apps (dfc_key_set_metadata_release c i)) = map app_core (c_apps c)"
proof -
  have upd: "map app_core ((c_apps c)[i := g (c_apps c ! i)]) = map app_core (c_apps c)"
    if "\<And>a. app_core (g a) = app_core a" for g
    using that by (rule map_update_same)
  have sh: "app_core (meta_offset_shift a m x) = app_core x" for a m x
    by (simp add: meta_offset_shift_def app_core_def)
  show ?thesis
    by (auto simp: dfc_key_set_metadata_release_def Let_def sh comp_def
        dfc_key_set_metadata_compact_after_release_def intro!: upd) (simp_all add: app_core_def)
qed

lemma meta_release_length [simp]: "length (c_apps (dfc_key_set_metadata_release c i)) = length (c_apps c)"
  using arg_cong [OF meta_release_core [of c i], of length] by simp

lemma meta_release_core_nth:
  "j < length (c_apps c) \<Longrightarrow>
   app_core (c_apps (dfc_key_set_metadata_release c i) ! j) = app_core (c_apps c ! j)"
  using arg_cong [OF meta_release_core [of c i], of "\<lambda>xs. xs ! j"] by simp

lemma app_core_fields:
  assumes "app_core a = app_core b"
  shows "a_num_keys a = a_num_keys b" "a_key_len a = a_key_len b" "a_aid a = a_aid b"
    "a_key_storage_len a = a_key_storage_len b" "a_num_key_sets a = a_num_key_sets b"
    "a_key_offset a = a_key_offset b" "a_key_pool_len a = a_key_pool_len b"
    "a_key_versions a = a_key_versions b"
  using assms by (cases a, cases b, simp add: app_core_def)+

lemmas meta_release_counts [simp] = meta_release_core_nth [THEN app_core_fields(1)]
  meta_release_core_nth [THEN app_core_fields(2)] meta_release_core_nth [THEN app_core_fields(3)]
  meta_release_core_nth [THEN app_core_fields(4)] meta_release_core_nth [THEN app_core_fields(5)]
  meta_release_core_nth [THEN app_core_fields(6)] meta_release_core_nth [THEN app_core_fields(7)]
  meta_release_core_nth [THEN app_core_fields(8)]

lemma key_counts_of:
  assumes "owner_ok app" "length (c_apps c) = DFC_MAX_APPS" "n < 256" "kl < 256" "sl < 256"
  shows "num_keys_of (key_counts c app n kl sl) app = n"
    and "key_len_of (key_counts c app n kl sl) app = kl"
    and "app \<noteq> None \<Longrightarrow> key_storage_len_of (key_counts c app n kl sl) app = sl"
    and "app = None \<Longrightarrow> key_storage_len_of (key_counts c app n kl sl) app = kl"
  using assms by (auto simp: key_counts_def key_setters num_keys_of_def key_len_of_def
      key_storage_len_of_def owner_ok_def split: option.splits)

text \<open>Reading a key slot: its octets are the slot's part of the owner's slice.\<close>

lemma dfc_credential_key_reads:
  assumes inv: "key_invar c" and o: "owner_ok app" and slot: "slot < num_keys_of c app"
    and st: "st = dfc_credential_stored_key_length (key_storage_len_of c app)"
    and fits: "(slot + 1) * st \<le> key_pool_len_of c app"
  shows "dfc_credential_key c app slot = Some (key_offset_of c app + slot * st)"
    and "mem_read (key_offset_of c app + slot * st) st (c_key_pool c) =
      take st (drop (slot * st) (key_bytes c app))"
proof -
  have wf: "key_wf c" and ok: "key_pool_ok c" using inv by (auto simp: key_invar_def)
  have pos: "0 < key_pool_len_of c app"
    using fits stored_key_length_cases [of "key_storage_len_of c app"] st by (cases slot) auto
  note in1 = key_slot_in [OF wf ok o]
  show "dfc_credential_key c app slot = Some (key_offset_of c app + slot * st)"
    using in1(2) [OF pos] pos slot fits
    by (simp add: dfc_credential_key_def dfc_credential_key_at_def st Let_def KEY_NONE_eq)
  show "mem_read (key_offset_of c app + slot * st) st (c_key_pool c) =
      take st (drop (slot * st) (key_bytes c app))"
    using in1(3) in1(4) [OF pos] fits
    by (simp add: key_bytes_def slice_contents_def mem_read_def drop_take add.commute min_def)
qed


subsection \<open>The effect of a resize\<close>

abbreviation key_req :: "size_t \<Rightarrow> size_t \<Rightarrow> size_t \<Rightarrow> size_t \<Rightarrow> key_request" where
  "key_req n al kl sl \<equiv> \<lparr>rq_num_keys = n, rq_allocated = al, rq_key_len = kl, rq_storage_len = sl\<rparr>"

lemma key_resize_owner:
  "owner_ok app \<Longrightarrow> key_resize (owner_index app) (key_req n al kl sl) c =
     dfc_credential_keys_resize_total c app n al kl sl"
  by (simp add: key_resize_def owner_index_key_owner)

lemma keys_resize_total_meta:
  assumes inv: "key_invar c" and o: "owner_ok app"
    and res: "dfc_credential_keys_resize_total c app n al kl sl = (True, c')"
  shows "meta_same c c' \<or> meta_same (dfc_credential_keys_release c app) c'"
proof -
  have c: "key_wf c" "key_pool_ok c" using inv by (auto simp: key_invar_def)
  have kc: "meta_same d (key_counts (key_alloc d app x) app n kl sl)"
    "meta_same d (set_key_len (set_num_keys d app (of_nat n)) app (of_nat kl))"
    "meta_same d (key_counts d app n kl sl)" for d x
    by (simp_all add: meta_same_def key_counts_def key_alloc_def)
  show ?thesis
    using res kc unfolding keys_resize_total_eq [OF c o] by (auto simp: Let_def split: if_splits)
qed

lemma keys_resize_total_counts:
  assumes inv: "key_invar c" and o: "owner_ok app"
    and res: "dfc_credential_keys_resize_total c app n al kl sl = (True, c')"
  shows "num_keys_of c' app = n" "key_len_of c' app = kl"
    and "0 < al \<Longrightarrow> key_storage_len_of c' app = (if app = None then kl else sl)"
    and "length (c_apps c') = DFC_MAX_APPS" "n \<le> DFC_MAX_KEYS" "n \<le> al"
    "kl \<le> DFC_MAX_KEY_LEN" "sl \<le> DFC_MAX_KEY_LEN"
proof -
  have c: "key_wf c" "key_pool_ok c" and la: "length (c_apps c) = DFC_MAX_APPS"
    using inv by (auto simp: key_invar_def key_wf_def)
  let ?want = "al * dfc_credential_stored_key_length sl" and ?r = "dfc_credential_keys_release c app"
  have adm: "n \<le> DFC_MAX_KEYS" "n \<le> al" "kl \<le> DFC_MAX_KEY_LEN" "sl \<le> DFC_MAX_KEY_LEN"
    using res unfolding keys_resize_total_eq [OF c o] by (auto simp: Let_def split: if_splits)
  then show "n \<le> DFC_MAX_KEYS" "n \<le> al" "kl \<le> DFC_MAX_KEY_LEN" "sl \<le> DFC_MAX_KEY_LEN" by auto
  have small: "n < 256" "kl < 256" "sl < 256" using adm by (auto simp: dfc_size_consts)
  consider (counts) d where "c' = key_counts d app n kl sl" "length (c_apps d) = DFC_MAX_APPS"
    | (zero) "?want = 0" "c' = set_key_len (set_num_keys ?r app (of_nat n)) app (of_nat kl)"
    using res la unfolding keys_resize_total_eq [OF c o]
    by (auto simp: Let_def key_alloc_def split: if_splits)
  then have "num_keys_of c' app = n \<and> key_len_of c' app = kl \<and>
      (0 < al \<longrightarrow> key_storage_len_of c' app = (if app = None then kl else sl)) \<and>
      length (c_apps c') = DFC_MAX_APPS"
  proof cases
    case counts
    then show ?thesis using key_counts_of [OF o counts(2) small] by (cases app) auto
  next
    case zero
    then have "al = 0" using stored_key_length_cases [of sl] by auto
    then show ?thesis
      using zero(2) o la small
      by (auto simp: key_setters num_keys_of_def key_len_of_def owner_ok_def split: option.splits)
  qed
  then show "num_keys_of c' app = n" "key_len_of c' app = kl"
    "0 < al \<Longrightarrow> key_storage_len_of c' app = (if app = None then kl else sl)"
    "length (c_apps c') = DFC_MAX_APPS" by auto
qed

lemma keys_resize_total_effect:
  assumes inv: "key_invar c" and o: "owner_ok app"
    and res: "dfc_credential_keys_resize_total c app n al kl sl = (True, c')"
    and want: "want = al * dfc_credential_stored_key_length sl"
  shows "key_invar c'"
    and "key_bytes c' app = (if key_pool_len_of c app = want then key_bytes c app else replicate want 0)"
    and "owner_ok o' \<Longrightarrow> o' \<noteq> app \<Longrightarrow> key_bytes c' o' = key_bytes c o'"
    and "j < DFC_MAX_APPS \<Longrightarrow> app \<noteq> Some j \<Longrightarrow> meta_bytes c' j = meta_bytes c j"
    and "key_pool_len_of c' app = want"
proof -
  have kinv: "key_pool.invar c" and minv: "meta_pool.invar c" using inv by (auto simp: key_invar_eq)
  have wf: "key_wf c" and ok: "key_pool_ok c" using inv by (auto simp: key_invar_def)
  let ?i = "owner_index app" and ?r = "key_req n al kl sl"
  have r: "key_resize ?i ?r c = (True, c')" using res by (simp add: key_resize_owner [OF o])
  have i: "?i < length (key_slices c)" by (rule key_slot_in(6) [OF wf ok o])
  have w: "key_want ?r = want" by (simp add: key_want_def want)
  have m: "snd (key_slices c ! ?i) = key_pool_len_of c app" by (rule key_slot_in(3) [OF wf ok o])
  have kinv': "key_pool.invar c'" by (rule key_pool.resize_invar [OF kinv i r])
  have "meta_pool.invar c'"
    using keys_resize_total_meta [OF inv o res] minv keys_release_meta(1) [OF minv o]
    by (auto simp: meta_same_view(1))
  with kinv' show "key_invar c'" by (simp add: key_invar_eq)
  show "key_bytes c' app = (if key_pool_len_of c app = want then key_bytes c app else replicate want 0)"
    using key_pool.resize_fresh [OF kinv i r] key_pool.resize_same_keeps [OF kinv i r] m w
    by (auto simp: key_bytes_eq)
  show "key_pool_len_of c' app = want"
    using key_pool.resize_size [OF kinv i r] kinv' key_slot_in(3) [OF _ _ o, of c'] w
    by (simp add: key_pool.invar_def)
  show "key_bytes c' o' = key_bytes c o'" if o': "owner_ok o'" "o' \<noteq> app"
  proof -
    have "owner_index o' \<noteq> ?i" using o' o owner_index_key_owner(3) by metis
    then show ?thesis
      using key_pool.resize_others [OF kinv i r key_slot_in(6) [OF wf ok o'(1)]] by (simp add: key_bytes_eq)
  qed
  show "meta_bytes c' j = meta_bytes c j" if "j < DFC_MAX_APPS" "app \<noteq> Some j"
    using keys_resize_total_meta [OF inv o res] keys_release_meta(2) [OF minv o that]
    by (auto simp: meta_same_view(3) meta_bytes_eq)
qed

text \<open>Dropping an application's key-set metadata, as a plain resize of its keys does.\<close>

lemma meta_drop_effect:
  assumes inv: "key_invar d" and i: "i < DFC_MAX_APPS"
  shows "dfc_key_set_metadata_resize d i 0 = (True, dfc_key_set_metadata_release d i)"
    and "key_invar (dfc_key_set_metadata_release d i)"
    and "key_bytes (dfc_key_set_metadata_release d i) = key_bytes d"
    and "j < DFC_MAX_APPS \<Longrightarrow> j \<noteq> i \<Longrightarrow> meta_bytes (dfc_key_set_metadata_release d i) j = meta_bytes d j"
proof -
  have m: "meta_wf d" "meta_pool_ok d" and minv: "meta_pool.invar d"
    using inv by (auto simp: key_invar_def meta_pool.invar_def)
  have li: "length (meta_slices d) = DFC_MAX_APPS" by (rule length_meta_slices [OF m(1)])
  show "dfc_key_set_metadata_resize d i 0 = (True, dfc_key_set_metadata_release d i)"
    using meta_can_resize_eq [OF m i, of 0] pool_ok_used [OF m(2)] m(1)
    by (simp add: meta_resize_eq meta_wf_def)
  show "key_invar (dfc_key_set_metadata_release d i)"
    using inv meta_pool.release_invar [OF minv, of i] i li
    by (simp add: key_invar_def meta_pool.invar_def key_wf_def key_slices_def key_pool_used_def)
  show "key_bytes (dfc_key_set_metadata_release d i) = key_bytes d"
    by (simp add: key_bytes_def key_slices_def fun_eq_iff)
  show "meta_bytes (dfc_key_set_metadata_release d i) j = meta_bytes d j" if "j < DFC_MAX_APPS" "j \<noteq> i"
    using meta_pool.release_contents [OF minv, of i j] i that li by (simp add: meta_bytes_eq)
qed

lemma upd_app_key_view:
  assumes "\<And>a. key_slot (g a) = key_slot a" "\<And>a. meta_slot (g a) = meta_slot a"
  shows "key_invar (upd_app i g c) = key_invar c" "key_bytes (upd_app i g c) = key_bytes c"
    "meta_bytes (upd_app i g c) = meta_bytes c"
  using key_slots_upd_app [OF assms(1)] meta_slots_upd_app [OF assms(2)]
  by (simp_all add: key_invar_def key_wf_def meta_wf_def key_slices_def meta_slices_def key_pool_used_def
      meta_pool_used_def key_bytes_def meta_bytes_def fun_eq_iff)

lemma dfc_credential_keys_resize_effect:
  assumes inv: "key_invar c" and o: "owner_ok app"
    and res: "dfc_credential_keys_resize c app n kl = (ok, c')"
    and want: "want = n * dfc_credential_stored_key_length kl"
  shows "\<not> ok \<Longrightarrow> c' = c"
    and "ok \<longleftrightarrow> n \<le> DFC_MAX_KEYS \<and> kl \<le> DFC_MAX_KEY_LEN \<and>
      key_pool_used c - key_pool_len_of c app + want \<le> DFC_KEY_POOL_SIZE"
    and "ok \<Longrightarrow> key_invar c'"
    and "ok \<Longrightarrow> num_keys_of c' app = n \<and> key_len_of c' app = kl \<and> key_pool_len_of c' app = want \<and>
      (0 < n \<longrightarrow> key_storage_len_of c' app = kl)"
    and "ok \<Longrightarrow> key_bytes c' app =
      (if key_pool_len_of c app = want then key_bytes c app else replicate want 0)"
    and "ok \<Longrightarrow> owner_ok o' \<Longrightarrow> o' \<noteq> app \<Longrightarrow> key_bytes c' o' = key_bytes c o'"
    and "files_same c c'"
proof -
  have wf: "key_wf c" and kok: "key_pool_ok c" using inv by (auto simp: key_invar_def)
  obtain b c1 where t: "dfc_credential_keys_resize_total c app n n kl kl = (b, c1)" by fastforce
  have fs1: "files_same c c1" by (rule files_same_resize_total [OF t])
  have bcond: "b \<longleftrightarrow> n \<le> DFC_MAX_KEYS \<and> kl \<le> DFC_MAX_KEY_LEN \<and>
      key_pool_used c - key_pool_len_of c app + want \<le> DFC_KEY_POOL_SIZE"
    and refuse: "\<not> b \<longrightarrow> c1 = c"
    using t unfolding keys_resize_total_eq [OF wf kok o] want by (auto simp: Let_def split: if_splits)
  let ?g = "\<lambda>a. a\<lparr>a_num_key_sets := 1, a_max_key_size := 0, a_key_set_settings := 0\<rparr>"
  let ?d = "\<lambda>i. upd_app i ?g c1"
  have g: "key_slot (?g a) = key_slot a" "meta_slot (?g a) = meta_slot a" for a
    by (simp_all add: key_slot_def meta_slot_def)
  have eq: "dfc_credential_keys_resize c app n kl = (if b then (case app of None \<Rightarrow> (True, c1)
      | Some i \<Rightarrow> dfc_key_set_metadata_resize (?d i) i 0) else (False, c))"
    using refuse by (simp add: dfc_credential_keys_resize_def t split: bool.split)
  show fs: "files_same c c'"
    using res fs1 unfolding eq
    by (auto split: if_splits option.splits elim: files_same_meta_resize)
  have all: "if b then ok \<and> key_invar c' \<and> num_keys_of c' app = n \<and> key_len_of c' app = kl \<and>
      key_pool_len_of c' app = want \<and> (0 < n \<longrightarrow> key_storage_len_of c' app = kl) \<and>
      key_bytes c' app = (if key_pool_len_of c app = want then key_bytes c app else replicate want 0) \<and>
      (owner_ok o' \<longrightarrow> o' \<noteq> app \<longrightarrow> key_bytes c' o' = key_bytes c o')
    else \<not> ok \<and> c' = c"
  proof (cases b)
    case False
    then show ?thesis using res eq by simp
  next
    case True
    note eff = keys_resize_total_effect [OF inv o t [unfolded True [THEN eqTrueI]] want]
      and cnt = keys_resize_total_counts [OF inv o t [unfolded True [THEN eqTrueI]]]
    show ?thesis
    proof (cases app)
      case None
      then show ?thesis using True res eq eff cnt by simp
    next
      case (Some i)
      then have i: "i < DFC_MAX_APPS" using o by (simp add: owner_ok_def)
      have dinv: "key_invar (?d i)" using upd_app_key_view(1) [OF g] eff(1) by simp
      note drop = meta_drop_effect [OF dinv i]
      have c': "ok" "c' = dfc_key_set_metadata_release (?d i) i"
        using res True Some drop(1) unfolding eq by auto
      have "key_invar c'" "key_bytes c' = key_bytes c1"
        using drop(2,3) upd_app_key_view(2) [OF g] by (simp_all add: c'(2))
      moreover have "num_keys_of c' app = num_keys_of c1 app" "key_len_of c' app = key_len_of c1 app"
        "key_storage_len_of c' app = key_storage_len_of c1 app" "key_pool_len_of c' app = key_pool_len_of c1 app"
        using Some i cnt(4) by (simp_all add: c'(2) num_keys_of_def key_len_of_def key_storage_len_of_def
            key_pool_len_of_def)
      ultimately show ?thesis
        using True c'(1) eff(2,3,5) cnt Some by auto
    qed
  qed
  show "\<not> ok \<Longrightarrow> c' = c" using all by (auto split: if_splits)
  show "ok \<longleftrightarrow> n \<le> DFC_MAX_KEYS \<and> kl \<le> DFC_MAX_KEY_LEN \<and>
      key_pool_used c - key_pool_len_of c app + want \<le> DFC_KEY_POOL_SIZE"
    using all bcond by (auto split: if_splits)
  show "ok \<Longrightarrow> key_invar c'" using all by (auto split: if_splits)
  show "ok \<Longrightarrow> num_keys_of c' app = n \<and> key_len_of c' app = kl \<and> key_pool_len_of c' app = want \<and>
      (0 < n \<longrightarrow> key_storage_len_of c' app = kl)" using all by (auto split: if_splits)
  show "ok \<Longrightarrow> key_bytes c' app = (if key_pool_len_of c app = want then key_bytes c app else replicate want 0)"
    using all by (auto split: if_splits)
  show "ok \<Longrightarrow> owner_ok o' \<Longrightarrow> o' \<noteq> app \<Longrightarrow> key_bytes c' o' = key_bytes c o'"
    using all by (auto split: if_splits)
qed


subsection \<open>Properties of the key store\<close>

text \<open>A blank credential, with and without a key slice for its first application.\<close>

definition keyed_credential :: DfcCredential where
  "keyed_credential = snd (dfc_credential_keys_resize zero_credential (Some 0) 2 16)"

lemma pool_ok_blank:
  "list_all (\<lambda>s. snd s = 0) xs \<Longrightarrow> pool_ok xs 0 (replicate n 0)"
proof -
  assume z: "list_all (\<lambda>s. snd s = 0) xs"
  have "sum_list (map snd xs) = 0" using z by (induction xs) auto
  moreover have "sorted_wrt slice_disj xs" using z by (induction xs) (auto simp: slice_disj_def list_all_iff)
  ultimately show ?thesis using z by (auto simp: pool_ok_def list_all_iff)
qed

lemma key_invar_blank:
  assumes "length (c_apps c) = DFC_MAX_APPS" "list_all (\<lambda>s. snd s = 0) (key_slots c)"
    "list_all (\<lambda>s. snd s = 0) (meta_slots c)" "list_all slot_ok (key_slots c)" "list_all slot_ok (meta_slots c)"
    "c_key_pool_used c = 0" "c_key_set_metadata_pool_used c = 0"
    "c_key_pool c = replicate DFC_KEY_POOL_SIZE 0"
    "c_key_set_metadata_pool c = replicate DFC_KEY_SET_METADATA_POOL_SIZE 0"
  shows "key_invar c"
proof -
  have "list_all (\<lambda>s. snd s = 0) (key_slices c)" "list_all (\<lambda>s. snd s = 0) (meta_slices c)"
    using assms(2,3) by (auto simp: key_slices_def meta_slices_def list_all_iff slot_slice_def)
  then have "key_pool_ok c" "meta_pool_ok c"
    using assms(6-9) by (simp_all add: key_pool_used_def meta_pool_used_def pool_ok_blank)
  then show ?thesis using assms by (simp add: key_invar_def key_wf_def meta_wf_def)
qed

lemma key_invar_zero [simp]: "key_invar zero_credential"
  by (rule key_invar_blank) (auto simp: zero_credential_def zero_application_def key_slots_def
      meta_slots_def key_slot_def meta_slot_def list_all_iff)

lemma zero_key_pool: "key_pool_used zero_credential = 0" "key_pool_len_of zero_credential (Some 0) = 0"
  by (simp_all add: key_pool_used_def zero_credential_def key_pool_len_of_def DFC_MAX_APPS_def
      zero_application_def)

lemma zero_key_len: "owner_ok app \<Longrightarrow> key_pool_len_of zero_credential app = 0"
  by (simp add: key_pool_len_of_def zero_credential_def zero_application_def owner_ok_def split: option.splits)

lemma keyed_resize: "dfc_credential_keys_resize zero_credential (Some 0) 2 16 = (True, keyed_credential)"
proof -
  obtain ok c' where r: "dfc_credential_keys_resize zero_credential (Some 0) 2 16 = (ok, c')" by fastforce
  have "ok" using dfc_credential_keys_resize_effect(2) [OF key_invar_zero _ r refl]
    by (simp add: owner_ok_def zero_key_pool dfc_size_consts dfc_credential_stored_key_length_def)
  then show ?thesis using r by (simp add: keyed_credential_def)
qed

text \<open>
  C33. A successful resize of an owner's keys keeps both key pools well formed, records the
  counts, makes every slot readable, leaves the key material of every other owner and all
  files alone, and hands out zeroed slots unless the footprint is the one the owner already
  had, in which case its key material is kept.
\<close>

theorem dfc_credential_keys_resize_correct:
  assumes inv: "key_invar c" and o: "owner_ok app"
    and res: "dfc_credential_keys_resize c app n kl = (True, c')"
    and st: "st = dfc_credential_stored_key_length kl"
  shows "key_invar c' \<and> num_keys_of c' app = n \<and> key_len_of c' app = kl \<and> files_same c c' \<and>
    (\<forall>o'. owner_ok o' \<and> o' \<noteq> app \<longrightarrow> key_bytes c' o' = key_bytes c o') \<and>
    (\<forall>slot < n. \<exists>p. dfc_credential_key c' app slot = Some p \<and>
       mem_read p st (c_key_pool c') =
         (if key_pool_len_of c app = n * st then take st (drop (slot * st) (key_bytes c app))
          else replicate st 0))"
proof -
  note eff = dfc_credential_keys_resize_effect [OF inv o res refl]
  have "\<exists>p. dfc_credential_key c' app slot = Some p \<and> mem_read p st (c_key_pool c') =
         (if key_pool_len_of c app = n * st then take st (drop (slot * st) (key_bytes c app))
          else replicate st 0)" if s: "slot < n" for slot
  proof -
    have "(slot + 1) * st \<le> n * st" using s by (intro mult_le_mono1) simp
    then have le: "slot * st + st \<le> n * st" by simp
    have kb: "take st (drop (slot * st) (key_bytes c' app)) =
         (if key_pool_len_of c app = n * st then take st (drop (slot * st) (key_bytes c app))
          else replicate st 0)"
      using eff(5) st le by simp
    show ?thesis
      using dfc_credential_key_reads [OF eff(3) o, of slot st] eff(4) s st le kb by auto
  qed
  then show ?thesis using eff by auto
qed

theorem dfc_credential_keys_resize_correct_witness:
  "key_invar keyed_credential \<and>
   (\<exists>p. dfc_credential_key keyed_credential (Some 0) 1 = Some p \<and>
      mem_read p 16 (c_key_pool keyed_credential) = replicate 16 0)"
  using dfc_credential_keys_resize_correct [OF key_invar_zero _ keyed_resize, of 16]
  by (auto simp: owner_ok_def dfc_credential_stored_key_length_def zero_key_pool dfc_size_consts)

text \<open>
  A resize of keys fails only for a request outside the limits or when the key slices of
  the other owners really leave too little of the pool, and a refused request changes nothing,
  so existing key material is never lost to a failed resize.
\<close>

theorem dfc_credential_keys_resize_succeeds_iff:
  assumes inv: "key_invar c" and o: "owner_ok app"
  shows "(fst (dfc_credential_keys_resize c app n kl) \<longleftrightarrow>
      n \<le> DFC_MAX_KEYS \<and> kl \<le> DFC_MAX_KEY_LEN \<and>
      (\<Sum>j \<in> {..DFC_MAX_APPS} - {owner_index app}. length (key_bytes c (key_owner j))) +
        n * dfc_credential_stored_key_length kl \<le> DFC_KEY_POOL_SIZE) \<and>
    (fst (dfc_credential_keys_resize c app n kl) \<or> snd (dfc_credential_keys_resize c app n kl) = c)"
proof -
  obtain ok c' where r: "dfc_credential_keys_resize c app n kl = (ok, c')" by fastforce
  note eff = dfc_credential_keys_resize_effect [OF inv o r refl]
  have wf: "key_wf c" and kok: "key_pool_ok c" using inv by (auto simp: key_invar_def)
  have len: "length (key_bytes c (key_owner j)) = snd (key_slices c ! j)" if "j \<le> DFC_MAX_APPS" for j
    using length_key_bytes [OF inv owner_index_key_owner(2) [of j]]
      key_slot_in(3) [OF wf kok owner_index_key_owner(2) [of j]] owner_index_key_owner(1) [OF that]
    by simp
  have "key_pool_used c = (\<Sum>j<Suc DFC_MAX_APPS. snd (key_slices c ! j))"
    using pool_ok_total [OF kok] length_key_slices [OF wf]
    by (simp add: sum_list_sum_nth atLeast0LessThan)
  also have "\<dots> = (\<Sum>j\<in>{..DFC_MAX_APPS}. length (key_bytes c (key_owner j)))"
    using len by (intro sum.cong) auto
  finally have "(\<Sum>j \<in> {..DFC_MAX_APPS} - {owner_index app}. length (key_bytes c (key_owner j))) =
      key_pool_used c - key_pool_len_of c app"
    using owner_index_key_owner(3,4) [OF o] length_key_bytes [OF inv o] by (simp add: sum_diff1_nat)
  then show ?thesis using eff(1,2) r by auto
qed

theorem dfc_credential_keys_resize_succeeds_iff_witness:
  "fst (dfc_credential_keys_resize zero_credential None 1 16) \<and>
   \<not> fst (dfc_credential_keys_resize zero_credential None 15 16)"
proof -
  have "(\<Sum>j \<in> {..DFC_MAX_APPS} - {owner_index None}. length (key_bytes zero_credential (key_owner j))) = 0"
    by (intro sum.neutral) (simp add: length_key_bytes owner_index_key_owner zero_key_len)
  then show ?thesis
    using dfc_credential_keys_resize_succeeds_iff [OF key_invar_zero, of None 1 16]
      dfc_credential_keys_resize_succeeds_iff [OF key_invar_zero, of None 15 16]
    by (simp add: owner_ok_def dfc_size_consts dfc_credential_stored_key_length_def)
qed

text \<open>
  Key slots are isolated. The pointers the code hands out for two different slots, of the
  same owner or of different ones, name disjoint ranges of the pool, so a key written through
  one pointer is read back through it and leaves every other slot as it was.
\<close>

theorem dfc_credential_key_isolated:
  assumes inv: "key_invar c" and o: "owner_ok app" "owner_ok app'"
    and p: "dfc_credential_key c app slot = Some p" and q: "dfc_credential_key c app' slot' = Some q"
    and other: "(app, slot) \<noteq> (app', slot')"
    and key: "length key = dfc_credential_stored_key_length (key_storage_len_of c app)"
    and n: "n = dfc_credential_stored_key_length (key_storage_len_of c app')"
  shows "mem_read p (length key) (mem_write p key (c_key_pool c)) = key \<and>
    mem_read q n (mem_write p key (c_key_pool c)) = mem_read q n (c_key_pool c)"
proof -
  have wf: "key_wf c" and ok: "key_pool_ok c" using inv by (auto simp: key_invar_def)
  have size: "length (c_key_pool c) = 4096" using wf by (simp add: key_wf_def DFC_KEY_POOL_SIZE_def)
  have bounds: "r = key_offset_of c a + s * st \<and> s * st + st \<le> key_pool_len_of c a"
    if "dfc_credential_key c a s = Some r" "st = dfc_credential_stored_key_length (key_storage_len_of c a)"
    for a s r st
    using that by (auto simp: dfc_credential_key_def dfc_credential_key_at_def Let_def split: if_splits)
  note bp = bounds [OF p key] and bq = bounds [OF q n]
  have pos: "0 < length key" "0 < n"
    using key n by (auto simp: dfc_credential_stored_key_length_def)
  have in1: "key_offset_of c app + key_pool_len_of c app \<le> 4096"
    "key_offset_of c app' + key_pool_len_of c app' \<le> 4096"
    using key_slot_in(2,5) [OF wf ok o(1)] key_slot_in(2,5) [OF wf ok o(2)] bp bq pos by linarith+
  have disj: "p + length key \<le> q \<or> q + n \<le> p"
  proof (cases "app = app'")
    case True
    then have s: "slot \<noteq> slot'" "n = length key" using other key n by auto
    then have "slot * n + n \<le> slot' * n \<or> slot' * n + n \<le> slot * n"
      by (metis Suc_leI add.commute linorder_neqE_nat mult_Suc mult_le_mono1)
    then show ?thesis using bp bq True s(2) by auto
  next
    case False
    then have "owner_index app \<noteq> owner_index app'" using o owner_index_key_owner(3) by metis
    then have "slice_disj (key_slices c ! owner_index app) (key_slices c ! owner_index app')"
      using pool_ok_disj [OF ok key_slot_in(6) [OF wf ok o(1)] key_slot_in(6) [OF wf ok o(2)]] by simp
    then show ?thesis
      using key_slot_in(3,4) [OF wf ok o(1)] key_slot_in(3,4) [OF wf ok o(2)] bp bq pos
      by (auto simp: slice_disj_def)
  qed
  show ?thesis
    using disj bp bq in1 size by (auto intro!: mem_read_write_same mem_read_write_other)
qed

theorem dfc_credential_key_isolated_witness:
  "\<exists>p q. dfc_credential_key keyed_credential (Some 0) 0 = Some p \<and>
     dfc_credential_key keyed_credential (Some 0) 1 = Some q \<and>
     mem_read q 16 (mem_write p (replicate 16 0xAA) (c_key_pool keyed_credential)) =
     mem_read q 16 (c_key_pool keyed_credential)"
proof -
  note eff = dfc_credential_keys_resize_effect [OF key_invar_zero _ keyed_resize refl]
  have o: "owner_ok (Some 0)" by (simp add: owner_ok_def DFC_MAX_APPS_def)
  have all: "num_keys_of keyed_credential (Some 0) = 2 \<and> key_len_of keyed_credential (Some 0) = 16 \<and>
      key_pool_len_of keyed_credential (Some 0) = 2 * dfc_credential_stored_key_length 16 \<and>
      (0 < (2::nat) \<longrightarrow> key_storage_len_of keyed_credential (Some 0) = 16)"
    by (rule eff(4) [OF o TrueI])
  then have len: "dfc_credential_stored_key_length (key_storage_len_of keyed_credential (Some 0)) = 16"
    and cnt: "num_keys_of keyed_credential (Some 0) = 2" "key_pool_len_of keyed_credential (Some 0) = 32"
    by (simp_all add: dfc_credential_stored_key_length_def)
  have inv: "key_invar keyed_credential" by (rule eff(3) [OF o TrueI])
  note rd = dfc_credential_key_reads(1) [OF inv o _ len [symmetric]]
  have "\<exists>p. dfc_credential_key keyed_credential (Some 0) 0 = Some p"
    "\<exists>q. dfc_credential_key keyed_credential (Some 0) 1 = Some q"
    using rd [of 0] rd [of 1] by (simp_all add: cnt)
  then obtain p q where pq: "dfc_credential_key keyed_credential (Some 0) 0 = Some p"
    "dfc_credential_key keyed_credential (Some 0) 1 = Some q" by blast
  have "length (replicate 16 0xAA :: bytes) =
      dfc_credential_stored_key_length (key_storage_len_of keyed_credential (Some 0))"
    unfolding len by (rule length_replicate)
  moreover have "(Some 0 :: size_t option, 0 :: size_t) \<noteq> (Some 0, 1)" by simp
  ultimately show ?thesis
    using pq dfc_credential_key_isolated [OF inv o o pq _ _ len [symmetric]] by blast
qed

end
