(* ===== verification/Dfc_Common.thy ===== *)
theory Dfc_Common
  imports Dfc_Types
begin

text \<open>
  The shared checks and encodings of \<^verbatim>\<open>src/dfc_common.c\<close>: validity of access
  rights and settings, the constant-time comparison, the two checksums, the native frames, the
  wrapping of a native answer, and the derivation of a session key from the two challenges.
\<close>

definition DFC_WIRE_MAC_LENGTH :: size_t where "DFC_WIRE_MAC_LENGTH = 8"
definition DFC_AES_KEY_LENGTH :: size_t where "DFC_AES_KEY_LENGTH = 16"
definition DFC_AES_CMAC_LENGTH :: size_t where "DFC_AES_CMAC_LENGTH = 16"
definition DFC_CMD_SELECT_APPLICATION :: u8 where "DFC_CMD_SELECT_APPLICATION = 0x5A"
definition DFC_CMD_READ_DATA :: u8 where "DFC_CMD_READ_DATA = 0xBD"
definition DFC_CMD_GET_VERSION :: u8 where "DFC_CMD_GET_VERSION = 0x60"
definition DFC_ISO7816_CLA_WRAPPER :: u8 where "DFC_ISO7816_CLA_WRAPPER = 0x90"

subsection \<open>Validity of settings\<close>

definition dfc_uid_length_is_valid :: "size_t \<Rightarrow> bool" where
  "dfc_uid_length_is_valid len \<longleftrightarrow>
     len = DFC_DESFIRE_UID_SHORT_LEN \<or> len = DFC_DESFIRE_UID_LEN \<or> len = DFC_DESFIRE_UID_LONG_LEN"

definition dfc_iso_file_id_is_reserved :: "u16 \<Rightarrow> bool" where
  "dfc_iso_file_id_is_reserved v \<longleftrightarrow> v = 0x0000 \<or> v = 0x3F00 \<or> v = 0x3FFF \<or> v = 0xFFFF"

definition dfc_communication_settings_is_valid :: "u8 \<Rightarrow> bool" where
  "dfc_communication_settings_is_valid v =
     (let flags = DFC_FILE_OPTION_ADDITIONAL_RIGHTS OR DFC_SDM_ENABLED_MASK
      in v AND NOT (flags OR DFC_COMM_MODE_MASK) = 0)"

definition access_nibble_is_valid :: "u8 \<Rightarrow> size_t \<Rightarrow> bool" where
  "access_nibble_is_valid v key_count \<longleftrightarrow> v \<ge> DFC_ACCESS_FREE \<or> unat v < key_count"

definition dfc_access_nibble :: "u16 \<Rightarrow> nat \<Rightarrow> u8" where
  "dfc_access_nibble rights shift = ucast (drop_bit shift rights AND 0x0F)"

definition dfc_access_rights_are_valid :: "u16 \<Rightarrow> size_t \<Rightarrow> bool" where
  "dfc_access_rights_are_valid rights key_count =
     list_all (\<lambda>shift. access_nibble_is_valid (ucast (drop_bit shift rights) AND 0x0F) key_count)
       [0, 4, 8, 12]"

definition dfc_transaction_mac_access_rights_are_valid :: "u16 \<Rightarrow> size_t \<Rightarrow> bool" where
  "dfc_transaction_mac_access_rights_are_valid rights key_count \<longleftrightarrow>
     dfc_access_rights_are_valid rights key_count \<and> dfc_access_nibble rights 8 = DFC_ACCESS_DENY"

definition dfc_sdm_access_rights_are_valid :: "u16 \<Rightarrow> size_t \<Rightarrow> bool" where
  "dfc_sdm_access_rights_are_valid rights key_count =
     (let meta_read = ucast (drop_bit 12 rights);
          file_read = dfc_access_nibble rights 8;
          reserved = dfc_access_nibble rights 4;
          counter_read = ucast rights AND 0x0F
      in access_nibble_is_valid meta_read key_count \<and> access_nibble_is_valid file_read key_count \<and>
         reserved = DFC_ACCESS_DENY \<and> access_nibble_is_valid counter_read key_count)"

definition dfc_transaction_mac_key_type_is_valid :: "u8 \<Rightarrow> bool" where
  "dfc_transaction_mac_key_type_is_valid v \<longleftrightarrow> v = DFC_TRANSACTION_MAC_KEY_TYPE_AES"

definition dfc_key_set_type_length :: "u8 \<Rightarrow> size_t" where
  "dfc_key_set_type_length ty =
     (if ty = DFC_KEY_SET_TYPE_3K3DES then unat DFC_KEY_SET_MAXIMUM_24_BYTE
      else if ty = DFC_KEY_SET_TYPE_2K3DES \<or> ty = DFC_KEY_SET_TYPE_AES
      then unat DFC_KEY_SET_MAXIMUM_16_BYTE
      else 0)"

definition dfc_key_type_for_set_type :: "u8 \<Rightarrow> u8" where
  "dfc_key_type_for_set_type ty =
     (if ty = DFC_KEY_SET_TYPE_3K3DES then DFC_KEY_TYPE_3K3DES
      else if ty = DFC_KEY_SET_TYPE_AES then DFC_KEY_TYPE_AES
      else DFC_KEY_TYPE_DES_2K3DES)"

definition dfc_key_len_for_cipher :: "u8 \<Rightarrow> size_t" where
  "dfc_key_len_for_cipher cipher = (if cipher = DFC_CMD_AUTHENTICATE_AES then 16 else 8)"

definition dfc_block_size_for_cipher :: "u8 \<Rightarrow> size_t" where
  "dfc_block_size_for_cipher cipher = (if cipher = DFC_CMD_AUTHENTICATE_AES then 16 else 8)"

definition dfc_desfire_uid_is_detectable :: "bytes \<Rightarrow> size_t \<Rightarrow> bool" where
  "dfc_desfire_uid_is_detectable uid uid_len \<longleftrightarrow>
     (uid_len = DFC_DESFIRE_UID_LEN \<or> uid_len = DFC_DESFIRE_UID_MAX_LENGTH) \<and>
     uid ! 0 = DFC_DESFIRE_UID_FIRST_BYTE"

definition dfc_authentication_mode_to_string :: "u8 \<Rightarrow> string" where
  "dfc_authentication_mode_to_string auth_command =
     (if auth_command = DFC_CMD_AUTHENTICATE_LEGACY then ''D40''
      else if auth_command = DFC_CMD_AUTHENTICATE_ISO then ''ISO''
      else if auth_command = DFC_CMD_AUTHENTICATE_AES then ''AES''
      else ''D40'')"

definition dfc_authentication_mode_from_string :: "string \<Rightarrow> u8 option" where
  "dfc_authentication_mode_from_string s =
     (if s = ''D40'' \<or> s = ''Legacy'' \<or> s = ''NativeD40'' \<or> s = ''Native-D40''
      then Some DFC_CMD_AUTHENTICATE_LEGACY
      else if s = ''ISO'' then Some DFC_CMD_AUTHENTICATE_ISO
      else if s = ''AES'' then Some DFC_CMD_AUTHENTICATE_AES
      else None)"

definition dfc_authentication_mode_matches_key_settings :: "u8 \<Rightarrow> u8 \<Rightarrow> bool" where
  "dfc_authentication_mode_matches_key_settings auth_command key_settings_2 =
     (let ty = key_settings_2 AND DFC_KEY_TYPE_MASK in
      if ty = DFC_KEY_TYPE_AES then auth_command = DFC_CMD_AUTHENTICATE_AES
      else if ty = DFC_KEY_TYPE_3K3DES then auth_command = DFC_CMD_AUTHENTICATE_ISO
      else auth_command = DFC_CMD_AUTHENTICATE_LEGACY \<or> auth_command = DFC_CMD_AUTHENTICATE_ISO)"

subsection \<open>Comparison, checksums and truncation\<close>

definition dfc_ct_equal :: "bytes \<Rightarrow> bytes \<Rightarrow> size_t \<Rightarrow> bool" where
  "dfc_ct_equal left right len =
     (foldl (\<lambda>difference i. difference OR (left ! i XOR right ! i)) 0 [0..<len] = 0)"

definition dfc_truncate_aes_wire_mac :: "bytes \<Rightarrow> bytes" where
  "dfc_truncate_aes_wire_mac full = map (\<lambda>i. full ! (i * 2 + 1)) [0..<DFC_WIRE_MAC_LENGTH]"

definition crc16_byte :: "u16 \<Rightarrow> u8 \<Rightarrow> u16" where
  "crc16_byte crc d =
     (let byte = d XOR ucast (crc AND 0xFF);
          byte = byte XOR push_bit 4 byte
      in drop_bit 8 crc XOR push_bit 8 (ucast byte) XOR push_bit 3 (ucast byte) XOR
         drop_bit 4 (ucast byte))"

definition dfc_crc16_iso14443_extend :: "u16 \<Rightarrow> bytes \<Rightarrow> u16" where
  "dfc_crc16_iso14443_extend crc data = foldl crc16_byte crc data"

definition dfc_crc16_iso14443 :: "bytes \<Rightarrow> u16" where
  "dfc_crc16_iso14443 data = dfc_crc16_iso14443_extend 0x6363 data"

definition crc32_bit :: "u32 \<Rightarrow> u32" where
  "crc32_bit crc = (let mask = 0 - (crc AND 1) in drop_bit 1 crc XOR (0xEDB88320 AND mask))"

definition crc32_byte :: "u32 \<Rightarrow> u8 \<Rightarrow> u32" where
  "crc32_byte crc d = (crc32_bit ^^ 8) (crc XOR ucast d)"

definition dfc_crc32_extend :: "u32 \<Rightarrow> bytes \<Rightarrow> u32" where
  "dfc_crc32_extend crc data = foldl crc32_byte crc data"

definition dfc_crc32 :: "bytes \<Rightarrow> u32" where
  "dfc_crc32 data = dfc_crc32_extend 0xFFFFFFFF data"

definition dfc_write_uint32_le :: "u32 \<Rightarrow> bytes" where
  "dfc_write_uint32_le v =
     [ucast v, ucast (drop_bit 8 v), ucast (drop_bit 16 v), ucast (drop_bit 24 v)]"

subsection \<open>Frames\<close>

definition dfc_encode_standard_data_file_settings :: "u8 \<Rightarrow> u8 \<Rightarrow> u16 \<Rightarrow> size_t \<Rightarrow> bytes" where
  "dfc_encode_standard_data_file_settings file_type communication_settings access_rights file_size =
     [file_type, communication_settings, ucast (access_rights AND 0xFF), ucast (drop_bit 8 access_rights),
      of_nat (file_size AND 0xFF), of_nat (drop_bit 8 file_size AND 0xFF),
      of_nat (drop_bit 16 file_size AND 0xFF)]"

definition dfc_build_select_application_frame :: "bytes \<Rightarrow> bytes" where
  "dfc_build_select_application_frame aid =
     [DFC_CMD_SELECT_APPLICATION, aid ! 2, aid ! 1, aid ! 0]"

definition dfc_build_read_data_frame :: "u8 \<Rightarrow> u32 \<Rightarrow> u32 \<Rightarrow> bytes" where
  "dfc_build_read_data_frame file_number offset len =
     [DFC_CMD_READ_DATA, file_number,
      ucast (offset AND 0xFF), ucast (drop_bit 8 offset AND 0xFF), ucast (drop_bit 16 offset AND 0xFF),
      ucast (len AND 0xFF), ucast (drop_bit 8 len AND 0xFF), ucast (drop_bit 16 len AND 0xFF)]"

definition dfc_build_wrapped_get_version_frame :: bytes where
  "dfc_build_wrapped_get_version_frame = [DFC_ISO7816_CLA_WRAPPER, DFC_CMD_GET_VERSION, 0x00, 0x00, 0x00]"

text \<open>
  The wrapping of a native answer writes into the caller's buffer: the result is the buffer
  with the length used, or \<open>None\<close> for the \<open>false\<close> return.
\<close>

definition dfc_wrap_native_response_as_iso7816 ::
  "bytes \<Rightarrow> size_t \<Rightarrow> bytes \<Rightarrow> (bytes \<times> size_t) option" where
  "dfc_wrap_native_response_as_iso7816 native_response prefix_len output =
     (if length native_response \<le> prefix_len then None
      else
        let native_status = native_response ! prefix_len;
            native_data_len = length native_response - prefix_len - 1;
            required_len = prefix_len + native_data_len + 2
        in
        if required_len > length output then None
        else
          let out1 = (if prefix_len > 0
                then mem_write 0 (mem_read 0 prefix_len native_response) output else output);
              offset1 = (if prefix_len > 0 then prefix_len else 0);
              out2 = (if native_data_len > 0
                then mem_write offset1 (mem_read (prefix_len + 1) native_data_len native_response) out1
                else out1);
              offset2 = (if native_data_len > 0 then offset1 + native_data_len else offset1)
          in Some (out2[offset2 := 0x91, offset2 + 1 := native_status], offset2 + 2))"

definition dfc_rotate_left :: "bytes \<Rightarrow> bytes" where
  "dfc_rotate_left buffer =
     (if length buffer = 0 then buffer
      else
        let first = buffer ! 0; len = length buffer
        in (mem_move 0 1 (len - 1) buffer)[len - 1 := first])"

subsection \<open>Session keys\<close>

definition dfc_key_is_degenerate_des :: "bytes option \<Rightarrow> size_t \<Rightarrow> bool" where
  "dfc_key_is_degenerate_des key key_len \<longleftrightarrow>
     (case key of None \<Rightarrow> False | Some k \<Rightarrow> key_len = 16 \<and> mem_read 0 8 k = mem_read 8 8 k)"

text \<open>Each \<^verbatim>\<open>memcpy\<close> pair copies four octets of either challenge side by side.\<close>

definition session_part :: "bytes \<Rightarrow> bytes \<Rightarrow> size_t \<Rightarrow> size_t \<Rightarrow> bytes \<Rightarrow> bytes" where
  "session_part rnd_a rnd_b dst src buf =
     mem_write (dst + 4) (mem_read src 4 rnd_b) (mem_write dst (mem_read src 4 rnd_a) buf)"

text \<open>The result is the session key buffer and the length the code reports.\<close>

definition dfc_derive_session_key ::
  "u8 \<Rightarrow> bytes option \<Rightarrow> size_t \<Rightarrow> bytes \<Rightarrow> bytes \<Rightarrow> bytes \<Rightarrow> bytes \<times> size_t" where
  "dfc_derive_session_key cipher key key_len rnd_a rnd_b session_key =
     (if cipher = DFC_CMD_AUTHENTICATE_AES then
        (session_part rnd_a rnd_b 8 12 (session_part rnd_a rnd_b 0 0 session_key), 16)
      else if key_len = 24 then
        (session_part rnd_a rnd_b 16 12 (session_part rnd_a rnd_b 8 6
           (session_part rnd_a rnd_b 0 0 session_key)), 24)
      else if key_len = 16 \<and> \<not> dfc_key_is_degenerate_des key key_len then
        (session_part rnd_a rnd_b 8 4 (session_part rnd_a rnd_b 0 0 session_key), 16)
      else (session_part rnd_a rnd_b 0 0 session_key, 8))"

subsection \<open>The checksums against a bitwise reference\<close>

definition crc_bit :: "'a::len word \<Rightarrow> 'a word \<Rightarrow> 'a word" where
  "crc_bit poly x = (if bit x 0 then drop_bit 1 x XOR poly else drop_bit 1 x)"

definition crc_byte :: "'a::len word \<Rightarrow> 'a word \<Rightarrow> u8 \<Rightarrow> 'a word" where
  "crc_byte poly crc d = (crc_bit poly ^^ 8) (crc XOR ucast d)"

lemma word_xor_cancel [simp]:
  "a XOR c = b XOR c \<longleftrightarrow> a = b" "c XOR a = c XOR b \<longleftrightarrow> a = b" for a b c :: "'a::len word"
  by (metis xor.assoc xor.right_neutral xor_self_eq, metis xor.assoc xor.left_neutral xor_self_eq)

lemma crc_bit_zero [simp]: "crc_bit poly 0 = 0"
  by (simp add: crc_bit_def)

lemma crc_bit_xor: "crc_bit poly (x XOR y) = crc_bit poly x XOR crc_bit poly y"
  by (auto simp: crc_bit_def bit_xor_iff xor.assoc xor.left_commute xor.commute)

lemma crc_bits_xor: "(crc_bit poly ^^ n) (x XOR y) = (crc_bit poly ^^ n) x XOR (crc_bit poly ^^ n) y"
  by (induction n) (simp_all add: crc_bit_xor)

lemma crc_bit_inj:
  fixes poly :: "'a::len word"
  assumes top: "bit poly (LENGTH('a) - 1)" and eq: "crc_bit poly x = crc_bit poly y"
  shows "x = y"
proof -
  have "bit (crc_bit poly z) (LENGTH('a) - 1) = bit z 0" for z :: "'a word"
    using top by (auto simp: crc_bit_def bit_xor_iff bit_drop_bit_eq dest: bit_imp_le_length)
  then have low: "bit x 0 = bit y 0" using eq by metis
  then have "drop_bit 1 x = drop_bit 1 y"
    using eq by (auto simp: crc_bit_def split: if_splits)
  then have "bit x (Suc n) = bit y (Suc n)" for n
    by (metis bit_drop_bit_eq comp_apply plus_1_eq_Suc)
  with low show ?thesis
    by (intro bit_eqI) (metis not0_implies_Suc)
qed

lemma crc_bits_inj:
  fixes poly :: "'a::len word"
  assumes "bit poly (LENGTH('a) - 1)" "(crc_bit poly ^^ n) x = (crc_bit poly ^^ n) y"
  shows "x = y"
  using assms(2) by (induction n) (auto dest: crc_bit_inj [OF assms(1)])

lemma crc_byte_inj:
  fixes poly :: "'a::len word"
  assumes top: "bit poly (LENGTH('a) - 1)"
  shows "crc_byte poly x d = crc_byte poly y d \<Longrightarrow> x = y"
    and "8 \<le> LENGTH('a) \<Longrightarrow> crc_byte poly x d = crc_byte poly x d' \<Longrightarrow> d = d'"
proof -
  show "crc_byte poly x d = crc_byte poly y d \<Longrightarrow> x = y"
    by (auto simp: crc_byte_def dest!: crc_bits_inj [OF top])
  assume len: "8 \<le> LENGTH('a)" and "crc_byte poly x d = crc_byte poly x d'"
  then have "x XOR ucast d = x XOR ucast d'" by (auto simp: crc_byte_def simp del: word_xor_cancel dest!: crc_bits_inj [OF top])
  then have "(ucast d :: 'a word) = ucast d'" by simp
  then have "bit (ucast d :: 'a word) n = bit (ucast d' :: 'a word) n" for n by simp
  then show "d = d'" using len by (intro bit_word_eqI) (auto simp: bit_ucast_iff dest: less_le_trans)
qed

lemma crc_fold_inj:
  fixes poly :: "'a::len word"
  assumes "bit poly (LENGTH('a) - 1)"
  shows "foldl (crc_byte poly) x ys = foldl (crc_byte poly) y ys \<Longrightarrow> x = y"
  by (induction ys arbitrary: x y) (auto dest: crc_byte_inj(1) [OF assms])

lemma crc_detects_octet:
  fixes poly :: "'a::len word"
  assumes "bit poly (LENGTH('a) - 1)" "8 \<le> LENGTH('a)" "d \<noteq> d'"
  shows "foldl (crc_byte poly) x (pre @ d # post) \<noteq> foldl (crc_byte poly) x (pre @ d' # post)"
  using assms(3) by (auto dest!: crc_fold_inj [OF assms(1)] crc_byte_inj(2) [OF assms(1,2)])

lemma crc32_bit_eq: "crc32_bit = crc_bit 0xEDB88320"
proof
  fix x :: u32
  have "x AND 1 = (if bit x 0 then 1 else 0)"
    by (auto simp: and_one_eq mod_2_eq_odd bit_0)
  then show "crc32_bit x = crc_bit 0xEDB88320 x"
    by (simp add: crc32_bit_def crc_bit_def Let_def)
qed

lemma crc32_byte_eq: "crc32_byte = crc_byte 0xEDB88320"
  by (simp add: fun_eq_iff crc32_byte_def crc_byte_def crc32_bit_eq)

lemma u8_xor_induct:
  fixes P :: "u8 \<Rightarrow> bool"
  assumes "P 0" "\<And>x y. P x \<Longrightarrow> P y \<Longrightarrow> P (x XOR y)"
    and "P 1" "P 2" "P 4" "P 8" "P 16" "P 32" "P 64" "P 128"
  shows "P b"
proof -
  have one: "P (push_bit n 1)" if "n < 8" for n
  proof -
    have "n \<in> {0, 1, 2, 3, 4, 5, 6, 7}" using that by auto
    then show ?thesis using assms(3-10) by (auto simp: push_bit_eq_mult)
  qed
  have "P (take_bit n b)" if "n \<le> 8" for n
    using that
  proof (induction n)
    case (Suc n)
    have "take_bit (Suc n) b = take_bit n b XOR (if bit b n then push_bit n 1 else 0)"
      by (rule bit_word_eqI) (auto simp: bit_take_bit_iff bit_xor_iff less_Suc_eq bit_exp_iff push_bit_eq_mult)
    then show ?case using Suc one assms(1,2) by simp
  qed (simp add: assms(1))
  from this [of 8] show ?thesis by (simp add: take_bit_word_eq_self)
qed

lemma funpow_8: "(f ^^ 8) x = f (f (f (f (f (f (f (f x)))))))"
  by (simp add: numeral_eq_Suc)

lemma crc16_table:
  "(crc_bit (0x8408 :: u16) ^^ 8) (ucast (b :: u8)) =
     push_bit 8 (ucast (b XOR push_bit 4 b)) XOR push_bit 3 (ucast (b XOR push_bit 4 b)) XOR
     drop_bit 4 (ucast (b XOR push_bit 4 b))"
proof (induction b rule: u8_xor_induct)
  case (2 x y)
  then show ?case
    by (simp add: unsigned_xor_eq crc_bits_xor ac_simps del: word_xor_cancel)
qed (simp_all add: funpow_8 crc_bit_def bit_0)

lemma crc_bits_shift: "(\<And>k. k < n \<Longrightarrow> \<not> bit z k) \<Longrightarrow> (crc_bit poly ^^ n) z = drop_bit n z"
proof (induction n)
  case (Suc n)
  have "\<not> bit z n" "(crc_bit poly ^^ n) z = drop_bit n z" using Suc by auto
  then show ?case using crc_bit_def [of poly "drop_bit n z"] by (simp add: bit_drop_bit_eq)
qed simp

lemma crc16_byte_eq: "crc16_byte = crc_byte 0x8408"
proof (intro ext)
  fix crc :: u16 and d :: u8
  let ?b = "d XOR ucast (crc AND 0xFF)" and ?y = "crc XOR ucast d"
  have m: "(0xFF :: u16) = mask 8" by (simp add: mask_eq_exp_minus_1)
  have b: "ucast ?y = ?b"
    by (rule bit_word_eqI) (auto simp: bit_ucast_iff bit_xor_iff bit_and_iff m bit_mask_iff)
  let ?hi = "?y XOR ucast ?b"
  have hi: "\<not> bit ?hi k" if "k < 8" for k
    unfolding b [symmetric] using that by (auto simp: bit_xor_iff bit_ucast_iff)
  have drop: "drop_bit 8 ?hi = drop_bit 8 crc"
    by (rule bit_word_eqI) (auto simp: bit_drop_bit_eq bit_xor_iff bit_ucast_iff dest: bit_imp_le_length)
  have "?y = ucast ?b XOR ?hi" by (simp add: ac_simps)
  then have "crc_byte 0x8408 crc d = (crc_bit 0x8408 ^^ 8) (ucast ?b) XOR (crc_bit 0x8408 ^^ 8) ?hi"
    unfolding crc_byte_def by (metis crc_bits_xor)
  also have "(crc_bit 0x8408 ^^ 8) ?hi = drop_bit 8 crc" using crc_bits_shift [OF hi] drop by simp
  finally show "crc16_byte crc d = crc_byte 0x8408 crc d"
    by (simp add: crc16_byte_def Let_def crc16_table ac_simps del: word_xor_cancel)
qed

lemma crc_residue_octet:
  "crc_byte poly crc (ucast crc) = drop_bit 8 crc" for crc :: "'a::len word"
proof -
  have "\<not> bit (crc XOR ucast (ucast crc :: u8)) k" if "k < 8" for k
    using that by (auto simp: bit_xor_iff bit_ucast_iff dest: bit_imp_le_length)
  moreover have "drop_bit 8 (crc XOR ucast (ucast crc :: u8)) = drop_bit 8 crc"
    by (rule bit_word_eqI) (auto simp: bit_drop_bit_eq bit_xor_iff bit_ucast_iff dest: bit_imp_le_length)
  ultimately show ?thesis by (simp add: crc_byte_def crc_bits_shift)
qed

lemma ucast_drop_bit_chain:
  "crc_byte poly (drop_bit n crc) (ucast (drop_bit n crc)) = drop_bit (n + 8) crc" for crc :: "'a::len word"
  by (simp add: crc_residue_octet add.commute)

text \<open>
  The byte-at-a-time CRC-16 of ISO 14443 computes the bitwise cyclic code with the
  reflected polynomial 0x8408, appending a message's checksum low octet first gives the residue
  zero, and a change of any single octet of a message always changes its checksum.
\<close>

theorem dfc_crc16_correct:
  "dfc_crc16_iso14443 data = foldl (crc_byte 0x8408) 0x6363 data \<and>
   dfc_crc16_iso14443 (data @ [ucast (dfc_crc16_iso14443 data), ucast (drop_bit 8 (dfc_crc16_iso14443 data))]) = 0 \<and>
   inj (\<lambda>d. dfc_crc16_iso14443 (data @ d # post))"
proof -
  let ?c = "foldl (crc_byte 0x8408) (0x6363 :: u16) data"
  have z: "drop_bit 16 x = 0" for x :: u16
    by (rule bit_word_eqI) (auto simp: bit_drop_bit_eq dest: bit_imp_le_length)
  have "crc_byte 0x8408 (crc_byte 0x8408 ?c (ucast ?c)) (ucast (drop_bit 8 ?c)) = 0"
    using ucast_drop_bit_chain [of "0x8408" 8 ?c] by (simp add: crc_residue_octet z)
  then show ?thesis
    using crc_detects_octet [of "0x8408 :: u16" _ _ "0x6363" data post]
    by (auto simp: inj_def dfc_crc16_iso14443_def dfc_crc16_iso14443_extend_def crc16_byte_eq)
qed

text \<open>
  The CRC-32 can be computed in pieces, a message followed by its checksum in the wire's
  octet order leaves the residue zero, and a change of any single octet always changes it.
\<close>

theorem dfc_crc32_correct:
  "dfc_crc32_extend (dfc_crc32 data) post = dfc_crc32 (data @ post) \<and>
   dfc_crc32 (data @ dfc_write_uint32_le (dfc_crc32 data)) = 0 \<and>
   inj (\<lambda>d. dfc_crc32 (data @ d # post))"
proof -
  let ?c = "foldl (crc_byte 0xEDB88320) (0xFFFFFFFF :: u32) data"
  have z: "drop_bit 32 x = 0" for x :: u32
    by (rule bit_word_eqI) (auto simp: bit_drop_bit_eq dest: bit_imp_le_length)
  have "foldl (crc_byte 0xEDB88320) ?c (dfc_write_uint32_le ?c) = 0"
    using ucast_drop_bit_chain [of "0xEDB88320" 8 ?c] ucast_drop_bit_chain [of "0xEDB88320" 16 ?c]
      ucast_drop_bit_chain [of "0xEDB88320" 24 ?c]
    by (simp add: dfc_write_uint32_le_def crc_residue_octet z)
  then show ?thesis
    using crc_detects_octet [of "0xEDB88320 :: u32" _ _ "0xFFFFFFFF" data post]
    by (auto simp: inj_def dfc_crc32_def dfc_crc32_extend_def crc32_byte_eq)
qed

subsection \<open>Comparison, wrapping and session keys\<close>

lemma foldl_or_zero:
  "foldl (\<lambda>difference i. difference OR f i) a xs = 0 \<longleftrightarrow> a = 0 \<and> list_all (\<lambda>i. f i = 0) xs"
  for a :: "'a::len word"
  by (induction xs arbitrary: a) (auto simp: or_eq_0_iff)

lemma dfc_ct_equal_iff:
  assumes "len \<le> length left" "len \<le> length right"
  shows "dfc_ct_equal left right len \<longleftrightarrow> take len left = take len right"
proof -
  have "left ! i XOR right ! i = 0 \<longleftrightarrow> left ! i = right ! i" for i
    by (metis word_xor_cancel(1) xor_self_eq)
  then have "dfc_ct_equal left right len \<longleftrightarrow> (\<forall>i<len. left ! i = right ! i)"
    by (auto simp: dfc_ct_equal_def foldl_or_zero list_all_iff)
  then show ?thesis using assms by (auto simp: list_eq_iff_nth_eq)
qed

lemma dfc_rotate_left_eq: "dfc_rotate_left buffer = rotate1 buffer"
proof (cases buffer)
  case (Cons x xs)
  have "mem_move 0 1 (length xs) (x # xs) = xs @ drop (length xs) (x # xs)"
    by (simp add: mem_move_def mem_write_def mem_read_def)
  moreover have "length (drop (length xs) (x # xs)) = Suc 0" by (simp only: length_drop length_Cons)
  then obtain y where "drop (length xs) (x # xs) = [y]" by (auto simp only: length_Suc_conv length_0_conv)
  ultimately show ?thesis
    by (simp add: dfc_rotate_left_def Let_def Cons list_update_append)
qed (simp add: dfc_rotate_left_def)

lemma dfc_authentication_mode_round_trip:
  "auth \<in> {DFC_CMD_AUTHENTICATE_LEGACY, DFC_CMD_AUTHENTICATE_ISO, DFC_CMD_AUTHENTICATE_AES} \<Longrightarrow>
   dfc_authentication_mode_from_string (dfc_authentication_mode_to_string auth) = Some auth"
  by (auto simp: dfc_authentication_mode_to_string_def dfc_authentication_mode_from_string_def
      DFC_CMD_AUTHENTICATE_LEGACY_def DFC_CMD_AUTHENTICATE_ISO_def DFC_CMD_AUTHENTICATE_AES_def)

lemma access_nibble_as_octet: "ucast (drop_bit n rights) AND 0x0F = dfc_access_nibble rights n"
proof -
  have m: "(0x0F :: u8) = mask 4" "(0x0F :: u16) = mask 4" by (simp_all add: mask_eq_exp_minus_1)
  show ?thesis
    unfolding dfc_access_nibble_def m
    by (rule bit_word_eqI) (auto simp: bit_ucast_iff bit_and_iff bit_mask_iff)
qed

lemma dfc_access_rights_are_valid_iff:
  "dfc_access_rights_are_valid rights key_count \<longleftrightarrow>
     (\<forall>shift \<in> {0, 4, 8, 12}. dfc_access_nibble rights shift \<ge> DFC_ACCESS_FREE \<or>
        unat (dfc_access_nibble rights shift) < key_count)"
  by (simp add: dfc_access_rights_are_valid_def access_nibble_as_octet access_nibble_is_valid_def)

lemma list_update_two: "length xs = 2 \<Longrightarrow> xs[0 := a, Suc 0 := b] = [a, b]"
  by (auto simp: length_Suc_conv numeral_2_eq_2)

text \<open>
  Wrapping a native answer succeeds exactly when it has a status octet behind the prefix
  and the buffer holds one octet more than the answer. The wrapped answer is then the prefix,
  the native data and the status word with high octet 0x91, nothing past it is written, and the
  native answer can be rebuilt from it.
\<close>

theorem dfc_wrap_native_response_correct:
  "case dfc_wrap_native_response_as_iso7816 native prefix_len output of
     None \<Rightarrow> length native \<le> prefix_len \<or> length output < length native + 1
   | Some (out, n) \<Rightarrow>
       prefix_len < length native \<and> n = length native + 1 \<and> length out = length output \<and>
       take n out = take prefix_len native @ drop (Suc prefix_len) native @ [0x91, native ! prefix_len] \<and>
       drop n out = drop n output \<and>
       take prefix_len out @ [out ! (n - 1)] @ take (n - 2 - prefix_len) (drop prefix_len out) = native"
proof (cases "prefix_len < length native \<and> length native + 1 \<le> length output")
  case False
  then show ?thesis by (auto simp: dfc_wrap_native_response_as_iso7816_def Let_def)
next
  case True
  obtain pre st dat where nat: "native = pre @ st # dat" "length pre = prefix_len"
    using True by (metis id_take_nth_drop length_take min.absorb4)
  obtain o1 o2 where out: "output = o1 @ o2" "length o1 = length pre + length dat + 2"
    using True nat by (metis append_take_drop_id length_take min.absorb2 length_append length_Cons
        Suc_eq_plus1 add_Suc_right one_add_one plus_1_eq_Suc)
  have "dfc_wrap_native_response_as_iso7816 native prefix_len output =
      Some ((pre @ dat @ [0x91, st]) @ o2, length native + 1)"
    using nat out
    by (auto simp: dfc_wrap_native_response_as_iso7816_def Let_def mem_write_def mem_read_def
        list_update_append nth_append list_update_two)
  then show ?thesis using nat out by (simp add: nth_append)
qed


text \<open>The session key each authentication gives, as the concatenation of challenge parts.\<close>

definition challenge_parts :: "bytes \<Rightarrow> bytes \<Rightarrow> size_t list \<Rightarrow> bytes" where
  "challenge_parts rnd_a rnd_b offsets =
     concat (map (\<lambda>k. take 4 (drop k rnd_a) @ take 4 (drop k rnd_b)) offsets)"

definition session_key_offsets :: "u8 \<Rightarrow> bytes option \<Rightarrow> size_t \<Rightarrow> size_t list" where
  "session_key_offsets cipher key key_len =
     (if cipher = DFC_CMD_AUTHENTICATE_AES then [0, 12]
      else if key_len = 24 then [0, 6, 12]
      else if key_len = 16 \<and> (\<forall>k. key = Some k \<longrightarrow> take 8 k \<noteq> take 8 (drop 8 k)) then [0, 4]
      else [0])"

lemma session_part_eq:
  assumes "k = length pre" "length s = 8" "j + 4 \<le> length rnd_a" "j + 4 \<le> length rnd_b"
  shows "session_part rnd_a rnd_b k j (pre @ s @ post) = pre @ challenge_parts rnd_a rnd_b [j] @ post"
  using assms by (simp add: session_part_def mem_write_def mem_read_def challenge_parts_def)

lemma challenge_parts_append:
  "challenge_parts rnd_a rnd_b (xs @ ys) = challenge_parts rnd_a rnd_b xs @ challenge_parts rnd_a rnd_b ys"
  by (simp add: challenge_parts_def)

lemma length_challenge_parts:
  "list_all (\<lambda>j. j + 4 \<le> length rnd_a \<and> j + 4 \<le> length rnd_b) js \<Longrightarrow>
   length (challenge_parts rnd_a rnd_b js) = 8 * length js"
  by (induction js) (auto simp: challenge_parts_def)

lemma list_split_at: "n \<le> length xs \<Longrightarrow> \<exists>a b. xs = a @ b \<and> length a = n"
  by (metis append_take_drop_id length_take min.absorb2)

lemma session_parts_eq:
  assumes "list_all (\<lambda>j. j + 4 \<le> length rnd_a \<and> j + 4 \<le> length rnd_b) (js @ [j])"
    and "length (challenge_parts rnd_a rnd_b js @ rest) \<ge> 8 * Suc (length js)"
  shows "session_part rnd_a rnd_b (8 * length js) j (challenge_parts rnd_a rnd_b js @ rest) =
    challenge_parts rnd_a rnd_b (js @ [j]) @ drop 8 rest"
proof -
  have len: "length (challenge_parts rnd_a rnd_b js) = 8 * length js"
    using assms(1) by (intro length_challenge_parts) simp
  obtain s post where rest: "rest = s @ post" "length s = 8"
    using assms(2) len list_split_at [of 8 rest] by auto
  then show ?thesis
    using session_part_eq [of "8 * length js" "challenge_parts rnd_a rnd_b js" s j rnd_a rnd_b post] len assms(1)
    by (simp add: challenge_parts_append)
qed

text \<open>
  The session key is the stated interleaving of the two challenges for each cipher and key
  length, its reported length is the length of that interleaving, and the buffer behind it is
  left alone. A sixteen-octet DES key with equal halves gives the eight-octet key.
\<close>

theorem dfc_derive_session_key_correct:
  assumes len: "if cipher = DFC_CMD_AUTHENTICATE_AES \<or> key_len = 24
      then 16 \<le> length rnd_a \<and> 16 \<le> length rnd_b else 8 \<le> length rnd_a \<and> 8 \<le> length rnd_b"
    and buf: "24 \<le> length session_key"
    and res: "dfc_derive_session_key cipher key key_len rnd_a rnd_b session_key = (out, n)"
    and spec: "spec = challenge_parts rnd_a rnd_b (session_key_offsets cipher key key_len)"
  shows "take n out = spec \<and> n = length spec \<and> drop n out = drop n session_key"
proof -
  let ?P = "challenge_parts rnd_a rnd_b" and ?s = "session_part rnd_a rnd_b"
  have deg: "dfc_key_is_degenerate_des key key_len \<longleftrightarrow>
      key_len = 16 \<and> \<not> (\<forall>k. key = Some k \<longrightarrow> take 8 k \<noteq> take 8 (drop 8 k))"
    by (auto simp: dfc_key_is_degenerate_des_def mem_read_def split: option.splits)
  have m: "8 \<le> length rnd_a" "8 \<le> length rnd_b" using len by (auto split: if_splits)
  have 1: "?s 0 0 session_key = ?P [0] @ drop 8 session_key"
    using session_parts_eq [of rnd_a rnd_b "[]" 0 session_key] m buf by (simp add: challenge_parts_def)
  have l1: "length (?P [0]) = 8" using m length_challenge_parts [of rnd_a rnd_b "[0]"] by simp
  have 2: "?s 8 j (?P [0] @ drop 8 session_key) = ?P [0, j] @ drop 16 session_key"
    and l2: "length (?P [0, j]) = 16"
    if "j + 4 \<le> length rnd_a" "j + 4 \<le> length rnd_b" for j
    using session_parts_eq [of rnd_a rnd_b "[0]" j "drop 8 session_key"] m buf that l1
      length_challenge_parts [of rnd_a rnd_b "[0, j]"] by simp_all
  have 3: "?s 16 12 (?P [0, 6] @ drop 16 session_key) = ?P [0, 6, 12] @ drop 24 session_key"
    and l3: "length (?P [0, 6, 12]) = 24" if "16 \<le> length rnd_a" "16 \<le> length rnd_b"
    using session_parts_eq [of rnd_a rnd_b "[0, 6]" 12 "drop 16 session_key"] m buf that l2 [of 6]
      length_challenge_parts [of rnd_a rnd_b "[0, 6, 12]"] by simp_all
  consider (aes) "cipher = DFC_CMD_AUTHENTICATE_AES" "spec = ?P [0, 12]"
      "out = ?P [0, 12] @ drop 16 session_key" "n = 16" "length spec = 16"
    | (k3) "spec = ?P [0, 6, 12]" "out = ?P [0, 6, 12] @ drop 24 session_key" "n = 24" "length spec = 24"
    | (k2) "spec = ?P [0, 4]" "out = ?P [0, 4] @ drop 16 session_key" "n = 16" "length spec = 16"
    | (des) "spec = ?P [0]" "out = ?P [0] @ drop 8 session_key" "n = 8" "length spec = 8"
  proof (cases "cipher = DFC_CMD_AUTHENTICATE_AES")
    case True
    then show ?thesis
      using aes res len 2 [of 12] l2 [of 12] 1 by (auto simp: dfc_derive_session_key_def session_key_offsets_def spec)
  next
    case c: False
    show ?thesis
    proof (cases "key_len = 24")
      case True
      then have "16 \<le> length rnd_a" "16 \<le> length rnd_b" using len by auto
      then show ?thesis
        using True c k3 res 2 [of 6] 3 l3 1
        by (auto simp: dfc_derive_session_key_def session_key_offsets_def spec)
    next
      case False
      then show ?thesis
        using c k2 des res 2 [of 4] l2 [of 4] 1 l1 m deg
        by (cases "key_len = 16 \<and> \<not> dfc_key_is_degenerate_des key key_len")
          (auto simp: dfc_derive_session_key_def session_key_offsets_def spec)
    qed
  qed
  then show ?thesis using buf by cases simp_all
qed

theorem dfc_derive_session_key_correct_witness:
  "fst (dfc_derive_session_key DFC_CMD_AUTHENTICATE_LEGACY (Some (replicate 16 0)) 16
      [1, 2, 3, 4, 5, 6, 7, 8] [9, 10, 11, 12, 13, 14, 15, 16] (replicate 24 0)) =
     [1, 2, 3, 4, 9, 10, 11, 12] @ replicate 16 0"
proof -
  obtain out n where r: "dfc_derive_session_key DFC_CMD_AUTHENTICATE_LEGACY (Some (replicate 16 0)) 16
      [1, 2, 3, 4, 5, 6, 7, 8] [9, 10, 11, 12, 13, 14, 15, 16] (replicate 24 0) = (out, n)" by fastforce
  have ne: "DFC_CMD_AUTHENTICATE_LEGACY \<noteq> DFC_CMD_AUTHENTICATE_AES"
    by (simp add: DFC_CMD_AUTHENTICATE_LEGACY_def DFC_CMD_AUTHENTICATE_AES_def)
  have "take n out = [1, 2, 3, 4, 9, 10, 11, 12] \<and> n = length ([1, 2, 3, 4, 9, 10, 11, 12] :: bytes) \<and>
      drop n out = drop n (replicate 24 0)"
    by (rule dfc_derive_session_key_correct [OF _ _ r])
      (simp_all add: session_key_offsets_def challenge_parts_def ne)
  then have "take n out = [1, 2, 3, 4, 9, 10, 11, 12]" "drop n out = replicate 16 0" by auto
  then have "out = [1, 2, 3, 4, 9, 10, 11, 12] @ replicate 16 0" using append_take_drop_id [of n out] by argo
  with r show ?thesis by simp
qed
end
