(* ===== verification/Dfc_Key_Sets.thy ===== *)
theory Dfc_Key_Sets
  imports Dfc_Key_Pool Dfc_Common
begin

text \<open>
  Rolling an application's key sets (\<^verbatim>\<open>dfc_credential_roll_key_set\<close>): the key
  material is rotated in place by cycle leaders, one block of scratch at a time, and the
  metadata by repeated single steps. The theory shows that the result is the rotation of all
  that belongs to a key set.
\<close>

subsection \<open>Operations\<close>

fun dfc_greatest_common_divisor :: "size_t \<Rightarrow> size_t \<Rightarrow> size_t" where
  "dfc_greatest_common_divisor a b =
     (if b \<noteq> 0 then dfc_greatest_common_divisor b (a mod b) else a)"

declare dfc_greatest_common_divisor.simps [simp del]

text \<open>
  The inner \<^verbatim>\<open>while(true)\<close>. It returns the last position of the cycle; that it
  does return is part of what is proved.
\<close>

partial_function (option) rotate_cycle_loop ::
  "size_t \<Rightarrow> size_t \<Rightarrow> size_t \<Rightarrow> size_t \<Rightarrow> size_t \<Rightarrow> size_t \<Rightarrow> bytes \<Rightarrow> (size_t \<times> bytes) option" where
  "rotate_cycle_loop blocks block_count block_width shift cycle current mem =
     (let next = (current + shift) mod block_count in
      if next = cycle then Some (current, mem)
      else rotate_cycle_loop blocks block_count block_width shift cycle next
             (mem_write (blocks + current * block_width)
                (mem_read (blocks + next * block_width) block_width mem) mem))"

definition rotate_cycle ::
  "size_t \<Rightarrow> size_t \<Rightarrow> size_t \<Rightarrow> size_t \<Rightarrow> size_t \<Rightarrow> bytes \<times> bytes \<Rightarrow> (bytes \<times> bytes) option" where
  "rotate_cycle blocks block_count block_width shift cycle st =
     (case st of (mem, scratch) \<Rightarrow>
        let scratch1 = mem_write 0 (mem_read (blocks + cycle * block_width) block_width mem) scratch in
        case rotate_cycle_loop blocks block_count block_width shift cycle cycle mem of
          None \<Rightarrow> None
        | Some (current, mem1) \<Rightarrow>
            Some (mem_write (blocks + current * block_width) (mem_read 0 block_width scratch1) mem1,
                  mem_set 0 0 DFC_MAX_KEY_LEN scratch1))"

fun rotate_cycles ::
  "size_t \<Rightarrow> size_t \<Rightarrow> size_t \<Rightarrow> size_t \<Rightarrow> size_t list \<Rightarrow> bytes \<times> bytes \<Rightarrow> (bytes \<times> bytes) option" where
  "rotate_cycles blocks block_count block_width shift [] st = Some st"
| "rotate_cycles blocks block_count block_width shift (cycle # cycles) st =
     (case rotate_cycle blocks block_count block_width shift cycle st of
        None \<Rightarrow> None
      | Some st1 \<Rightarrow> rotate_cycles blocks block_count block_width shift cycles st1)"

definition dfc_rotate_key_blocks_left ::
  "size_t \<Rightarrow> size_t \<Rightarrow> size_t \<Rightarrow> size_t \<Rightarrow> bytes \<Rightarrow> bytes \<Rightarrow> (bytes \<times> bytes) option" where
  "dfc_rotate_key_blocks_left blocks block_count block_width shift scratch mem =
     rotate_cycles blocks block_count block_width shift
       [0..<dfc_greatest_common_divisor block_count shift] (mem, scratch)"

text \<open>The moves inside the metadata pool, for the slice at \<open>metadata\<close>.\<close>

definition rotated_metadata_pool :: "size_t \<Rightarrow> size_t \<Rightarrow> size_t \<Rightarrow> bytes \<Rightarrow> bytes \<Rightarrow> bytes" where
  "rotated_metadata_pool metadata num_key_sets num_keys first_versions pool =
     (let set_versions = metadata;
          set_types = metadata + num_key_sets;
          mask_offset = metadata + 2 * num_key_sets;
          initialized_mask = u16_from_le (pool ! mask_offset) (pool ! (mask_offset + 1));
          additional_versions = mask_offset + 2;
          pool1 = (if num_key_sets > DFC_KEY_SET_MINIMUM_COUNT
            then mem_move additional_versions (additional_versions + num_keys)
                   ((num_key_sets - DFC_KEY_SET_MINIMUM_COUNT) * num_keys) pool
            else pool);
          pool2 = mem_write (additional_versions + (num_key_sets - DFC_KEY_SET_MINIMUM_COUNT) * num_keys)
                    (mem_read 0 num_keys first_versions) pool1;
          first_set_version = pool2 ! set_versions;
          first_set_type = pool2 ! set_types;
          first_initialized = (initialized_mask AND 1 \<noteq> 0);
          pool3 = mem_move set_versions (set_versions + 1) (num_key_sets - 1) pool2;
          pool4 = mem_move set_types (set_types + 1) (num_key_sets - 1) pool3;
          pool5 = pool4[set_versions + (num_key_sets - 1) := first_set_version,
                        set_types + (num_key_sets - 1) := first_set_type];
          mask1 = drop_bit 1 initialized_mask;
          mask2 = (if first_initialized then mask1 OR push_bit (num_key_sets - 1) 1 else mask1)
      in pool5[mask_offset := ucast mask2, mask_offset + 1 := ucast (drop_bit 8 mask2)])"

definition dfc_credential_rotate_key_set_metadata :: "DfcCredential \<Rightarrow> size_t \<Rightarrow> bool \<times> DfcCredential" where
  "dfc_credential_rotate_key_set_metadata c i =
     (case dfc_key_set_metadata_slice c i of
        None \<Rightarrow> (False, c)
      | Some metadata \<Rightarrow>
        let app = c_apps c ! i;
            num_key_sets = unat (a_num_key_sets app);
            num_keys = unat (a_num_keys app);
            additional_versions = metadata + 2 * num_key_sets + 2;
            key_versions = mem_write 0 (mem_read additional_versions num_keys (c_key_set_metadata_pool c))
                             (a_key_versions app);
            pool = rotated_metadata_pool metadata num_key_sets num_keys (a_key_versions app)
                     (c_key_set_metadata_pool c)
        in (True, (upd_app i (\<lambda>a. a\<lparr>a_key_versions := key_versions\<rparr>) c)\<lparr>c_key_set_metadata_pool := pool\<rparr>))"

text \<open>The loop over the single rotations, which stops at the first that fails.\<close>

fun rotate_metadata_times :: "nat \<Rightarrow> DfcCredential \<Rightarrow> size_t \<Rightarrow> bool \<times> DfcCredential" where
  "rotate_metadata_times 0 c i = (True, c)"
| "rotate_metadata_times (Suc n) c i =
     (case dfc_credential_rotate_key_set_metadata c i of
        (False, c1) \<Rightarrow> (False, c1)
      | (True, c1) \<Rightarrow> rotate_metadata_times n c1 i)"

text \<open>
  \<open>None\<close> would be a call that never returns. The scratch argument is the uninitialised local
  buffer of the code.
\<close>

definition dfc_credential_roll_key_set ::
  "DfcCredential \<Rightarrow> size_t \<Rightarrow> size_t \<Rightarrow> bytes \<Rightarrow> (bool \<times> DfcCredential) option" where
  "dfc_credential_roll_key_set c i key_set_number scratch =
     (let app = c_apps c ! i in
      if key_set_number = 0 \<or> key_set_number \<ge> unat (a_num_key_sets app) then Some (False, c)
      else if dfc_key_set_metadata_slice c i = None then Some (False, c)
      else
        let key_width = dfc_credential_stored_key_length (unat (a_key_storage_len app));
            block_count = unat (a_num_keys app) * unat (a_num_key_sets app);
            shift = key_set_number * unat (a_num_keys app)
        in case dfc_rotate_key_blocks_left (unat (a_key_offset app)) block_count key_width shift scratch
                  (c_key_pool c) of
          None \<Rightarrow> None
        | Some (pool, _) \<Rightarrow>
          (case rotate_metadata_times key_set_number (c\<lparr>c_key_pool := pool\<rparr>) i of
             (False, c1) \<Rightarrow> Some (False, c1)
           | (True, c1) \<Rightarrow>
             (case dfc_credential_key_set_type c1 i 0 of
                None \<Rightarrow> Some (False, c1)
              | Some p \<Rightarrow>
                  let active_type = c_key_set_metadata_pool c1 ! p
                  in Some (True, upd_app i (\<lambda>a. a\<lparr>
                       a_key_len := of_nat (dfc_key_set_type_length active_type),
                       a_key_settings_2 := (a_key_settings_2 a AND NOT DFC_KEY_TYPE_MASK) OR
                         dfc_key_type_for_set_type active_type\<rparr>) c1))))"

subsection \<open>Rotation by cycle leaders\<close>

lemma dfc_greatest_common_divisor_eq: "dfc_greatest_common_divisor a b = gcd a b"
proof (induction a b rule: dfc_greatest_common_divisor.induct)
  case (1 a b)
  then show ?case
    by (subst dfc_greatest_common_divisor.simps) (auto simp: gcd_red_nat [symmetric])
qed

definition block_at :: "size_t \<Rightarrow> size_t \<Rightarrow> bytes \<Rightarrow> size_t \<Rightarrow> bytes" where
  "block_at blocks w mem i = mem_read (blocks + i * w) w mem"

lemma block_bounds: "i < n \<Longrightarrow> blocks + n * w \<le> len \<Longrightarrow> blocks + i * w + w \<le> len" for i n w :: nat
proof -
  assume "i < n" "blocks + n * w \<le> len"
  moreover have "Suc i * w \<le> n * w" using \<open>i < n\<close> by (intro mult_le_mono1) simp
  ultimately show ?thesis by simp
qed

lemma block_at_write:
  assumes b: "blocks + n * w \<le> length mem" and ij: "i < n" "j < n" and src: "length src = w"
  shows "block_at blocks w (mem_write (blocks + j * w) src mem) i =
      (if i = j then src else block_at blocks w mem i)"
proof (cases "i = j")
  case True
  then show ?thesis
    using mem_read_write_same [of "blocks + j * w" src mem] block_bounds [OF ij(2) b] src
    by (simp add: block_at_def)
next
  case False
  then have "i * w + w \<le> j * w \<or> j * w + w \<le> i * w"
    by (metis Suc_leI add.commute linorder_neqE_nat mult_Suc mult_le_mono1)
  then show ?thesis
    using False block_bounds [OF ij(1) b] block_bounds [OF ij(2) b] src
    by (auto simp: block_at_def intro!: mem_read_write_other)
qed

lemma length_block_at: "i < n \<Longrightarrow> blocks + n * w \<le> length mem \<Longrightarrow> length (block_at blocks w mem i) = w"
  using block_bounds [of i n blocks w "length mem"] by (simp add: block_at_def)

text \<open>Memory outside the blocks.\<close>

definition same_outside :: "size_t \<Rightarrow> size_t \<Rightarrow> bytes \<Rightarrow> bytes \<Rightarrow> bool" where
  "same_outside a n mem mem' \<longleftrightarrow> length mem' = length mem \<and> take a mem' = take a mem \<and>
     drop (a + n) mem' = drop (a + n) mem"

lemma same_outside_refl [simp]: "same_outside a n mem mem"
  by (simp add: same_outside_def)

lemma same_outside_trans: "same_outside a n x y \<Longrightarrow> same_outside a n y z \<Longrightarrow> same_outside a n x z"
  by (simp add: same_outside_def)

lemma same_outside_write:
  assumes "blocks + n * w \<le> length mem" "j < n" "length src = w"
  shows "same_outside blocks (n * w) mem (mem_write (blocks + j * w) src mem)"
proof -
  have "blocks + j * w + w \<le> blocks + n * w"
    using block_bounds [of j n blocks w "blocks + n * w"] assms(2) by simp
  then show ?thesis
    using assms by (simp add: same_outside_def mem_write_def drop_append add.commute)
qed

subsection \<open>The orbit of a cycle leader\<close>

lemma mod_eq_mult_div_gcd:
  fixes s n :: nat
  assumes "0 < n"
  shows "(c + j * s) mod n = c mod n \<longleftrightarrow> n div gcd n s dvd j"
proof -
  let ?g = "gcd n s"
  have g: "0 < ?g" using assms by simp
  have n: "n = ?g * (n div ?g)" and s: "s = ?g * (s div ?g)" by simp_all
  have "(c + j * s) mod n = c mod n \<longleftrightarrow> n dvd j * s"
    by (metis add.commute add_diff_cancel_left' le_add1 mod_eq_dvd_iff_nat)
  also have "\<dots> \<longleftrightarrow> ?g * (n div ?g) dvd ?g * (j * (s div ?g))"
    by (metis n s mult.left_commute)
  also have "\<dots> \<longleftrightarrow> n div ?g dvd j * (s div ?g)"
  proof -
    have "?g * a dvd ?g * b \<longleftrightarrow> a dvd b" for a b using g by auto
    then show ?thesis by blast
  qed
  also have "\<dots> \<longleftrightarrow> n div ?g dvd j"
    using div_gcd_coprime [of n s] assms coprime_dvd_mult_left_iff by auto
  finally show ?thesis .
qed

lemma orbit_inj:
  fixes s n :: nat
  assumes "0 < n" "j < n div gcd n s" "k < n div gcd n s" "(c + j * s) mod n = (c + k * s) mod n"
  shows "j = k"
proof -
  have le: "a = b" if ab: "a \<le> b" "b < n div gcd n s" "(c + a * s) mod n = (c + b * s) mod n" for a b
  proof -
    have "c + b * s = (c + a * s) + (b - a) * s" using ab(1) by (simp add: diff_mult_distrib)
    then have "n div gcd n s dvd b - a"
      using mod_eq_mult_div_gcd [OF assms(1), of "c + a * s" "b - a" s] ab(3) by (simp add: add.assoc)
    then show ?thesis using ab by (auto dest: dvd_imp_le)
  qed
  show ?thesis using le [of j k] le [of k j] assms by (cases "j \<le> k") auto
qed


lemma orbit_leader: "(c + j * s) mod n mod gcd n s = c mod gcd n s" for c j s n :: nat
  by (metis (no_types) add.right_neutral dvd_imp_mod_0 dvd_mult gcd_dvd1 gcd_dvd2 mod_add_right_eq
      mod_mod_cancel)

lemma orbit_cover:
  fixes s n :: nat
  assumes n: "0 < n" and p: "p < n"
  shows "\<exists>c j. c < gcd n s \<and> j < n div gcd n s \<and> p = (c + j * s) mod n"
proof -
  let ?g = "gcd n s" and ?m = "n div gcd n s"
  let ?f = "\<lambda>(c, j). (c + j * s) mod n"
  have g: "0 < ?g" "?g * ?m = n" using n by simp_all
  have "inj_on ?f ({..<?g} \<times> {..<?m})"
  proof (rule inj_onI, clarsimp)
    fix c j c' j'
    assume c: "c < ?g" "c' < ?g" and j: "j < ?m" "j' < ?m" and eq: "(c + j * s) mod n = (c' + j' * s) mod n"
    have "c = c'" using eq c orbit_leader [of c j s n] orbit_leader [of c' j' s n] by (metis mod_less)
    then show "c = c' \<and> j = j'" using orbit_inj [OF n j] eq by simp
  qed
  then have "card (?f ` ({..<?g} \<times> {..<?m})) = n" using g by (simp add: card_image)
  moreover have "?f ` ({..<?g} \<times> {..<?m}) \<subseteq> {..<n}" using n by auto
  ultimately have "?f ` ({..<?g} \<times> {..<?m}) = {..<n}" by (simp add: card_subset_eq)
  then have "p \<in> ?f ` ({..<?g} \<times> {..<?m})" using p by simp
  then show ?thesis by auto
qed

text \<open>
  One cycle. After \<open>k\<close> copies the first \<open>k\<close> positions of the orbit hold their
  successors' blocks and every other block is untouched; the loop stops after the whole orbit.
\<close>

definition cycle_moved :: "size_t \<Rightarrow> size_t \<Rightarrow> size_t \<Rightarrow> size_t \<Rightarrow> size_t \<Rightarrow> bytes \<Rightarrow> size_t \<Rightarrow> bytes \<Rightarrow> bool" where
  "cycle_moved blocks n w s c mem0 k mem \<longleftrightarrow> same_outside blocks (n * w) mem0 mem \<and>
     (\<forall>p<n. block_at blocks w mem p =
        (if \<exists>j<k. p = (c + j * s) mod n then block_at blocks w mem0 ((p + s) mod n)
         else block_at blocks w mem0 p))"

lemma cycle_movedD:
  assumes "cycle_moved blocks n w s c mem0 k mem" "p < n"
  shows "j < k \<Longrightarrow> p = (c + j * s) mod n \<Longrightarrow> block_at blocks w mem p = block_at blocks w mem0 ((p + s) mod n)"
    and "\<not> (\<exists>j<k. p = (c + j * s) mod n) \<Longrightarrow> block_at blocks w mem p = block_at blocks w mem0 p"
  using assms unfolding cycle_moved_def by auto

lemma cycle_moved_step:
  assumes n: "0 < n" and b: "blocks + n * w \<le> length mem0" and k: "k < n div gcd n s"
    and st: "cycle_moved blocks n w s c mem0 k mem"
    and cur: "cur = (c + k * s) mod n" and src: "src = block_at blocks w mem0 ((c + Suc k * s) mod n)"
  shows "cycle_moved blocks n w s c mem0 (Suc k) (mem_write (blocks + cur * w) src mem)"
proof -
  have lt: "cur < n" "(c + Suc k * s) mod n < n" using n cur by simp_all
  have nx: "(cur + s) mod n = (c + Suc k * s) mod n" by (simp add: cur mod_simps add_ac)
  have lm: "blocks + n * w \<le> length mem" using st b by (simp add: same_outside_def cycle_moved_def)
  have ls: "length src = w" using length_block_at [OF lt(2) b] src by simp
  note wr = block_at_write [OF lm _ lt(1) ls]
  have "block_at blocks w (mem_write (blocks + cur * w) src mem) p =
      (if \<exists>j<Suc k. p = (c + j * s) mod n then block_at blocks w mem0 ((p + s) mod n)
       else block_at blocks w mem0 p)" if p: "p < n" for p
  proof (cases "p = cur")
    case True
    then have "\<exists>j<Suc k. p = (c + j * s) mod n" using cur by blast
    then show ?thesis using wr [OF p] True src nx by auto
  next
    case False
    then have "(\<exists>j<Suc k. p = (c + j * s) mod n) \<longleftrightarrow> (\<exists>j<k. p = (c + j * s) mod n)"
      using cur less_Suc_eq by blast
    then show ?thesis using wr [OF p] False st p by (simp add: cycle_moved_def)
  qed
  moreover have "same_outside blocks (n * w) mem0 (mem_write (blocks + cur * w) src mem)"
    using st same_outside_write [OF lm lt(1) ls] same_outside_trans by (auto simp: cycle_moved_def)
  ultimately show ?thesis by (simp add: cycle_moved_def)
qed

lemma rotate_cycle_loop_runs:
  assumes n: "0 < n" and b: "blocks + n * w \<le> length mem0" and c: "c < n"
    and m: "m = n div gcd n s" and k: "k < m" and st: "cycle_moved blocks n w s c mem0 k mem"
  shows "\<exists>mem'. rotate_cycle_loop blocks n w s c ((c + k * s) mod n) mem = Some ((c + (m - 1) * s) mod n, mem') \<and>
    cycle_moved blocks n w s c mem0 (m - 1) mem'"
  using k st
proof (induction "m - 1 - k" arbitrary: k mem)
  case 0
  then have km: "m = Suc k" by simp
  have "((c + k * s) mod n + s) mod n = (c + m * s) mod n" by (simp add: km mod_simps add_ac)
  also have "\<dots> = c" using mod_eq_mult_div_gcd [OF n, of c m s] c m by simp
  finally have "rotate_cycle_loop blocks n w s c ((c + k * s) mod n) mem = Some ((c + k * s) mod n, mem)"
    by (subst rotate_cycle_loop.simps) (simp only: Let_def refl if_True)
  then show ?case using 0(3) km by auto
next
  case (Suc d)
  let ?cur = "(c + k * s) mod n" and ?nx = "(c + Suc k * s) mod n"
  have nx: "(?cur + s) mod n = ?nx" by (simp add: mod_simps add_ac)
  have km: "Suc k < m" using Suc(2) by simp
  have ne: "?nx \<noteq> c"
  proof
    assume "?nx = c"
    then have "m dvd Suc k" using mod_eq_mult_div_gcd [OF n, of c "Suc k" s] c m by simp
    then show False using km by (auto dest: dvd_imp_le)
  qed
  have lt: "?nx < n" using n by simp
  have new: "\<not> (\<exists>j<k. ?nx = (c + j * s) mod n)"
    using orbit_inj [OF n km [unfolded m], of _ c] km m by (metis Suc_lessD less_not_refl less_trans)
  have old: "mem_read (blocks + ?nx * w) w mem = block_at blocks w mem0 ?nx"
  proof -
    have "mem_read (blocks + ?nx * w) w mem = block_at blocks w mem ?nx" by (simp only: block_at_def)
    also have "\<dots> = block_at blocks w mem0 ?nx" by (rule cycle_movedD(2) [OF Suc(4) lt new])
    finally show ?thesis .
  qed
  let ?mem = "mem_write (blocks + ?cur * w) (mem_read (blocks + ?nx * w) w mem) mem"
  have "cycle_moved blocks n w s c mem0 (Suc k) ?mem"
    using cycle_moved_step [OF n b _ Suc(4) refl refl] Suc(3) m unfolding old by blast
  then have "\<exists>mem'. rotate_cycle_loop blocks n w s c ?nx ?mem = Some ((c + (m - 1) * s) mod n, mem') \<and>
    cycle_moved blocks n w s c mem0 (m - 1) mem'"
    using Suc(2) km by (intro Suc(1)) auto
  moreover have "rotate_cycle_loop blocks n w s c ?cur mem = rotate_cycle_loop blocks n w s c ?nx ?mem"
    using ne nx by (subst rotate_cycle_loop.simps) (simp only: Let_def if_False)
  ultimately show ?case by simp
qed


lemma rotate_cycle_effect:
  assumes n: "0 < n" and b: "blocks + n * w \<le> length mem0" and c: "c < n"
    and w: "w \<le> DFC_MAX_KEY_LEN" "length scratch = DFC_MAX_KEY_LEN"
  shows "\<exists>mem'. rotate_cycle blocks n w s c (mem0, scratch) = Some (mem', replicate DFC_MAX_KEY_LEN 0) \<and>
    cycle_moved blocks n w s c mem0 (n div gcd n s) mem'"
proof -
  let ?m = "n div gcd n s"
  have g: "0 < gcd n s" "gcd n s \<le> n" using n by (auto intro: dvd_imp_le)
  then have m: "0 < ?m" by (simp add: div_greater_zero_iff)
  have "cycle_moved blocks n w s c mem0 0 mem0" by (simp add: cycle_moved_def)
  from rotate_cycle_loop_runs [OF n b c refl m this]
  obtain mem1 where run: "rotate_cycle_loop blocks n w s c c mem0 = Some ((c + (?m - 1) * s) mod n, mem1)"
    and mv: "cycle_moved blocks n w s c mem0 (?m - 1) mem1"
    using c by auto
  let ?src = "mem_read (blocks + c * w) w mem0"
  have src: "?src = block_at blocks w mem0 c" "length ?src = w"
    using length_block_at [OF c b] by (simp_all add: block_at_def)
  have last: "(c + Suc (?m - 1) * s) mod n = c"
    using mod_eq_mult_div_gcd [OF n, of c ?m s] c m by simp
  have "cycle_moved blocks n w s c mem0 (Suc (?m - 1))
      (mem_write (blocks + (c + (?m - 1) * s) mod n * w) ?src mem1)"
    using cycle_moved_step [OF n b _ mv refl refl] m unfolding last src(1) by simp
  moreover have "mem_read 0 w (mem_write 0 ?src scratch) = ?src"
    using mem_read_write_same [of 0 ?src scratch] src(2) w by simp
  moreover have "mem_set 0 0 DFC_MAX_KEY_LEN (mem_write 0 ?src scratch) = replicate DFC_MAX_KEY_LEN 0"
    using src(2) w by (simp add: mem_set_def mem_write_def)
  ultimately show ?thesis using m by (simp add: rotate_cycle_def run Let_def)
qed

lemma rotate_cycles_effect:
  assumes n: "0 < n" and b: "blocks + n * w \<le> length mem0"
    and w: "w \<le> DFC_MAX_KEY_LEN" "length scratch = DFC_MAX_KEY_LEN"
    and cs: "list_all (\<lambda>c. c < gcd n s) (ds @ cs)" "distinct (ds @ cs)"
    and out: "same_outside blocks (n * w) mem0 mem"
    and mv: "\<forall>p<n. block_at blocks w mem p =
       (if p mod gcd n s \<in> set ds then block_at blocks w mem0 ((p + s) mod n) else block_at blocks w mem0 p)"
  shows "\<exists>mem' scr. rotate_cycles blocks n w s cs (mem, scratch) = Some (mem', scr) \<and>
    (cs = [] \<or> scr = replicate DFC_MAX_KEY_LEN 0) \<and> same_outside blocks (n * w) mem0 mem' \<and>
    (\<forall>p<n. block_at blocks w mem' p =
       (if p mod gcd n s \<in> set (ds @ cs) then block_at blocks w mem0 ((p + s) mod n) else block_at blocks w mem0 p))"
  using cs out mv w(2)
proof (induction cs arbitrary: ds mem scratch)
  case Nil
  then show ?case by simp
next
  case (Cons c cs)
  let ?g = "gcd n s"
  have c: "c < ?g" "c < n" using Cons(2) n by (auto intro: less_le_trans dvd_imp_le)
  have b1: "blocks + n * w \<le> length mem" using Cons(4) b by (simp add: same_outside_def)
  obtain mem1 where r: "rotate_cycle blocks n w s c (mem, scratch) = Some (mem1, replicate DFC_MAX_KEY_LEN 0)"
    and m1: "cycle_moved blocks n w s c mem (n div ?g) mem1"
    using rotate_cycle_effect [OF n b1 c(2) w(1) Cons(6)] by blast
  have orb: "(\<exists>j<n div ?g. p = (c + j * s) mod n) \<longleftrightarrow> p mod ?g = c" if p: "p < n" for p
  proof
    assume "p mod ?g = c"
    moreover obtain c' j where "c' < ?g" "j < n div ?g" "p = (c' + j * s) mod n"
      using orbit_cover [OF n p, of s] by blast
    ultimately show "\<exists>j<n div ?g. p = (c + j * s) mod n" using orbit_leader [of c' j s n] by auto
  qed (use orbit_leader [of c _ s n] c in auto)
  have "block_at blocks w mem1 p = (if p mod ?g \<in> set (ds @ [c])
      then block_at blocks w mem0 ((p + s) mod n) else block_at blocks w mem0 p)" if p: "p < n" for p
  proof (cases "p mod ?g = c")
    case True
    have "(p + s) mod n mod ?g = p mod ?g" using orbit_leader [of p 1 s n] by simp
    then have "block_at blocks w mem ((p + s) mod n) = block_at blocks w mem0 ((p + s) mod n)"
      using Cons(3,5) True n by auto
    moreover obtain j where "j < n div ?g" "p = (c + j * s) mod n" using orb [OF p] True by blast
    ultimately show ?thesis using cycle_movedD(1) [OF m1 p] True by simp
  next
    case False
    then have "block_at blocks w mem1 p = block_at blocks w mem p"
      using cycle_movedD(2) [OF m1 p] orb [OF p] by blast
    then show ?thesis using False Cons(5) p by simp
  qed
  moreover have "same_outside blocks (n * w) mem0 mem1"
    using Cons(4) m1 same_outside_trans by (auto simp: cycle_moved_def)
  ultimately have "\<exists>mem' scr. rotate_cycles blocks n w s cs (mem1, replicate DFC_MAX_KEY_LEN 0) = Some (mem', scr) \<and>
    (cs = [] \<or> scr = replicate DFC_MAX_KEY_LEN 0) \<and> same_outside blocks (n * w) mem0 mem' \<and>
    (\<forall>p<n. block_at blocks w mem' p = (if p mod ?g \<in> set ((ds @ [c]) @ cs)
       then block_at blocks w mem0 ((p + s) mod n) else block_at blocks w mem0 p))"
    using Cons(2,3) by (intro Cons(1)) auto
  then show ?case using r by (cases cs) auto
qed

lemma dfc_rotate_key_blocks_left_effect:
  assumes n: "0 < n" and b: "blocks + n * w \<le> length mem"
    and w: "w \<le> DFC_MAX_KEY_LEN" "length scratch = DFC_MAX_KEY_LEN"
  shows "\<exists>mem'. dfc_rotate_key_blocks_left blocks n w s scratch mem = Some (mem', replicate DFC_MAX_KEY_LEN 0) \<and>
    same_outside blocks (n * w) mem mem' \<and>
    (\<forall>p<n. block_at blocks w mem' p = block_at blocks w mem ((p + s) mod n))"
proof -
  have g: "0 < gcd n s" using n by simp
  have "\<exists>mem' scr. rotate_cycles blocks n w s [0..<gcd n s] (mem, scratch) = Some (mem', scr) \<and>
    ([0..<gcd n s] = [] \<or> scr = replicate DFC_MAX_KEY_LEN 0) \<and> same_outside blocks (n * w) mem mem' \<and>
    (\<forall>p<n. block_at blocks w mem' p = (if p mod gcd n s \<in> set ([] @ [0..<gcd n s])
       then block_at blocks w mem ((p + s) mod n) else block_at blocks w mem p))"
    by (rule rotate_cycles_effect [OF n b w]) (auto simp: list_all_iff)
  then show ?thesis
    using g by (auto simp: dfc_rotate_key_blocks_left_def dfc_greatest_common_divisor_eq)
qed


subsection \<open>One rotation of the metadata\<close>

lemma mem_move_down:
  assumes "a = length pre" "k = length x" "n = length y"
  shows "mem_move a (a + k) n (pre @ x @ y @ post) = pre @ y @ drop n (x @ y) @ post"
proof -
  have "mem_read (a + k) n (pre @ x @ y @ post) = y" using assms by (simp add: mem_read_def)
  moreover have "drop (length pre + n) (pre @ x @ y @ post) = drop n (x @ y) @ post"
    using assms by simp
  ultimately show ?thesis using assms by (simp add: mem_move_def mem_write_def)
qed

lemma mem_move_down_write:
  assumes "a = length pre" "k = length x" "n = length y" "length z = k"
  shows "mem_write (a + n) z (mem_move a (a + k) n (pre @ x @ y @ post)) = pre @ y @ z @ post"
  using assms by (simp add: mem_move_down mem_write_def)

lemma mem_move_one:
  assumes "a = length pre" "n = length y"
  shows "\<exists>l. mem_move a (a + 1) n (pre @ (v # y) @ post) = pre @ y @ l # post"
proof -
  have "length (drop n ([v] @ y)) = Suc 0" using assms by (simp only: length_append length_drop) simp
  then obtain l where "drop n ([v] @ y) = [l]" by (auto simp only: length_Suc_conv length_0_conv)
  then show ?thesis using mem_move_down [of a pre 1 "[v]" n y post] assms by simp
qed

text \<open>The rotated metadata of one application: set versions, set types, mask and version rows.\<close>

definition rotated_mask :: "size_t \<Rightarrow> u16 \<Rightarrow> u16" where
  "rotated_mask n msk =
     (if msk AND 1 \<noteq> 0 then drop_bit 1 msk OR push_bit (n - 1) 1 else drop_bit 1 msk)"

lemma rotated_metadata_pool_eq:
  assumes len: "length pre = m" "length V = N" "length T = N" "length R = (N - 1) * K" "2 \<le> N"
    and kv: "K \<le> length kv" and msk: "msk = rotated_mask N (u16_from_le lo hi)"
  shows "rotated_metadata_pool m N K kv (pre @ V @ T @ [lo, hi] @ R @ post) =
    pre @ rotate1 V @ rotate1 T @ [ucast msk, ucast (drop_bit 8 msk)] @ (drop K R @ take K kv) @ post"
proof -
  let ?kv = "take K kv" and ?add = "m + 2 * N + 2"
  obtain v V' where V: "V = v # V'" "length V' = N - 1" using len by (cases V) auto
  obtain t T' where T: "T = t # T'" "length T' = N - 1" using len by (cases T) auto
  obtain R1 R2 where R: "R = R1 @ R2" "length R1 = K" "length R2 = (N - 2) * K"
  proof -
    have "(N - 1) * K = K + (N - 2) * K" using len(5) by (metis Suc_1 Suc_diff_le diff_Suc_Suc mult_Suc)
    then show ?thesis using len(4) that [of "take K R" "drop K R"] by simp
  qed
  have kvl: "length ?kv = K" using kv by simp
  let ?h = "pre @ V @ T @ [lo, hi]"
  let ?p0 = "?h @ R1 @ R2 @ post"
  have h: "length ?h = ?add" using len by simp
  have mo: "?p0 ! (m + 2 * N) = lo" "?p0 ! (m + 2 * N + 1) = hi"
    using len by (simp_all add: nth_append)
  have p2: "mem_write (?add + (N - 2) * K) (mem_read 0 K kv)
      (if N > 2 then mem_move ?add (?add + K) ((N - 2) * K) ?p0 else ?p0) = ?h @ R2 @ ?kv @ post"
  proof -
    have "(if N > 2 then mem_move ?add (?add + K) ((N - 2) * K) ?p0 else ?p0) =
        mem_move ?add (?add + K) ((N - 2) * K) ?p0" by auto
    then show ?thesis
      using mem_move_down_write [of ?add ?h K R1 "(N - 2) * K" R2 ?kv post] h R kvl
      by (simp add: mem_read_prefix)
  qed
  let ?rest = "[lo, hi] @ R2 @ ?kv @ post"
  have d2: "?h @ R2 @ ?kv @ post = pre @ (v # V') @ T @ ?rest" using V by simp
  obtain l where p3: "mem_move m (m + 1) (N - 1) (pre @ (v # V') @ T @ ?rest) = pre @ V' @ l # T @ ?rest"
    using mem_move_one [of m pre "N - 1" V' v "T @ ?rest"] len V by auto
  have d3: "pre @ V' @ l # T @ ?rest = (pre @ V' @ [l]) @ (t # T') @ ?rest" using T by simp
  have "m + N = length (pre @ V' @ [l])" using len V by simp
  then obtain l' where p4: "mem_move (m + N) (m + N + 1) (N - 1) ((pre @ V' @ [l]) @ (t # T') @ ?rest) =
      (pre @ V' @ [l]) @ T' @ l' # ?rest"
    using mem_move_one [of "m + N" "pre @ V' @ [l]" "N - 1" T' t ?rest] T by metis
  have p5: "((pre @ V' @ [l]) @ T' @ l' # ?rest)[m + (N - 1) := v, m + N + (N - 1) := t,
      m + 2 * N := x, m + 2 * N + 1 := y] = pre @ V' @ v # T' @ t # [x, y] @ R2 @ ?kv @ post" for x y
  proof -
    have "m + (N - 1) = length (pre @ V')" "m + N + (N - 1) = length (pre @ V' @ v # T')"
      "m + 2 * N = length (pre @ V' @ v # T' @ [t])" using len V T by simp_all
    then show ?thesis by (simp add: list_update_append)
  qed
  have p2v: "(pre @ (v # V') @ T @ ?rest) ! m = v" "(pre @ (v # V') @ T @ ?rest) ! (m + N) = t"
    using len V T by (simp_all add: nth_append)
  have r1: "rotate1 V = V' @ [v]" "rotate1 T = T' @ [t]" "drop K R = R2"
    using V T R by simp_all
  have src: "pre @ V @ T @ [lo, hi] @ R @ post = ?p0" using R by simp
  have "rotated_metadata_pool m N K kv ?p0 = pre @ V' @ v # T' @ t # [ucast msk, ucast (drop_bit 8 msk)] @ R2 @ ?kv @ post"
    unfolding rotated_metadata_pool_def Let_def DFC_KEY_SET_MINIMUM_COUNT_def mo p2 d2 p2v p3 d3 p4 p5
    by (simp add: msk rotated_mask_def)
  then show ?thesis unfolding src r1 by simp
qed


lemma u16_from_le_split [simp]: "u16_from_le (ucast x) (ucast (drop_bit 8 x)) = x"
  by (rule bit_word_eqI)
    (auto simp: u16_from_le_def bit_or_iff bit_push_bit_iff bit_ucast_iff bit_drop_bit_eq)

lemma rotated_mask_bits:
  assumes "2 \<le> N" "N \<le> 16" "\<And>b. N \<le> b \<Longrightarrow> \<not> bit msk b"
  shows "b < N \<Longrightarrow> bit (rotated_mask N msk) b = bit msk (Suc b mod N)"
    and "N \<le> b \<Longrightarrow> \<not> bit (rotated_mask N msk) b"
proof -
  have low: "msk AND 1 \<noteq> 0 \<longleftrightarrow> bit msk 0" by (auto simp: and_one_eq mod_2_eq_odd bit_0)
  have b: "bit (rotated_mask N msk) b \<longleftrightarrow> bit msk (Suc b) \<or> (bit msk 0 \<and> b = N - 1)"
    using assms(1,2) unfolding rotated_mask_def low
    by (auto simp: bit_or_iff bit_drop_bit_eq push_bit_eq_mult bit_exp_iff)
  show "bit (rotated_mask N msk) b = bit msk (Suc b mod N)" if "b < N"
    using that b assms(3) by (cases "Suc b = N") auto
  show "\<not> bit (rotated_mask N msk) b" if "N \<le> b"
    using that b assms by auto
qed

subsection \<open>What belongs to a key set\<close>

abbreviation set_count :: "DfcCredential \<Rightarrow> size_t \<Rightarrow> size_t" where
  "set_count c i \<equiv> unat (a_num_key_sets (c_apps c ! i))"

abbreviation key_count :: "DfcCredential \<Rightarrow> size_t \<Rightarrow> size_t" where
  "key_count c i \<equiv> unat (a_num_keys (c_apps c ! i))"

abbreviation key_width :: "DfcCredential \<Rightarrow> size_t \<Rightarrow> size_t" where
  "key_width c i \<equiv> dfc_credential_stored_key_length (unat (a_key_storage_len (c_apps c ! i)))"

definition ks_versions :: "DfcCredential \<Rightarrow> size_t \<Rightarrow> bytes" where
  "ks_versions c i = take (set_count c i) (meta_bytes c i)"

definition ks_types :: "DfcCredential \<Rightarrow> size_t \<Rightarrow> bytes" where
  "ks_types c i = take (set_count c i) (drop (set_count c i) (meta_bytes c i))"

definition ks_mask :: "DfcCredential \<Rightarrow> size_t \<Rightarrow> u16" where
  "ks_mask c i = u16_from_le (meta_bytes c i ! (2 * set_count c i)) (meta_bytes c i ! (2 * set_count c i + 1))"

definition ks_flags :: "DfcCredential \<Rightarrow> size_t \<Rightarrow> bool list" where
  "ks_flags c i = map (bit (ks_mask c i)) [0..<set_count c i]"

definition ks_key_versions :: "DfcCredential \<Rightarrow> size_t \<Rightarrow> bytes" where
  "ks_key_versions c i = take (key_count c i) (a_key_versions (c_apps c ! i)) @
     drop (2 * set_count c i + 2) (meta_bytes c i)"

definition ks_keys :: "DfcCredential \<Rightarrow> size_t \<Rightarrow> bytes list" where
  "ks_keys c i = map (block_at (unat (a_key_offset (c_apps c ! i))) (key_width c i) (c_key_pool c))
     [0..<key_count c i * set_count c i]"

definition key_sets_ready :: "DfcCredential \<Rightarrow> size_t \<Rightarrow> bool" where
  "key_sets_ready c i \<longleftrightarrow> key_invar c \<and> i < DFC_MAX_APPS \<and> dfc_key_set_metadata_slice c i \<noteq> None \<and>
     length (a_key_versions (c_apps c ! i)) = DFC_MAX_KEYS \<and>
     unat (a_key_pool_len (c_apps c ! i)) = key_count c i * set_count c i * key_width c i \<and>
     (\<forall>b \<ge> set_count c i. \<not> bit (ks_mask c i) b)"

lemma metadata_slice_cong:
  assumes "a_num_key_sets (c_apps d ! i) = a_num_key_sets (c_apps c ! i)"
    "a_num_keys (c_apps d ! i) = a_num_keys (c_apps c ! i)" "meta_slot (c_apps d ! i) = meta_slot (c_apps c ! i)"
    "c_key_set_metadata_pool_used d = c_key_set_metadata_pool_used c"
  shows "dfc_key_set_metadata_slice d i = dfc_key_set_metadata_slice c i"
  using assms unfolding dfc_key_set_metadata_slice_def Let_def meta_slot_def by simp

lemma metadata_slice_facts:
  assumes inv: "key_invar c" and i: "i < DFC_MAX_APPS" and slice: "dfc_key_set_metadata_slice c i = Some m"
  defines "N \<equiv> set_count c i" and "K \<equiv> key_count c i"
  shows "2 \<le> N" "N \<le> 16" "0 < K" "K \<le> 14"
    and "meta_slices c ! i = (m, 2 * N + 2 + (N - 1) * K)"
    and "length (meta_bytes c i) = 2 * N + 2 + (N - 1) * K"
    and "m + (2 * N + 2 + (N - 1) * K) \<le> length (c_key_set_metadata_pool c)"
    and "k < 2 * N + 2 + (N - 1) * K \<Longrightarrow> c_key_set_metadata_pool c ! (m + k) = meta_bytes c i ! k"
proof -
  let ?L = "2 * N + 2 + (N - 1) * K"
  have b: "2 \<le> N \<and> N \<le> 16 \<and> 0 < K \<and> K \<le> 14 \<and>
      unat (a_key_set_metadata_len (c_apps c ! i)) = ?L \<and> m = unat (a_key_set_metadata_offset (c_apps c ! i)) \<and>
      a_key_set_metadata_offset (c_apps c ! i) \<noteq> SLOT_NONE"
    using slice
    by (auto simp: dfc_key_set_metadata_slice_def Let_def dfc_key_set_metadata_length_def META_NONE_eq
        N_def K_def DFC_KEY_SET_MINIMUM_COUNT_def DFC_MAX_KEY_SETS_def DFC_MAX_KEYS_def split: if_splits)
  then show "2 \<le> N" "N \<le> 16" "0 < K" "K \<le> 14" by auto
  have wf: "meta_wf c" and ok: "meta_pool_ok c" using inv by (auto simp: key_invar_def)
  note sl = meta_slot_in [OF wf ok i]
  have nz: "a_key_set_metadata_len (c_apps c ! i) \<noteq> 0" using b by (metis add_eq_0_iff_both_eq_0 unat_0 zero_neq_numeral)
  show ms: "meta_slices c ! i = (m, ?L)"
    using slot_slice_eqs [OF sl(1)] sl(3) b nz wf i
    by (simp add: meta_slices_def meta_slots_def meta_wf_def prod_eq_iff meta_slot_def)
  show bound: "m + ?L \<le> length (c_key_set_metadata_pool c)"
    using sl(2) [OF nz] sl(4) b wf by (simp add: meta_wf_def META_SIZE_eq)
  show "length (meta_bytes c i) = ?L" using bound by (simp add: meta_bytes_def ms slice_contents_def)
  show "c_key_set_metadata_pool c ! (m + k) = meta_bytes c i ! k" if "k < ?L"
    using that bound by (simp add: meta_bytes_def ms slice_contents_def)
qed

text \<open>Replacing the octets of one application's metadata.\<close>

lemma meta_replace:
  assumes inv: "key_invar c" and i: "i < DFC_MAX_APPS" and ms: "meta_slices c ! i = (m, L)" and L: "0 < L" "length M = L"
    and d: "key_slots d = key_slots c" "meta_slots d = meta_slots c" "length (c_apps d) = length (c_apps c)"
      "c_key_pool d = c_key_pool c" "c_key_pool_used d = c_key_pool_used c"
      "c_key_set_metadata_pool_used d = c_key_set_metadata_pool_used c"
      "c_key_set_metadata_pool d = mem_write m M (c_key_set_metadata_pool c)"
  shows "key_invar d" "meta_bytes d i = M" "key_bytes d = key_bytes c" "meta_slices d = meta_slices c"
    and "\<And>j. j < DFC_MAX_APPS \<Longrightarrow> j \<noteq> i \<Longrightarrow> meta_bytes d j = meta_bytes c j"
proof -
  have wf: "meta_wf c" and ok: "meta_pool_ok c" using inv by (auto simp: key_invar_def)
  have i': "i < length (meta_slices c)" using i length_meta_slices [OF wf] by simp
  show sl: "meta_slices d = meta_slices c" using d by (simp add: meta_slices_def)
  have used: "meta_pool_used d = meta_pool_used c" using d by (simp add: meta_pool_used_def)
  have w: "fst (meta_slices c ! i) \<le> m" "m + length M \<le> fst (meta_slices c ! i) + snd (meta_slices c ! i)"
    "0 < snd (meta_slices c ! i)" using ms L by auto
  have bound: "m + L \<le> length (c_key_set_metadata_pool c)"
    using pool_ok_inside [OF ok i'] pool_ok_used [OF ok] ms L by simp
  have "meta_pool_ok d" unfolding sl used d(7) by (rule pool_ok_write [OF ok i' w])
  moreover have "meta_wf d" using wf d bound L by (simp add: meta_wf_def)
  moreover have "key_wf d" "key_pool_ok d"
    using inv d by (simp_all add: key_invar_def key_wf_def key_slices_def key_pool_used_def)
  ultimately show "key_invar d" by (simp add: key_invar_def)
  show "meta_bytes d i = M"
    using mem_read_write_same [of m M "c_key_set_metadata_pool c"] bound L d sl ms
    by (simp add: meta_bytes_def slice_contents_def)
  show "key_bytes d = key_bytes c" using d by (simp add: key_bytes_def key_slices_def fun_eq_iff)
  show "meta_bytes d j = meta_bytes c j" if "j < DFC_MAX_APPS" "j \<noteq> i" for j
    using slice_contents_write_other [OF ok i' w] that length_meta_slices [OF wf] sl d
    by (simp add: meta_bytes_def)
qed


subsection \<open>Rolling\<close>

lemma rotate_metadata_effect:
  assumes rdy: "key_sets_ready c i"
  shows "\<exists>c'. dfc_credential_rotate_key_set_metadata c i = (True, c') \<and> key_sets_ready c' i \<and>
    ks_versions c' i = rotate1 (ks_versions c i) \<and> ks_types c' i = rotate1 (ks_types c i) \<and>
    ks_flags c' i = rotate1 (ks_flags c i) \<and>
    ks_key_versions c' i = rotate (key_count c i) (ks_key_versions c i) \<and> ks_keys c' i = ks_keys c i \<and>
    set_count c' i = set_count c i \<and> key_count c' i = key_count c i \<and> key_width c' i = key_width c i \<and>
    key_bytes c' = key_bytes c \<and> files_same c c' \<and>
    (\<forall>j. j < DFC_MAX_APPS \<and> j \<noteq> i \<longrightarrow> c_apps c' ! j = c_apps c ! j \<and> meta_bytes c' j = meta_bytes c j)"
proof -
  have inv: "key_invar c" and i: "i < DFC_MAX_APPS" using rdy by (auto simp: key_sets_ready_def)
  obtain m where slice: "dfc_key_set_metadata_slice c i = Some m" using rdy by (auto simp: key_sets_ready_def)
  let ?N = "set_count c i" and ?K = "key_count c i" and ?M = "meta_bytes c i" and ?kv = "a_key_versions (c_apps c ! i)"
  let ?pool = "c_key_set_metadata_pool c"
  note fs = metadata_slice_facts [OF inv i slice]
  let ?L = "2 * ?N + 2 + (?N - 1) * ?K"
  have kv: "?K \<le> length ?kv" using rdy fs(4) by (simp add: key_sets_ready_def DFC_MAX_KEYS_def)
  define V T lo hi R where "V = take ?N ?M" and "T = take ?N (drop ?N ?M)" and "lo = ?M ! (2 * ?N)"
    and "hi = ?M ! (2 * ?N + 1)" and "R = drop (2 * ?N + 2) ?M"
  have len: "length V = ?N" "length T = ?N" "length R = (?N - 1) * ?K"
    using fs(6) by (simp_all add: V_def T_def R_def)
  have M: "?M = V @ T @ [lo, hi] @ R"
  proof -
    have "drop (2 * ?N) ?M = lo # hi # R"
      using fs(6) by (simp add: lo_def hi_def R_def Cons_nth_drop_Suc)
    moreover have "?M = take ?N ?M @ take ?N (drop ?N ?M) @ drop (2 * ?N) ?M"
      by (metis append_take_drop_id drop_drop mult_2)
    ultimately show ?thesis by (simp add: V_def T_def)
  qed
  have pool: "?pool = take m ?pool @ V @ T @ [lo, hi] @ R @ drop (m + ?L) ?pool"
  proof -
    have "?pool = take m ?pool @ take ?L (drop m ?pool) @ drop ?L (drop m ?pool)"
      by (simp only: append_take_drop_id)
    moreover have "take ?L (drop m ?pool) = ?M" by (simp add: meta_bytes_def fs(5) slice_contents_def mem_read_def)
    ultimately show ?thesis using M by (simp add: add.commute)
  qed
  define msk where "msk = rotated_mask ?N (ks_mask c i)"
  have km: "ks_mask c i = u16_from_le lo hi" by (simp add: ks_mask_def lo_def hi_def)
  define M' where "M' = rotate1 V @ rotate1 T @ [ucast msk, ucast (drop_bit 8 msk)] @ drop ?K R @ take ?K ?kv"
  have RK: "?K \<le> length R" using len(3) fs(1,3) by (cases ?N; cases "?N - 1") auto
  have lM: "length M' = ?L" using len kv RK by (simp add: M'_def)
  have tm: "length (take m ?pool) = m" using fs(7) by simp
  have wp: "take m ?pool @ M' @ drop (m + ?L) ?pool = mem_write m M' ?pool" by (simp add: mem_write_def lM)
  have rp: "rotated_metadata_pool m ?N ?K ?kv ?pool = mem_write m M' ?pool"
    using rotated_metadata_pool_eq [OF tm len fs(1) kv, of msk lo hi "drop (m + ?L) ?pool"] pool wp
    by (simp add: msk_def km M'_def)
  have add: "mem_read (m + 2 * ?N + 2) ?K ?pool = take ?K R"
  proof -
    have "min (length ?pool) m = m" "Suc 0 \<le> ?N - Suc 0" using fs(1,7) by auto
    then show ?thesis by (subst pool) (simp add: mem_read_def len RK)
  qed
  define d where "d = (upd_app i (\<lambda>a. a\<lparr>a_key_versions := mem_write 0 (take ?K R) (a_key_versions a)\<rparr>) c)
      \<lparr>c_key_set_metadata_pool := mem_write m M' ?pool\<rparr>"
  have run: "dfc_credential_rotate_key_set_metadata c i = (True, d)"
    unfolding dfc_credential_rotate_key_set_metadata_def slice option.case Let_def rp add d_def
    by (simp add: upd_app_def)
  have la: "i < length (c_apps c)" using i key_invar_length [OF inv] by simp
  have app: "c_apps d ! i = (c_apps c ! i)\<lparr>a_key_versions := mem_write 0 (take ?K R) ?kv\<rparr>"
    using la by (simp add: d_def)
  have counts: "set_count d i = ?N" "key_count d i = ?K" "key_width d i = key_width c i" by (simp_all add: app)
  have slots: "key_slots d = key_slots c" "meta_slots d = meta_slots c"
  proof -
    let ?g = "\<lambda>a. a\<lparr>a_key_versions := mem_write 0 (take ?K R) (a_key_versions a)\<rparr>"
    have "key_slots (upd_app i ?g c) = key_slots c" "meta_slots (upd_app i ?g c) = meta_slots c"
      by (rule key_slots_upd_app meta_slots_upd_app; simp add: key_slot_def meta_slot_def)+
    then show "key_slots d = key_slots c" "meta_slots d = meta_slots c"
      by (simp_all add: d_def key_slots_def meta_slots_def)
  qed
  note rep = meta_replace [OF inv i fs(5) _ lM slots]
  have L: "0 < ?L" by simp
  have dinv: "key_invar d" and dM: "meta_bytes d i = M'" and dk: "key_bytes d = key_bytes c"
    and dms: "meta_slices d = meta_slices c"
    and dj: "\<And>j. j < DFC_MAX_APPS \<Longrightarrow> j \<noteq> i \<Longrightarrow> meta_bytes d j = meta_bytes c j"
    using rep [OF L] by (simp_all add: d_def)
  have dslice: "dfc_key_set_metadata_slice d i = Some m"
    using metadata_slice_cong [of d i c] slice by (simp add: app meta_slot_def) (simp add: d_def)
  have dmask: "ks_mask d i = msk"
    using len by (simp add: ks_mask_def counts dM M'_def nth_append)
  have clear: "\<And>b. ?N \<le> b \<Longrightarrow> \<not> bit (ks_mask c i) b" using rdy by (auto simp: key_sets_ready_def)
  note bits = rotated_mask_bits [OF fs(1,2) clear, folded msk_def]
  have ready: "key_sets_ready d i"
    using rdy dinv dslice bits(2) i RK kv by (simp add: key_sets_ready_def counts dmask) (simp add: app)
  have "ks_versions d i = rotate1 (ks_versions c i)" "ks_types d i = rotate1 (ks_types c i)"
    using len by (simp_all add: ks_versions_def ks_types_def counts dM M'_def V_def [symmetric] T_def [symmetric])
  moreover have "ks_flags d i = rotate1 (ks_flags c i)"
    using bits(1) by (intro nth_equalityI) (auto simp: ks_flags_def counts dmask nth_rotate1)
  moreover have "ks_key_versions d i = rotate ?K (ks_key_versions c i)"
  proof -
    have "take ?K (mem_write 0 (take ?K R) ?kv) = take ?K R" using RK by (simp add: mem_write_def)
    moreover have "drop (2 * ?N + 2) M' = drop ?K R @ take ?K ?kv" using len by (simp add: M'_def)
    ultimately have "ks_key_versions d i = take ?K R @ drop ?K R @ take ?K ?kv"
      by (simp add: ks_key_versions_def app dM)
    moreover have "ks_key_versions c i = take ?K ?kv @ R" by (simp add: ks_key_versions_def R_def)
    moreover have "length (take ?K ?kv) = ?K" using kv by simp
    ultimately show ?thesis using rotate_append [of "take ?K ?kv" R] by simp
  qed
  moreover have "ks_keys d i = ks_keys c i" by (simp add: ks_keys_def app) (simp add: d_def)
  moreover have "files_same c d" by (simp add: d_def files_same_def upd_app_def)
  moreover have "c_apps d ! j = c_apps c ! j" if "j \<noteq> i" for j using that by (simp add: d_def)
  ultimately show ?thesis using run ready counts dk dj by blast
qed


lemma rotate_metadata_times_effect:
  assumes "key_sets_ready c i"
  shows "\<exists>c'. rotate_metadata_times n c i = (True, c') \<and> key_sets_ready c' i \<and>
    ks_versions c' i = rotate n (ks_versions c i) \<and> ks_types c' i = rotate n (ks_types c i) \<and>
    ks_flags c' i = rotate n (ks_flags c i) \<and>
    ks_key_versions c' i = rotate (n * key_count c i) (ks_key_versions c i) \<and> ks_keys c' i = ks_keys c i \<and>
    set_count c' i = set_count c i \<and> key_count c' i = key_count c i \<and> key_width c' i = key_width c i \<and>
    key_bytes c' = key_bytes c \<and> files_same c c' \<and>
    (\<forall>j. j < DFC_MAX_APPS \<and> j \<noteq> i \<longrightarrow> c_apps c' ! j = c_apps c ! j \<and> meta_bytes c' j = meta_bytes c j)"
  using assms
proof (induction n arbitrary: c)
  case 0
  then show ?case by simp
next
  case (Suc n)
  obtain c1 where one: "dfc_credential_rotate_key_set_metadata c i = (True, c1)" "key_sets_ready c1 i"
    "ks_versions c1 i = rotate1 (ks_versions c i)" "ks_types c1 i = rotate1 (ks_types c i)"
    "ks_flags c1 i = rotate1 (ks_flags c i)"
    "ks_key_versions c1 i = rotate (key_count c i) (ks_key_versions c i)" "ks_keys c1 i = ks_keys c i"
    "set_count c1 i = set_count c i" "key_count c1 i = key_count c i" "key_width c1 i = key_width c i"
    "key_bytes c1 = key_bytes c" "files_same c c1"
    "\<forall>j. j < DFC_MAX_APPS \<and> j \<noteq> i \<longrightarrow> c_apps c1 ! j = c_apps c ! j \<and> meta_bytes c1 j = meta_bytes c j"
    using rotate_metadata_effect [OF Suc(2)] by blast
  note IH = Suc(1) [OF one(2)]
  show ?case
    using IH one(1,3-13) files_same_trans
    by (auto simp: rotate1_rotate_swap rotate_rotate add.commute)
qed

text \<open>The state of key set \<open>t\<close> as the accessors of the code see it.\<close>

definition key_set_state ::
  "DfcCredential \<Rightarrow> size_t \<Rightarrow> size_t \<Rightarrow>
     u8 option \<times> u8 option \<times> bool \<times> u8 option list \<times> bytes option list" where
  "key_set_state c i t =
     (map_option (\<lambda>p. c_key_set_metadata_pool c ! p) (dfc_credential_key_set_version c i t),
      map_option (\<lambda>p. c_key_set_metadata_pool c ! p) (dfc_credential_key_set_type c i t),
      dfc_credential_key_set_is_initialized c i t,
      map (\<lambda>slot. map_option (\<lambda>r. case r of InApp k \<Rightarrow> a_key_versions (c_apps c ! i) ! k
                                  | InPool p \<Rightarrow> c_key_set_metadata_pool c ! p)
             (dfc_credential_key_version_in_set c i t slot)) [0..<key_count c i],
      map (\<lambda>slot. map_option (\<lambda>p. mem_read p (key_width c i) (c_key_pool c))
             (dfc_credential_key_in_set c i t slot)) [0..<key_count c i])"

lemma mult_add_less: "t < N \<Longrightarrow> slot < K \<Longrightarrow> t * K + slot < N * K" for t N slot K :: nat
proof -
  assume "t < N" "slot < K"
  then have "t * K + slot < Suc t * K" by simp
  also have "\<dots> \<le> N * K" using \<open>t < N\<close> by (intro mult_le_mono1) simp
  finally show ?thesis .
qed

lemma key_set_state_view:
  assumes rdy: "key_sets_ready c i" and t: "t < set_count c i"
  shows "key_set_state c i t =
    (Some (ks_versions c i ! t), Some (ks_types c i ! t), ks_flags c i ! t,
     map (\<lambda>slot. Some (ks_key_versions c i ! (t * key_count c i + slot))) [0..<key_count c i],
     map (\<lambda>slot. Some (ks_keys c i ! (t * key_count c i + slot))) [0..<key_count c i])"
proof -
  have inv: "key_invar c" and i: "i < DFC_MAX_APPS" using rdy by (auto simp: key_sets_ready_def)
  obtain m where slice: "dfc_key_set_metadata_slice c i = Some m" using rdy by (auto simp: key_sets_ready_def)
  let ?N = "set_count c i" and ?K = "key_count c i" and ?M = "meta_bytes c i" and ?w = "key_width c i"
  let ?kv = "a_key_versions (c_apps c ! i)"
  note fs = metadata_slice_facts [OF inv i slice]
  have kv: "?K \<le> length ?kv" using rdy fs(4) by (simp add: key_sets_ready_def DFC_MAX_KEYS_def)
  have v: "c_key_set_metadata_pool c ! (m + t) = ks_versions c i ! t"
    "c_key_set_metadata_pool c ! (m + (?N + t)) = ks_types c i ! t"
    using fs(8) [of t] fs(8) [of "?N + t"] fs(6) t by (simp_all add: ks_versions_def ks_types_def)
  have f: "dfc_credential_key_set_is_initialized c i t = ks_flags c i ! t"
  proof -
    have "(x AND push_bit t 1 \<noteq> 0) = bit x t" for x :: u16
      by (simp add: bit_iff_and_push_bit_not_eq_0)
    then show ?thesis
      using t slice fs(1,6) fs(8) [of "2 * ?N"] fs(8) [of "2 * ?N + 1"]
      by (simp add: dfc_credential_key_set_is_initialized_def Let_def ks_flags_def ks_mask_def
          DFC_KEY_SET_MINIMUM_COUNT_def add.assoc)
  qed
  have kvs: "map_option (\<lambda>r. case r of InApp k \<Rightarrow> ?kv ! k | InPool p \<Rightarrow> c_key_set_metadata_pool c ! p)
      (dfc_credential_key_version_in_set c i t slot) = Some (ks_key_versions c i ! (t * ?K + slot))"
    if s: "slot < ?K" for slot
  proof (cases "t = 0")
    case True
    then show ?thesis
      using s t kv by (simp add: dfc_credential_key_version_in_set_def Let_def ks_key_versions_def nth_append)
  next
    case False
    have le: "(t - 1) * ?K + slot < (?N - 1) * ?K" using False t s by (intro mult_add_less) auto
    have tk: "t * ?K = ?K + (t - 1) * ?K" using False by (cases t) auto
    have "c_key_set_metadata_pool c ! (m + (2 * ?N + 2 + (t - 1) * ?K + slot)) =
        ?M ! (2 * ?N + 2 + (t - 1) * ?K + slot)" by (rule fs(8)) (use le in simp)
    moreover have "ks_key_versions c i ! (t * ?K + slot) = ?M ! (2 * ?N + 2 + (t - 1) * ?K + slot)"
      using kv le fs(6) by (simp add: ks_key_versions_def nth_append tk add.assoc)
    ultimately show ?thesis
      using False s t slice by (simp add: dfc_credential_key_version_in_set_def Let_def)
  qed
  have ks: "map_option (\<lambda>p. mem_read p ?w (c_key_pool c)) (dfc_credential_key_in_set c i t slot) =
      Some (ks_keys c i ! (t * ?K + slot))" if s: "slot < ?K" for slot
  proof -
    have lt: "t * ?K + slot < ?K * ?N" using mult_add_less [OF t s] by (simp add: mult.commute)
    have pl: "unat (a_key_pool_len (c_apps c ! i)) = ?K * ?N * ?w" using rdy by (simp add: key_sets_ready_def)
    have le: "(t * ?K + slot + 1) * ?w \<le> ?K * ?N * ?w" using lt by (intro mult_le_mono1) simp
    have pos: "0 < ?K * ?N * ?w" using fs(1,3) by (simp add: dfc_credential_stored_key_length_def)
    have o: "owner_ok (Some i)" using i by (simp add: owner_ok_def)
    have "unat (a_key_offset (c_apps c ! i)) \<noteq> 65535 \<and>
        unat (a_key_offset (c_apps c ! i)) + ?K * ?N * ?w \<le> unat (c_key_pool_used c)"
      using key_slot_in(2) [of c "Some i"] inv o pl pos
      by (simp add: key_invar_def key_offset_of_def key_pool_len_of_def)
    then show ?thesis
      using s t lt le pl pos
      by (simp add: dfc_credential_key_in_set_def dfc_credential_key_at_def Let_def KEY_NONE_eq ks_keys_def
          block_at_def mult.commute)
  qed
  show ?thesis
    using t slice v f kvs ks
    by (simp add: key_set_state_def dfc_credential_key_set_version_def dfc_credential_key_set_type_def)
qed


lemma key_pool_blocks_view:
  assumes rdy: "key_sets_ready c i"
  shows "unat (a_key_offset (c_apps c ! i)) + key_count c i * set_count c i * key_width c i \<le> key_pool_used c"
    and "key_slices c ! i = (unat (a_key_offset (c_apps c ! i)), key_count c i * set_count c i * key_width c i)"
    and "0 < key_count c i * set_count c i" "key_width c i \<le> DFC_MAX_KEY_LEN"
proof -
  have inv: "key_invar c" and o: "owner_ok (Some i)" using rdy by (auto simp: key_sets_ready_def owner_ok_def)
  obtain m where slice: "dfc_key_set_metadata_slice c i = Some m" using rdy by (auto simp: key_sets_ready_def)
  have wf: "key_wf c" "key_pool_ok c" and i: "i < DFC_MAX_APPS"
    using rdy by (auto simp: key_sets_ready_def key_invar_def)
  note fs = metadata_slice_facts [OF inv i slice]
  show pos: "0 < key_count c i * set_count c i" using fs(1,3) by simp
  have "0 < key_count c i * set_count c i * key_width c i"
    using pos by (simp add: dfc_credential_stored_key_length_def)
  then have pl: "key_pool_len_of c (Some i) = key_count c i * set_count c i * key_width c i"
    "0 < key_pool_len_of c (Some i)"
    using rdy by (simp_all add: key_sets_ready_def key_pool_len_of_def)
  note sl = key_slot_in [OF wf o]
  show "unat (a_key_offset (c_apps c ! i)) + key_count c i * set_count c i * key_width c i \<le> key_pool_used c"
    using sl(2) [OF pl(2)] pl(1) by (simp add: key_offset_of_def key_pool_used_def)
  show "key_slices c ! i = (unat (a_key_offset (c_apps c ! i)), key_count c i * set_count c i * key_width c i)"
    using sl(3) sl(4) [OF pl(2)] pl(1) by (simp add: owner_index_def prod_eq_iff key_offset_of_def)
  show "key_width c i \<le> DFC_MAX_KEY_LEN"
    by (simp add: dfc_credential_stored_key_length_def DFC_MAX_KEY_LEN_def)
qed

text \<open>Replacing the octets of one owner's key slice.\<close>

lemma same_outside_mem_write:
  "same_outside a n mem mem' \<Longrightarrow> a + n \<le> length mem \<Longrightarrow> mem' = mem_write a (mem_read a n mem') mem"
proof -
  assume *: "same_outside a n mem mem'" "a + n \<le> length mem"
  have "mem' = take a mem' @ mem_read a n mem' @ drop (a + n) mem'"
    by (metis append_take_drop_id drop_drop mem_read_def add.commute)
  then show ?thesis using * by (simp add: same_outside_def mem_write_def)
qed

lemma key_slice_replace:
  assumes rdy: "key_sets_ready c i"
    and out: "same_outside (unat (a_key_offset (c_apps c ! i))) (key_count c i * set_count c i * key_width c i)
      (c_key_pool c) pool"
  shows "key_sets_ready (c\<lparr>c_key_pool := pool\<rparr>) i"
    and "\<And>o'. owner_ok o' \<Longrightarrow> o' \<noteq> Some i \<Longrightarrow> key_bytes (c\<lparr>c_key_pool := pool\<rparr>) o' = key_bytes c o'"
proof -
  let ?a = "unat (a_key_offset (c_apps c ! i))" and ?n = "key_count c i * set_count c i * key_width c i"
  let ?d = "c\<lparr>c_key_pool := pool\<rparr>"
  have inv: "key_invar c" and o: "owner_ok (Some i)" using rdy by (auto simp: key_sets_ready_def owner_ok_def)
  have wf: "key_wf c" and ok: "key_pool_ok c" using inv by (auto simp: key_invar_def)
  note bl = key_pool_blocks_view [OF rdy]
  have sz: "?a + ?n \<le> length (c_key_pool c)" using bl(1) pool_ok_used [OF ok] by simp
  have pool: "pool = mem_write ?a (mem_read ?a ?n pool) (c_key_pool c)"
    by (rule same_outside_mem_write [OF out sz])
  have lp: "length pool = length (c_key_pool c)" using out by (simp add: same_outside_def)
  have i': "i < length (key_slices c)" using key_slot_in(6) [OF wf ok o] by (simp add: owner_index_def)
  have ln: "length (mem_read ?a ?n pool) = ?n" using sz lp by simp
  have pos: "0 < ?n" using bl(3) by (simp add: dfc_credential_stored_key_length_def)
  have w: "fst (key_slices c ! i) \<le> ?a"
    "?a + length (mem_read ?a ?n pool) \<le> fst (key_slices c ! i) + snd (key_slices c ! i)"
    "0 < snd (key_slices c ! i)" using bl(2) pos ln by auto
  have v: "key_slices ?d = key_slices c" "key_pool_used ?d = key_pool_used c" "meta_slices ?d = meta_slices c"
    "meta_pool_used ?d = meta_pool_used c" "meta_bytes ?d = meta_bytes c"
    "dfc_key_set_metadata_slice ?d i = dfc_key_set_metadata_slice c i"
    by (simp_all add: key_slices_def key_slots_def key_pool_used_def meta_slices_def meta_slots_def
        meta_pool_used_def meta_bytes_def fun_eq_iff dfc_key_set_metadata_slice_def)
  have "pool_ok (key_slices c) (key_pool_used c) (mem_write ?a (mem_read ?a ?n pool) (c_key_pool c))"
    by (rule pool_ok_write [OF ok i' w])
  then have "key_pool_ok ?d" using v pool by simp
  moreover have "key_wf ?d" "meta_wf ?d"
    using inv lp by (simp_all add: key_invar_def key_wf_def meta_wf_def key_slots_def meta_slots_def)
  ultimately have "key_invar ?d" using inv v by (simp add: key_invar_def)
  then show "key_sets_ready ?d i" using rdy v by (simp add: key_sets_ready_def ks_mask_def)
  show "key_bytes ?d o' = key_bytes c o'" if o': "owner_ok o'" "o' \<noteq> Some i" for o'
  proof -
    have ne: "owner_index o' \<noteq> i"
      using o' o owner_index_key_owner(3) [of o'] owner_index_key_owner(3) [of "Some i"]
      by (auto simp: owner_index_def split: option.splits simp: owner_ok_def)
    have "slice_contents (mem_write ?a (mem_read ?a ?n pool) (c_key_pool c)) (key_slices c ! owner_index o') =
        slice_contents (c_key_pool c) (key_slices c ! owner_index o')"
      by (rule slice_contents_write_other [OF ok i' w key_slot_in(6) [OF wf ok o'(1)] ne])
    then show ?thesis using v pool by (simp add: key_bytes_def)
  qed
qed


lemma dfc_credential_roll_key_set_effect:
  assumes rdy: "key_sets_ready c i" and k: "0 < k" "k < set_count c i"
    and scr: "length scratch = DFC_MAX_KEY_LEN"
  shows "\<exists>c'. dfc_credential_roll_key_set c i k scratch = Some (True, c') \<and> key_sets_ready c' i \<and>
    ks_versions c' i = rotate k (ks_versions c i) \<and> ks_types c' i = rotate k (ks_types c i) \<and>
    ks_flags c' i = rotate k (ks_flags c i) \<and>
    ks_key_versions c' i = rotate (k * key_count c i) (ks_key_versions c i) \<and>
    ks_keys c' i = rotate (k * key_count c i) (ks_keys c i) \<and>
    set_count c' i = set_count c i \<and> key_count c' i = key_count c i \<and>
    unat (a_key_len (c_apps c' ! i)) = dfc_key_set_type_length (ks_types c' i ! 0) \<and> files_same c c' \<and>
    (\<forall>j. j < DFC_MAX_APPS \<and> j \<noteq> i \<longrightarrow> c_apps c' ! j = c_apps c ! j \<and> meta_bytes c' j = meta_bytes c j) \<and>
    (\<forall>o'. owner_ok o' \<and> o' \<noteq> Some i \<longrightarrow> key_bytes c' o' = key_bytes c o')"
proof -
  let ?a = "unat (a_key_offset (c_apps c ! i))" and ?K = "key_count c i" and ?N = "set_count c i"
  let ?w = "key_width c i" and ?n = "key_count c i * set_count c i"
  have inv: "key_invar c" and i: "i < DFC_MAX_APPS" using rdy by (auto simp: key_sets_ready_def)
  note bl = key_pool_blocks_view [OF rdy]
  have b: "?a + ?n * ?w \<le> length (c_key_pool c)"
    using bl(1) pool_ok_used [of "key_slices c" "key_pool_used c" "c_key_pool c"] inv by (simp add: key_invar_def)
  obtain pool where rot: "dfc_rotate_key_blocks_left ?a ?n ?w (k * ?K) scratch (c_key_pool c) =
      Some (pool, replicate DFC_MAX_KEY_LEN 0)"
    and out: "same_outside ?a (?n * ?w) (c_key_pool c) pool"
    and bp: "\<forall>p<?n. block_at ?a ?w pool p = block_at ?a ?w (c_key_pool c) ((p + k * ?K) mod ?n)"
    using dfc_rotate_key_blocks_left_effect [OF bl(3) b bl(4) scr] by blast
  let ?c1 = "c\<lparr>c_key_pool := pool\<rparr>"
  note rp = key_slice_replace [OF rdy out]
  have keys1: "ks_keys ?c1 i = rotate (k * ?K) (ks_keys c i)"
  proof (rule nth_equalityI)
    fix p assume "p < length (ks_keys ?c1 i)"
    then have p: "p < ?n" by (simp add: ks_keys_def)
    then have "(p + k * ?K) mod ?n < ?n" by (intro mod_less_divisor bl(3))
    then show "ks_keys ?c1 i ! p = rotate (k * ?K) (ks_keys c i) ! p"
      using p bp by (simp add: ks_keys_def nth_rotate add.commute)
  qed (simp add: ks_keys_def)
  have v1: "ks_versions ?c1 i = ks_versions c i" "ks_types ?c1 i = ks_types c i" "ks_flags ?c1 i = ks_flags c i"
    "ks_key_versions ?c1 i = ks_key_versions c i" "meta_bytes ?c1 = meta_bytes c" "files_same c ?c1"
    by (simp_all add: ks_versions_def ks_types_def ks_flags_def ks_mask_def ks_key_versions_def meta_bytes_def
        meta_slices_def meta_slots_def files_same_def fun_eq_iff)
  obtain c2 where c2: "rotate_metadata_times k ?c1 i = (True, c2)" "key_sets_ready c2 i"
    "ks_versions c2 i = rotate k (ks_versions c i)" "ks_types c2 i = rotate k (ks_types c i)"
    "ks_flags c2 i = rotate k (ks_flags c i)"
    "ks_key_versions c2 i = rotate (k * ?K) (ks_key_versions c i)" "ks_keys c2 i = ks_keys ?c1 i"
    "set_count c2 i = ?N" "key_count c2 i = ?K" "key_width c2 i = ?w"
    "key_bytes c2 = key_bytes ?c1" "files_same ?c1 c2"
    "\<forall>j. j < DFC_MAX_APPS \<and> j \<noteq> i \<longrightarrow> c_apps c2 ! j = c_apps c ! j \<and> meta_bytes c2 j = meta_bytes c j"
    using rotate_metadata_times_effect [OF rp(1), of k] v1 by auto
  obtain m where slice: "dfc_key_set_metadata_slice c2 i = Some m" using c2(2) by (auto simp: key_sets_ready_def)
  have inv2: "key_invar c2" using c2(2) by (simp add: key_sets_ready_def)
  note fs = metadata_slice_facts [OF inv2 i slice]
  have ty: "dfc_credential_key_set_type c2 i 0 = Some (m + (?N + 0))"
    and tv: "c_key_set_metadata_pool c2 ! (m + (?N + 0)) = ks_types c2 i ! 0"
    using slice k c2(8) fs(8) [of ?N] fs(6) by (simp_all add: dfc_credential_key_set_type_def ks_types_def)
  let ?t = "ks_types c2 i ! 0"
  let ?g = "\<lambda>a. a\<lparr>a_key_len := of_nat (dfc_key_set_type_length ?t),
     a_key_settings_2 := (a_key_settings_2 a AND NOT DFC_KEY_TYPE_MASK) OR dfc_key_type_for_set_type ?t\<rparr>"
  define c3 where "c3 = upd_app i ?g c2"
  have run: "dfc_credential_roll_key_set c i k scratch = Some (True, c3)"
    using k rdy c2(1) ty tv
    by (simp add: dfc_credential_roll_key_set_def Let_def key_sets_ready_def rot c3_def)
  have la: "i < length (c_apps c2)" using i key_invar_length [OF inv2] by simp
  have app: "c_apps c3 ! i = ?g (c_apps c2 ! i)" using la by (simp add: c3_def)
  have g: "key_slot (?g a) = key_slot a" "meta_slot (?g a) = meta_slot a" for a
    by (simp_all add: key_slot_def meta_slot_def)
  note gv = upd_app_key_view [OF g, of i c2, folded c3_def]
  have pools: "c_key_pool c3 = c_key_pool c2" by (simp add: c3_def)
  have v3: "ks_versions c3 i = ks_versions c2 i" "ks_types c3 i = ks_types c2 i" "ks_flags c3 i = ks_flags c2 i"
    "ks_key_versions c3 i = ks_key_versions c2 i" "ks_keys c3 i = ks_keys c2 i" "ks_mask c3 i = ks_mask c2 i"
    by (simp_all add: ks_versions_def ks_types_def ks_flags_def ks_mask_def ks_key_versions_def ks_keys_def
        gv(3) app pools)
  have sl3: "dfc_key_set_metadata_slice c3 i = Some m"
    using metadata_slice_cong [of c3 i c2] slice by (simp add: app meta_slot_def) (simp add: c3_def)
  have rdy3: "key_sets_ready c3 i"
    using c2(2) gv(1) sl3 v3(6) by (simp add: key_sets_ready_def app)
  have tl: "dfc_key_set_type_length ?t < 256"
    by (simp add: dfc_key_set_type_length_def DFC_KEY_SET_MAXIMUM_24_BYTE_def DFC_KEY_SET_MAXIMUM_16_BYTE_def)
  have "files_same c c3" using files_same_trans [OF v1(6) c2(12)] by (simp add: c3_def)
  moreover have "c_apps c3 ! j = c_apps c2 ! j" if "j \<noteq> i" for j using that by (simp add: c3_def)
  moreover have "key_bytes c3 o' = key_bytes c o'" if "owner_ok o'" "o' \<noteq> Some i" for o'
    using gv(2) c2(11) rp(2) [OF that] by simp
  moreover have "unat (a_key_len (c_apps c3 ! i)) = dfc_key_set_type_length (ks_types c3 i ! 0)"
    using tl by (simp add: app v3)
  ultimately show ?thesis
    using run rdy3 v3 c2(3-9,13) keys1 gv(3) by (intro exI [of _ c3]) (simp add: app)
qed


subsection \<open>Properties of key-set rolling\<close>

text \<open>
  C35. The in-place rotation of key blocks always returns, and it computes the left rotation of
  the sequence of blocks for every block count, width and shift, leaving the rest of the pool
  alone and its scratch buffer wiped.
\<close>

theorem dfc_rotate_key_blocks_left_correct:
  assumes n: "0 < block_count" and b: "blocks + block_count * width \<le> length mem"
    and w: "width \<le> DFC_MAX_KEY_LEN" "length scratch = DFC_MAX_KEY_LEN"
  shows "\<exists>mem'. dfc_rotate_key_blocks_left blocks block_count width shift scratch mem =
      Some (mem', replicate DFC_MAX_KEY_LEN 0) \<and>
    map (block_at blocks width mem') [0..<block_count] =
      rotate shift (map (block_at blocks width mem) [0..<block_count]) \<and>
    same_outside blocks (block_count * width) mem mem'"
proof -
  obtain mem' where r: "dfc_rotate_key_blocks_left blocks block_count width shift scratch mem =
      Some (mem', replicate DFC_MAX_KEY_LEN 0)" "same_outside blocks (block_count * width) mem mem'"
    "\<forall>p<block_count. block_at blocks width mem' p = block_at blocks width mem ((p + shift) mod block_count)"
    using dfc_rotate_key_blocks_left_effect [OF n b w] by blast
  have "map (block_at blocks width mem') [0..<block_count] =
      rotate shift (map (block_at blocks width mem) [0..<block_count])"
    using n r(3) by (intro nth_equalityI) (simp_all add: nth_rotate add.commute)
  with r show ?thesis by blast
qed

theorem dfc_rotate_key_blocks_left_correct_witness:
  "\<exists>mem'. dfc_rotate_key_blocks_left 1 3 2 1 (replicate 24 7) [9, 1, 2, 3, 4, 5, 6, 8] =
     Some (mem', replicate 24 0) \<and>
   map (block_at 1 2 mem') [0..<3] = [[3, 4], [5, 6], [1, 2]]"
proof -
  have up: "[0..<3] = [0, 1, 2 :: nat]" by (simp add: upt_rec)
  have "map (block_at 1 2 [9, 1, 2, 3, 4, 5, 6, 8]) [0..<3] = [[1, 2], [3, 4], [5, 6]]"
    by (simp add: up block_at_def mem_read_def)
  then show ?thesis
    using dfc_rotate_key_blocks_left_correct [of 3 1 2 "[9, 1, 2, 3, 4, 5, 6, 8]" "replicate 24 7" 1]
    by (auto simp: DFC_MAX_KEY_LEN_def)
qed

lemma rotate_nth: "t < N \<Longrightarrow> length xs = N \<Longrightarrow> rotate k xs ! t = xs ! ((t + k) mod N)"
  using nth_rotate [of t xs k] by (simp add: add.commute)

lemma rotate_row_nth:
  assumes t: "t < N" and slot: "slot < K" and xs: "length xs = N * K"
  shows "rotate (k * K) xs ! (t * K + slot) = xs ! ((t + k) mod N * K + slot)"
proof -
  have t': "(t + k) mod N < N" using t by (intro mod_less_divisor) simp
  have d: "t + k = (t + k) div N * N + (t + k) mod N" by simp
  have "k * K + (t * K + slot) = (t + k) * K + slot" by (simp add: add_mult_distrib)
  also have "\<dots> = (t + k) div N * (N * K) + ((t + k) mod N * K + slot)"
    by (subst d) (simp only: add_mult_distrib mult.assoc add.assoc)
  finally have eq: "k * K + (t * K + slot) = (t + k) div N * (N * K) + ((t + k) mod N * K + slot)" .
  have "(k * K + (t * K + slot)) mod (N * K) = (t + k) mod N * K + slot"
    unfolding eq using mult_add_less [OF t' slot] by (simp only: mod_mult_self3 mod_less)
  then show ?thesis using nth_rotate [of "t * K + slot" xs "k * K"] mult_add_less [OF t slot] xs by simp
qed

text \<open>
  C34. Rolling to key set \<open>k\<close> returns and renumbers the key sets cyclically: what the code's
  accessors read as set \<open>t\<close> afterwards (version, type, initialised flag, key versions and key
  material) is exactly what they read as set \<open>t + k\<close> before. The active key length
  follows the new active set, and no other application, owner or file changes.
\<close>

theorem dfc_credential_roll_key_set_correct:
  assumes rdy: "key_sets_ready c i" and k: "0 < k" "k < set_count c i"
    and scr: "length scratch = DFC_MAX_KEY_LEN"
  shows "\<exists>c'. dfc_credential_roll_key_set c i k scratch = Some (True, c') \<and> key_sets_ready c' i \<and>
    (\<forall>t < set_count c i. key_set_state c' i t = key_set_state c i ((t + k) mod set_count c i)) \<and>
    unat (a_key_len (c_apps c' ! i)) = dfc_key_set_type_length (ks_types c i ! k) \<and> files_same c c' \<and>
    (\<forall>j. j < DFC_MAX_APPS \<and> j \<noteq> i \<longrightarrow> c_apps c' ! j = c_apps c ! j \<and> meta_bytes c' j = meta_bytes c j) \<and>
    (\<forall>o'. owner_ok o' \<and> o' \<noteq> Some i \<longrightarrow> key_bytes c' o' = key_bytes c o')"
proof -
  let ?N = "set_count c i" and ?K = "key_count c i"
  obtain c' where c': "dfc_credential_roll_key_set c i k scratch = Some (True, c')" "key_sets_ready c' i"
    "ks_versions c' i = rotate k (ks_versions c i)" "ks_types c' i = rotate k (ks_types c i)"
    "ks_flags c' i = rotate k (ks_flags c i)"
    "ks_key_versions c' i = rotate (k * ?K) (ks_key_versions c i)"
    "ks_keys c' i = rotate (k * ?K) (ks_keys c i)"
    "set_count c' i = ?N" "key_count c' i = ?K"
    "unat (a_key_len (c_apps c' ! i)) = dfc_key_set_type_length (ks_types c' i ! 0)" "files_same c c'"
    "\<forall>j. j < DFC_MAX_APPS \<and> j \<noteq> i \<longrightarrow> c_apps c' ! j = c_apps c ! j \<and> meta_bytes c' j = meta_bytes c j"
    "\<forall>o'. owner_ok o' \<and> o' \<noteq> Some i \<longrightarrow> key_bytes c' o' = key_bytes c o'"
    using dfc_credential_roll_key_set_effect [OF rdy k scr] by blast
  have inv: "key_invar c" "i < DFC_MAX_APPS" using rdy by (auto simp: key_sets_ready_def)
  obtain m where slice: "dfc_key_set_metadata_slice c i = Some m" using rdy by (auto simp: key_sets_ready_def)
  note fs = metadata_slice_facts [OF inv slice]
  have kv: "?K \<le> length (a_key_versions (c_apps c ! i))"
    using rdy fs(4) by (simp add: key_sets_ready_def DFC_MAX_KEYS_def)
  have lens: "length (ks_versions c i) = ?N" "length (ks_types c i) = ?N" "length (ks_flags c i) = ?N"
    "length (ks_keys c i) = ?N * ?K" "length (ks_key_versions c i) = ?N * ?K"
  proof -
    have "?N * ?K = ?K + (?N - 1) * ?K" using fs(1) by (cases ?N) auto
    then show "length (ks_key_versions c i) = ?N * ?K" using fs(6) kv by (simp add: ks_key_versions_def)
  qed (use fs(6) in \<open>simp_all add: ks_versions_def ks_types_def ks_flags_def ks_keys_def mult.commute\<close>)
  have "key_set_state c' i t = key_set_state c i ((t + k) mod ?N)" if t: "t < ?N" for t
  proof -
    have t': "(t + k) mod ?N < ?N" using fs(1) by (intro mod_less_divisor) simp
    have t2: "t < set_count c' i" using t c'(8) by simp
    show ?thesis
      unfolding key_set_state_view [OF c'(2) t2] key_set_state_view [OF rdy t'] c'(3-9)
      by (simp add: rotate_nth [OF t lens(1)] rotate_nth [OF t lens(2)] rotate_nth [OF t lens(3)]
          rotate_row_nth [OF t _ lens(4)] rotate_row_nth [OF t _ lens(5)])
  qed
  moreover have "ks_types c' i ! 0 = ks_types c i ! k"
    using c'(4) lens(2) k nth_rotate [of 0 "ks_types c i" k] by simp
  ultimately show ?thesis using c' by auto
qed


subsection \<open>Giving an application key sets\<close>

lemma list_update_pair_mem_write:
  assumes "k + 1 < L" "m + L \<le> length pool"
  shows "pool[m + k := x, m + k + 1 := y] = mem_write m ((mem_read m L pool)[k := x, k + 1 := y]) pool"
proof -
  obtain pre rest where 1: "pool = pre @ rest" "length pre = m"
    using list_split_at [of m pool] assms by auto
  obtain mid post where 2: "rest = mid @ post" "length mid = L"
    using list_split_at [of L rest] 1 assms by auto
  have "mem_read m L pool = mid" using 1 2 by (simp add: mem_read_def)
  moreover have "mem_write m zs pool = pre @ zs @ post" if "length zs = L" for zs
    using 1 2 that by (simp add: mem_write_def)
  moreover have "pool[m + k := x, m + k + 1 := y] = pre @ mid[k := x, k + 1 := y] @ post"
    using 1 2 assms(1) by (simp add: list_update_append)
  ultimately show ?thesis using 2 by simp
qed

lemma initialized_mask_bits:
  assumes "2 \<le> n" "n \<le> 16"
  shows "(if n = 16 then 0xFFFF else push_bit n 1 - 1 :: u16) = mask n"
  using assms by (simp add: mask_eq_exp_minus_1 push_bit_eq_mult)

text \<open>No key operation touches the key versions an application keeps.\<close>

abbreviation all_versions :: "DfcCredential \<Rightarrow> bytes list" where
  "all_versions c \<equiv> map a_key_versions (c_apps c)"

lemma all_versions_setters:
  "all_versions (set_key_offset d app x) = all_versions d"
  "all_versions (set_key_pool_len d app x) = all_versions d"
  "all_versions (set_num_keys d app y) = all_versions d"
  "all_versions (set_key_len d app y) = all_versions d"
  "all_versions (set_key_storage_len d app y) = all_versions d"
  by (cases app; simp add: key_setters map_update_same)+

lemma all_versions_meta_release: "all_versions (dfc_key_set_metadata_release d i) = all_versions d"
  by (intro nth_equalityI) simp_all

lemma all_versions_compact: "all_versions (dfc_key_pool_compact_after_release d a m) = all_versions d"
proof -
  have "a_key_versions (key_offset_shift a m x) = a_key_versions x" for x by (simp add: key_offset_shift_def)
  then show ?thesis by (simp add: dfc_key_pool_compact_after_release_def Let_def)
qed

lemma all_versions_release: "all_versions (dfc_credential_keys_release d app) = all_versions d"
  by (cases app)
    (simp_all add: dfc_credential_keys_release_def Let_def all_versions_compact all_versions_setters
      all_versions_meta_release)

lemma keys_resize_total_versions:
  assumes "key_invar c" "owner_ok app" "dfc_credential_keys_resize_total c app n al kl sl = (True, c')"
  shows "all_versions c' = all_versions c"
proof -
  have c: "key_wf c" "key_pool_ok c" using assms(1) by (auto simp: key_invar_def)
  have pool: "all_versions (d\<lparr>c_key_pool := p, c_key_pool_used := u\<rparr>) = all_versions d" for d p u by simp
  have al: "all_versions (key_alloc d app x) = all_versions d" for d x
    unfolding key_alloc_def pool all_versions_setters ..
  have kc: "all_versions (key_counts d app n kl sl) = all_versions d" for d
    unfolding key_counts_def all_versions_setters ..
  show ?thesis
    using assms(3) unfolding keys_resize_total_eq [OF c assms(2)] Let_def
    by (auto simp: kc al all_versions_setters all_versions_release simp del: list.map split: if_splits)
qed


lemma meta_resize_effect:
  assumes inv: "key_invar c" and i: "i < DFC_MAX_APPS" and n: "0 < n"
    and res: "dfc_key_set_metadata_resize c i n = (ok, c')"
  shows "ok \<longleftrightarrow> meta_pool_used c - snd (meta_slices c ! i) + n \<le> DFC_KEY_SET_METADATA_POOL_SIZE"
    and "\<not> ok \<Longrightarrow> c' = c"
    and "ok \<Longrightarrow> key_invar c' \<and> snd (meta_slices c' ! i) = n \<and> meta_bytes c' i = replicate n 0 \<and>
      key_bytes c' = key_bytes c \<and> files_same c c' \<and> all_versions c' = all_versions c \<and>
      (\<forall>j. j < DFC_MAX_APPS \<and> j \<noteq> i \<longrightarrow> meta_bytes c' j = meta_bytes c j) \<and>
      key_count c' i = key_count c i \<and> a_key_storage_len (c_apps c' ! i) = a_key_storage_len (c_apps c ! i) \<and>
      a_key_pool_len (c_apps c' ! i) = a_key_pool_len (c_apps c ! i) \<and>
      a_key_len (c_apps c' ! i) = a_key_len (c_apps c ! i)"
proof -
  have wf: "meta_wf c" "meta_pool_ok c" and minv: "meta_pool.invar c"
    using inv by (auto simp: key_invar_def meta_pool.invar_def)
  have i': "i < length (meta_slices c)" using i length_meta_slices [OF wf(1)] by simp
  have la: "i < length (c_apps c)" using i key_invar_length [OF inv] by simp
  show iff: "ok \<longleftrightarrow> meta_pool_used c - snd (meta_slices c ! i) + n \<le> DFC_KEY_SET_METADATA_POOL_SIZE"
    using res meta_can_resize_eq [OF wf i, of n] by (auto simp: meta_resize_eq split: if_splits)
  show "\<not> ok \<Longrightarrow> c' = c" using res by (auto simp: meta_resize_eq split: if_splits)
  assume ok: "ok"
  let ?r = "dfc_key_set_metadata_release c i"
  have c': "c' = meta_alloc ?r i n" using res ok n by (auto simp: meta_resize_eq split: if_splits)
  have r: "dfc_key_set_metadata_resize c i n = (True, c')" using res ok by simp
  have ks: "key_slots c' = key_slots c" "c_key_pool c' = c_key_pool c" "c_key_pool_used c' = c_key_pool_used c"
  proof -
    have "key_slots (upd_app i (\<lambda>a. a\<lparr>a_key_set_metadata_offset := x, a_key_set_metadata_len := y\<rparr>) ?r) =
        key_slots ?r" for x y by (rule key_slots_upd_app) (simp add: key_slot_def)
    moreover have "key_slots (d\<lparr>c_key_set_metadata_pool := p, c_key_set_metadata_pool_used := u\<rparr>) = key_slots d"
      for d p u by (simp add: key_slots_def)
    ultimately show "key_slots c' = key_slots c" by (simp only: c' meta_alloc_def meta_release_key_view(1))
  qed (simp_all add: c' meta_alloc_def)
  have app: "c_apps c' ! i = (c_apps ?r ! i)\<lparr>a_key_set_metadata_offset := of_nat (meta_pool_used ?r),
      a_key_set_metadata_len := of_nat n\<rparr>"
    using la by (simp add: c' meta_alloc_def)
  have len: "length (c_apps c') = length (c_apps c)" by (simp add: c' meta_alloc_def)
  have "meta_pool.invar c'" by (rule meta_pool.resize_invar [OF minv i' r])
  then have "key_invar c'"
    using inv ks len by (simp add: key_invar_def meta_pool.invar_def key_wf_def key_slices_def key_pool_used_def)
  moreover have "snd (meta_slices c' ! i) = n" by (rule meta_pool.resize_size [OF minv i' r])
  moreover have "meta_bytes c' i = replicate n 0"
    using meta_pool.resize_fresh [OF minv i' r] by (simp add: meta_bytes_eq)
  moreover have "meta_bytes c' j = meta_bytes c j" if "j < DFC_MAX_APPS" "j \<noteq> i" for j
    using meta_pool.resize_others [OF minv i' r] that length_meta_slices [OF wf(1)] by (simp add: meta_bytes_eq)
  moreover have "key_bytes c' = key_bytes c" using ks by (simp add: key_bytes_def key_slices_def fun_eq_iff)
  moreover have "files_same c c'" by (rule files_same_meta_resize [OF r]) simp
  moreover have "all_versions c' = all_versions c"
  proof -
    have "all_versions (upd_app i (\<lambda>a. a\<lparr>a_key_set_metadata_offset := x, a_key_set_metadata_len := y\<rparr>) ?r) =
        all_versions ?r" for x y by simp (rule map_update_same, simp)
    then show ?thesis using all_versions_meta_release [of c i] by (simp add: c' meta_alloc_def)
  qed
  ultimately show "key_invar c' \<and> snd (meta_slices c' ! i) = n \<and> meta_bytes c' i = replicate n 0 \<and>
      key_bytes c' = key_bytes c \<and> files_same c c' \<and> all_versions c' = all_versions c \<and>
      (\<forall>j. j < DFC_MAX_APPS \<and> j \<noteq> i \<longrightarrow> meta_bytes c' j = meta_bytes c j) \<and>
      key_count c' i = key_count c i \<and> a_key_storage_len (c_apps c' ! i) = a_key_storage_len (c_apps c ! i) \<and>
      a_key_pool_len (c_apps c' ! i) = a_key_pool_len (c_apps c ! i) \<and>
      a_key_len (c_apps c' ! i) = a_key_len (c_apps c ! i)"
    using la by (simp add: app)
qed

lemma metadata_slice_intro:
  assumes inv: "key_invar c" and i: "i < DFC_MAX_APPS"
    and N: "2 \<le> set_count c i" "set_count c i \<le> 16" and K: "0 < key_count c i" "key_count c i \<le> 14"
    and len: "snd (meta_slices c ! i) = 2 * set_count c i + 2 + (set_count c i - 1) * key_count c i"
  shows "dfc_key_set_metadata_slice c i = Some (fst (meta_slices c ! i))"
proof -
  have wf: "meta_wf c" "meta_pool_ok c" using inv by (auto simp: key_invar_def)
  note sl = meta_slot_in [OF wf i]
  have ms: "meta_slices c ! i = slot_slice (meta_slots c ! i)"
    using wf i by (simp add: meta_slices_def meta_slots_def meta_wf_def)
  have l: "unat (a_key_set_metadata_len (c_apps c ! i)) = 2 * set_count c i + 2 + (set_count c i - 1) * key_count c i"
    using slot_slice_eqs(1) [OF sl(1)] ms sl(3) len by simp
  then have nz: "a_key_set_metadata_len (c_apps c ! i) \<noteq> 0" by (metis add_eq_0_iff_both_eq_0 unat_0 zero_neq_numeral)
  have off: "fst (meta_slices c ! i) = unat (a_key_set_metadata_offset (c_apps c ! i))"
    "a_key_set_metadata_offset (c_apps c ! i) \<noteq> SLOT_NONE"
    using slot_slice_eqs(2) [OF sl(1)] ms sl(1,3) nz by (simp_all add: slot_ok_def)
  have el: "dfc_key_set_metadata_length (set_count c i) (key_count c i) =
      2 * set_count c i + 2 + (set_count c i - 1) * key_count c i"
    using N K by (simp add: dfc_key_set_metadata_length_def DFC_KEY_SET_MINIMUM_COUNT_def DFC_MAX_KEY_SETS_def
        DFC_MAX_KEYS_def)
  show ?thesis
    using off sl(2) [OF nz] sl(4) l N(1)
    unfolding dfc_key_set_metadata_slice_def Let_def el META_NONE_eq META_SIZE_eq DFC_KEY_SET_MINIMUM_COUNT_def
    by auto
qed


text \<open>The last steps of the operation, on a credential whose two pools hold the new slices.\<close>

lemma key_sets_initialize:
  assumes inv: "key_invar c" and i: "i < DFC_MAX_APPS"
    and N: "2 \<le> N" "N \<le> 16" and n: "0 < n" "n \<le> 14" "key_count c i = n" and mx: "mx < 256"
    and len: "snd (meta_slices c ! i) = 2 * N + 2 + (N - 1) * n"
    and pl: "unat (a_key_pool_len (c_apps c ! i)) = n * N * dfc_credential_stored_key_length mx"
      "unat (a_key_storage_len (c_apps c ! i)) = mx"
    and kv: "length (a_key_versions (c_apps c ! i)) = DFC_MAX_KEYS"
    and c3: "c3 = upd_app i (\<lambda>a. a\<lparr>a_num_key_sets := of_nat N, a_max_key_size := of_nat mx\<rparr>) c"
  shows "dfc_key_set_metadata_slice c3 i = Some (fst (meta_slices c ! i))"
    and "c' = c3\<lparr>c_key_set_metadata_pool := (c_key_set_metadata_pool c3)
        [fst (meta_slices c ! i) + 2 * N := ucast (mask N :: u16),
         fst (meta_slices c ! i) + 2 * N + 1 := ucast (drop_bit 8 (mask N :: u16))]\<rparr> \<Longrightarrow>
      key_sets_ready c' i \<and> set_count c' i = N \<and> key_count c' i = n \<and> c_apps c' ! i = c_apps c3 ! i \<and>
      ks_mask c' i = mask N \<and> files_same c c' \<and> key_bytes c' = key_bytes c \<and>
      (\<forall>j. j < DFC_MAX_APPS \<and> j \<noteq> i \<longrightarrow> meta_bytes c' j = meta_bytes c j)"
proof -
  let ?g = "\<lambda>a. a\<lparr>a_num_key_sets := of_nat N, a_max_key_size := of_nat mx\<rparr>" and ?m = "fst (meta_slices c ! i)"
  let ?L = "2 * N + 2 + (N - 1) * n"
  have la: "i < length (c_apps c)" using i key_invar_length [OF inv] by simp
  have g: "key_slot (?g a) = key_slot a" "meta_slot (?g a) = meta_slot a" for a
    by (simp_all add: key_slot_def meta_slot_def)
  note gv = upd_app_key_view [OF g, of i c, folded c3]
  have inv3: "key_invar c3" using gv(1) inv by simp
  have app: "c_apps c3 ! i = ?g (c_apps c ! i)" using la by (simp add: c3)
  have cnt: "set_count c3 i = N" "key_count c3 i = n" using N n by (simp_all add: app)
  have sl3: "meta_slices c3 = meta_slices c"
    using meta_slots_upd_app [OF g(2), of i c, folded c3] by (simp add: meta_slices_def)
  show slice: "dfc_key_set_metadata_slice c3 i = Some ?m"
    using metadata_slice_intro [OF inv3 i] cnt N n len by (simp add: sl3)
  note fs = metadata_slice_facts [OF inv3 i slice, unfolded cnt]
  assume c': "c' = c3\<lparr>c_key_set_metadata_pool := (c_key_set_metadata_pool c3)
        [?m + 2 * N := ucast (mask N :: u16), ?m + 2 * N + 1 := ucast (drop_bit 8 (mask N :: u16))]\<rparr>"
  define M where "M = (meta_bytes c3 i)[2 * N := ucast (mask N :: u16), 2 * N + 1 := ucast (drop_bit 8 (mask N :: u16))]"
  have mb: "meta_bytes c3 i = mem_read ?m ?L (c_key_set_metadata_pool c3)"
    by (simp add: meta_bytes_def slice_contents_def fs(5))
  have lM: "length M = ?L" using fs(6) by (simp add: M_def)
  have pool': "c_key_set_metadata_pool c' = mem_write ?m M (c_key_set_metadata_pool c3)"
    using list_update_pair_mem_write [of "2 * N" ?L ?m "c_key_set_metadata_pool c3"] fs(7)
    by (simp add: c' M_def mb)
  have "0 < ?L" by simp
  note rep = meta_replace [OF inv3 i fs(5) this lM, of c']
  have same: "key_slots c' = key_slots c3" "meta_slots c' = meta_slots c3"
    by (simp_all add: c' key_slots_def meta_slots_def)
  have r: "key_invar c'" "meta_bytes c' i = M" "key_bytes c' = key_bytes c3" "meta_slices c' = meta_slices c3"
    "\<And>j. j < DFC_MAX_APPS \<Longrightarrow> j \<noteq> i \<Longrightarrow> meta_bytes c' j = meta_bytes c3 j"
    using rep [OF same] pool' by (simp_all add: c')
  have app': "c_apps c' ! i = c_apps c3 ! i" by (simp add: c')
  have msk: "ks_mask c' i = mask N"
    using fs(6) N by (simp add: ks_mask_def app' cnt r(2) M_def nth_list_update)
  have slice': "dfc_key_set_metadata_slice c' i = Some ?m"
    using metadata_slice_cong [of c' i c3] slice by (simp add: app') (simp add: c')
  have "key_sets_ready c' i"
    using r(1) i slice' kv pl N n
    by (simp add: key_sets_ready_def app' cnt msk bit_mask_iff) (simp add: app)
  moreover have "files_same c c'" by (simp add: c' c3 files_same_def upd_app_def)
  ultimately show "key_sets_ready c' i \<and> set_count c' i = N \<and> key_count c' i = n \<and> c_apps c' ! i = c_apps c3 ! i \<and>
      ks_mask c' i = mask N \<and> files_same c c' \<and> key_bytes c' = key_bytes c \<and>
      (\<forall>j. j < DFC_MAX_APPS \<and> j \<noteq> i \<longrightarrow> meta_bytes c' j = meta_bytes c j)"
    using msk r gv app' cnt by simp
qed

lemma dfc_credential_key_sets_resize_effect:
  assumes inv: "key_invar c" and i: "i < DFC_MAX_APPS"
    and kv: "length (a_key_versions (c_apps c ! i)) = DFC_MAX_KEYS"
    and res: "dfc_credential_key_sets_resize c i N n kl mx = (ok, c')"
  shows "(ok \<longleftrightarrow> 2 \<le> N \<and> N \<le> DFC_MAX_KEY_SETS \<and> 0 < n \<and> n \<le> DFC_MAX_KEYS \<and>
      kl \<le> DFC_MAX_KEY_LEN \<and> mx \<le> DFC_MAX_KEY_LEN \<and>
      meta_pool_used c - snd (meta_slices c ! i) + (2 * N + 2 + (N - 1) * n) \<le> DFC_KEY_SET_METADATA_POOL_SIZE \<and>
      key_pool_used c - key_pool_len_of c (Some i) + n * N * dfc_credential_stored_key_length mx \<le> DFC_KEY_POOL_SIZE) \<and>
    (if ok then key_sets_ready c' i \<and> set_count c' i = N \<and> key_count c' i = n \<and>
       unat (a_key_len (c_apps c' ! i)) = kl \<and> ks_mask c' i = mask N \<and> files_same c c' \<and>
       (\<forall>o'. owner_ok o' \<and> o' \<noteq> Some i \<longrightarrow> key_bytes c' o' = key_bytes c o') \<and>
       (\<forall>j. j < DFC_MAX_APPS \<and> j \<noteq> i \<longrightarrow> meta_bytes c' j = meta_bytes c j)
     else c' = c)"
proof -
  let ?L = "2 * N + 2 + (N - 1) * n" and ?st = "dfc_credential_stored_key_length mx"
  have wf: "key_wf c" "key_pool_ok c" "meta_wf c" "meta_pool_ok c" using inv by (auto simp: key_invar_def)
  have o: "owner_ok (Some i)" using i by (simp add: owner_ok_def)
  show ?thesis
  proof (cases "2 \<le> N \<and> N \<le> 16 \<and> 0 < n \<and> n \<le> 14")
    case False
    then have "dfc_key_set_metadata_length N n = 0"
      by (auto simp: dfc_key_set_metadata_length_def dfc_size_consts)
    then have "ok = False" "c' = c" using res by (auto simp: dfc_credential_key_sets_resize_def Let_def split: if_splits)
    then show ?thesis using False by (auto simp: dfc_size_consts)
  next
    case cond: True
    have L: "dfc_key_set_metadata_length N n = ?L" "0 < ?L"
      using cond by (auto simp: dfc_key_set_metadata_length_def dfc_size_consts)
    have small: "n \<le> SIZE_MAX div N"
    proof -
      have "n * N \<le> 14 * 16" using cond by (intro mult_le_mono) auto
      also have "\<dots> \<le> SIZE_MAX" by (simp add: SIZE_MAX_def)
      finally show ?thesis using cond by (simp add: less_eq_div_iff_mult_less_eq)
    qed
    have can: "dfc_key_set_metadata_can_resize c i ?L \<longleftrightarrow>
        meta_pool_used c - snd (meta_slices c ! i) + ?L \<le> DFC_KEY_SET_METADATA_POOL_SIZE"
      by (rule meta_can_resize_eq [OF wf(3,4) i])
    obtain b c1 where t: "dfc_credential_keys_resize_total c (Some i) n (n * N) kl mx = (b, c1)" by fastforce
    have bcond: "b \<longleftrightarrow> kl \<le> DFC_MAX_KEY_LEN \<and> mx \<le> DFC_MAX_KEY_LEN \<and>
        key_pool_used c - key_pool_len_of c (Some i) + n * N * ?st \<le> DFC_KEY_POOL_SIZE"
      and refuse: "\<not> b \<Longrightarrow> c1 = c"
      using t cond unfolding keys_resize_total_eq [OF wf(1,2) o]
      by (auto simp: Let_def DFC_MAX_KEYS_def split: if_splits)
    show ?thesis
    proof (cases "b \<and> dfc_key_set_metadata_can_resize c i ?L")
      case False
      then have "ok = False" "c' = c"
        using res t refuse cond small L
        by (auto simp: dfc_credential_key_sets_resize_def Let_def dfc_size_consts split: if_splits bool.splits prod.splits)
      then show ?thesis using False can bcond by auto
    next
      case True
      have t': "dfc_credential_keys_resize_total c (Some i) n (n * N) kl mx = (True, c1)" using t True by simp
      note eff = keys_resize_total_effect [OF inv o t' refl] and cnt = keys_resize_total_counts [OF inv o t']
        and ver = keys_resize_total_versions [OF inv o t']
      have mm: "meta_pool_used c1 - snd (meta_slices c1 ! i) + ?L \<le> DFC_KEY_SET_METADATA_POOL_SIZE"
      proof -
        have minv: "meta_pool.invar c" using inv by (simp add: key_invar_eq)
        note rel = keys_release_meta(3) [OF minv o refl] keys_release_meta(4) [OF minv o]
        from keys_resize_total_meta [OF inv o t'] show ?thesis
          using True can rel by (elim disjE) (simp_all add: meta_same_view)
      qed
      obtain ok2 c2 where r: "dfc_key_set_metadata_resize c1 i ?L = (ok2, c2)" by fastforce
      note me = meta_resize_effect [OF eff(1) i L(2) r]
      have ok2: "ok2" using me(1) mm by simp
      note m3 = me(3) [OF ok2]
      have la: "i < length (c_apps c)" using i key_invar_length [OF inv] by simp
      have kv2: "length (a_key_versions (c_apps c2 ! i)) = DFC_MAX_KEYS"
      proof -
        have "all_versions c2 ! i = all_versions c ! i" using m3 ver by simp
        moreover have "length (c_apps c2) = length (c_apps c)" using m3 ver by (metis length_map)
        ultimately show ?thesis using la kv by simp
      qed
      have al: "0 < n * N" using cond by simp
      have f2: "key_count c2 i = n" "unat (a_key_pool_len (c_apps c2 ! i)) = n * N * ?st"
        "unat (a_key_storage_len (c_apps c2 ! i)) = mx" "unat (a_key_len (c_apps c2 ! i)) = kl"
        using m3 cnt(1,2) cnt(3) [OF al] eff(5)
        by (simp_all add: num_keys_of_def key_len_of_def key_storage_len_of_def key_pool_len_of_def)
      have mx: "mx < 256" using cnt(8) by (simp add: DFC_MAX_KEY_LEN_def)
      have N: "2 \<le> N" "N \<le> 16" "0 < n" "n \<le> 14" using cond by auto
      have inv2: "key_invar c2" "snd (meta_slices c2 ! i) = ?L" using m3 by auto
      define c3 where "c3 = upd_app i (\<lambda>a. a\<lparr>a_num_key_sets := of_nat N, a_max_key_size := of_nat mx\<rparr>) c2"
      note ini = key_sets_initialize [OF inv2(1) i N f2(1) mx inv2(2) f2(2,3) kv2 c3_def]
      have msk: "(if N = 16 then 0xFFFF else push_bit N 1 - 1 :: u16) = mask N"
        by (rule initialized_mask_bits [OF N(1,2)])
      have fin: "ok" "c' = c3\<lparr>c_key_set_metadata_pool := (c_key_set_metadata_pool c3)
        [fst (meta_slices c2 ! i) + 2 * N := ucast (mask N :: u16),
         fst (meta_slices c2 ! i) + 2 * N + 1 := ucast (drop_bit 8 (mask N :: u16))]\<rparr>"
        using res cond small L True t' r ok2 ini(1)
        unfolding dfc_credential_key_sets_resize_def Let_def msk L(1)
        by (simp_all add: dfc_size_consts c3_def)
      note fi = ini(2) [OF fin(2)]
      have "unat (a_key_len (c_apps c' ! i)) = kl"
      proof -
        have "i < length (c_apps c2)" using i key_invar_length [OF inv2(1)] by simp
        then have "c_apps c3 ! i = (c_apps c2 ! i)\<lparr>a_num_key_sets := of_nat N, a_max_key_size := of_nat mx\<rparr>"
          by (simp add: c3_def)
        then show ?thesis using fi f2(4) by simp
      qed
      moreover have "files_same c c'"
        using files_same_trans [OF files_same_trans [OF files_same_resize_total [OF t']]] m3 fi by blast
      moreover have "2 \<le> N \<and> N \<le> DFC_MAX_KEY_SETS \<and> 0 < n \<and> n \<le> DFC_MAX_KEYS \<and>
          kl \<le> DFC_MAX_KEY_LEN \<and> mx \<le> DFC_MAX_KEY_LEN \<and>
          meta_pool_used c - snd (meta_slices c ! i) + ?L \<le> DFC_KEY_SET_METADATA_POOL_SIZE \<and>
          key_pool_used c - key_pool_len_of c (Some i) + n * N * ?st \<le> DFC_KEY_POOL_SIZE"
        using True can bcond cond by (simp only: dfc_size_consts simp_thms)
      moreover have "\<forall>o'. owner_ok o' \<and> o' \<noteq> Some i \<longrightarrow> key_bytes c' o' = key_bytes c o'"
        using fi m3 eff(3) by simp
      moreover have "\<forall>j. j < DFC_MAX_APPS \<and> j \<noteq> i \<longrightarrow> meta_bytes c' j = meta_bytes c j"
        using fi m3 eff(4) by simp
      moreover have "key_sets_ready c' i \<and> set_count c' i = N \<and> key_count c' i = n \<and> ks_mask c' i = mask N"
        using fi by blast
      ultimately show ?thesis unfolding if_P [OF fin(1)] using fin(1) by blast
    qed
  qed
qed

text \<open>
  \<^verbatim>\<open>dfc_credential_key_sets_resize\<close> gives an application its key sets exactly when the
  request is within the limits and both pools have room beside the slices of the other
  applications. It then leaves the record ready for rolling, with every set marked initialized,
  and touches no other key slice, no other metadata slice and no file; a refused request changes
  nothing, although the keys are resized before the metadata.
\<close>

theorem dfc_credential_key_sets_resize_correct:
  assumes inv: "key_invar c" and i: "i < DFC_MAX_APPS"
    and kv: "length (a_key_versions (c_apps c ! i)) = DFC_MAX_KEYS"
    and res: "dfc_credential_key_sets_resize c i N n kl mx = (ok, c')"
  shows "(ok \<longleftrightarrow> 2 \<le> N \<and> N \<le> DFC_MAX_KEY_SETS \<and> 0 < n \<and> n \<le> DFC_MAX_KEYS \<and>
      kl \<le> DFC_MAX_KEY_LEN \<and> mx \<le> DFC_MAX_KEY_LEN \<and>
      meta_pool_used c - snd (meta_slices c ! i) + (2 * N + 2 + (N - 1) * n) \<le> DFC_KEY_SET_METADATA_POOL_SIZE \<and>
      key_pool_used c - key_pool_len_of c (Some i) + n * N * dfc_credential_stored_key_length mx \<le> DFC_KEY_POOL_SIZE) \<and>
    (if ok then key_sets_ready c' i \<and> set_count c' i = N \<and> key_count c' i = n \<and>
       unat (a_key_len (c_apps c' ! i)) = kl \<and> ks_mask c' i = mask N \<and> files_same c c' \<and>
       (\<forall>o'. owner_ok o' \<and> o' \<noteq> Some i \<longrightarrow> key_bytes c' o' = key_bytes c o') \<and>
       (\<forall>j. j < DFC_MAX_APPS \<and> j \<noteq> i \<longrightarrow> meta_bytes c' j = meta_bytes c j)
     else c' = c)"
  by (rule dfc_credential_key_sets_resize_effect [OF inv i kv res])

definition rolled_credential :: DfcCredential where
  "rolled_credential = snd (dfc_credential_key_sets_resize zero_credential 0 2 1 16 16)"

lemma zero_meta_pool: "meta_pool_used zero_credential = 0" "snd (meta_slices zero_credential ! 0) = 0"
  by (simp_all add: meta_pool_used_def meta_slices_def meta_slots_def meta_slot_def slot_slice_def
      zero_credential_def zero_application_def DFC_MAX_APPS_def)

lemma zero_versions: "length (a_key_versions (c_apps zero_credential ! 0)) = DFC_MAX_KEYS"
  by (simp add: zero_credential_def zero_application_def DFC_MAX_APPS_def DFC_MAX_KEYS_def)

lemma rolled_resize:
  "dfc_credential_key_sets_resize zero_credential 0 2 1 16 16 = (True, rolled_credential)"
  "key_sets_ready rolled_credential 0" "set_count rolled_credential 0 = 2"
proof -
  obtain ok c' where r: "dfc_credential_key_sets_resize zero_credential 0 2 1 16 16 = (ok, c')" by fastforce
  note eff = dfc_credential_key_sets_resize_effect [OF key_invar_zero _ zero_versions r]
  have ok: "ok"
    using eff by (simp add: zero_meta_pool zero_key_pool dfc_size_consts dfc_credential_stored_key_length_def)
  have c': "c' = rolled_credential" by (simp only: rolled_credential_def r snd_conv)
  show "dfc_credential_key_sets_resize zero_credential 0 2 1 16 16 = (True, rolled_credential)"
    using r ok c' by simp
  show "key_sets_ready rolled_credential 0" "set_count rolled_credential 0 = 2"
    using eff ok by (simp_all add: c' [symmetric] DFC_MAX_APPS_def)
qed

theorem dfc_credential_key_sets_resize_correct_witness:
  "key_sets_ready rolled_credential 0 \<and> ks_mask rolled_credential 0 = 3 \<and>
   files_same zero_credential rolled_credential"
  using dfc_credential_key_sets_resize_correct [OF key_invar_zero _ zero_versions rolled_resize(1)]
  by (simp add: DFC_MAX_APPS_def mask_eq_exp_minus_1)

theorem dfc_credential_roll_key_set_correct_witness:
  "\<exists>c'. dfc_credential_roll_key_set rolled_credential 0 1 (replicate 24 0) = Some (True, c') \<and>
     key_sets_ready c' 0 \<and> key_set_state c' 0 0 = key_set_state rolled_credential 0 1 \<and>
     key_set_state c' 0 1 = key_set_state rolled_credential 0 0"
proof -
  have "length (replicate 24 (0::u8)) = DFC_MAX_KEY_LEN" by (simp add: DFC_MAX_KEY_LEN_def)
  from dfc_credential_roll_key_set_correct [OF rolled_resize(2) _ _ this, of 1]
  obtain c' where "dfc_credential_roll_key_set rolled_credential 0 1 (replicate 24 0) = Some (True, c')"
    "key_sets_ready c' 0"
    "\<forall>t < 2. key_set_state c' 0 t = key_set_state rolled_credential 0 ((t + 1) mod 2)"
    by (auto simp: rolled_resize(3))
  then show ?thesis by (intro exI [of _ c']) simp
qed

end
