(* ===== verification/Dfc_Credential.thy ===== *)
theory Dfc_Credential
  imports Dfc_Materialize Dfc_Key_Sets
begin

text \<open>
  The credential operations of \<^verbatim>\<open>src/dfc_credential.c\<close> above the stores:
  authentication command masks, finding, creating and deleting applications, formatting the
  card and the two initial credentials. A \<^verbatim>\<open>DfcApplication*\<close> is an index.
  The last part is the transition system of all state-changing operations and the invariant
  that holds in every credential they reach.
\<close>

subsection \<open>Authentication commands\<close>

text \<open>The default build compiles every authentication protocol in.\<close>

definition dfc_credential_compiled_auth_commands :: u8 where
  "dfc_credential_compiled_auth_commands =
     DFC_AUTH_COMMAND_D40 OR DFC_AUTH_COMMAND_ISO_NATIVE OR DFC_AUTH_COMMAND_AES OR
     (DFC_AUTH_COMMAND_EV2_FIRST OR DFC_AUTH_COMMAND_EV2_NON_FIRST) OR DFC_AUTH_COMMAND_ISO7816"

definition dfc_credential_possible_auth_commands :: "u8 \<Rightarrow> DfcGeneration \<Rightarrow> u8" where
  "dfc_credential_possible_auth_commands key_settings_2 generation =
     (let ty = key_settings_2 AND DFC_KEY_TYPE_MASK in
      if ty = DFC_KEY_TYPE_AES then
        DFC_AUTH_COMMAND_AES OR
        (if generation \<in> {DfcGenerationEv2, DfcGenerationEv3}
         then DFC_AUTH_COMMAND_EV2_FIRST OR DFC_AUTH_COMMAND_EV2_NON_FIRST else 0)
      else if ty = DFC_KEY_TYPE_3K3DES then DFC_AUTH_COMMAND_ISO_NATIVE
      else DFC_AUTH_COMMAND_D40 OR DFC_AUTH_COMMAND_ISO_NATIVE)"

definition dfc_credential_default_auth_commands :: "u8 \<Rightarrow> DfcGeneration \<Rightarrow> u8" where
  "dfc_credential_default_auth_commands key_settings_2 generation =
     dfc_credential_possible_auth_commands key_settings_2 generation AND
     dfc_credential_compiled_auth_commands"

definition dfc_credential_picc_auth_commands :: "DfcCredential \<Rightarrow> u8" where
  "dfc_credential_picc_auth_commands c =
     (if c_picc_has_auth_commands c then c_picc_auth_commands c
      else dfc_credential_default_auth_commands (c_picc_key_settings_2 c) (card_generation (c_card c)))"

definition dfc_credential_app_auth_commands :: "DfcCredential \<Rightarrow> DfcApplication \<Rightarrow> u8" where
  "dfc_credential_app_auth_commands c app =
     (if a_has_auth_commands app then a_auth_commands app
      else dfc_credential_default_auth_commands (a_key_settings_2 app) (card_generation (c_card c)))"

subsection \<open>Applications\<close>

definition dfc_credential_reset_application :: DfcApplication where
  "dfc_credential_reset_application = zero_application\<lparr>a_key_offset := DFC_KEY_POOL_NONE,
     a_num_key_sets := 1, a_key_set_metadata_offset := DFC_KEY_SET_METADATA_POOL_NONE\<rparr>"

definition dfc_application_clear :: DfcApplication where
  "dfc_application_clear = dfc_credential_reset_application"

definition dfc_credential_get_application :: "DfcCredential \<Rightarrow> size_t \<Rightarrow> size_t option" where
  "dfc_credential_get_application c app_index =
     (if app_index \<ge> unat (c_num_apps c) then None else Some app_index)"

definition dfc_credential_get_primary_application :: "DfcCredential \<Rightarrow> size_t option" where
  "dfc_credential_get_primary_application c = dfc_credential_get_application c 0"

definition dfc_credential_find_application :: "DfcCredential \<Rightarrow> bytes \<Rightarrow> size_t option" where
  "dfc_credential_find_application c aid =
     find_index_from (\<lambda>i. take 3 (a_aid (c_apps c ! i)) = take 3 aid) 0 (unat (c_num_apps c))"

definition dfc_credential_find_application_desfire_order :: "DfcCredential \<Rightarrow> bytes \<Rightarrow> size_t option" where
  "dfc_credential_find_application_desfire_order c aid =
     find_index_from (\<lambda>i. let app = c_apps c ! i in
        aid ! 0 = a_aid app ! 2 \<and> aid ! 1 = a_aid app ! 1 \<and> aid ! 2 = a_aid app ! 0)
       0 (unat (c_num_apps c))"

definition dfc_credential_application_index :: "DfcCredential \<Rightarrow> size_t option \<Rightarrow> size_t" where
  "dfc_credential_application_index c application =
     (case application of
        None \<Rightarrow> SIZE_MAX
      | Some a \<Rightarrow> (case find_index_from (\<lambda>i. i = a) 0 (unat (c_num_apps c)) of
            Some i \<Rightarrow> i | None \<Rightarrow> SIZE_MAX))"

definition dfc_credential_key_length :: "u8 \<Rightarrow> size_t" where
  "dfc_credential_key_length key_settings_2 =
     (let ty = key_settings_2 AND DFC_KEY_TYPE_MASK in
      if ty = DFC_KEY_TYPE_3K3DES then 24 else if ty = DFC_KEY_TYPE_AES then 16 else 16)"

definition dfc_credential_create_application_desfire_order ::
  "DfcCredential \<Rightarrow> bytes \<Rightarrow> u8 \<Rightarrow> u8 \<Rightarrow> size_t option \<times> DfcCredential" where
  "dfc_credential_create_application_desfire_order c aid key_settings_1 key_settings_2 =
     (if unat (c_num_apps c) \<ge> DFC_MAX_APPS then (None, c)
      else if dfc_credential_find_application_desfire_order c aid \<noteq> None then (None, c)
      else
        let num_keys = unat (key_settings_2 AND DFC_NUM_KEYS_MASK) in
        if num_keys = 0 \<or> num_keys > DFC_EV1_MAX_KEYS_PER_APP \<or> num_keys > DFC_MAX_KEYS then (None, c)
        else
          let i = unat (c_num_apps c);
              c1 = upd_app i (\<lambda>_. dfc_application_clear) c
          in case dfc_credential_keys_resize c1 (Some i) num_keys (dfc_credential_key_length key_settings_2) of
               (False, c2) \<Rightarrow> (None, c2)
             | (True, c2) \<Rightarrow>
                 let c3 = c2\<lparr>c_num_apps := c_num_apps c2 + 1\<rparr>;
                     key_type = key_settings_2 AND DFC_KEY_TYPE_MASK;
                     auth = (if key_type = DFC_KEY_TYPE_AES then DFC_CMD_AUTHENTICATE_AES
                             else if key_type = DFC_KEY_TYPE_3K3DES then DFC_CMD_AUTHENTICATE_ISO
                             else DFC_CMD_AUTHENTICATE_LEGACY)
                 in (Some i, upd_app i (\<lambda>app. app\<lparr>
                       a_aid := (a_aid app)[0 := aid ! 2, 1 := aid ! 1, 2 := aid ! 0],
                       a_key_settings_1 := key_settings_1, a_key_settings_2 := key_settings_2,
                       a_auth_command := auth\<rparr>) c3))"

text \<open>
  The loop over the file records of a deleted application: a file of the application is
  released and removed without advancing, another one is renumbered if its owner moves down.
\<close>

function delete_app_files :: "size_t \<Rightarrow> size_t \<Rightarrow> DfcCredential \<Rightarrow> DfcCredential" where
  "delete_app_files app_index i c =
     (if i < unat (c_num_files c) then
        if unat (f_app_index (c_files c ! i)) = app_index
        then delete_app_files app_index i (remove_file_record (dfc_file_release c i) i)
        else delete_app_files app_index (i + 1)
          (if f_app_index (c_files c ! i) \<noteq> DFC_FILE_OWNER_PICC \<and>
              unat (f_app_index (c_files c ! i)) > app_index
           then upd_file i (\<lambda>f. f\<lparr>f_app_index := f_app_index f - 1\<rparr>) c else c)
      else c)"
  by pat_completeness auto

lemma remove_file_record_num [simp]: "c_num_files (remove_file_record c i) = c_num_files c - 1"
  by (simp add: remove_file_record_def Let_def)

lemma unat_minus_one_u8: "0 < unat (x :: u8) \<Longrightarrow> unat (x - 1) = unat x - 1"
  by (metis One_nat_def unat_eq_0 unat_minus_one less_not_refl)

termination delete_app_files
  by (relation "measure (\<lambda>(a, i, c). unat (c_num_files c) - i)") (auto simp: unat_minus_one_u8)

declare delete_app_files.simps [simp del]

definition remove_app_record :: "DfcCredential \<Rightarrow> size_t \<Rightarrow> DfcCredential" where
  "remove_app_record c i =
     (let n = unat (c_num_apps c);
          apps = (if i + 1 < n then mem_move i (i + 1) (n - i - 1) (c_apps c) else c_apps c)
      in c\<lparr>c_num_apps := c_num_apps c - 1,
           c_apps := apps[unat (c_num_apps c - 1) := dfc_credential_reset_application]\<rparr>)"

definition dfc_credential_delete_application_at :: "DfcCredential \<Rightarrow> size_t \<Rightarrow> bool \<times> DfcCredential" where
  "dfc_credential_delete_application_at c app_index =
     (if app_index \<ge> unat (c_num_apps c) then (False, c)
      else (True, remove_app_record
              (delete_app_files app_index 0 (dfc_credential_keys_release c (Some app_index))) app_index))"

text \<open>The parts of a format: the card's keys, the key-set metadata, then the files.\<close>

definition format_picc_keys :: "DfcCredential \<Rightarrow> DfcCredential" where
  "format_picc_keys c =
     (let old_key_used = unat (c_key_pool_used c);
          off = unat (c_picc_key_offset c); len = unat (c_picc_key_pool_len c);
          c1 = (if c_picc_key_offset c \<noteq> DFC_KEY_POOL_NONE \<and> len > 0 \<and> off \<le> old_key_used \<and>
                   len \<le> old_key_used - off
                then c\<lparr>c_key_pool := (if off > 0 then mem_move 0 off len (c_key_pool c) else c_key_pool c),
                       c_picc_key_offset := 0, c_key_pool_used := c_picc_key_pool_len c\<rparr>
                else c\<lparr>c_picc_key_offset := DFC_KEY_POOL_NONE, c_picc_key_pool_len := 0,
                       c_key_pool_used := 0\<rparr>);
          new_used = unat (c_key_pool_used c1)
      in if old_key_used > new_used
         then c1\<lparr>c_key_pool := mem_set new_used 0 (old_key_used - new_used) (c_key_pool c1)\<rparr>
         else c1)"

definition format_picc_metadata :: "DfcCredential \<Rightarrow> DfcCredential" where
  "format_picc_metadata c =
     (if unat (c_key_set_metadata_pool_used c) > 0
      then c\<lparr>c_key_set_metadata_pool := mem_set 0 0 (unat (c_key_set_metadata_pool_used c))
                (c_key_set_metadata_pool c),
             c_key_set_metadata_pool_used := 0\<rparr>
      else c)"

definition format_picc_files :: "DfcCredential \<Rightarrow> DfcCredential" where
  "format_picc_files c =
     (let c1 = (if unat (c_num_files c) > 0
                then c\<lparr>c_files := mem_set 0 zero_file (unat (c_num_files c)) (c_files c)\<rparr> else c);
          c2 = (if unat (c_file_pool_used c1) > 0
                then c1\<lparr>c_file_pool := mem_set 0 0 (unat (c_file_pool_used c1)) (c_file_pool c1)\<rparr>
                else c1)
      in c2\<lparr>c_num_apps := 0, c_num_files := 0, c_file_pool_used := 0\<rparr>)"

definition dfc_credential_format_picc :: "DfcCredential \<Rightarrow> DfcCredential" where
  "dfc_credential_format_picc c =
     format_picc_files ((format_picc_metadata (format_picc_keys c))
       \<lparr>c_apps := replicate DFC_MAX_APPS dfc_credential_reset_application\<rparr>)"

subsection \<open>Whole credentials\<close>

definition dfc_credential_copy_model :: "DfcCredential \<Rightarrow> DfcCredential \<Rightarrow> DfcCredential" where
  "dfc_credential_copy_model c loaded = loaded"

definition dfc_credential_mark_dirty :: "DfcCredential \<Rightarrow> DfcCredential" where
  "dfc_credential_mark_dirty c = c\<lparr>c_dirty := True\<rparr>"

definition dfc_credential_clear_dirty :: "DfcCredential \<Rightarrow> DfcCredential" where
  "dfc_credential_clear_dirty c = c\<lparr>c_dirty := False\<rparr>"

definition dfc_credential_picc_ats_is_consistent :: "DfcCredential \<Rightarrow> bool" where
  "dfc_credential_picc_ats_is_consistent c =
     (if c_picc_ats_len c = 0 then True
      else if unat (c_picc_ats_len c) > DFC_PICC_ATS_MAX then False
      else c_picc_ats c ! 0 = c_picc_ats_len c)"

text \<open>\<^verbatim>\<open>malloc\<close> failing is \<open>None\<close>.\<close>

definition dfc_credential_alloc :: "bool \<Rightarrow> DfcCredential option" where
  "dfc_credential_alloc malloc_ok = (if malloc_ok then Some zero_credential else None)"

definition dfc_credential_clear :: "DfcCredential \<Rightarrow> bool \<times> DfcCredential" where
  "dfc_credential_clear c =
     (let c1 = zero_credential\<lparr>c_picc_key_settings_1 := 0x0F,
            c_picc_key_settings_2 := DFC_KEY_TYPE_DES_2K3DES OR 1,
            c_picc_auth_command := DFC_CMD_AUTHENTICATE_LEGACY,
            c_card := (c_card zero_credential)\<lparr>card_generation := DfcGenerationEv1,
              card_storage := DFC_DEFAULT_CARD_STORAGE, card_uid_provenance := DfcUidProvenanceReal\<rparr>,
            c_apps := map (\<lambda>a. a\<lparr>a_key_offset := DFC_KEY_POOL_NONE, a_num_key_sets := 1,
              a_key_set_metadata_offset := DFC_KEY_SET_METADATA_POOL_NONE\<rparr>) (c_apps zero_credential),
            c_picc_key_offset := DFC_KEY_POOL_NONE\<rparr>
      in (True, snd (dfc_credential_keys_resize c1 None 1 8)))"

text \<open>
  \<^verbatim>\<open>dfc_random_fill\<close> is a port function: its answer for the seven UID octets is the
  argument \<open>random_uid\<close>, \<open>None\<close> when it fails.
\<close>

definition dfc_credential_init_factory :: "bytes option \<Rightarrow> DfcCredential \<Rightarrow> bool \<times> DfcCredential" where
  "dfc_credential_init_factory random_uid c =
     (case random_uid of
        None \<Rightarrow> (False, c)
      | Some uid \<Rightarrow>
          let c1 = snd (dfc_credential_clear c)
          in (True, c1\<lparr>c_uid_len := of_nat DFC_DESFIRE_UID_LEN,
                c_uid := (mem_write 0 uid (c_uid c1))[0 := DFC_DESFIRE_UID_FIRST_BYTE]\<rparr>))"

definition dfc_credential_init_blank :: "bytes option \<Rightarrow> DfcCredential \<Rightarrow> bool \<times> DfcCredential" where
  "dfc_credential_init_blank random_uid c =
     (case dfc_credential_init_factory random_uid c of
        (False, c1) \<Rightarrow> (False, c1)
      | (True, c1) \<Rightarrow>
        (case dfc_credential_create_application_desfire_order c1 [0x01, 0x00, 0x00] 0x0F
                (DFC_KEY_TYPE_DES_2K3DES OR 1) of
           (None, c2) \<Rightarrow> (False, c2)
         | (Some _, c2) \<Rightarrow>
           (case dfc_credential_create_file c2 0 0x00 of
              (None, c3) \<Rightarrow> (False, c3)
            | (Some i, c3) \<Rightarrow>
                let c4 = upd_file i (\<lambda>f. f\<lparr>f_number := 0x00, f_type := 0x00,
                           f_comm_settings := DFC_COMM_PLAIN, f_access_rights := 0x0000,
                           f_data_offset := DFC_FILE_POOL_NONE, f_data_len := 0\<rparr>) c3
                in case dfc_file_set_data_size c4 i DFC_BLANK_FILE_SIZE of
                     (True, c5) \<Rightarrow> (True, c5)
                   | (False, c5) \<Rightarrow>
                       let c6 = upd_file i (\<lambda>f. f\<lparr>f_data_offset := DFC_FILE_POOL_NONE, f_data_len := 0\<rparr>) c5
                       in (False, upd_file i (\<lambda>f. snd (dfc_file_set_declared_size f 0)) c6))))"

text \<open>The whole credential is wiped before its storage is returned.\<close>

definition dfc_credential_free :: "DfcCredential \<Rightarrow> DfcCredential" where
  "dfc_credential_free c = zero_credential"

definition dfc_credential_uid_is_detectable :: "DfcCredential \<Rightarrow> bool" where
  "dfc_credential_uid_is_detectable c = dfc_desfire_uid_is_detectable (c_uid c) (unat (c_uid_len c))"

subsection \<open>The files as a client sees them\<close>

text \<open>A file record without its place in the pool, together with its octets.\<close>

definition file_view :: "DfcCredential \<Rightarrow> (DfcFile \<times> bytes) list" where
  "file_view c = map (\<lambda>f. (file_meta f, slice_contents (c_file_pool c) (file_slice f))) (live_files c)"

lemma file_view_zip:
  "file_view c = zip (map file_meta (live_files c)) (map (slice_contents (c_file_pool c)) (file_slices c))"
  by (simp add: file_view_def file_slices_live zip_map_map comp_def zip_same_conv_map)

lemma length_file_view: "file_invar c \<Longrightarrow> length (file_view c) = unat (c_num_files c)"
  by (simp add: file_view_def length_live_files file_invar_def)

lemma file_view_nth:
  "file_invar c \<Longrightarrow> i < unat (c_num_files c) \<Longrightarrow>
   file_view c ! i = (file_meta (c_files c ! i), file_bytes c i)"
  by (simp add: file_view_def length_live_files file_invar_def live_files_nth file_bytes_def file_slices_nth)

lemma remove_released_file_view:
  assumes inv: "file_invar c" and k: "i < unat (c_num_files c)"
    and c': "c' = remove_file_record (dfc_file_release c i) i"
  shows "file_view c' = take i (file_view c) @ drop (Suc i) (file_view c)"
proof -
  note rem = remove_released_file [OF assms]
  have l: "length (live_files c) = length (file_slices c)" by (simp add: file_slices_live)
  show ?thesis
    unfolding file_view_zip rem(3,4) using l
    by (simp add: zip_append take_zip drop_zip take_map drop_map)
qed

lemma file_meta_app_index [simp]: "f_app_index (file_meta f) = f_app_index f"
  by (simp add: file_meta_def)

lemma file_meta_set_app_index: "file_meta (f\<lparr>f_app_index := x\<rparr>) = (file_meta f)\<lparr>f_app_index := x\<rparr>"
  by (cases f) (simp add: file_meta_def)

text \<open>Changing a record outside its slot changes the view there only.\<close>

lemma upd_file_view:
  assumes inv: "file_invar c" and i: "i < unat (c_num_files c)"
    and g: "f_data_offset (g (c_files c ! i)) = f_data_offset (c_files c ! i)"
      "f_data_len (g (c_files c ! i)) = f_data_len (c_files c ! i)"
  shows "file_invar (upd_file i g c)"
    and "file_view (upd_file i g c) = (file_view c)[i := (file_meta (g (c_files c ! i)), snd (file_view c ! i))]"
proof -
  have wf: "file_wf c" using inv by (simp add: file_invar_def)
  have l: "length (live_files c) = unat (c_num_files c)" by (rule length_live_files [OF wf])
  have live: "live_files (upd_file i g c) = (live_files c)[i := g (c_files c ! i)]"
    by (simp add: live_files_def take_update_swap)
  have sl: "file_slice (g (c_files c ! i)) = file_slice (c_files c ! i)" using g by (simp add: file_slice_def)
  have "(file_slices c)[i := file_slice (c_files c ! i)] = file_slices c"
    by (metis file_slices_nth [OF wf i] list_update_id)
  then have "file_slices (upd_file i g c) = file_slices c"
    by (simp add: file_slices_live live map_update sl)
  moreover have "file_slot_ok (g (c_files c ! i))"
    using file_wf_slot [OF wf i] g by (simp add: file_slot_ok_def)
  then have "file_wf (upd_file i g c)"
    using wf by (simp add: file_wf_def take_update_swap list_all_list_update)
  ultimately show "file_invar (upd_file i g c)" using inv by (simp add: file_invar_def file_pool_used_def)
  show "file_view (upd_file i g c) = (file_view c)[i := (file_meta (g (c_files c ! i)), snd (file_view c ! i))]"
    using i l by (simp add: file_view_def live map_update sl live_files_nth)
qed

definition moved_owner :: "size_t \<Rightarrow> DfcFile \<Rightarrow> DfcFile" where
  "moved_owner app_index f =
     (if f_app_index f \<noteq> DFC_FILE_OWNER_PICC \<and> unat (f_app_index f) > app_index
      then f\<lparr>f_app_index := f_app_index f - 1\<rparr> else f)"

definition without_app_files :: "size_t \<Rightarrow> (DfcFile \<times> bytes) list \<Rightarrow> (DfcFile \<times> bytes) list" where
  "without_app_files app_index xs =
     map (apfst (moved_owner app_index)) (filter (\<lambda>x. unat (f_app_index (fst x)) \<noteq> app_index) xs)"

lemma delete_app_files_effect:
  "file_invar c \<Longrightarrow> i \<le> unat (c_num_files c) \<Longrightarrow> c' = delete_app_files a i c \<Longrightarrow>
   file_invar c' \<and> file_frame c c' \<and>
   file_view c' = take i (file_view c) @ without_app_files a (drop i (file_view c))"
proof (induction a i c arbitrary: c' rule: delete_app_files.induct)
  case (1 a i c)
  let ?V = "file_view c"
  have l: "length ?V = unat (c_num_files c)" by (rule length_file_view [OF 1(3)])
  show ?case
  proof (cases "i < unat (c_num_files c)")
    case False
    then have "c' = c" using 1(5) by (subst (asm) delete_app_files.simps) simp
    then show ?thesis using 1(3,4) False l by (simp add: without_app_files_def)
  next
    case i: True
    have d: "drop i ?V = ?V ! i # drop (Suc i) ?V" using i l by (simp add: Cons_nth_drop_Suc)
    have v: "?V ! i = (file_meta (c_files c ! i), file_bytes c i)" by (rule file_view_nth [OF 1(3) i])
    show ?thesis
    proof (cases "unat (f_app_index (c_files c ! i)) = a")
      case True
      let ?d = "remove_file_record (dfc_file_release c i) i"
      note rem = remove_released_file [OF 1(3) i refl]
      have n: "i \<le> unat (c_num_files ?d)" using i by (simp add: unat_minus_one_u8)
      have c': "c' = delete_app_files a i ?d" using 1(5) i True by (simp add: delete_app_files.simps [of a i c])
      have IH: "file_invar c' \<and> file_frame ?d c' \<and>
          file_view c' = take i (file_view ?d) @ without_app_files a (drop i (file_view ?d))"
        by (rule 1(1) [OF i True rem(1) n c'])
      have "file_view ?d = take i ?V @ drop (Suc i) ?V"
        by (rule remove_released_file_view [OF 1(3) i refl])
      then have "file_view c' = take i ?V @ without_app_files a (drop (Suc i) ?V)"
        using IH i l by simp
      then show ?thesis
        using IH file_frame_trans [OF rem(2)] True v by (simp add: d without_app_files_def)
    next
      case False
      let ?g = "\<lambda>f. f\<lparr>f_app_index := f_app_index f - 1\<rparr>"
      let ?moved = "f_app_index (c_files c ! i) \<noteq> DFC_FILE_OWNER_PICC \<and> unat (f_app_index (c_files c ! i)) > a"
      let ?d = "if ?moved then upd_file i ?g c else c"
      have c': "c' = delete_app_files a (i + 1) ?d"
        using 1(5) i False by (simp add: delete_app_files.simps [of a i c])
      have upd: "file_invar (upd_file i ?g c)"
        "file_view (upd_file i ?g c) = ?V[i := (file_meta (?g (c_files c ! i)), snd (?V ! i))]"
        by (rule upd_file_view [OF 1(3) i]; simp)+
      have dinv: "file_invar ?d" "file_frame c ?d" using 1(3) upd by auto
      have dv: "file_view ?d = ?V[i := apfst (moved_owner a) (?V ! i)]"
      proof (cases ?moved)
        case True
        then show ?thesis using upd(2) by (simp add: v moved_owner_def file_meta_set_app_index)
      next
        case False
        then have "apfst (moved_owner a) (?V ! i) = ?V ! i" by (simp add: v moved_owner_def)
        then show ?thesis unfolding if_not_P [OF False] by simp
      qed
      have n: "i + 1 \<le> unat (c_num_files ?d)" using i by simp
      have IH: "file_invar c' \<and> file_frame ?d c' \<and>
          file_view c' = take (i + 1) (file_view ?d) @ without_app_files a (drop (i + 1) (file_view ?d))"
        by (rule 1(2) [OF i False dinv(1) n c'])
      have "take (i + 1) (file_view ?d) = take i ?V @ [apfst (moved_owner a) (?V ! i)]"
        using i l by (simp add: dv take_Suc_conv_app_nth)
      moreover have "drop (i + 1) (file_view ?d) = drop (Suc i) ?V" by (simp add: dv)
      ultimately have "file_view c' = take i ?V @ without_app_files a (drop i ?V)"
        using IH False by (simp add: d without_app_files_def v)
      then show ?thesis using IH file_frame_trans [OF dinv(2)] by blast
    qed
  qed
qed

subsection \<open>What a key operation leaves alone\<close>

text \<open>
  A key operation writes the key fields of the card, the key pools, the key fields of its
  owner and, in the other applications, only the offsets of slices that move down. A record
  without a slice stays as it is.
\<close>

definition app_static :: "DfcApplication \<Rightarrow> DfcApplication" where
  "app_static a = a\<lparr>a_key_offset := 0, a_key_pool_len := 0, a_num_keys := 0, a_key_len := 0,
     a_key_storage_len := 0, a_key_set_metadata_offset := 0, a_key_set_metadata_len := 0,
     a_num_key_sets := 0, a_max_key_size := 0, a_key_set_settings := 0\<rparr>"

definition app_moved :: "DfcApplication \<Rightarrow> DfcApplication \<Rightarrow> bool" where
  "app_moved a b \<longleftrightarrow>
     b = a\<lparr>a_key_offset := a_key_offset b, a_key_set_metadata_offset := a_key_set_metadata_offset b\<rparr> \<and>
     (a_key_offset a = SLOT_NONE \<longrightarrow> a_key_offset b = SLOT_NONE) \<and>
     (a_key_set_metadata_offset a = SLOT_NONE \<longrightarrow> a_key_set_metadata_offset b = SLOT_NONE)"

definition key_frame :: "size_t option \<Rightarrow> DfcCredential \<Rightarrow> DfcCredential \<Rightarrow> bool" where
  "key_frame app c c' \<longleftrightarrow>
     c' = c\<lparr>c_apps := c_apps c', c_picc_key_offset := c_picc_key_offset c',
       c_picc_key_pool_len := c_picc_key_pool_len c', c_picc_num_keys := c_picc_num_keys c',
       c_picc_key_len := c_picc_key_len c', c_key_pool := c_key_pool c',
       c_key_pool_used := c_key_pool_used c', c_key_set_metadata_pool := c_key_set_metadata_pool c',
       c_key_set_metadata_pool_used := c_key_set_metadata_pool_used c'\<rparr> \<and>
     map app_static (c_apps c') = map app_static (c_apps c) \<and>
     (\<forall>j < length (c_apps c). app \<noteq> Some j \<longrightarrow> app_moved (c_apps c ! j) (c_apps c' ! j))"

lemma app_moved_refl [simp]: "app_moved a a"
  by (simp add: app_moved_def)

lemma app_moved_trans: "app_moved a b \<Longrightarrow> app_moved b d \<Longrightarrow> app_moved a d"
  unfolding app_moved_def by (cases a, cases b, cases d) simp

lemma app_moved_shifts [simp]:
  "app_moved a (key_offset_shift x m a)" "app_moved a (meta_offset_shift x m a)"
  by (simp_all add: app_moved_def key_offset_shift_def meta_offset_shift_def KEY_NONE_eq META_NONE_eq)

lemma key_frame_refl [simp]: "key_frame app c c"
  by (simp add: key_frame_def)

lemma key_frame_trans:
  assumes "key_frame app c d" "key_frame app d e"
  shows "key_frame app c e"
proof -
  have "e = c\<lparr>c_apps := c_apps e, c_picc_key_offset := c_picc_key_offset e,
       c_picc_key_pool_len := c_picc_key_pool_len e, c_picc_num_keys := c_picc_num_keys e,
       c_picc_key_len := c_picc_key_len e, c_key_pool := c_key_pool e,
       c_key_pool_used := c_key_pool_used e, c_key_set_metadata_pool := c_key_set_metadata_pool e,
       c_key_set_metadata_pool_used := c_key_set_metadata_pool_used e\<rparr>"
    using assms unfolding key_frame_def by (cases c, cases d, cases e) simp
  moreover have "length (c_apps d) = length (c_apps c)"
    using assms(1) by (metis key_frame_def length_map)
  ultimately show ?thesis
    using assms app_moved_trans unfolding key_frame_def by metis
qed

lemma key_frame_upd_app:
  assumes "\<And>a. app_static (g a) = app_static a"
  shows "key_frame (Some i) c (upd_app i g c)"
  using map_update_same [of app_static g "c_apps c" i] assms by (simp add: key_frame_def upd_app_def)

lemma app_static_shifts [simp]:
  "app_static (key_offset_shift x m a) = app_static a" "app_static (meta_offset_shift x m a) = app_static a"
  by (simp_all add: app_static_def key_offset_shift_def meta_offset_shift_def)

lemma app_static_aid: "app_static a = app_static b \<Longrightarrow> a_aid a = a_aid b"
  by (cases a, cases b) (simp add: app_static_def)

lemma app_moved_fields:
  "app_moved a b \<Longrightarrow> a_aid b = a_aid a \<and> a_num_keys b = a_num_keys a \<and> app_static b = app_static a"
  by (cases a, cases b) (simp add: app_moved_def app_static_def)

lemma key_frame_setters [simp]:
  "key_frame app c (set_key_offset c app x)" "key_frame app c (set_key_pool_len c app x)"
  "key_frame app c (set_num_keys c app y)" "key_frame app c (set_key_len c app y)"
  "key_frame app c (set_key_storage_len c app y)"
  by (cases app; simp add: key_setters; (rule key_frame_upd_app)?; simp add: key_frame_def app_static_def)+

lemma key_frame_pools [simp]:
  "key_frame app c (c\<lparr>c_key_pool := p, c_key_pool_used := u\<rparr>)"
  "key_frame app c (c\<lparr>c_key_set_metadata_pool := p, c_key_set_metadata_pool_used := u\<rparr>)"
  "key_frame app c (c\<lparr>c_key_set_metadata_pool := p\<rparr>)"
  by (simp_all add: key_frame_def)

lemma key_frame_compact [simp]:
  "key_frame app c (dfc_key_pool_compact_after_release c x m)"
  "key_frame app c (dfc_key_set_metadata_compact_after_release c x m)"
  by (simp_all add: key_frame_def dfc_key_pool_compact_after_release_def
      dfc_key_set_metadata_compact_after_release_def Let_def comp_def)

lemma key_frame_set_meta_slot:
  "key_frame (Some i) c (upd_app i (\<lambda>a. a\<lparr>a_key_set_metadata_offset := x, a_key_set_metadata_len := y\<rparr>) c)"
  by (rule key_frame_upd_app) (simp add: app_static_def)

lemma key_frame_meta_release [simp]: "key_frame (Some i) c (dfc_key_set_metadata_release c i)"
  unfolding dfc_key_set_metadata_release_def Let_def
  by (auto intro: key_frame_set_meta_slot key_frame_trans [OF key_frame_set_meta_slot key_frame_compact(2)])

lemma key_frame_meta_resize:
  "dfc_key_set_metadata_resize c i n = (ok, c') \<Longrightarrow> key_frame (Some i) c c'"
proof -
  have "key_frame (Some i) c (meta_alloc (dfc_key_set_metadata_release c i) i n)"
    unfolding meta_alloc_def
    by (rule key_frame_trans [OF key_frame_meta_release key_frame_trans [OF key_frame_set_meta_slot key_frame_pools(2)]])
  then show "dfc_key_set_metadata_resize c i n = (ok, c') \<Longrightarrow> key_frame (Some i) c c'"
    by (auto simp: meta_resize_eq split: if_splits)
qed

lemma key_frame_release [simp]: "key_frame app c (dfc_credential_keys_release c app)"
proof -
  let ?d = "set_key_len (set_num_keys (set_key_pool_len (set_key_offset c app DFC_KEY_POOL_NONE) app 0) app 0) app 0"
  have d: "key_frame app c ?d"
    by (rule key_frame_trans [OF key_frame_trans [OF key_frame_trans]]) (rule key_frame_setters)+
  have e: "key_frame app c (case app of None \<Rightarrow> ?d
      | Some i \<Rightarrow> dfc_key_set_metadata_release (set_key_storage_len ?d app 0) i)"
  proof (cases app)
    case (Some i)
    have "key_frame (Some i) c (set_key_storage_len ?d app 0)"
      using key_frame_trans [OF d key_frame_setters(5)] by (simp add: Some)
    from key_frame_trans [OF this key_frame_meta_release] show ?thesis by (simp add: Some)
  qed (use d in simp)
  show ?thesis
    using e key_frame_trans [OF e key_frame_compact(1)] by (simp add: dfc_credential_keys_release_def Let_def)
qed

lemma key_frame_resize_total:
  assumes inv: "key_invar c" "owner_ok app"
    and res: "dfc_credential_keys_resize_total c app n al kl sl = (ok, c')"
  shows "key_frame app c c'"
proof -
  have c: "key_wf c" "key_pool_ok c" using inv by (auto simp: key_invar_def)
  have kc: "key_frame app d (key_counts d app n kl sl)" for d
    unfolding key_counts_def by (rule key_frame_trans [OF key_frame_trans]) (rule key_frame_setters)+
  have ka: "key_frame app d (key_alloc d app x)" for d x
    unfolding key_alloc_def
    by (rule key_frame_trans [OF key_frame_trans]) (rule key_frame_setters key_frame_pools)+
  note rel = key_frame_release [of app c]
  have z: "key_frame app c (set_key_len (set_num_keys (dfc_credential_keys_release c app) app (of_nat n)) app (of_nat kl))"
    by (rule key_frame_trans [OF key_frame_trans [OF rel]]) (rule key_frame_setters)+
  have al: "key_frame app c (key_counts (key_alloc (dfc_credential_keys_release c app) app x) app n kl sl)" for x
    by (rule key_frame_trans [OF key_frame_trans [OF rel ka] kc])
  show ?thesis
    using res kc z al unfolding keys_resize_total_eq [OF c inv(2)] Let_def by (auto split: if_splits)
qed

lemma key_frame_keys_resize:
  assumes inv: "key_invar c" "owner_ok app" and res: "dfc_credential_keys_resize c app n kl = (ok, c')"
  shows "key_frame app c c'"
proof -
  obtain b c1 where t: "dfc_credential_keys_resize_total c app n n kl kl = (b, c1)" by fastforce
  note f = key_frame_resize_total [OF inv t]
  show ?thesis
  proof (cases app)
    case None
    then show ?thesis using res t f by (auto simp: dfc_credential_keys_resize_def split: bool.splits)
  next
    case (Some i)
    let ?g = "\<lambda>a. a\<lparr>a_num_key_sets := 1, a_max_key_size := 0, a_key_set_settings := 0\<rparr>"
    have "key_frame (Some i) c1 (upd_app i ?g c1)" by (rule key_frame_upd_app) (simp add: app_static_def)
    then have "key_frame (Some i) c (upd_app i ?g c1)" using key_frame_trans f Some by blast
    then show ?thesis
      using res t f Some by (auto simp: dfc_credential_keys_resize_def split: bool.splits
          dest!: key_frame_meta_resize intro: key_frame_trans)
  qed
qed

lemma key_frame_key_sets_resize:
  assumes inv: "key_invar c" "i < DFC_MAX_APPS" and res: "dfc_credential_key_sets_resize c i N n kl mx = (ok, c')"
  shows "key_frame (Some i) c c'"
proof -
  obtain b c1 where t: "dfc_credential_keys_resize_total c (Some i) n (n * N) kl mx = (b, c1)" by fastforce
  obtain b2 c2 where m: "dfc_key_set_metadata_resize c1 i (dfc_key_set_metadata_length N n) = (b2, c2)" by fastforce
  have "owner_ok (Some i)" using inv(2) by (simp add: owner_ok_def)
  note f = key_frame_resize_total [OF inv(1) this t]
  have f2: "key_frame (Some i) c c2" by (rule key_frame_trans [OF f key_frame_meta_resize [OF m]])
  have f3: "key_frame (Some i) c (upd_app i (\<lambda>a. a\<lparr>a_num_key_sets := x, a_max_key_size := y\<rparr>) c2)" for x y
    by (rule key_frame_trans [OF f2 key_frame_upd_app]) (simp add: app_static_def)
  show ?thesis
    using res t m f f2 f3 key_frame_trans [OF f3 key_frame_pools(3)]
    by (auto simp: dfc_credential_key_sets_resize_def Let_def split: if_splits bool.splits option.splits)
qed

subsection \<open>The invariant of a credential\<close>

text \<open>
  Both stores are well formed, every application slot past the live ones is in its reset
  state, every file belongs to a live application or to the card, and every application's
  array of key versions has its declared length.
\<close>

definition owners_ok :: "DfcCredential \<Rightarrow> bool" where
  "owners_ok c \<longleftrightarrow> (\<forall>f \<in> set (live_files c).
     f_app_index f = DFC_FILE_OWNER_PICC \<or> unat (f_app_index f) < unat (c_num_apps c))"

definition free_slots_reset :: "DfcCredential \<Rightarrow> bool" where
  "free_slots_reset c \<longleftrightarrow>
     (\<forall>j. unat (c_num_apps c) \<le> j \<and> j < DFC_MAX_APPS \<longrightarrow> c_apps c ! j = dfc_credential_reset_application)"

definition apps_ok :: "DfcCredential \<Rightarrow> bool" where
  "apps_ok c \<longleftrightarrow> list_all (\<lambda>a. length (a_key_versions a) = DFC_MAX_KEYS) (c_apps c)"

definition cred_invar :: "DfcCredential \<Rightarrow> bool" where
  "cred_invar c \<longleftrightarrow> file_invar c \<and> key_invar c \<and> unat (c_num_apps c) \<le> DFC_MAX_APPS \<and>
     free_slots_reset c \<and> owners_ok c \<and> apps_ok c"

lemma app_static_versions: "app_static a = app_static b \<Longrightarrow> a_key_versions a = a_key_versions b"
  by (cases a, cases b) (simp add: app_static_def)

lemma key_frame_apps_ok:
  assumes "key_frame app c c'"
  shows "apps_ok c' = apps_ok c"
proof -
  have "map a_key_versions (map app_static (c_apps c')) = map a_key_versions (map app_static (c_apps c))"
    using assms by (simp add: key_frame_def)
  then have "map a_key_versions (c_apps c') = map a_key_versions (c_apps c)" by (simp add: app_static_def comp_def)
  then have "list_all (\<lambda>v. length v = DFC_MAX_KEYS) (map a_key_versions (c_apps c')) =
      list_all (\<lambda>v. length v = DFC_MAX_KEYS) (map a_key_versions (c_apps c))" by simp
  then show ?thesis by (simp add: apps_ok_def list.pred_map comp_def)
qed

lemma reset_slots [simp]:
  "key_slot dfc_credential_reset_application = (SLOT_NONE, 0)"
  "meta_slot dfc_credential_reset_application = (SLOT_NONE, 0)"
  by (simp_all add: dfc_credential_reset_application_def zero_application_def key_slot_def meta_slot_def
      KEY_NONE_eq META_NONE_eq)

lemma reset_versions [simp]: "length (a_key_versions dfc_credential_reset_application) = DFC_MAX_KEYS"
  by (simp add: dfc_credential_reset_application_def zero_application_def DFC_MAX_KEYS_def)

lemma app_moved_reset:
  "app_moved dfc_credential_reset_application b \<Longrightarrow> b = dfc_credential_reset_application"
  by (cases b) (simp add: app_moved_def dfc_credential_reset_application_def zero_application_def
      KEY_NONE_eq META_NONE_eq)

lemma owners_ok_view:
  "owners_ok c \<longleftrightarrow> (\<forall>x \<in> set (file_view c).
     f_app_index (fst x) = DFC_FILE_OWNER_PICC \<or> unat (f_app_index (fst x)) < unat (c_num_apps c))"
  by (simp add: owners_ok_def file_view_def)

lemma files_same_view:
  assumes "files_same c c'"
  shows "file_invar c' = file_invar c" "file_view c' = file_view c" "owners_ok c' = owners_ok c"
    "file_bytes c' i = file_bytes c i"
  using assms by (simp_all add: files_same_def file_invar_def file_wf_def file_slices_def file_pool_used_def
      file_view_def live_files_def owners_ok_def file_bytes_def)

lemma file_frame_keys:
  assumes "file_frame c c'"
  shows "key_invar c' = key_invar c" "key_bytes c' = key_bytes c" "meta_bytes c' = meta_bytes c"
    "c_apps c' = c_apps c" "c_num_apps c' = c_num_apps c"
proof -
  have f: "c_apps c' = c_apps c" "c_num_apps c' = c_num_apps c" "c_key_pool c' = c_key_pool c"
    "c_key_pool_used c' = c_key_pool_used c" "c_key_set_metadata_pool c' = c_key_set_metadata_pool c"
    "c_key_set_metadata_pool_used c' = c_key_set_metadata_pool_used c"
    "c_picc_key_offset c' = c_picc_key_offset c" "c_picc_key_pool_len c' = c_picc_key_pool_len c"
    by (subst assms [unfolded file_frame_def]; simp)+
  then have s: "key_slots c' = key_slots c" "meta_slots c' = meta_slots c"
    by (simp_all add: key_slots_def meta_slots_def)
  show "c_apps c' = c_apps c" "c_num_apps c' = c_num_apps c" using f by auto
  show "key_invar c' = key_invar c" "key_bytes c' = key_bytes c" "meta_bytes c' = meta_bytes c"
    using f s by (simp_all add: key_invar_def key_wf_def meta_wf_def key_slices_def meta_slices_def
        key_pool_used_def meta_pool_used_def key_bytes_def meta_bytes_def fun_eq_iff)
qed

text \<open>Operations of one store keep the invariant of the whole.\<close>

lemma cred_invar_file_step:
  assumes inv: "cred_invar c" and fr: "file_frame c c'" and fi: "file_invar c'" and ow: "owners_ok c'"
  shows "cred_invar c'"
  using inv fi ow file_frame_keys [OF fr] by (simp add: cred_invar_def free_slots_reset_def apps_ok_def)

lemma cred_invar_key_step:
  assumes inv: "cred_invar c" and ki: "key_invar c'" and fs: "files_same c c'"
    and app: "app \<noteq> None \<longrightarrow> the app < unat (c_num_apps c)"
    and others: "\<And>j. j < DFC_MAX_APPS \<Longrightarrow> app \<noteq> Some j \<Longrightarrow> app_moved (c_apps c ! j) (c_apps c' ! j)"
    and vers: "apps_ok c'"
  shows "cred_invar c'"
proof -
  have n: "c_num_apps c' = c_num_apps c" using fs by (simp add: files_same_def)
  have "c_apps c' ! j = dfc_credential_reset_application"
    if j: "unat (c_num_apps c) \<le> j" "j < DFC_MAX_APPS" for j
  proof -
    have "app \<noteq> Some j" using app j(1) by auto
    from others [OF j(2) this] show ?thesis
      using inv j app_moved_reset by (simp add: cred_invar_def free_slots_reset_def)
  qed
  then show ?thesis using inv ki files_same_view [OF fs] n vers by (simp add: cred_invar_def free_slots_reset_def)
qed

lemma key_frame_others:
  "key_frame app c c' \<Longrightarrow> key_invar c \<Longrightarrow> j < DFC_MAX_APPS \<Longrightarrow> app \<noteq> Some j \<Longrightarrow>
   app_moved (c_apps c ! j) (c_apps c' ! j)"
  by (simp add: key_frame_def key_invar_length)

subsection \<open>Deleting an application\<close>

lemma list_remove_nth:
  assumes "i < n" "n \<le> length xs" "j < length xs"
  shows "((if i + 1 < n then mem_move i (i + 1) (n - i - 1) xs else xs)[n - 1 := r]) ! j =
    (if j < i then xs ! j else if j + 1 < n then xs ! (j + 1) else if j + 1 = n then r else xs ! j)"
  using assms by (auto simp: nth_mem_move nth_list_update)

lemma list_remove_eq:
  assumes "i < n" "n \<le> length xs"
  shows "(if i + 1 < n then mem_move i (i + 1) (n - i - 1) xs else xs)[n - 1 := r] =
    take i xs @ take (n - Suc i) (drop (Suc i) xs) @ r # drop n xs" (is "?l = ?r")
proof (rule nth_equalityI)
  show len: "length ?l = length ?r" using assms by auto
  fix j assume "j < length ?l"
  then have j: "j < length xs" using assms by (auto split: if_splits)
  consider "j < i" | "i \<le> j" "j + 1 < n" | "j + 1 = n" | "n \<le> j" using assms(1) by linarith
  then show "?l ! j = ?r ! j"
    unfolding list_remove_nth [OF assms j] using assms j
    by cases (auto simp: nth_append nth_Cons' min_def)
qed

text \<open>
  Closing the array over a record that owns nothing and appending a reset one keeps a pool
  well formed and every other owner's octets.
\<close>

lemma pool_ok_rotate_empty:
  assumes "pool_ok (A @ s # B @ C) used buf" "snd s = 0" "snd r = 0"
  shows "pool_ok (A @ B @ r # C) used buf"
  using pool_ok_insert_empty [of "A @ B" C used buf r] pool_ok_remove [of A s "B @ C" used buf] assms by simp

lemma remove_app_record_keys:
  assumes inv: "key_invar c" and i: "i < unat (c_num_apps c)" and n: "unat (c_num_apps c) \<le> DFC_MAX_APPS"
    and e: "snd (key_slices c ! i) = 0" "snd (meta_slices c ! i) = 0"
    and c': "c' = remove_app_record c i"
  shows "key_invar c'" and "unat (c_num_apps c') = unat (c_num_apps c) - 1"
    and "j < DFC_MAX_APPS \<Longrightarrow> c_apps c' ! j =
      (if j < i then c_apps c ! j else if j + 1 < unat (c_num_apps c) then c_apps c ! (j + 1)
       else if j + 1 = unat (c_num_apps c) then dfc_credential_reset_application else c_apps c ! j)"
    and "key_bytes c' None = key_bytes c None"
    and "j + 1 < unat (c_num_apps c) \<Longrightarrow> key_bytes c' (Some j) = key_bytes c (Some (if j < i then j else j + 1))"
    and "j + 1 < unat (c_num_apps c) \<Longrightarrow> meta_bytes c' j = meta_bytes c (if j < i then j else j + 1)"
proof -
  let ?n = "unat (c_num_apps c)"
  have la: "length (c_apps c) = DFC_MAX_APPS" by (rule key_invar_length [OF inv])
  show n': "unat (c_num_apps c') = ?n - 1"
    using i unat_minus_one_u8 [of "c_num_apps c"] by (simp add: c' remove_app_record_def Let_def)
  have upd: "c_apps c' = (if i + 1 < ?n then mem_move i (i + 1) (?n - i - 1) (c_apps c) else c_apps c)
      [?n - 1 := dfc_credential_reset_application]"
    using i unat_minus_one_u8 [of "c_num_apps c"] by (simp add: c' remove_app_record_def Let_def split del: if_split)
  show "c_apps c' ! j = (if j < i then c_apps c ! j else if j + 1 < ?n then c_apps c ! (j + 1)
      else if j + 1 = ?n then dfc_credential_reset_application else c_apps c ! j)" if "j < DFC_MAX_APPS"
    unfolding upd by (rule list_remove_nth [OF i]) (use n la that in auto)
  have apps: "c_apps c' = take i (c_apps c) @ take (?n - Suc i) (drop (Suc i) (c_apps c)) @
      dfc_credential_reset_application # drop ?n (c_apps c)"
    unfolding upd by (rule list_remove_eq [OF i]) (use n la in simp)
  have p: "c_key_pool c' = c_key_pool c" "c_key_pool_used c' = c_key_pool_used c"
    "c_key_set_metadata_pool c' = c_key_set_metadata_pool c"
    "c_key_set_metadata_pool_used c' = c_key_set_metadata_pool_used c"
    "c_picc_key_offset c' = c_picc_key_offset c" "c_picc_key_pool_len c' = c_picc_key_pool_len c"
    by (simp_all add: c' remove_app_record_def Let_def)
  define A B C where "A = take i (c_apps c)" and "B = take (?n - Suc i) (drop (Suc i) (c_apps c))"
    and "C = drop ?n (c_apps c)"
  have split: "c_apps c = A @ c_apps c ! i # B @ C"
  proof -
    have "c_apps c = take i (c_apps c) @ c_apps c ! i # drop (Suc i) (c_apps c)"
      using i n la by (simp add: id_take_nth_drop)
    moreover have "drop (Suc i) (c_apps c) = B @ C"
      using i append_take_drop_id [of "?n - Suc i" "drop (Suc i) (c_apps c)"] by (simp add: B_def C_def)
    ultimately show ?thesis by (simp add: A_def)
  qed
  have apps': "c_apps c' = A @ B @ dfc_credential_reset_application # C" using apps by (simp add: A_def B_def C_def)
  let ?ks = "\<lambda>a. slot_slice (key_slot a)" and ?ms = "\<lambda>a. slot_slice (meta_slot a)"
  let ?P = "slot_slice (c_picc_key_offset c, c_picc_key_pool_len c)"
  have ks: "key_slices c = map ?ks A @ ?ks (c_apps c ! i) # map ?ks B @ (map ?ks C @ [?P])"
    by (subst key_slices_def, subst key_slots_def, subst split) simp
  have ms: "meta_slices c = map ?ms A @ ?ms (c_apps c ! i) # map ?ms B @ map ?ms C"
    by (subst meta_slices_def, subst meta_slots_def, subst split) simp
  have ks': "key_slices c' = map ?ks A @ map ?ks B @ (0, 0) # (map ?ks C @ [?P])"
    by (simp add: key_slices_def key_slots_def apps' p)
  have ms': "meta_slices c' = map ?ms A @ map ?ms B @ (0, 0) # map ?ms C"
    by (simp add: meta_slices_def meta_slots_def apps')
  have lA: "length A = i" using i n la by (simp add: A_def)
  have ei: "snd (?ks (c_apps c ! i)) = 0" "snd (?ms (c_apps c ! i)) = 0"
    using e by (simp_all add: ks ms lA nth_append)
  have "key_pool_ok c'" "meta_pool_ok c'"
    using pool_ok_rotate_empty [OF _ ei(1)] pool_ok_rotate_empty [OF _ ei(2)] inv
    by (simp_all add: key_invar_def ks ms ks' ms' p key_pool_used_def meta_pool_used_def)
  moreover have "list_all slot_ok (key_slots c')" "list_all slot_ok (meta_slots c')"
  proof -
    have "list_all slot_ok (key_slots c)" "list_all slot_ok (meta_slots c)"
      using inv by (auto simp: key_invar_def key_wf_def meta_wf_def)
    then have "list_all (\<lambda>a. slot_ok (key_slot a)) (A @ c_apps c ! i # B @ C)"
      "list_all (\<lambda>a. slot_ok (meta_slot a)) (A @ c_apps c ! i # B @ C)"
      "slot_ok (c_picc_key_offset c, c_picc_key_pool_len c)"
      unfolding split [symmetric] by (simp_all add: key_slots_def meta_slots_def list_all_iff)
    then show "list_all slot_ok (key_slots c')" "list_all slot_ok (meta_slots c')"
      by (auto simp: key_slots_def meta_slots_def apps' p list_all_iff)
  qed
  moreover have la': "length (c_apps c') = DFC_MAX_APPS"
    using arg_cong [OF split, of length] la by (simp add: apps')
  ultimately show "key_invar c'" using inv p by (simp add: key_invar_def key_wf_def meta_wf_def)
  have lB: "length B = ?n - Suc i" using i n la by (simp add: B_def)
  have lC: "length C = DFC_MAX_APPS - ?n" using la by (simp add: C_def)
  show "key_bytes c' None = key_bytes c None"
  proof -
    have "key_slices d ! DFC_MAX_APPS = slot_slice (c_picc_key_offset d, c_picc_key_pool_len d)"
      if "length (c_apps d) = DFC_MAX_APPS" for d
      using that by (simp add: key_slices_def key_slots_def nth_append)
    then show ?thesis using la la' p by (simp add: key_bytes_def owner_index_def)
  qed
  have in_B: "j - i < ?n - Suc i" if "j + 1 < ?n" "\<not> j < i" using that by linarith
  show "key_bytes c' (Some j) = key_bytes c (Some (if j < i then j else j + 1))" if "j + 1 < ?n"
    using in_B [OF that] by (auto simp: key_bytes_def owner_index_def ks ks' p nth_append lA lB)
  show "meta_bytes c' j = meta_bytes c (if j < i then j else j + 1)" if "j + 1 < ?n"
    using in_B [OF that] by (auto simp: meta_bytes_def ms ms' p nth_append lA lB)
qed

text \<open>Everything outside the two stores is unchanged.\<close>

definition stores_frame :: "DfcCredential \<Rightarrow> DfcCredential \<Rightarrow> bool" where
  "stores_frame c c' \<longleftrightarrow>
     c' = c\<lparr>c_num_apps := c_num_apps c', c_apps := c_apps c', c_picc_key_offset := c_picc_key_offset c',
       c_picc_key_pool_len := c_picc_key_pool_len c', c_picc_num_keys := c_picc_num_keys c',
       c_picc_key_len := c_picc_key_len c', c_key_pool := c_key_pool c',
       c_key_pool_used := c_key_pool_used c', c_key_set_metadata_pool := c_key_set_metadata_pool c',
       c_key_set_metadata_pool_used := c_key_set_metadata_pool_used c', c_num_files := c_num_files c',
       c_files := c_files c', c_file_pool := c_file_pool c', c_file_pool_used := c_file_pool_used c'\<rparr>"

lemma stores_frame_uid: "stores_frame c c' \<Longrightarrow> c_uid c' = c_uid c \<and> c_uid_len c' = c_uid_len c"
  unfolding stores_frame_def by (cases c, cases c') simp

lemma stores_frame_trans: "stores_frame c d \<Longrightarrow> stores_frame d e \<Longrightarrow> stores_frame c e"
  unfolding stores_frame_def by (cases c, cases d, cases e) simp

lemma key_frame_stores: "key_frame app c c' \<Longrightarrow> stores_frame c c'"
  unfolding key_frame_def stores_frame_def by (cases c, cases c') simp

lemma file_frame_stores: "file_frame c c' \<Longrightarrow> stores_frame c c'"
  unfolding file_frame_def stores_frame_def by (cases c, cases c') simp

lemma stores_frame_remove_app: "stores_frame c (remove_app_record c i)"
  by (simp add: stores_frame_def remove_app_record_def Let_def)

lemma keys_release_effect:
  assumes inv: "key_invar c" and o: "owner_ok app" and c': "c' = dfc_credential_keys_release c app"
  shows "key_invar c'" and "snd (key_slices c' ! owner_index app) = 0"
    and "app = Some i \<Longrightarrow> snd (meta_slices c' ! i) = 0"
    and "owner_ok o' \<Longrightarrow> o' \<noteq> app \<Longrightarrow> key_bytes c' o' = key_bytes c o'"
    and "j < DFC_MAX_APPS \<Longrightarrow> app \<noteq> Some j \<Longrightarrow> meta_bytes c' j = meta_bytes c j"
proof -
  have kinv: "key_pool.invar c" and minv: "meta_pool.invar c" using inv by (auto simp: key_invar_eq)
  have wf: "key_wf c" "key_pool_ok c" using inv by (auto simp: key_invar_def)
  note idx = key_slot_in(6) [OF wf]
  have own: "key_owner (owner_index app) = app"
    using o by (auto simp: key_owner_def owner_index_def owner_ok_def split: option.splits)
  note rel = key_pool.release_invar [OF kinv idx [OF o]] key_pool.release_slice_empty [OF kinv idx [OF o]]
  note relm = keys_release_meta [OF minv o]
  show "key_invar c'" using rel(1) relm(1) own by (simp add: key_invar_eq c')
  show "snd (key_slices c' ! owner_index app) = 0" using rel(2) own by (simp add: c')
  show "snd (meta_slices c' ! i) = 0" if "app = Some i" using relm(3) [OF that] by (simp add: c')
  show "key_bytes c' o' = key_bytes c o'" if "owner_ok o'" "o' \<noteq> app"
  proof -
    have "owner_index o' \<noteq> owner_index app"
      using that o by (auto simp: owner_index_def owner_ok_def split: option.splits)
    then show ?thesis
      using key_pool.release_contents [OF kinv idx [OF o] idx [OF that(1)]] own
      by (simp add: key_bytes_eq c')
  qed
  show "meta_bytes c' j = meta_bytes c j" if "j < DFC_MAX_APPS" "app \<noteq> Some j"
    using relm(2) [OF that] by (simp add: meta_bytes_eq c')
qed

abbreviation skip_app :: "size_t \<Rightarrow> size_t \<Rightarrow> size_t" where
  "skip_app i j \<equiv> (if j < i then j else j + 1)"

lemma delete_application_effect:
  assumes inv: "cred_invar c" and i: "i < unat (c_num_apps c)"
    and res: "dfc_credential_delete_application_at c i = (ok, c')"
  shows "ok" and "cred_invar c'" and "stores_frame c c'"
    and "unat (c_num_apps c') = unat (c_num_apps c) - 1"
    and "file_view c' = without_app_files i (file_view c)"
    and "key_bytes c' None = key_bytes c None"
    and "j + 1 < unat (c_num_apps c) \<Longrightarrow> app_moved (c_apps c ! skip_app i j) (c_apps c' ! j) \<and>
      key_bytes c' (Some j) = key_bytes c (Some (skip_app i j)) \<and> meta_bytes c' j = meta_bytes c (skip_app i j)"
proof -
  let ?n = "unat (c_num_apps c)"
  have fi: "file_invar c" and ki: "key_invar c" and n: "?n \<le> DFC_MAX_APPS" and free: "free_slots_reset c"
    and ow: "owners_ok c" using inv by (auto simp: cred_invar_def)
  have o: "owner_ok (Some i)" using i n by (simp add: owner_ok_def)
  define c1 where "c1 = dfc_credential_keys_release c (Some i)"
  define c2 where "c2 = delete_app_files i 0 c1"
  have c': "ok" "c' = remove_app_record c2 i"
    using res i by (auto simp: dfc_credential_delete_application_at_def c1_def c2_def)
  show "ok" by (rule c')
  note r = keys_release_effect [OF ki o c1_def]
  have kf: "key_frame (Some i) c c1" by (simp add: c1_def)
  have fs: "files_same c c1" by (simp add: c1_def)
  note fv1 = files_same_view [OF fs]
  have fi1: "file_invar c1" using fi fv1 by simp
  have d: "file_invar c2" "file_frame c1 c2" "file_view c2 = without_app_files i (file_view c)"
    using delete_app_files_effect [OF fi1 _ c2_def] fv1(2) by auto
  note k2 = file_frame_keys [OF d(2)]
  have n2: "c_num_apps c2 = c_num_apps c" using k2(5) fs by (simp add: files_same_def)
  have slots: "key_slices c2 = key_slices c1" "meta_slices c2 = meta_slices c1"
  proof -
    have "c_picc_key_offset c2 = c_picc_key_offset c1" "c_picc_key_pool_len c2 = c_picc_key_pool_len c1"
      by (subst d(2) [unfolded file_frame_def]; simp)+
    then show "key_slices c2 = key_slices c1" "meta_slices c2 = meta_slices c1"
      using k2(4) by (simp_all add: key_slices_def key_slots_def meta_slices_def meta_slots_def)
  qed
  have e: "snd (key_slices c2 ! i) = 0" "snd (meta_slices c2 ! i) = 0"
    using r(2) r(3) [OF refl] by (simp_all add: slots owner_index_def)
  have ki2: "key_invar c2" using r(1) k2(1) by simp
  have i2: "i < unat (c_num_apps c2)" and nn2: "unat (c_num_apps c2) \<le> DFC_MAX_APPS" using i n n2 by simp_all
  note rem = remove_app_record_keys [OF ki2 i2 nn2 e c'(2), unfolded n2]
  show num: "unat (c_num_apps c') = ?n - 1" by (rule rem(2))
  have la: "length (c_apps c) = DFC_MAX_APPS" "length (c_apps c2) = DFC_MAX_APPS"
    by (rule key_invar_length [OF ki], rule key_invar_length [OF ki2])
  have moved: "app_moved (c_apps c ! j) (c_apps c2 ! j)" if "j < DFC_MAX_APPS" "j \<noteq> i" for j
    using key_frame_others [OF kf ki that(1)] that k2(4) by simp
  have apps: "c_apps c' ! j = (if j + 1 < ?n then c_apps c2 ! skip_app i j
      else if j + 1 = ?n then dfc_credential_reset_application else c_apps c2 ! j)" if "j < DFC_MAX_APPS" for j
    unfolding rem(3) [OF that] using i by auto
  have reset: "c_apps c' ! j = dfc_credential_reset_application" if j: "?n - 1 \<le> j" "j < DFC_MAX_APPS" for j
  proof (cases "j + 1 = ?n")
    case True then show ?thesis using apps [OF j(2)] by simp
  next
    case False
    then have "?n \<le> j" using j by linarith
    then have "c_apps c ! j = dfc_credential_reset_application" "j \<noteq> i"
      using free j i by (auto simp: free_slots_reset_def)
    then have "c_apps c2 ! j = dfc_credential_reset_application"
      using moved [OF j(2)] app_moved_reset by simp
    then show ?thesis using apps [OF j(2)] \<open>?n \<le> j\<close> by simp
  qed
  have files': "files_same c2 (c'\<lparr>c_num_apps := c_num_apps c2\<rparr>)"
    by (simp add: c' remove_app_record_def Let_def files_same_def)
  have fv: "file_invar c'" "file_view c' = file_view c2"
  proof -
    have "file_invar (c'\<lparr>c_num_apps := x\<rparr>) = file_invar c'" "file_view (c'\<lparr>c_num_apps := x\<rparr>) = file_view c'" for x
      by (simp_all add: file_invar_def file_wf_def file_slices_def file_pool_used_def file_view_def live_files_def)
    then show "file_invar c'" "file_view c' = file_view c2"
      using files_same_view [OF files'] d(1) by simp_all
  qed
  show view: "file_view c' = without_app_files i (file_view c)" using fv d(3) by simp
  have "owners_ok c'"
    unfolding owners_ok_view view without_app_files_def
  proof (clarsimp simp: num)
    fix f b
    assume x: "(f, b) \<in> set (file_view c)" "unat (f_app_index f) \<noteq> i"
      "\<not> unat (f_app_index (moved_owner i f)) < ?n - Suc 0"
    have "f_app_index f = DFC_FILE_OWNER_PICC \<or> unat (f_app_index f) < ?n"
      using ow x(1) unfolding owners_ok_view by fastforce
    then show "f_app_index (moved_owner i f) = DFC_FILE_OWNER_PICC"
      using x(2,3) i unat_minus_one_u8 [of "f_app_index f"] by (auto simp: moved_owner_def split: if_splits)
  qed
  moreover have "apps_ok c'"
  proof -
    have "apps_ok c2" using inv key_frame_apps_ok [OF kf] k2(4) by (simp add: cred_invar_def apps_ok_def)
    then have v: "length (a_key_versions (c_apps c2 ! j)) = DFC_MAX_KEYS" if "j < DFC_MAX_APPS" for j
      using that la(2) by (simp add: apps_ok_def list_all_length)
    have "length (a_key_versions (c_apps c' ! j)) = DFC_MAX_KEYS" if "j < DFC_MAX_APPS" for j
      using that v n unfolding rem(3) [OF that] by auto
    then show ?thesis using key_invar_length [OF rem(1)] by (simp add: apps_ok_def list_all_length)
  qed
  ultimately show "cred_invar c'"
    using rem(1) fv(1) num n reset by (simp add: cred_invar_def free_slots_reset_def)
  show "stores_frame c c'"
    using stores_frame_trans [OF stores_frame_trans [OF key_frame_stores [OF kf] file_frame_stores [OF d(2)]]]
      stores_frame_remove_app by (simp add: c'(2))
  show "key_bytes c' None = key_bytes c None"
    using rem(4) k2(2) r(4) [of None] by (simp add: owner_ok_def)
  show "app_moved (c_apps c ! skip_app i j) (c_apps c' ! j) \<and>
      key_bytes c' (Some j) = key_bytes c (Some (skip_app i j)) \<and> meta_bytes c' j = meta_bytes c (skip_app i j)"
    if j: "j + 1 < ?n"
  proof -
    have s: "skip_app i j < DFC_MAX_APPS" "skip_app i j \<noteq> i" using j n i by auto
    have "c_apps c' ! j = c_apps c2 ! skip_app i j" using apps [of j] j n by simp
    moreover have "key_bytes c2 (Some (skip_app i j)) = key_bytes c (Some (skip_app i j))"
      using r(4) [of "Some (skip_app i j)"] s k2(2) by (simp add: owner_ok_def)
    moreover have "meta_bytes c2 (skip_app i j) = meta_bytes c (skip_app i j)"
      using r(5) [of "skip_app i j"] s k2(3) by simp
    ultimately show ?thesis using moved [OF s] rem(5,6) [OF j] by simp
  qed
qed

subsection \<open>Creating an application\<close>

lemma num_apps_irrelevant [simp]:
  "key_invar (c\<lparr>c_num_apps := x\<rparr>) = key_invar c" "key_bytes (c\<lparr>c_num_apps := x\<rparr>) = key_bytes c"
  "meta_bytes (c\<lparr>c_num_apps := x\<rparr>) = meta_bytes c" "file_invar (c\<lparr>c_num_apps := x\<rparr>) = file_invar c"
  "file_view (c\<lparr>c_num_apps := x\<rparr>) = file_view c"
  by (simp_all add: key_invar_def key_wf_def meta_wf_def key_slices_def meta_slices_def key_slots_def
      meta_slots_def key_pool_used_def meta_pool_used_def key_bytes_def meta_bytes_def fun_eq_iff
      file_invar_def file_wf_def file_slices_def file_pool_used_def file_view_def live_files_def)

lemma files_upd_app [simp]:
  "file_invar (upd_app i g c) = file_invar c" "file_view (upd_app i g c) = file_view c"
  by (simp_all add: upd_app_def file_invar_def file_wf_def file_slices_def file_pool_used_def file_view_def
      live_files_def)

definition new_application :: "DfcApplication \<Rightarrow> bytes \<Rightarrow> u8 \<Rightarrow> u8 \<Rightarrow> DfcApplication" where
  "new_application app aid ks1 ks2 = app\<lparr>a_aid := (a_aid app)[0 := aid ! 2, 1 := aid ! 1, 2 := aid ! 0],
     a_key_settings_1 := ks1, a_key_settings_2 := ks2,
     a_auth_command := (if ks2 AND DFC_KEY_TYPE_MASK = DFC_KEY_TYPE_AES then DFC_CMD_AUTHENTICATE_AES
       else if ks2 AND DFC_KEY_TYPE_MASK = DFC_KEY_TYPE_3K3DES then DFC_CMD_AUTHENTICATE_ISO
       else DFC_CMD_AUTHENTICATE_LEGACY)\<rparr>"

lemma new_application_slots [simp]:
  "key_slot (new_application a aid x y) = key_slot a" "meta_slot (new_application a aid x y) = meta_slot a"
  by (simp_all add: new_application_def key_slot_def meta_slot_def)

definition create_app_allowed :: "DfcCredential \<Rightarrow> bytes \<Rightarrow> u8 \<Rightarrow> bool" where
  "create_app_allowed c aid ks2 \<longleftrightarrow> unat (c_num_apps c) < DFC_MAX_APPS \<and>
     dfc_credential_find_application_desfire_order c aid = None \<and>
     0 < unat (ks2 AND DFC_NUM_KEYS_MASK) \<and> unat (ks2 AND DFC_NUM_KEYS_MASK) \<le> DFC_MAX_KEYS \<and>
     key_pool_used c + unat (ks2 AND DFC_NUM_KEYS_MASK) *
       dfc_credential_stored_key_length (dfc_credential_key_length ks2) \<le> DFC_KEY_POOL_SIZE"

lemma key_length_cases: "dfc_credential_key_length ks2 \<in> {16, 24}"
  by (simp add: dfc_credential_key_length_def Let_def)

lemma create_application_cases:
  assumes inv: "cred_invar c"
    and res: "dfc_credential_create_application_desfire_order c aid ks1 ks2 = (r, c')"
  obtains (refused) "\<not> create_app_allowed c aid ks2" "r = None" "c' = c"
  | (created) c2 where "create_app_allowed c aid ks2" "r = Some (unat (c_num_apps c))"
      "dfc_credential_keys_resize c (Some (unat (c_num_apps c))) (unat (ks2 AND DFC_NUM_KEYS_MASK))
         (dfc_credential_key_length ks2) = (True, c2)"
      "c' = upd_app (unat (c_num_apps c)) (\<lambda>a. new_application a aid ks1 ks2) (c2\<lparr>c_num_apps := c_num_apps c2 + 1\<rparr>)"
proof -
  let ?n = "unat (c_num_apps c)" and ?k = "unat (ks2 AND DFC_NUM_KEYS_MASK)"
  let ?l = "dfc_credential_key_length ks2"
  consider "?n \<ge> DFC_MAX_APPS \<or> dfc_credential_find_application_desfire_order c aid \<noteq> None \<or> ?k = 0 \<or> ?k > DFC_MAX_KEYS"
    | (go) "?n < DFC_MAX_APPS" "dfc_credential_find_application_desfire_order c aid = None" "0 < ?k" "?k \<le> DFC_MAX_KEYS"
    by linarith
  then show ?thesis
  proof cases
    case 1
    then show ?thesis
      using res by (intro refused) (auto simp: dfc_credential_create_application_desfire_order_def Let_def
          create_app_allowed_def DFC_MAX_KEYS_def DFC_EV1_MAX_KEYS_PER_APP_def split: if_splits)
  next
    case go
    have ki: "key_invar c" and free: "c_apps c ! ?n = dfc_credential_reset_application"
      using inv go(1) by (auto simp: cred_invar_def free_slots_reset_def)
    have same: "upd_app ?n (\<lambda>_. dfc_application_clear) c = c"
      unfolding upd_app_def dfc_application_clear_def free [symmetric] by simp
    obtain ok c2 where r: "dfc_credential_keys_resize c (Some ?n) ?k ?l = (ok, c2)" by fastforce
    have "owner_ok (Some ?n)" using go(1) by (simp add: owner_ok_def)
    note eff = dfc_credential_keys_resize_effect [OF ki this r refl]
    have "key_pool_len_of c (Some ?n) = 0"
      by (simp add: key_pool_len_of_def free dfc_credential_reset_application_def zero_application_def)
    then have ok: "ok \<longleftrightarrow> create_app_allowed c aid ks2"
      using eff(2) go key_length_cases [of ks2] by (auto simp: create_app_allowed_def DFC_MAX_KEY_LEN_def)
    have res2: "(r, c') = (if ok then (Some ?n, upd_app ?n (\<lambda>a. new_application a aid ks1 ks2)
        (c2\<lparr>c_num_apps := c_num_apps c2 + 1\<rparr>)) else (None, c2))"
      using res go
      unfolding dfc_credential_create_application_desfire_order_def Let_def new_application_def same r
        DFC_EV1_MAX_KEYS_PER_APP_def DFC_MAX_KEYS_def
      by (cases ok) (simp_all split del: if_split)
    show ?thesis
    proof (cases ok)
      case True
      then show ?thesis using created res2 ok r by simp
    next
      case False
      then show ?thesis using refused res2 ok eff(1) by simp
    qed
  qed
qed

lemma create_application_effect:
  assumes inv: "cred_invar c" and aid: "length aid = 3"
    and res: "dfc_credential_create_application_desfire_order c aid ks1 ks2 = (Some i, c')"
  shows "i = unat (c_num_apps c)" and "unat (c_num_apps c') = Suc i" and "cred_invar c'"
    and "stores_frame c c'" and "file_view c' = file_view c"
    and "a_aid (c_apps c' ! i) = rev aid" "a_key_settings_1 (c_apps c' ! i) = ks1"
      "a_key_settings_2 (c_apps c' ! i) = ks2" "unat (a_num_keys (c_apps c' ! i)) = unat (ks2 AND DFC_NUM_KEYS_MASK)"
    and "key_bytes c' (Some i) = replicate (unat (ks2 AND DFC_NUM_KEYS_MASK) *
      dfc_credential_stored_key_length (dfc_credential_key_length ks2)) 0"
    and "owner_ok o' \<Longrightarrow> o' \<noteq> Some i \<Longrightarrow> key_bytes c' o' = key_bytes c o'"
    and "j < DFC_MAX_APPS \<Longrightarrow> j \<noteq> i \<Longrightarrow> app_moved (c_apps c ! j) (c_apps c' ! j)"
    and "dfc_credential_find_application_desfire_order c' aid = Some i"
proof -
  let ?n = "unat (c_num_apps c)" and ?k = "unat (ks2 AND DFC_NUM_KEYS_MASK)"
  let ?l = "dfc_credential_key_length ks2" and ?g = "\<lambda>a. new_application a aid ks1 ks2"
  obtain c2 where al: "create_app_allowed c aid ks2" and i: "i = ?n"
    and r: "dfc_credential_keys_resize c (Some ?n) ?k ?l = (True, c2)"
    and c': "c' = upd_app ?n ?g (c2\<lparr>c_num_apps := c_num_apps c2 + 1\<rparr>)"
    by (rule create_application_cases [OF inv res]) auto
  show "i = ?n" by (rule i)
  have ki: "key_invar c" and n: "?n < DFC_MAX_APPS" and k: "0 < ?k"
    using inv al by (auto simp: cred_invar_def create_app_allowed_def)
  have o: "owner_ok (Some ?n)" using n by (simp add: owner_ok_def)
  note eff = dfc_credential_keys_resize_effect [OF ki o r refl] and kf = key_frame_keys_resize [OF ki o r]
  have free: "c_apps c ! j = dfc_credential_reset_application" if "?n \<le> j" "j < DFC_MAX_APPS" for j
    using inv that by (simp add: cred_invar_def free_slots_reset_def)
  have fs: "files_same c c2" by (rule eff(7))
  have n2: "c_num_apps c2 = c_num_apps c" using fs by (simp add: files_same_def)
  show num: "unat (c_num_apps c') = Suc i"
    using n unat_of_nat_u8 [of "Suc ?n"] by (simp add: c' n2 i DFC_MAX_APPS_def add.commute)
  have la: "length (c_apps c2) = DFC_MAX_APPS" using key_invar_length eff(3) by simp
  have app: "c_apps c' ! i = ?g (c_apps c2 ! ?n)" using la n by (simp add: c' i)
  have others: "c_apps c' ! j = c_apps c2 ! j" if "j \<noteq> i" for j using that by (simp add: c' i)
  show moved: "app_moved (c_apps c ! j) (c_apps c' ! j)" if "j < DFC_MAX_APPS" "j \<noteq> i" for j
    using key_frame_others [OF kf ki that(1)] that others by (simp add: i)
  have view: "key_invar c'" "key_bytes c' = key_bytes c2"
    using upd_app_key_view [of ?g ?n] eff(3) by (simp_all add: c')
  show fv: "file_view c' = file_view c" using files_same_view(2) [OF fs] by (simp add: c')
  have "owners_ok c'"
    using inv num unfolding cred_invar_def owners_ok_view fv i by fastforce
  moreover have "file_invar c'" using inv files_same_view(1) [OF fs] by (simp add: cred_invar_def c')
  moreover have "free_slots_reset c'"
    unfolding free_slots_reset_def num
  proof (intro allI impI)
    fix j assume j: "Suc i \<le> j \<and> j < DFC_MAX_APPS"
    then have "app_moved (c_apps c ! j) (c_apps c' ! j)" by (intro moved) auto
    moreover have "c_apps c ! j = dfc_credential_reset_application" by (rule free) (use j i in auto)
    ultimately show "c_apps c' ! j = dfc_credential_reset_application" using app_moved_reset by simp
  qed
  moreover have "apps_ok c'"
  proof -
    have "apps_ok c2" using inv key_frame_apps_ok [OF kf] by (simp add: cred_invar_def)
    then show ?thesis
      using la n by (simp add: apps_ok_def c' list_all_list_update new_application_def list_all_length [of _ "c_apps c2"])
  qed
  ultimately show "cred_invar c'" using view(1) num n by (simp add: cred_invar_def i)
  have "stores_frame c2 c'" by (simp add: c' stores_frame_def upd_app_def)
  then show "stores_frame c c'" using stores_frame_trans [OF key_frame_stores [OF kf]] by blast
  have aid3: "length (a_aid (c_apps c2 ! ?n)) = 3"
  proof -
    have "map app_static (c_apps c2) ! ?n = map app_static (c_apps c) ! ?n" using kf by (simp add: key_frame_def)
    then have "app_static (c_apps c2 ! ?n) = app_static (c_apps c ! ?n)"
      using n la key_invar_length [OF ki] by simp
    then have "a_aid (c_apps c2 ! ?n) = a_aid (c_apps c ! ?n)" by (rule app_static_aid)
    then show ?thesis using free n by (simp add: dfc_credential_reset_application_def zero_application_def)
  qed
  show aid': "a_aid (c_apps c' ! i) = rev aid"
  proof -
    obtain x y z where "aid = [x, y, z]" using aid by (auto simp: numeral_3_eq_3 length_Suc_conv)
    moreover obtain p q r where "a_aid (c_apps c2 ! ?n) = [p, q, r]"
      using aid3 by (auto simp: numeral_3_eq_3 length_Suc_conv)
    ultimately show ?thesis by (simp add: app new_application_def)
  qed
  show "a_key_settings_1 (c_apps c' ! i) = ks1" "a_key_settings_2 (c_apps c' ! i) = ks2"
    by (simp_all add: app new_application_def)
  show "unat (a_num_keys (c_apps c' ! i)) = ?k"
    using eff(4) by (simp add: app new_application_def num_keys_of_def)
  have "key_pool_len_of c (Some ?n) = 0"
    using free n by (simp add: key_pool_len_of_def dfc_credential_reset_application_def zero_application_def)
  then show "key_bytes c' (Some i) = replicate (?k * dfc_credential_stored_key_length ?l) 0"
    using eff(5) k stored_key_length_cases [of ?l] by (auto simp: view i)
  show "key_bytes c' o' = key_bytes c o'" if "owner_ok o'" "o' \<noteq> Some i"
    using eff(6) that by (simp add: view i)
  show "dfc_credential_find_application_desfire_order c' aid = Some i"
    unfolding dfc_credential_find_application_desfire_order_def Let_def
  proof (rule find_index_from_unique)
    show "aid ! 0 = a_aid (c_apps c' ! i) ! 2 \<and> aid ! 1 = a_aid (c_apps c' ! i) ! 1 \<and>
        aid ! 2 = a_aid (c_apps c' ! i) ! 0"
      using aid by (simp add: aid' rev_nth)
    fix j assume j: "j < unat (c_num_apps c')" and m: "aid ! 0 = a_aid (c_apps c' ! j) ! 2 \<and>
        aid ! 1 = a_aid (c_apps c' ! j) ! 1 \<and> aid ! 2 = a_aid (c_apps c' ! j) ! 0"
    show "j = i"
    proof (rule ccontr)
      assume "j \<noteq> i"
      then have jn: "j < ?n" "j < DFC_MAX_APPS" using j num n by (auto simp: i)
      have "a_aid (c_apps c' ! j) = a_aid (c_apps c ! j)"
        using app_moved_fields [OF moved [OF jn(2) \<open>j \<noteq> i\<close>]] by simp
      then show False
        using al m jn(1) by (auto simp: create_app_allowed_def dfc_credential_find_application_desfire_order_def
            Let_def find_index_from_None)
    qed
  qed (use num in auto)
qed

subsection \<open>Formatting the card\<close>

lemma compacted_pool:
  assumes "off + len \<le> used" "used \<le> length buf" "\<And>i. used \<le> i \<Longrightarrow> i < length buf \<Longrightarrow> buf ! i = 0"
  shows "mem_set len 0 (used - len) (if 0 < off then mem_move 0 off len buf else buf) =
    mem_read off len buf @ replicate (length buf - len) 0"
  using assms by (intro nth_equalityI) (auto simp: nth_mem_set nth_mem_move nth_append)

lemma wiped_pool:
  assumes "used \<le> length buf" "\<And>i. used \<le> i \<Longrightarrow> i < length buf \<Longrightarrow> buf ! i = 0"
  shows "mem_set 0 0 used buf = replicate (length buf) 0"
  using assms by (intro nth_equalityI) (auto simp: nth_mem_set)

lemma format_picc_metadata_eq:
  "format_picc_metadata c = c\<lparr>c_key_set_metadata_pool :=
      mem_set 0 0 (unat (c_key_set_metadata_pool_used c)) (c_key_set_metadata_pool c),
    c_key_set_metadata_pool_used := 0\<rparr>"
  by (simp add: format_picc_metadata_def unat_gt_0)

lemma format_picc_files_eq:
  "format_picc_files c = c\<lparr>c_files := mem_set 0 zero_file (unat (c_num_files c)) (c_files c),
    c_file_pool := mem_set 0 0 (unat (c_file_pool_used c)) (c_file_pool c),
    c_num_apps := 0, c_num_files := 0, c_file_pool_used := 0\<rparr>"
  by (simp add: format_picc_files_def Let_def unat_gt_0)

text \<open>The keys of a well-formed credential: the card's slice alone, at the head of the pool.\<close>

lemma format_picc_keys_eq:
  assumes ki: "key_invar c"
  shows "format_picc_keys c = c\<lparr>c_key_pool := key_bytes c None @
        replicate (DFC_KEY_POOL_SIZE - length (key_bytes c None)) 0,
      c_key_pool_used := c_picc_key_pool_len c,
      c_picc_key_offset := (if c_picc_key_pool_len c = 0 then SLOT_NONE else 0)\<rparr>"
proof -
  have kw: "key_wf c" "key_pool_ok c" using ki by (auto simp: key_invar_def)
  let ?off = "unat (c_picc_key_offset c)" and ?len = "unat (c_picc_key_pool_len c)" and ?u = "unat (c_key_pool_used c)"
  have none: "owner_ok None" by (simp add: owner_ok_def)
  note sl = key_slot_in [OF kw none]
  have u: "?u \<le> DFC_KEY_POOL_SIZE" "length (c_key_pool c) = DFC_KEY_POOL_SIZE"
    using pool_ok_used [OF kw(2)] kw(1) by (simp_all add: key_wf_def key_pool_used_def)
  have clean: "c_key_pool c ! i = 0" if "?u \<le> i" "i < DFC_KEY_POOL_SIZE" for i
    using pool_ok_clean [OF kw(2), of i] that u by (simp add: key_pool_used_def)
  show ?thesis
  proof (cases "?len = 0")
    case True
    then have "key_bytes c None = []" using length_key_bytes [OF ki none] by (simp add: key_pool_len_of_def)
    moreover have "mem_set 0 0 ?u (c_key_pool c) = replicate DFC_KEY_POOL_SIZE 0"
      using wiped_pool [of ?u "c_key_pool c"] u clean by simp
    moreover have "c_picc_key_pool_len c = 0" using True by (simp add: unat_eq_0)
    moreover have "c\<lparr>c_key_pool := p, c_key_pool_used := c_picc_key_pool_len c, c_picc_key_offset := q\<rparr> =
        c\<lparr>c_picc_key_offset := q, c_picc_key_pool_len := 0, c_key_pool_used := 0, c_key_pool := p\<rparr>"
      if "c_picc_key_pool_len c = 0" for p q
      using that by (cases c) simp
    ultimately show ?thesis
      by (cases "?u = 0") (simp_all add: format_picc_keys_def KEY_NONE_eq unat_eq_0 Let_def unat_gt_0)
  next
    case False
    have in1: "c_picc_key_offset c \<noteq> SLOT_NONE" "?off + ?len \<le> ?u"
      using sl(2) False by (auto simp: key_offset_of_def key_pool_len_of_def u16_eq_SLOT_NONE_iff)
    have pb: "key_bytes c None = mem_read ?off ?len (c_key_pool c)"
      using sl(3,4) False by (simp add: key_bytes_def slice_contents_def key_pool_len_of_def key_offset_of_def)
    have "c_picc_key_pool_len c \<noteq> 0" using False by (simp add: unat_eq_0 [symmetric])
    moreover have "mem_set ?len 0 (?u - ?len) (if 0 < ?off then mem_move 0 ?off ?len (c_key_pool c) else c_key_pool c) =
        key_bytes c None @ replicate (DFC_KEY_POOL_SIZE - length (key_bytes c None)) 0"
      using compacted_pool [OF in1(2), of "c_key_pool c"] u clean in1 by (simp add: pb)
    moreover have "?len \<le> ?u - ?off" using in1 by linarith
    moreover have "?len = ?u \<Longrightarrow> mem_set ?len 0 (?u - ?len) buf = buf" for buf :: bytes by simp
    ultimately show ?thesis
      using in1 False by (cases "?len < ?u") (simp_all add: format_picc_keys_def KEY_NONE_eq Let_def split del: if_split)
  qed
qed

lemma format_picc_fields:
  assumes inv: "cred_invar c" and c': "c' = dfc_credential_format_picc c"
  shows "c_key_pool c' = key_bytes c None @ replicate (DFC_KEY_POOL_SIZE - length (key_bytes c None)) 0"
    and "c_key_pool_used c' = c_picc_key_pool_len c" "c_picc_key_pool_len c' = c_picc_key_pool_len c"
    and "c_picc_key_offset c' = (if c_picc_key_pool_len c = 0 then SLOT_NONE else 0)"
    and "c_key_set_metadata_pool c' = replicate DFC_KEY_SET_METADATA_POOL_SIZE 0"
    and "c_key_set_metadata_pool_used c' = 0"
    and "c_file_pool c' = replicate DFC_FILE_POOL_SIZE 0" "c_file_pool_used c' = 0"
    and "c_apps c' = replicate DFC_MAX_APPS dfc_credential_reset_application" "c_num_apps c' = 0" "c_num_files c' = 0"
    and "c_files c' = mem_set 0 zero_file (unat (c_num_files c)) (c_files c)"
    and "stores_frame c c'"
proof -
  have ki: "key_invar c" and fi: "file_invar c" using inv by (auto simp: cred_invar_def)
  have kw: "meta_wf c" "meta_pool_ok c" "file_wf c" "file_pool_ok c"
    using ki fi by (auto simp: key_invar_def file_invar_def)
  note eqs = c' dfc_credential_format_picc_def format_picc_files_eq format_picc_metadata_eq format_picc_keys_eq [OF ki]
  show "c_key_pool c' = key_bytes c None @ replicate (DFC_KEY_POOL_SIZE - length (key_bytes c None)) 0"
    "c_key_pool_used c' = c_picc_key_pool_len c" "c_picc_key_pool_len c' = c_picc_key_pool_len c"
    "c_picc_key_offset c' = (if c_picc_key_pool_len c = 0 then SLOT_NONE else 0)"
    "c_key_set_metadata_pool_used c' = 0" "c_file_pool_used c' = 0"
    "c_apps c' = replicate DFC_MAX_APPS dfc_credential_reset_application" "c_num_apps c' = 0" "c_num_files c' = 0"
    "c_files c' = mem_set 0 zero_file (unat (c_num_files c)) (c_files c)" "stores_frame c c'"
    by (simp_all add: eqs stores_frame_def)
  have mu: "unat (c_key_set_metadata_pool_used c) \<le> length (c_key_set_metadata_pool c)"
    "length (c_key_set_metadata_pool c) = DFC_KEY_SET_METADATA_POOL_SIZE"
    using pool_ok_used [OF kw(2)] kw(1) by (simp_all add: meta_wf_def meta_pool_used_def)
  then show "c_key_set_metadata_pool c' = replicate DFC_KEY_SET_METADATA_POOL_SIZE 0"
    using wiped_pool [OF mu(1)] pool_ok_clean [OF kw(2)] by (simp add: meta_pool_used_def eqs)
  have fu: "unat (c_file_pool_used c) \<le> length (c_file_pool c)" "length (c_file_pool c) = DFC_FILE_POOL_SIZE"
    using pool_ok_used [OF kw(4)] kw(3) by (simp_all add: file_wf_def file_pool_used_def)
  then show "c_file_pool c' = replicate DFC_FILE_POOL_SIZE 0"
    using wiped_pool [OF fu(1)] pool_ok_clean [OF kw(4)] by (simp add: file_pool_used_def eqs)
qed

lemma format_picc_effect:
  assumes inv: "cred_invar c" and c': "c' = dfc_credential_format_picc c"
  shows "cred_invar c'" and "key_bytes c' None = key_bytes c None" and "file_view c' = []"
proof -
  note f = format_picc_fields [OF assms]
  have ki: "key_invar c" and fi: "file_invar c" using inv by (auto simp: cred_invar_def)
  have kp: "length (c_key_pool c) = DFC_KEY_POOL_SIZE" "length (c_files c) = DFC_MAX_FILES"
    "unat (c_num_files c) \<le> DFC_MAX_FILES"
    using ki fi by (auto simp: key_invar_def key_wf_def file_invar_def file_wf_def)
  have lb: "length (key_bytes c None) = unat (c_picc_key_pool_len c)"
    using length_key_bytes [OF ki, of None] by (simp add: owner_ok_def key_pool_len_of_def)
  let ?len = "unat (c_picc_key_pool_len c)"
  have le: "?len \<le> DFC_KEY_POOL_SIZE"
    using pool_ok_slice_le [of "key_slices c" _ _ DFC_MAX_APPS] pool_ok_used ki key_slot_in(3,6) [of c None]
    by (fastforce simp: key_invar_def owner_ok_def owner_index_def key_pool_len_of_def key_wf_def)
  have ks: "key_slices c' = replicate DFC_MAX_APPS (0, 0) @ [(0, ?len)]"
    using f(3,4,9) by (auto simp: key_slices_def key_slots_def slot_slice_def SLOT_NONE_def)
  have ms: "meta_slices c' = replicate DFC_MAX_APPS (0, 0)" using f(9) by (simp add: meta_slices_def meta_slots_def)
  have "key_pool_ok c'"
    unfolding ks key_pool_used_def f(1,2)
    using le lb by (intro pool_okI) (auto simp: slice_disj_def sum_list_replicate nth_append list_all_iff
        split: if_splits)
  moreover have "meta_pool_ok c'"
    using pool_ok_blank [of "replicate DFC_MAX_APPS (0, 0)" DFC_KEY_SET_METADATA_POOL_SIZE]
    by (simp add: ms meta_pool_used_def f(5,6) list_all_iff)
  moreover have "slot_ok (c_picc_key_offset c', c_picc_key_pool_len c')"
    using f(3,4) by (simp add: slot_ok_def SLOT_NONE_def)
  ultimately have "key_invar c'"
    using f(1,5,9) lb le by (simp add: key_invar_def key_wf_def meta_wf_def key_slots_def meta_slots_def list_all_iff)
  moreover have "file_invar c'"
    by (rule file_invar_zero_pool) (use f kp in simp_all)
  moreover have "live_files c' = []" using f(11) by (simp add: live_files_def)
  ultimately show "cred_invar c'" "file_view c' = []"
    using f(9,10) by (simp_all add: cred_invar_def free_slots_reset_def owners_ok_def file_view_def apps_ok_def
        list_all_iff)
  show "key_bytes c' None = key_bytes c None"
    using lb by (simp add: key_bytes_def [of c'] owner_index_def ks nth_append slice_contents_def f(1) mem_read_def)
qed

subsection \<open>The initial credentials\<close>

lemma clear_base_apps:
  "map (\<lambda>a. a\<lparr>a_key_offset := DFC_KEY_POOL_NONE, a_num_key_sets := 1,
     a_key_set_metadata_offset := DFC_KEY_SET_METADATA_POOL_NONE\<rparr>) (c_apps zero_credential) =
   replicate DFC_MAX_APPS dfc_credential_reset_application"
  by (simp add: zero_credential_def dfc_credential_reset_application_def)

definition cleared_base :: DfcCredential where
  "cleared_base = zero_credential\<lparr>c_picc_key_settings_1 := 0x0F,
     c_picc_key_settings_2 := DFC_KEY_TYPE_DES_2K3DES OR 1, c_picc_auth_command := DFC_CMD_AUTHENTICATE_LEGACY,
     c_card := (c_card zero_credential)\<lparr>card_generation := DfcGenerationEv1,
       card_storage := DFC_DEFAULT_CARD_STORAGE, card_uid_provenance := DfcUidProvenanceReal\<rparr>,
     c_apps := replicate DFC_MAX_APPS dfc_credential_reset_application, c_picc_key_offset := DFC_KEY_POOL_NONE\<rparr>"

lemma cleared_base_fields:
  "c_apps cleared_base = replicate DFC_MAX_APPS dfc_credential_reset_application" "c_num_apps cleared_base = 0"
  "c_num_files cleared_base = 0" "c_file_pool_used cleared_base = 0" "length (c_files cleared_base) = DFC_MAX_FILES"
  "c_file_pool cleared_base = replicate DFC_FILE_POOL_SIZE 0"
  "c_key_pool_used cleared_base = 0" "c_key_set_metadata_pool_used cleared_base = 0"
  "c_key_pool cleared_base = replicate DFC_KEY_POOL_SIZE 0"
  "c_key_set_metadata_pool cleared_base = replicate DFC_KEY_SET_METADATA_POOL_SIZE 0"
  "c_picc_key_offset cleared_base = SLOT_NONE" "c_picc_key_pool_len cleared_base = 0"
  "length (c_uid cleared_base) = DFC_DESFIRE_UID_MAX_LENGTH"
  by (simp_all add: cleared_base_def zero_credential_def KEY_NONE_eq DFC_DESFIRE_UID_MAX_LENGTH_def)

lemma cred_invar_cleared_base: "cred_invar cleared_base"
proof -
  note f = cleared_base_fields
  have "key_invar cleared_base"
    by (rule key_invar_blank) (simp_all add: f key_slots_def meta_slots_def list_all_iff)
  moreover have "file_invar cleared_base" by (rule file_invar_zero_pool) (simp_all add: f)
  ultimately show ?thesis
    by (simp add: cred_invar_def f free_slots_reset_def owners_ok_def live_files_def apps_ok_def list_all_iff)
qed

lemma key_step_invar:
  assumes inv: "cred_invar c" and ki: "key_invar c'" and fs: "files_same c c'" and kf: "key_frame app c c'"
    and app: "app \<noteq> None \<longrightarrow> the app < unat (c_num_apps c)"
  shows "cred_invar c'"
proof (rule cred_invar_key_step [OF inv ki fs app])
  have "key_invar c" using inv by (simp add: cred_invar_def)
  then show "app_moved (c_apps c ! j) (c_apps c' ! j)" if "j < DFC_MAX_APPS" "app \<noteq> Some j" for j
    using key_frame_others [OF kf] that by simp
  show "apps_ok c'" using inv key_frame_apps_ok [OF kf] by (simp add: cred_invar_def)
qed

lemma keys_resize_invar:
  assumes inv: "cred_invar c" and app: "app \<noteq> None \<longrightarrow> the app < unat (c_num_apps c)"
    and res: "dfc_credential_keys_resize c app n kl = (ok, c')"
  shows "cred_invar c'"
proof (cases ok)
  case True
  have ki: "key_invar c" and n: "unat (c_num_apps c) \<le> DFC_MAX_APPS" using inv by (auto simp: cred_invar_def)
  have o: "owner_ok app" using app n by (cases app) (auto simp: owner_ok_def)
  note eff = dfc_credential_keys_resize_effect [OF ki o res refl]
  show ?thesis using key_step_invar [OF inv eff(3) eff(7) key_frame_keys_resize [OF ki o res] app] True by simp
next
  case False
  have ki: "key_invar c" and n: "unat (c_num_apps c) \<le> DFC_MAX_APPS" using inv by (auto simp: cred_invar_def)
  have o: "owner_ok app" using app n by (cases app) (auto simp: owner_ok_def)
  show ?thesis using dfc_credential_keys_resize_effect(1) [OF ki o res refl] inv False by simp
qed

lemma clear_eq: "dfc_credential_clear c = (True, snd (dfc_credential_keys_resize cleared_base None 1 8))"
  unfolding dfc_credential_clear_def clear_base_apps cleared_base_def Let_def ..

lemma clear_effect:
  assumes c': "c' = snd (dfc_credential_clear c)"
  shows "cred_invar c'" "c_num_apps c' = 0" "c_num_files c' = 0" "key_bytes c' None = replicate 16 0"
    "num_keys_of c' None = 1" "key_pool_used c' = 16" "c_file_pool_used c' = 0" "stores_frame cleared_base c'"
proof -
  have r: "dfc_credential_keys_resize cleared_base None 1 8 =
      (fst (dfc_credential_keys_resize cleared_base None 1 8), c')" by (simp add: c' clear_eq)
  have ki: "key_invar cleared_base" using cred_invar_cleared_base by (simp add: cred_invar_def)
  have o: "owner_ok None" by (simp add: owner_ok_def)
  note eff = dfc_credential_keys_resize_effect [OF ki o r refl]
  have z: "key_pool_used cleared_base = 0" "key_pool_len_of cleared_base None = 0"
    by (simp_all add: key_pool_used_def key_pool_len_of_def cleared_base_fields)
  have ok: "fst (dfc_credential_keys_resize cleared_base None 1 8)"
    using eff(2) by (simp add: z dfc_size_consts dfc_credential_stored_key_length_def)
  show "cred_invar c'" by (rule keys_resize_invar [OF cred_invar_cleared_base _ r]) simp
  show "c_num_apps c' = 0" "c_num_files c' = 0" "c_file_pool_used c' = 0"
    using eff(7) by (simp_all add: files_same_def cleared_base_fields)
  show "key_bytes c' None = replicate 16 0" "num_keys_of c' None = 1"
    using eff(4,5) [OF ok] by (simp_all add: z dfc_credential_stored_key_length_def)
  show "stores_frame cleared_base c'" by (rule key_frame_stores [OF key_frame_keys_resize [OF ki o r]])
  have "key_pool_ok c'" using eff(3) [OF ok] by (simp add: key_invar_def)
  moreover have "key_slices c' = replicate DFC_MAX_APPS (0, 0) @ [slot_slice (c_picc_key_offset c', c_picc_key_pool_len c')]"
  proof -
    have la: "length (c_apps c') = DFC_MAX_APPS" using key_invar_length eff(3) [OF ok] by simp
    have "c_apps c' ! j = dfc_credential_reset_application" if "j < DFC_MAX_APPS" for j
      using \<open>cred_invar c'\<close> \<open>c_num_apps c' = 0\<close> that by (simp add: cred_invar_def free_slots_reset_def)
    then have "c_apps c' = replicate DFC_MAX_APPS dfc_credential_reset_application"
      using la by (intro nth_equalityI) simp_all
    then show ?thesis by (simp add: key_slices_def key_slots_def)
  qed
  moreover have "snd (key_slices c' ! owner_index None) = 16"
    using key_slot_in(3) [OF _ _ o, of c'] eff(3,4) ok
    by (simp add: key_invar_def dfc_credential_stored_key_length_def)
  ultimately show "key_pool_used c' = 16" using pool_ok_total
    by (fastforce simp: sum_list_replicate owner_index_def nth_append)
qed

lemma uid_irrelevant [simp]:
  "cred_invar (c\<lparr>c_uid_len := l, c_uid := u\<rparr>) = cred_invar c"
  "key_bytes (c\<lparr>c_uid_len := l, c_uid := u\<rparr>) = key_bytes c"
  "key_pool_used (c\<lparr>c_uid_len := l, c_uid := u\<rparr>) = key_pool_used c"
  by (simp_all add: cred_invar_def file_invar_def file_wf_def file_slices_def file_pool_used_def
      key_invar_def key_wf_def meta_wf_def key_slices_def meta_slices_def key_slots_def meta_slots_def
      key_pool_used_def meta_pool_used_def key_bytes_def fun_eq_iff free_slots_reset_def owners_ok_def
      live_files_def apps_ok_def)

lemma init_factory_effect:
  assumes u: "length uid = DFC_DESFIRE_UID_LEN" and res: "dfc_credential_init_factory (Some uid) c = (ok, c')"
  shows "ok" "cred_invar c'" "c_num_apps c' = 0" "c_num_files c' = 0" "key_bytes c' None = replicate 16 0"
    "key_pool_used c' = 16" "c_file_pool_used c' = 0" "dfc_credential_uid_is_detectable c'"
    "take DFC_DESFIRE_UID_LEN (c_uid c') = DFC_DESFIRE_UID_FIRST_BYTE # tl uid"
proof -
  define c1 where "c1 = snd (dfc_credential_clear c)"
  note cl = clear_effect [OF c1_def]
  have c': "ok" "c' = c1\<lparr>c_uid_len := of_nat DFC_DESFIRE_UID_LEN,
      c_uid := (mem_write 0 uid (c_uid c1))[0 := DFC_DESFIRE_UID_FIRST_BYTE]\<rparr>"
    using res by (auto simp: dfc_credential_init_factory_def c1_def Let_def)
  show "ok" by (rule c')
  show "cred_invar c'" "c_num_apps c' = 0" "c_num_files c' = 0" "key_bytes c' None = replicate 16 0"
    "key_pool_used c' = 16" "c_file_pool_used c' = 0"
    using cl by (simp_all add: c'(2))
  have lu: "length (c_uid c1) = DFC_DESFIRE_UID_MAX_LENGTH"
    using cl(8) cleared_base_fields(13) by (subst cl(8) [unfolded stores_frame_def]) simp
  obtain x xs where uid: "uid = x # xs" "length xs = 6"
    using u by (auto simp: DFC_DESFIRE_UID_LEN_def length_Suc_conv eval_nat_numeral)
  show "take DFC_DESFIRE_UID_LEN (c_uid c') = DFC_DESFIRE_UID_FIRST_BYTE # tl uid"
    using uid by (simp add: c'(2) mem_write_def DFC_DESFIRE_UID_LEN_def)
  show "dfc_credential_uid_is_detectable c'"
    using uid by (simp add: c'(2) mem_write_def dfc_credential_uid_is_detectable_def
        dfc_desfire_uid_is_detectable_def DFC_DESFIRE_UID_LEN_def DFC_DESFIRE_UID_FIRST_BYTE_def)
qed

text \<open>Declaring and allocating the contents of a data file.\<close>

lemma owners_of_files:
  assumes "map f_app_index (c_files c') = map f_app_index (c_files c)" "c_num_files c' = c_num_files c"
    "c_num_apps c' = c_num_apps c"
  shows "owners_ok c' = owners_ok c"
proof -
  let ?P = "\<lambda>x. x = DFC_FILE_OWNER_PICC \<or> unat x < unat (c_num_apps c)"
  have "map f_app_index (live_files c') = map f_app_index (live_files c)"
    by (simp add: live_files_def assms(2) take_map [symmetric] assms(1))
  then have "list_all ?P (map f_app_index (live_files c')) = list_all ?P (map f_app_index (live_files c))" by simp
  then show ?thesis by (simp add: owners_ok_def assms(3) list_all_iff)
qed

lemma map_app_index_meta:
  "map file_meta xs = map file_meta ys \<Longrightarrow> map f_app_index xs = map f_app_index ys"
proof -
  have "map f_app_index (map file_meta zs) = map f_app_index zs" for zs by (simp add: comp_def)
  then show "map file_meta xs = map file_meta ys \<Longrightarrow> map f_app_index xs = map f_app_index ys" by metis
qed

lemma file_meta_type:
  "file_meta f = file_meta g \<Longrightarrow> f_type f = f_type g"
  "file_meta f = file_meta g \<Longrightarrow> f_number f = f_number g"
  by (cases f, cases g, simp add: file_meta_def)+

lemma set_data_size_effect:
  assumes inv: "file_invar c" and i: "i < unat (c_num_files c)"
    and res: "dfc_file_set_data_size c i sz = (ok, c')"
  shows "file_invar c'" "file_frame c c'" "c_num_files c' = c_num_files c"
    and "map f_app_index (c_files c') = map f_app_index (c_files c)"
    and "ok \<longleftrightarrow> dfc_file_type_is_data (f_type (c_files c ! i)) \<and> fst (dfc_file_resize c i (unat sz))"
    and "ok \<Longrightarrow> file_bytes c' i = (if length (file_bytes c i) = unat sz then file_bytes c i else replicate (unat sz) 0)"
    and "ok \<Longrightarrow> c_files c' ! i = (let f = c_files (snd (dfc_file_resize c i (unat sz))) ! i in
      f\<lparr>f_state := (f_state f)\<lparr>state_data := (state_data (f_state f))\<lparr>declared_size := sz\<rparr>\<rparr>,
        f_contents_complete := True\<rparr>)"
proof -
  obtain b c1 where r: "dfc_file_resize c i (unat sz) = (b, c1)" by fastforce
  have num: "c_num_files c1 = c_num_files c" by (rule dfc_file_resize_num [OF r])
  have meta: "map file_meta (c_files c1) = map file_meta (c_files c)" by (rule file_meta_resize [OF inv i r])
  have fr: "file_frame c c1" by (rule file_frame_resize [OF r])
  have inv1: "file_invar c1"
  proof (cases b)
    case True then show ?thesis using dfc_file_resize_effect [OF inv i] r by simp
  next
    case False
    then have "c1 = c" using r inv dfc_file_resize_eq [OF _ _ i, of "unat sz"]
      by (auto simp: file_invar_def Let_def split: if_splits)
    then show ?thesis using inv by simp
  qed
  let ?g = "\<lambda>f. f\<lparr>f_state := (f_state f)\<lparr>state_data := (state_data (f_state f))\<lparr>declared_size := sz\<rparr>\<rparr>,
        f_contents_complete := True\<rparr>"
  have len: "i < length (c_files c1)" "length (c_files c1) = length (c_files c)"
    using file_wf_bounds [of c1 i] inv1 i num arg_cong [OF meta, of length] by (auto simp: file_invar_def)
  have "file_meta (c_files c1 ! i) = file_meta (c_files c ! i)" using meta len by (metis nth_map)
  then have ty: "f_type (c_files c1 ! i) = f_type (c_files c ! i)" by (rule file_meta_type(1))
  let ?d = "dfc_file_type_is_data (f_type (c_files c ! i))"
  have c': "ok = (?d \<and> b)" "c' = (if ?d then if b then upd_file i ?g c1 else c1 else c)"
    using res r ty by (auto simp: dfc_file_set_data_size_def dfc_file_set_declared_size_def upd_file_def
        split: bool.splits if_splits)
  have i1: "i < unat (c_num_files c1)" using i num by simp
  note up = upd_file_view [OF inv1 i1, of ?g]
  have bytes: "file_bytes (upd_file i ?g c1) i = file_bytes c1 i"
    using up len file_view_nth [OF up(1), of i] file_view_nth [OF inv1 i1] i1 length_file_view [OF inv1] by simp
  have idx: "map f_app_index (c_files (upd_file i ?g c1)) = map f_app_index (c_files c1)"
    by simp (rule map_update_same, simp)
  show "ok \<longleftrightarrow> ?d \<and> fst (dfc_file_resize c i (unat sz))" using c'(1) r by simp
  show "file_invar c'" using c'(2) inv inv1 up(1) by simp
  show "file_frame c c'" using c'(2) fr file_frame_trans [OF fr file_frame_upd] by simp
  show "c_num_files c' = c_num_files c" using c'(2) num by simp
  show "map f_app_index (c_files c') = map f_app_index (c_files c)"
    using c'(2) idx map_app_index_meta [OF meta] by simp
  show "file_bytes c' i = (if length (file_bytes c i) = unat sz then file_bytes c i else replicate (unat sz) 0)" if ok
    using that c' bytes dfc_file_resize_effect [OF inv i, of "unat sz" c1] r by simp
  show "c_files c' ! i = (let f = c_files (snd (dfc_file_resize c i (unat sz))) ! i in ?g f)" if ok
    using that c' len r by (simp add: Let_def)
qed

lemma create_file_invar:
  assumes inv: "cred_invar c" and res: "dfc_credential_create_file c app_index number = (r, c')"
  shows "cred_invar c'"
proof (cases r)
  case None
  then show ?thesis using dfc_credential_create_file_refused res inv by blast
next
  case (Some i)
  have fi: "file_invar c" and n: "unat (c_num_apps c) \<le> DFC_MAX_APPS" using inv by (auto simp: cred_invar_def)
  note cf = dfc_credential_create_file_effect [OF fi res [unfolded Some]]
  have a: "app_index < unat (c_num_apps c)"
    using res Some by (auto simp: dfc_credential_create_file_def split: if_splits)
  have "c_num_apps c' = c_num_apps c" by (rule file_frame_keys(5) [OF cf(2)])
  moreover have "unat (of_nat app_index :: u8) = app_index" using a n by (simp add: DFC_MAX_APPS_def)
  ultimately have "owners_ok c'" using inv a by (simp add: owners_ok_def cf(5) cred_invar_def)
  then show ?thesis by (rule cred_invar_file_step [OF inv cf(2,1)])
qed

lemma init_blank_effect:
  assumes u: "length uid = DFC_DESFIRE_UID_LEN" and res: "dfc_credential_init_blank (Some uid) c = (ok, c')"
  shows "ok" "cred_invar c'" "c_num_apps c' = 1" "c_num_files c' = 1"
    "file_bytes c' 0 = replicate (unat DFC_BLANK_FILE_SIZE) 0"
    "dfc_credential_find_application_desfire_order c' [0x01, 0x00, 0x00] = Some 0"
    "dfc_credential_find_file c' 0 = Some 0" "dfc_credential_uid_is_detectable c'"
proof -
  obtain ok1 c1 where r1: "dfc_credential_init_factory (Some uid) c = (ok1, c1)" by fastforce
  note fa = init_factory_effect [OF u r1]
  let ?aid = "[0x01, 0x00, 0x00] :: bytes" and ?ks = "DFC_KEY_TYPE_DES_2K3DES OR 1 :: u8"
  have ks: "?ks AND DFC_NUM_KEYS_MASK = 1" "?ks AND DFC_KEY_TYPE_MASK = 0"
    by (simp_all add: dfc_key_type_consts)
  have al: "create_app_allowed c1 ?aid ?ks"
    by (simp add: create_app_allowed_def fa ks dfc_credential_find_application_desfire_order_def
        find_index_from.simps [of _ 0 0] dfc_size_consts dfc_credential_stored_key_length_def
        dfc_credential_key_length_def)
  obtain r c2 where r2: "dfc_credential_create_application_desfire_order c1 ?aid 0x0F ?ks = (r, c2)" by fastforce
  then have r2': "dfc_credential_create_application_desfire_order c1 ?aid 0x0F ?ks = (Some 0, c2)"
    by (rule create_application_cases [OF fa(2)]) (use al fa(3) r2 in auto)
  note ca = create_application_effect [OF fa(2) _ r2', simplified]
  have n2: "c_num_apps c2 = 1" using ca(2) by (metis unat_1 word_unat_eq_iff One_nat_def)
  have v2: "file_view c2 = []" using ca(5) length_file_view [of c1] fa(2,4) by (simp add: cred_invar_def)
  have f2: "file_invar c2" "c_num_files c2 = 0"
    using ca(3) length_file_view [of c2] v2 by (simp_all add: cred_invar_def unat_eq_0)
  obtain r' c3 where r3: "dfc_credential_create_file c2 0 0x00 = (r', c3)" by fastforce
  have r3': "dfc_credential_create_file c2 0 0x00 = (Some 0, c3)"
    using r3 f2(2) n2 by (auto simp: dfc_credential_create_file_def dfc_credential_find_file_in_app_def
        find_index_from.simps [of _ 0 0] DFC_MAX_FILES_def Let_def)
  note cf = dfc_credential_create_file_effect [OF f2(1) r3']
  have inv3: "cred_invar c3" by (rule create_file_invar [OF ca(3) r3])
  have i3: "0 < unat (c_num_files c3)" using cf(4) by simp
  have new: "c_files c3 ! 0 = zero_file\<lparr>f_data_offset := DFC_FILE_POOL_NONE\<rparr>"
    using cf(5) live_files_nth [OF i3] length_live_files [of c2] f2
    by (simp add: file_invar_def zero_file_def)
  let ?g = "\<lambda>f. f\<lparr>f_number := 0x00, f_type := 0x00, f_comm_settings := DFC_COMM_PLAIN,
    f_access_rights := 0x0000, f_data_offset := DFC_FILE_POOL_NONE, f_data_len := 0\<rparr>"
  define c4 where "c4 = upd_file 0 ?g c3"
  have c4: "file_invar c4"
    unfolding c4_def by (rule upd_file_view(1)) (use inv3 i3 new in \<open>simp_all add: cred_invar_def zero_file_def\<close>)
  have n4: "unat (c_num_files c4) = 1" using cf(4) f2(2) by (simp add: c4_def)
  have at4: "c_files c4 ! 0 = ?g (c_files c3 ! 0)"
    using file_wf_bounds [of c3 0] i3 inv3 by (simp add: c4_def cred_invar_def file_invar_def)
  have used4: "file_pool_used c4 = 0"
  proof -
    have l: "length (live_files c4) = 1" using length_live_files [of c4] c4 n4 by (simp add: file_invar_def)
    then have "live_files c4 = [c_files c4 ! 0]"
      using live_files_nth [of 0 c4] n4 by (metis One_nat_def length_0_conv length_Suc_conv nth_Cons_0 zero_less_one)
    then have "file_slices c4 = [(0, 0)]" by (simp add: file_slices_live at4 file_slice_def)
    then show ?thesis using pool_ok_total [of "file_slices c4"] c4 by (fastforce simp: file_invar_def)
  qed
  obtain b c5 where r5: "dfc_file_set_data_size c4 0 DFC_BLANK_FILE_SIZE = (b, c5)" by fastforce
  have i4: "0 < unat (c_num_files c4)" using n4 by simp
  note sd = set_data_size_effect [OF c4 i4 r5]
  have rs: "fst (dfc_file_resize c4 0 (unat DFC_BLANK_FILE_SIZE))"
    using c4 dfc_file_resize_eq [OF _ _ i4, of "unat DFC_BLANK_FILE_SIZE"] used4
    by (simp add: file_invar_def at4 DFC_BLANK_FILE_SIZE_def DFC_MAX_FILE_DATA_def DFC_FILE_POOL_SIZE_def)
  have b: "b" using sd(5) rs by (simp add: at4 dfc_file_type_is_data_def DFC_FILE_TYPE_STANDARD_DATA_def)
  have fin: "ok" "c' = c5"
    using res r1 fa(1) r2' r3' r5 b
    by (auto simp: dfc_credential_init_blank_def c4_def [symmetric] Let_def split: bool.splits)
  show "ok" by (rule fin)
  have fr: "file_frame c3 c5" using sd(2) file_frame_trans [OF file_frame_upd] by (simp add: c4_def)
  have frc2: "file_frame c2 c5" by (rule file_frame_trans [OF cf(2) fr])
  have "owners_ok c5"
  proof -
    have "map f_app_index (c_files c4) = map f_app_index (c_files c3)"
      unfolding c4_def upd_file_simps by (rule map_update_same) simp
    then have "owners_ok c5 = owners_ok c3"
      by (intro owners_of_files) (use sd(3,4) file_frame_keys(5) [OF fr] in \<open>simp_all add: c4_def\<close>)
    then show ?thesis using inv3 by (simp add: cred_invar_def)
  qed
  then show "cred_invar c'" unfolding fin by (rule cred_invar_file_step [OF inv3 fr sd(1)])
  show "c_num_apps c' = 1" using file_frame_keys(5) [OF frc2] n2 by (simp add: fin)
  have n5: "c_num_files c5 = 1" using sd(3) n4 by (metis unat_1 word_unat_eq_iff)
  then show "c_num_files c' = 1" by (simp add: fin)
  have "file_bytes c4 0 = []"
    using length_file_bytes [OF c4 i4] by (simp add: at4)
  then show "file_bytes c' 0 = replicate (unat DFC_BLANK_FILE_SIZE) 0"
    using sd(6) [OF b] by (simp add: fin DFC_BLANK_FILE_SIZE_def)
  show "dfc_credential_find_application_desfire_order c' ?aid = Some 0"
    using ca(13) file_frame_keys(4,5) [OF frc2] by (simp add: fin dfc_credential_find_application_desfire_order_def)
  have "dfc_credential_uid_is_detectable c' = dfc_credential_uid_is_detectable c1"
  proof -
    have "stores_frame c1 c5" by (rule stores_frame_trans [OF ca(4) file_frame_stores [OF frc2]])
    from stores_frame_uid [OF this] show ?thesis by (simp add: fin dfc_credential_uid_is_detectable_def)
  qed
  then show "dfc_credential_uid_is_detectable c'" using fa(8) by simp
  have "f_number (c_files c5 ! 0) = 0" "f_app_index (c_files c5 ! 0) = 0"
  proof -
    define d where "d = snd (dfc_file_resize c4 0 (unat DFC_BLANK_FILE_SIZE))"
    have l: "0 < length (c_files c4)" using file_wf_bounds [of c4 0] c4 i4 by (simp add: file_invar_def)
    have meta: "map file_meta (c_files d) = map file_meta (c_files c4)"
      unfolding d_def by (rule file_meta_resize [OF c4 i4 prod.collapse [symmetric]])
    then have "length (c_files d) = length (c_files c4)" by (rule map_eq_imp_length_eq)
    then have "file_meta (c_files d ! 0) = file_meta (c_files c4 ! 0)"
      using arg_cong [OF meta, of "\<lambda>xs. xs ! 0"] l by simp
    from file_meta_type(2) [OF this] have "f_number (c_files d ! 0) = 0" by (simp add: at4)
    then show "f_number (c_files c5 ! 0) = 0"
      unfolding sd(7) [OF b, folded d_def] Let_def by simp
    have "length (c_files c5) = length (c_files c4)" using sd(4) by (rule map_eq_imp_length_eq)
    then have "f_app_index (c_files c5 ! 0) = f_app_index (c_files c4 ! 0)"
      using arg_cong [OF sd(4), of "\<lambda>xs. xs ! 0"] l by simp
    then show "f_app_index (c_files c5 ! 0) = 0" by (simp add: at4 new zero_file_def)
  qed
  then show "dfc_credential_find_file c' 0 = Some 0"
    by (simp add: fin dfc_credential_find_file_def dfc_credential_find_file_in_app_def n5
        find_index_from.simps [of _ 0 "Suc 0"])
qed

subsection \<open>The credential as a transition system\<close>

text \<open>Materialising contents stays inside the file store and renumbers no owner.\<close>

definition owner_frame :: "DfcCredential \<Rightarrow> DfcCredential \<Rightarrow> bool" where
  "owner_frame c d \<longleftrightarrow> file_frame c d \<and> map f_app_index (c_files d) = map f_app_index (c_files c)"

lemma owner_frame_refl: "owner_frame c c"
  by (simp add: owner_frame_def)

lemma owner_frame_trans: "owner_frame c d \<Longrightarrow> owner_frame d e \<Longrightarrow> owner_frame c e"
  using file_frame_trans by (auto simp: owner_frame_def)

lemma owner_frame_upd: "(\<And>f. f_app_index (g f) = f_app_index f) \<Longrightarrow> owner_frame c (upd_file i g c)"
  using map_update_same [of f_app_index g "c_files c" i] by (simp add: owner_frame_def)

lemma owner_frame_pool:
  "owner_frame d (d\<lparr>c_file_pool := p\<rparr>)" "owner_frame d (d\<lparr>c_file_pool := p, c_file_pool_used := u\<rparr>)"
  by (simp_all add: owner_frame_def file_frame_def)

lemma owner_frame_resize:
  "file_invar c \<Longrightarrow> i < unat (c_num_files c) \<Longrightarrow> dfc_file_resize c i n = (ok, c') \<Longrightarrow> owner_frame c c'"
  by (simp add: owner_frame_def file_frame_resize map_app_index_meta [OF file_meta_resize])

lemma materialize_file_frame:
  assumes inv: "file_invar c" and i: "i < unat (c_num_files c)"
    and res: "materialize_file i want c scratch = (ok, c', scratch')"
  shows "owner_frame c c'"
proof -
  have done1: "owner_frame d (set_complete i d)" for d by (rule owner_frame_upd) simp
  have grown: "owner_frame d (upd_file i (\<lambda>f. f\<lparr>f_data_len := x, f_contents_complete := True\<rparr>) d)" for d x
    by (rule owner_frame_upd) simp
  have r: "owner_frame c c1" if "dfc_file_resize c i want = (b, c1)" for b c1
    by (rule owner_frame_resize [OF inv i that])
  show ?thesis
    using res unfolding materialize_file_def Let_def
    by (auto split: if_splits option.splits prod.splits bool.splits
        intro: owner_frame_refl done1 r owner_frame_trans [OF owner_frame_pool(2) grown]
          owner_frame_trans [OF r done1]
          owner_frame_trans [OF owner_frame_trans [OF r owner_frame_pool(1)] done1])
qed

lemma materialize_loop_frame:
  "file_invar c \<Longrightarrow> materialize_loop i complete c scratch = (ok, c') \<Longrightarrow> owner_frame c c'"
proof (induction i complete c scratch rule: materialize_loop.induct)
  case (1 i complete c scratch)
  show ?case
  proof (cases "i < unat (c_num_files c)")
    case False
    then show ?thesis using 1(4) by (simp add: materialize_loop.simps [of i] owner_frame_refl)
  next
    case i: True
    obtain w where w: "materialize_want (c_files c ! i) = Inr w" by (cases "materialize_want (c_files c ! i)") auto
    show ?thesis
    proof (cases w)
      case None
      then show ?thesis using 1(1) [OF i w None 1(3)] 1(4) i w by (simp add: materialize_loop.simps [of i])
    next
      case (Some want)
      obtain b c1 s1 where m: "materialize_file i want c scratch = (b, c1, s1)" by (metis prod_cases3)
      have "materialize_loop (Suc i) (complete \<and> b) c1 s1 = (ok, c')"
        using 1(4) i w Some m by (simp add: materialize_loop.simps [of i complete])
      from 1(2) [OF i w Some m [symmetric] refl materialize_file_effect(1) [OF 1(3) i m] this]
      show ?thesis using materialize_file_frame [OF 1(3) i m] owner_frame_trans by blast
    qed
  qed
qed

inductive cred_step :: "DfcCredential \<Rightarrow> DfcCredential \<Rightarrow> bool" where
  create_app: "length aid = 3 \<Longrightarrow>
    dfc_credential_create_application_desfire_order c aid ks1 ks2 = (r, c') \<Longrightarrow> cred_step c c'"
| delete_app: "dfc_credential_delete_application_at c i = (ok, c') \<Longrightarrow> cred_step c c'"
| create_file: "dfc_credential_create_file c a number = (f, c') \<Longrightarrow> cred_step c c'"
| delete_file: "dfc_credential_delete_file c a number = (ok, c') \<Longrightarrow> cred_step c c'"
| resize_file: "i < unat (c_num_files c) \<Longrightarrow> dfc_file_resize c i n = (ok, c') \<Longrightarrow> cred_step c c'"
| set_data_size: "i < unat (c_num_files c) \<Longrightarrow> dfc_file_set_data_size c i sz = (ok, c') \<Longrightarrow> cred_step c c'"
| materialize: "dfc_credential_materialize_contents c scratch = (ok, c') \<Longrightarrow> cred_step c c'"
| picc_keys: "dfc_credential_keys_resize c None n kl = (ok, c') \<Longrightarrow> cred_step c c'"
| app_keys: "i < unat (c_num_apps c) \<Longrightarrow> dfc_credential_keys_resize c (Some i) n kl = (ok, c') \<Longrightarrow> cred_step c c'"
| key_sets: "i < unat (c_num_apps c) \<Longrightarrow>
    dfc_credential_key_sets_resize c i n_sets n kl mx = (ok, c') \<Longrightarrow> cred_step c c'"
| roll: "i < unat (c_num_apps c) \<Longrightarrow> key_sets_ready c i \<Longrightarrow> 0 < k \<Longrightarrow> k < set_count c i \<Longrightarrow>
    length scratch = DFC_MAX_KEY_LEN \<Longrightarrow>
    dfc_credential_roll_key_set c i k scratch = Some (ok, c') \<Longrightarrow> cred_step c c'"
| format: "cred_step c (dfc_credential_format_picc c)"
| clear: "dfc_credential_clear c = (ok, c') \<Longrightarrow> cred_step c c'"
| factory: "length uid = DFC_DESFIRE_UID_LEN \<Longrightarrow>
    dfc_credential_init_factory (Some uid) c = (ok, c') \<Longrightarrow> cred_step c c'"
| blank: "length uid = DFC_DESFIRE_UID_LEN \<Longrightarrow>
    dfc_credential_init_blank (Some uid) c = (ok, c') \<Longrightarrow> cred_step c c'"

inductive_cases cred_stepE: "cred_step c c'"

text \<open>The credentials a program can hold: cleared storage and what the operations make of it.\<close>

inductive reachable_credential :: "DfcCredential \<Rightarrow> bool" where
  start: "reachable_credential (snd (dfc_credential_clear c))"
| step: "reachable_credential c \<Longrightarrow> cred_step c c' \<Longrightarrow> reachable_credential c'"

lemma delete_file_invar:
  assumes inv: "cred_invar c" and res: "dfc_credential_delete_file c a number = (ok, c')"
  shows "cred_invar c'"
proof (cases "dfc_credential_find_file_in_app c a number")
  case None
  then show ?thesis
    using res inv by (simp add: dfc_credential_delete_file_def dfc_credential_find_file_in_app_def)
next
  case (Some i)
  have fi: "file_invar c" using inv by (simp add: cred_invar_def)
  note d = dfc_credential_delete_file_effect [OF fi Some res]
  have "owners_ok c'"
  proof -
    have "f_app_index ` set (live_files c') = f_app_index ` set (map file_meta (live_files c'))"
      by (simp add: image_image)
    also have "\<dots> \<subseteq> f_app_index ` set (live_files c)"
      unfolding d(4) by (auto simp: image_image dest: in_set_takeD in_set_dropD)
    finally show ?thesis
      using inv file_frame_keys(5) [OF d(3)] unfolding cred_invar_def owners_ok_def by (auto 0 3 simp: image_subset_iff)
  qed
  then show ?thesis by (rule cred_invar_file_step [OF inv d(3,2)])
qed

lemma key_sets_resize_invar:
  assumes inv: "cred_invar c" and i: "i < unat (c_num_apps c)"
    and res: "dfc_credential_key_sets_resize c i n_sets n kl mx = (ok, c')"
  shows "cred_invar c'"
proof -
  have ki: "key_invar c" and im: "i < DFC_MAX_APPS" using inv i by (auto simp: cred_invar_def)
  have kv: "length (a_key_versions (c_apps c ! i)) = DFC_MAX_KEYS"
    using inv im key_invar_length [OF ki] by (simp add: cred_invar_def apps_ok_def list_all_length)
  note eff = dfc_credential_key_sets_resize_effect [OF ki im kv res]
  show ?thesis
  proof (cases ok)
    case True
    then have "key_invar c'" "files_same c c'" using eff unfolding if_P [OF True] key_sets_ready_def by blast+
    then show ?thesis using key_step_invar [OF inv _ _ key_frame_key_sets_resize [OF ki im res]] i by simp
  next
    case False then show ?thesis using eff inv by simp
  qed
qed

lemma roll_invar:
  assumes inv: "cred_invar c" and i: "i < unat (c_num_apps c)" and rdy: "key_sets_ready c i"
    and k: "0 < k" "k < set_count c i" "length scratch = DFC_MAX_KEY_LEN"
    and res: "dfc_credential_roll_key_set c i k scratch = Some (ok, c')"
  shows "cred_invar c'"
proof -
  obtain d where d: "dfc_credential_roll_key_set c i k scratch = Some (True, d)" "key_sets_ready d i" "files_same c d"
    "\<forall>j. j < DFC_MAX_APPS \<and> j \<noteq> i \<longrightarrow> c_apps d ! j = c_apps c ! j \<and> meta_bytes d j = meta_bytes c j"
    using dfc_credential_roll_key_set_effect [OF rdy k] by blast
  have c': "c' = d" using d(1) res by simp
  have ki: "key_invar c'" and kv: "length (a_key_versions (c_apps c' ! i)) = DFC_MAX_KEYS"
    using d(2) by (simp_all add: c' key_sets_ready_def)
  have la: "length (c_apps c) = DFC_MAX_APPS" "length (c_apps c') = DFC_MAX_APPS"
    using inv ki by (simp_all add: cred_invar_def key_invar_length)
  have "length (a_key_versions (c_apps c' ! j)) = DFC_MAX_KEYS" if "j < DFC_MAX_APPS" for j
    using d(4) that kv inv la by (cases "j = i") (auto simp: c' cred_invar_def apps_ok_def list_all_length)
  then have "apps_ok c'" using la by (simp add: apps_ok_def list_all_length)
  then show ?thesis
    using cred_invar_key_step [OF inv ki, of "Some i"] d(3,4) i by (auto simp: c')
qed

lemma cred_step_invar: "cred_step c c' \<Longrightarrow> cred_invar c \<Longrightarrow> cred_invar c'"
proof (induction rule: cred_step.induct)
  case (create_app aid c ks1 ks2 r c')
  show ?case
  proof (cases r)
    case None then show ?thesis using create_application_cases [OF create_app(3,2)] create_app(3) by blast
  next
    case (Some i) then show ?thesis using create_application_effect(3) [OF create_app(3,1)] create_app(2) by blast
  qed
next
  case (delete_app c i ok c')
  show ?case
  proof (cases "i < unat (c_num_apps c)")
    case True then show ?thesis using delete_application_effect(2) delete_app by blast
  next
    case False then show ?thesis using delete_app by (simp add: dfc_credential_delete_application_at_def)
  qed
next
  case (create_file c a number f c') then show ?case using create_file_invar by blast
next
  case (delete_file c a number ok c') then show ?case using delete_file_invar by blast
next
  case (resize_file i c n ok c')
  have fi: "file_invar c" using resize_file(3) by (simp add: cred_invar_def)
  have fi': "file_invar c'"
    using dfc_file_resize_effect [OF fi resize_file(1), of n c'] resize_file(2) fi
      dfc_file_resize_eq [OF _ _ resize_file(1), of n]
    by (cases ok) (auto simp: file_invar_def Let_def split: if_splits)
  have "owners_ok c'"
    using owners_of_files [OF map_app_index_meta [OF file_meta_resize [OF fi resize_file(1,2)]]
        dfc_file_resize_num [OF resize_file(2)] file_frame_keys(5) [OF file_frame_resize [OF resize_file(2)]]]
      resize_file(3) by (simp add: cred_invar_def)
  then show ?case by (rule cred_invar_file_step [OF resize_file(3) file_frame_resize [OF resize_file(2)] fi'])
next
  case (set_data_size i c sz ok c')
  have fi: "file_invar c" using set_data_size(3) by (simp add: cred_invar_def)
  note sd = set_data_size_effect [OF fi set_data_size(1,2)]
  have "owners_ok c'"
    using owners_of_files [OF sd(4,3) file_frame_keys(5) [OF sd(2)]] set_data_size(3) by (simp add: cred_invar_def)
  then show ?case by (rule cred_invar_file_step [OF set_data_size(3) sd(2,1)])
next
  case (materialize c scratch ok c')
  have fi: "file_invar c" using materialize(2) by (simp add: cred_invar_def)
  note res = materialize(1) [unfolded dfc_credential_materialize_contents_def]
  have m: "file_invar c'" "c_num_files c' = c_num_files c" using materialize_loop_effect [OF fi res] by auto
  have f: "file_frame c c'" "map f_app_index (c_files c') = map f_app_index (c_files c)"
    using materialize_loop_frame [OF fi res] by (auto simp: owner_frame_def)
  have "owners_ok c'"
    using owners_of_files [OF f(2) m(2) file_frame_keys(5) [OF f(1)]] materialize(2) by (simp add: cred_invar_def)
  then show ?case by (rule cred_invar_file_step [OF materialize(2) f(1) m(1)])
next
  case (picc_keys c n kl ok c') show ?case by (rule keys_resize_invar [OF picc_keys(2) _ picc_keys(1)]) simp
next
  case (app_keys i c n kl ok c')
  show ?case by (rule keys_resize_invar [OF app_keys(3) _ app_keys(2)]) (use app_keys(1) in simp)
next
  case (key_sets i c n_sets n kl mx ok c') then show ?case using key_sets_resize_invar by blast
next
  case (roll i c k scratch ok c') then show ?case using roll_invar by blast
next
  case (format c) then show ?case using format_picc_effect(1) by blast
next
  case (clear c ok c') then show ?case using clear_effect(1) [of c' c] by simp
next
  case (factory uid c ok c') then show ?case using init_factory_effect(2) by blast
next
  case (blank uid c ok c') then show ?case using init_blank_effect(2) by blast
qed

definition blank_credential :: DfcCredential where
  "blank_credential = snd (dfc_credential_init_blank (Some [1, 2, 3, 4, 5, 6, 7]) zero_credential)"

lemma blank_credential:
  "cred_invar blank_credential" "unat (c_num_apps blank_credential) = 1" "unat (c_num_files blank_credential) = 1"
  "dfc_credential_find_application_desfire_order blank_credential [0x01, 0x00, 0x00] = Some 0"
  "file_bytes blank_credential 0 = replicate 256 0"
proof -
  have u: "length [1, 2, 3, 4, 5, 6, 7 :: u8] = DFC_DESFIRE_UID_LEN" by (simp add: DFC_DESFIRE_UID_LEN_def)
  note e = init_blank_effect [OF u prod.collapse [symmetric], of zero_credential, folded blank_credential_def]
  show "cred_invar blank_credential" by (rule e(2))
  show "unat (c_num_apps blank_credential) = 1" "unat (c_num_files blank_credential) = 1" using e(3,4) by simp_all
  show "dfc_credential_find_application_desfire_order blank_credential [0x01, 0x00, 0x00] = Some 0" by (rule e(6))
  show "file_bytes blank_credential 0 = replicate 256 0" using e(5) by (simp add: DFC_BLANK_FILE_SIZE_def)
qed

text \<open>
  C2. Every credential the operations can reach from cleared storage is well formed: the slices
  of files, keys and key-set metadata lie disjoint inside their pools and account for every used
  octet, octets past the used part are wiped, free application slots are reset and every file
  belongs to a live application or to the card.
\<close>

theorem reachable_credential_invariant:
  assumes "reachable_credential c"
  shows "cred_invar c"
  using assms by induction (auto intro: clear_effect(1) cred_step_invar)

theorem reachable_credential_invariant_witness:
  "cred_invar (snd (dfc_credential_delete_application_at
     (snd (dfc_credential_init_blank (Some [1, 2, 3, 4, 5, 6, 7]) (snd (dfc_credential_clear zero_credential)))) 0))"
proof (rule reachable_credential_invariant, rule reachable_credential.step, rule reachable_credential.step)
  show "reachable_credential (snd (dfc_credential_clear zero_credential))" by (rule reachable_credential.start)
  show "cred_step (snd (dfc_credential_clear zero_credential)) (snd (dfc_credential_init_blank
      (Some [1, 2, 3, 4, 5, 6, 7]) (snd (dfc_credential_clear zero_credential))))"
    by (rule cred_step.blank [OF _ prod.collapse [symmetric]]) (simp add: DFC_DESFIRE_UID_LEN_def)
qed (rule cred_step.delete_app [OF prod.collapse [symmetric]])

text \<open>
  C24. Deleting an application removes exactly it: its files disappear with their octets, the
  applications after it move down one place together with their keys and key-set metadata, the
  files of those follow their owner, card-level files and the card's keys stay, and nothing
  outside the two stores changes.
\<close>

theorem dfc_credential_delete_application_at_correct:
  assumes inv: "cred_invar c" and i: "i < unat (c_num_apps c)"
    and res: "dfc_credential_delete_application_at c i = (ok, c')"
  shows "ok \<and> cred_invar c' \<and> unat (c_num_apps c') = unat (c_num_apps c) - 1 \<and> stores_frame c c' \<and>
    file_view c' = without_app_files i (file_view c) \<and> key_bytes c' None = key_bytes c None \<and>
    (\<forall>j. j + 1 < unat (c_num_apps c) \<longrightarrow> app_moved (c_apps c ! skip_app i j) (c_apps c' ! j) \<and>
       key_bytes c' (Some j) = key_bytes c (Some (skip_app i j)) \<and> meta_bytes c' j = meta_bytes c (skip_app i j))"
  using delete_application_effect [OF inv i res] by simp

theorem dfc_credential_delete_application_at_correct_witness:
  "\<exists>c'. dfc_credential_delete_application_at blank_credential 0 = (True, c') \<and> cred_invar c' \<and>
     unat (c_num_apps c') = 0 \<and> key_bytes c' None = key_bytes blank_credential None"
  using dfc_credential_delete_application_at_correct [OF blank_credential(1) _ prod.collapse [symmetric], of 0]
  by (auto simp: blank_credential(2) intro!: exI [of _ "snd (dfc_credential_delete_application_at blank_credential 0)"]
      prod_eqI)

text \<open>
  C25. An application is created exactly when a slot is free, the identifier is new, the key
  count is between one and fourteen and the key pool has room. A refused request leaves the
  credential untouched; an accepted one adds exactly one application, found under its
  identifier, with zeroed keys, and keeps every other application, key and file.
\<close>

theorem dfc_credential_create_application_correct:
  assumes inv: "cred_invar c" and aid: "length aid = 3"
    and res: "dfc_credential_create_application_desfire_order c aid ks1 ks2 = (r, c')"
  shows "(r \<noteq> None) = create_app_allowed c aid ks2 \<and>
    (if r = None then c' = c
     else let i = unat (c_num_apps c); nk = unat (ks2 AND DFC_NUM_KEYS_MASK) in
       r = Some i \<and> unat (c_num_apps c') = Suc i \<and> cred_invar c' \<and> stores_frame c c' \<and>
       file_view c' = file_view c \<and> dfc_credential_find_application_desfire_order c' aid = Some i \<and>
       a_aid (c_apps c' ! i) = rev aid \<and> a_key_settings_1 (c_apps c' ! i) = ks1 \<and>
       a_key_settings_2 (c_apps c' ! i) = ks2 \<and> unat (a_num_keys (c_apps c' ! i)) = nk \<and>
       key_bytes c' (Some i) =
         replicate (nk * dfc_credential_stored_key_length (dfc_credential_key_length ks2)) 0 \<and>
       (\<forall>o'. owner_ok o' \<and> o' \<noteq> Some i \<longrightarrow> key_bytes c' o' = key_bytes c o') \<and>
       (\<forall>j. j < DFC_MAX_APPS \<and> j \<noteq> i \<longrightarrow> app_moved (c_apps c ! j) (c_apps c' ! j)))"
proof (rule create_application_cases [OF inv res])
  assume "\<not> create_app_allowed c aid ks2" "r = None" "c' = c"
  then show ?thesis by simp
next
  fix c2 assume al: "create_app_allowed c aid ks2" and r: "r = Some (unat (c_num_apps c))"
  note eff = create_application_effect [OF inv aid res [unfolded r]]
  show ?thesis using al eff unfolding r Let_def by simp
qed

theorem dfc_credential_create_application_correct_witness:
  "fst (dfc_credential_create_application_desfire_order blank_credential [0x01, 0x00, 0x00] 0x0F 0x81) = None \<and>
   snd (dfc_credential_create_application_desfire_order blank_credential [0x01, 0x00, 0x00] 0x0F 0x81) =
     blank_credential"
proof -
  have "\<not> create_app_allowed blank_credential [0x01, 0x00, 0x00] 0x81"
    by (simp add: create_app_allowed_def blank_credential(4))
  moreover have "length [0x01, 0x00, 0x00 :: u8] = 3" by simp
  note dfc_credential_create_application_correct [OF blank_credential(1) this prod.collapse [symmetric],
      of "0x0F" "0x81"]
  ultimately show ?thesis by (simp split: if_splits)
qed

text \<open>
  C26. Formatting the card keeps exactly the card's own keys, at the head of the key pool, and
  erases everything else in the stores: no application and no file remains and every other
  octet of the three pools is zero.
\<close>

theorem dfc_credential_format_picc_correct:
  assumes "cred_invar c"
  shows "let c' = dfc_credential_format_picc c in
    cred_invar c' \<and> stores_frame c c' \<and> c_num_apps c' = 0 \<and> file_view c' = [] \<and>
    c_apps c' = replicate DFC_MAX_APPS dfc_credential_reset_application \<and>
    key_bytes c' None = key_bytes c None \<and>
    c_key_pool c' = key_bytes c None @ replicate (DFC_KEY_POOL_SIZE - length (key_bytes c None)) 0 \<and>
    c_key_set_metadata_pool c' = replicate DFC_KEY_SET_METADATA_POOL_SIZE 0 \<and>
    c_file_pool c' = replicate DFC_FILE_POOL_SIZE 0"
  using format_picc_fields [OF assms refl] format_picc_effect [OF assms refl] by (simp add: Let_def)

theorem dfc_credential_format_picc_correct_witness:
  "c_num_apps (dfc_credential_format_picc blank_credential) = 0 \<and>
   c_file_pool (dfc_credential_format_picc blank_credential) = replicate DFC_FILE_POOL_SIZE 0"
  using dfc_credential_format_picc_correct [OF blank_credential(1)] by (simp add: Let_def)



end
