(* ===== verification/Dfc_Crypto.thy ===== *)
theory Dfc_Crypto
  imports Dfc_Common
begin

text \<open>
  The block-cipher adapter of \<^verbatim>\<open>src/dfc_crypto.c\<close> over mbedTLS and the DES chain of
  \<^verbatim>\<open>src/dfc_crypto_des_chain.c\<close>. The mbedTLS calls are the fields of
  \<open>mbedtls\<close>, with \<open>None\<close> for a non-zero result. A prepared block
  (\<^verbatim>\<open>DfcCryptoAesBlock\<close>, \<^verbatim>\<open>DfcCryptoDesBlock\<close>) is the key context
  mbedTLS filled in, \<open>None\<close> while its \<^verbatim>\<open>initialized\<close> flag is false.
\<close>

record 'x mbedtls =
  aes_setkey :: "bool \<Rightarrow> bytes \<Rightarrow> 'x option"
  aes_crypt_ecb :: "'x \<Rightarrow> bytes \<Rightarrow> bytes option"
  aes_crypt_cbc :: "'x \<Rightarrow> bool \<Rightarrow> bytes \<Rightarrow> bytes \<Rightarrow> (bytes \<times> bytes) option"
  des_setkey :: "bool \<Rightarrow> bytes \<Rightarrow> 'x option"
  des_crypt_ecb :: "'x \<Rightarrow> bytes \<Rightarrow> bytes option"
  des_crypt_cbc :: "'x \<Rightarrow> bool \<Rightarrow> bytes \<Rightarrow> bytes \<Rightarrow> (bytes \<times> bytes) option"

subsection \<open>The adapter\<close>

definition dfc_crypto_aes_block_init :: "'x mbedtls \<Rightarrow> bytes option \<Rightarrow> size_t \<Rightarrow> 'x option" where
  "dfc_crypto_aes_block_init lib key key_len =
     (case key of
        None \<Rightarrow> None
      | Some k \<Rightarrow> if key_len \<noteq> 16 then None else aes_setkey lib True (take 16 k))"

definition dfc_crypto_aes_block_encrypt :: "'x mbedtls \<Rightarrow> 'x option \<Rightarrow> bytes \<Rightarrow> bytes option" where
  "dfc_crypto_aes_block_encrypt lib block inp =
     (case block of None \<Rightarrow> None | Some ctx \<Rightarrow> aes_crypt_ecb lib ctx inp)"

definition dfc_crypto_aes_block_clear :: "'x option \<Rightarrow> 'x option" where
  "dfc_crypto_aes_block_clear block = None"

definition dfc_crypto_des_block_init :: "'x mbedtls \<Rightarrow> bool \<Rightarrow> bytes option \<Rightarrow> size_t \<Rightarrow> 'x option" where
  "dfc_crypto_des_block_init lib encrypt key key_len =
     (case key of
        None \<Rightarrow> None
      | Some k \<Rightarrow> if key_len \<noteq> 8 \<and> key_len \<noteq> 16 \<and> key_len \<noteq> 24 then None
                  else des_setkey lib encrypt (take key_len k))"

definition dfc_crypto_des_block_crypt :: "'x mbedtls \<Rightarrow> 'x option \<Rightarrow> bytes \<Rightarrow> bytes option" where
  "dfc_crypto_des_block_crypt lib block inp =
     (case block of None \<Rightarrow> None | Some ctx \<Rightarrow> des_crypt_ecb lib ctx inp)"

definition dfc_crypto_des_block_clear :: "'x option \<Rightarrow> 'x option" where
  "dfc_crypto_des_block_clear block = None"

text \<open>A CBC call answers with the output and the updated chaining value.\<close>

definition dfc_crypto_aes_cbc ::
  "'x mbedtls \<Rightarrow> bool \<Rightarrow> bytes option \<Rightarrow> size_t \<Rightarrow> bytes \<Rightarrow> bytes \<Rightarrow> (bytes \<times> bytes) option" where
  "dfc_crypto_aes_cbc lib encrypt key key_len iv inp =
     (case key of
        None \<Rightarrow> None
      | Some k \<Rightarrow>
          if key_len \<noteq> 16 \<or> length inp mod 16 \<noteq> 0 then None
          else case aes_setkey lib encrypt (take 16 k) of
            None \<Rightarrow> None
          | Some ctx \<Rightarrow> aes_crypt_cbc lib ctx encrypt iv inp)"

definition dfc_crypto_des_cbc ::
  "'x mbedtls \<Rightarrow> bool \<Rightarrow> bytes option \<Rightarrow> size_t \<Rightarrow> bytes \<Rightarrow> bytes \<Rightarrow> (bytes \<times> bytes) option" where
  "dfc_crypto_des_cbc lib encrypt key key_len iv inp =
     (if key = None \<or> (key_len \<noteq> 8 \<and> key_len \<noteq> 16 \<and> key_len \<noteq> 24) \<or> length inp mod 8 \<noteq> 0 then None
      else case dfc_crypto_des_block_init lib encrypt key key_len of
        None \<Rightarrow> None
      | Some ctx \<Rightarrow> des_crypt_cbc lib ctx encrypt iv inp)"

definition dfc_crypto_des_ecb :: "'x mbedtls \<Rightarrow> bool \<Rightarrow> bytes option \<Rightarrow> size_t \<Rightarrow> bytes \<Rightarrow> bytes option" where
  "dfc_crypto_des_ecb lib encrypt key key_len inp =
     (case dfc_crypto_des_block_init lib encrypt key key_len of
        None \<Rightarrow> None
      | Some ctx \<Rightarrow> dfc_crypto_des_block_crypt lib (Some ctx) inp)"

definition dfc_worker_des_cbc_decrypt ::
  "'x mbedtls \<Rightarrow> bytes option \<Rightarrow> size_t \<Rightarrow> bytes \<Rightarrow> bytes \<Rightarrow> (bytes \<times> bytes) option" where
  "dfc_worker_des_cbc_decrypt lib key key_len iv encrypted = dfc_crypto_des_cbc lib False key key_len iv encrypted"

definition dfc_worker_des_cbc_encrypt ::
  "'x mbedtls \<Rightarrow> bytes option \<Rightarrow> size_t \<Rightarrow> bytes \<Rightarrow> bytes \<Rightarrow> (bytes \<times> bytes) option" where
  "dfc_worker_des_cbc_encrypt lib key key_len iv clear = dfc_crypto_des_cbc lib True key key_len iv clear"

definition dfc_worker_aes_cbc_decrypt ::
  "'x mbedtls \<Rightarrow> bytes option \<Rightarrow> size_t \<Rightarrow> bytes \<Rightarrow> bytes \<Rightarrow> (bytes \<times> bytes) option" where
  "dfc_worker_aes_cbc_decrypt lib key key_len iv encrypted = dfc_crypto_aes_cbc lib False key key_len iv encrypted"

definition dfc_worker_aes_cbc_encrypt ::
  "'x mbedtls \<Rightarrow> bytes option \<Rightarrow> size_t \<Rightarrow> bytes \<Rightarrow> bytes \<Rightarrow> (bytes \<times> bytes) option" where
  "dfc_worker_aes_cbc_encrypt lib key key_len iv clear = dfc_crypto_aes_cbc lib True key key_len iv clear"

subsection \<open>The DES chain\<close>

datatype DfcCryptoDesChainDirection = DfcCryptoDesChainForward | DfcCryptoDesChainReverse

text \<open>
  The caller may pass one buffer as input and output: the input \<open>None\<close> stands for the
  output buffer itself, so that a block is read from what the loop has left there.
\<close>

function des_chain_loop ::
  "'x mbedtls \<Rightarrow> 'x option \<Rightarrow> DfcCryptoDesChainDirection \<Rightarrow> bytes option \<Rightarrow> size_t \<Rightarrow> size_t \<Rightarrow>
   bytes \<Rightarrow> bytes \<Rightarrow> bool \<times> bytes" where
  "des_chain_loop lib cipher direction inp len offset previous out =
     (if offset < len then
        let source = mem_read offset 8 (case inp of Some i \<Rightarrow> i | None \<Rightarrow> out) in
        (case direction of
           DfcCryptoDesChainForward \<Rightarrow>
             (case dfc_crypto_des_block_crypt lib cipher (xor_bytes source previous) of
                None \<Rightarrow> (False, out)
              | Some y \<Rightarrow> des_chain_loop lib cipher direction inp len (offset + 8) y (mem_write offset y out))
         | DfcCryptoDesChainReverse \<Rightarrow>
             (case dfc_crypto_des_block_crypt lib cipher source of
                None \<Rightarrow> (False, out)
              | Some y \<Rightarrow> des_chain_loop lib cipher direction inp len (offset + 8) source
                            (mem_write offset (xor_bytes y previous) out)))
      else (True, out))"
  by pat_completeness auto
termination
  by (relation "measure (\<lambda>(lib, cipher, direction, inp, len, offset, previous, out). len - offset)") auto

declare des_chain_loop.simps [simp del]

definition dfc_crypto_des_chain ::
  "'x mbedtls \<Rightarrow> bool \<Rightarrow> DfcCryptoDesChainDirection \<Rightarrow> bytes option \<Rightarrow> size_t \<Rightarrow> bytes \<Rightarrow> bytes option \<Rightarrow>
   bytes \<Rightarrow> size_t \<Rightarrow> bool \<times> bytes" where
  "dfc_crypto_des_chain lib primitive_encrypt direction key key_len iv inp out len =
     (if key = None \<or> len mod 8 \<noteq> 0 then (False, mem_set 0 0 len out)
      else case dfc_crypto_des_block_init lib primitive_encrypt key key_len of
        None \<Rightarrow> (False, mem_set 0 0 len out)
      | Some ctx \<Rightarrow>
          (case des_chain_loop lib (Some ctx) direction inp len 0 iv out of
             (True, out') \<Rightarrow> (True, out')
           | (False, out') \<Rightarrow> (False, mem_set 0 0 len out')))"

subsection \<open>Blocks\<close>

text \<open>The octets of a message in blocks of \<open>n\<close>, the last one possibly shorter.\<close>

fun chunks :: "nat \<Rightarrow> 'a list \<Rightarrow> 'a list list" where
  "chunks n xs = (if n = 0 \<or> xs = [] then [] else take n xs # chunks n (drop n xs))"

declare chunks.simps [simp del]

lemma chunks_Nil [simp]: "chunks n [] = []"
  by (simp add: chunks.simps)

lemma chunks_block: "length b = n \<Longrightarrow> 0 < n \<Longrightarrow> chunks n (b @ xs) = b # chunks n xs"
  by (subst chunks.simps) auto

lemma chunks_concat: "list_all (\<lambda>b. length b = n) bs \<Longrightarrow> 0 < n \<Longrightarrow> chunks n (concat bs) = bs"
  by (induction bs) (auto simp: chunks_block)

lemma concat_chunks: "0 < n \<Longrightarrow> concat (chunks n xs) = xs"
proof (induction n xs rule: chunks.induct)
  case (1 n xs)
  then show ?case by (cases "xs = []") (simp_all add: chunks.simps [of n xs])
qed

lemma chunks_exact: "n dvd length xs \<Longrightarrow> 0 < n \<Longrightarrow> list_all (\<lambda>b. length b = n) (chunks n xs)"
proof (induction n xs rule: chunks.induct)
  case (1 n xs)
  show ?case
  proof (cases "xs = []")
    case False
    have "n \<le> length xs" using 1(2) False by (simp add: dvd_imp_le)
    moreover have "n dvd length (drop n xs)" using 1(2) by simp
    ultimately show ?thesis using 1(1) [OF _ _ 1(3)] 1(3) False by (simp add: chunks.simps [of n xs])
  qed simp
qed

lemma chunks_append:
  assumes "n dvd length xs" "0 < n"
  shows "chunks n (xs @ ys) = chunks n xs @ chunks n ys"
proof -
  have "chunks n (concat bs @ ys) = bs @ chunks n ys" if "list_all (\<lambda>b. length b = n) bs" for bs
    using that assms(2) by (induction bs) (auto simp: chunks_block)
  from this [OF chunks_exact [OF assms]] show ?thesis by (simp add: concat_chunks assms(2))
qed

lemma length_chunks: "n dvd length xs \<Longrightarrow> 0 < n \<Longrightarrow> length (chunks n xs) = length xs div n"
proof -
  assume *: "n dvd length xs" "0 < n"
  have "length (concat bs) = n * length bs" if "list_all (\<lambda>b. length b = n) bs" for bs :: "'a list list"
    using that by (induction bs) auto
  from this [OF chunks_exact [OF *]] show ?thesis by (simp add: concat_chunks *(2))
qed

subsection \<open>The chain against a block-wise reference\<close>

text \<open>What the code relies on from mbedTLS: a successful call writes a whole block.\<close>

definition block_library :: "'x mbedtls \<Rightarrow> bool" where
  "block_library lib \<longleftrightarrow>
     (\<forall>ctx x y. aes_crypt_ecb lib ctx x = Some y \<longrightarrow> length y = 16) \<and>
     (\<forall>ctx x y. des_crypt_ecb lib ctx x = Some y \<longrightarrow> length y = 8)"

lemma block_library_des:
  "block_library lib \<Longrightarrow> dfc_crypto_des_block_crypt lib cipher x = Some y \<Longrightarrow> length y = 8"
  by (auto simp: block_library_def dfc_crypto_des_block_crypt_def split: option.splits)

lemma block_library_aes:
  "block_library lib \<Longrightarrow> dfc_crypto_aes_block_encrypt lib cipher x = Some y \<Longrightarrow> length y = 16"
  by (auto simp: block_library_def dfc_crypto_aes_block_encrypt_def split: option.splits)

fun chain_blocks ::
  "(bytes \<Rightarrow> bytes option) \<Rightarrow> DfcCryptoDesChainDirection \<Rightarrow> bytes \<Rightarrow> bytes list \<Rightarrow> bytes list option" where
  "chain_blocks enc direction prev [] = Some []"
| "chain_blocks enc DfcCryptoDesChainForward prev (b # bs) =
     (case enc (xor_bytes b prev) of
        None \<Rightarrow> None
      | Some y \<Rightarrow> map_option ((#) y) (chain_blocks enc DfcCryptoDesChainForward y bs))"
| "chain_blocks enc DfcCryptoDesChainReverse prev (b # bs) =
     (case enc b of
        None \<Rightarrow> None
      | Some y \<Rightarrow> map_option ((#) (xor_bytes y prev)) (chain_blocks enc DfcCryptoDesChainReverse b bs))"

lemma chain_blocks_lengths:
  assumes enc: "\<And>x y. enc x = Some y \<Longrightarrow> length y = n"
  shows "chain_blocks enc d prev bs = Some ys \<Longrightarrow> length prev = n \<Longrightarrow> list_all (\<lambda>b. length b = n) bs \<Longrightarrow>
    length ys = length bs \<and> list_all (\<lambda>b. length b = n) ys"
proof (induction bs arbitrary: prev ys)
  case (Cons b bs)
  then show ?case using enc by (cases d) (fastforce split: option.splits)+
qed simp

lemma mem_write_append:
  assumes "off + length a + length b \<le> length buf"
  shows "mem_write (off + length a) b (mem_write off a buf) = mem_write off (a @ b) buf"
  using assms by (simp add: mem_write_def ac_simps)

lemma chunks_mem_read:
  assumes "offset + 8 * Suc k \<le> length src"
  shows "chunks 8 (mem_read offset (8 * Suc k) src) =
    mem_read offset 8 src # chunks 8 (mem_read (offset + 8) (8 * k) src)"
proof -
  have "mem_read offset (8 * Suc k) src = mem_read offset 8 src @ mem_read (offset + 8) (8 * k) src"
    using take_add [of 8 "8 * k" "drop offset src"] by (simp add: mem_read_def add.commute)
  then show ?thesis using assms by (simp add: chunks_block)
qed

abbreviation chain_source :: "bytes option \<Rightarrow> bytes \<Rightarrow> bytes" where
  "chain_source inp out \<equiv> (case inp of Some i \<Rightarrow> i | None \<Rightarrow> out)"

text \<open>Writing a finished block leaves the unread input alone, also when both are one buffer.\<close>

lemma chain_source_write:
  assumes "offset + 8 + n \<le> length (chain_source inp out)" "length z = 8" "offset + 8 + n \<le> length out"
  shows "mem_read (offset + 8) n (chain_source inp (mem_write offset z out)) =
    mem_read (offset + 8) n (chain_source inp out)"
  using assms by (cases inp) (auto intro!: mem_read_write_other)

definition chain_result ::
  "bytes list option \<Rightarrow> size_t \<Rightarrow> size_t \<Rightarrow> bytes \<Rightarrow> bool \<times> bytes \<Rightarrow> bool" where
  "chain_result blocks offset len out r \<longleftrightarrow>
     (case blocks of
        None \<Rightarrow> \<not> fst r \<and> length (snd r) = length out \<and> drop len (snd r) = drop len out
      | Some ys \<Rightarrow> r = (True, mem_write offset (concat ys) out))"

lemma chain_result_step:
  assumes res: "chain_result blocks (offset + 8) len (mem_write offset z out) r" and z: "length z = 8"
    and len: "len = offset + 8 * Suc k" "len \<le> length out"
    and ys: "\<And>ys. blocks = Some ys \<Longrightarrow> length (concat ys) = 8 * k"
  shows "chain_result (map_option ((#) z) blocks) offset len out r"
proof (cases blocks)
  case None
  then show ?thesis using res z len by (simp add: chain_result_def mem_write_def ac_simps)
next
  case (Some bs)
  then show ?thesis using res z len ys [OF Some] mem_write_append [of offset z "concat bs" out]
    by (simp add: chain_result_def)
qed

lemma concat_length_const: "list_all (\<lambda>b. length b = n) bs \<Longrightarrow> length (concat bs) = n * length bs"
  by (induction bs) auto

lemma des_chain_loop_eq:
  assumes lib: "block_library lib"
  shows "len = offset + 8 * k \<Longrightarrow> len \<le> length out \<Longrightarrow> length previous = 8 \<Longrightarrow> len \<le> length (chain_source inp out) \<Longrightarrow>
    chain_result (chain_blocks (dfc_crypto_des_block_crypt lib cipher) direction previous
      (chunks 8 (mem_read offset (8 * k) (chain_source inp out)))) offset len out
      (des_chain_loop lib cipher direction inp len offset previous out)"
proof (induction k arbitrary: offset previous out)
  case 0
  then show ?case by (simp add: des_chain_loop.simps chain_result_def)
next
  case (Suc k)
  let ?enc = "dfc_crypto_des_block_crypt lib cipher" and ?b = "mem_read offset 8 (chain_source inp out)"
  let ?rest = "chunks 8 (mem_read (offset + 8) (8 * k) (chain_source inp out))"
  have off: "offset < len" using Suc.prems(1) by simp
  have split: "chunks 8 (mem_read offset (8 * Suc k) (chain_source inp out)) = ?b # ?rest"
    by (rule chunks_mem_read) (use Suc.prems in simp)
  have lb: "length ?b = 8" using Suc.prems by simp
  have lrest: "8 dvd length (mem_read (offset + 8) (8 * k) (chain_source inp out))"
    "length (mem_read (offset + 8) (8 * k) (chain_source inp out)) = 8 * k" using Suc.prems by simp_all
  have lens: "length (concat ys) = 8 * k"
    if "chain_blocks ?enc direction p ?rest = Some ys" "length p = 8" for p ys
    using chain_blocks_lengths [OF block_library_des [OF lib] that chunks_exact [OF lrest(1)]]
      length_chunks [OF lrest(1)] lrest(2) concat_length_const by fastforce
  have step: "chain_result (map_option ((#) z) (chain_blocks ?enc direction p ?rest)) offset len out
      (des_chain_loop lib cipher direction inp len (offset + 8) p (mem_write offset z out))"
    if z: "length z = 8" and p: "length p = 8" for z p
  proof (rule chain_result_step [OF _ z Suc.prems(1,2) lens [OF _ p]])
    have src: "mem_read (offset + 8) (8 * k) (chain_source inp (mem_write offset z out)) =
        mem_read (offset + 8) (8 * k) (chain_source inp out)"
      by (rule chain_source_write) (use Suc.prems z in auto)
    have l1: "length (mem_write offset z out) = length out" using Suc.prems(1,2) z by simp
    have l2: "len \<le> length (chain_source inp (mem_write offset z out))"
      using Suc.prems(4) l1 by (auto split: option.splits)
    show "chain_result (chain_blocks ?enc direction p ?rest) (offset + 8) len (mem_write offset z out)
        (des_chain_loop lib cipher direction inp len (offset + 8) p (mem_write offset z out))"
      using Suc.IH [of "offset + 8" "mem_write offset z out" p] Suc.prems l1 l2 p src by simp
  qed
  show ?case
  proof (cases direction)
    case DfcCryptoDesChainForward
    then show ?thesis
      unfolding split using step [OF block_library_des [OF lib] block_library_des [OF lib]] off
      by (subst des_chain_loop.simps)
        (cases "?enc (xor_bytes ?b previous)", simp_all add: chain_result_def [of None])
  next
    case DfcCryptoDesChainReverse
    have "length (xor_bytes y previous) = 8" if "?enc ?b = Some y" for y
      using block_library_des [OF lib that] Suc.prems(3) by simp
    with DfcCryptoDesChainReverse show ?thesis
      unfolding split using step [OF _ lb] off
      by (subst des_chain_loop.simps) (cases "?enc ?b", simp_all add: chain_result_def [of None])
  qed
qed

definition des_chain_reference ::
  "'x mbedtls \<Rightarrow> bool \<Rightarrow> DfcCryptoDesChainDirection \<Rightarrow> bytes option \<Rightarrow> size_t \<Rightarrow> bytes \<Rightarrow> bytes \<Rightarrow> bytes option" where
  "des_chain_reference lib primitive_encrypt direction key key_len iv msg =
     (if length msg mod 8 \<noteq> 0 then None
      else case dfc_crypto_des_block_init lib primitive_encrypt key key_len of
        None \<Rightarrow> None
      | Some ctx \<Rightarrow> map_option concat
          (chain_blocks (dfc_crypto_des_block_crypt lib (Some ctx)) direction iv (chunks 8 msg)))"

lemma des_block_init_NULL [simp]: "dfc_crypto_des_block_init lib e None n = None"
  by (simp add: dfc_crypto_des_block_init_def)

lemma des_chain_eq:
  assumes lib: "block_library lib" and iv: "length iv = 8" and len: "len \<le> length out"
    "len \<le> length (chain_source inp out)"
  shows "dfc_crypto_des_chain lib pe direction key key_len iv inp out len =
    (case des_chain_reference lib pe direction key key_len iv (take len (chain_source inp out)) of
       None \<Rightarrow> (False, replicate len 0 @ drop len out)
     | Some result \<Rightarrow> (True, result @ drop len out))"
proof (cases "dfc_crypto_des_block_init lib pe key key_len = None \<or> len mod 8 \<noteq> 0")
  case True
  then show ?thesis
    using len by (auto simp: dfc_crypto_des_chain_def des_chain_reference_def mem_set_def mem_write_def)
next
  case False
  then obtain ctx where ctx: "dfc_crypto_des_block_init lib pe key key_len = Some ctx" and m: "len mod 8 = 0"
    by auto
  have k: "key \<noteq> None" using ctx by (cases key) auto
  obtain n where n: "len = 0 + 8 * n" using m by auto
  let ?src = "chain_source inp out" and ?enc = "dfc_crypto_des_block_crypt lib (Some ctx)"
  let ?blocks = "chain_blocks ?enc direction iv (chunks 8 (take len ?src))"
  have r: "chain_result ?blocks 0 len out (des_chain_loop lib (Some ctx) direction inp len 0 iv out)"
    using des_chain_loop_eq [OF lib n len(1) iv len(2)] n by (simp add: mem_read_prefix)
  have dv: "8 dvd length (take len ?src)" using len(2) m by (simp add: min_absorb2 dvd_eq_mod_eq_0)
  show ?thesis
  proof (cases ?blocks)
    case None
    then show ?thesis
      using r ctx k m len
      by (cases "des_chain_loop lib (Some ctx) direction inp len 0 iv out")
        (auto simp: dfc_crypto_des_chain_def des_chain_reference_def chain_result_def mem_set_def mem_write_def
          min_absorb2)
  next
    case (Some ys)
    have "length ys = length (chunks 8 (take len ?src))" "list_all (\<lambda>b. length b = 8) ys"
      using chain_blocks_lengths [OF block_library_des [OF lib] Some iv chunks_exact [OF dv]] by simp_all
    then have "length (concat ys) = len"
      using concat_length_const length_chunks [OF dv] len(2) m by (fastforce simp: min_absorb2)
    then show ?thesis
      using r ctx k m len Some
      by (simp add: dfc_crypto_des_chain_def des_chain_reference_def chain_result_def mem_write_def min_absorb2)
  qed
qed

text \<open>What DES promises for a key: both directions accept it and undo each other.\<close>

definition des_inverse :: "'x mbedtls \<Rightarrow> bytes \<Rightarrow> bool" where
  "des_inverse lib key \<longleftrightarrow> (\<exists>e d. des_setkey lib True key = Some e \<and> des_setkey lib False key = Some d \<and>
     (\<forall>x. length x = 8 \<longrightarrow> (\<exists>y. des_crypt_ecb lib e x = Some y \<and> length y = 8 \<and> des_crypt_ecb lib d y = Some x)))"

lemma chain_blocks_inverse:
  assumes inv: "\<And>x. length x = 8 \<Longrightarrow> \<exists>y. enc x = Some y \<and> length y = 8 \<and> dec y = Some x"
  shows "list_all (\<lambda>b. length b = 8) bs \<Longrightarrow> length prev = 8 \<Longrightarrow>
    \<exists>cs. chain_blocks enc DfcCryptoDesChainForward prev bs = Some cs \<and> list_all (\<lambda>b. length b = 8) cs \<and>
      length cs = length bs \<and> chain_blocks dec DfcCryptoDesChainReverse prev cs = Some bs"
proof (induction bs arbitrary: prev)
  case (Cons b bs)
  have l: "length (xor_bytes b prev) = 8" "length b = 8" using Cons.prems by simp_all
  obtain y where y: "enc (xor_bytes b prev) = Some y" "length y = 8" "dec y = Some (xor_bytes b prev)"
    using inv [OF l(1)] by blast
  obtain cs where cs: "chain_blocks enc DfcCryptoDesChainForward y bs = Some cs" "list_all (\<lambda>b. length b = 8) cs"
    "length cs = length bs" "chain_blocks dec DfcCryptoDesChainReverse y cs = Some bs"
    using Cons.IH [of y] Cons.prems y(2) by auto
  show ?case using y cs l Cons.prems by (intro exI [of _ "y # cs"]) simp
qed simp

text \<open>A concrete library: every primitive is the exclusive or with the head of the key.\<close>

definition xor_library :: "bytes mbedtls" where
  "xor_library = \<lparr>aes_setkey = \<lambda>_ k. Some (take 16 (k @ replicate 16 0)),
     aes_crypt_ecb = \<lambda>k x. Some (take 16 (xor_bytes k x @ replicate 16 0)),
     aes_crypt_cbc = \<lambda>k e iv x. Some (x, iv),
     des_setkey = \<lambda>_ k. Some (take 8 (k @ replicate 8 0)),
     des_crypt_ecb = \<lambda>k x. Some (take 8 (xor_bytes x k @ replicate 8 0)),
     des_crypt_cbc = \<lambda>k e iv x. Some (x, iv)\<rparr>"

lemma xor_library [simp]: "block_library xor_library" "length key = 8 \<Longrightarrow> des_inverse xor_library key"
  by (simp_all add: block_library_def des_inverse_def xor_library_def min_def)

text \<open>
  C37. The DES chain computes, for either direction and primitive, exactly the block-wise
  recurrence its header gives. It does so in place as well as between two buffers, never
  touches octets past the length, and wipes the whole output on every failure.
\<close>

theorem dfc_crypto_des_chain_correct:
  assumes "block_library lib" "length iv = 8" "len \<le> length out" "len \<le> length (chain_source inp out)"
  shows "dfc_crypto_des_chain lib pe direction key key_len iv inp out len =
    (case des_chain_reference lib pe direction key key_len iv (take len (chain_source inp out)) of
       None \<Rightarrow> (False, replicate len 0 @ drop len out)
     | Some result \<Rightarrow> (True, result @ drop len out))"
  by (rule des_chain_eq [OF assms])

theorem dfc_crypto_des_chain_correct_witness:
  "dfc_crypto_des_chain xor_library True DfcCryptoDesChainForward (Some [1, 2, 3, 4, 5, 6, 7, 8]) 8
     (replicate 8 0) None (replicate 7 0) 7 = (False, replicate 7 0)"
  using dfc_crypto_des_chain_correct [OF xor_library(1), of "replicate 8 0" 7 "replicate 7 0" None True
      DfcCryptoDesChainForward "Some [1, 2, 3, 4, 5, 6, 7, 8]" 8]
  by (simp add: des_chain_reference_def)

text \<open>
  Chaining forward with the encrypting primitive and then in place backward with the
  decrypting one succeeds and restores the message, for every key whose two primitives are
  inverse to each other.
\<close>

theorem dfc_crypto_des_chain_round_trip:
  assumes lib: "block_library lib" "des_inverse lib (take key_len key)" and kl: "key_len = 8 \<or> key_len = 16 \<or> key_len = 24"
    and iv: "length iv = 8" and msg: "length msg mod 8 = 0" "length out = length msg"
  shows "\<exists>cipher. dfc_crypto_des_chain lib True DfcCryptoDesChainForward (Some key) key_len iv (Some msg) out (length msg) =
      (True, cipher) \<and>
    dfc_crypto_des_chain lib False DfcCryptoDesChainReverse (Some key) key_len iv None cipher (length msg) = (True, msg)"
proof -
  obtain e d where ed: "des_setkey lib True (take key_len key) = Some e" "des_setkey lib False (take key_len key) = Some d"
    and inv: "\<And>x. length x = 8 \<Longrightarrow> \<exists>y. des_crypt_ecb lib e x = Some y \<and> length y = 8 \<and> des_crypt_ecb lib d y = Some x"
    using lib(2) by (auto simp: des_inverse_def)
  let ?enc = "dfc_crypto_des_block_crypt lib (Some e)" and ?dec = "dfc_crypto_des_block_crypt lib (Some d)"
  have init: "dfc_crypto_des_block_init lib True (Some key) key_len = Some e"
    "dfc_crypto_des_block_init lib False (Some key) key_len = Some d"
    using kl ed by (auto simp: dfc_crypto_des_block_init_def)
  have dv: "8 dvd length msg" using msg(1) by (simp add: dvd_eq_mod_eq_0)
  obtain cs where cs: "chain_blocks ?enc DfcCryptoDesChainForward iv (chunks 8 msg) = Some cs"
    "list_all (\<lambda>b. length b = 8) cs" "length cs = length (chunks 8 msg)"
    "chain_blocks ?dec DfcCryptoDesChainReverse iv cs = Some (chunks 8 msg)"
    using chain_blocks_inverse [of ?enc ?dec, OF _ chunks_exact [OF dv] iv] inv
    by (auto simp: dfc_crypto_des_block_crypt_def)
  have lc: "length (concat cs) = length msg"
    using concat_length_const [OF cs(2)] cs(3) length_chunks [OF dv] dv by simp
  have "des_chain_reference lib True DfcCryptoDesChainForward (Some key) key_len iv msg = Some (concat cs)"
    using init cs(1) msg(1) by (simp add: des_chain_reference_def)
  moreover have "des_chain_reference lib False DfcCryptoDesChainReverse (Some key) key_len iv (concat cs) = Some msg"
    using init cs lc msg(1) by (simp add: des_chain_reference_def chunks_concat concat_chunks)
  ultimately show ?thesis
    using des_chain_eq [OF lib(1) iv, of "length msg" out "Some msg" True DfcCryptoDesChainForward "Some key" key_len]
      des_chain_eq [OF lib(1) iv, of "length msg" "concat cs" None False DfcCryptoDesChainReverse "Some key" key_len]
      msg lc by (intro exI [of _ "concat cs"]) simp
qed

theorem dfc_crypto_des_chain_round_trip_witness:
  "\<exists>cipher. dfc_crypto_des_chain xor_library True DfcCryptoDesChainForward (Some [1, 2, 3, 4, 5, 6, 7, 8]) 8
      (replicate 8 0) (Some (replicate 16 5)) (replicate 16 0) 16 = (True, cipher) \<and>
    dfc_crypto_des_chain xor_library False DfcCryptoDesChainReverse (Some [1, 2, 3, 4, 5, 6, 7, 8]) 8
      (replicate 8 0) None cipher 16 = (True, replicate 16 5)"
  using dfc_crypto_des_chain_round_trip [of xor_library 8 "[1, 2, 3, 4, 5, 6, 7, 8]" "replicate 8 0"
      "replicate 16 5" "replicate 16 0"] by simp

end
