(* ===== verification/Dfc_Cmac.thy ===== *)
theory Dfc_Cmac
  imports Dfc_Crypto
begin

text \<open>
  The CMAC implementations of \<^verbatim>\<open>src/aes_cmac.c\<close> and \<^verbatim>\<open>src/des_cmac.c\<close>. The two
  files are the same code for two values of \<^verbatim>\<open>BLOCK_SIZE\<close>, two reduction constants
  and two ciphers, so each function is written once over the kind of the cipher and the
  functions of the two files are its instances. A result is the returned flag and the octets
  left in the caller's \<^verbatim>\<open>cmac\<close> buffer.
\<close>

datatype CmacKind = AesCmac | DesCmac

fun CMAC_BLOCK_SIZE :: "CmacKind \<Rightarrow> size_t" where
  "CMAC_BLOCK_SIZE AesCmac = 16"
| "CMAC_BLOCK_SIZE DesCmac = 8"

fun cmac_reduction :: "CmacKind \<Rightarrow> u8" where
  "cmac_reduction AesCmac = 0x87"
| "cmac_reduction DesCmac = 0x1b"

fun cmac_block_init :: "CmacKind \<Rightarrow> 'x mbedtls \<Rightarrow> bytes option \<Rightarrow> size_t \<Rightarrow> 'x option" where
  "cmac_block_init AesCmac lib key key_len = dfc_crypto_aes_block_init lib key key_len"
| "cmac_block_init DesCmac lib key key_len = dfc_crypto_des_block_init lib True key key_len"

fun cmac_block_encrypt :: "CmacKind \<Rightarrow> 'x mbedtls \<Rightarrow> 'x option \<Rightarrow> bytes \<Rightarrow> bytes option" where
  "cmac_block_encrypt AesCmac lib cipher x = dfc_crypto_aes_block_encrypt lib cipher x"
| "cmac_block_encrypt DesCmac lib cipher x = dfc_crypto_des_block_crypt lib cipher x"

datatype DfcCmacFinalMode = DfcCmacFinalStandard | DfcCmacFinalPrePadded

record DfcCryptoSegment =
  seg_data :: "bytes option"
  seg_length :: size_t

text \<open>\<^verbatim>\<open>DfcAesCmacContext\<close> and \<^verbatim>\<open>DfcDesCmacContext\<close>.\<close>

record 'x DfcCmacContext =
  ctx_cipher :: "'x option"
  subkey1 :: bytes
  subkey2 :: bytes
  ctx_initialized :: bool

definition dfc_cmac_xor_in_place :: "bytes \<Rightarrow> bytes \<Rightarrow> size_t \<Rightarrow> bytes" where
  "dfc_cmac_xor_in_place value msk len = xor_bytes (take len value) (take len msk) @ drop len value"

definition cmac_padBlock :: "bytes \<Rightarrow> size_t \<Rightarrow> bytes" where
  "cmac_padBlock block len = block[len := 0x80]"

definition cmac_bitShiftLeft :: "bytes \<Rightarrow> size_t \<Rightarrow> bytes" where
  "cmac_bitShiftLeft inp len =
     map (\<lambda>i. if i < len - 1
              then push_bit 1 (inp ! i) + (if inp ! (i + 1) AND 0x80 \<noteq> 0 then 0x01 else 0)
              else push_bit 1 (inp ! i)) [0..<len]"

definition cmac_generateSubkeys :: "CmacKind \<Rightarrow> 'x mbedtls \<Rightarrow> 'x option \<Rightarrow> (bytes \<times> bytes) option" where
  "cmac_generateSubkeys kind lib cipher =
     (let n = CMAC_BLOCK_SIZE kind in
      case cmac_block_encrypt kind lib cipher (replicate n 0) of
        None \<Rightarrow> None
      | Some l \<Rightarrow>
          let s1 = cmac_bitShiftLeft l n;
              k1 = (if l ! 0 AND 0x80 \<noteq> 0 then s1[n - 1 := s1 ! (n - 1) XOR cmac_reduction kind] else s1);
              s2 = cmac_bitShiftLeft k1 n;
              k2 = (if k1 ! 0 AND 0x80 \<noteq> 0 then s2[n - 1 := s2 ! (n - 1) XOR cmac_reduction kind] else s2)
          in Some (k1, k2))"

definition cmac_context_clear :: "CmacKind \<Rightarrow> 'x DfcCmacContext" where
  "cmac_context_clear kind = \<lparr>ctx_cipher = None, subkey1 = replicate (CMAC_BLOCK_SIZE kind) 0,
     subkey2 = replicate (CMAC_BLOCK_SIZE kind) 0, ctx_initialized = False\<rparr>"

definition cmac_context_init ::
  "CmacKind \<Rightarrow> 'x mbedtls \<Rightarrow> bytes option \<Rightarrow> size_t \<Rightarrow> bool \<times> 'x DfcCmacContext" where
  "cmac_context_init kind lib key key_len =
     (case cmac_block_init kind lib key key_len of
        None \<Rightarrow> (False, cmac_context_clear kind)
      | Some cipher \<Rightarrow>
          (case cmac_generateSubkeys kind lib (Some cipher) of
             None \<Rightarrow> (False, cmac_context_clear kind)
           | Some (k1, k2) \<Rightarrow>
               (True, \<lparr>ctx_cipher = Some cipher, subkey1 = k1, subkey2 = k2, ctx_initialized = True\<rparr>)))"

text \<open>The first loop: the lengths, checked for missing data and for overflow.\<close>

fun segments_total :: "DfcCryptoSegment list \<Rightarrow> size_t \<Rightarrow> size_t option" where
  "segments_total [] total_len = Some total_len"
| "segments_total (s # ss) total_len =
     (if (seg_length s \<noteq> 0 \<and> seg_data s = None) \<or> seg_length s > SIZE_MAX - total_len then None
      else segments_total ss (total_len + seg_length s))"

definition seg_octets :: "DfcCryptoSegment \<Rightarrow> bytes" where
  "seg_octets s = (case seg_data s of None \<Rightarrow> [] | Some d \<Rightarrow> take (seg_length s) d)"

text \<open>
  The loop over one segment, its remaining octets being \<open>data\<close>: \<open>None\<close> is the jump to the
  clean-up after a cipher failure. \<^verbatim>\<open>BLOCK_SIZE - pending_len\<close> is unsigned, so past the
  block size it wraps and the cut to \<^verbatim>\<open>remaining\<close> decides.
\<close>

function cmac_absorb ::
  "CmacKind \<Rightarrow> 'x mbedtls \<Rightarrow> 'x option \<Rightarrow> bytes \<Rightarrow> bytes \<Rightarrow> size_t \<Rightarrow> bytes \<Rightarrow> (bytes \<times> bytes \<times> size_t) option" where
  "cmac_absorb kind lib cipher x pending pending_len data =
     (let n = CMAC_BLOCK_SIZE kind in
      if data = [] then Some (x, pending, pending_len)
      else if pending_len = 0 \<and> length data > n then
        (case cmac_block_encrypt kind lib cipher (dfc_cmac_xor_in_place x data n) of
           None \<Rightarrow> None
         | Some x1 \<Rightarrow> cmac_absorb kind lib cipher x1 pending pending_len (drop n data))
      else
        (case (if pending_len = n
               then map_option (\<lambda>x1. (x1, 0)) (cmac_block_encrypt kind lib cipher (dfc_cmac_xor_in_place x pending n))
               else Some (x, pending_len)) of
           None \<Rightarrow> None
         | Some (x1, len) \<Rightarrow>
             let take_len = (if len \<le> n then min (n - len) (length data) else length data)
             in cmac_absorb kind lib cipher x1 (mem_write len (take take_len data) pending) (len + take_len)
                  (drop take_len data)))"
  by pat_completeness auto
termination
proof (relation "measure (\<lambda>(kind, lib, cipher, x, pending, pending_len, data). length data)", goal_cases)
  case (2 kind lib cipher x pending pending_len data n x1)
  then show ?case by (cases kind) auto
next
  case (3 kind lib cipher x pending pending_len data n y x1 len take_len)
  have "0 < take_len"
  proof -
    have "len < n \<or> n < len"
      using 3 by (cases kind) (auto split: if_splits option.splits)
    then show ?thesis using 3 by auto
  qed
  then show ?case using 3 by simp
qed auto

declare cmac_absorb.simps [simp del]

fun cmac_absorb_segments ::
  "CmacKind \<Rightarrow> 'x mbedtls \<Rightarrow> 'x option \<Rightarrow> DfcCryptoSegment list \<Rightarrow> bytes \<times> bytes \<times> size_t \<Rightarrow>
   (bytes \<times> bytes \<times> size_t) option" where
  "cmac_absorb_segments kind lib cipher [] st = Some st"
| "cmac_absorb_segments kind lib cipher (s # ss) (x, pending, pending_len) =
     (case cmac_absorb kind lib cipher x pending pending_len (seg_octets s) of
        None \<Rightarrow> None
      | Some st \<Rightarrow> cmac_absorb_segments kind lib cipher ss st)"

text \<open>The last block with its subkey, or the jump to the clean-up in the pre-padded mode.\<close>

definition cmac_final_block ::
  "CmacKind \<Rightarrow> 'x DfcCmacContext \<Rightarrow> DfcCmacFinalMode \<Rightarrow> size_t \<Rightarrow> bytes \<Rightarrow> size_t \<Rightarrow> bytes option" where
  "cmac_final_block kind context final_mode total_len pending pending_len =
     (let n = CMAC_BLOCK_SIZE kind in
      if final_mode = DfcCmacFinalPrePadded then
        if total_len = 0 \<or> pending_len \<noteq> n then None
        else Some (dfc_cmac_xor_in_place pending (subkey2 context) n)
      else if total_len \<noteq> 0 \<and> pending_len = n then Some (dfc_cmac_xor_in_place pending (subkey1 context) n)
      else
        let padded = cmac_padBlock (mem_set pending_len 0 (n - pending_len) pending) pending_len
        in Some (dfc_cmac_xor_in_place padded (subkey2 context) n))"

definition cmac_context_compute ::
  "CmacKind \<Rightarrow> 'x mbedtls \<Rightarrow> 'x DfcCmacContext \<Rightarrow> DfcCryptoSegment list \<Rightarrow> bytes \<Rightarrow> DfcCmacFinalMode \<Rightarrow> bool \<times> bytes" where
  "cmac_context_compute kind lib context segments iv final_mode =
     (let n = CMAC_BLOCK_SIZE kind; failed = (False, replicate n 0) in
      if \<not> ctx_initialized context then failed
      else case segments_total segments 0 of
        None \<Rightarrow> failed
      | Some total_len \<Rightarrow>
          if total_len > SIZE_MAX - (n - 1) then failed
          else case cmac_absorb_segments kind lib (ctx_cipher context) segments (iv, replicate n 0, 0) of
            None \<Rightarrow> failed
          | Some (x, pending, pending_len) \<Rightarrow>
              (case cmac_final_block kind context final_mode total_len pending pending_len of
                 None \<Rightarrow> failed
               | Some final_block \<Rightarrow>
                   (case cmac_block_encrypt kind lib (ctx_cipher context) (dfc_cmac_xor_in_place x final_block n) of
                      None \<Rightarrow> failed
                    | Some cmac \<Rightarrow> (True, cmac))))"

definition cmac_segments_with_iv ::
  "CmacKind \<Rightarrow> 'x mbedtls \<Rightarrow> bytes option \<Rightarrow> size_t \<Rightarrow> DfcCryptoSegment list \<Rightarrow> bytes \<Rightarrow> bool \<times> bytes" where
  "cmac_segments_with_iv kind lib key key_len segments iv =
     (case cmac_context_init kind lib key key_len of
        (False, _) \<Rightarrow> (False, replicate (CMAC_BLOCK_SIZE kind) 0)
      | (True, context) \<Rightarrow> cmac_context_compute kind lib context segments iv DfcCmacFinalStandard)"

definition cmac_with_iv ::
  "CmacKind \<Rightarrow> 'x mbedtls \<Rightarrow> bytes option \<Rightarrow> size_t \<Rightarrow> bytes option \<Rightarrow> size_t \<Rightarrow> bytes \<Rightarrow> bool \<times> bytes" where
  "cmac_with_iv kind lib key key_len message message_len iv =
     cmac_segments_with_iv kind lib key key_len [\<lparr>seg_data = message, seg_length = message_len\<rparr>] iv"

subsection \<open>The functions of the two files\<close>

definition aes_cmac_generateSubkeys :: "'x mbedtls \<Rightarrow> 'x option \<Rightarrow> (bytes \<times> bytes) option" where
  "aes_cmac_generateSubkeys = cmac_generateSubkeys AesCmac"

definition dfc_aes_cmac_context_init :: "'x mbedtls \<Rightarrow> bytes option \<Rightarrow> size_t \<Rightarrow> bool \<times> 'x DfcCmacContext" where
  "dfc_aes_cmac_context_init = cmac_context_init AesCmac"

definition dfc_aes_cmac_context_clear :: "'x DfcCmacContext" where
  "dfc_aes_cmac_context_clear = cmac_context_clear AesCmac"

definition dfc_aes_cmac_context_compute ::
  "'x mbedtls \<Rightarrow> 'x DfcCmacContext \<Rightarrow> DfcCryptoSegment list \<Rightarrow> bytes \<Rightarrow> DfcCmacFinalMode \<Rightarrow> bool \<times> bytes" where
  "dfc_aes_cmac_context_compute = cmac_context_compute AesCmac"

definition aes_cmac_segments_with_iv ::
  "'x mbedtls \<Rightarrow> bytes option \<Rightarrow> size_t \<Rightarrow> DfcCryptoSegment list \<Rightarrow> bytes \<Rightarrow> bool \<times> bytes" where
  "aes_cmac_segments_with_iv = cmac_segments_with_iv AesCmac"

definition aes_cmac_with_iv ::
  "'x mbedtls \<Rightarrow> bytes option \<Rightarrow> size_t \<Rightarrow> bytes option \<Rightarrow> size_t \<Rightarrow> bytes \<Rightarrow> bool \<times> bytes" where
  "aes_cmac_with_iv = cmac_with_iv AesCmac"

definition aes_cmac :: "'x mbedtls \<Rightarrow> bytes option \<Rightarrow> size_t \<Rightarrow> bytes option \<Rightarrow> size_t \<Rightarrow> bool \<times> bytes" where
  "aes_cmac lib key key_len message message_len =
     aes_cmac_with_iv lib key key_len message message_len (replicate 16 0)"

definition des_cmac_generateSubkeys :: "'x mbedtls \<Rightarrow> 'x option \<Rightarrow> (bytes \<times> bytes) option" where
  "des_cmac_generateSubkeys = cmac_generateSubkeys DesCmac"

definition dfc_des_cmac_context_init :: "'x mbedtls \<Rightarrow> bytes option \<Rightarrow> size_t \<Rightarrow> bool \<times> 'x DfcCmacContext" where
  "dfc_des_cmac_context_init = cmac_context_init DesCmac"

definition dfc_des_cmac_context_clear :: "'x DfcCmacContext" where
  "dfc_des_cmac_context_clear = cmac_context_clear DesCmac"

definition dfc_des_cmac_context_compute ::
  "'x mbedtls \<Rightarrow> 'x DfcCmacContext \<Rightarrow> DfcCryptoSegment list \<Rightarrow> bytes \<Rightarrow> DfcCmacFinalMode \<Rightarrow> bool \<times> bytes" where
  "dfc_des_cmac_context_compute = cmac_context_compute DesCmac"

definition des_cmac_segments_with_iv ::
  "'x mbedtls \<Rightarrow> bytes option \<Rightarrow> size_t \<Rightarrow> DfcCryptoSegment list \<Rightarrow> bytes \<Rightarrow> bool \<times> bytes" where
  "des_cmac_segments_with_iv = cmac_segments_with_iv DesCmac"

definition des_cmac_with_iv ::
  "'x mbedtls \<Rightarrow> bytes option \<Rightarrow> size_t \<Rightarrow> bytes option \<Rightarrow> size_t \<Rightarrow> bytes \<Rightarrow> bool \<times> bytes" where
  "des_cmac_with_iv = cmac_with_iv DesCmac"

definition des_cmac :: "'x mbedtls \<Rightarrow> bytes option \<Rightarrow> size_t \<Rightarrow> bytes option \<Rightarrow> size_t \<Rightarrow> bool \<times> bytes" where
  "des_cmac lib key key_len message message_len =
     des_cmac_with_iv lib key key_len message message_len (replicate 8 0)"

text \<open>\<^verbatim>\<open>dfc_aes_wire_mac\<close> of \<^verbatim>\<open>src/dfc_common.c\<close>.\<close>

definition dfc_aes_wire_mac :: "'x mbedtls \<Rightarrow> bytes option \<Rightarrow> bytes option \<Rightarrow> size_t \<Rightarrow> bool \<times> bytes" where
  "dfc_aes_wire_mac lib key inp input_len =
     (if key = None \<or> (input_len \<noteq> 0 \<and> inp = None) then (False, replicate DFC_WIRE_MAC_LENGTH 0)
      else case aes_cmac lib key DFC_AES_KEY_LENGTH inp input_len of
        (False, _) \<Rightarrow> (False, replicate DFC_WIRE_MAC_LENGTH 0)
      | (True, full) \<Rightarrow> (True, dfc_truncate_aes_wire_mac full))"

subsection \<open>The reference\<close>

text \<open>
  CMAC as NIST SP 800-38B states it for a message, a cipher and two subkeys: the chained
  encryption of all blocks but the last, then of the last block with its subkey.
\<close>

fun cbc_mac :: "(bytes \<Rightarrow> bytes option) \<Rightarrow> bytes \<Rightarrow> bytes list \<Rightarrow> bytes option" where
  "cbc_mac enc x [] = Some x"
| "cbc_mac enc x (b # bs) = (case enc (xor_bytes x b) of None \<Rightarrow> None | Some y \<Rightarrow> cbc_mac enc y bs)"

definition cmac_head :: "nat \<Rightarrow> bytes \<Rightarrow> bytes" where
  "cmac_head n msg = take ((length msg - 1) div n * n) msg"

definition cmac_tail :: "nat \<Rightarrow> bytes \<Rightarrow> bytes" where
  "cmac_tail n msg = drop ((length msg - 1) div n * n) msg"

definition cmac_last_block :: "nat \<Rightarrow> bytes \<Rightarrow> bytes \<Rightarrow> bytes \<Rightarrow> bytes" where
  "cmac_last_block n k1 k2 tail =
     (if length tail = n then xor_bytes tail k1
      else xor_bytes (tail @ 0x80 # replicate (n - 1 - length tail) 0) k2)"

definition cmac_reference :: "nat \<Rightarrow> (bytes \<Rightarrow> bytes option) \<Rightarrow> bytes \<Rightarrow> bytes \<Rightarrow> bytes \<Rightarrow> bytes \<Rightarrow> bytes option" where
  "cmac_reference n enc k1 k2 iv msg =
     (case cbc_mac enc iv (chunks n (cmac_head n msg)) of
        None \<Rightarrow> None
      | Some x \<Rightarrow> enc (xor_bytes x (cmac_last_block n k1 k2 (cmac_tail n msg))))"

lemma cbc_mac_append:
  "cbc_mac enc x (as @ bs) = (case cbc_mac enc x as of None \<Rightarrow> None | Some y \<Rightarrow> cbc_mac enc y bs)"
  by (induction as arbitrary: x) (auto split: option.split)

lemma block_size_pos [simp]: "0 < CMAC_BLOCK_SIZE kind"
  by (cases kind) auto

lemma cmac_encrypt_length:
  "block_library lib \<Longrightarrow> cmac_block_encrypt kind lib cipher x = Some y \<Longrightarrow> length y = CMAC_BLOCK_SIZE kind"
  by (cases kind) (auto dest: block_library_aes block_library_des)

lemma xor_in_place_eq:
  "length x = n \<Longrightarrow> dfc_cmac_xor_in_place x y n = xor_bytes x (take n y)"
  by (simp add: dfc_cmac_xor_in_place_def)

lemma head_tail_split:
  assumes "0 < n" "length t \<le> n" "n dvd length h" "t \<noteq> []"
  shows "cmac_head n (h @ t) = h" "cmac_tail n (h @ t) = t"
proof -
  obtain q where q: "length h = n * q" using assms(3) by auto
  have lt: "0 < length t" "length t - 1 < n" using assms by (auto simp: Suc_le_eq)
  have "(length h + length t - 1) div n = q"
  proof -
    have "length h + length t - 1 = (length t - 1) + q * n" using lt(1) by (metis Nat.add_diff_assoc add.commute mult.commute q Suc_leI One_nat_def)
    then show ?thesis using lt(2) by simp
  qed
  then show "cmac_head n (h @ t) = h" "cmac_tail n (h @ t) = t"
    by (simp_all add: cmac_head_def cmac_tail_def q mult.commute)
qed

lemma cbc_mac_prefix_fails:
  assumes n: "0 < n" and h: "n dvd length h" "cbc_mac enc iv (chunks n h) = None" and t: "t \<noteq> []"
  shows "cbc_mac enc iv (chunks n (cmac_head n (h @ t))) = None"
proof -
  let ?k = "(length (h @ t) - 1) div n * n"
  have "length h \<le> length (h @ t) - 1" using t by (cases t) auto
  then have "length h div n \<le> (length (h @ t) - 1) div n" by (rule div_le_mono)
  then have "length h \<le> ?k" using h(1) by (metis dvd_div_mult_self mult_le_mono1)
  then have "cmac_head n (h @ t) = h @ take (?k - length h) t" by (simp add: cmac_head_def)
  then show ?thesis using h n by (simp add: chunks_append cbc_mac_append)
qed

subsection \<open>Absorbing a message in pieces\<close>

text \<open>The state after the octets \<open>m\<close>: all full blocks but the pending one are chained.\<close>

definition absorbed :: "nat \<Rightarrow> (bytes \<Rightarrow> bytes option) \<Rightarrow> bytes \<Rightarrow> bytes \<Rightarrow> bytes \<times> bytes \<times> size_t \<Rightarrow> bool" where
  "absorbed n enc iv m st \<longleftrightarrow> (case st of (x, pending, pending_len) \<Rightarrow>
     length x = n \<and> length pending = n \<and> pending_len \<le> n \<and>
     (\<exists>h. m = h @ take pending_len pending \<and> n dvd length h \<and> cbc_mac enc iv (chunks n h) = Some x))"

definition chain_breaks :: "nat \<Rightarrow> (bytes \<Rightarrow> bytes option) \<Rightarrow> bytes \<Rightarrow> bytes \<Rightarrow> bool" where
  "chain_breaks n enc iv m \<longleftrightarrow>
     (\<exists>h t. m = h @ t \<and> t \<noteq> [] \<and> n dvd length h \<and> cbc_mac enc iv (chunks n h) = None)"

lemma chain_breaks_append: "chain_breaks n enc iv m \<Longrightarrow> chain_breaks n enc iv (m @ m')"
  by (fastforce simp: chain_breaks_def)

definition block_enc :: "nat \<Rightarrow> (bytes \<Rightarrow> bytes option) \<Rightarrow> bool" where
  "block_enc n enc \<longleftrightarrow> (\<forall>x y. enc x = Some y \<longrightarrow> length y = n)"

lemma absorbed_push:
  assumes st: "absorbed n enc iv m (x, p, pl)" and pl: "pl = 0 \<and> length b = n \<and> m' = m @ b \<or> pl = n \<and> b = p \<and> m' = m"
    and n: "0 < n" and len: "block_enc n enc"
  shows "enc (xor_bytes x b) = Some y \<Longrightarrow> absorbed n enc iv m' (y, p, 0)"
    and "enc (xor_bytes x b) = None \<Longrightarrow> t \<noteq> [] \<Longrightarrow> chain_breaks n enc iv (m' @ t)"
proof -
  obtain h where h: "m = h @ take pl p" "n dvd length h" "cbc_mac enc iv (chunks n h) = Some x"
    and l: "length x = n" "length p = n" using st by (auto simp: absorbed_def)
  have m': "m' = h @ b" and lb: "length b = n" using pl h(1) l by auto
  have c: "cbc_mac enc iv (chunks n (h @ b)) = enc (xor_bytes x b)"
    using h(2,3) n chunks_block [OF lb n, of "[]"] by (simp add: chunks_append cbc_mac_append split: option.split)
  have d: "n dvd length (h @ b)" using h(2) lb by simp
  show "absorbed n enc iv m' (y, p, 0)" if "enc (xor_bytes x b) = Some y"
    using c d that l len by (auto simp: absorbed_def block_enc_def m' intro!: exI [of _ "h @ b"])
  show "chain_breaks n enc iv (m' @ t)" if "enc (xor_bytes x b) = None" "t \<noteq> []"
    using c d that unfolding chain_breaks_def m' by (metis)
qed

lemma absorbed_fill:
  assumes "absorbed n enc iv m (x, p, pl)" "pl + length d \<le> n"
  shows "absorbed n enc iv (m @ d) (x, mem_write pl d p, pl + length d)"
  using assms by (auto simp: absorbed_def mem_write_def)

lemma cmac_absorb_correct:
  fixes kind lib cipher iv
  defines "n \<equiv> CMAC_BLOCK_SIZE kind" and "enc \<equiv> cmac_block_encrypt kind lib cipher"
  assumes lib: "block_library lib"
  shows "absorbed n enc iv m (x, p, pl) \<Longrightarrow> pl = 0 \<longrightarrow> m = [] \<or> data \<noteq> [] \<Longrightarrow>
    (case cmac_absorb kind lib cipher x p pl data of
       None \<Rightarrow> chain_breaks n enc iv (m @ data)
     | Some st \<Rightarrow> absorbed n enc iv (m @ data) st \<and> (snd (snd st) = 0 \<longrightarrow> m @ data = []))"
proof (induction data arbitrary: m x p pl rule: length_induct)
  case (1 data)
  have n: "0 < n" by (simp add: n_def)
  have len: "block_enc n enc"
    using cmac_encrypt_length [OF lib] by (simp add: enc_def n_def block_enc_def)
  have l: "length x = n" "length p = n" "pl \<le> n" using 1(2) by (auto simp: absorbed_def)
  note eq = cmac_absorb.simps [of kind lib cipher x p pl data, folded n_def enc_def]
  show ?case
  proof (cases "data = []")
    case True
    then have "cmac_absorb kind lib cipher x p pl data = Some (x, p, pl)" by (subst cmac_absorb.simps) simp
    then show ?thesis using 1(2,3) True by simp
  next
    case ne: False
    show ?thesis
    proof (cases "pl = 0 \<and> length data > n")
      case True
      let ?b = "take n data"
      have x: "dfc_cmac_xor_in_place x data n = xor_bytes x ?b" using l by (simp add: xor_in_place_eq)
      have b: "pl = 0 \<and> length ?b = n \<and> m @ ?b = m @ ?b \<or> pl = n \<and> ?b = p \<and> m @ ?b = m" using True by simp
      note push = absorbed_push [OF 1(2) b n len]
      have rest: "drop n data \<noteq> []" "length (drop n data) < length data" using True n by auto
      show ?thesis
      proof (cases "enc (xor_bytes x ?b)")
        case None
        then have "cmac_absorb kind lib cipher x p pl data = None" unfolding eq using True ne x by (simp add: Let_def)
        then show ?thesis using push(2) [OF None rest(1)] by simp
      next
        case (Some y)
        have "cmac_absorb kind lib cipher x p pl data = cmac_absorb kind lib cipher y p 0 (drop n data)"
          unfolding eq using Some True ne x by (simp add: Let_def)
        then show ?thesis
          using 1(1) [rule_format, OF rest(2) push(1) [OF Some], unfolded append_assoc append_take_drop_id] rest(1)
          by simp
      qed
    next
      case False
      define st where "st = (if pl = n then map_option (\<lambda>x1. (x1, 0::nat)) (enc (dfc_cmac_xor_in_place x p n))
        else Some (x, pl))"
      have x: "dfc_cmac_xor_in_place x p n = xor_bytes x p" using l by (simp add: xor_in_place_eq)
      have b: "pl = n \<Longrightarrow> pl = 0 \<and> length p = n \<and> m = m @ p \<or> pl = n \<and> p = p \<and> m = m" by simp
      show ?thesis
      proof (cases st)
        case None
        then have pl: "pl = n" "enc (xor_bytes x p) = None" by (auto simp: st_def x split: if_splits)
        then have "cmac_absorb kind lib cipher x p pl data = None"
          unfolding eq using ne False x n by (simp add: Let_def)
        then show ?thesis using absorbed_push(2) [OF 1(2) b [OF pl(1)] n len pl(2) ne] by simp
      next
        case (Some xl)
        obtain y len1 where yl: "xl = (y, len1)" by fastforce
        have abs1: "absorbed n enc iv m (y, p, len1)" and lt: "len1 < n"
          using Some yl l n 1(2) absorbed_push(1) [OF 1(2) b n len]
          by (auto simp: st_def x split: if_splits)
        let ?k = "min (n - len1) (length data)"
        have k: "0 < ?k" "len1 + length (take ?k data) \<le> n" "len1 + length (take ?k data) = len1 + ?k"
          using lt ne by auto
        have "cmac_absorb kind lib cipher x p pl data =
            cmac_absorb kind lib cipher y (mem_write len1 (take ?k data) p) (len1 + ?k) (drop ?k data)"
          unfolding eq st_def [symmetric] Let_def if_not_P [OF False] using Some yl ne lt by simp
        moreover have fill: "absorbed n enc iv (m @ take ?k data) (y, mem_write len1 (take ?k data) p, len1 + ?k)"
          using absorbed_fill [OF abs1 k(2)] k(3) by simp
        have less: "length (drop ?k data) < length data" using k ne by simp
        have nz: "len1 + ?k = 0 \<longrightarrow> m @ take ?k data = [] \<or> drop ?k data \<noteq> []" using k(1) by linarith
        note 1(1) [THEN spec, THEN mp, OF less, THEN spec, THEN spec, THEN spec, THEN spec, THEN mp, OF fill, THEN mp, OF nz,
          unfolded append_assoc append_take_drop_id]
        ultimately show ?thesis by simp
      qed
    qed
  qed
qed

definition seg_ok :: "DfcCryptoSegment \<Rightarrow> bool" where
  "seg_ok s \<longleftrightarrow> (case seg_data s of None \<Rightarrow> seg_length s = 0 | Some d \<Rightarrow> seg_length s \<le> length d)"

abbreviation message_of :: "DfcCryptoSegment list \<Rightarrow> bytes" where
  "message_of segments \<equiv> concat (map seg_octets segments)"

lemma seg_octets_length: "seg_ok s \<Longrightarrow> length (seg_octets s) = seg_length s"
  by (auto simp: seg_ok_def seg_octets_def split: option.splits)

lemma segments_total_eq:
  assumes "list_all seg_ok segments"
  shows "t \<le> SIZE_MAX \<Longrightarrow> segments_total segments t =
    (if t + length (message_of segments) \<le> SIZE_MAX then Some (t + length (message_of segments)) else None)"
  using assms
proof (induction segments arbitrary: t)
  case (Cons s ss)
  then show ?case using seg_octets_length [of s] by (auto simp: seg_ok_def split: option.splits)
qed simp

lemma cmac_absorb_segments_correct:
  fixes kind lib cipher iv
  defines "n \<equiv> CMAC_BLOCK_SIZE kind" and "enc \<equiv> cmac_block_encrypt kind lib cipher"
  assumes lib: "block_library lib"
  shows "absorbed n enc iv m st \<Longrightarrow> (snd (snd st) = 0 \<longrightarrow> m = []) \<Longrightarrow>
    (case cmac_absorb_segments kind lib cipher segments st of
       None \<Rightarrow> chain_breaks n enc iv (m @ message_of segments)
     | Some st' \<Rightarrow> absorbed n enc iv (m @ message_of segments) st' \<and>
         (snd (snd st') = 0 \<longrightarrow> m @ message_of segments = []))"
proof (induction segments arbitrary: m st)
  case (Cons s ss)
  obtain x p pl where st: "st = (x, p, pl)" by (metis prod_cases3)
  note one = cmac_absorb_correct [OF lib, of kind cipher iv m x p pl "seg_octets s", folded n_def enc_def]
  show ?case
  proof (cases "cmac_absorb kind lib cipher x p pl (seg_octets s)")
    case None
    then show ?thesis using one Cons.prems st chain_breaks_append [of n enc iv "m @ seg_octets s"] by auto
  next
    case (Some st1)
    then have "absorbed n enc iv (m @ seg_octets s) st1" "snd (snd st1) = 0 \<longrightarrow> m @ seg_octets s = []"
      using one Cons.prems st by auto
    from Cons.IH [OF this, unfolded append_assoc] show ?thesis
      unfolding list.map concat.simps st using Some by simp
  qed
qed simp

lemma absorbed_start: "length iv = n \<Longrightarrow> absorbed n enc iv [] (iv, replicate n 0, 0)"
  by (simp add: absorbed_def)

text \<open>The last block the code builds from the pending octets is the reference's.\<close>

lemma final_block_eq:
  assumes st: "absorbed n enc iv m (x, p, pl)" and pl: "pl = 0 \<longrightarrow> m = []" and n: "n = CMAC_BLOCK_SIZE kind"
  shows "cbc_mac enc iv (chunks n (cmac_head n m)) = Some x"
    and "cmac_final_block kind context DfcCmacFinalStandard (length m) p pl =
      Some (cmac_last_block n (take n (subkey1 context)) (take n (subkey2 context)) (cmac_tail n m))"
    and "cmac_final_block kind context DfcCmacFinalPrePadded (length m) p pl =
      (if m = [] \<or> length m mod n \<noteq> 0 then None
       else Some (xor_bytes (cmac_tail n m) (take n (subkey2 context))))"
    and "length (cmac_tail n m) \<le> n" and "m \<noteq> [] \<Longrightarrow> length m mod n = 0 \<Longrightarrow> length (cmac_tail n m) = n"
proof -
  have n0: "0 < n" by (simp add: n)
  obtain h where h: "m = h @ take pl p" "n dvd length h" "cbc_mac enc iv (chunks n h) = Some x"
    and l: "length x = n" "length p = n" "pl \<le> n" using st by (auto simp: absorbed_def)
  have ht: "cmac_head n m = h" "cmac_tail n m = take pl p"
  proof -
    have "cmac_head n m = h \<and> cmac_tail n m = take pl p"
    proof (cases "pl = 0")
      case True
      then show ?thesis using pl h(1) by (simp add: cmac_head_def cmac_tail_def)
    next
      case False
      then have "take pl p \<noteq> []" using l n0 by auto
      then show ?thesis using head_tail_split [OF n0 _ h(2), of "take pl p"] l h(1) by simp
    qed
    then show "cmac_head n m = h" "cmac_tail n m = take pl p" by auto
  qed
  show "cbc_mac enc iv (chunks n (cmac_head n m)) = Some x" using h(3) ht by simp
  have lm: "length m = length h + pl" using h(1) l by simp
  have full: "length m mod n = 0 \<longleftrightarrow> pl = 0 \<or> pl = n" using h(2) l n0 lm by (auto simp: mod_add_left_eq [symmetric])
  have z: "length m = 0 \<longleftrightarrow> pl = 0" using pl lm by auto
  show "length (cmac_tail n m) \<le> n" using ht l by simp
  show "length (cmac_tail n m) = n" if "m \<noteq> []" "length m mod n = 0" using ht l full z that by auto
  have padded: "cmac_padBlock (mem_set pl 0 (n - pl) p) pl = take pl p @ 0x80 # replicate (n - 1 - pl) 0" if "pl < n"
  proof -
    have "replicate (n - pl) (0::u8) = 0 # replicate (n - 1 - pl) 0"
      using that by (metis Suc_diff_Suc diff_Suc_eq_diff_pred replicate_Suc)
    then show ?thesis using that l by (simp add: cmac_padBlock_def mem_set_def mem_write_def list_update_append)
  qed
  show "cmac_final_block kind context DfcCmacFinalStandard (length m) p pl =
      Some (cmac_last_block n (take n (subkey1 context)) (take n (subkey2 context)) (cmac_tail n m))"
    using l z n0 padded
    by (auto simp: cmac_final_block_def n [symmetric] Let_def cmac_last_block_def ht dfc_cmac_xor_in_place_def)
  show "cmac_final_block kind context DfcCmacFinalPrePadded (length m) p pl =
      (if m = [] \<or> length m mod n \<noteq> 0 then None
       else Some (xor_bytes (cmac_tail n m) (take n (subkey2 context))))"
    using l z n0 full
    by (auto simp: cmac_final_block_def n [symmetric] Let_def ht dfc_cmac_xor_in_place_def)
qed

subsection \<open>The whole computation\<close>

abbreviation cmac_answer :: "CmacKind \<Rightarrow> bytes option \<Rightarrow> bool \<times> bytes" where
  "cmac_answer kind r \<equiv> (case r of None \<Rightarrow> (False, replicate (CMAC_BLOCK_SIZE kind) 0) | Some mac \<Rightarrow> (True, mac))"

text \<open>The pre-padded variant: whole blocks only, the last one with the second subkey.\<close>

definition cmac_pre_padded_reference ::
  "nat \<Rightarrow> (bytes \<Rightarrow> bytes option) \<Rightarrow> bytes \<Rightarrow> bytes \<Rightarrow> bytes \<Rightarrow> bytes option" where
  "cmac_pre_padded_reference n enc k2 iv msg =
     (if msg = [] \<or> length msg mod n \<noteq> 0 then None
      else case cbc_mac enc iv (chunks n (cmac_head n msg)) of
        None \<Rightarrow> None
      | Some x \<Rightarrow> enc (xor_bytes x (xor_bytes (cmac_tail n msg) k2)))"

lemma context_compute_correct:
  assumes lib: "block_library lib" and init: "ctx_initialized context" and iv: "length iv = CMAC_BLOCK_SIZE kind"
    and segs: "list_all seg_ok segments" "length (message_of segments) \<le> SIZE_MAX - (CMAC_BLOCK_SIZE kind - 1)"
    and keys: "length (subkey1 context) = CMAC_BLOCK_SIZE kind" "length (subkey2 context) = CMAC_BLOCK_SIZE kind"
  shows "cmac_context_compute kind lib context segments iv DfcCmacFinalStandard =
      cmac_answer kind (cmac_reference (CMAC_BLOCK_SIZE kind) (cmac_block_encrypt kind lib (ctx_cipher context))
        (subkey1 context) (subkey2 context) iv (message_of segments))"
    and "cmac_context_compute kind lib context segments iv DfcCmacFinalPrePadded =
      cmac_answer kind (cmac_pre_padded_reference (CMAC_BLOCK_SIZE kind)
        (cmac_block_encrypt kind lib (ctx_cipher context)) (subkey2 context) iv (message_of segments))"
proof -
  let ?n = "CMAC_BLOCK_SIZE kind" and ?enc = "cmac_block_encrypt kind lib (ctx_cipher context)"
  let ?m = "message_of segments" and ?st0 = "(iv, replicate (CMAC_BLOCK_SIZE kind) 0, 0::nat)"
  have total: "segments_total segments 0 = Some (length ?m)" "\<not> length ?m > SIZE_MAX - (?n - 1)"
    using segments_total_eq [OF segs(1), of 0] segs(2) by auto
  have abs: "(case cmac_absorb_segments kind lib (ctx_cipher context) segments ?st0 of
       None \<Rightarrow> chain_breaks ?n ?enc iv ?m
     | Some st' \<Rightarrow> absorbed ?n ?enc iv ?m st' \<and> (snd (snd st') = 0 \<longrightarrow> ?m = []))"
    using cmac_absorb_segments_correct [OF lib absorbed_start [OF iv], where segments = segments, simplified append_Nil]
    by simp
  have "cmac_context_compute kind lib context segments iv DfcCmacFinalStandard =
      cmac_answer kind (cmac_reference ?n ?enc (subkey1 context) (subkey2 context) iv ?m) \<and>
    cmac_context_compute kind lib context segments iv DfcCmacFinalPrePadded =
      cmac_answer kind (cmac_pre_padded_reference ?n ?enc (subkey2 context) iv ?m)"
  proof (cases "cmac_absorb_segments kind lib (ctx_cipher context) segments ?st0")
    case None
    then obtain h t where "?m = h @ t" "t \<noteq> []" "?n dvd length h" "cbc_mac ?enc iv (chunks ?n h) = None"
      using abs by (auto simp: chain_breaks_def)
    then have "cbc_mac ?enc iv (chunks ?n (cmac_head ?n ?m)) = None"
      using cbc_mac_prefix_fails [of ?n h ?enc iv t] by simp
    then show ?thesis
      using None total init by (simp add: cmac_context_compute_def cmac_reference_def cmac_pre_padded_reference_def)
  next
    case (Some st)
    obtain x p pl where st: "st = (x, p, pl)" by (metis prod_cases3)
    have a: "absorbed ?n ?enc iv ?m (x, p, pl)" "pl = 0 \<longrightarrow> ?m = []" using abs Some st by auto
    note fb = final_block_eq [OF a refl]
    have l: "length x = ?n" using a by (simp add: absorbed_def)
    note lt = fb(4) and pp = fb(5)
    have lb: "length (cmac_last_block ?n (subkey1 context) (subkey2 context) (cmac_tail ?n ?m)) = ?n"
      using lt keys by (auto simp: cmac_last_block_def)
    have tk: "take ?n (subkey1 context) = subkey1 context" "take ?n (subkey2 context) = subkey2 context"
      using keys by simp_all
    note std = fb(2) [of "context", unfolded tk] and pre = fb(3) [of "context", unfolded tk]
    have xs: "dfc_cmac_xor_in_place x b ?n = xor_bytes x b" if "length b = ?n" for b
      using l that by (simp add: xor_in_place_eq)
    have "cmac_context_compute kind lib context segments iv DfcCmacFinalStandard =
        cmac_answer kind (cmac_reference ?n ?enc (subkey1 context) (subkey2 context) iv ?m)"
      unfolding cmac_context_compute_def cmac_reference_def Let_def
      using Some st total init std fb(1) xs [OF lb] by simp
    moreover have "cmac_context_compute kind lib context segments iv DfcCmacFinalPrePadded =
        cmac_answer kind (cmac_pre_padded_reference ?n ?enc (subkey2 context) iv ?m)"
    proof (cases "?m = [] \<or> length ?m mod ?n \<noteq> 0")
      case True
      then show ?thesis unfolding cmac_context_compute_def cmac_pre_padded_reference_def Let_def
        using Some st total init pre by simp
    next
      case False
      then have lp: "length (xor_bytes (cmac_tail ?n ?m) (subkey2 context)) = ?n" using pp keys by simp
      show ?thesis unfolding cmac_context_compute_def cmac_pre_padded_reference_def Let_def if_not_P [OF False]
        using Some st total init pre [unfolded if_not_P [OF False]] fb(1) xs [OF lp] by simp
    qed
    ultimately show ?thesis by blast
  qed
  then show "cmac_context_compute kind lib context segments iv DfcCmacFinalStandard =
      cmac_answer kind (cmac_reference ?n ?enc (subkey1 context) (subkey2 context) iv ?m)"
    "cmac_context_compute kind lib context segments iv DfcCmacFinalPrePadded =
      cmac_answer kind (cmac_pre_padded_reference ?n ?enc (subkey2 context) iv ?m)" by blast+
qed

subsection \<open>Subkeys by doubling in the field\<close>

fun be_value :: "bytes \<Rightarrow> nat" where
  "be_value [] = 0"
| "be_value (b # bs) = unat b * 256 ^ length bs + be_value bs"

definition be_bytes :: "nat \<Rightarrow> nat \<Rightarrow> bytes" where
  "be_bytes n v = map (\<lambda>i. of_nat (v div 256 ^ (n - 1 - i))) [0..<n]"

lemma be_value_append: "be_value (xs @ ys) = be_value xs * 256 ^ length ys + be_value ys"
  by (induction xs) (simp_all add: algebra_simps power_add)

lemma be_value_less: "be_value bs < 256 ^ length bs"
proof (induction bs)
  case (Cons b bs)
  have "unat b * 256 ^ length bs + be_value bs < (unat b + 1) * 256 ^ length bs" using Cons by simp
  also have "\<dots> \<le> 256 * 256 ^ length bs" using unat_u8_less [of b] by (intro mult_le_mono1) simp
  finally show ?case by simp
qed simp

lemma be_bytes_Suc: "be_bytes (Suc n) v = of_nat (v div 256 ^ n) # be_bytes n v"
proof -
  have "[0..<Suc n] = 0 # map Suc [0..<n]" by (simp add: map_Suc_upt upt_conv_Cons del: upt_Suc)
  then show ?thesis by (simp add: be_bytes_def del: upt_Suc)
qed

lemma be_bytes_mod: "be_bytes n (v + w * 256 ^ n) = be_bytes n v"
proof -
  have "(of_nat ((v + w * 256 ^ n) div 256 ^ k) :: u8) = of_nat (v div 256 ^ k)" if k: "k < n" for k
  proof -
    obtain j where n: "n = k + Suc j" using k by (auto dest: less_imp_Suc_add)
    have *: "v + w * 256 ^ n = v + (w * 256 ^ Suc j) * 256 ^ k" unfolding n power_add by (simp only: ac_simps)
    have "(v + w * 256 ^ n) div 256 ^ k = v div 256 ^ k + w * 256 ^ Suc j"
      unfolding * by (simp del: power_Suc)
    moreover have "(of_nat (w * 256 ^ Suc j) :: u8) = 0" by (simp add: word_of_nat_eq_0_iff del: of_nat_mult of_nat_power)
    ultimately show ?thesis by (simp only: of_nat_add add_0_right)
  qed
  then show ?thesis by (auto simp: be_bytes_def)
qed

lemma be_bytes_value [simp]: "be_bytes (length bs) (be_value bs) = bs"
proof (induction bs)
  case (Cons b bs)
  have "(unat b * 256 ^ length bs + be_value bs) div 256 ^ length bs = unat b"
    using be_value_less [of bs] by simp
  then show ?case using Cons be_bytes_mod [of "length bs" "be_value bs" "unat b"]
    by (simp add: be_bytes_Suc add.commute)
qed (simp add: be_bytes_def)

fun shift_left :: "bytes \<Rightarrow> bytes" where
  "shift_left [] = []"
| "shift_left [b] = [push_bit 1 b]"
| "shift_left (b # c # bs) = (push_bit 1 b + (if c AND 0x80 \<noteq> 0 then 0x01 else 0)) # shift_left (c # bs)"

lemma length_shift_left [simp]: "length (shift_left bs) = length bs"
  by (induction bs rule: shift_left.induct) auto

lemma nth_shift_left:
  "i < length bs \<Longrightarrow> shift_left bs ! i =
    (if i < length bs - 1 then push_bit 1 (bs ! i) + (if bs ! (i + 1) AND 0x80 \<noteq> 0 then 0x01 else 0)
     else push_bit 1 (bs ! i))"
  by (induction bs arbitrary: i rule: shift_left.induct) (auto simp: nth_Cons split: nat.splits)

lemma bitShiftLeft_eq: "length l = n \<Longrightarrow> cmac_bitShiftLeft l n = shift_left l"
  by (rule nth_equalityI) (simp_all add: cmac_bitShiftLeft_def nth_shift_left)

lemma top_bit: "(c :: u8) AND 0x80 \<noteq> 0 \<longleftrightarrow> 128 \<le> unat c"
proof -
  have "c AND 0x80 \<noteq> 0 \<longleftrightarrow> bit c 7" using and_exp_eq_0_iff_not_bit [of c 7] by simp
  also have "\<dots> \<longleftrightarrow> bit (unat c) 7" by (simp add: bit_unsigned_iff)
  also have "\<dots> \<longleftrightarrow> odd (unat c div 128)" by (simp add: bit_iff_odd)
  also have "\<dots> \<longleftrightarrow> 128 \<le> unat c"
  proof (cases "128 \<le> unat c")
    case True
    then have "unat c div 128 = 1" using unat_u8_less [of c] by (simp add: div_nat_eqI)
    then show ?thesis using True by simp
  qed simp
  finally show ?thesis .
qed

lemma unat_double: "unat (push_bit 1 (b :: u8) + (if P then 0x01 else 0)) = (2 * unat b + of_bool P) mod 256"
proof -
  have "push_bit 1 b + (if P then 0x01 else 0) = of_nat (2 * unat b + of_bool P)" by (simp add: push_bit_eq_mult)
  then show ?thesis by (simp only: unat_of_nat) simp
qed

lemma double_split:
  fixes c M v :: nat
  assumes "v < M" "c < 256"
  shows "2 * (c * M + v) = of_bool (128 \<le> c) * (256 * M) + 2 * (c * M + v) mod (256 * M)"
proof (cases "128 \<le> c")
  case True
  obtain P where P: "P = c * M" by simp
  have "128 * M \<le> P" "P + M \<le> 256 * M"
    unfolding P using mult_le_mono1 [of 128 c M] mult_le_mono1 [of "c + 1" 256 M] True assms by simp_all
  then have "2 * (P + v) div (256 * M) = 1" using assms by (intro div_nat_eqI) simp_all
  then have "2 * (c * M + v) div (256 * M) = 1" unfolding P .
  then show ?thesis using div_mult_mod_eq [of "2 * (c * M + v)" "256 * M"] True by simp
next
  case False
  obtain P where P: "P = c * M" by simp
  have "P + M \<le> 128 * M" unfolding P using mult_le_mono1 [of "c + 1" 128 M] False by simp
  then have "2 * (P + v) < 256 * M" using assms by simp
  then have "2 * (c * M + v) < 256 * M" unfolding P .
  then show ?thesis using False by simp
qed

lemma be_value_shift_left: "be_value (shift_left bs) = 2 * be_value bs mod 256 ^ length bs"
proof (induction bs rule: shift_left.induct)
  case (2 b)
  show ?case using unat_double [of b False] by simp
next
  case (3 b c bs)
  define N :: nat where "N = 256 ^ length (c # bs)"
  define V where "V = be_value (c # bs)"
  let ?x = "2 * unat b + of_bool (128 \<le> unat c)"
  have "2 * (unat b * N + V) = ?x * N + 2 * V mod N"
    using double_split [OF be_value_less [of bs] unat_u8_less [of c]] by (simp add: N_def V_def algebra_simps)
  moreover have "(?x * N + 2 * V mod N) mod (N * 256) = N * (?x mod 256) + 2 * V mod N"
  proof -
    have "(?x * N + 2 * V mod N) div N = ?x" "(?x * N + 2 * V mod N) mod N = 2 * V mod N" by (simp_all add: N_def)
    then show ?thesis by (simp only: mod_mult2_eq)
  qed
  moreover have "256 ^ length (b # c # bs) = N * 256" "be_value (b # c # bs) = unat b * N + V"
    by (simp_all add: N_def V_def)
  moreover have "be_value (shift_left (b # c # bs)) = N * (?x mod 256) + 2 * V mod N"
    using 3 unat_double [of b "128 \<le> unat c"] unfolding shift_left.simps top_bit be_value.simps(2) [of "_ + _"]
    by (simp only: N_def V_def length_shift_left mult.commute)
  ultimately show ?case by (simp only:)
qed simp

lemma bit_low_octet:
  fixes c v :: nat
  assumes "c < 256"
  shows "bit (v * 256 + c) k \<longleftrightarrow> (if k < 8 then bit c k else bit v (k - 8))"
proof (cases "k < 8")
  case True
  have "take_bit 8 (v * 256 + c) = c" using assms by (simp add: take_bit_eq_mod)
  then show ?thesis using True bit_take_bit_iff [of 8 "v * 256 + c" k] by simp
next
  case False
  then have "(2 :: nat) ^ k = 2 ^ 8 * 2 ^ (k - 8)" by (metis le_add_diff_inverse not_less power_add)
  then have "(v * 256 + c) div 2 ^ k = (v * 256 + c) div (2 ^ 8 * 2 ^ (k - 8))" by (simp only:)
  also have "\<dots> = v div 2 ^ (k - 8)" unfolding div_mult2_eq using assms by simp
  finally show ?thesis using False by (simp add: bit_iff_odd)
qed

lemma xor_low_octet:
  fixes b r v :: nat
  assumes "b < 256" "r < 256"
  shows "(v * 256 + b) XOR r = v * 256 + (b XOR r)"
proof -
  have "take_bit 8 b = b" "take_bit 8 r = r" using assms by (simp_all add: take_bit_nat_eq_self_iff)
  then have "take_bit 8 (b XOR r) = b XOR r" by (simp add: take_bit_xor)
  then have lt: "b XOR r < 256" unfolding take_bit_nat_eq_self_iff by simp
  have "bit r k \<Longrightarrow> k < 8" for k using \<open>take_bit 8 r = r\<close> by (metis bit_take_bit_iff)
  then show ?thesis
    by (intro bit_eqI) (auto simp: bit_low_octet [OF assms(1)] bit_low_octet [OF lt] bit_xor_iff)
qed

text \<open>Multiplication by two in the field: the shifted value, reduced when a bit was lost.\<close>

definition gf_double :: "CmacKind \<Rightarrow> bytes \<Rightarrow> bytes" where
  "gf_double kind l =
     (let n = CMAC_BLOCK_SIZE kind; v = be_value l in
      be_bytes n (2 * v mod 2 ^ (8 * n) XOR (if 2 ^ (8 * n - 1) \<le> v then unat (cmac_reduction kind) else 0)))"

lemma be_value_xor_last:
  "bs \<noteq> [] \<Longrightarrow> be_value (bs[length bs - 1 := bs ! (length bs - 1) XOR r]) = be_value bs XOR unat r"
proof (induction bs rule: rev_induct)
  case (snoc b bs)
  then show ?case
    using xor_low_octet [OF unat_u8_less [of b] unat_u8_less [of r], of "be_value bs"]
    by (simp add: be_value_append list_update_append unsigned_xor_eq)
qed simp

lemma be_value_top: "bs \<noteq> [] \<Longrightarrow> bs ! 0 AND 0x80 \<noteq> 0 \<longleftrightarrow> 2 ^ (8 * length bs - 1) \<le> be_value bs"
proof (cases bs)
  case (Cons c cs)
  obtain M where M: "M = (256 :: nat) ^ length cs" by simp
  have "(2 :: nat) ^ (8 * length bs - 1) = 2 ^ (7 + 8 * length cs)" by (simp add: Cons)
  also have "\<dots> = 128 * M" by (simp add: power_add power_mult M)
  finally have e: "2 ^ (8 * length bs - 1) = 128 * M" .
  have lt: "be_value cs < M" using be_value_less [of cs] by (simp add: M)
  have "128 \<le> unat c \<longleftrightarrow> 128 * M \<le> unat c * M + be_value cs"
  proof
    assume "128 \<le> unat c"
    then show "128 * M \<le> unat c * M + be_value cs" using mult_le_mono1 [of 128 "unat c" M] by linarith
  next
    assume *: "128 * M \<le> unat c * M + be_value cs"
    show "128 \<le> unat c"
    proof (rule ccontr)
      assume "\<not> 128 \<le> unat c"
      then have "unat c * M + M \<le> 128 * M" using mult_le_mono1 [of "unat c + 1" 128 M] by simp
      then show False using * lt by linarith
    qed
  qed
  then show ?thesis using e by (simp add: Cons top_bit M)
qed simp

lemma subkey_step:
  assumes "length l = CMAC_BLOCK_SIZE kind"
  shows "(let s = cmac_bitShiftLeft l (CMAC_BLOCK_SIZE kind) in
      if l ! 0 AND 0x80 \<noteq> 0
      then s[CMAC_BLOCK_SIZE kind - 1 := s ! (CMAC_BLOCK_SIZE kind - 1) XOR cmac_reduction kind] else s) = gf_double kind l"
    (is "?k = _")
proof -
  let ?n = "CMAC_BLOCK_SIZE kind"
  have ne: "l \<noteq> []" "shift_left l \<noteq> []" using assms block_size_pos [of kind] by (auto simp flip: length_0_conv)
  have pow: "(256 :: nat) ^ ?n = 2 ^ (8 * ?n)" by (simp add: power_mult)
  define k where "k = ?k"
  have len: "length k = ?n" using assms by (simp add: k_def Let_def bitShiftLeft_eq)
  have "be_value k = 2 * be_value l mod 2 ^ (8 * ?n) XOR
      (if 2 ^ (8 * ?n - 1) \<le> be_value l then unat (cmac_reduction kind) else 0)"
    using be_value_xor_last [OF ne(2), of "cmac_reduction kind"] be_value_shift_left [of l] be_value_top [OF ne(1)] assms
    by (simp add: k_def Let_def bitShiftLeft_eq pow)
  then have "gf_double kind l = be_bytes (length k) (be_value k)" by (simp only: gf_double_def Let_def len)
  then show ?thesis unfolding k_def [symmetric] by simp
qed

lemma length_gf_double [simp]: "length (gf_double kind l) = CMAC_BLOCK_SIZE kind"
  by (simp add: gf_double_def Let_def be_bytes_def)

lemma generateSubkeys_eq:
  assumes "block_library lib"
  shows "cmac_generateSubkeys kind lib cipher =
    map_option (\<lambda>l. (gf_double kind l, gf_double kind (gf_double kind l)))
      (cmac_block_encrypt kind lib cipher (replicate (CMAC_BLOCK_SIZE kind) 0))"
proof (cases "cmac_block_encrypt kind lib cipher (replicate (CMAC_BLOCK_SIZE kind) 0)")
  case (Some l)
  have "length l = CMAC_BLOCK_SIZE kind" by (rule cmac_encrypt_length [OF assms Some])
  note s1 = subkey_step [OF this, unfolded Let_def]
  note s2 = subkey_step [OF length_gf_double [of kind l], unfolded Let_def]
  show ?thesis unfolding cmac_generateSubkeys_def Let_def Some option.case s1 s2 by simp
qed (simp add: cmac_generateSubkeys_def)

text \<open>CMAC of a message under a key, from the cipher alone.\<close>

definition cmac_specification ::
  "CmacKind \<Rightarrow> 'x mbedtls \<Rightarrow> bytes option \<Rightarrow> size_t \<Rightarrow> bytes \<Rightarrow> bytes \<Rightarrow> bytes option" where
  "cmac_specification kind lib key key_len iv msg =
     (case cmac_block_init kind lib key key_len of
        None \<Rightarrow> None
      | Some cipher \<Rightarrow>
          let n = CMAC_BLOCK_SIZE kind; enc = cmac_block_encrypt kind lib (Some cipher) in
          (case enc (replicate n 0) of
             None \<Rightarrow> None
           | Some l \<Rightarrow> cmac_reference n enc (gf_double kind l) (gf_double kind (gf_double kind l)) iv msg))"

lemma cmac_segments_eq:
  assumes lib: "block_library lib" and iv: "length iv = CMAC_BLOCK_SIZE kind"
    and segs: "list_all seg_ok segments" "length (message_of segments) \<le> SIZE_MAX - (CMAC_BLOCK_SIZE kind - 1)"
  shows "cmac_segments_with_iv kind lib key key_len segments iv =
    cmac_answer kind (cmac_specification kind lib key key_len iv (message_of segments))"
proof (cases "cmac_block_init kind lib key key_len")
  case init: (Some cipher)
  let ?enc = "cmac_block_encrypt kind lib (Some cipher)"
  show ?thesis
  proof (cases "?enc (replicate (CMAC_BLOCK_SIZE kind) 0)")
    case (Some l)
    let ?k1 = "gf_double kind l" and ?k2 = "gf_double kind (gf_double kind l)"
    let ?ctx = "\<lparr>ctx_cipher = Some cipher, subkey1 = ?k1, subkey2 = ?k2, ctx_initialized = True\<rparr>"
    have "cmac_context_init kind lib key key_len = (True, ?ctx)"
      using init Some by (simp add: cmac_context_init_def generateSubkeys_eq [OF lib])
    then have "cmac_segments_with_iv kind lib key key_len segments iv =
        cmac_context_compute kind lib ?ctx segments iv DfcCmacFinalStandard"
      by (simp add: cmac_segments_with_iv_def)
    also have "\<dots> = cmac_answer kind (cmac_specification kind lib key key_len iv (message_of segments))"
      using context_compute_correct(1) [OF lib _ iv segs, of ?ctx] init Some
      by (simp add: cmac_specification_def Let_def)
    finally show ?thesis .
  qed (simp add: init cmac_segments_with_iv_def cmac_context_init_def generateSubkeys_eq [OF lib] cmac_specification_def)
qed (simp add: cmac_segments_with_iv_def cmac_context_init_def cmac_specification_def)

lemma cmac_with_iv_eq:
  assumes "block_library lib" "length iv = CMAC_BLOCK_SIZE kind" "length msg \<le> SIZE_MAX - (CMAC_BLOCK_SIZE kind - 1)"
  shows "cmac_with_iv kind lib key key_len (Some msg) (length msg) iv =
    cmac_answer kind (cmac_specification kind lib key key_len iv msg)"
  using cmac_segments_eq [OF assms(1,2), of "[\<lparr>seg_data = Some msg, seg_length = length msg\<rparr>]"] assms(3)
  by (simp add: cmac_with_iv_def seg_ok_def seg_octets_def)

subsection \<open>Properties\<close>

text \<open>
  C36. AES-CMAC and TDEA-CMAC over a message handed over in any number of segments, cut
  anywhere, is the CMAC of NIST SP 800-38B on the concatenation: the subkeys are the
  doublings of the encrypted zero block in the field, every block but the last is chained,
  the last one is completed and masked. If the library fails at any block, the function
  answers false and an all-zero tag.
\<close>

theorem cmac_segments_correct:
  assumes "block_library lib" "length iv = CMAC_BLOCK_SIZE kind" "list_all seg_ok segments"
    "length (message_of segments) \<le> SIZE_MAX - (CMAC_BLOCK_SIZE kind - 1)"
  shows "cmac_segments_with_iv kind lib key key_len segments iv =
    (case cmac_specification kind lib key key_len iv (concat (map seg_octets segments)) of
       None \<Rightarrow> (False, replicate (CMAC_BLOCK_SIZE kind) 0)
     | Some mac \<Rightarrow> (True, mac))"
  by (rule cmac_segments_eq [OF assms])

theorem cmac_segments_correct_witness:
  "cmac_segments_with_iv DesCmac xor_library None 8
     [\<lparr>seg_data = Some [1, 2, 3], seg_length = 3\<rparr>, \<lparr>seg_data = None, seg_length = 0\<rparr>] (replicate 8 0) =
   (False, replicate 8 0)"
  using cmac_segments_correct [OF xor_library(1), of "replicate 8 0" DesCmac
      "[\<lparr>seg_data = Some [1, 2, 3], seg_length = 3\<rparr>, \<lparr>seg_data = None, seg_length = 0\<rparr>]" None 8]
  by (simp add: seg_ok_def seg_octets_def SIZE_MAX_def cmac_specification_def)

text \<open>
  A missing segment of non-zero length, or lengths whose sum leaves the type of the
  total, make the computation fail with an all-zero tag before any octet is encrypted, for
  every library and either final mode.
\<close>

theorem cmac_context_compute_rejects:
  assumes "(\<exists>s \<in> set segments. seg_length s \<noteq> 0 \<and> seg_data s = None) \<or>
      SIZE_MAX - (CMAC_BLOCK_SIZE kind - 1) < sum_list (map seg_length segments)"
  shows "cmac_context_compute kind lib context segments iv final_mode = (False, replicate (CMAC_BLOCK_SIZE kind) 0)"
proof -
  have total: "segments_total ss t = Some y \<Longrightarrow> y = t + sum_list (map seg_length ss) \<and>
      (\<forall>s \<in> set ss. seg_length s = 0 \<or> seg_data s \<noteq> None)" for ss t y
    by (induction ss arbitrary: t) (fastforce split: if_splits)+
  show ?thesis
  proof (cases "segments_total segments 0")
    case (Some y)
    then have "SIZE_MAX - (CMAC_BLOCK_SIZE kind - 1) < y" using total [OF Some] assms by auto
    then show ?thesis using Some by (simp add: cmac_context_compute_def Let_def)
  qed (simp add: cmac_context_compute_def Let_def)
qed

theorem cmac_context_compute_rejects_witness:
  "cmac_context_compute AesCmac xor_library
     \<lparr>ctx_cipher = Some [], subkey1 = [], subkey2 = [], ctx_initialized = True\<rparr>
     [\<lparr>seg_data = Some [1], seg_length = 1\<rparr>, \<lparr>seg_data = None, seg_length = 2\<rparr>] (replicate 16 0) DfcCmacFinalPrePadded =
   (False, replicate 16 0)"
  using cmac_context_compute_rejects
    [of "[\<lparr>seg_data = Some [1], seg_length = 1\<rparr>, \<lparr>seg_data = None, seg_length = 2\<rparr>]" AesCmac] by simp

end
