(* ===== verification/Dfc_An10922.thy ===== *)
theory Dfc_An10922
  imports Dfc_Cmac
begin

text \<open>
  Key diversification (\<^verbatim>\<open>src/dfc_an10922.c\<close>): one AES block, or one TDEA block per key
  part, computed over a message of exactly two blocks that the code pads itself. A buffer
  the caller may leave out is an option; the algorithm's last constructor stands for every
  other value of the enumeration's integer type.
\<close>

datatype DfcAn10922Algorithm = DfcAn10922Aes128 | DfcAn10922Tdea2 | DfcAn10922Tdea3 | DfcAn10922Invalid

definition AN10922_AES_INPUT_MAX :: size_t where
  "AN10922_AES_INPUT_MAX = 31"

definition AN10922_TDEA_INPUT_MAX :: size_t where
  "AN10922_TDEA_INPUT_MAX = 15"

fun dfc_an10922_key_length :: "DfcAn10922Algorithm \<Rightarrow> size_t" where
  "dfc_an10922_key_length DfcAn10922Aes128 = 16"
| "dfc_an10922_key_length DfcAn10922Tdea2 = 16"
| "dfc_an10922_key_length DfcAn10922Tdea3 = 24"
| "dfc_an10922_key_length DfcAn10922Invalid = 0"

definition diversify_aes128 ::
  "'x mbedtls \<Rightarrow> bytes \<Rightarrow> bytes \<Rightarrow> size_t \<Rightarrow> bytes \<Rightarrow> bool \<times> bytes" where
  "diversify_aes128 lib master_key inp input_len out =
     (let padded = input_len < AN10922_AES_INPUT_MAX;
          message = (replicate 32 0)[0 := 0x01];
          message = mem_write 1 (take input_len inp) message;
          message = (if padded then message[input_len + 1 := 0x80] else message)
      in case dfc_aes_cmac_context_init lib (Some master_key) 16 of
           (False, _) \<Rightarrow> (False, out)
         | (True, context) \<Rightarrow>
             (case dfc_aes_cmac_context_compute lib context [\<lparr>seg_data = Some message, seg_length = 32\<rparr>]
                (replicate 16 0) (if padded then DfcCmacFinalPrePadded else DfcCmacFinalStandard) of
                (success, cmac) \<Rightarrow> (success, mem_write 0 cmac out)))"

text \<open>The loop over the key parts, which stops at the first failure.\<close>

fun tdea_parts ::
  "'x mbedtls \<Rightarrow> 'x DfcCmacContext \<Rightarrow> DfcCmacFinalMode \<Rightarrow> size_t \<Rightarrow> bytes \<Rightarrow> size_t list \<Rightarrow> bytes \<Rightarrow> bool \<times> bytes" where
  "tdea_parts lib context mode key_len message [] out = (True, out)"
| "tdea_parts lib context mode key_len message (part # parts) out =
     (let message1 = message[0 := of_nat (if key_len = 16 then 0x21 + part else 0x31 + part)] in
      case dfc_des_cmac_context_compute lib context [\<lparr>seg_data = Some message1, seg_length = 16\<rparr>]
        (replicate 8 0) mode of
        (success, cmac) \<Rightarrow>
          if success then tdea_parts lib context mode key_len message1 parts (mem_write (part * 8) cmac out)
          else (False, mem_write (part * 8) cmac out))"

definition diversify_tdea ::
  "'x mbedtls \<Rightarrow> bytes \<Rightarrow> size_t \<Rightarrow> bytes \<Rightarrow> size_t \<Rightarrow> bytes \<Rightarrow> bool \<times> bytes" where
  "diversify_tdea lib master_key key_len inp input_len out =
     (let padded = input_len < AN10922_TDEA_INPUT_MAX;
          part_count = key_len div 8;
          message = mem_write 1 (take input_len inp) (replicate 16 0);
          message = (if padded then message[input_len + 1 := 0x80] else message)
      in case dfc_des_cmac_context_init lib (Some master_key) key_len of
           (False, _) \<Rightarrow> (False, out)
         | (True, context) \<Rightarrow>
             (case tdea_parts lib context (if padded then DfcCmacFinalPrePadded else DfcCmacFinalStandard)
                key_len message [0..<part_count] out of
                (False, out1) \<Rightarrow> (False, out1)
              | (True, out1) \<Rightarrow>
                  (True, mem_write 0 (map (\<lambda>i. (out1 ! i AND 0xfe) OR (master_key ! i AND 0x01)) [0..<8]) out1)))"

definition dfc_an10922_diversify ::
  "'x mbedtls \<Rightarrow> DfcAn10922Algorithm \<Rightarrow> bytes option \<Rightarrow> size_t \<Rightarrow> bytes option \<Rightarrow> size_t \<Rightarrow> bytes option \<Rightarrow> size_t \<Rightarrow>
   bool \<times> bytes option" where
  "dfc_an10922_diversify lib algorithm master_key master_key_len diversification_input
     diversification_input_len diversified_key diversified_key_capacity =
     (let key_len = dfc_an10922_key_length algorithm;
          input_max = (if algorithm = DfcAn10922Aes128 then AN10922_AES_INPUT_MAX else AN10922_TDEA_INPUT_MAX);
          output_available = (diversified_key \<noteq> None \<and> key_len \<noteq> 0 \<and> diversified_key_capacity \<ge> key_len);
          cleared = map_option (mem_set 0 0 key_len) diversified_key
      in if key_len = 0 \<or> master_key = None \<or> master_key_len \<noteq> key_len \<or> diversification_input = None \<or>
            diversification_input_len = 0 \<or> diversification_input_len > input_max \<or> \<not> output_available
         then (False, if output_available then cleared else diversified_key)
         else case (if algorithm = DfcAn10922Aes128
                    then diversify_aes128 lib (the master_key) (the diversification_input)
                      diversification_input_len (replicate 24 0)
                    else diversify_tdea lib (the master_key) key_len (the diversification_input)
                      diversification_input_len (replicate 24 0)) of
             (True, candidate) \<Rightarrow> (True, map_option (mem_write 0 (take key_len candidate)) diversified_key)
           | (False, candidate) \<Rightarrow> (False, cleared))"

subsection \<open>The reference\<close>

text \<open>
  AN10922: the constant and the input fill two blocks; when they do not fill them, the
  marker and zeros do, and then the second subkey masks the last block instead of the first.
\<close>

definition an10922_fill :: "nat \<Rightarrow> bytes \<Rightarrow> bytes" where
  "an10922_fill k inp = inp @ (if length inp = k then [] else 0x80 # replicate (k - 1 - length inp) 0)"

definition an10922_mac :: "CmacKind \<Rightarrow> 'x mbedtls \<Rightarrow> bytes \<Rightarrow> size_t \<Rightarrow> u8 \<Rightarrow> bytes \<Rightarrow> bytes option" where
  "an10922_mac kind lib key key_len constant inp =
     (case cmac_block_init kind lib (Some key) key_len of
        None \<Rightarrow> None
      | Some cipher \<Rightarrow>
          let n = CMAC_BLOCK_SIZE kind; enc = cmac_block_encrypt kind lib (Some cipher);
              full = length inp = 2 * n - 1;
              msg = constant # an10922_fill (2 * n - 1) inp
          in case enc (replicate n 0) of
               None \<Rightarrow> None
             | Some l \<Rightarrow>
                 (case enc (take n msg) of
                    None \<Rightarrow> None
                  | Some x \<Rightarrow>
                      enc (xor_bytes x (xor_bytes (drop n msg)
                        (if full then gf_double kind l else gf_double kind (gf_double kind l))))))"

fun all_some :: "'a option list \<Rightarrow> 'a list option" where
  "all_some [] = Some []"
| "all_some (None # xs) = None"
| "all_some (Some x # xs) = map_option (Cons x) (all_some xs)"

definition an10922_specification ::
  "'x mbedtls \<Rightarrow> DfcAn10922Algorithm \<Rightarrow> bytes \<Rightarrow> bytes \<Rightarrow> bytes option" where
  "an10922_specification lib algorithm key inp =
     (let key_len = dfc_an10922_key_length algorithm in
      if algorithm = DfcAn10922Aes128 then an10922_mac AesCmac lib key key_len 0x01 inp
      else map_option (\<lambda>parts. let k = concat parts in
             map (\<lambda>i. (k ! i AND 0xfe) OR (key ! i AND 0x01)) [0..<8] @ drop 8 k)
           (all_some (map (\<lambda>c. an10922_mac DesCmac lib key key_len c inp)
              (if algorithm = DfcAn10922Tdea2 then [0x21, 0x22] else [0x31, 0x32, 0x33]))))"

lemma context_init_True:
  assumes "block_library lib" "cmac_context_init kind lib key key_len = (True, ctx)"
  obtains cipher l where "cmac_block_init kind lib key key_len = Some cipher"
    "cmac_block_encrypt kind lib (Some cipher) (replicate (CMAC_BLOCK_SIZE kind) 0) = Some l"
    "ctx = \<lparr>ctx_cipher = Some cipher, subkey1 = gf_double kind l, subkey2 = gf_double kind (gf_double kind l),
       ctx_initialized = True\<rparr>"
  using assms(2) by (auto simp: cmac_context_init_def generateSubkeys_eq [OF assms(1)] split: option.splits)

lemma context_init_False:
  "block_library lib \<Longrightarrow> cmac_context_init kind lib (Some key) key_len = (False, ctx) \<Longrightarrow>
    an10922_mac kind lib key key_len c inp = None"
  by (auto simp: cmac_context_init_def generateSubkeys_eq an10922_mac_def Let_def split: option.splits)

lemma two_blocks:
  assumes "length msg = 2 * n" "0 < n"
  shows "cmac_head n msg = take n msg" "cmac_tail n msg = drop n msg"
  using head_tail_split [of n "drop n msg" "take n msg"] assms by auto

lemma cbc_mac_one: "length iv = n \<Longrightarrow> length b = n \<Longrightarrow> 0 < n \<Longrightarrow> cbc_mac enc iv (chunks n b) = enc (xor_bytes iv b)"
  using chunks_block [of b n "[]"] by (simp split: option.split)

text \<open>The two-block computation of the code, in the mode the padding selects.\<close>

lemma an10922_compute:
  fixes kind :: CmacKind and inp :: bytes and c :: u8
  defines "n \<equiv> CMAC_BLOCK_SIZE kind"
  assumes lib: "block_library lib" and init: "cmac_context_init kind lib (Some key) key_len = (True, ctx)"
    and len: "length inp \<le> k" and k: "k = 2 * n - 1"
  shows "cmac_context_compute kind lib ctx [\<lparr>seg_data = Some (c # an10922_fill k inp), seg_length = k + 1\<rparr>] (replicate n 0)
      (if length inp < k then DfcCmacFinalPrePadded else DfcCmacFinalStandard) =
    cmac_answer kind (an10922_mac kind lib key key_len c inp)"
proof -
  obtain cipher l where il: "cmac_block_init kind lib (Some key) key_len = Some cipher"
    "cmac_block_encrypt kind lib (Some cipher) (replicate (CMAC_BLOCK_SIZE kind) 0) = Some l"
    and ctx: "ctx = \<lparr>ctx_cipher = Some cipher, subkey1 = gf_double kind l, subkey2 = gf_double kind (gf_double kind l),
       ctx_initialized = True\<rparr>"
    by (rule context_init_True [OF lib init])
  define msg where "msg = c # an10922_fill k inp"
  have n: "0 < n" "2 * n < 100" "k + 1 = 2 * n" by (cases kind; simp add: n_def k)+
  have lm: "length msg = 2 * n" using len n by (auto simp: msg_def an10922_fill_def)
  let ?segs = "[\<lparr>seg_data = Some msg, seg_length = 2 * n\<rparr>]"
  have m: "concat (map seg_octets ?segs) = msg" using lm by (simp add: seg_octets_def)
  have segs: "list_all seg_ok ?segs" "length (concat (map seg_octets ?segs)) \<le> SIZE_MAX - (CMAC_BLOCK_SIZE kind - 1)"
    unfolding m using lm n by (simp_all add: seg_ok_def n_def [symmetric] SIZE_MAX_def)
  have ctx': "ctx_cipher ctx = Some cipher" "subkey1 ctx = gf_double kind l" "subkey2 ctx = gf_double kind (gf_double kind l)"
    "ctx_initialized ctx" by (simp_all add: ctx)
  note ht = two_blocks [OF lm n(1)]
  have head: "cbc_mac enc (replicate n 0) (chunks n (take n msg)) = enc (take n msg)" for enc
    using cbc_mac_one [of "replicate n 0" n "take n msg"] lm n by simp
  have nn: "\<not> (msg = [] \<or> length msg mod n \<noteq> 0)" using lm n by auto
  note comp = context_compute_correct [OF lib ctx'(4) _ segs, of "replicate n 0", unfolded m n_def [symmetric] ctx'
      cmac_reference_def cmac_pre_padded_reference_def if_not_P [OF nn] ht head]
  have mac: "an10922_mac kind lib key key_len c inp =
      (case cmac_block_encrypt kind lib (Some cipher) (take n msg) of None \<Rightarrow> None
       | Some x \<Rightarrow> cmac_block_encrypt kind lib (Some cipher) (xor_bytes x (xor_bytes (drop n msg)
           (if length inp = k then gf_double kind l else gf_double kind (gf_double kind l)))))"
    unfolding an10922_mac_def il option.case Let_def msg_def k n_def by simp
  show ?thesis
  proof (cases "length inp < k")
    case True
    then have ne: "length inp \<noteq> k" by simp
    show ?thesis unfolding mac if_P [OF True] if_not_P [OF ne] n_def [symmetric] n(3) msg_def [symmetric]
      by (rule comp(2)) (simp_all add: n_def)
  next
    case False
    then have eq: "length inp = k" using len by simp
    have "length (drop n msg) = n" using lm by simp
    note last = cmac_last_block_def [of n _ _ "drop n msg", unfolded if_P [OF this]]
    show ?thesis unfolding mac if_not_P [OF False] if_P [OF eq] n_def [symmetric] n(3) msg_def [symmetric]
      by (rule comp(1) [unfolded last]) (simp_all add: n_def)
  qed
qed

lemma an10922_message:
  "length inp \<le> k \<Longrightarrow>
    (if length inp < k then (mem_write 1 inp (c # replicate k 0))[length inp + 1 := 0x80]
     else mem_write 1 inp (c # replicate k 0)) =
    c # an10922_fill k inp"
proof -
  assume "length inp \<le> k"
  moreover have "replicate (k - length inp) (0 :: u8) = 0 # replicate (k - 1 - length inp) 0" if "length inp < k"
    using that by (metis Suc_diff_Suc diff_Suc_eq_diff_pred replicate_Suc)
  ultimately show ?thesis by (auto simp: mem_write_def list_update_append an10922_fill_def)
qed

lemma an10922_mac_length:
  "block_library lib \<Longrightarrow> an10922_mac kind lib key key_len c inp = Some m \<Longrightarrow> length m = CMAC_BLOCK_SIZE kind"
  by (auto simp: an10922_mac_def Let_def dest: cmac_encrypt_length split: option.splits)

lemma diversify_aes128_eq:
  assumes lib: "block_library lib" and len: "length inp \<le> 31" "16 \<le> length out"
  shows "(case diversify_aes128 lib key inp (length inp) out of
      (True, out1) \<Rightarrow> an10922_mac AesCmac lib key 16 0x01 inp = Some (take 16 out1)
    | (False, out1) \<Rightarrow> an10922_mac AesCmac lib key 16 0x01 inp = None)"
proof (cases "cmac_context_init AesCmac lib (Some key) 16")
  case (Pair ok ctx)
  show ?thesis
  proof (cases ok)
    case True
    then have init: "cmac_context_init AesCmac lib (Some key) 16 = (True, ctx)" using Pair by simp
    have m0: "(replicate 32 0)[0 := 0x01] = (0x01 :: u8) # replicate 31 0" by (simp add: numeral_eq_Suc)
    have "diversify_aes128 lib key inp (length inp) out =
        (case cmac_answer AesCmac (an10922_mac AesCmac lib key 16 0x01 inp) of
          (success, cmac) \<Rightarrow> (success, mem_write 0 cmac out))"
      using an10922_compute [OF lib init len(1), of 1]
      unfolding diversify_aes128_def Let_def dfc_aes_cmac_context_init_def dfc_aes_cmac_context_compute_def
        m0 AN10922_AES_INPUT_MAX_def init take_all [OF order_refl] an10922_message [OF len(1)]
      by simp
    then show ?thesis using an10922_mac_length [OF lib, of AesCmac key 16 1 inp] len(2)
      by (cases "an10922_mac AesCmac lib key 16 1 inp") (simp_all add: mem_write_def)
  next
    case False
    then show ?thesis using Pair context_init_False [OF lib, of AesCmac key 16 ctx]
      by (simp add: diversify_aes128_def dfc_aes_cmac_context_init_def)
  qed
qed

text \<open>The parts of a TDEA key land in consecutive blocks of the candidate.\<close>

lemma tdea_parts_eq:
  fixes key inp :: bytes and key_len :: size_t and lib :: "'x mbedtls"
  defines "tail \<equiv> an10922_fill 15 inp"
  defines "mode \<equiv> (if length inp < 15 then DfcCmacFinalPrePadded else DfcCmacFinalStandard)"
  defines "mac \<equiv> \<lambda>p. an10922_mac DesCmac lib key key_len (of_nat (if key_len = 16 then 0x21 + p else 0x31 + p)) inp"
  assumes lib: "block_library lib" and init: "cmac_context_init DesCmac lib (Some key) key_len = (True, ctx)"
    and len: "length inp \<le> 15"
  shows "length out = 8 * p \<Longrightarrow> 8 * q \<le> length rest \<Longrightarrow>
    (case tdea_parts lib ctx mode key_len (c # tail) [p..<p + q] (out @ rest) of
       (True, out1) \<Rightarrow> (\<exists>ms. all_some (map mac [p..<p + q]) = Some ms \<and>
          out1 = out @ concat ms @ drop (8 * q) rest \<and> length (concat ms) = 8 * q)
     | (False, out1) \<Rightarrow> all_some (map mac [p..<p + q]) = None)"
proof (induction q arbitrary: p out rest c)
  case (Suc q)
  let ?k = "of_nat (if key_len = 16 then 0x21 + p else 0x31 + p) :: u8"
  have comp: "dfc_des_cmac_context_compute lib ctx [\<lparr>seg_data = Some (?k # tail), seg_length = 16\<rparr>] (replicate 8 0) mode =
      cmac_answer DesCmac (mac p)"
    using an10922_compute [OF lib init len, of ?k] unfolding dfc_des_cmac_context_compute_def tail_def mode_def mac_def
    by simp
  have ups: "[p..<p + Suc q] = p # [Suc p..<Suc p + q]" by (simp add: upt_conv_Cons)
  show ?case
  proof (cases "mac p")
    case None
    then show ?thesis unfolding ups using comp by (simp add: Let_def)
  next
    case (Some m)
    have lm: "length m = 8" using an10922_mac_length [OF lib, of DesCmac] Some by (simp add: mac_def)
    have w: "mem_write (p * 8) m (out @ rest) = (out @ m) @ drop 8 rest"
      using Suc.prems lm by (simp add: mem_write_def mult.commute)
    have "8 * q \<le> length (drop 8 rest)" "length (out @ m) = 8 * Suc p" using Suc.prems lm by simp_all
    note ih = Suc.IH [OF this(2,1), of ?k]
    have step: "tdea_parts lib ctx mode key_len (c # tail) [p..<p + Suc q] (out @ rest) =
        tdea_parts lib ctx mode key_len (?k # tail) [Suc p..<Suc p + q] ((out @ m) @ drop 8 rest)"
      unfolding ups using comp Some w by (simp add: Let_def)
    have macs: "all_some (map mac [p..<p + Suc q]) = map_option (Cons m) (all_some (map mac [Suc p..<Suc p + q]))"
      unfolding ups list.map Some all_some.simps ..
    obtain ok out1 where r: "tdea_parts lib ctx mode key_len (?k # tail) [Suc p..<Suc p + q] ((out @ m) @ drop 8 rest) = (ok, out1)"
      by fastforce
    show ?thesis using ih lm unfolding step macs r by (cases ok) (auto simp: add.commute)
  qed
qed simp

lemma diversify_tdea_eq:
  assumes lib: "block_library lib" and len: "length inp \<le> 15" and kl: "key_len = 16 \<or> key_len = 24"
  shows "(case diversify_tdea lib key key_len inp (length inp) (replicate 24 0) of
      (True, out1) \<Rightarrow> map_option (\<lambda>parts. let k = concat parts in
          map (\<lambda>i. (k ! i AND 0xfe) OR (key ! i AND 0x01)) [0..<8] @ drop 8 k)
        (all_some (map (\<lambda>c. an10922_mac DesCmac lib key key_len c inp)
          (if key_len = 16 then [0x21, 0x22] else [0x31, 0x32, 0x33]))) = Some (take key_len out1)
    | (False, out1) \<Rightarrow> all_some (map (\<lambda>c. an10922_mac DesCmac lib key key_len c inp)
          (if key_len = 16 then [0x21, 0x22] else [0x31, 0x32, 0x33])) = None)"
proof (cases "cmac_context_init DesCmac lib (Some key) key_len")
  case (Pair ok ctx)
  let ?macs = "map (\<lambda>c. an10922_mac DesCmac lib key key_len c inp) (if key_len = 16 then [0x21, 0x22] else [0x31, 0x32, 0x33])"
  show ?thesis
  proof (cases ok)
    case True
    then have init: "cmac_context_init DesCmac lib (Some key) key_len = (True, ctx)" using Pair by simp
    let ?mode = "if length inp < 15 then DfcCmacFinalPrePadded else DfcCmacFinalStandard"
    let ?q = "key_len div 8"
    have m0: "replicate 16 0 = (0 :: u8) # replicate 15 0" by (simp add: numeral_eq_Suc)
    obtain ok out1 where r: "tdea_parts lib ctx ?mode key_len (0 # an10922_fill 15 inp) [0..<0 + ?q] ([] @ replicate 24 0) = (ok, out1)"
      by fastforce
    have macs: "map (\<lambda>p. an10922_mac DesCmac lib key key_len (of_nat (if key_len = 16 then 0x21 + p else 0x31 + p)) inp) [0..<0 + ?q] = ?macs"
      using kl by (auto simp: upt_rec)
    note parts = tdea_parts_eq [OF lib init len, of "[]" 0 ?q "replicate 24 0" 0, unfolded macs r]
    have d: "diversify_tdea lib key key_len inp (length inp) (replicate 24 0) =
        (case (ok, out1) of (False, out1) \<Rightarrow> (False, out1)
         | (True, out1) \<Rightarrow> (True, mem_write 0 (map (\<lambda>i. (out1 ! i AND 0xfe) OR (key ! i AND 0x01)) [0..<8]) out1))"
      using r unfolding diversify_tdea_def Let_def dfc_des_cmac_context_init_def
        m0 AN10922_TDEA_INPUT_MAX_def init take_all [OF order_refl] an10922_message [OF len]
      by simp
    show ?thesis
    proof (cases ok)
      case True
      then obtain ms where ms: "all_some ?macs = Some ms" "out1 = concat ms @ drop (8 * ?q) (replicate 24 0)"
        "length (concat ms) = 8 * ?q" using parts kl by auto
      have "take key_len (mem_write 0 (map (\<lambda>i. (out1 ! i AND 0xfe) OR (key ! i AND 0x01)) [0..<8]) out1) =
          map (\<lambda>i. (concat ms ! i AND 0xfe) OR (key ! i AND 0x01)) [0..<8] @ drop 8 (concat ms)"
        using kl ms(3) unfolding ms(2) by (auto simp: mem_write_def nth_append)
      then show ?thesis unfolding d ms(1) using True by (simp add: Let_def)
    next
      case False
      then show ?thesis unfolding d using parts kl by auto
    qed
  next
    case False
    have "?macs = None # tl ?macs"
      using False Pair context_init_False [OF lib, of DesCmac key key_len ctx] by simp
    then have "all_some ?macs = None" by (metis all_some.simps(2))
    then show ?thesis using False Pair by (simp add: diversify_tdea_def dfc_des_cmac_context_init_def Let_def)
  qed
qed

lemma all_some_Some: "all_some xs = Some ys \<longleftrightarrow> xs = map Some ys"
  by (induction xs arbitrary: ys rule: all_some.induct) (auto simp: Cons_eq_map_conv)

lemma an10922_specification_length:
  assumes "block_library lib" "an10922_specification lib algorithm key inp = Some k" "algorithm \<noteq> DfcAn10922Invalid"
  shows "length k = dfc_an10922_key_length algorithm"
  using assms an10922_mac_length [OF assms(1), of _ key "dfc_an10922_key_length algorithm" _ inp]
  by (cases algorithm) (fastforce simp: an10922_specification_def Let_def all_some_Some Cons_eq_map_conv)+

text \<open>
  C38. Key diversification refuses exactly the arguments its header rules out, and otherwise
  computes the diversified key of AN10922: for AES the masked two-block CMAC of the padded
  input, for TDEA one such block per key part, the version bits of the master key kept in the
  first eight octets. Every failure, of the arguments or of the cipher, clears a large enough
  output, and nothing outside the key's length is written.
\<close>

theorem dfc_an10922_diversify_correct:
  assumes "block_library lib"
    and "length out = cap" "length inp = input_len" "key_length = dfc_an10922_key_length algorithm"
    and "input_max = (if algorithm = DfcAn10922Aes128 then 31 else 15)"
  shows "dfc_an10922_diversify lib algorithm (Some key) master_key_len (Some inp) input_len (Some out) cap =
    (if key_length = 0 \<or> cap < key_length then (False, Some out)
     else if master_key_len \<noteq> key_length \<or> input_len = 0 \<or> input_max < input_len
     then (False, Some (replicate key_length 0 @ drop key_length out))
     else case an10922_specification lib algorithm key inp of
       None \<Rightarrow> (False, Some (replicate key_length 0 @ drop key_length out))
     | Some k \<Rightarrow> (True, Some (k @ drop key_length out)))"
proof (cases "key_length = 0 \<or> cap < key_length \<or> master_key_len \<noteq> key_length \<or> input_len = 0 \<or> input_max < input_len")
  case True
  then show ?thesis using assms
    by (auto simp: dfc_an10922_diversify_def Let_def AN10922_AES_INPUT_MAX_def AN10922_TDEA_INPUT_MAX_def
        mem_set_def mem_write_def)
next
  case False
  let ?run = "if algorithm = DfcAn10922Aes128 then diversify_aes128 lib key inp input_len (replicate 24 0)
    else diversify_tdea lib key key_length inp input_len (replicate 24 0)"
  obtain ok candidate where r: "?run = (ok, candidate)" by fastforce
  have d: "dfc_an10922_diversify lib algorithm (Some key) master_key_len (Some inp) input_len (Some out) cap =
      (if ok then (True, Some (mem_write 0 (take key_length candidate) out))
       else (False, Some (replicate key_length 0 @ drop key_length out)))"
    using False assms r
    by (auto simp: dfc_an10922_diversify_def Let_def AN10922_AES_INPUT_MAX_def AN10922_TDEA_INPUT_MAX_def
        mem_set_def mem_write_def)
  have spec: "an10922_specification lib algorithm key inp = (if ok then Some (take key_length candidate) else None)"
  proof (cases "algorithm = DfcAn10922Aes128")
    case True
    then show ?thesis using diversify_aes128_eq [OF assms(1), of inp "replicate 24 0" key] r False assms
      by (auto simp: an10922_specification_def split: bool.splits)
  next
    case tdea: False
    then have kl: "key_length = 16 \<or> key_length = 24" "algorithm = DfcAn10922Tdea2 \<longleftrightarrow> key_length = 16" "length inp \<le> 15"
      using False assms by (cases algorithm; simp)+
    show ?thesis using diversify_tdea_eq [OF assms(1) kl(3,1), of key] r tdea kl(2) assms(3,4)
      by (auto simp: an10922_specification_def split: bool.splits)
  qed
  have "length (take key_length candidate) = key_length" if ok
    using an10922_specification_length [OF assms(1) spec [unfolded if_P [OF that]]] False assms(4)
    by (cases algorithm) auto
  then show ?thesis using False unfolding d spec by (auto simp: mem_write_def)
qed

theorem dfc_an10922_diversify_correct_witness:
  "dfc_an10922_diversify xor_library DfcAn10922Tdea3 (Some (replicate 24 7)) 24 (Some (replicate 16 1)) 16
     (Some (replicate 25 9)) 25 = (False, Some (replicate 24 0 @ [9]))"
  using dfc_an10922_diversify_correct [OF xor_library(1), of "replicate 25 9" 25 "replicate 16 1" 16 24 DfcAn10922Tdea3 15
      "replicate 24 7" 24] by simp

end
