(* ===== verification/Dfc_Wire.thy ===== *)
theory Dfc_Wire
  imports Dfc_Common
begin

text \<open>
  The wire constants of \<^verbatim>\<open>src/dfc_common.h\<close>: native command codes, statuses, the fields of the
  transaction-MAC derivation vector and the classification of the chained file commands.
\<close>

definition DFC_CMD_AUTHENTICATE_EV2_FIRST :: u8 where "DFC_CMD_AUTHENTICATE_EV2_FIRST = 0x71"
definition DFC_CMD_AUTHENTICATE_EV2_NON_FIRST :: u8 where "DFC_CMD_AUTHENTICATE_EV2_NON_FIRST = 0x77"
definition DFC_CMD_ADDITIONAL_FRAME :: u8 where "DFC_CMD_ADDITIONAL_FRAME = 0xAF"
definition DFC_CMD_CHANGE_KEY_SETTINGS :: u8 where "DFC_CMD_CHANGE_KEY_SETTINGS = 0x54"
definition DFC_CMD_GET_CARD_UID :: u8 where "DFC_CMD_GET_CARD_UID = 0x51"
definition DFC_CMD_GET_KEY_SETTINGS :: u8 where "DFC_CMD_GET_KEY_SETTINGS = 0x45"
definition DFC_CMD_GET_KEY_VERSION :: u8 where "DFC_CMD_GET_KEY_VERSION = 0x64"
definition DFC_CMD_INITIALIZE_KEY_SET :: u8 where "DFC_CMD_INITIALIZE_KEY_SET = 0x56"
definition DFC_CMD_FINALIZE_KEY_SET :: u8 where "DFC_CMD_FINALIZE_KEY_SET = 0x57"
definition DFC_CMD_ROLL_KEY_SET :: u8 where "DFC_CMD_ROLL_KEY_SET = 0x55"
definition DFC_CMD_GET_APPLICATION_IDS :: u8 where "DFC_CMD_GET_APPLICATION_IDS = 0x6A"
definition DFC_CMD_GET_DF_NAMES :: u8 where "DFC_CMD_GET_DF_NAMES = 0x6D"
definition DFC_CMD_FREE_MEM :: u8 where "DFC_CMD_FREE_MEM = 0x6E"
definition DFC_CMD_CREATE_APPLICATION :: u8 where "DFC_CMD_CREATE_APPLICATION = 0xCA"
definition DFC_CMD_DELETE_APPLICATION :: u8 where "DFC_CMD_DELETE_APPLICATION = 0xDA"
definition DFC_CMD_FORMAT_PICC :: u8 where "DFC_CMD_FORMAT_PICC = 0xFC"
definition DFC_CMD_GET_ISO_FILE_IDS :: u8 where "DFC_CMD_GET_ISO_FILE_IDS = 0x61"
definition DFC_CMD_GET_FILE_IDS :: u8 where "DFC_CMD_GET_FILE_IDS = 0x6F"
definition DFC_CMD_GET_FILE_SETTINGS :: u8 where "DFC_CMD_GET_FILE_SETTINGS = 0xF5"
definition DFC_CMD_CHANGE_FILE_SETTINGS :: u8 where "DFC_CMD_CHANGE_FILE_SETTINGS = 0x5F"
definition DFC_CMD_CREATE_STD_DATA_FILE :: u8 where "DFC_CMD_CREATE_STD_DATA_FILE = 0xCD"
definition DFC_CMD_CREATE_BACKUP_DATA_FILE :: u8 where "DFC_CMD_CREATE_BACKUP_DATA_FILE = 0xCB"
definition DFC_CMD_CREATE_LINEAR_RECORD_FILE :: u8 where "DFC_CMD_CREATE_LINEAR_RECORD_FILE = 0xC1"
definition DFC_CMD_CREATE_CYCLIC_RECORD_FILE :: u8 where "DFC_CMD_CREATE_CYCLIC_RECORD_FILE = 0xC0"
definition DFC_CMD_CREATE_VALUE_FILE :: u8 where "DFC_CMD_CREATE_VALUE_FILE = 0xCC"
definition DFC_CMD_DELETE_FILE :: u8 where "DFC_CMD_DELETE_FILE = 0xDF"
definition DFC_CMD_CHANGE_KEY :: u8 where "DFC_CMD_CHANGE_KEY = 0xC4"
definition DFC_CMD_CHANGE_KEY_EV2 :: u8 where "DFC_CMD_CHANGE_KEY_EV2 = 0xC6"
definition DFC_CMD_CREATE_DELEGATED_APPLICATION :: u8 where "DFC_CMD_CREATE_DELEGATED_APPLICATION = 0xC9"
definition DFC_CMD_GET_DELEGATED_INFO :: u8 where "DFC_CMD_GET_DELEGATED_INFO = 0x69"
definition DFC_CMD_GET_VALUE :: u8 where "DFC_CMD_GET_VALUE = 0x6C"
definition DFC_CMD_CREDIT :: u8 where "DFC_CMD_CREDIT = 0x0C"
definition DFC_CMD_LIMITED_CREDIT :: u8 where "DFC_CMD_LIMITED_CREDIT = 0x1C"
definition DFC_CMD_DEBIT :: u8 where "DFC_CMD_DEBIT = 0xDC"
definition DFC_CMD_COMMIT_TRANSACTION :: u8 where "DFC_CMD_COMMIT_TRANSACTION = 0xC7"
definition DFC_CMD_ABORT_TRANSACTION :: u8 where "DFC_CMD_ABORT_TRANSACTION = 0xA7"
definition DFC_CMD_READ_DATA_ISO :: u8 where "DFC_CMD_READ_DATA_ISO = 0xAD"
definition DFC_CMD_WRITE_DATA :: u8 where "DFC_CMD_WRITE_DATA = 0x3D"
definition DFC_CMD_WRITE_DATA_ISO :: u8 where "DFC_CMD_WRITE_DATA_ISO = 0x8D"
definition DFC_CMD_WRITE_RECORD :: u8 where "DFC_CMD_WRITE_RECORD = 0x3B"
definition DFC_CMD_WRITE_RECORD_ISO :: u8 where "DFC_CMD_WRITE_RECORD_ISO = 0x8B"
definition DFC_CMD_READ_RECORDS :: u8 where "DFC_CMD_READ_RECORDS = 0xBB"
definition DFC_CMD_READ_RECORDS_ISO :: u8 where "DFC_CMD_READ_RECORDS_ISO = 0xAB"
definition DFC_CMD_UPDATE_RECORD :: u8 where "DFC_CMD_UPDATE_RECORD = 0xDB"
definition DFC_CMD_UPDATE_RECORD_ISO :: u8 where "DFC_CMD_UPDATE_RECORD_ISO = 0xBA"
definition DFC_CMD_CLEAR_RECORD_FILE :: u8 where "DFC_CMD_CLEAR_RECORD_FILE = 0xEB"
definition DFC_CMD_PREPARE_PROXIMITY_CHECK :: u8 where "DFC_CMD_PREPARE_PROXIMITY_CHECK = 0xF0"
definition DFC_CMD_PROXIMITY_CHECK :: u8 where "DFC_CMD_PROXIMITY_CHECK = 0xF2"
definition DFC_CMD_VERIFY_PROXIMITY_CHECK :: u8 where "DFC_CMD_VERIFY_PROXIMITY_CHECK = 0xFD"
definition DFC_CMD_READ_SIGNATURE :: u8 where "DFC_CMD_READ_SIGNATURE = 0x3C"
definition DFC_CMD_SET_CONFIGURATION :: u8 where "DFC_CMD_SET_CONFIGURATION = 0x5C"
definition DFC_CMD_GET_FILE_COUNTERS :: u8 where "DFC_CMD_GET_FILE_COUNTERS = 0xF6"
definition DFC_CMD_CREATE_TRANSACTION_MAC_FILE :: u8 where "DFC_CMD_CREATE_TRANSACTION_MAC_FILE = 0xCE"
definition DFC_CMD_COMMIT_READER_ID :: u8 where "DFC_CMD_COMMIT_READER_ID = 0xC8"
definition DFC_CMD_NOTIFY_TRANSACTION_SUCCESS :: u8 where "DFC_CMD_NOTIFY_TRANSACTION_SUCCESS = 0xEE"
definition DFC_TRANSACTION_MAC_DERIVATION_LABEL :: u8 where "DFC_TRANSACTION_MAC_DERIVATION_LABEL = 0x5A"
definition DFC_DERIVATION_COUNTER_HIGH :: u8 where "DFC_DERIVATION_COUNTER_HIGH = 0x00"
definition DFC_DERIVATION_COUNTER_LOW :: u8 where "DFC_DERIVATION_COUNTER_LOW = 0x01"
definition DFC_DERIVED_AES_KEY_LENGTH_HIGH :: u8 where "DFC_DERIVED_AES_KEY_LENGTH_HIGH = 0x00"
definition DFC_DERIVED_AES_KEY_LENGTH_LOW :: u8 where "DFC_DERIVED_AES_KEY_LENGTH_LOW = 0x80"
definition DFC_TRANSACTION_VECTOR_COUNTER_OFFSET :: size_t where "DFC_TRANSACTION_VECTOR_COUNTER_OFFSET = 5"
definition DFC_TRANSACTION_VECTOR_UID_OFFSET :: size_t where "DFC_TRANSACTION_VECTOR_UID_OFFSET = 9"
definition DFC_TRANSACTION_MAC_FILE_LENGTH :: size_t where "DFC_TRANSACTION_MAC_FILE_LENGTH = 12"
definition DFC_TRANSACTION_READER_ID_LENGTH :: size_t where "DFC_TRANSACTION_READER_ID_LENGTH = DFC_AES_KEY_LENGTH"

definition DFC_STATUS_OK :: u8 where "DFC_STATUS_OK = 0x00"
definition DFC_STATUS_NO_CHANGES :: u8 where "DFC_STATUS_NO_CHANGES = 0x0C"
definition DFC_STATUS_INTEGRITY_ERROR :: u8 where "DFC_STATUS_INTEGRITY_ERROR = 0x1E"
definition DFC_STATUS_ILLEGAL_COMMAND_CODE :: u8 where "DFC_STATUS_ILLEGAL_COMMAND_CODE = 0x1C"
definition DFC_STATUS_NO_SUCH_KEY :: u8 where "DFC_STATUS_NO_SUCH_KEY = 0x40"
definition DFC_STATUS_SPECIAL_SUCCESS :: u8 where "DFC_STATUS_SPECIAL_SUCCESS = 0x90"
definition DFC_STATUS_MEMORY_ERROR :: u8 where "DFC_STATUS_MEMORY_ERROR = 0xEE"
definition DFC_STATUS_LENGTH_ERROR :: u8 where "DFC_STATUS_LENGTH_ERROR = 0x7E"
definition DFC_STATUS_PERMISSION_DENIED :: u8 where "DFC_STATUS_PERMISSION_DENIED = 0x9D"
definition DFC_STATUS_PARAMETER_ERROR :: u8 where "DFC_STATUS_PARAMETER_ERROR = 0x9E"
definition DFC_STATUS_AUTHENTICATION_ERR :: u8 where "DFC_STATUS_AUTHENTICATION_ERR = 0xAE"
definition DFC_STATUS_BOUNDARY_ERROR :: u8 where "DFC_STATUS_BOUNDARY_ERROR = 0xBE"
definition DFC_STATUS_FILE_NOT_FOUND :: u8 where "DFC_STATUS_FILE_NOT_FOUND = 0xF0"

lemmas dfc_status_defs = DFC_STATUS_OK_def DFC_STATUS_NO_CHANGES_def DFC_STATUS_INTEGRITY_ERROR_def
  DFC_STATUS_LENGTH_ERROR_def DFC_STATUS_PERMISSION_DENIED_def DFC_STATUS_PARAMETER_ERROR_def
  DFC_STATUS_AUTHENTICATION_ERR_def DFC_STATUS_BOUNDARY_ERROR_def DFC_STATUS_FILE_NOT_FOUND_def DFC_STATUS_ILLEGAL_COMMAND_CODE_def
  DFC_STATUS_NO_SUCH_KEY_def DFC_STATUS_SPECIAL_SUCCESS_def DFC_STATUS_MEMORY_ERROR_def

lemmas command_codes =
  DFC_CMD_AUTHENTICATE_LEGACY_def
  DFC_CMD_AUTHENTICATE_ISO_def
  DFC_CMD_AUTHENTICATE_AES_def
  DFC_CMD_AUTHENTICATE_EV2_FIRST_def
  DFC_CMD_AUTHENTICATE_EV2_NON_FIRST_def
  DFC_CMD_ADDITIONAL_FRAME_def
  DFC_CMD_CHANGE_KEY_SETTINGS_def
  DFC_CMD_GET_VERSION_def
  DFC_CMD_GET_CARD_UID_def
  DFC_CMD_SELECT_APPLICATION_def
  DFC_CMD_GET_KEY_SETTINGS_def
  DFC_CMD_GET_KEY_VERSION_def
  DFC_CMD_INITIALIZE_KEY_SET_def
  DFC_CMD_FINALIZE_KEY_SET_def
  DFC_CMD_ROLL_KEY_SET_def
  DFC_CMD_GET_APPLICATION_IDS_def
  DFC_CMD_GET_DF_NAMES_def
  DFC_CMD_FREE_MEM_def
  DFC_CMD_CREATE_APPLICATION_def
  DFC_CMD_DELETE_APPLICATION_def
  DFC_CMD_FORMAT_PICC_def
  DFC_CMD_GET_ISO_FILE_IDS_def
  DFC_CMD_GET_FILE_IDS_def
  DFC_CMD_GET_FILE_SETTINGS_def
  DFC_CMD_CHANGE_FILE_SETTINGS_def
  DFC_CMD_CREATE_STD_DATA_FILE_def
  DFC_CMD_CREATE_BACKUP_DATA_FILE_def
  DFC_CMD_CREATE_LINEAR_RECORD_FILE_def
  DFC_CMD_CREATE_CYCLIC_RECORD_FILE_def
  DFC_CMD_CREATE_VALUE_FILE_def
  DFC_CMD_DELETE_FILE_def
  DFC_CMD_CHANGE_KEY_def
  DFC_CMD_CHANGE_KEY_EV2_def
  DFC_CMD_CREATE_DELEGATED_APPLICATION_def
  DFC_CMD_GET_DELEGATED_INFO_def
  DFC_CMD_GET_VALUE_def
  DFC_CMD_CREDIT_def
  DFC_CMD_LIMITED_CREDIT_def
  DFC_CMD_DEBIT_def
  DFC_CMD_COMMIT_TRANSACTION_def
  DFC_CMD_ABORT_TRANSACTION_def
  DFC_CMD_READ_DATA_def
  DFC_CMD_READ_DATA_ISO_def
  DFC_CMD_WRITE_DATA_def
  DFC_CMD_WRITE_DATA_ISO_def
  DFC_CMD_WRITE_RECORD_def
  DFC_CMD_WRITE_RECORD_ISO_def
  DFC_CMD_READ_RECORDS_def
  DFC_CMD_READ_RECORDS_ISO_def
  DFC_CMD_UPDATE_RECORD_def
  DFC_CMD_UPDATE_RECORD_ISO_def
  DFC_CMD_CLEAR_RECORD_FILE_def
  DFC_CMD_PREPARE_PROXIMITY_CHECK_def
  DFC_CMD_PROXIMITY_CHECK_def
  DFC_CMD_VERIFY_PROXIMITY_CHECK_def
  DFC_CMD_READ_SIGNATURE_def
  DFC_CMD_SET_CONFIGURATION_def
  DFC_CMD_GET_FILE_COUNTERS_def
  DFC_CMD_CREATE_TRANSACTION_MAC_FILE_def
  DFC_CMD_COMMIT_READER_ID_def
  DFC_CMD_NOTIFY_TRANSACTION_SUCCESS_def

definition dfc_file_command_base :: "u8 \<Rightarrow> u8" where
  "dfc_file_command_base command =
     (if command = DFC_CMD_READ_DATA_ISO then DFC_CMD_READ_DATA
      else if command = DFC_CMD_WRITE_DATA_ISO then DFC_CMD_WRITE_DATA
      else if command = DFC_CMD_READ_RECORDS_ISO then DFC_CMD_READ_RECORDS
      else if command = DFC_CMD_WRITE_RECORD_ISO then DFC_CMD_WRITE_RECORD
      else if command = DFC_CMD_UPDATE_RECORD_ISO then DFC_CMD_UPDATE_RECORD
      else command)"

definition dfc_command_uses_iso_dep_request_chaining :: "u8 \<Rightarrow> bool" where
  "dfc_command_uses_iso_dep_request_chaining command \<longleftrightarrow>
     command = DFC_CMD_WRITE_DATA_ISO \<or> command = DFC_CMD_WRITE_RECORD_ISO \<or> command = DFC_CMD_UPDATE_RECORD_ISO"

definition dfc_command_uses_iso_dep_response_chaining :: "u8 \<Rightarrow> bool" where
  "dfc_command_uses_iso_dep_response_chaining command \<longleftrightarrow>
     command = DFC_CMD_READ_DATA_ISO \<or> command = DFC_CMD_READ_RECORDS_ISO"

end
