(* ===== verification/Dfc_Transaction_Mac.thy ===== *)
theory Dfc_Transaction_Mac
  imports Dfc_Cmac Dfc_Wire
begin

text \<open>
  The transaction MAC (\<^verbatim>\<open>src/dfc_transaction_mac.c\<close>). The card folds every completed
  operation into an accumulator of one chained and one pending block; the reader records the
  same operations in a buffer and checks the card's MAC over it. Both sides serialise an
  operation as the same entry. Buffers the caller may leave out are options, the octets an
  entry points to are part of it, and the verifier carries the contents of its buffer.
\<close>

definition TRANSACTION_BLOCK_SIZE :: size_t where "TRANSACTION_BLOCK_SIZE = 16"
definition TRANSACTION_VERIFIER_COOKIE :: u32 where "TRANSACTION_VERIFIER_COOKIE = 0x544D4143"
definition DFC_TRANSACTION_MAC_UID_MAX_LENGTH :: size_t where "DFC_TRANSACTION_MAC_UID_MAX_LENGTH = 7"
definition TransactionDataHeaderLength :: size_t where "TransactionDataHeaderLength = 8"
definition TransactionRecordUpdateHeaderLength :: size_t where "TransactionRecordUpdateHeaderLength = 11"
definition TransactionValueHeaderLength :: size_t where "TransactionValueHeaderLength = 6"
definition TransactionClearRecordHeaderLength :: size_t where "TransactionClearRecordHeaderLength = 2"
definition TransactionReaderIdHeaderLength :: size_t where
  "TransactionReaderIdHeaderLength = 1 + DFC_TRANSACTION_READER_ID_LENGTH"

lemmas tmac_lengths = TRANSACTION_BLOCK_SIZE_def DFC_TRANSACTION_MAC_UID_MAX_LENGTH_def
  TransactionDataHeaderLength_def TransactionRecordUpdateHeaderLength_def TransactionValueHeaderLength_def
  TransactionClearRecordHeaderLength_def TransactionReaderIdHeaderLength_def DFC_TRANSACTION_READER_ID_LENGTH_def
  DFC_AES_KEY_LENGTH_def DFC_AES_CMAC_LENGTH_def

datatype DfcTransactionMacStatus =
  DfcTransactionMacOk | DfcTransactionMacInvalid | DfcTransactionMacCapacity | DfcTransactionMacCryptoFailed

record TransactionMacEntry =
  e_header :: bytes
  e_header_length :: size_t
  e_data :: "bytes option"
  e_data_length :: size_t

record DfcTransactionMacVerifier =
  v_input :: "bytes option"
  v_input_length :: size_t
  v_input_capacity :: size_t
  v_key :: bytes
  v_uid :: bytes
  v_uid_length :: size_t
  v_counter :: u32
  v_lifecycle_cookie :: u32
  v_initialized :: bool

record DfcTransactionMacAccumulator =
  acc_session_key :: bytes
  acc_chain :: bytes
  acc_pending :: bytes
  acc_initialized :: bool
  acc_has_pending :: bool

subsection \<open>Entries\<close>

definition uint24_is_valid :: "u32 \<Rightarrow> bool" where
  "uint24_is_valid value \<longleftrightarrow> value \<le> 0xFFFFFF"

definition verifier_is_valid :: "DfcTransactionMacVerifier \<Rightarrow> bool" where
  "verifier_is_valid v \<longleftrightarrow> v_lifecycle_cookie v = TRANSACTION_VERIFIER_COOKIE \<and> v_initialized v \<and>
     v_input v \<noteq> None \<and> v_input_length v \<le> v_input_capacity v"

definition padded_length :: "size_t \<Rightarrow> size_t option" where
  "padded_length len =
     (if len > SIZE_MAX - (TRANSACTION_BLOCK_SIZE - 1) then None
      else Some ((len + TRANSACTION_BLOCK_SIZE - 1) div TRANSACTION_BLOCK_SIZE * TRANSACTION_BLOCK_SIZE))"

definition entry_is_valid :: "TransactionMacEntry \<Rightarrow> bool" where
  "entry_is_valid entry \<longleftrightarrow> e_header_length entry > 0 \<and>
     e_header_length entry \<le> TransactionReaderIdHeaderLength \<and> (e_data_length entry = 0 \<or> e_data entry \<noteq> None)"

definition append_entry ::
  "bytes option \<Rightarrow> size_t \<Rightarrow> size_t \<Rightarrow> TransactionMacEntry \<Rightarrow> bool \<times> bytes option \<times> size_t" where
  "append_entry inp input_capacity input_length entry =
     (case inp of
        None \<Rightarrow> (False, inp, input_length)
      | Some buf \<Rightarrow>
          if \<not> entry_is_valid entry \<or> input_length > input_capacity then (False, inp, input_length)
          else case (padded_length (e_header_length entry), padded_length (e_data_length entry)) of
            (Some padded_header_length, Some padded_data_length) \<Rightarrow>
              if padded_header_length > SIZE_MAX - padded_data_length then (False, inp, input_length)
              else
                let entry_length = padded_header_length + padded_data_length in
                if entry_length > input_capacity - input_length then (False, inp, input_length)
                else
                  let buf1 = mem_write input_length (take (e_header_length entry) (e_header entry)) buf;
                      buf2 = mem_set (input_length + e_header_length entry) 0
                               (padded_header_length - e_header_length entry) buf1;
                      offset = input_length + padded_header_length;
                      buf3 = (case e_data entry of
                                Some d \<Rightarrow> if e_data_length entry \<noteq> 0
                                  then mem_write offset (take (e_data_length entry) d) buf2 else buf2
                              | None \<Rightarrow> buf2);
                      buf4 = mem_set (offset + e_data_length entry) 0
                               (padded_data_length - e_data_length entry) buf3
                  in (True, Some buf4, input_length + entry_length)
          | _ \<Rightarrow> (False, inp, input_length))"

definition input_has_capacity :: "size_t \<Rightarrow> size_t \<Rightarrow> size_t \<Rightarrow> size_t \<Rightarrow> bool" where
  "input_has_capacity input_capacity input_length header_length data_length =
     (if input_length > input_capacity then False
      else case (padded_length header_length, padded_length data_length) of
        (Some padded_header_length, Some padded_data_length) \<Rightarrow>
          if padded_header_length > SIZE_MAX - padded_data_length then False
          else padded_header_length + padded_data_length \<le> input_capacity - input_length
      | _ \<Rightarrow> False)"

definition dfc_transaction_mac_input_can_add_data :: "size_t \<Rightarrow> size_t \<Rightarrow> size_t \<Rightarrow> bool" where
  "dfc_transaction_mac_input_can_add_data input_capacity input_length data_length =
     input_has_capacity input_capacity input_length TransactionDataHeaderLength data_length"

definition dfc_transaction_mac_input_can_add_record_update :: "size_t \<Rightarrow> size_t \<Rightarrow> size_t \<Rightarrow> bool" where
  "dfc_transaction_mac_input_can_add_record_update input_capacity input_length data_length =
     input_has_capacity input_capacity input_length TransactionRecordUpdateHeaderLength data_length"

definition dfc_transaction_mac_input_can_add_value :: "size_t \<Rightarrow> size_t \<Rightarrow> bool" where
  "dfc_transaction_mac_input_can_add_value input_capacity input_length =
     input_has_capacity input_capacity input_length TransactionValueHeaderLength 0"

definition dfc_transaction_mac_input_can_add_clear_record :: "size_t \<Rightarrow> size_t \<Rightarrow> bool" where
  "dfc_transaction_mac_input_can_add_clear_record input_capacity input_length =
     input_has_capacity input_capacity input_length TransactionClearRecordHeaderLength 0"

definition dfc_transaction_mac_input_can_add_reader_id :: "size_t \<Rightarrow> size_t \<Rightarrow> bool \<Rightarrow> bool" where
  "dfc_transaction_mac_input_can_add_reader_id input_capacity input_length authenticated =
     input_has_capacity input_capacity input_length TransactionReaderIdHeaderLength
       (if authenticated then DFC_TRANSACTION_READER_ID_LENGTH else 0)"

definition write_uint24_le :: "u32 \<Rightarrow> bytes" where
  "write_uint24_le value = [ucast value, ucast (drop_bit 8 value), ucast (drop_bit 16 value)]"

definition entry_header :: "bytes \<Rightarrow> bytes" where
  "entry_header initial = initial @ replicate (TransactionReaderIdHeaderLength - length initial) 0"

definition entry_data :: "u8 \<Rightarrow> u8 \<Rightarrow> u32 \<Rightarrow> u32 \<Rightarrow> bytes option \<Rightarrow> size_t \<Rightarrow> TransactionMacEntry option" where
  "entry_data command file_number offset len data data_length =
     (if \<not> uint24_is_valid offset \<or> \<not> uint24_is_valid len \<or> (data_length \<noteq> 0 \<and> data = None) then None
      else Some \<lparr>
        e_header = mem_write 5 (write_uint24_le len)
          (mem_write 2 (write_uint24_le offset) (entry_header [command, file_number])),
        e_header_length = TransactionDataHeaderLength, e_data = data, e_data_length = data_length\<rparr>)"

definition entry_record_update ::
  "u8 \<Rightarrow> u8 \<Rightarrow> u32 \<Rightarrow> u32 \<Rightarrow> u32 \<Rightarrow> bytes option \<Rightarrow> size_t \<Rightarrow> TransactionMacEntry option" where
  "entry_record_update command file_number record_number offset len data data_length =
     (if \<not> uint24_is_valid record_number \<or> \<not> uint24_is_valid offset \<or> \<not> uint24_is_valid len \<or>
         (data_length \<noteq> 0 \<and> data = None) then None
      else Some \<lparr>
        e_header = mem_write 8 (write_uint24_le len) (mem_write 5 (write_uint24_le offset)
          (mem_write 2 (write_uint24_le record_number) (entry_header [command, file_number]))),
        e_header_length = TransactionRecordUpdateHeaderLength, e_data = data, e_data_length = data_length\<rparr>)"

definition entry_value :: "u8 \<Rightarrow> u8 \<Rightarrow> bytes option \<Rightarrow> TransactionMacEntry option" where
  "entry_value command file_number value =
     (case value of
        None \<Rightarrow> None
      | Some v \<Rightarrow> Some \<lparr>e_header = mem_write 2 (take 4 v) (entry_header [command, file_number]),
          e_header_length = TransactionValueHeaderLength, e_data = None, e_data_length = 0\<rparr>)"

definition entry_clear_record :: "u8 \<Rightarrow> TransactionMacEntry option" where
  "entry_clear_record file_number =
     Some \<lparr>e_header = entry_header [DFC_CMD_CLEAR_RECORD_FILE, file_number],
       e_header_length = TransactionClearRecordHeaderLength, e_data = None, e_data_length = 0\<rparr>"

definition entry_reader_id :: "bytes option \<Rightarrow> bytes option \<Rightarrow> TransactionMacEntry option" where
  "entry_reader_id current_reader_id encrypted_previous_reader_id =
     (case current_reader_id of
        None \<Rightarrow> None
      | Some current \<Rightarrow> Some \<lparr>
          e_header = mem_write 1 (take DFC_TRANSACTION_READER_ID_LENGTH current) (entry_header [DFC_CMD_COMMIT_READER_ID]),
          e_header_length = TransactionReaderIdHeaderLength, e_data = encrypted_previous_reader_id,
          e_data_length = (if encrypted_previous_reader_id \<noteq> None then DFC_TRANSACTION_READER_ID_LENGTH else 0)\<rparr>)"

definition session_vector :: "bytes \<Rightarrow> size_t \<Rightarrow> u32 \<Rightarrow> bytes" where
  "session_vector uid uid_length counter =
     (let vector = [DFC_TRANSACTION_MAC_DERIVATION_LABEL, DFC_DERIVATION_COUNTER_HIGH, DFC_DERIVATION_COUNTER_LOW,
            DFC_DERIVED_AES_KEY_LENGTH_HIGH, DFC_DERIVED_AES_KEY_LENGTH_LOW] @ replicate 11 0;
          vector = mem_write DFC_TRANSACTION_VECTOR_COUNTER_OFFSET (dfc_write_uint32_le counter) vector
      in mem_write DFC_TRANSACTION_VECTOR_UID_OFFSET (take uid_length uid) vector)"

definition dfc_transaction_mac_derive_session_key ::
  "'x mbedtls \<Rightarrow> bytes option \<Rightarrow> bytes option \<Rightarrow> size_t \<Rightarrow> u32 \<Rightarrow> bool \<times> bytes" where
  "dfc_transaction_mac_derive_session_key lib key uid uid_length counter =
     (if key = None \<or> uid = None \<or> counter = 0 \<or>
         (uid_length \<noteq> DFC_DESFIRE_UID_SHORT_LEN \<and> uid_length \<noteq> DFC_TRANSACTION_MAC_UID_MAX_LENGTH)
      then (False, replicate DFC_AES_KEY_LENGTH 0)
      else
        case aes_cmac lib key DFC_AES_KEY_LENGTH (Some (session_vector (the uid) uid_length counter)) DFC_AES_KEY_LENGTH of
          (False, _) \<Rightarrow> (False, replicate DFC_AES_KEY_LENGTH 0)
        | (True, session_key) \<Rightarrow> (True, session_key))"

subsection \<open>The card's accumulator\<close>

definition dfc_transaction_mac_accumulator_clear :: DfcTransactionMacAccumulator where
  "dfc_transaction_mac_accumulator_clear = \<lparr>acc_session_key = replicate DFC_AES_KEY_LENGTH 0,
     acc_chain = replicate DFC_AES_KEY_LENGTH 0, acc_pending = replicate DFC_AES_KEY_LENGTH 0,
     acc_initialized = False, acc_has_pending = False\<rparr>"

definition dfc_transaction_mac_accumulator_init :: "bytes option \<Rightarrow> bool \<times> DfcTransactionMacAccumulator" where
  "dfc_transaction_mac_accumulator_init session_key =
     (case session_key of
        None \<Rightarrow> (False, dfc_transaction_mac_accumulator_clear)
      | Some k \<Rightarrow> (True, dfc_transaction_mac_accumulator_clear
          \<lparr>acc_session_key := take DFC_AES_KEY_LENGTH k, acc_initialized := True\<rparr>))"

definition accumulator_push_block ::
  "'x mbedtls \<Rightarrow> 'x DfcCmacContext \<Rightarrow> bytes \<Rightarrow> DfcTransactionMacAccumulator \<Rightarrow> DfcTransactionMacAccumulator option" where
  "accumulator_push_block lib context block acc =
     (case (if acc_has_pending acc
            then dfc_crypto_aes_block_encrypt lib (ctx_cipher context) (xor_bytes (acc_chain acc) (acc_pending acc))
            else Some (acc_chain acc)) of
        None \<Rightarrow> None
      | Some chain \<Rightarrow> Some (acc\<lparr>acc_chain := chain, acc_pending := block, acc_has_pending := True\<rparr>))"

text \<open>
  The loop over the octets of one segment. The block under construction holds fewer than
  sixteen octets whenever the loop is entered; with sixteen it would not advance.
\<close>

function accumulator_absorb ::
  "'x mbedtls \<Rightarrow> 'x DfcCmacContext \<Rightarrow> bytes \<Rightarrow> DfcTransactionMacAccumulator \<times> bytes \<times> size_t \<Rightarrow>
   (DfcTransactionMacAccumulator \<times> bytes \<times> size_t) option" where
  "accumulator_absorb lib context data (candidate, block, block_length) =
     (if data = [] then Some (candidate, block, block_length)
      else if block_length \<ge> DFC_AES_KEY_LENGTH then None
      else
        let take_len = min (DFC_AES_KEY_LENGTH - block_length) (length data);
            block1 = mem_write block_length (take take_len data) block;
            len = block_length + take_len
        in if len \<noteq> DFC_AES_KEY_LENGTH then accumulator_absorb lib context (drop take_len data) (candidate, block1, len)
           else case accumulator_push_block lib context block1 candidate of
             None \<Rightarrow> None
           | Some candidate1 \<Rightarrow> accumulator_absorb lib context (drop take_len data) (candidate1, block1, 0))"
  by pat_completeness auto
termination by (relation "measure (\<lambda>(lib, context, data, st). length data)") auto

declare accumulator_absorb.simps [simp del]

fun accumulator_segments ::
  "'x mbedtls \<Rightarrow> 'x DfcCmacContext \<Rightarrow> DfcCryptoSegment list \<Rightarrow> size_t \<Rightarrow>
   DfcTransactionMacAccumulator \<times> bytes \<times> size_t \<Rightarrow>
   (size_t \<times> DfcTransactionMacAccumulator \<times> bytes \<times> size_t) option" where
  "accumulator_segments lib context [] total_length st = Some (total_length, st)"
| "accumulator_segments lib context (s # ss) total_length st =
     (if (seg_length s \<noteq> 0 \<and> seg_data s = None) \<or> seg_length s > SIZE_MAX - total_length then None
      else case accumulator_absorb lib context (seg_octets s) st of
        None \<Rightarrow> None
      | Some st1 \<Rightarrow> accumulator_segments lib context ss (total_length + seg_length s) st1)"

function accumulator_zeroes ::
  "'x mbedtls \<Rightarrow> 'x DfcCmacContext \<Rightarrow> size_t \<Rightarrow> DfcTransactionMacAccumulator \<times> bytes \<times> size_t \<Rightarrow>
   (DfcTransactionMacAccumulator \<times> bytes \<times> size_t) option" where
  "accumulator_zeroes lib context zero_length (candidate, block, block_length) =
     (if zero_length = 0 then Some (candidate, block, block_length)
      else if block_length \<ge> DFC_AES_KEY_LENGTH then None
      else
        let take_len = min (DFC_AES_KEY_LENGTH - block_length) zero_length;
            block1 = mem_set block_length 0 take_len block;
            len = block_length + take_len
        in if len \<noteq> DFC_AES_KEY_LENGTH then accumulator_zeroes lib context (zero_length - take_len) (candidate, block1, len)
           else case accumulator_push_block lib context block1 candidate of
             None \<Rightarrow> None
           | Some candidate1 \<Rightarrow> accumulator_zeroes lib context (zero_length - take_len) (candidate1, block1, 0))"
  by pat_completeness auto
termination by (relation "measure (\<lambda>(lib, context, zero_length, st). zero_length)") auto

declare accumulator_zeroes.simps [simp del]

definition accumulator_add_segments_and_zeroes ::
  "'x mbedtls \<Rightarrow> DfcTransactionMacAccumulator \<Rightarrow> DfcCryptoSegment list \<Rightarrow> size_t \<Rightarrow> bool \<times> DfcTransactionMacAccumulator" where
  "accumulator_add_segments_and_zeroes lib acc segments zero_length =
     (if \<not> acc_initialized acc \<or> segments = [] then (False, acc)
      else case dfc_aes_cmac_context_init lib (Some (acc_session_key acc)) DFC_AES_KEY_LENGTH of
        (False, _) \<Rightarrow> (False, acc)
      | (True, context) \<Rightarrow>
          (case accumulator_segments lib context segments zero_length (acc, replicate DFC_AES_KEY_LENGTH 0, 0) of
             None \<Rightarrow> (False, acc)
           | Some (total_length, st) \<Rightarrow>
               (case accumulator_zeroes lib context zero_length st of
                  None \<Rightarrow> (False, acc)
                | Some (candidate, block, block_length) \<Rightarrow>
                    if total_length = 0 \<or> block_length \<noteq> 0 \<or> total_length mod DFC_AES_KEY_LENGTH \<noteq> 0 then (False, acc)
                    else (True, candidate))))"

definition accumulator_add_segments ::
  "'x mbedtls \<Rightarrow> DfcTransactionMacAccumulator \<Rightarrow> DfcCryptoSegment list \<Rightarrow> bool \<times> DfcTransactionMacAccumulator" where
  "accumulator_add_segments lib acc segments = accumulator_add_segments_and_zeroes lib acc segments 0"

definition accumulator_add_entry ::
  "'x mbedtls \<Rightarrow> DfcTransactionMacAccumulator \<Rightarrow> TransactionMacEntry \<Rightarrow> bool \<times> DfcTransactionMacAccumulator" where
  "accumulator_add_entry lib acc entry =
     (if \<not> entry_is_valid entry then (False, acc)
      else case (padded_length (e_header_length entry), padded_length (e_data_length entry)) of
        (Some padded_header_length, Some padded_data_length) \<Rightarrow>
          if padded_header_length > 2 * DFC_AES_KEY_LENGTH then (False, acc)
          else
            let padded_header = mem_write 0 (take (e_header_length entry) (e_header entry)) (replicate (2 * DFC_AES_KEY_LENGTH) 0)
            in accumulator_add_segments lib acc
                 [\<lparr>seg_data = Some padded_header, seg_length = padded_header_length\<rparr>,
                  \<lparr>seg_data = e_data entry, seg_length = e_data_length entry\<rparr>,
                  \<lparr>seg_data = Some (replicate DFC_AES_KEY_LENGTH 0), seg_length = padded_data_length - e_data_length entry\<rparr>]
      | _ \<Rightarrow> (False, acc))"

definition dfc_transaction_mac_accumulator_add_data ::
  "'x mbedtls \<Rightarrow> DfcTransactionMacAccumulator \<Rightarrow> u8 \<Rightarrow> u8 \<Rightarrow> u32 \<Rightarrow> u32 \<Rightarrow> bytes option \<Rightarrow> size_t \<Rightarrow>
   bool \<times> DfcTransactionMacAccumulator" where
  "dfc_transaction_mac_accumulator_add_data lib acc command file_number offset len data data_length =
     (case entry_data command file_number offset len data data_length of
        None \<Rightarrow> (False, acc)
      | Some entry \<Rightarrow> accumulator_add_entry lib acc entry)"

definition dfc_transaction_mac_accumulator_add_zero_data ::
  "'x mbedtls \<Rightarrow> DfcTransactionMacAccumulator \<Rightarrow> u8 \<Rightarrow> u8 \<Rightarrow> u32 \<Rightarrow> u32 \<Rightarrow> size_t \<Rightarrow>
   bool \<times> DfcTransactionMacAccumulator" where
  "dfc_transaction_mac_accumulator_add_zero_data lib acc command file_number offset len data_length =
     (case entry_data command file_number offset len None 0 of
        None \<Rightarrow> (False, acc)
      | Some entry \<Rightarrow>
          let padded_header = mem_write 0 (take (e_header_length entry) (e_header entry)) (replicate DFC_AES_KEY_LENGTH 0)
          in case padded_length data_length of
               None \<Rightarrow> (False, acc)
             | Some padded_data_length \<Rightarrow>
                 accumulator_add_segments_and_zeroes lib acc
                   [\<lparr>seg_data = Some padded_header, seg_length = DFC_AES_KEY_LENGTH\<rparr>] padded_data_length)"

definition dfc_transaction_mac_accumulator_add_record_update ::
  "'x mbedtls \<Rightarrow> DfcTransactionMacAccumulator \<Rightarrow> u8 \<Rightarrow> u8 \<Rightarrow> u32 \<Rightarrow> u32 \<Rightarrow> u32 \<Rightarrow> bytes option \<Rightarrow> size_t \<Rightarrow>
   bool \<times> DfcTransactionMacAccumulator" where
  "dfc_transaction_mac_accumulator_add_record_update lib acc command file_number record_number offset len data data_length =
     (case entry_record_update command file_number record_number offset len data data_length of
        None \<Rightarrow> (False, acc)
      | Some entry \<Rightarrow> accumulator_add_entry lib acc entry)"

definition dfc_transaction_mac_accumulator_add_value ::
  "'x mbedtls \<Rightarrow> DfcTransactionMacAccumulator \<Rightarrow> u8 \<Rightarrow> u8 \<Rightarrow> bytes option \<Rightarrow>
   bool \<times> DfcTransactionMacAccumulator" where
  "dfc_transaction_mac_accumulator_add_value lib acc command file_number value =
     (case entry_value command file_number value of
        None \<Rightarrow> (False, acc)
      | Some entry \<Rightarrow> accumulator_add_entry lib acc entry)"

definition dfc_transaction_mac_accumulator_add_reader_id ::
  "'x mbedtls \<Rightarrow> DfcTransactionMacAccumulator \<Rightarrow> bytes option \<Rightarrow> bytes option \<Rightarrow>
   bool \<times> DfcTransactionMacAccumulator" where
  "dfc_transaction_mac_accumulator_add_reader_id lib acc current_reader_id encrypted_previous_reader_id =
     (case entry_reader_id current_reader_id encrypted_previous_reader_id of
        None \<Rightarrow> (False, acc)
      | Some entry \<Rightarrow> accumulator_add_entry lib acc entry)"

definition dfc_transaction_mac_accumulator_add_clear_record ::
  "'x mbedtls \<Rightarrow> DfcTransactionMacAccumulator \<Rightarrow> u8 \<Rightarrow>
   bool \<times> DfcTransactionMacAccumulator" where
  "dfc_transaction_mac_accumulator_add_clear_record lib acc file_number =
     (case entry_clear_record file_number of
        None \<Rightarrow> (False, acc)
      | Some entry \<Rightarrow> accumulator_add_entry lib acc entry)"

definition dfc_transaction_mac_accumulator_finalize ::
  "'x mbedtls \<Rightarrow> DfcTransactionMacAccumulator \<Rightarrow> bool \<times> bytes" where
  "dfc_transaction_mac_accumulator_finalize lib acc =
     (let failed = (False, replicate DFC_AES_CMAC_LENGTH 0) in
      if \<not> acc_initialized acc \<or> \<not> acc_has_pending acc then failed
      else case dfc_aes_cmac_context_init lib (Some (acc_session_key acc)) DFC_AES_KEY_LENGTH of
        (False, _) \<Rightarrow> failed
      | (True, context) \<Rightarrow>
          let final_block = xor_bytes (xor_bytes (acc_chain acc) (acc_pending acc)) (subkey1 context) in
          (case dfc_crypto_aes_block_encrypt lib (ctx_cipher context) final_block of
             None \<Rightarrow> failed
           | Some mac \<Rightarrow> (True, mac)))"

subsection \<open>The reader's verifier\<close>

definition dfc_transaction_mac_input_add_data ::
  "bytes option \<Rightarrow> size_t \<Rightarrow> size_t \<Rightarrow> u8 \<Rightarrow> u8 \<Rightarrow> u32 \<Rightarrow> u32 \<Rightarrow> bytes option \<Rightarrow> size_t \<Rightarrow>
   bool \<times> bytes option \<times> size_t" where
  "dfc_transaction_mac_input_add_data inp input_capacity input_length command file_number offset len data data_length =
     (case entry_data command file_number offset len data data_length of
        None \<Rightarrow> (False, inp, input_length)
      | Some entry \<Rightarrow> append_entry inp input_capacity input_length entry)"

definition dfc_transaction_mac_input_add_record_update ::
  "bytes option \<Rightarrow> size_t \<Rightarrow> size_t \<Rightarrow> u8 \<Rightarrow> u8 \<Rightarrow> u32 \<Rightarrow> u32 \<Rightarrow> u32 \<Rightarrow> bytes option \<Rightarrow> size_t \<Rightarrow>
   bool \<times> bytes option \<times> size_t" where
  "dfc_transaction_mac_input_add_record_update inp input_capacity input_length command file_number record_number offset len data data_length =
     (case entry_record_update command file_number record_number offset len data data_length of
        None \<Rightarrow> (False, inp, input_length)
      | Some entry \<Rightarrow> append_entry inp input_capacity input_length entry)"

definition dfc_transaction_mac_input_add_value ::
  "bytes option \<Rightarrow> size_t \<Rightarrow> size_t \<Rightarrow> u8 \<Rightarrow> u8 \<Rightarrow> bytes option \<Rightarrow>
   bool \<times> bytes option \<times> size_t" where
  "dfc_transaction_mac_input_add_value inp input_capacity input_length command file_number value =
     (case entry_value command file_number value of
        None \<Rightarrow> (False, inp, input_length)
      | Some entry \<Rightarrow> append_entry inp input_capacity input_length entry)"

definition dfc_transaction_mac_input_add_clear_record ::
  "bytes option \<Rightarrow> size_t \<Rightarrow> size_t \<Rightarrow> u8 \<Rightarrow>
   bool \<times> bytes option \<times> size_t" where
  "dfc_transaction_mac_input_add_clear_record inp input_capacity input_length file_number =
     (case entry_clear_record file_number of
        None \<Rightarrow> (False, inp, input_length)
      | Some entry \<Rightarrow> append_entry inp input_capacity input_length entry)"

definition dfc_transaction_mac_input_add_reader_id ::
  "bytes option \<Rightarrow> size_t \<Rightarrow> size_t \<Rightarrow> bytes option \<Rightarrow> bytes option \<Rightarrow>
   bool \<times> bytes option \<times> size_t" where
  "dfc_transaction_mac_input_add_reader_id inp input_capacity input_length current_reader_id encrypted_previous_reader_id =
     (case entry_reader_id current_reader_id encrypted_previous_reader_id of
        None \<Rightarrow> (False, inp, input_length)
      | Some entry \<Rightarrow> append_entry inp input_capacity input_length entry)"

definition zero_verifier :: DfcTransactionMacVerifier where
  "zero_verifier = \<lparr>v_input = None, v_input_length = 0, v_input_capacity = 0, v_key = replicate DFC_AES_KEY_LENGTH 0,
     v_uid = replicate DFC_TRANSACTION_MAC_UID_MAX_LENGTH 0, v_uid_length = 0, v_counter = 0,
     v_lifecycle_cookie = 0, v_initialized = False\<rparr>"

definition dfc_transaction_mac_verifier_init ::
  "bytes option \<Rightarrow> size_t \<Rightarrow> bytes option \<Rightarrow> bytes option \<Rightarrow> size_t \<Rightarrow> u32 \<Rightarrow>
   DfcTransactionMacStatus \<times> DfcTransactionMacVerifier" where
  "dfc_transaction_mac_verifier_init inp input_capacity key uid uid_length counter =
     (if inp = None \<or> input_capacity = 0 \<or> key = None \<or> uid = None \<or> counter = 0 \<or>
         (uid_length \<noteq> DFC_DESFIRE_UID_SHORT_LEN \<and> uid_length \<noteq> DFC_TRANSACTION_MAC_UID_MAX_LENGTH)
      then (DfcTransactionMacInvalid, zero_verifier)
      else (DfcTransactionMacOk, zero_verifier
        \<lparr>v_input := inp, v_input_capacity := input_capacity,
         v_key := take DFC_AES_KEY_LENGTH (the key),
         v_uid := mem_write 0 (take uid_length (the uid)) (v_uid zero_verifier),
         v_uid_length := uid_length, v_counter := counter,
         v_lifecycle_cookie := TRANSACTION_VERIFIER_COOKIE, v_initialized := True\<rparr>))"

text \<open>Clearing returns the wiped verifier and the caller's buffer as it is left.\<close>

definition dfc_transaction_mac_verifier_clear ::
  "DfcTransactionMacVerifier \<Rightarrow> DfcTransactionMacVerifier \<times> bytes option" where
  "dfc_transaction_mac_verifier_clear v =
     (zero_verifier,
      if v_input_length v \<le> v_input_capacity v then map_option (mem_set 0 0 (v_input_length v)) (v_input v) else v_input v)"

text \<open>The outcome of an append, stored back through the verifier's pointers.\<close>

definition verifier_appended ::
  "DfcTransactionMacVerifier \<Rightarrow> bool \<times> bytes option \<times> size_t \<Rightarrow> DfcTransactionMacStatus \<times> DfcTransactionMacVerifier" where
  "verifier_appended v r = (case r of (ok, inp, len) \<Rightarrow>
     (if ok then DfcTransactionMacOk else DfcTransactionMacCapacity, v\<lparr>v_input := inp, v_input_length := len\<rparr>))"

definition dfc_transaction_mac_add_data ::
  "DfcTransactionMacVerifier \<Rightarrow> u8 \<Rightarrow> u8 \<Rightarrow> u32 \<Rightarrow> u32 \<Rightarrow> bytes option \<Rightarrow> size_t \<Rightarrow>
   DfcTransactionMacStatus \<times> DfcTransactionMacVerifier" where
  "dfc_transaction_mac_add_data v command file_number offset len data data_length =
     (if \<not> verifier_is_valid v \<or> \<not> uint24_is_valid offset \<or> \<not> uint24_is_valid len \<or> (data_length \<noteq> 0 \<and> data = None)
      then (DfcTransactionMacInvalid, v)
      else if command \<in> {DFC_CMD_READ_DATA, DFC_CMD_READ_DATA_ISO, DFC_CMD_WRITE_DATA, DFC_CMD_WRITE_DATA_ISO} \<and>
              data_length \<noteq> unat len then (DfcTransactionMacInvalid, v)
      else if command \<in> {DFC_CMD_WRITE_RECORD, DFC_CMD_WRITE_RECORD_ISO} \<and>
              data_length \<noteq> unat len then (DfcTransactionMacInvalid, v)
      else if command \<notin> {DFC_CMD_READ_DATA, DFC_CMD_READ_DATA_ISO, DFC_CMD_WRITE_DATA, DFC_CMD_WRITE_DATA_ISO,
                DFC_CMD_READ_RECORDS, DFC_CMD_READ_RECORDS_ISO, DFC_CMD_WRITE_RECORD, DFC_CMD_WRITE_RECORD_ISO}
      then (DfcTransactionMacInvalid, v)
      else verifier_appended v
        (dfc_transaction_mac_input_add_data (v_input v) (v_input_capacity v) (v_input_length v)
           command file_number offset len data data_length))"

definition dfc_transaction_mac_add_record_update ::
  "DfcTransactionMacVerifier \<Rightarrow> u8 \<Rightarrow> u8 \<Rightarrow> u32 \<Rightarrow> u32 \<Rightarrow> u32 \<Rightarrow> bytes option \<Rightarrow> size_t \<Rightarrow>
   DfcTransactionMacStatus \<times> DfcTransactionMacVerifier" where
  "dfc_transaction_mac_add_record_update v command file_number record_number offset len data data_length =
     (if \<not> verifier_is_valid v \<or> (command \<noteq> DFC_CMD_UPDATE_RECORD \<and> command \<noteq> DFC_CMD_UPDATE_RECORD_ISO) \<or>
         \<not> uint24_is_valid record_number \<or> \<not> uint24_is_valid offset \<or> \<not> uint24_is_valid len \<or>
         data_length \<noteq> unat len \<or> (data_length \<noteq> 0 \<and> data = None)
      then (DfcTransactionMacInvalid, v)
      else verifier_appended v
        (dfc_transaction_mac_input_add_record_update (v_input v) (v_input_capacity v) (v_input_length v)
           command file_number record_number offset len data data_length))"

definition dfc_transaction_mac_add_value ::
  "DfcTransactionMacVerifier \<Rightarrow> u8 \<Rightarrow> u8 \<Rightarrow> u32 \<Rightarrow> DfcTransactionMacStatus \<times> DfcTransactionMacVerifier" where
  "dfc_transaction_mac_add_value v command file_number value =
     (if \<not> verifier_is_valid v \<or> (command \<noteq> DFC_CMD_GET_VALUE \<and> command \<noteq> DFC_CMD_CREDIT \<and>
         command \<noteq> DFC_CMD_DEBIT \<and> command \<noteq> DFC_CMD_LIMITED_CREDIT)
      then (DfcTransactionMacInvalid, v)
      else verifier_appended v
        (dfc_transaction_mac_input_add_value (v_input v) (v_input_capacity v) (v_input_length v)
           command file_number (Some (dfc_write_uint32_le value))))"

definition dfc_transaction_mac_add_clear_record ::
  "DfcTransactionMacVerifier \<Rightarrow> u8 \<Rightarrow> DfcTransactionMacStatus \<times> DfcTransactionMacVerifier" where
  "dfc_transaction_mac_add_clear_record v file_number =
     (if \<not> verifier_is_valid v then (DfcTransactionMacInvalid, v)
      else verifier_appended v
        (dfc_transaction_mac_input_add_clear_record (v_input v) (v_input_capacity v) (v_input_length v) file_number))"

definition dfc_transaction_mac_add_reader_id ::
  "DfcTransactionMacVerifier \<Rightarrow> bytes option \<Rightarrow> bytes option \<Rightarrow> DfcTransactionMacStatus \<times> DfcTransactionMacVerifier" where
  "dfc_transaction_mac_add_reader_id v current_reader_id encrypted_previous_reader_id =
     (if \<not> verifier_is_valid v \<or> current_reader_id = None then (DfcTransactionMacInvalid, v)
      else verifier_appended v
        (dfc_transaction_mac_input_add_reader_id (v_input v) (v_input_capacity v) (v_input_length v)
           current_reader_id encrypted_previous_reader_id))"

definition dfc_transaction_mac_verify ::
  "'x mbedtls \<Rightarrow> DfcTransactionMacVerifier \<Rightarrow> bytes option \<Rightarrow> DfcTransactionMacStatus \<times> bool" where
  "dfc_transaction_mac_verify lib v mac =
     (if \<not> verifier_is_valid v \<or> v_input_length v = 0 \<or> mac = None then (DfcTransactionMacInvalid, False)
      else case dfc_transaction_mac_derive_session_key lib (Some (v_key v)) (Some (v_uid v)) (v_uid_length v) (v_counter v) of
        (False, _) \<Rightarrow> (DfcTransactionMacCryptoFailed, False)
      | (True, session_key) \<Rightarrow>
          (case aes_cmac lib (Some session_key) DFC_AES_KEY_LENGTH (v_input v) (v_input_length v) of
             (False, _) \<Rightarrow> (DfcTransactionMacCryptoFailed, False)
           | (True, full_mac) \<Rightarrow>
               (DfcTransactionMacOk,
                dfc_ct_equal (dfc_truncate_aes_wire_mac full_mac) (the mac) DFC_WIRE_MAC_LENGTH)))"

subsection \<open>The wire format\<close>

text \<open>
  What the header file documents: an operation is its header and its data, each padded with
  zeros to whole blocks.
\<close>

definition pad16 :: "bytes \<Rightarrow> bytes" where
  "pad16 bs = bs @ replicate ((16 - length bs mod 16) mod 16) 0"

definition entry_octets :: "TransactionMacEntry \<Rightarrow> bytes" where
  "entry_octets e = pad16 (take (e_header_length e) (e_header e)) @
     pad16 (case e_data e of None \<Rightarrow> [] | Some d \<Rightarrow> take (e_data_length e) d)"

definition entry_wf :: "TransactionMacEntry \<Rightarrow> bool" where
  "entry_wf e \<longleftrightarrow> 0 < e_header_length e \<and> e_header_length e \<le> 17 \<and> length (e_header e) = 17 \<and>
     (case e_data e of None \<Rightarrow> e_data_length e = 0 | Some d \<Rightarrow> e_data_length e \<le> length d)"

lemma pad_amount: "(n + 15) div 16 * 16 = n + (16 - n mod 16) mod (16 :: nat)"
proof -
  obtain q r where n: "n = 16 * q + r" "r < 16" by (metis mod_less_divisor mult_div_mod_eq zero_less_numeral)
  show ?thesis
  proof (cases "r = 0")
    case False
    then have "(n + 15) div 16 = q + 1" using n by (intro div_nat_eqI) simp_all
    then show ?thesis using n False by simp
  qed (use n in simp)
qed

lemma length_pad16: "length (pad16 bs) = (length bs + 15) div 16 * 16"
  unfolding pad_amount by (simp add: pad16_def)

lemma padded_length_eq:
  "padded_length (length bs) = (if length bs > SIZE_MAX - 15 then None else Some (length (pad16 bs)))"
  by (simp add: padded_length_def length_pad16 TRANSACTION_BLOCK_SIZE_def add.commute)

lemma pad16_Nil [simp]: "pad16 [] = []"
  by (simp add: pad16_def)

lemma pad16_dvd [simp]: "16 dvd length (pad16 bs)"
  by (simp add: length_pad16)

lemma block_multiple_bound: "16 dvd n \<Longrightarrow> n \<le> SIZE_MAX \<Longrightarrow> n \<le> SIZE_MAX - 15"
proof -
  assume "16 dvd n" "n \<le> SIZE_MAX"
  then obtain k where k: "n = 16 * k" "16 * k \<le> 18446744073709551615" by (auto simp: SIZE_MAX_def)
  then have "16 * k \<le> 18446744073709551600" by presburger
  then show "n \<le> SIZE_MAX - 15" by (simp add: k(1) SIZE_MAX_def)
qed

lemma pad16_replicate_zero: "pad16 (replicate n 0) = replicate ((n + 15) div 16 * 16) 0"
  by (simp add: pad16_def pad_amount replicate_add)

lemma pad16_ge: "length bs \<le> length (pad16 bs)"
  by (simp add: pad16_def)

lemma pad16_write:
  assumes "off + length (pad16 bs) \<le> length buf"
  shows "mem_set (off + length bs) 0 (length (pad16 bs) - length bs) (mem_write off bs buf) = mem_write off (pad16 bs) buf"
proof -
  obtain k where p: "pad16 bs = bs @ replicate k 0" by (simp add: pad16_def)
  show ?thesis using assms unfolding p by (simp add: mem_set_def mem_write_def ac_simps)
qed

lemma mem_write_twice:
  "off + length xs + length ys \<le> length buf \<Longrightarrow>
    mem_write (off + length xs) ys (mem_write off xs buf) = mem_write off (xs @ ys) buf"
  by (simp add: mem_write_def ac_simps)

definition entry_header_octets :: "TransactionMacEntry \<Rightarrow> bytes" where
  "entry_header_octets e = take (e_header_length e) (e_header e)"

definition entry_data_octets :: "TransactionMacEntry \<Rightarrow> bytes" where
  "entry_data_octets e = (case e_data e of None \<Rightarrow> [] | Some d \<Rightarrow> take (e_data_length e) d)"

lemma entry_octets_eq: "entry_octets e = pad16 (entry_header_octets e) @ pad16 (entry_data_octets e)"
  by (simp add: entry_octets_def entry_header_octets_def entry_data_octets_def)

lemma entry_wf_lengths:
  assumes "entry_wf e"
  shows "length (entry_header_octets e) = e_header_length e" "length (entry_data_octets e) = e_data_length e"
    "entry_is_valid e"
  using assms by (auto simp: entry_wf_def entry_header_octets_def entry_data_octets_def entry_is_valid_def tmac_lengths
      split: option.splits)

text \<open>Appending an entry to the reader's buffer.\<close>

lemma append_entry_effect:
  assumes wf: "entry_wf e" and cap: "length buf = cap" "cap \<le> SIZE_MAX"
  shows "append_entry (Some buf) cap len e =
    (if len + length (entry_octets e) \<le> cap
     then (True, Some (mem_write len (entry_octets e) buf), len + length (entry_octets e))
     else (False, Some buf, len))"
proof -
  let ?h = "entry_header_octets e" and ?d = "entry_data_octets e"
  note l = entry_wf_lengths [OF wf]
  have hl: "length ?h \<le> 17" using wf l(1) by (simp add: entry_wf_def)
  then have ph: "padded_length (e_header_length e) = Some (length (pad16 ?h))" "length (pad16 ?h) \<le> 32"
    using padded_length_eq [of ?h] by (auto simp: l(1) length_pad16 SIZE_MAX_def)
  have pd: "padded_length (e_data_length e) = (if length ?d > SIZE_MAX - 15 then None else Some (length (pad16 ?d)))"
    using padded_length_eq [of ?d] by (simp add: l(2))
  have oc: "length (entry_octets e) = length (pad16 ?h) + length (pad16 ?d)" by (simp add: entry_octets_eq)
  have fits: "length ?d \<le> SIZE_MAX - 15 \<and> length (pad16 ?h) \<le> SIZE_MAX - length (pad16 ?d)"
    if "len + length (entry_octets e) \<le> cap"
  proof -
    have "length (pad16 ?h) + length (pad16 ?d) \<le> SIZE_MAX" using that cap(2) unfolding oc by linarith
    moreover have "length (pad16 ?d) \<le> SIZE_MAX - 15" using calculation by (intro block_multiple_bound) simp_all
    ultimately show ?thesis using pad16_ge [of ?d] by linarith
  qed
  show ?thesis
  proof (cases "len + length (entry_octets e) \<le> cap")
    case True
    note f = fits [OF True]
    have room: "\<not> len > cap" "\<not> length (pad16 ?h) + length (pad16 ?d) > cap - len" using True oc by auto
    have b2: "mem_set (len + e_header_length e) 0 (length (pad16 ?h) - e_header_length e) (mem_write len ?h buf) =
        mem_write len (pad16 ?h) buf"
      using pad16_write [of len ?h buf] True cap(1) oc l(1) by simp
    let ?o = "len + length (pad16 ?h)"
    have b3: "(case e_data e of Some d \<Rightarrow> if e_data_length e \<noteq> 0 then mem_write ?o (take (e_data_length e) d) b else b | None \<Rightarrow> b)
        = mem_write ?o ?d b" for b
      using wf by (auto simp: entry_data_octets_def split: option.split)
    have b4: "mem_set (?o + e_data_length e) 0 (length (pad16 ?d) - e_data_length e) (mem_write ?o ?d (mem_write len (pad16 ?h) buf)) =
        mem_write len (entry_octets e) buf"
      using pad16_write [of ?o ?d "mem_write len (pad16 ?h) buf"] True cap(1) oc l(2)
        mem_write_twice [of len "pad16 ?h" "pad16 ?d" buf] by (simp add: entry_octets_eq)
    have nv: "\<not> (\<not> entry_is_valid e \<or> len > cap)" "\<not> length ?d > SIZE_MAX - 15"
      "\<not> length (pad16 ?h) > SIZE_MAX - length (pad16 ?d)" using room f l(3) by auto
    show ?thesis
      unfolding append_entry_def option.case Let_def ph(1) pd b3 if_not_P [OF nv(1)] if_not_P [OF nv(2)] prod.case
        if_not_P [OF nv(3)] if_not_P [OF room(2)] if_P [OF True] entry_header_octets_def [symmetric] b2 b4
      by (simp add: oc)
  next
    case False
    then show ?thesis unfolding append_entry_def option.case ph(1) pd
      using l(3) oc by (auto simp: Let_def)
  qed
qed

lemma append_entry_outcome:
  "entry_wf e \<Longrightarrow> length buf = cap \<Longrightarrow> cap \<le> SIZE_MAX \<Longrightarrow>
    fst (append_entry (Some buf) cap len e) \<longleftrightarrow> input_has_capacity cap len (e_header_length e) (e_data_length e)"
  using entry_wf_lengths [of e] unfolding append_entry_def input_has_capacity_def
  by (auto simp: Let_def split: option.split)

subsection \<open>The accumulator\<close>

text \<open>
  The octets an accumulator stands for: everything but the last block is chained, the last
  block is pending. The invariant is the one of the segmented CMAC with a full pending block.
\<close>

definition tm_enc :: "'x mbedtls \<Rightarrow> bytes \<Rightarrow> bytes \<Rightarrow> bytes option" where
  "tm_enc lib key = cmac_block_encrypt AesCmac lib (cmac_block_init AesCmac lib (Some key) 16)"

definition accumulated :: "'x mbedtls \<Rightarrow> DfcTransactionMacAccumulator \<Rightarrow> bytes \<Rightarrow> bool" where
  "accumulated lib acc m \<longleftrightarrow> acc_initialized acc \<and> 16 dvd length m \<and> (acc_has_pending acc \<longleftrightarrow> m \<noteq> []) \<and>
     absorbed 16 (tm_enc lib (acc_session_key acc)) (replicate 16 0) m
       (acc_chain acc, acc_pending acc, if acc_has_pending acc then 16 else 0)"

lemma tm_block_enc: "block_library lib \<Longrightarrow> block_enc 16 (tm_enc lib key)"
  using cmac_encrypt_length [of lib AesCmac] by (auto simp: block_enc_def tm_enc_def)

lemma push_block_correct:
  assumes lib: "block_library lib" and acc: "accumulated lib acc m" and b: "length b = 16"
    and ctx: "ctx_cipher ctx = cmac_block_init AesCmac lib (Some (acc_session_key acc)) 16"
    and push: "accumulator_push_block lib ctx b acc = Some acc'"
  shows "accumulated lib acc' (m @ b)" "acc_session_key acc' = acc_session_key acc"
proof -
  let ?enc = "tm_enc lib (acc_session_key acc)"
  have enc: "dfc_crypto_aes_block_encrypt lib (ctx_cipher ctx) x = ?enc x" for x by (simp add: tm_enc_def ctx)
  have a: "absorbed 16 ?enc (replicate 16 0) m (acc_chain acc, acc_pending acc, if acc_has_pending acc then 16 else 0)"
    "acc_initialized acc" "16 dvd length m" "acc_has_pending acc \<longleftrightarrow> m \<noteq> []" using acc by (auto simp: accumulated_def)
  obtain chain where chain: "acc' = acc\<lparr>acc_chain := chain, acc_pending := b, acc_has_pending := True\<rparr>"
    "absorbed 16 ?enc (replicate 16 0) m (chain, acc_pending acc, 0)"
  proof (cases "acc_has_pending acc")
    case True
    then obtain y where y: "?enc (xor_bytes (acc_chain acc) (acc_pending acc)) = Some y"
      "acc' = acc\<lparr>acc_chain := y, acc_pending := b, acc_has_pending := True\<rparr>"
      using push enc by (auto simp: accumulator_push_block_def split: option.splits)
    then show ?thesis
      using that absorbed_push(1) [OF a(1) _ _ tm_block_enc [OF lib], of "acc_pending acc" m y] True by simp
  next
    case False
    then show ?thesis using that [of "acc_chain acc"] push a(1) by (simp add: accumulator_push_block_def)
  qed
  obtain h where "m = h" "16 dvd length h" "cbc_mac ?enc (replicate 16 0) (chunks 16 h) = Some chain" "length chain = 16"
    using chain(2) by (auto simp: absorbed_def)
  then show "accumulated lib acc' (m @ b)" using a b unfolding chain(1) by (auto simp: accumulated_def absorbed_def)
  show "acc_session_key acc' = acc_session_key acc" by (simp add: chain(1))
qed

lemma absorb_step_write:
  "length block = 16 \<Longrightarrow> bl + k \<le> 16 \<Longrightarrow> k \<le> length data \<Longrightarrow>
    take (bl + k) (mem_write bl (take k data) block) = take bl block @ take k data"
  by (simp add: mem_write_def)

text \<open>Octets arriving in any pieces: whole blocks are pushed, the rest stays in the block.\<close>

definition building :: "'x mbedtls \<Rightarrow> bytes \<Rightarrow> bytes \<Rightarrow> DfcTransactionMacAccumulator \<times> bytes \<times> size_t \<Rightarrow> bool" where
  "building lib key m st \<longleftrightarrow> (case st of (acc, block, bl) \<Rightarrow> acc_session_key acc = key \<and> length block = 16 \<and> bl < 16 \<and>
     (\<exists>h. m = h @ take bl block \<and> accumulated lib acc h))"

lemma accumulator_absorb_correct:
  assumes lib: "block_library lib" and ctx: "ctx_cipher ctx = cmac_block_init AesCmac lib (Some key) 16"
  shows "building lib key m st \<Longrightarrow> accumulator_absorb lib ctx data st = Some st' \<Longrightarrow> building lib key (m @ data) st'"
proof (induction data arbitrary: m st rule: length_induct)
  case (1 data)
  obtain acc block bl where st: "st = (acc, block, bl)" by (metis prod_cases3)
  note ih = 1(1) [THEN spec, THEN mp, THEN spec, THEN spec, THEN mp, THEN mp]
  show ?case
  proof (cases "data = []")
    case True
    then show ?thesis using 1 by (simp add: st accumulator_absorb.simps)
  next
    case False
    let ?k = "min (16 - bl) (length data)"
    let ?b = "mem_write bl (take ?k data) block"
    obtain h where h: "m = h @ take bl block" "accumulated lib acc h" and l: "acc_session_key acc = key" "length block = 16" "bl < 16"
      using 1(2) by (auto simp: building_def st)
    have w: "take (bl + ?k) ?b = take bl block @ take ?k data" by (rule absorb_step_write) (use l in simp_all)
    have lb: "length ?b = 16" using l by simp
    note eq = accumulator_absorb.simps [of lib ctx data acc block bl, unfolded Let_def DFC_AES_KEY_LENGTH_def]
    have m: "m @ data = (h @ take bl block @ take ?k data) @ drop ?k data" using h(1) by simp
    have less: "length (drop ?k data) < length data" and nl: "\<not> bl \<ge> 16" using l False by simp_all
    show ?thesis
    proof (cases "bl + ?k = 16")
      case True
      obtain acc1 where acc1: "accumulator_push_block lib ctx ?b acc = Some acc1"
        "accumulator_absorb lib ctx (drop ?k data) (acc1, ?b, 0) = Some st'"
        using 1(3) False l True unfolding st eq by (auto split: option.splits)
      have "accumulated lib acc1 (h @ ?b)" "acc_session_key acc1 = key"
        using push_block_correct [OF lib h(2) lb _ acc1(1)] ctx l by simp_all
      then have "building lib key (h @ take bl block @ take ?k data) (acc1, ?b, 0)"
        using w lb True by (simp add: building_def)
      then show ?thesis unfolding m by (rule ih [OF less _ acc1(2)])
    next
      case ne: False
      have "accumulator_absorb lib ctx (drop ?k data) (acc, ?b, bl + ?k) = Some st'"
        using 1(3) unfolding st eq if_not_P [OF False] if_not_P [OF nl] if_P [OF ne] .
      moreover have "building lib key (h @ take bl block @ take ?k data) (acc, ?b, bl + ?k)"
        using w lb ne l h(2) by (auto simp: building_def)
      ultimately show ?thesis unfolding m by (intro ih [OF less])
    qed
  qed
qed

lemma accumulator_segments_correct:
  assumes lib: "block_library lib" and ctx: "ctx_cipher ctx = cmac_block_init AesCmac lib (Some key) 16"
    and ok: "list_all seg_ok ss"
  shows "building lib key m st \<Longrightarrow> accumulator_segments lib ctx ss t st = Some (t', st') \<Longrightarrow>
    building lib key (m @ concat (map seg_octets ss)) st' \<and> t' = t + length (concat (map seg_octets ss))"
  using ok
proof (induction ss arbitrary: m st t)
  case (Cons s ss)
  then obtain st1 where st1: "accumulator_absorb lib ctx (seg_octets s) st = Some st1"
    "accumulator_segments lib ctx ss (t + seg_length s) st1 = Some (t', st')"
    by (auto split: if_splits option.splits)
  have "building lib key (m @ seg_octets s) st1" by (rule accumulator_absorb_correct [OF lib ctx Cons.prems(1) st1(1)])
  from Cons.IH [OF this st1(2)] show ?case using Cons.prems(3) seg_octets_length [of s] by simp
qed simp

lemma accumulator_zeroes_eq:
  "snd (snd st) < 16 \<Longrightarrow> length (fst (snd st)) = 16 \<Longrightarrow>
    accumulator_zeroes lib ctx z st = accumulator_absorb lib ctx (replicate z 0) st"
proof (induction z arbitrary: st rule: less_induct)
  case (less z)
  obtain acc block bl where st: "st = (acc, block, bl)" by (metis prod_cases3)
  define k where "k = min (16 - bl) z"
  define b where "b = mem_write bl (replicate k 0) block"
  have w: "mem_set bl 0 k block = b" "mem_write bl (take k (replicate z 0)) block = b"
    "drop k (replicate z (0 :: u8)) = replicate (z - k) 0" by (simp_all add: mem_set_def b_def k_def)
  note eqz = accumulator_zeroes.simps [of lib ctx z acc block bl, unfolded Let_def DFC_AES_KEY_LENGTH_def, folded k_def, unfolded w]
  note eqa = accumulator_absorb.simps [of lib ctx "replicate z 0" acc block bl,
      unfolded Let_def DFC_AES_KEY_LENGTH_def length_replicate, folded k_def, unfolded w]
  show ?case
  proof (cases "z = 0")
    case True
    then show ?thesis by (simp add: st accumulator_zeroes.simps accumulator_absorb.simps)
  next
    case False
    then have lt: "z - k < z" "\<not> 16 \<le> bl" "replicate z (0 :: u8) \<noteq> []" "bl + k \<noteq> 16 \<longrightarrow> bl + k < 16" "length b = 16"
      using less.prems by (auto simp: st k_def b_def)
    have ih: "bl' < 16 \<Longrightarrow> accumulator_zeroes lib ctx (z - k) (a, b, bl') = accumulator_absorb lib ctx (replicate (z - k) 0) (a, b, bl')"
      for a bl' using less.IH [OF lt(1), of "(a, b, bl')"] lt(5) by simp
    show ?thesis
      unfolding st eqz eqa if_not_P [OF False] if_not_P [OF lt(2)] if_not_P [OF lt(3)]
      using ih lt(4) by (simp split: option.split)
  qed
qed

lemma accumulator_add_correct:
  assumes lib: "block_library lib" and acc: "accumulated lib acc m" and ok: "list_all seg_ok segs"
    and add: "accumulator_add_segments_and_zeroes lib acc segs z = (True, acc')"
  shows "accumulated lib acc' (m @ concat (map seg_octets segs) @ replicate z 0)"
    "acc_session_key acc' = acc_session_key acc"
proof -
  let ?key = "acc_session_key acc" and ?msg = "concat (map seg_octets segs) @ replicate z 0"
  obtain ctx t st block bl where
    init: "cmac_context_init AesCmac lib (Some ?key) 16 = (True, ctx)"
    and segs: "accumulator_segments lib ctx segs z (acc, replicate 16 0, 0) = Some (t, st)"
    and zs: "accumulator_zeroes lib ctx z st = Some (acc', block, bl)" and bl: "bl = 0"
    using add by (auto simp: accumulator_add_segments_and_zeroes_def dfc_aes_cmac_context_init_def DFC_AES_KEY_LENGTH_def
        split: if_splits prod.splits bool.splits option.splits)
  have ctx: "ctx_cipher ctx = cmac_block_init AesCmac lib (Some ?key) 16"
    using init by (auto simp: cmac_context_init_def split: option.splits)
  have "building lib ?key m (acc, replicate 16 0, 0)" using acc by (simp add: building_def)
  from accumulator_segments_correct [OF lib ctx ok this segs]
  have b: "building lib ?key (m @ concat (map seg_octets segs)) st" by simp
  then have "accumulator_absorb lib ctx (replicate z 0) st = Some (acc', block, bl)"
    using zs accumulator_zeroes_eq [of st lib ctx z] by (auto simp: building_def)
  from accumulator_absorb_correct [OF lib ctx b this]
  show "accumulated lib acc' (m @ ?msg)" "acc_session_key acc' = ?key" using bl by (auto simp: building_def)
qed

lemma accumulator_add_refused:
  "accumulator_add_segments_and_zeroes lib acc segs z = (False, acc') \<Longrightarrow> acc' = acc"
  by (auto simp: accumulator_add_segments_and_zeroes_def split: if_splits prod.splits bool.splits option.splits)

text \<open>The three segments of an entry are its wire octets.\<close>

definition entry_segs :: "TransactionMacEntry \<Rightarrow> DfcCryptoSegment list" where
  "entry_segs e =
      [\<lparr>seg_data = Some (mem_write 0 (entry_header_octets e) (replicate 32 0)), seg_length = length (pad16 (entry_header_octets e))\<rparr>,
       \<lparr>seg_data = e_data e, seg_length = e_data_length e\<rparr>,
       \<lparr>seg_data = Some (replicate 16 0), seg_length = length (pad16 (entry_data_octets e)) - e_data_length e\<rparr>]"

lemma entry_segments:
  assumes wf: "entry_wf e"
  shows "list_all seg_ok (entry_segs e)" and "concat (map seg_octets (entry_segs e)) = entry_octets e"
proof -
  let ?h = "entry_header_octets e" and ?d = "entry_data_octets e"
  note l = entry_wf_lengths [OF wf]
  have hl: "length ?h \<le> 17" using wf l(1) by (simp add: entry_wf_def)
  have p: "(16 - length ?d mod 16) mod 16 < 16" by simp
  have z: "length (pad16 ?d) - e_data_length e = (16 - length ?d mod 16) mod 16" using l(2) by (simp add: pad16_def)
  have ph: "length (pad16 ?h) \<le> 32" using hl by (simp add: length_pad16)
  show "list_all seg_ok (entry_segs e)" using ph wf p hl unfolding z entry_segs_def by (auto simp: seg_ok_def entry_wf_def split: option.splits)
  have "take (length (pad16 ?h)) (mem_write 0 ?h (replicate 32 0)) = pad16 ?h"
  proof -
    obtain k where k: "pad16 ?h = ?h @ replicate k 0" by (simp add: pad16_def)
    then show ?thesis using ph by (simp add: k mem_write_def min_def)
  qed
  moreover have "seg_octets \<lparr>seg_data = e_data e, seg_length = e_data_length e\<rparr> = ?d"
    by (simp add: seg_octets_def entry_data_octets_def split: option.split)
  moreover have "?d @ replicate ((16 - length ?d mod 16) mod 16) 0 = pad16 ?d" by (simp add: pad16_def)
  ultimately show "concat (map seg_octets (entry_segs e)) = entry_octets e"
    using p unfolding z entry_segs_def by (simp add: seg_octets_def entry_octets_eq min_def)
qed

lemma accumulator_add_entry_segments:
  assumes wf: "entry_wf e" and len: "e_data_length e \<le> SIZE_MAX - 15"
  shows "accumulator_add_entry lib acc e = accumulator_add_segments_and_zeroes lib acc
      (entry_segs e) 0"
proof -
  let ?h = "entry_header_octets e" and ?d = "entry_data_octets e"
  note l = entry_wf_lengths [OF wf]
  have hl: "length ?h \<le> 17" using wf l(1) by (simp add: entry_wf_def)
  then have ph: "padded_length (e_header_length e) = Some (length (pad16 ?h))" "length (pad16 ?h) \<le> 32"
    using padded_length_eq [of ?h] by (auto simp: l(1) length_pad16 SIZE_MAX_def)
  have pd: "padded_length (e_data_length e) = Some (length (pad16 ?d))"
    using padded_length_eq [of ?d] len by (simp add: l(2))
  show ?thesis
    unfolding accumulator_add_entry_def ph(1) pd option.case prod.case Let_def
    using l(3) ph(2) by (simp add: DFC_AES_KEY_LENGTH_def accumulator_add_segments_def entry_header_octets_def entry_segs_def)
qed

lemma accumulator_add_entry_correct:
  assumes lib: "block_library lib" and wf: "entry_wf e" and acc: "accumulated lib acc m"
    and add: "accumulator_add_entry lib acc e = (True, acc')"
  shows "accumulated lib acc' (m @ entry_octets e)" "acc_session_key acc' = acc_session_key acc"
proof -
  have len: "e_data_length e \<le> SIZE_MAX - 15"
    using add by (rule_tac ccontr) (simp add: accumulator_add_entry_def padded_length_def TRANSACTION_BLOCK_SIZE_def split: option.splits if_splits)
  note eq = accumulator_add_entry_segments [OF wf len, of lib acc] and segs = entry_segments [OF wf]
  from accumulator_add_correct [OF lib acc segs(1) add [unfolded eq]]
  show "accumulated lib acc' (m @ entry_octets e)" "acc_session_key acc' = acc_session_key acc"
    unfolding segs(2) by simp_all
qed

lemma accumulator_add_entry_refused: "accumulator_add_entry lib acc e = (False, acc') \<Longrightarrow> acc' = acc"
  by (auto simp: accumulator_add_entry_def accumulator_add_segments_def Let_def dest: accumulator_add_refused
      split: if_splits option.splits)

lemma finalize_eq:
  assumes lib: "block_library lib" and acc: "accumulated lib acc m" and ne: "m \<noteq> []"
  shows "dfc_transaction_mac_accumulator_finalize lib acc =
    cmac_answer AesCmac (cmac_specification AesCmac lib (Some (acc_session_key acc)) 16 (replicate 16 0) m)"
proof -
  let ?key = "acc_session_key acc"
  have a: "absorbed 16 (tm_enc lib ?key) (replicate 16 0) m (acc_chain acc, acc_pending acc, 16)"
    "acc_initialized acc" "acc_has_pending acc" using acc ne by (auto simp: accumulated_def)
  obtain h where h: "m = h @ acc_pending acc" "16 dvd length h" "length (acc_pending acc) = 16"
    using a(1) by (auto simp: absorbed_def)
  have "acc_pending acc \<noteq> []" using h(3) by auto
  then have tail: "cmac_tail 16 m = acc_pending acc" using head_tail_split(2) [of 16 "acc_pending acc" h] h by simp
  have head: "cbc_mac (tm_enc lib ?key) (replicate 16 0) (chunks 16 (cmac_head 16 m)) = Some (acc_chain acc)"
    by (rule final_block_eq(1) [OF a(1), of AesCmac]) simp_all
  have enc0: "dfc_crypto_aes_block_encrypt lib (cmac_block_init AesCmac lib (Some ?key) 16) x = tm_enc lib ?key x" for x
    by (simp add: tm_enc_def)
  show ?thesis
  proof (cases "cmac_block_init AesCmac lib (Some ?key) 16")
    case None
    then show ?thesis using a
      by (simp add: dfc_transaction_mac_accumulator_finalize_def dfc_aes_cmac_context_init_def cmac_context_init_def
          cmac_specification_def DFC_AES_KEY_LENGTH_def DFC_AES_CMAC_LENGTH_def Let_def)
  next
    case init: (Some cipher)
    have enc: "cmac_block_encrypt AesCmac lib (Some cipher) = tm_enc lib ?key" by (simp only: tm_enc_def init)
    show ?thesis
    proof (cases "tm_enc lib ?key (replicate 16 0)")
      case None
      then show ?thesis using a init enc
        by (simp add: dfc_transaction_mac_accumulator_finalize_def dfc_aes_cmac_context_init_def cmac_context_init_def
          cmac_specification_def DFC_AES_KEY_LENGTH_def DFC_AES_CMAC_LENGTH_def Let_def generateSubkeys_eq [OF lib])
    next
      case (Some l)
      let ?k1 = "gf_double AesCmac l" and ?k2 = "gf_double AesCmac (gf_double AesCmac l)"
      let ?x = "xor_bytes (xor_bytes (acc_chain acc) (acc_pending acc)) ?k1"
      have "cmac_context_init AesCmac lib (Some ?key) 16 = (True, \<lparr>ctx_cipher = Some cipher, subkey1 = ?k1, subkey2 = ?k2, ctx_initialized = True\<rparr>)"
        using init Some enc by (simp add: cmac_context_init_def generateSubkeys_eq [OF lib])
      then have "dfc_transaction_mac_accumulator_finalize lib acc =
          (case tm_enc lib ?key ?x of None \<Rightarrow> (False, replicate 16 0) | Some mac \<Rightarrow> (True, mac))"
        unfolding dfc_transaction_mac_accumulator_finalize_def dfc_aes_cmac_context_init_def DFC_AES_KEY_LENGTH_def
        using a enc0 init by (simp add: Let_def DFC_AES_CMAC_LENGTH_def)
      moreover have "cmac_specification AesCmac lib (Some ?key) 16 (replicate 16 0) m = tm_enc lib ?key ?x"
        unfolding cmac_specification_def init option.case Let_def enc CMAC_BLOCK_SIZE.simps Some cmac_reference_def head tail
        using h(3) by (simp add: cmac_last_block_def xor_bytes_assoc)
      ultimately show ?thesis by (simp only: CMAC_BLOCK_SIZE.simps)
    qed
  qed
qed

lemma aes_cmac_eq:
  assumes "block_library lib" "len \<le> length buf" "len \<le> SIZE_MAX - 15"
  shows "aes_cmac lib key 16 (Some buf) len = cmac_answer AesCmac (cmac_specification AesCmac lib key 16 (replicate 16 0) (take len buf))"
  using cmac_segments_eq [OF assms(1), of "replicate 16 0" AesCmac "[\<lparr>seg_data = Some buf, seg_length = len\<rparr>]"] assms(2,3)
  by (simp add: aes_cmac_def aes_cmac_with_iv_def cmac_with_iv_def seg_ok_def seg_octets_def min_def)

subsection \<open>Operations as both sides see them\<close>

datatype tm_op =
    TmData u8 u8 u32 u32 bytes
  | TmZeroData u8 u8 u32 u32 size_t
  | TmRecordUpdate u8 u8 u32 u32 u32 bytes
  | TmValue u8 u8 u32
  | TmClearRecord u8
  | TmReaderId bytes "bytes option"

fun tm_header :: "tm_op \<Rightarrow> bytes" where
  "tm_header (TmData command file offset len data) = [command, file] @ write_uint24_le offset @ write_uint24_le len"
| "tm_header (TmZeroData command file offset len n) = [command, file] @ write_uint24_le offset @ write_uint24_le len"
| "tm_header (TmRecordUpdate command file rec offset len data) =
     [command, file] @ write_uint24_le rec @ write_uint24_le offset @ write_uint24_le len"
| "tm_header (TmValue command file value) = [command, file] @ dfc_write_uint32_le value"
| "tm_header (TmClearRecord file) = [DFC_CMD_CLEAR_RECORD_FILE, file]"
| "tm_header (TmReaderId current previous) = DFC_CMD_COMMIT_READER_ID # current"

fun tm_data :: "tm_op \<Rightarrow> bytes" where
  "tm_data (TmData command file offset len data) = data"
| "tm_data (TmZeroData command file offset len n) = replicate n 0"
| "tm_data (TmRecordUpdate command file rec offset len data) = data"
| "tm_data (TmValue command file value) = []"
| "tm_data (TmClearRecord file) = []"
| "tm_data (TmReaderId current previous) = (case previous of None \<Rightarrow> [] | Some p \<Rightarrow> p)"

definition tm_octets :: "tm_op \<Rightarrow> bytes" where
  "tm_octets op = pad16 (tm_header op) @ pad16 (tm_data op)"

fun tm_wf :: "tm_op \<Rightarrow> bool" where
  "tm_wf (TmReaderId current previous) = (length current = 16 \<and> (case previous of None \<Rightarrow> True | Some p \<Rightarrow> length p = 16))"
| "tm_wf _ = True"

fun tm_entry :: "tm_op \<Rightarrow> TransactionMacEntry option" where
  "tm_entry (TmData command file offset len data) = entry_data command file offset len (Some data) (length data)"
| "tm_entry (TmZeroData command file offset len n) = entry_data command file offset len (Some (replicate n 0)) n"
| "tm_entry (TmRecordUpdate command file rec offset len data) =
     entry_record_update command file rec offset len (Some data) (length data)"
| "tm_entry (TmValue command file value) = entry_value command file (Some (dfc_write_uint32_le value))"
| "tm_entry (TmClearRecord file) = entry_clear_record file"
| "tm_entry (TmReaderId current previous) = entry_reader_id (Some current) previous"

fun card_add :: "'x mbedtls \<Rightarrow> DfcTransactionMacAccumulator \<Rightarrow> tm_op \<Rightarrow> bool \<times> DfcTransactionMacAccumulator" where
  "card_add lib acc (TmData command file offset len data) =
     dfc_transaction_mac_accumulator_add_data lib acc command file offset len (Some data) (length data)"
| "card_add lib acc (TmZeroData command file offset len n) =
     dfc_transaction_mac_accumulator_add_zero_data lib acc command file offset len n"
| "card_add lib acc (TmRecordUpdate command file rec offset len data) =
     dfc_transaction_mac_accumulator_add_record_update lib acc command file rec offset len (Some data) (length data)"
| "card_add lib acc (TmValue command file value) =
     dfc_transaction_mac_accumulator_add_value lib acc command file (Some (dfc_write_uint32_le value))"
| "card_add lib acc (TmClearRecord file) = dfc_transaction_mac_accumulator_add_clear_record lib acc file"
| "card_add lib acc (TmReaderId current previous) =
     dfc_transaction_mac_accumulator_add_reader_id lib acc (Some current) previous"

abbreviation answered :: "DfcTransactionMacStatus \<times> 'a \<Rightarrow> bool \<times> 'a" where
  "answered r \<equiv> (fst r = DfcTransactionMacOk, snd r)"

fun reader_add :: "DfcTransactionMacVerifier \<Rightarrow> tm_op \<Rightarrow> bool \<times> DfcTransactionMacVerifier" where
  "reader_add v (TmData command file offset len data) =
     answered (dfc_transaction_mac_add_data v command file offset len (Some data) (length data))"
| "reader_add v (TmZeroData command file offset len n) =
     answered (dfc_transaction_mac_add_data v command file offset len (Some (replicate n 0)) n)"
| "reader_add v (TmRecordUpdate command file rec offset len data) =
     answered (dfc_transaction_mac_add_record_update v command file rec offset len (Some data) (length data))"
| "reader_add v (TmValue command file value) = answered (dfc_transaction_mac_add_value v command file value)"
| "reader_add v (TmClearRecord file) = answered (dfc_transaction_mac_add_clear_record v file)"
| "reader_add v (TmReaderId current previous) = answered (dfc_transaction_mac_add_reader_id v (Some current) previous)"

lemma tm_entry_correct:
  assumes "tm_wf op" "tm_entry op = Some e"
  shows "entry_wf e" "entry_octets e = tm_octets op"
proof -
  have hd: "entry_header [a, b] = a # b # replicate 15 0" "entry_header [a] = a # replicate 16 0" for a b
    by (simp_all add: entry_header_def tmac_lengths)
  have r: "replicate 15 (0 :: u8) = [0, 0, 0, 0, 0, 0, 0, 0, 0, 0, 0, 0, 0, 0, 0]" by (simp add: numeral_eq_Suc)
  have "entry_wf e \<and> entry_octets e = tm_octets op"
    using assms
    by (cases op)
      (auto simp: entry_data_def entry_record_update_def entry_value_def entry_clear_record_def entry_reader_id_def
        tm_octets_def entry_octets_def entry_wf_def tmac_lengths hd r mem_write_def write_uint24_le_def dfc_write_uint32_le_def
        split: if_splits option.splits)
  then show "entry_wf e" "entry_octets e = tm_octets op" by auto
qed

subsection \<open>A log of operations\<close>

fun add_all :: "('s \<Rightarrow> 'e \<Rightarrow> bool \<times> 's) \<Rightarrow> 's \<Rightarrow> 'e list \<Rightarrow> 's option" where
  "add_all add s [] = Some s"
| "add_all add s (e # es) = (case add s e of (True, s1) \<Rightarrow> add_all add s1 es | (False, _) \<Rightarrow> None)"

text \<open>
  What every keeper of a transaction promises: an accepted operation extends the recorded octets by
  its wire form. The two ends of the MAC promise besides that a refused one changes nothing.
\<close>

locale transaction_record =
  fixes add :: "'s \<Rightarrow> 'e \<Rightarrow> bool \<times> 's"
    and holds :: "'s \<Rightarrow> bytes \<Rightarrow> bool"
    and octets :: "'e \<Rightarrow> bytes"
    and wf :: "'e \<Rightarrow> bool"
  assumes add_accepted: "holds s m \<Longrightarrow> wf e \<Longrightarrow> add s e = (True, s1) \<Longrightarrow> holds s1 (m @ octets e)"
begin

lemma add_all_holds:
  "holds s m \<Longrightarrow> list_all wf es \<Longrightarrow> add_all add s es = Some s1 \<Longrightarrow> holds s1 (m @ concat (map octets es))"
proof (induction es arbitrary: s m)
  case (Cons e es)
  then obtain s2 where s2: "add s e = (True, s2)" "add_all add s2 es = Some s1"
    by (auto split: prod.splits bool.splits)
  have "holds s2 (m @ octets e)" using add_accepted [OF Cons.prems(1) _ s2(1)] Cons.prems(2) by simp
  from Cons.IH [OF this _ s2(2)] show ?case using Cons.prems(2) by simp
qed simp

end

locale transaction_log = transaction_record +
  assumes add_refused: "add s e = (False, s1) \<Longrightarrow> s1 = s"

definition card_log :: "'x mbedtls \<Rightarrow> bytes \<Rightarrow> DfcTransactionMacAccumulator \<Rightarrow> bytes \<Rightarrow> bool" where
  "card_log lib key acc m \<longleftrightarrow> block_library lib \<longrightarrow> accumulated lib acc m \<and> acc_session_key acc = key"

lemma zero_data_entry:
  assumes "dfc_transaction_mac_accumulator_add_zero_data lib acc command file offset len n = (True, acc1)"
    and lib: "block_library lib" and acc: "accumulated lib acc m"
  shows "accumulated lib acc1 (m @ tm_octets (TmZeroData command file offset len n)) \<and> acc_session_key acc1 = acc_session_key acc"
proof -
  obtain e where e: "entry_data command file offset len None 0 = Some e"
    using assms(1) by (auto simp: dfc_transaction_mac_accumulator_add_zero_data_def split: option.splits)
  let ?h = "[command, file] @ write_uint24_le offset @ write_uint24_le len"
  have h: "take (e_header_length e) (e_header e) = ?h"
    using e by (auto simp: entry_data_def entry_header_def tmac_lengths mem_write_def write_uint24_le_def numeral_eq_Suc split: if_splits)
  have lh: "length ?h = 8" by (simp add: write_uint24_le_def)
  have ph: "mem_write 0 ?h (replicate 16 0) = pad16 ?h" using lh by (simp add: mem_write_def pad16_def)
  have "padded_length n = Some (length (pad16 (replicate n 0)))"
    using assms(1) padded_length_eq [of "replicate n 0"] e
    by (auto simp: dfc_transaction_mac_accumulator_add_zero_data_def Let_def split: if_splits)
  then have "accumulator_add_segments_and_zeroes lib acc [\<lparr>seg_data = Some (pad16 ?h), seg_length = 16\<rparr>]
      (length (pad16 (replicate n 0))) = (True, acc1)"
    using assms(1) h ph by (simp add: dfc_transaction_mac_accumulator_add_zero_data_def e DFC_AES_KEY_LENGTH_def)
  from accumulator_add_correct [OF lib acc _ this] show ?thesis
    using lh by (simp add: seg_ok_def seg_octets_def length_pad16 tm_octets_def pad16_replicate_zero)
qed

lemma card_add_entry:
  "(\<nexists>command file offset len n. op = TmZeroData command file offset len n) \<Longrightarrow>
    card_add lib acc op = (case tm_entry op of None \<Rightarrow> (False, acc) | Some e \<Rightarrow> accumulator_add_entry lib acc e)"
  by (cases op) (auto simp: dfc_transaction_mac_accumulator_add_data_def dfc_transaction_mac_accumulator_add_record_update_def
      dfc_transaction_mac_accumulator_add_value_def dfc_transaction_mac_accumulator_add_clear_record_def
      dfc_transaction_mac_accumulator_add_reader_id_def)

interpretation card: transaction_log "card_add lib" "card_log lib key" tm_octets tm_wf for lib key
proof
  fix acc acc1 m op
  assume log: "card_log lib key acc m" and wf: "tm_wf op" and add: "card_add lib acc op = (True, acc1)"
  show "card_log lib key acc1 (m @ tm_octets op)"
  proof (cases "\<exists>command file offset len n. op = TmZeroData command file offset len n")
    case True
    then show ?thesis using add log zero_data_entry unfolding card_log_def by fastforce
  next
    case False
    then obtain e where e: "tm_entry op = Some e" "accumulator_add_entry lib acc e = (True, acc1)"
      using add card_add_entry [of op lib acc] by (auto split: option.splits)
    then show ?thesis
      using log tm_entry_correct [OF wf e(1)] accumulator_add_entry_correct [of lib e acc m acc1] by (auto simp: card_log_def)
  qed
next
  fix acc acc1 op
  assume "card_add lib acc op = (False, acc1)"
  then show "acc1 = acc"
  proof (cases "\<exists>command file offset len n. op = TmZeroData command file offset len n")
    case True
    with \<open>card_add lib acc op = (False, acc1)\<close> show ?thesis
      by (auto simp: dfc_transaction_mac_accumulator_add_zero_data_def Let_def dest: accumulator_add_refused split: option.splits)
  next
    case False
    with \<open>card_add lib acc op = (False, acc1)\<close> show ?thesis
      by (auto simp: card_add_entry dest: accumulator_add_entry_refused split: option.splits)
  qed
qed

definition reader_log :: "bytes \<Rightarrow> bytes \<Rightarrow> size_t \<Rightarrow> u32 \<Rightarrow> DfcTransactionMacVerifier \<Rightarrow> bytes \<Rightarrow> bool" where
  "reader_log key uid uid_length counter v m \<longleftrightarrow> verifier_is_valid v \<and>
     v_key v = key \<and> v_uid v = uid \<and> v_uid_length v = uid_length \<and> v_counter v = counter \<and>
     (\<exists>buf. v_input v = Some buf \<and> length buf = v_input_capacity v \<and> length buf \<le> SIZE_MAX \<and>
        v_input_length v = length m \<and> take (length m) buf = m \<and> 16 dvd length m)"

lemma reader_add_entry:
  "reader_add v op = (ok, v1) \<Longrightarrow> (\<not> ok \<and> v1 = v) \<or> (verifier_is_valid v \<and> (\<exists>e i n. tm_entry op = Some e \<and>
     append_entry (v_input v) (v_input_capacity v) (v_input_length v) e = (ok, i, n) \<and> v1 = v\<lparr>v_input := i, v_input_length := n\<rparr>))"
proof (induction op)
  case (TmData command fn offset len data)
  then show ?case
    by (cases "append_entry (v_input v) (v_input_capacity v) (v_input_length v) (the (tm_entry (TmData command fn offset len data)))")
      (auto simp: dfc_transaction_mac_add_data_def verifier_appended_def dfc_transaction_mac_input_add_data_def entry_data_def
        split: if_splits)
next
  case (TmZeroData command fn offset len n)
  then show ?case
    by (cases "append_entry (v_input v) (v_input_capacity v) (v_input_length v) (the (tm_entry (TmZeroData command fn offset len n)))")
      (auto simp: dfc_transaction_mac_add_data_def verifier_appended_def dfc_transaction_mac_input_add_data_def entry_data_def
        split: if_splits)
next
  case (TmRecordUpdate command fn rec offset len data)
  then show ?case
    by (cases "append_entry (v_input v) (v_input_capacity v) (v_input_length v) (the (tm_entry (TmRecordUpdate command fn rec offset len data)))")
      (auto simp: dfc_transaction_mac_add_record_update_def verifier_appended_def dfc_transaction_mac_input_add_record_update_def
        entry_record_update_def split: if_splits)
next
  case (TmValue command fn val)
  then show ?case
    by (cases "append_entry (v_input v) (v_input_capacity v) (v_input_length v) (the (tm_entry (TmValue command fn val)))")
      (auto simp: dfc_transaction_mac_add_value_def verifier_appended_def dfc_transaction_mac_input_add_value_def
        entry_value_def split: if_splits)
next
  case (TmClearRecord fn)
  then show ?case
    by (cases "append_entry (v_input v) (v_input_capacity v) (v_input_length v) (the (tm_entry (TmClearRecord fn)))")
      (auto simp: dfc_transaction_mac_add_clear_record_def verifier_appended_def dfc_transaction_mac_input_add_clear_record_def
        entry_clear_record_def split: if_splits)
next
  case (TmReaderId current previous)
  then show ?case
    by (cases "append_entry (v_input v) (v_input_capacity v) (v_input_length v) (the (tm_entry (TmReaderId current previous)))")
      (auto simp: dfc_transaction_mac_add_reader_id_def verifier_appended_def dfc_transaction_mac_input_add_reader_id_def
        entry_reader_id_def split: if_splits)
qed

lemma append_entry_refused: "append_entry inp cap len e = (False, i, n) \<Longrightarrow> i = inp \<and> n = len"
  by (auto simp: append_entry_def Let_def split: option.splits if_splits)

interpretation reader: transaction_log reader_add "reader_log key uid uid_length counter" tm_octets tm_wf
  for key uid uid_length counter
proof
  fix v v1 m op
  assume log: "reader_log key uid uid_length counter v m" and wf: "tm_wf op" and add: "reader_add v op = (True, v1)"
  obtain e i n where e: "tm_entry op = Some e"
    "append_entry (v_input v) (v_input_capacity v) (v_input_length v) e = (True, i, n)"
    and v1: "v1 = v\<lparr>v_input := i, v_input_length := n\<rparr>"
    using reader_add_entry [OF add] by auto
  obtain buf where buf: "v_input v = Some buf" "length buf = v_input_capacity v" "length buf \<le> SIZE_MAX"
    "v_input_length v = length m" "take (length m) buf = m" "16 dvd length m" using log by (auto simp: reader_log_def)
  note t = tm_entry_correct [OF wf e(1)]
  let ?o = "tm_octets op"
  have room: "length m + length ?o \<le> length buf" "i = Some (mem_write (length m) ?o buf)" "n = length m + length ?o"
    using e(2) append_entry_effect [OF t(1), of buf "length buf" "length m"] buf t(2) by (auto split: if_splits)
  have "take (length m + length ?o) (mem_write (length m) ?o buf) = m @ ?o"
    using room(1) buf(5) by (simp add: mem_write_def min_def)
  moreover have "16 dvd length ?o" by (simp add: tm_octets_def)
  ultimately show "reader_log key uid uid_length counter v1 (m @ ?o)"
    using log room buf by (auto simp: reader_log_def v1 verifier_is_valid_def)
next
  fix v v1 op
  assume "reader_add v op = (False, v1)"
  from reader_add_entry [OF this] show "v1 = v" by (auto dest!: append_entry_refused)
qed

lemma verifier_init_log:
  assumes "dfc_transaction_mac_verifier_init (Some buf) (length buf) (Some key) (Some uid) uid_length counter = (DfcTransactionMacOk, v)"
    and "length buf \<le> SIZE_MAX" "length key = 16" "uid_length \<le> length uid"
  shows "reader_log key (v_uid v) uid_length counter v []" "take uid_length (v_uid v) = take uid_length uid"
proof -
  have ul: "uid_length = 4 \<or> uid_length = 7" using assms(1)
    by (auto simp: dfc_transaction_mac_verifier_init_def DFC_DESFIRE_UID_SHORT_LEN_def tmac_lengths split: if_splits)
  show "reader_log key (v_uid v) uid_length counter v []"
    using assms by (auto simp: dfc_transaction_mac_verifier_init_def reader_log_def verifier_is_valid_def zero_verifier_def tmac_lengths
        split: if_splits)
  have "v_uid v = mem_write 0 (take uid_length uid) (replicate 7 0)"
    using assms(1) by (auto simp: dfc_transaction_mac_verifier_init_def zero_verifier_def tmac_lengths split: if_splits)
  then show "take uid_length (v_uid v) = take uid_length uid" using ul assms(4) by (auto simp: mem_write_def)
qed

lemma derive_uid_cong:
  "take uid_length uid = take uid_length uid' \<Longrightarrow>
    dfc_transaction_mac_derive_session_key lib key (Some uid) uid_length counter =
    dfc_transaction_mac_derive_session_key lib key (Some uid') uid_length counter"
  by (simp add: dfc_transaction_mac_derive_session_key_def session_vector_def)

lemma length_session_vector: "uid_length \<le> 7 \<Longrightarrow> length (session_vector uid uid_length counter) = 16"
  by (simp add: session_vector_def dfc_write_uint32_le_def DFC_TRANSACTION_VECTOR_COUNTER_OFFSET_def
      DFC_TRANSACTION_VECTOR_UID_OFFSET_def)

lemma length_truncate [simp]: "length (dfc_truncate_aes_wire_mac full) = 8"
  by (simp add: dfc_truncate_aes_wire_mac_def DFC_WIRE_MAC_LENGTH_def)

lemma verify_eq:
  assumes lib: "block_library lib" and log: "reader_log key uid uid_length counter v m" and m: "m \<noteq> []"
    and sk: "dfc_transaction_mac_derive_session_key lib (Some key) (Some uid) uid_length counter = (True, session_key)"
    and w: "8 \<le> length w"
  shows "dfc_transaction_mac_verify lib v (Some w) =
    (case cmac_specification AesCmac lib (Some session_key) 16 (replicate 16 0) m of
       None \<Rightarrow> (DfcTransactionMacCryptoFailed, False)
     | Some mac \<Rightarrow> (DfcTransactionMacOk, dfc_truncate_aes_wire_mac mac = take 8 w))"
proof -
  obtain buf where buf: "v_input v = Some buf" "length buf = v_input_capacity v" "length buf \<le> SIZE_MAX"
    "v_input_length v = length m" "take (length m) buf = m" "16 dvd length m" using log by (auto simp: reader_log_def)
  have "length m \<le> length buf" using buf(5) by (metis length_take min.bounded_iff order_refl)
  moreover have "length m \<le> SIZE_MAX - 15" using calculation buf(3,6) by (intro block_multiple_bound) simp_all
  ultimately have mac: "aes_cmac lib (Some session_key) 16 (Some buf) (length m) =
      cmac_answer AesCmac (cmac_specification AesCmac lib (Some session_key) 16 (replicate 16 0) m)"
    using aes_cmac_eq [OF lib, of "length m" buf] buf(5) by simp
  have ct: "dfc_ct_equal (dfc_truncate_aes_wire_mac full) w 8 \<longleftrightarrow> dfc_truncate_aes_wire_mac full = take 8 w" for full
    using dfc_ct_equal_iff [of 8 "dfc_truncate_aes_wire_mac full" w] w by simp
  have valid: "verifier_is_valid v" "length m \<noteq> 0" using log m by (simp_all add: reader_log_def)
  have st: "v_key v = key" "v_uid v = uid" "v_uid_length v = uid_length" "v_counter v = counter"
    using log by (simp_all add: reader_log_def)
  show ?thesis
    unfolding dfc_transaction_mac_verify_def st sk prod.case bool.case DFC_AES_KEY_LENGTH_def buf(1,4) mac
    using valid by (auto simp: ct DFC_WIRE_MAC_LENGTH_def split: option.split)
qed

lemma derive_length:
  assumes lib: "block_library lib" and "dfc_transaction_mac_derive_session_key lib key uid ul counter = (True, sk)"
  shows "length sk = 16"
proof -
  obtain vec where "aes_cmac lib key 16 (Some vec) 16 = (True, sk)" "length vec = 16"
    using assms(2) length_session_vector [of ul "the uid" counter]
    by (auto simp: dfc_transaction_mac_derive_session_key_def tmac_lengths DFC_DESFIRE_UID_SHORT_LEN_def
        split: if_splits prod.splits bool.splits)
  then have "cmac_specification AesCmac lib key 16 (replicate 16 0) vec = Some sk"
    using aes_cmac_eq [OF lib, of 16 vec key] by (auto simp: SIZE_MAX_def split: option.splits)
  then show ?thesis using cmac_encrypt_length [OF lib, of AesCmac]
    by (auto simp: cmac_specification_def cmac_reference_def Let_def split: option.splits)
qed

subsection \<open>Acceptance\<close>

text \<open>With a cipher that does not fail, the loops always come back and count modulo the block size.\<close>

definition cipher_works :: "'x mbedtls \<Rightarrow> bytes \<Rightarrow> bool" where
  "cipher_works lib key \<longleftrightarrow> (\<exists>cipher. cmac_block_init AesCmac lib (Some key) 16 = Some cipher \<and>
     (\<forall>x. dfc_crypto_aes_block_encrypt lib (Some cipher) x \<noteq> None))"

lemma accumulator_absorb_total:
  assumes push: "\<And>b acc. accumulator_push_block lib ctx b acc \<noteq> None"
  shows "bl < 16 \<Longrightarrow> length block = 16 \<Longrightarrow> \<exists>acc1 block1. length block1 = 16 \<and>
    accumulator_absorb lib ctx data (acc, block, bl) = Some (acc1, block1, (bl + length data) mod 16)"
proof (induction data arbitrary: acc block bl rule: length_induct)
  case (1 data)
  define k where "k = min (16 - bl) (length data)"
  define b where "b = mem_write bl (take k data) block"
  note eq = accumulator_absorb.simps [of lib ctx data acc block bl, unfolded Let_def DFC_AES_KEY_LENGTH_def, folded k_def, folded b_def]
  have lb: "length b = 16" using 1(2,3) by (simp add: b_def k_def)
  show ?case
  proof (cases "data = []")
    case True
    then show ?thesis using 1(2,3) by (auto simp: accumulator_absorb.simps)
  next
    case False
    have lt: "length (drop k data) < length data" "\<not> 16 \<le> bl" "length (drop k data) = length data - k" "k \<le> length data"
      "bl + k \<noteq> 16 \<longrightarrow> bl + k < 16" using False 1(2) by (auto simp: k_def)
    note ih = 1(1) [rule_format, OF lt(1) _ lb]
    show ?thesis
    proof (cases "bl + k = 16")
      case True
      obtain acc1 where "accumulator_push_block lib ctx b acc = Some acc1" using push [of b acc] by auto
      moreover have "(bl + length data) mod 16 = (0 + (length data - k)) mod 16"
      proof -
        have "bl + length data = (length data - k) + 16" using True lt(4) by linarith
        then show ?thesis by simp
      qed
      ultimately show ?thesis using ih [of 0 acc1] lt True False unfolding eq by simp
    next
      case ne: False
      then show ?thesis using ih [of "bl + k" acc] lt False unfolding eq by simp
    qed
  qed
qed

lemma accumulator_segments_total:
  assumes push: "\<And>b acc. accumulator_push_block lib ctx b acc \<noteq> None" and ok: "list_all seg_ok ss"
  shows "bl < 16 \<Longrightarrow> length block = 16 \<Longrightarrow> t + length (concat (map seg_octets ss)) \<le> SIZE_MAX \<Longrightarrow>
    \<exists>acc1 block1. length block1 = 16 \<and> accumulator_segments lib ctx ss t (acc, block, bl) =
      Some (t + length (concat (map seg_octets ss)), acc1, block1, (bl + length (concat (map seg_octets ss))) mod 16)"
  using ok
proof (induction ss arbitrary: t acc block bl)
  case (Cons s ss)
  have l: "length (seg_octets s) = seg_length s" using Cons.prems(4) seg_octets_length by simp
  obtain acc1 block1 where a: "length block1 = 16"
    "accumulator_absorb lib ctx (seg_octets s) (acc, block, bl) = Some (acc1, block1, (bl + seg_length s) mod 16)"
    using accumulator_absorb_total [OF push Cons.prems(1,2), of "seg_octets s" acc] l by auto
  obtain acc2 block2 where "length block2 = 16" "accumulator_segments lib ctx ss (t + seg_length s) (acc1, block1, (bl + seg_length s) mod 16) =
      Some (t + seg_length s + length (concat (map seg_octets ss)), acc2, block2, ((bl + seg_length s) mod 16 + length (concat (map seg_octets ss))) mod 16)"
    using Cons.IH [of "(bl + seg_length s) mod 16" block1 "t + seg_length s" acc1] Cons.prems(3,4) a(1) l by auto
  moreover have "\<not> ((seg_length s \<noteq> 0 \<and> seg_data s = None) \<or> seg_length s > SIZE_MAX - t)"
    using Cons.prems(3,4) l by (auto simp: seg_ok_def split: option.splits)
  ultimately show ?case using a l by (simp add: mod_add_left_eq add.assoc)
qed auto

lemma accumulator_add_entry_accepted:
  assumes lib: "block_library lib" and works: "cipher_works lib (acc_session_key acc)" and wf: "entry_wf e" and init: "acc_initialized acc"
    and len: "length (entry_octets e) \<le> SIZE_MAX"
  shows "\<exists>acc1. accumulator_add_entry lib acc e = (True, acc1)"
proof -
  let ?key = "acc_session_key acc"
  obtain cipher where c: "cmac_block_init AesCmac lib (Some ?key) 16 = Some cipher"
    "\<And>x. dfc_crypto_aes_block_encrypt lib (Some cipher) x \<noteq> None" using works by (auto simp: cipher_works_def)
  obtain l where "dfc_crypto_aes_block_encrypt lib (Some cipher) (replicate 16 0) = Some l" using c(2) [of "replicate 16 0"] by auto
  then obtain ctx where ctx: "cmac_context_init AesCmac lib (Some ?key) 16 = (True, ctx)" "ctx_cipher ctx = Some cipher"
    using c(1) by (auto simp: cmac_context_init_def generateSubkeys_eq [OF lib])
  have push: "accumulator_push_block lib ctx b a \<noteq> None" for b a
    using c(2) [of "xor_bytes (acc_chain a) (acc_pending a)"] by (auto simp: accumulator_push_block_def ctx(2))
  have d: "length (entry_octets e) = length (pad16 (entry_header_octets e)) + length (pad16 (entry_data_octets e))"
    by (simp add: entry_octets_eq)
  have "length (pad16 (entry_data_octets e)) \<le> SIZE_MAX - 15" using d len by (intro block_multiple_bound) simp_all
  then have dl: "e_data_length e \<le> SIZE_MAX - 15" using pad16_ge [of "entry_data_octets e"] entry_wf_lengths(2) [OF wf] by simp
  have pos: "0 < length (entry_octets e)" "16 dvd length (entry_octets e)"
    using pad16_ge [of "entry_header_octets e"] entry_wf_lengths(1) [OF wf] wf unfolding d by (auto simp: entry_wf_def)
  note segs = entry_segments [OF wf]
  obtain acc1 block1 where a: "accumulator_segments lib ctx (entry_segs e) 0 (acc, replicate 16 0, 0) =
      Some (length (entry_octets e), acc1, block1, 0)"
    using accumulator_segments_total [OF push segs(1), of 0 "replicate 16 0" 0 acc] len pos(2) unfolding segs(2) by (auto simp: dvd_eq_mod_eq_0)
  have nonempty: "entry_segs e \<noteq> []" by (simp add: entry_segs_def)
  have "accumulator_add_segments_and_zeroes lib acc (entry_segs e) 0 = (True, acc1)"
    using init ctx(1) a pos nonempty by (simp add: accumulator_add_segments_and_zeroes_def dfc_aes_cmac_context_init_def
        DFC_AES_KEY_LENGTH_def accumulator_zeroes.simps dvd_eq_mod_eq_0)
  then show ?thesis using accumulator_add_entry_segments [OF wf dl, of lib acc] by simp
qed

lemma accumulator_init_log:
  "length sk = 16 \<Longrightarrow> dfc_transaction_mac_accumulator_init (Some sk) = (True, acc) \<Longrightarrow> card_log lib sk acc []"
  by (auto simp: dfc_transaction_mac_accumulator_init_def dfc_transaction_mac_accumulator_clear_def card_log_def
      accumulated_def DFC_AES_KEY_LENGTH_def absorbed_start)

lemma finalize_needs_data:
  "accumulated lib acc m \<Longrightarrow> dfc_transaction_mac_accumulator_finalize lib acc = (True, mac) \<Longrightarrow> m \<noteq> []"
  by (auto simp: accumulated_def dfc_transaction_mac_accumulator_finalize_def Let_def)

lemma cbc_mac_total: "(\<And>x. enc x \<noteq> None) \<Longrightarrow> cbc_mac enc iv bs \<noteq> None"
  by (induction bs arbitrary: iv) (fastforce split: option.splits)+

lemma specification_total:
  assumes "cipher_works lib key"
  shows "\<exists>mac. cmac_specification AesCmac lib (Some key) 16 iv m = Some mac"
proof -
  obtain cipher where c: "cmac_block_init AesCmac lib (Some key) 16 = Some cipher"
    "\<And>x. cmac_block_encrypt AesCmac lib (Some cipher) x \<noteq> None" using assms by (auto simp: cipher_works_def)
  let ?enc = "cmac_block_encrypt AesCmac lib (Some cipher)"
  obtain l where l: "?enc (replicate 16 0) = Some l" using c(2) [of "replicate 16 0"] by auto
  obtain x where x: "cbc_mac ?enc iv (chunks 16 (cmac_head 16 m)) = Some x"
    using cbc_mac_total [of ?enc iv] c(2) by blast
  have "cmac_specification AesCmac lib (Some key) 16 iv m =
      ?enc (xor_bytes x (cmac_last_block 16 (gf_double AesCmac l) (gf_double AesCmac (gf_double AesCmac l)) (cmac_tail 16 m)))"
    unfolding cmac_specification_def c(1) option.case Let_def CMAC_BLOCK_SIZE.simps l cmac_reference_def x ..
  then show ?thesis using c(2) by (metis not_None_eq)
qed

lemma xor_works [simp]: "cipher_works xor_library key"
  by (simp add: cipher_works_def dfc_crypto_aes_block_init_def dfc_crypto_aes_block_encrypt_def xor_library_def)

lemma derive_total:
  assumes "block_library lib" "cipher_works lib key" "counter \<noteq> 0" "uid_length = 4 \<or> uid_length = 7"
  shows "\<exists>sk. dfc_transaction_mac_derive_session_key lib (Some key) (Some uid) uid_length counter = (True, sk)"
proof -
  let ?vec = "session_vector uid uid_length counter"
  have "length ?vec = 16" using assms(4) by (intro length_session_vector) auto
  then have "aes_cmac lib (Some key) 16 (Some ?vec) 16 =
      cmac_answer AesCmac (cmac_specification AesCmac lib (Some key) 16 (replicate 16 0) (take 16 ?vec))"
    by (intro aes_cmac_eq [OF assms(1)]) (simp_all add: SIZE_MAX_def)
  with specification_total [OF assms(2), of "replicate 16 0" "take 16 ?vec"] assms(3,4) show ?thesis
    by (auto simp: dfc_transaction_mac_derive_session_key_def tmac_lengths DFC_DESFIRE_UID_SHORT_LEN_def)
qed

subsection \<open>Properties\<close>

text \<open>
  C1. The two ends agree. When reader and card saw the same operations of a transaction, under
  the same key, identifier and counter, the reader's check of a transmitted MAC succeeds
  exactly when it is the truncated MAC the card's accumulator finishes with. The card may have
  folded runs of zeros in without a buffer, and both sides may have cut the data anywhere.
\<close>

theorem transaction_mac_agreement:
  assumes lib: "block_library lib" and key: "length key = 16" "uid_length \<le> length uid" "length buf \<le> SIZE_MAX"
    and init: "dfc_transaction_mac_verifier_init (Some buf) (length buf) (Some key) (Some uid) uid_length counter =
      (DfcTransactionMacOk, v0)"
    and session: "dfc_transaction_mac_derive_session_key lib (Some key) (Some uid) uid_length counter = (True, session_key)"
      "dfc_transaction_mac_accumulator_init (Some session_key) = (True, acc0)"
    and ops: "list_all tm_wf ops" "add_all reader_add v0 ops = Some v" "add_all (card_add lib) acc0 ops = Some acc"
    and mac: "dfc_transaction_mac_accumulator_finalize lib acc = (True, mac)" "8 \<le> length w"
  shows "dfc_transaction_mac_verify lib v (Some w) = (DfcTransactionMacOk, dfc_truncate_aes_wire_mac mac = take 8 w)"
proof -
  let ?m = "[] @ concat (map tm_octets ops)"
  note vl = verifier_init_log [OF init key(3,1,2)]
  have reader: "reader_log key (v_uid v0) uid_length counter v ?m" by (rule reader.add_all_holds [OF vl(1) ops(1,2)])
  have sk: "dfc_transaction_mac_derive_session_key lib (Some key) (Some (v_uid v0)) uid_length counter = (True, session_key)"
    using derive_uid_cong [OF vl(2)] session(1) by metis
  have "card_log lib session_key acc0 []"
    by (rule accumulator_init_log [OF derive_length [OF lib session(1)] session(2)])
  from card.add_all_holds [OF this ops(1,3)]
  have card: "accumulated lib acc ?m" "acc_session_key acc = session_key" using lib by (simp_all add: card_log_def)
  have m: "?m \<noteq> []" by (rule finalize_needs_data [OF card(1) mac(1)])
  have "cmac_specification AesCmac lib (Some session_key) 16 (replicate 16 0) ?m = Some mac"
    using finalize_eq [OF lib card(1) m] mac(1) card(2) by (auto split: option.splits)
  then show ?thesis using verify_eq [OF lib reader m sk mac(2)] by simp
qed

theorem transaction_mac_agreement_witness:
  "\<exists>v acc mac.
     add_all reader_add (snd (dfc_transaction_mac_verifier_init (Some (replicate 32 0)) 32 (Some (replicate 16 1))
       (Some [1, 2, 3, 4]) 4 1)) [TmClearRecord 3] = Some v \<and>
     add_all (card_add xor_library) (snd (dfc_transaction_mac_accumulator_init (Some (snd
       (dfc_transaction_mac_derive_session_key xor_library (Some (replicate 16 1)) (Some [1, 2, 3, 4]) 4 1))))) [TmClearRecord 3] = Some acc \<and>
     dfc_transaction_mac_accumulator_finalize xor_library acc = (True, mac) \<and>
     dfc_transaction_mac_verify xor_library v (Some (dfc_truncate_aes_wire_mac mac)) = (DfcTransactionMacOk, True)"
proof -
  let ?key = "replicate 16 (1 :: u8)" and ?uid = "[1, 2, 3, 4 :: u8]" and ?op = "TmClearRecord 3"
  obtain v0 where v0: "dfc_transaction_mac_verifier_init (Some (replicate 32 0)) 32 (Some ?key) (Some ?uid) 4 1 = (DfcTransactionMacOk, v0)"
    by (simp add: dfc_transaction_mac_verifier_init_def DFC_DESFIRE_UID_SHORT_LEN_def)
  obtain sk where sk: "dfc_transaction_mac_derive_session_key xor_library (Some ?key) (Some ?uid) 4 1 = (True, sk)"
    using derive_total [of xor_library ?key 1 4 ?uid] by auto
  obtain acc0 where acc0: "dfc_transaction_mac_accumulator_init (Some sk) = (True, acc0)"
    by (simp add: dfc_transaction_mac_accumulator_init_def)
  have log: "accumulated xor_library acc0 []"
    using accumulator_init_log [OF derive_length [OF xor_library(1) sk] acc0, of xor_library] by (simp add: card_log_def)
  obtain e where e: "tm_entry ?op = Some e" by (simp add: entry_clear_record_def)
  have wf: "entry_wf e" "entry_octets e = tm_octets ?op" using tm_entry_correct [OF _ e] by simp_all
  have lo: "length (tm_octets ?op) = 16" by (simp add: tm_octets_def pad16_def)
  obtain acc where acc: "accumulator_add_entry xor_library acc0 e = (True, acc)"
    using accumulator_add_entry_accepted [OF xor_library(1) xor_works wf(1), of acc0] log lo wf(2) by (auto simp: accumulated_def SIZE_MAX_def)
  have card: "add_all (card_add xor_library) acc0 [?op] = Some acc" using acc e by (simp add: dfc_transaction_mac_accumulator_add_clear_record_def)
  have "accumulated xor_library acc (tm_octets ?op)" using accumulator_add_entry_correct(1) [OF xor_library(1) wf(1) log acc] wf(2) by simp
  moreover have "tm_octets ?op \<noteq> []" using lo by auto
  ultimately obtain mac where mac: "dfc_transaction_mac_accumulator_finalize xor_library acc = (True, mac)"
    using finalize_eq [OF xor_library(1)] specification_total [OF xor_works, of "acc_session_key acc" "replicate 16 0" "tm_octets ?op"] by fastforce
  obtain v where v: "add_all reader_add v0 [?op] = Some v"
    using v0 append_entry_effect [OF wf(1), of "replicate 32 0" 32 0] e wf(2) lo
    by (auto simp: dfc_transaction_mac_verifier_init_def DFC_DESFIRE_UID_SHORT_LEN_def dfc_transaction_mac_add_clear_record_def
        verifier_is_valid_def zero_verifier_def dfc_transaction_mac_input_add_clear_record_def verifier_appended_def SIZE_MAX_def)
  have "dfc_transaction_mac_verify xor_library v (Some (dfc_truncate_aes_wire_mac mac)) = (DfcTransactionMacOk, True)"
    using transaction_mac_agreement [OF xor_library(1), of ?key 4 ?uid "replicate 32 0" 1 v0 sk acc0 "[?op]" v acc mac
        "dfc_truncate_aes_wire_mac mac"] v0 sk acc0 v card mac by (simp add: SIZE_MAX_def)
  then show ?thesis using v0 sk acc0 v card mac by auto
qed

text \<open>
  A well-formed operation is never refused by the card while its cipher works: the entry is
  folded in whatever its length, the loops end, and the accumulator then stands for the
  recorded octets followed by the entry's header and data, each padded to whole blocks.
\<close>

theorem accumulator_add_entry_accepts:
  assumes "block_library lib" "cipher_works lib (acc_session_key acc)" "accumulated lib acc m" "entry_wf e"
    "length (entry_octets e) \<le> SIZE_MAX"
  shows "\<exists>acc1. accumulator_add_entry lib acc e = (True, acc1) \<and> accumulated lib acc1 (m @ entry_octets e)"
proof -
  have "acc_initialized acc" using assms(3) by (simp add: accumulated_def)
  from accumulator_add_entry_accepted [OF assms(1,2,4) this assms(5)]
  obtain acc1 where "accumulator_add_entry lib acc e = (True, acc1)" by blast
  then show ?thesis using accumulator_add_entry_correct(1) [OF assms(1,4,3)] by blast
qed

theorem accumulator_add_entry_accepts_witness:
  "\<exists>acc1. accumulator_add_entry xor_library (snd (dfc_transaction_mac_accumulator_init (Some (replicate 16 7))))
      \<lparr>e_header = [0xEB, 1] @ replicate 15 0, e_header_length = 2, e_data = None, e_data_length = 0\<rparr> = (True, acc1) \<and>
    accumulated xor_library acc1 ([0xEB, 1] @ replicate 14 0)"
  using accumulator_add_entry_accepts [OF xor_library(1) xor_works, of "snd (dfc_transaction_mac_accumulator_init (Some (replicate 16 7)))" "[]"
      "\<lparr>e_header = [0xEB, 1] @ replicate 15 0, e_header_length = 2, e_data = None, e_data_length = 0\<rparr>"]
    accumulator_init_log [of "replicate 16 7" "snd (dfc_transaction_mac_accumulator_init (Some (replicate 16 7)))" xor_library]
  by (simp add: card_log_def entry_wf_def entry_octets_def pad16_def SIZE_MAX_def dfc_transaction_mac_accumulator_init_def
      DFC_AES_KEY_LENGTH_def)

text \<open>
  The advance checks are exact: appending an entry to the reader's buffer succeeds exactly
  when the capacity check for its lengths said so. It then writes the padded header and data
  behind the recorded octets and nothing else; otherwise buffer and length stay as they were.
\<close>

theorem append_entry_correct:
  assumes "entry_wf e" "length buf = cap" "cap \<le> SIZE_MAX"
  shows "append_entry (Some buf) cap len e =
    (if input_has_capacity cap len (e_header_length e) (e_data_length e)
     then (True, Some (mem_write len (entry_octets e) buf), len + length (entry_octets e))
     else (False, Some buf, len))"
  using append_entry_effect [OF assms, of len] append_entry_outcome [OF assms, of len] by (auto split: if_splits)

theorem append_entry_correct_witness:
  "append_entry (Some (replicate 20 9)) 20 0
     \<lparr>e_header = [0xEB, 1] @ replicate 15 0, e_header_length = 2, e_data = None, e_data_length = 0\<rparr> =
   (True, Some ([0xEB, 1] @ replicate 14 0 @ replicate 4 9), 16)"
  using append_entry_correct [of "\<lparr>e_header = [0xEB, 1] @ replicate 15 0, e_header_length = 2, e_data = None, e_data_length = 0\<rparr>"
      "replicate 20 9" 20 0]
  by (simp add: entry_wf_def SIZE_MAX_def input_has_capacity_def padded_length_def TRANSACTION_BLOCK_SIZE_def entry_octets_def
      pad16_def mem_write_def)

end
