(* ===== verification/Dfc_Response.thy ===== *)
theory Dfc_Response
  imports Dfc_Wire
begin

text \<open>
  The reader's decoders of clear response payloads (\<^verbatim>\<open>src/dfc_response.c\<close>). A decoder returns
  its status and what it leaves in the caller's structure, which is zeroed first. A signed
  32-bit field is a 32-bit word read by \<open>sint\<close>. The union of the file settings is its members
  side by side. The two list decoders may share their output with the response.
\<close>

definition DFC_RESPONSE_VERSION_LENGTH :: size_t where "DFC_RESPONSE_VERSION_LENGTH = 28"
definition DFC_RESPONSE_VERSION_UID_LENGTH :: size_t where "DFC_RESPONSE_VERSION_UID_LENGTH = 7"
definition DFC_RESPONSE_VERSION_BATCH_LENGTH :: size_t where "DFC_RESPONSE_VERSION_BATCH_LENGTH = 5"
definition DFC_RESPONSE_AID_LENGTH :: size_t where "DFC_RESPONSE_AID_LENGTH = 3"

datatype DfcResponseDecodeStatus =
  DfcResponseDecodeOk | DfcResponseDecodeMalformed | DfcResponseDecodeUnsupported | DfcResponseDecodeBufferTooSmall

datatype DfcResponseAccessKind = DfcResponseAccessKey | DfcResponseAccessFree | DfcResponseAccessDenied

record DfcResponseAccess =
  ra_kind :: DfcResponseAccessKind
  ra_key_number :: u8

record DfcResponseAccessRights =
  rr_read :: DfcResponseAccess
  rr_write :: DfcResponseAccess
  rr_read_write :: DfcResponseAccess
  rr_change :: DfcResponseAccess

record DfcResponseVersionPart =
  vp_vendor_id :: u8
  vp_type :: u8
  vp_subtype :: u8
  vp_major_version :: u8
  vp_minor_version :: u8
  vp_storage_size :: u8
  vp_protocol :: u8

record DfcResponseVersion =
  rv_hardware :: DfcResponseVersionPart
  rv_software :: DfcResponseVersionPart
  rv_uid :: bytes
  rv_batch_number :: bytes
  rv_production_week :: u8
  rv_production_year :: u8

record DfcResponseKeySettings =
  rk_settings_1 :: u8
  rk_settings_2 :: u8
  rk_key_type :: u8
  rk_key_count :: u8
  rk_has_key_set_settings :: bool
  rk_active_key_set_version :: u8
  rk_key_set_count :: u8
  rk_max_key_size :: u8
  rk_key_set_settings :: u8

record DfcResponseFileSettings =
  rf_type :: u8
  rf_communication_mode :: u8
  rf_sdm_enabled :: bool
  rf_access_rights_raw :: u16
  rf_access :: DfcResponseAccessRights
  rf_data_size :: u32
  rf_value_lower_limit :: u32
  rf_value_upper_limit :: u32
  rf_value_limited_credit_value :: u32
  rf_value_limited_credit_options :: u8
  rf_value_limited_credit_enabled :: bool
  rf_records_record_size :: u32
  rf_records_max_records :: u32
  rf_records_current_records :: u32

definition zero_access :: DfcResponseAccess where
  "zero_access = \<lparr>ra_kind = DfcResponseAccessKey, ra_key_number = 0\<rparr>"

definition zero_version_part :: DfcResponseVersionPart where
  "zero_version_part = \<lparr>vp_vendor_id = 0, vp_type = 0, vp_subtype = 0, vp_major_version = 0, vp_minor_version = 0,
     vp_storage_size = 0, vp_protocol = 0\<rparr>"

definition zero_version :: DfcResponseVersion where
  "zero_version = \<lparr>rv_hardware = zero_version_part, rv_software = zero_version_part,
     rv_uid = replicate DFC_RESPONSE_VERSION_UID_LENGTH 0, rv_batch_number = replicate DFC_RESPONSE_VERSION_BATCH_LENGTH 0,
     rv_production_week = 0, rv_production_year = 0\<rparr>"

definition zero_key_settings :: DfcResponseKeySettings where
  "zero_key_settings = \<lparr>rk_settings_1 = 0, rk_settings_2 = 0, rk_key_type = 0, rk_key_count = 0,
     rk_has_key_set_settings = False, rk_active_key_set_version = 0, rk_key_set_count = 0, rk_max_key_size = 0,
     rk_key_set_settings = 0\<rparr>"

definition zero_file_settings :: DfcResponseFileSettings where
  "zero_file_settings = \<lparr>rf_type = 0, rf_communication_mode = 0, rf_sdm_enabled = False, rf_access_rights_raw = 0,
     rf_access = \<lparr>rr_read = zero_access, rr_write = zero_access, rr_read_write = zero_access, rr_change = zero_access\<rparr>,
     rf_data_size = 0, rf_value_lower_limit = 0, rf_value_upper_limit = 0, rf_value_limited_credit_value = 0,
     rf_value_limited_credit_options = 0, rf_value_limited_credit_enabled = False, rf_records_record_size = 0,
     rf_records_max_records = 0, rf_records_current_records = 0\<rparr>"

definition input_is_valid :: "bytes option \<Rightarrow> size_t \<Rightarrow> bool" where
  "input_is_valid response response_len \<longleftrightarrow> response \<noteq> None \<or> response_len = 0"

definition read_u24_le :: "bytes \<Rightarrow> u32" where
  "read_u24_le value = ucast (value ! 0) OR push_bit 8 (ucast (value ! 1)) OR push_bit 16 (ucast (value ! 2))"

definition read_i32_le :: "bytes \<Rightarrow> u32" where
  "read_i32_le value = ucast (value ! 0) OR push_bit 8 (ucast (value ! 1)) OR push_bit 16 (ucast (value ! 2)) OR
     push_bit 24 (ucast (value ! 3))"

definition decode_access :: "u8 \<Rightarrow> DfcResponseAccess" where
  "decode_access nibble =
     (if nibble = DFC_ACCESS_FREE then zero_access\<lparr>ra_kind := DfcResponseAccessFree\<rparr>
      else if nibble = DFC_ACCESS_DENY then zero_access\<lparr>ra_kind := DfcResponseAccessDenied\<rparr>
      else zero_access\<lparr>ra_kind := DfcResponseAccessKey, ra_key_number := nibble\<rparr>)"

definition decode_access_rights :: "u16 \<Rightarrow> DfcResponseAccessRights" where
  "decode_access_rights rights =
     \<lparr>rr_read = decode_access (ucast (drop_bit 12 rights)),
      rr_write = decode_access (dfc_access_nibble rights 8),
      rr_read_write = decode_access (dfc_access_nibble rights 4),
      rr_change = decode_access (ucast (rights AND 0x0F))\<rparr>"

definition decode_version_part :: "bytes \<Rightarrow> DfcResponseVersionPart" where
  "decode_version_part response =
     \<lparr>vp_vendor_id = response ! 0, vp_type = response ! 1, vp_subtype = response ! 2, vp_major_version = response ! 3,
      vp_minor_version = response ! 4, vp_storage_size = response ! 5, vp_protocol = response ! 6\<rparr>"

fun dfc_response_decode_status_name :: "DfcResponseDecodeStatus \<Rightarrow> string" where
  "dfc_response_decode_status_name DfcResponseDecodeOk = ''ok''"
| "dfc_response_decode_status_name DfcResponseDecodeMalformed = ''malformed''"
| "dfc_response_decode_status_name DfcResponseDecodeUnsupported = ''unsupported''"
| "dfc_response_decode_status_name DfcResponseDecodeBufferTooSmall = ''buffer-too-small''"

definition dfc_response_decode_version :: "bytes option \<Rightarrow> size_t \<Rightarrow> DfcResponseDecodeStatus \<times> DfcResponseVersion" where
  "dfc_response_decode_version response response_len =
     (if \<not> input_is_valid response response_len \<or> response_len \<noteq> DFC_RESPONSE_VERSION_LENGTH
      then (DfcResponseDecodeMalformed, zero_version)
      else
        let r = the response in
        (DfcResponseDecodeOk,
         \<lparr>rv_hardware = decode_version_part r, rv_software = decode_version_part (drop 7 r),
          rv_uid = mem_read 14 DFC_RESPONSE_VERSION_UID_LENGTH r,
          rv_batch_number = mem_read 21 DFC_RESPONSE_VERSION_BATCH_LENGTH r,
          rv_production_week = r ! 26, rv_production_year = r ! 27\<rparr>))"

text \<open>
  Where the decoder reads: a buffer of its own, no buffer, or the very array it writes to.
\<close>

datatype response_source = ResponseBuffer bytes | ResponseNull | ResponseShared

fun source_octets :: "response_source \<Rightarrow> bytes \<Rightarrow> bytes" where
  "source_octets (ResponseBuffer r) out = r"
| "source_octets ResponseNull out = []"
| "source_octets ResponseShared out = out"

fun decode_aid_loop :: "response_source \<Rightarrow> bytes \<Rightarrow> size_t list \<Rightarrow> bytes" where
  "decode_aid_loop response aids [] = aids"
| "decode_aid_loop response aids (i # is) =
     (let wire = drop (i * DFC_RESPONSE_AID_LENGTH) (source_octets response aids);
          first_octet = wire ! 0; middle = wire ! 1; last_octet = wire ! 2
      in decode_aid_loop response (mem_write (i * DFC_RESPONSE_AID_LENGTH) [last_octet, middle, first_octet] aids) is)"

text \<open>The array of identifiers is its octets, and \<open>None\<close> a missing array.\<close>

definition dfc_response_decode_application_ids ::
  "response_source \<Rightarrow> size_t \<Rightarrow> bytes option \<Rightarrow> size_t \<Rightarrow> DfcResponseDecodeStatus \<times> bytes option \<times> size_t" where
  "dfc_response_decode_application_ids response response_len aids aid_capacity =
     (if (response = ResponseNull \<and> response_len \<noteq> 0) \<or> response_len mod DFC_RESPONSE_AID_LENGTH \<noteq> 0 \<or>
         (aids = None \<and> aid_capacity \<noteq> 0)
      then (DfcResponseDecodeMalformed, aids, 0)
      else
        let required = response_len div DFC_RESPONSE_AID_LENGTH in
        if aid_capacity < required then (DfcResponseDecodeBufferTooSmall, aids, required)
        else (DfcResponseDecodeOk, map_option (\<lambda>a. decode_aid_loop response a [0..<required]) aids, required))"

definition dfc_response_decode_file_ids ::
  "response_source \<Rightarrow> size_t \<Rightarrow> bytes option \<Rightarrow> size_t \<Rightarrow> DfcResponseDecodeStatus \<times> bytes option \<times> size_t" where
  "dfc_response_decode_file_ids response response_len file_ids file_id_capacity =
     (if (response = ResponseNull \<and> response_len \<noteq> 0) \<or> (file_ids = None \<and> file_id_capacity \<noteq> 0)
      then (DfcResponseDecodeMalformed, file_ids, 0)
      else if file_id_capacity < response_len then (DfcResponseDecodeBufferTooSmall, file_ids, response_len)
      else (DfcResponseDecodeOk,
        if response_len \<noteq> 0 \<and> response \<noteq> ResponseShared
        then map_option (\<lambda>ids. mem_write 0 (take response_len (source_octets response ids)) ids) file_ids
        else file_ids, response_len))"

definition file_settings_length :: "u8 \<Rightarrow> size_t option" where
  "file_settings_length ty =
     (if ty = DFC_FILE_TYPE_STANDARD_DATA \<or> ty = DFC_FILE_TYPE_BACKUP_DATA then Some 7
      else if ty = DFC_FILE_TYPE_VALUE then Some 17
      else if ty = DFC_FILE_TYPE_LINEAR_RECORD \<or> ty = DFC_FILE_TYPE_CYCLIC_RECORD then Some 13
      else None)"

definition dfc_response_decode_file_settings ::
  "bytes option \<Rightarrow> size_t \<Rightarrow> DfcResponseDecodeStatus \<times> DfcResponseFileSettings" where
  "dfc_response_decode_file_settings response response_len =
     (if \<not> input_is_valid response response_len \<or> response_len < 4 then (DfcResponseDecodeMalformed, zero_file_settings)
      else
        let r = the response in
        case file_settings_length (r ! 0) of
          None \<Rightarrow> (DfcResponseDecodeUnsupported, zero_file_settings)
        | Some required_len \<Rightarrow>
            if r ! 1 AND NOT DFC_COMM_MODE_MASK \<noteq> 0 then (DfcResponseDecodeUnsupported, zero_file_settings)
            else if response_len \<noteq> required_len then (DfcResponseDecodeMalformed, zero_file_settings)
            else
              let communication_mode = r ! 1 AND DFC_COMM_MODE_MASK in
              if communication_mode \<noteq> DFC_COMM_PLAIN \<and> communication_mode \<noteq> DFC_COMM_MAC \<and>
                 communication_mode \<noteq> DFC_COMM_ENCIPHERED
              then (DfcResponseDecodeUnsupported, zero_file_settings)
              else
                let rights = ucast (r ! 2) OR push_bit 8 (ucast (r ! 3)) :: u16;
                    decoded = zero_file_settings\<lparr>rf_type := r ! 0, rf_communication_mode := communication_mode,
                      rf_access_rights_raw := rights, rf_access := decode_access_rights rights\<rparr>
                in if r ! 0 = DFC_FILE_TYPE_STANDARD_DATA \<or> r ! 0 = DFC_FILE_TYPE_BACKUP_DATA
                   then (DfcResponseDecodeOk, decoded\<lparr>rf_data_size := read_u24_le (drop 4 r)\<rparr>)
                   else if r ! 0 = DFC_FILE_TYPE_VALUE then
                     if r ! 16 AND NOT 0x03 \<noteq> 0 then (DfcResponseDecodeUnsupported, zero_file_settings)
                     else (DfcResponseDecodeOk, decoded\<lparr>rf_value_lower_limit := read_i32_le (drop 4 r),
                       rf_value_upper_limit := read_i32_le (drop 8 r),
                       rf_value_limited_credit_value := read_i32_le (drop 12 r),
                       rf_value_limited_credit_options := r ! 16,
                       rf_value_limited_credit_enabled := (r ! 16 AND 0x01 \<noteq> 0)\<rparr>)
                   else (DfcResponseDecodeOk, decoded\<lparr>rf_records_record_size := read_u24_le (drop 4 r),
                       rf_records_max_records := read_u24_le (drop 7 r),
                       rf_records_current_records := read_u24_le (drop 10 r)\<rparr>))"

definition dfc_response_decode_key_settings ::
  "bytes option \<Rightarrow> size_t \<Rightarrow> DfcResponseDecodeStatus \<times> DfcResponseKeySettings" where
  "dfc_response_decode_key_settings response response_len =
     (if \<not> input_is_valid response response_len \<or> (response_len \<noteq> 2 \<and> response_len \<noteq> 6)
      then (DfcResponseDecodeMalformed, zero_key_settings)
      else
        let r = the response; key_type = r ! 1 AND DFC_KEY_TYPE_MASK in
        if key_type \<noteq> DFC_KEY_TYPE_DES_2K3DES \<and> key_type \<noteq> DFC_KEY_TYPE_3K3DES \<and> key_type \<noteq> DFC_KEY_TYPE_AES
        then (DfcResponseDecodeUnsupported, zero_key_settings)
        else
          let key_count = r ! 1 AND DFC_NUM_KEYS_MASK in
          if unat key_count > DFC_MAX_KEYS then (DfcResponseDecodeUnsupported, zero_key_settings)
          else
            let decoded = zero_key_settings\<lparr>rk_settings_1 := r ! 0, rk_settings_2 := r ! 1, rk_key_type := key_type,
                  rk_key_count := key_count, rk_has_key_set_settings := (response_len = 6)\<rparr>
            in if response_len = 6 then
                 let decoded1 = decoded\<lparr>rk_active_key_set_version := r ! 2, rk_key_set_count := r ! 3,
                       rk_max_key_size := r ! 4, rk_key_set_settings := r ! 5\<rparr>
                 in if r ! 3 < 2 \<or> r ! 3 > 16 \<or> (r ! 4 \<noteq> 0x10 \<and> r ! 4 \<noteq> 0x18)
                    then (DfcResponseDecodeUnsupported, zero_key_settings)
                    else (DfcResponseDecodeOk, decoded1)
               else (DfcResponseDecodeOk, decoded))"

definition dfc_response_decode_key_version :: "bytes option \<Rightarrow> size_t \<Rightarrow> DfcResponseDecodeStatus \<times> u8" where
  "dfc_response_decode_key_version response response_len =
     (if \<not> input_is_valid response response_len \<or> response_len \<noteq> 1 then (DfcResponseDecodeMalformed, 0)
      else (DfcResponseDecodeOk, the response ! 0))"

subsection \<open>The wire forms\<close>

definition le16 :: "u16 \<Rightarrow> bytes" where
  "le16 v = [ucast v, ucast (drop_bit 8 v)]"

definition le24 :: "u32 \<Rightarrow> bytes" where
  "le24 v = [ucast v, ucast (drop_bit 8 v), ucast (drop_bit 16 v)]"

definition le32 :: "u32 \<Rightarrow> bytes" where
  "le32 v = [ucast v, ucast (drop_bit 8 v), ucast (drop_bit 16 v), ucast (drop_bit 24 v)]"

lemma length_le [simp]: "length (le16 v) = 2" "length (le24 w) = 3" "length (le32 w) = 4"
  by (simp_all add: le16_def le24_def le32_def)

lemma octet_bit: "bit (a :: u8) n \<Longrightarrow> n < 8"
  using bit_imp_le_length [of a n] by simp

lemma octet_high [simp]: "\<not> bit (a :: u8) (8 + n)" "\<not> bit a (16 + n)" "\<not> bit a (24 + n)"
  using octet_bit by fastforce+

lemma le24_read: "le24 (read_u24_le (a # b # c # rest)) = [a, b, c]"
  unfolding le24_def read_u24_le_def by (auto intro!: bit_word_eqI simp: bit_simps dest: octet_bit)

lemma le32_read: "le32 (read_i32_le (a # b # c # d # rest)) = [a, b, c, d]"
  unfolding le32_def read_i32_le_def by (auto intro!: bit_word_eqI simp: bit_simps dest: octet_bit)

lemma le16_read: "le16 (ucast a OR push_bit 8 (ucast b)) = [a, b]"
  unfolding le16_def by (auto intro!: bit_word_eqI simp: bit_simps dest: octet_bit)

lemma octet_range:
  fixes n :: nat
  assumes "n < 32"
  obtains "n < 8" | "8 \<le> n" "n < 16" | "16 \<le> n" "n < 24" | "24 \<le> n" "n < 32"
  using assms by linarith

lemma read_le32 [simp]: "read_i32_le (le32 v @ rest) = v"
proof (rule bit_word_eqI)
  fix n assume "n < LENGTH(32)"
  then have "n < 32" by simp
  then show "bit (read_i32_le (le32 v @ rest)) n \<longleftrightarrow> bit v n"
    unfolding le32_def read_i32_le_def by (cases rule: octet_range) (auto simp: bit_simps less_diff_conv2)
qed

lemma read_le16 [simp]: "(ucast (ucast (v :: u16) :: u8) OR push_bit 8 (ucast (ucast (drop_bit 8 v) :: u8)) :: u16) = v"
proof (rule bit_word_eqI)
  fix n assume "n < LENGTH(16)"
  then have "n < 8 \<or> 8 \<le> n \<and> n < 16" by auto
  then show "bit (ucast (ucast v :: u8) OR push_bit 8 (ucast (ucast (drop_bit 8 v) :: u8)) :: u16) n \<longleftrightarrow> bit v n"
    by (auto simp: bit_simps less_diff_conv2)
qed

lemma u24_bits: "v \<le> (0xFFFFFF :: u32) \<longleftrightarrow> (\<forall>n. bit v n \<longrightarrow> n < 24)"
proof -
  have "v \<le> 0xFFFFFF \<longleftrightarrow> unat v < 2 ^ 24" by (simp add: word_le_nat_alt less_Suc_eq_le [symmetric])
  also have "\<dots> \<longleftrightarrow> take_bit 24 (unat v) = unat v" by (simp add: take_bit_nat_eq_self_iff)
  also have "\<dots> \<longleftrightarrow> take_bit 24 v = v" by (metis unsigned_take_bit_eq unsigned_word_eqI)
  also have "\<dots> \<longleftrightarrow> (\<forall>n. bit v n \<longrightarrow> n < 24)"
  proof
    assume "take_bit 24 v = v"
    then show "\<forall>n. bit v n \<longrightarrow> n < 24" by (metis bit_take_bit_iff)
  qed (auto simp: bit_eq_iff bit_simps)
  finally show ?thesis .
qed

lemma read_le24 [simp]: "v \<le> 0xFFFFFF \<Longrightarrow> read_u24_le (le24 v @ rest) = v"
proof (rule bit_word_eqI)
  fix n assume v: "v \<le> 0xFFFFFF" and "n < LENGTH(32)"
  then have "n < 32" by simp
  moreover have "bit v n \<Longrightarrow> n < 24" using v u24_bits by blast
  ultimately show "bit (read_u24_le (le24 v @ rest)) n \<longleftrightarrow> bit v n"
    unfolding le24_def read_u24_le_def by (cases rule: octet_range) (auto simp: bit_simps less_diff_conv2)
qed

lemma read_u24_bound: "read_u24_le xs \<le> 0xFFFFFF"
  unfolding read_u24_le_def u24_bits by (auto simp: bit_simps dest: octet_bit)

text \<open>
  What the card sends for a file's settings, and the decoded records that have such a form:
  members of the other kinds of file are zero, options and modes are known ones.
\<close>

definition encode_file_settings :: "DfcResponseFileSettings \<Rightarrow> bytes" where
  "encode_file_settings s =
     [rf_type s, rf_communication_mode s] @ le16 (rf_access_rights_raw s) @
     (if rf_type s = 0 \<or> rf_type s = 1 then le24 (rf_data_size s)
      else if rf_type s = 2
      then le32 (rf_value_lower_limit s) @ le32 (rf_value_upper_limit s) @ le32 (rf_value_limited_credit_value s) @
        [rf_value_limited_credit_options s]
      else le24 (rf_records_record_size s) @ le24 (rf_records_max_records s) @ le24 (rf_records_current_records s))"

definition file_settings_ok :: "DfcResponseFileSettings \<Rightarrow> bool" where
  "file_settings_ok s \<longleftrightarrow> rf_type s \<in> {0, 1, 2, 3, 4} \<and> rf_communication_mode s \<in> {0, 1, 3} \<and> \<not> rf_sdm_enabled s \<and>
     rf_access s = decode_access_rights (rf_access_rights_raw s) \<and>
     (if rf_type s = 0 \<or> rf_type s = 1
      then rf_data_size s \<le> 0xFFFFFF \<and> s = zero_file_settings\<lparr>rf_type := rf_type s,
        rf_communication_mode := rf_communication_mode s, rf_access_rights_raw := rf_access_rights_raw s,
        rf_access := rf_access s, rf_data_size := rf_data_size s\<rparr>
      else if rf_type s = 2
      then rf_value_limited_credit_options s \<le> 3 \<and>
        rf_value_limited_credit_enabled s = (rf_value_limited_credit_options s AND 1 \<noteq> 0) \<and>
        s = zero_file_settings\<lparr>rf_type := rf_type s, rf_communication_mode := rf_communication_mode s,
          rf_access_rights_raw := rf_access_rights_raw s, rf_access := rf_access s,
          rf_value_lower_limit := rf_value_lower_limit s, rf_value_upper_limit := rf_value_upper_limit s,
          rf_value_limited_credit_value := rf_value_limited_credit_value s,
          rf_value_limited_credit_options := rf_value_limited_credit_options s,
          rf_value_limited_credit_enabled := rf_value_limited_credit_enabled s\<rparr>
      else rf_records_record_size s \<le> 0xFFFFFF \<and> rf_records_max_records s \<le> 0xFFFFFF \<and>
        rf_records_current_records s \<le> 0xFFFFFF \<and>
        s = zero_file_settings\<lparr>rf_type := rf_type s, rf_communication_mode := rf_communication_mode s,
          rf_access_rights_raw := rf_access_rights_raw s, rf_access := rf_access s,
          rf_records_record_size := rf_records_record_size s, rf_records_max_records := rf_records_max_records s,
          rf_records_current_records := rf_records_current_records s\<rparr>)"

lemmas response_codes = DFC_FILE_TYPE_STANDARD_DATA_def DFC_FILE_TYPE_BACKUP_DATA_def DFC_FILE_TYPE_VALUE_def
  DFC_FILE_TYPE_LINEAR_RECORD_def DFC_FILE_TYPE_CYCLIC_RECORD_def DFC_COMM_MODE_MASK_def DFC_COMM_PLAIN_def
  DFC_COMM_MAC_def DFC_COMM_ENCIPHERED_def

lemma low_bits: "(x :: u8) AND NOT 3 = 0 \<longleftrightarrow> x \<le> 3"
proof
  assume *: "x AND NOT 3 = 0"
  have "x AND 3 = x"
  proof (rule bit_word_eqI)
    fix n assume "n < LENGTH(8)"
    moreover have "\<not> bit (x AND NOT 3) n" by (subst *) simp
    ultimately show "bit (x AND 3) n \<longleftrightarrow> bit x n" unfolding bit_and_iff bit_not_iff by auto
  qed
  then show "x \<le> 3" by (metis word_and_le1)
next
  assume "x \<le> 3"
  then have "unat x \<in> {0, 1, 2, 3}" by (auto simp: word_le_nat_alt)
  then have "x \<in> {0, 1, 2, 3}" by (auto simp: word_unat_eq_iff)
  then show "x AND NOT 3 = 0" by auto
qed

lemma mode_ok: "(x :: u8) AND NOT 3 = 0 \<and> (x AND 3 = 0 \<or> x AND 3 = 1 \<or> x AND 3 = 3) \<longleftrightarrow> x \<in> {0, 1, 3}"
proof
  assume *: "x AND NOT 3 = 0 \<and> (x AND 3 = 0 \<or> x AND 3 = 1 \<or> x AND 3 = 3)"
  then have "x \<le> 3" unfolding low_bits by blast
  then have "unat x \<in> {0, 1, 2, 3}" by (auto simp: word_le_nat_alt)
  then have "x \<in> {0, 1, 2, 3}" by (auto simp: word_unat_eq_iff)
  then show "x \<in> {0, 1, 3}" using * by auto
qed auto

lemma list_of_length:
  "length xs = 7 \<Longrightarrow> \<exists>a b c d e f g. xs = [a, b, c, d, e, f, g]"
  "length xs = 13 \<Longrightarrow> \<exists>a b c d e f g h i j k l m. xs = [a, b, c, d, e, f, g, h, i, j, k, l, m]"
  "length xs = 17 \<Longrightarrow> \<exists>a b c d e f g h i j k l m n p q r. xs = [a, b, c, d, e, f, g, h, i, j, k, l, m, n, p, q, r]"
  by (auto simp: length_Suc_conv numeral_eq_Suc)

lemma low_bits' [simp]: "(x :: u8) AND - 4 = 0 \<longleftrightarrow> x \<le> 3"
  using low_bits [of x] by simp

text \<open>The tail of the decoder, reached by a known type of the right length and a known mode.\<close>

definition settings_head :: "bytes \<Rightarrow> DfcResponseFileSettings" where
  "settings_head r = zero_file_settings\<lparr>rf_type := r ! 0, rf_communication_mode := r ! 1,
     rf_access_rights_raw := ucast (r ! 2) OR push_bit 8 (ucast (r ! 3)),
     rf_access := decode_access_rights (ucast (r ! 2) OR push_bit 8 (ucast (r ! 3)))\<rparr>"

lemma settings_length_cases:
  "file_settings_length ty = Some n \<longleftrightarrow>
    (ty = 0 \<or> ty = 1) \<and> n = 7 \<or> ty = 2 \<and> n = 17 \<or> (ty = 3 \<or> ty = 4) \<and> n = 13"
  by (auto simp: file_settings_length_def response_codes)

lemma decode_file_settings_tail:
  assumes n: "file_settings_length (r ! 0) = Some (length r)" and mode: "r ! 1 \<in> {0, 1, 3}"
  shows "dfc_response_decode_file_settings (Some r) (length r) =
    (if r ! 0 = 0 \<or> r ! 0 = 1 then (DfcResponseDecodeOk, (settings_head r)\<lparr>rf_data_size := read_u24_le (drop 4 r)\<rparr>)
     else if r ! 0 = 2 then
       if r ! 16 \<le> 3
       then (DfcResponseDecodeOk, (settings_head r)\<lparr>rf_value_lower_limit := read_i32_le (drop 4 r),
         rf_value_upper_limit := read_i32_le (drop 8 r), rf_value_limited_credit_value := read_i32_le (drop 12 r),
         rf_value_limited_credit_options := r ! 16, rf_value_limited_credit_enabled := (r ! 16 AND 0x01 \<noteq> 0)\<rparr>)
       else (DfcResponseDecodeUnsupported, zero_file_settings)
     else (DfcResponseDecodeOk, (settings_head r)\<lparr>rf_records_record_size := read_u24_le (drop 4 r),
       rf_records_max_records := read_u24_le (drop 7 r), rf_records_current_records := read_u24_le (drop 10 r)\<rparr>))"
proof -
  have c: "\<not> (\<not> input_is_valid (Some r) (length r) \<or> length r < 4)"
    using n by (auto simp: input_is_valid_def settings_length_cases)
  have m: "\<not> r ! 1 AND NOT DFC_COMM_MODE_MASK \<noteq> 0" "r ! 1 AND DFC_COMM_MODE_MASK = r ! 1"
    "\<not> (r ! 1 \<noteq> DFC_COMM_PLAIN \<and> r ! 1 \<noteq> DFC_COMM_MAC \<and> r ! 1 \<noteq> DFC_COMM_ENCIPHERED)"
    using mode by (auto simp: response_codes)
  have l: "\<not> length r \<noteq> length r" by simp
  show ?thesis
    unfolding dfc_response_decode_file_settings_def if_not_P [OF c] Let_def option.sel n option.case if_not_P [OF m(1)]
      if_not_P [OF l] m(2) if_not_P [OF m(3)] settings_head_def [symmetric]
    by (simp add: response_codes)
qed

lemma decode_file_settings_reaches:
  assumes "fst (dfc_response_decode_file_settings (Some r) (length r)) = DfcResponseDecodeOk"
  shows "file_settings_length (r ! 0) = Some (length r)" "r ! 1 \<in> {0, 1, 3}"
proof -
  have "file_settings_length (r ! 0) \<noteq> None"
  proof
    assume none: "file_settings_length (r ! 0) = None"
    show False using assms unfolding dfc_response_decode_file_settings_def Let_def option.sel none option.case
      by (simp split: if_splits)
  qed
  then obtain n where n: "file_settings_length (r ! 0) = Some n" by blast
  have c: "\<not> (\<not> input_is_valid (Some r) (length r) \<or> length r < 4)"
    using assms by (rule_tac notI) (simp add: dfc_response_decode_file_settings_def)
  note dec = assms [unfolded dfc_response_decode_file_settings_def if_not_P [OF c] Let_def option.sel n option.case]
  have ok: "\<not> r ! 1 AND NOT DFC_COMM_MODE_MASK \<noteq> 0" using dec by (rule_tac notI) (simp only: if_True if_P fst_conv, simp)
  note dec = dec [unfolded if_not_P [OF ok]]
  have l: "\<not> length r \<noteq> n" using dec by (rule_tac notI) (simp only: if_P fst_conv, simp)
  note dec = dec [unfolded if_not_P [OF l]]
  have "\<not> (r ! 1 AND DFC_COMM_MODE_MASK \<noteq> DFC_COMM_PLAIN \<and> r ! 1 AND DFC_COMM_MODE_MASK \<noteq> DFC_COMM_MAC \<and>
      r ! 1 AND DFC_COMM_MODE_MASK \<noteq> DFC_COMM_ENCIPHERED)"
    using dec by (rule_tac notI) (simp only: if_P fst_conv, simp)
  then show "r ! 1 \<in> {0, 1, 3}" using ok mode_ok [of "r ! 1"] unfolding response_codes by blast
  show "file_settings_length (r ! 0) = Some (length r)" using n l by simp
qed

lemma settings_head_ok:
  "rf_type (settings_head r) = r ! 0" "rf_communication_mode (settings_head r) = r ! 1"
  "rf_access_rights_raw (settings_head r) = ucast (r ! 2) OR push_bit 8 (ucast (r ! 3))"
  "rf_access (settings_head r) = decode_access_rights (ucast (r ! 2) OR push_bit 8 (ucast (r ! 3)))"
  "\<not> rf_sdm_enabled (settings_head r)"
  by (simp_all add: settings_head_def zero_file_settings_def)

lemma decode_file_settings_sound:
  assumes dec: "dfc_response_decode_file_settings (Some r) (length r) = (DfcResponseDecodeOk, s)"
  shows "file_settings_ok s \<and> r = encode_file_settings s"
proof -
  have reach: "file_settings_length (r ! 0) = Some (length r)" "r ! 1 \<in> {0, 1, 3}"
    using decode_file_settings_reaches [of r] dec by simp_all
  note tail = decode_file_settings_tail [OF reach, unfolded dec]
  consider (data) "r ! 0 = 0 \<or> r ! 0 = 1" "length r = 7" | (val) "r ! 0 = 2" "length r = 17" | (recs) "r ! 0 = 3 \<or> r ! 0 = 4" "length r = 13"
    using reach(1) by (auto simp: settings_length_cases)
  then show ?thesis
  proof cases
    case data
    then obtain a b c d e f g where r: "r = [a, b, c, d, e, f, g]" using list_of_length(1) [OF data(2)] by blast
    have s: "s = (settings_head r)\<lparr>rf_data_size := read_u24_le (drop 4 r)\<rparr>" using tail data(1) by simp
    have "file_settings_ok s" unfolding s file_settings_ok_def
      using data(1) reach(2) by (auto simp: settings_head_ok read_u24_bound) (simp_all add: settings_head_def)
    then show ?thesis unfolding s encode_file_settings_def using data(1)
      by (simp add: settings_head_ok) (simp add: r le16_read le24_read)
  next
    case val
    then obtain a b c d e f g h i j k l m n' p q x where r: "r = [a, b, c, d, e, f, g, h, i, j, k, l, m, n', p, q, x]"
      using list_of_length(3) [OF val(2)] by blast
    have s: "s = (settings_head r)\<lparr>rf_value_lower_limit := read_i32_le (drop 4 r),
         rf_value_upper_limit := read_i32_le (drop 8 r), rf_value_limited_credit_value := read_i32_le (drop 12 r),
         rf_value_limited_credit_options := r ! 16, rf_value_limited_credit_enabled := (r ! 16 AND 0x01 \<noteq> 0)\<rparr>"
      and opt: "r ! 16 \<le> 3"
      using tail val(1) by (auto split: if_splits)
    have "file_settings_ok s" unfolding s file_settings_ok_def
      using val(1) reach(2) opt by (auto simp: settings_head_ok) (simp_all add: settings_head_def)
    then show ?thesis unfolding s encode_file_settings_def using val(1)
      by (simp add: settings_head_ok) (simp add: r le16_read le32_read)
  next
    case recs
    then obtain a b c d e f g h i j k l m where r: "r = [a, b, c, d, e, f, g, h, i, j, k, l, m]" using list_of_length(2) [OF recs(2)] by blast
    have s: "s = (settings_head r)\<lparr>rf_records_record_size := read_u24_le (drop 4 r),
       rf_records_max_records := read_u24_le (drop 7 r), rf_records_current_records := read_u24_le (drop 10 r)\<rparr>"
      using tail recs(1) by auto
    have nt: "\<not> (r ! 0 = 0 \<or> r ! 0 = 1)" "r ! 0 \<noteq> 2" using recs(1) by auto
    have "file_settings_ok s" unfolding s file_settings_ok_def
      using recs(1) reach(2) nt by (simp add: settings_head_ok read_u24_bound) (simp add: settings_head_def)
    with nt show ?thesis unfolding s encode_file_settings_def
      by (simp add: settings_head_ok) (simp add: r le16_read le24_read)
  qed
qed

lemma decode_file_settings_complete:
  assumes "file_settings_ok s"
  shows "dfc_response_decode_file_settings (Some (encode_file_settings s)) (length (encode_file_settings s)) =
    (DfcResponseDecodeOk, s)"
proof -
  define r where "r = encode_file_settings s"
  obtain p where e: "r = rf_type s # rf_communication_mode s # ucast (rf_access_rights_raw s) #
      ucast (drop_bit 8 (rf_access_rights_raw s)) # p"
    and p: "p = (if rf_type s = 0 \<or> rf_type s = 1 then le24 (rf_data_size s)
      else if rf_type s = 2
      then le32 (rf_value_lower_limit s) @ le32 (rf_value_upper_limit s) @ le32 (rf_value_limited_credit_value s) @
        [rf_value_limited_credit_options s]
      else le24 (rf_records_record_size s) @ le24 (rf_records_max_records s) @ le24 (rf_records_current_records s))"
    by (simp add: r_def encode_file_settings_def le16_def)
  have nths: "r ! 0 = rf_type s" "r ! 1 = rf_communication_mode s" "drop 4 r = p" "drop 8 r = drop 4 p" "drop 12 r = drop 8 p"
    "drop 7 r = drop 3 p" "drop 10 r = drop 6 p" "r ! 16 = p ! 12" "length r = 4 + length p"
    by (simp_all add: e drop_Cons')
  have reach: "file_settings_length (r ! 0) = Some (length r)" "r ! 1 \<in> {0, 1, 3}"
    using assms unfolding nths p by (auto simp: file_settings_ok_def settings_length_cases)
  have head: "settings_head r = zero_file_settings\<lparr>rf_type := rf_type s, rf_communication_mode := rf_communication_mode s,
      rf_access_rights_raw := rf_access_rights_raw s, rf_access := rf_access s\<rparr>"
    using assms by (simp add: settings_head_def e file_settings_ok_def)
  note tail = decode_file_settings_tail [OF reach, unfolded nths(1,3-8) head]
  consider (data) "rf_type s = 0 \<or> rf_type s = 1" | (val) "rf_type s = 2" | (recs) "rf_type s = 3 \<or> rf_type s = 4"
    using assms by (auto simp: file_settings_ok_def)
  then have "dfc_response_decode_file_settings (Some r) (length r) = (DfcResponseDecodeOk, s)"
  proof cases
    case data
    then have "read_u24_le p = rf_data_size s"
      using assms p read_le24 [of "rf_data_size s" "[]"] by (auto simp: file_settings_ok_def)
    moreover have "s = zero_file_settings\<lparr>rf_type := rf_type s, rf_communication_mode := rf_communication_mode s,
        rf_access_rights_raw := rf_access_rights_raw s, rf_access := rf_access s, rf_data_size := rf_data_size s\<rparr>"
      using assms data unfolding file_settings_ok_def by argo
    ultimately show ?thesis unfolding tail if_P [OF data] by metis
  next
    case val
    let ?x = "le32 (rf_value_lower_limit s)" and ?y = "le32 (rf_value_upper_limit s)" and ?z = "le32 (rf_value_limited_credit_value s)"
    have p': "p = ?x @ ?y @ ?z @ [rf_value_limited_credit_options s]" using val p by simp
    have pr: "read_i32_le p = rf_value_lower_limit s" "read_i32_le (drop 4 p) = rf_value_upper_limit s"
      "read_i32_le (drop 8 p) = rf_value_limited_credit_value s" "p ! 12 = rf_value_limited_credit_options s"
      by (simp_all add: p' nth_append)
    have ok: "rf_value_limited_credit_options s \<le> 3" "\<not> (rf_type s = 0 \<or> rf_type s = 1)"
      "rf_value_limited_credit_enabled s = (rf_value_limited_credit_options s AND 1 \<noteq> 0)"
      using assms val by (simp_all add: file_settings_ok_def)
    have "s = zero_file_settings\<lparr>rf_type := rf_type s, rf_communication_mode := rf_communication_mode s,
        rf_access_rights_raw := rf_access_rights_raw s, rf_access := rf_access s,
        rf_value_lower_limit := rf_value_lower_limit s, rf_value_upper_limit := rf_value_upper_limit s,
        rf_value_limited_credit_value := rf_value_limited_credit_value s,
        rf_value_limited_credit_options := rf_value_limited_credit_options s,
        rf_value_limited_credit_enabled := rf_value_limited_credit_enabled s\<rparr>"
      using assms val ok(2) unfolding file_settings_ok_def by argo
    then show ?thesis unfolding tail if_not_P [OF ok(2)] if_P [OF val] pr if_P [OF ok(1)] ok(3) [symmetric] by metis
  next
    case recs
    let ?x = "le24 (rf_records_record_size s)" and ?y = "le24 (rf_records_max_records s)" and ?z = "le24 (rf_records_current_records s)"
    have p': "p = ?x @ ?y @ ?z @ []" and nt: "\<not> (rf_type s = 0 \<or> rf_type s = 1)" "\<not> rf_type s = 2" using recs p by auto
    have "rf_records_record_size s \<le> 0xFFFFFF" "rf_records_max_records s \<le> 0xFFFFFF" "rf_records_current_records s \<le> 0xFFFFFF"
      using assms nt by (simp_all add: file_settings_ok_def)
    then have pr: "read_u24_le p = rf_records_record_size s" "read_u24_le (drop 3 p) = rf_records_max_records s"
      "read_u24_le (drop 6 p) = rf_records_current_records s"
      unfolding p' by (simp_all del: append_Nil2)
    have "s = zero_file_settings\<lparr>rf_type := rf_type s, rf_communication_mode := rf_communication_mode s,
        rf_access_rights_raw := rf_access_rights_raw s, rf_access := rf_access s,
        rf_records_record_size := rf_records_record_size s, rf_records_max_records := rf_records_max_records s,
        rf_records_current_records := rf_records_current_records s\<rparr>"
      using assms nt unfolding file_settings_ok_def by argo
    then show ?thesis unfolding tail if_not_P [OF nt(1)] if_not_P [OF nt(2)] pr by metis
  qed
  then show ?thesis unfolding r_def .
qed

lemma decode_aid_loop_correct:
  "k \<le> n \<Longrightarrow> 3 * n \<le> length aids \<Longrightarrow> 3 * n \<le> length (source_octets response aids) \<Longrightarrow>
    length (decode_aid_loop response aids [k..<n]) = length aids \<and>
    (\<forall>p. p < 3 * k \<or> 3 * n \<le> p \<longrightarrow> p < length aids \<longrightarrow> decode_aid_loop response aids [k..<n] ! p = aids ! p) \<and>
    (\<forall>i. k \<le> i \<and> i < n \<longrightarrow> mem_read (3 * i) 3 (decode_aid_loop response aids [k..<n]) =
       rev (mem_read (3 * i) 3 (source_octets response aids)))"
proof (induction "n - k" arbitrary: k aids)
  case 0
  then show ?case by auto
next
  case (Suc d)
  let ?src = "source_octets response aids"
  let ?w = "[?src ! (3 * k + 2), ?src ! (3 * k + 1), ?src ! (3 * k)]"
  define a where "a = mem_write (3 * k) ?w aids"
  have k: "k < n" "3 * k + 3 \<le> 3 * n" using Suc.hyps(2) by auto
  have la: "length a = length aids" using k Suc.prems by (simp add: a_def)
  have ls: "length (source_octets response a) = length ?src" using la by (cases response) auto
  have same: "source_octets response a ! p = ?src ! p" if "3 * k + 3 \<le> p" "p < length ?src" for p
    using that k Suc.prems by (cases response) (auto simp: a_def nth_mem_write)
  have step: "decode_aid_loop response aids [k..<n] = decode_aid_loop response a [Suc k..<n]"
    using k Suc.prems by (simp add: upt_conv_Cons Let_def DFC_RESPONSE_AID_LENGTH_def a_def mult.commute add.commute)
  have ih: "length (decode_aid_loop response a [Suc k..<n]) = length a"
    "\<And>p. p < 3 * Suc k \<or> 3 * n \<le> p \<Longrightarrow> p < length a \<Longrightarrow> decode_aid_loop response a [Suc k..<n] ! p = a ! p"
    "\<And>i. Suc k \<le> i \<Longrightarrow> i < n \<Longrightarrow> mem_read (3 * i) 3 (decode_aid_loop response a [Suc k..<n]) =
       rev (mem_read (3 * i) 3 (source_octets response a))"
    using Suc.hyps(1) [of "Suc k" a] Suc.hyps(2) k la ls Suc.prems by auto
  have "mem_read (3 * i) 3 (decode_aid_loop response a [Suc k..<n]) = rev (mem_read (3 * i) 3 ?src)" if "k \<le> i" "i < n" for i
  proof (cases "i = k")
    case True
    have "mem_read (3 * k) 3 (decode_aid_loop response a [Suc k..<n]) = mem_read (3 * k) 3 a"
      using k Suc.prems by (intro mem_read_cong) (auto simp: ih(1,2) la)
    also have "\<dots> = ?w" using mem_read_write_same [of "3 * k" ?w aids] k Suc.prems by (simp add: a_def numeral_3_eq_3)
    also have "\<dots> = rev (mem_read (3 * k) 3 ?src)"
      using k Suc.prems by (auto intro!: nth_equalityI simp: rev_nth less_Suc_eq numeral_eq_Suc)
    finally show ?thesis using True by simp
  next
    case False
    then have "mem_read (3 * i) 3 (source_octets response a) = mem_read (3 * i) 3 ?src"
      using that Suc.prems(3) by (intro mem_read_cong) (auto simp: ls same)
    then show ?thesis using ih(3) [of i] that False by simp
  qed
  moreover have "decode_aid_loop response a [Suc k..<n] ! p = aids ! p" if "p < 3 * k \<or> 3 * n \<le> p" "p < length aids" for p
    using ih(2) [of p] that k Suc.prems by (auto simp: la a_def nth_mem_write)
  ultimately show ?case unfolding step using ih(1) la by auto
qed

subsection \<open>Properties\<close>


text \<open>
  Every decoder that does not answer ok leaves the caller's structure zeroed, whatever
  the response holds.
\<close>

theorem dfc_response_failures_zero:
  "(fst (dfc_response_decode_file_settings r n) = DfcResponseDecodeOk \<or>
      snd (dfc_response_decode_file_settings r n) = zero_file_settings) \<and>
   (fst (dfc_response_decode_key_settings r n) = DfcResponseDecodeOk \<or>
      snd (dfc_response_decode_key_settings r n) = zero_key_settings) \<and>
   (fst (dfc_response_decode_version r n) = DfcResponseDecodeOk \<or> snd (dfc_response_decode_version r n) = zero_version) \<and>
   (fst (dfc_response_decode_key_version r n) = DfcResponseDecodeOk \<or> snd (dfc_response_decode_key_version r n) = 0)"
proof (intro conjI)
  show "fst (dfc_response_decode_file_settings r n) = DfcResponseDecodeOk \<or>
      snd (dfc_response_decode_file_settings r n) = zero_file_settings"
    unfolding dfc_response_decode_file_settings_def Let_def by (cases "file_settings_length (the r ! 0)") simp_all
  show "fst (dfc_response_decode_key_settings r n) = DfcResponseDecodeOk \<or>
      snd (dfc_response_decode_key_settings r n) = zero_key_settings"
    unfolding dfc_response_decode_key_settings_def Let_def by simp
  show "fst (dfc_response_decode_version r n) = DfcResponseDecodeOk \<or> snd (dfc_response_decode_version r n) = zero_version"
    unfolding dfc_response_decode_version_def Let_def by simp
  show "fst (dfc_response_decode_key_version r n) = DfcResponseDecodeOk \<or> snd (dfc_response_decode_key_version r n) = 0"
    unfolding dfc_response_decode_key_version_def by simp
qed

lemma decode_application_ids_effect:
  assumes "length aids = 3 * cap" "n \<le> cap" "3 * n \<le> length (source_octets response aids)"
  shows "\<exists>out. dfc_response_decode_application_ids response (3 * n) (Some aids) cap = (DfcResponseDecodeOk, Some out, n) \<and>
    length out = length aids \<and> drop (3 * n) out = drop (3 * n) aids \<and>
    (\<forall>i < n. mem_read (3 * i) 3 out = rev (mem_read (3 * i) 3 (source_octets response aids)))"
proof -
  let ?out = "decode_aid_loop response aids [0..<n]"
  have "response = ResponseNull \<Longrightarrow> n = 0" using assms(3) by simp
  then have "dfc_response_decode_application_ids response (3 * n) (Some aids) cap = (DfcResponseDecodeOk, Some ?out, n)"
    using assms(2) by (auto simp: dfc_response_decode_application_ids_def DFC_RESPONSE_AID_LENGTH_def)
  moreover have loop: "length ?out = length aids" "\<And>p. 3 * n \<le> p \<Longrightarrow> p < length aids \<Longrightarrow> ?out ! p = aids ! p"
    "\<And>i. i < n \<Longrightarrow> mem_read (3 * i) 3 ?out = rev (mem_read (3 * i) 3 (source_octets response aids))"
    using decode_aid_loop_correct [of 0 n aids response] assms by auto
  moreover have "drop (3 * n) ?out = drop (3 * n) aids" using loop(1,2) by (intro nth_equalityI) auto
  ultimately show ?thesis by blast
qed

text \<open>
  The identifiers are returned in human-readable order, each one the reverse of its three
  wire octets, in the order of the response; octets behind them are untouched. This holds when
  the response lies in a buffer of its own and when it is decoded in place.
\<close>

theorem dfc_response_decode_application_ids_correct:
  assumes "length aids = 3 * cap" "n \<le> cap" "3 * n \<le> length (source_octets response aids)"
  shows "\<exists>out. dfc_response_decode_application_ids response (3 * n) (Some aids) cap = (DfcResponseDecodeOk, Some out, n) \<and>
    length out = length aids \<and> drop (3 * n) out = drop (3 * n) aids \<and>
    (\<forall>i < n. mem_read (3 * i) 3 out = rev (mem_read (3 * i) 3 (source_octets response aids)))"
  using assms by (rule decode_application_ids_effect)

theorem dfc_response_decode_application_ids_correct_witness:
  "\<exists>out. dfc_response_decode_application_ids ResponseShared 6 (Some [1, 2, 3, 4, 5, 6, 7, 8, 9]) 3 =
      (DfcResponseDecodeOk, Some out, 2) \<and>
    length out = 9 \<and> drop 6 out = [7, 8, 9] \<and> mem_read 3 3 out = [6, 5, 4]"
  using dfc_response_decode_application_ids_correct [of "[1, 2, 3, 4, 5, 6, 7, 8, 9]" 3 2 ResponseShared]
  by (auto simp: mem_read_def dest!: spec [of _ 1])

end
