(* ===== verification/Dfc_Command.thy ===== *)
theory Dfc_Command
  imports Dfc_Response
begin

text \<open>
  The reader-side encoder of native commands, \<^verbatim>\<open>src/dfc_command.c\<close>: the append-only
  builder with its sticky overflow, one function per command and the two framings of a command.
  A command pointer that may not be NULL is the command itself; a pointer that may be NULL is an
  option, with the announced length beside it. An encoder returns its status and the command as
  the call leaves it. The 32-bit signed amounts are words compared by \<^term>\<open>sint\<close>.
\<close>

subsection \<open>Constants and data\<close>

definition KEY_SET_VERSION_SELECTOR :: u8 where "KEY_SET_VERSION_SELECTOR = 0x40"
definition KEY_SET_VERSION_OPTION :: u8 where "KEY_SET_VERSION_OPTION = 0x80"
definition EXTENDED_SETTINGS_MAX :: u8 where "EXTENDED_SETTINGS_MAX = 0x1F"
definition KEY_SET_COUNT_MIN :: u8 where "KEY_SET_COUNT_MIN = 0x02"
definition KEY_SET_COUNT_MAX :: u8 where "KEY_SET_COUNT_MAX = 0x10"
definition KEY_SET_ROLL_KEY_MAX :: u8 where "KEY_SET_ROLL_KEY_MAX = 0x0D"
definition FILE_HEADER_LENGTH :: size_t where "FILE_HEADER_LENGTH = 7"
definition DFC_KS2_ISO_FILE_IDS :: u8 where "DFC_KS2_ISO_FILE_IDS = 0x20"
definition DFC_KS2_EXTENDED_SETTINGS :: u8 where "DFC_KS2_EXTENDED_SETTINGS = 0x10"
definition DFC_EXTENDED_SETTINGS_KEY_SETS :: u8 where "DFC_EXTENDED_SETTINGS_KEY_SETS = 0x01"
definition DFC_COMMAND_MAX_DATA :: size_t where "DFC_COMMAND_MAX_DATA = 255"
definition DFC_COMMAND_APDU_OVERHEAD :: size_t where "DFC_COMMAND_APDU_OVERHEAD = 6"
definition DFC_COMMAND_AID_LENGTH :: size_t where "DFC_COMMAND_AID_LENGTH = 3"
definition DFC_COMMAND_DF_NAME_MAX_LENGTH :: size_t where "DFC_COMMAND_DF_NAME_MAX_LENGTH = 16"
definition DFC_COMMAND_READER_ID_LENGTH :: size_t where "DFC_COMMAND_READER_ID_LENGTH = 16"
definition DFC_COMMAND_TMAC_KEY_LENGTH :: size_t where "DFC_COMMAND_TMAC_KEY_LENGTH = 16"
definition DFC_COMMAND_EV2_CAPABILITY_LENGTH :: size_t where "DFC_COMMAND_EV2_CAPABILITY_LENGTH = 6"
definition DFC_COMMAND_UINT24_MAX :: u32 where "DFC_COMMAND_UINT24_MAX = 0xFFFFFF"
definition DFC_COMMAND_MAX_FILE_NUMBER :: u8 where "DFC_COMMAND_MAX_FILE_NUMBER = 31"

lemmas command_constants =
  DFC_COMMAND_MAX_DATA_def DFC_COMMAND_APDU_OVERHEAD_def DFC_COMMAND_AID_LENGTH_def
  DFC_COMMAND_READER_ID_LENGTH_def DFC_COMMAND_TMAC_KEY_LENGTH_def DFC_COMMAND_EV2_CAPABILITY_LENGTH_def
  DFC_COMMAND_DF_NAME_MAX_LENGTH_def FILE_HEADER_LENGTH_def

datatype DfcCommandStatus = DfcCommandOk | DfcCommandInvalid | DfcCommandTooLong

record DfcCommand =
  cmd_ins :: u8
  cmd_data :: bytes
  cmd_data_len :: size_t

record DfcCommandCreateApplication =
  ca_aid :: bytes
  ca_key_settings_1 :: u8
  ca_key_settings_2 :: u8
  ca_has_iso_file_id :: bool
  ca_iso_file_id :: u16
  ca_df_name :: "bytes option"
  ca_df_name_len :: size_t
  ca_has_extended_settings :: bool
  ca_extended_settings :: u8
  ca_has_key_sets :: bool
  ca_key_set_version :: u8
  ca_key_set_count :: u8
  ca_key_set_max_key_size :: u8
  ca_key_set_roll_key_no :: u8

record DfcCommandCreateDelegatedApplication =
  cda_aid :: bytes
  cda_slot_number :: u16
  cda_slot_version :: u8
  cda_quota_limit :: u16
  cda_key_settings_1 :: u8
  cda_key_settings_2 :: u8

record DfcCommandDataFile =
  cdf_file_no :: u8
  cdf_has_iso_file_id :: bool
  cdf_iso_file_id :: u16
  cdf_comm_settings :: u8
  cdf_access_rights :: u16
  cdf_size :: u32

record DfcCommandRecordFile =
  crf_file_no :: u8
  crf_has_iso_file_id :: bool
  crf_iso_file_id :: u16
  crf_comm_settings :: u8
  crf_access_rights :: u16
  crf_record_size :: u32
  crf_max_records :: u32
  crf_cyclic :: bool

record DfcCommandValueFile =
  cvf_file_no :: u8
  cvf_comm_settings :: u8
  cvf_access_rights :: u16
  cvf_lower_limit :: u32
  cvf_upper_limit :: u32
  cvf_value :: u32
  cvf_limited_credit :: u8

record DfcCommandTransactionMacFile =
  ctf_file_no :: u8
  ctf_comm_settings :: u8
  ctf_access_rights :: u16
  ctf_key_type :: u8
  ctf_key :: bytes
  ctf_key_version :: u8

subsection \<open>The builder\<close>

record Builder =
  b_command :: DfcCommand
  b_overflow :: bool

definition builder_start :: "DfcCommand \<Rightarrow> u8 \<Rightarrow> Builder" where
  "builder_start c ins = \<lparr>b_command = c\<lparr>cmd_ins := ins, cmd_data_len := 0\<rparr>, b_overflow = False\<rparr>"

definition put :: "Builder \<Rightarrow> bytes option \<Rightarrow> size_t \<Rightarrow> Builder" where
  "put b p n =
     (let c = b_command b in
      if b_overflow b \<or> n > DFC_COMMAND_MAX_DATA - cmd_data_len c then b\<lparr>b_overflow := True\<rparr>
      else
        let c' = (if n \<noteq> 0 then c\<lparr>cmd_data := mem_write (cmd_data_len c) (take n (the p)) (cmd_data c)\<rparr> else c)
        in b\<lparr>b_command := c'\<lparr>cmd_data_len := cmd_data_len c + n\<rparr>\<rparr>)"

definition put_byte :: "Builder \<Rightarrow> u8 \<Rightarrow> Builder" where
  "put_byte b v = put b (Some [v]) 1"

definition put_u16 :: "Builder \<Rightarrow> u16 \<Rightarrow> Builder" where
  "put_u16 b v = (let b = put_byte b (ucast v) in put_byte b (ucast (drop_bit 8 v)))"

definition put_u24 :: "Builder \<Rightarrow> u32 \<Rightarrow> Builder" where
  "put_u24 b v =
     (let b = put_byte b (ucast v);
          b = put_byte b (ucast (drop_bit 8 v))
      in put_byte b (ucast (drop_bit 16 v)))"

definition put_i32 :: "Builder \<Rightarrow> u32 \<Rightarrow> Builder" where
  "put_i32 b v =
     (let b = put_byte b (ucast v);
          b = put_byte b (ucast (drop_bit 8 v));
          b = put_byte b (ucast (drop_bit 16 v))
      in put_byte b (ucast (drop_bit 24 v)))"

text \<open>The status of a finished builder, with the command it has filled.\<close>

definition builder_finish :: "Builder \<Rightarrow> DfcCommandStatus \<times> DfcCommand" where
  "builder_finish b = (if b_overflow b then DfcCommandTooLong else DfcCommandOk, b_command b)"

definition simple :: "DfcCommand \<Rightarrow> u8 \<Rightarrow> DfcCommandStatus \<times> DfcCommand" where
  "simple c ins = builder_finish (builder_start c ins)"

definition with_byte :: "DfcCommand \<Rightarrow> u8 \<Rightarrow> u8 \<Rightarrow> DfcCommandStatus \<times> DfcCommand" where
  "with_byte c ins v = builder_finish (put_byte (builder_start c ins) v)"

definition with_bytes :: "DfcCommand \<Rightarrow> u8 \<Rightarrow> bytes option \<Rightarrow> size_t \<Rightarrow> DfcCommandStatus \<times> DfcCommand" where
  "with_bytes c ins p n =
     (if p = None \<and> n \<noteq> 0 then (DfcCommandInvalid, c)
      else builder_finish (put (builder_start c ins) p n))"

fun dfc_command_status_name :: "DfcCommandStatus \<Rightarrow> string" where
  "dfc_command_status_name DfcCommandOk = ''ok''"
| "dfc_command_status_name DfcCommandInvalid = ''invalid''"
| "dfc_command_status_name DfcCommandTooLong = ''too long''"

definition dfc_command_encode_raw :: "DfcCommand \<Rightarrow> u8 \<Rightarrow> bytes option \<Rightarrow> size_t \<Rightarrow> DfcCommandStatus \<times> DfcCommand" where
  "dfc_command_encode_raw c ins p n = with_bytes c ins p n"

subsection \<open>Framing\<close>

text \<open>Status, output buffer and reported length; the last two are untouched by a refusal.\<close>

definition dfc_command_to_apdu :: "DfcCommand \<Rightarrow> bytes \<Rightarrow> size_t \<Rightarrow> size_t \<Rightarrow> DfcCommandStatus \<times> bytes \<times> size_t" where
  "dfc_command_to_apdu c out cap len =
     (if cmd_data_len c > DFC_COMMAND_MAX_DATA then (DfcCommandInvalid, out, len)
      else
        let n = cmd_data_len c; needed = (if n \<noteq> 0 then n + DFC_COMMAND_APDU_OVERHEAD else 5) in
        if needed > cap then (DfcCommandTooLong, out, len)
        else
          let out = out[0 := DFC_ISO7816_CLA_WRAPPER, 1 := cmd_ins c, 2 := 0x00, 3 := 0x00] in
          if n \<noteq> 0
          then (DfcCommandOk, (mem_write 5 (take n (cmd_data c)) (out[4 := of_nat n]))[5 + n := 0x00], needed)
          else (DfcCommandOk, out[4 := 0x00], needed))"

definition dfc_command_to_frame :: "DfcCommand \<Rightarrow> bytes \<Rightarrow> size_t \<Rightarrow> size_t \<Rightarrow> DfcCommandStatus \<times> bytes \<times> size_t" where
  "dfc_command_to_frame c out cap len =
     (if cmd_data_len c > DFC_COMMAND_MAX_DATA then (DfcCommandInvalid, out, len)
      else if cmd_data_len c + 1 > cap then (DfcCommandTooLong, out, len)
      else
        let n = cmd_data_len c; out = out[0 := cmd_ins c] in
        (DfcCommandOk, if n \<noteq> 0 then mem_write 1 (take n (cmd_data c)) out else out, n + 1))"

subsection \<open>Discovery\<close>

definition dfc_command_select_application :: "DfcCommand \<Rightarrow> bytes option \<Rightarrow> bytes option \<Rightarrow> DfcCommandStatus \<times> DfcCommand" where
  "dfc_command_select_application c aid secondary_aid =
     (case aid of
        None \<Rightarrow> (DfcCommandInvalid, c)
      | Some a \<Rightarrow>
          let b = builder_start c DFC_CMD_SELECT_APPLICATION;
              b = put b (Some [a ! 2, a ! 1, a ! 0]) DFC_COMMAND_AID_LENGTH;
              b = (case secondary_aid of
                     None \<Rightarrow> b
                   | Some s \<Rightarrow> put b (Some [s ! 2, s ! 1, s ! 0]) DFC_COMMAND_AID_LENGTH)
          in builder_finish b)"

definition dfc_command_get_version :: "DfcCommand \<Rightarrow> DfcCommandStatus \<times> DfcCommand" where
  "dfc_command_get_version c = simple c DFC_CMD_GET_VERSION"

definition dfc_command_get_free_memory :: "DfcCommand \<Rightarrow> DfcCommandStatus \<times> DfcCommand" where
  "dfc_command_get_free_memory c = simple c DFC_CMD_FREE_MEM"

definition dfc_command_format_picc :: "DfcCommand \<Rightarrow> DfcCommandStatus \<times> DfcCommand" where
  "dfc_command_format_picc c = simple c DFC_CMD_FORMAT_PICC"

definition dfc_command_get_key_settings :: "DfcCommand \<Rightarrow> DfcCommandStatus \<times> DfcCommand" where
  "dfc_command_get_key_settings c = simple c DFC_CMD_GET_KEY_SETTINGS"

definition dfc_command_get_application_ids :: "DfcCommand \<Rightarrow> DfcCommandStatus \<times> DfcCommand" where
  "dfc_command_get_application_ids c = simple c DFC_CMD_GET_APPLICATION_IDS"

definition dfc_command_get_df_names :: "DfcCommand \<Rightarrow> DfcCommandStatus \<times> DfcCommand" where
  "dfc_command_get_df_names c = simple c DFC_CMD_GET_DF_NAMES"

definition dfc_command_get_file_ids :: "DfcCommand \<Rightarrow> DfcCommandStatus \<times> DfcCommand" where
  "dfc_command_get_file_ids c = simple c DFC_CMD_GET_FILE_IDS"

definition dfc_command_get_iso_file_ids :: "DfcCommand \<Rightarrow> DfcCommandStatus \<times> DfcCommand" where
  "dfc_command_get_iso_file_ids c = simple c DFC_CMD_GET_ISO_FILE_IDS"

definition dfc_command_get_card_uid :: "DfcCommand \<Rightarrow> DfcCommandStatus \<times> DfcCommand" where
  "dfc_command_get_card_uid c = simple c DFC_CMD_GET_CARD_UID"

definition dfc_command_read_signature :: "DfcCommand \<Rightarrow> u8 \<Rightarrow> DfcCommandStatus \<times> DfcCommand" where
  "dfc_command_read_signature c signature_id = with_byte c DFC_CMD_READ_SIGNATURE signature_id"

definition dfc_command_get_key_version :: "DfcCommand \<Rightarrow> u8 \<Rightarrow> DfcCommandStatus \<times> DfcCommand" where
  "dfc_command_get_key_version c key_no = with_byte c DFC_CMD_GET_KEY_VERSION key_no"

definition dfc_command_get_key_set_versions :: "DfcCommand \<Rightarrow> DfcCommandStatus \<times> DfcCommand" where
  "dfc_command_get_key_set_versions c =
     with_bytes c DFC_CMD_GET_KEY_VERSION (Some [KEY_SET_VERSION_SELECTOR, KEY_SET_VERSION_OPTION]) 2"

subsection \<open>Applications\<close>

definition create_application_is_valid :: "DfcCommandCreateApplication \<Rightarrow> bool" where
  "create_application_is_valid app =
     (if ca_df_name_len app \<noteq> 0 \<and> ca_df_name app = None then False
      else if ca_df_name app \<noteq> None \<and> \<not> ca_has_iso_file_id app then False
      else if ca_has_iso_file_id app \<and> dfc_iso_file_id_is_reserved (ca_iso_file_id app) then False
      else if ca_df_name app \<noteq> None \<and> (ca_df_name_len app < 1 \<or> ca_df_name_len app > DFC_COMMAND_DF_NAME_MAX_LENGTH) then False
      else if \<not> ca_has_extended_settings app then \<not> ca_has_key_sets app
      else if ca_extended_settings app > EXTENDED_SETTINGS_MAX then False
      else
        let flagged = (ca_extended_settings app AND DFC_EXTENDED_SETTINGS_KEY_SETS \<noteq> 0) in
        if flagged \<noteq> ca_has_key_sets app then False
        else if \<not> ca_has_key_sets app then True
        else if ca_key_set_count app < KEY_SET_COUNT_MIN \<or> ca_key_set_count app > KEY_SET_COUNT_MAX then False
        else if ca_key_set_roll_key_no app > KEY_SET_ROLL_KEY_MAX then False
        else ca_key_set_max_key_size app = DFC_KEY_SET_MAXIMUM_16_BYTE \<or>
             ca_key_set_max_key_size app = DFC_KEY_SET_MAXIMUM_24_BYTE)"

definition dfc_command_create_application ::
  "DfcCommand \<Rightarrow> DfcCommandCreateApplication option \<Rightarrow> DfcCommandStatus \<times> DfcCommand" where
  "dfc_command_create_application c app_p =
     (case app_p of
        None \<Rightarrow> (DfcCommandInvalid, c)
      | Some app \<Rightarrow>
          if \<not> create_application_is_valid app then (DfcCommandInvalid, c)
          else
            let b = builder_start c DFC_CMD_CREATE_APPLICATION;
                b = put b (Some (ca_aid app)) DFC_COMMAND_AID_LENGTH;
                b = put_byte b (ca_key_settings_1 app);
                ks2 = ca_key_settings_2 app;
                ks2 = (if ca_has_iso_file_id app then ks2 OR DFC_KS2_ISO_FILE_IDS else ks2);
                ks2 = (if ca_has_extended_settings app then ks2 OR DFC_KS2_EXTENDED_SETTINGS else ks2);
                b = put_byte b ks2;
                b = (if ca_has_extended_settings app
                     then
                       let b = put_byte b (ca_extended_settings app) in
                       if ca_has_key_sets app
                       then
                         let b = put_byte b (ca_key_set_version app);
                             b = put_byte b (ca_key_set_count app);
                             b = put_byte b (ca_key_set_max_key_size app)
                         in put_byte b (ca_key_set_roll_key_no app)
                       else b
                     else b);
                b = (if ca_has_iso_file_id app then put_u16 b (ca_iso_file_id app) else b);
                b = (if ca_df_name app \<noteq> None then put b (ca_df_name app) (ca_df_name_len app) else b)
            in builder_finish b)"

definition dfc_command_delete_application :: "DfcCommand \<Rightarrow> bytes option \<Rightarrow> DfcCommandStatus \<times> DfcCommand" where
  "dfc_command_delete_application c aid =
     (if aid = None then (DfcCommandInvalid, c) else with_bytes c DFC_CMD_DELETE_APPLICATION aid DFC_COMMAND_AID_LENGTH)"

definition dfc_command_create_delegated_application ::
  "DfcCommand \<Rightarrow> DfcCommandCreateDelegatedApplication option \<Rightarrow> DfcCommandStatus \<times> DfcCommand" where
  "dfc_command_create_delegated_application c app_p =
     (case app_p of
        None \<Rightarrow> (DfcCommandInvalid, c)
      | Some app \<Rightarrow>
          let b = builder_start c DFC_CMD_CREATE_DELEGATED_APPLICATION;
              b = put b (Some (cda_aid app)) DFC_COMMAND_AID_LENGTH;
              b = put_u16 b (cda_slot_number app);
              b = put_byte b (cda_slot_version app);
              b = put_u16 b (cda_quota_limit app);
              b = put_byte b (cda_key_settings_1 app);
              b = put_byte b (cda_key_settings_2 app)
          in builder_finish b)"

definition dfc_command_get_delegated_application_info :: "DfcCommand \<Rightarrow> u16 \<Rightarrow> DfcCommandStatus \<times> DfcCommand" where
  "dfc_command_get_delegated_application_info c slot_number =
     builder_finish (put_u16 (builder_start c DFC_CMD_GET_DELEGATED_INFO) slot_number)"

subsection \<open>Files\<close>

definition valid_file_number :: "u8 \<Rightarrow> bool" where
  "valid_file_number file_no \<longleftrightarrow> file_no \<le> DFC_COMMAND_MAX_FILE_NUMBER"

definition put_file_head :: "Builder \<Rightarrow> u8 \<Rightarrow> bool \<Rightarrow> u16 \<Rightarrow> u8 \<Rightarrow> u16 \<Rightarrow> Builder" where
  "put_file_head b file_no has_iso_file_id iso_file_id comm_settings access_rights =
     (let b = put_byte b file_no;
          b = (if has_iso_file_id then put_u16 b iso_file_id else b);
          b = put_byte b comm_settings
      in put_u16 b access_rights)"

definition data_file :: "DfcCommand \<Rightarrow> u8 \<Rightarrow> DfcCommandDataFile option \<Rightarrow> DfcCommandStatus \<times> DfcCommand" where
  "data_file c ins file_p =
     (case file_p of
        None \<Rightarrow> (DfcCommandInvalid, c)
      | Some fl \<Rightarrow>
          if \<not> valid_file_number (cdf_file_no fl) \<or> cdf_size fl > DFC_COMMAND_UINT24_MAX then (DfcCommandInvalid, c)
          else if cdf_has_iso_file_id fl \<and> dfc_iso_file_id_is_reserved (cdf_iso_file_id fl) then (DfcCommandInvalid, c)
          else
            let b = builder_start c ins;
                b = put_file_head b (cdf_file_no fl) (cdf_has_iso_file_id fl) (cdf_iso_file_id fl) (cdf_comm_settings fl)
                  (cdf_access_rights fl);
                b = put_u24 b (cdf_size fl)
            in builder_finish b)"

definition dfc_command_create_standard_data_file :: "DfcCommand \<Rightarrow> DfcCommandDataFile option \<Rightarrow> DfcCommandStatus \<times> DfcCommand" where
  "dfc_command_create_standard_data_file c fl = data_file c DFC_CMD_CREATE_STD_DATA_FILE fl"

definition dfc_command_create_backup_data_file :: "DfcCommand \<Rightarrow> DfcCommandDataFile option \<Rightarrow> DfcCommandStatus \<times> DfcCommand" where
  "dfc_command_create_backup_data_file c fl = data_file c DFC_CMD_CREATE_BACKUP_DATA_FILE fl"

definition dfc_command_create_record_file :: "DfcCommand \<Rightarrow> DfcCommandRecordFile option \<Rightarrow> DfcCommandStatus \<times> DfcCommand" where
  "dfc_command_create_record_file c file_p =
     (case file_p of
        None \<Rightarrow> (DfcCommandInvalid, c)
      | Some fl \<Rightarrow>
          if \<not> valid_file_number (crf_file_no fl) then (DfcCommandInvalid, c)
          else if crf_record_size fl = 0 \<or> crf_record_size fl > DFC_COMMAND_UINT24_MAX then (DfcCommandInvalid, c)
          else if crf_max_records fl = 0 \<or> crf_max_records fl > DFC_COMMAND_UINT24_MAX then (DfcCommandInvalid, c)
          else if crf_has_iso_file_id fl \<and> dfc_iso_file_id_is_reserved (crf_iso_file_id fl) then (DfcCommandInvalid, c)
          else
            let b = builder_start c
                  (if crf_cyclic fl then DFC_CMD_CREATE_CYCLIC_RECORD_FILE else DFC_CMD_CREATE_LINEAR_RECORD_FILE);
                b = put_file_head b (crf_file_no fl) (crf_has_iso_file_id fl) (crf_iso_file_id fl) (crf_comm_settings fl)
                  (crf_access_rights fl);
                b = put_u24 b (crf_record_size fl);
                b = put_u24 b (crf_max_records fl)
            in builder_finish b)"

definition dfc_command_create_value_file :: "DfcCommand \<Rightarrow> DfcCommandValueFile option \<Rightarrow> DfcCommandStatus \<times> DfcCommand" where
  "dfc_command_create_value_file c file_p =
     (case file_p of
        None \<Rightarrow> (DfcCommandInvalid, c)
      | Some fl \<Rightarrow>
          if \<not> valid_file_number (cvf_file_no fl) then (DfcCommandInvalid, c)
          else if sint (cvf_lower_limit fl) > sint (cvf_upper_limit fl) \<or> sint (cvf_value fl) < sint (cvf_lower_limit fl) \<or>
            sint (cvf_value fl) > sint (cvf_upper_limit fl) then (DfcCommandInvalid, c)
          else
            let b = builder_start c DFC_CMD_CREATE_VALUE_FILE;
                b = put_file_head b (cvf_file_no fl) False 0 (cvf_comm_settings fl) (cvf_access_rights fl);
                b = put_i32 b (cvf_lower_limit fl);
                b = put_i32 b (cvf_upper_limit fl);
                b = put_i32 b (cvf_value fl);
                b = put_byte b (cvf_limited_credit fl)
            in builder_finish b)"

definition dfc_command_create_transaction_mac_file ::
  "DfcCommand \<Rightarrow> DfcCommandTransactionMacFile option \<Rightarrow> DfcCommandStatus \<times> DfcCommand" where
  "dfc_command_create_transaction_mac_file c file_p =
     (case file_p of
        None \<Rightarrow> (DfcCommandInvalid, c)
      | Some fl \<Rightarrow>
          if \<not> valid_file_number (ctf_file_no fl) then (DfcCommandInvalid, c)
          else
            let b = builder_start c DFC_CMD_CREATE_TRANSACTION_MAC_FILE;
                b = put_file_head b (ctf_file_no fl) False 0 (ctf_comm_settings fl) (ctf_access_rights fl);
                b = put_byte b (ctf_key_type fl);
                b = put b (Some (ctf_key fl)) DFC_COMMAND_TMAC_KEY_LENGTH;
                b = put_byte b (ctf_key_version fl)
            in builder_finish b)"

definition dfc_command_delete_file :: "DfcCommand \<Rightarrow> u8 \<Rightarrow> DfcCommandStatus \<times> DfcCommand" where
  "dfc_command_delete_file c file_no =
     (if \<not> valid_file_number file_no then (DfcCommandInvalid, c) else with_byte c DFC_CMD_DELETE_FILE file_no)"

definition dfc_command_get_file_settings :: "DfcCommand \<Rightarrow> u8 \<Rightarrow> DfcCommandStatus \<times> DfcCommand" where
  "dfc_command_get_file_settings c file_no =
     (if \<not> valid_file_number file_no then (DfcCommandInvalid, c) else with_byte c DFC_CMD_GET_FILE_SETTINGS file_no)"

definition dfc_command_get_file_counters :: "DfcCommand \<Rightarrow> u8 \<Rightarrow> DfcCommandStatus \<times> DfcCommand" where
  "dfc_command_get_file_counters c file_no =
     (if \<not> valid_file_number file_no then (DfcCommandInvalid, c) else with_byte c DFC_CMD_GET_FILE_COUNTERS file_no)"

definition dfc_command_change_file_settings ::
  "DfcCommand \<Rightarrow> u8 \<Rightarrow> u8 \<Rightarrow> u16 \<Rightarrow> bytes option \<Rightarrow> size_t \<Rightarrow> DfcCommandStatus \<times> DfcCommand" where
  "dfc_command_change_file_settings c file_no comm_settings access_rights additional additional_len =
     (if \<not> valid_file_number file_no \<or> (additional = None \<and> additional_len \<noteq> 0) then (DfcCommandInvalid, c)
      else
        let b = builder_start c DFC_CMD_CHANGE_FILE_SETTINGS;
            b = put_byte b file_no;
            b = put_byte b comm_settings;
            b = put_u16 b access_rights;
            b = put b additional additional_len
        in builder_finish b)"

subsection \<open>Data\<close>

definition file_range ::
  "DfcCommand \<Rightarrow> u8 \<Rightarrow> u8 \<Rightarrow> u32 \<Rightarrow> u32 \<Rightarrow> bytes option \<Rightarrow> size_t \<Rightarrow> DfcCommandStatus \<times> DfcCommand" where
  "file_range c ins file_no first second content content_len =
     (if \<not> valid_file_number file_no \<or> (content = None \<and> content_len \<noteq> 0) then (DfcCommandInvalid, c)
      else if first > DFC_COMMAND_UINT24_MAX \<or> second > DFC_COMMAND_UINT24_MAX then (DfcCommandInvalid, c)
      else
        let b = builder_start c ins;
            b = put_byte b file_no;
            b = put_u24 b first;
            b = put_u24 b second;
            b = put b content content_len
        in builder_finish b)"

definition dfc_command_read_data :: "DfcCommand \<Rightarrow> u8 \<Rightarrow> u32 \<Rightarrow> u32 \<Rightarrow> DfcCommandStatus \<times> DfcCommand" where
  "dfc_command_read_data c file_no offset len = file_range c DFC_CMD_READ_DATA file_no offset len None 0"

definition dfc_command_read_data_iso_chaining :: "DfcCommand \<Rightarrow> u8 \<Rightarrow> u32 \<Rightarrow> u32 \<Rightarrow> DfcCommandStatus \<times> DfcCommand" where
  "dfc_command_read_data_iso_chaining c file_no offset len = file_range c DFC_CMD_READ_DATA_ISO file_no offset len None 0"

definition dfc_command_write_data ::
  "DfcCommand \<Rightarrow> u8 \<Rightarrow> u32 \<Rightarrow> bytes option \<Rightarrow> size_t \<Rightarrow> DfcCommandStatus \<times> DfcCommand" where
  "dfc_command_write_data c file_no offset p n =
     (if n > DFC_COMMAND_MAX_DATA - FILE_HEADER_LENGTH then (DfcCommandTooLong, c)
      else file_range c DFC_CMD_WRITE_DATA file_no offset (of_nat n) p n)"

definition dfc_command_write_data_iso_chaining ::
  "DfcCommand \<Rightarrow> u8 \<Rightarrow> u32 \<Rightarrow> bytes option \<Rightarrow> size_t \<Rightarrow> DfcCommandStatus \<times> DfcCommand" where
  "dfc_command_write_data_iso_chaining c file_no offset p n =
     (if n > DFC_COMMAND_MAX_DATA - FILE_HEADER_LENGTH then (DfcCommandTooLong, c)
      else file_range c DFC_CMD_WRITE_DATA_ISO file_no offset (of_nat n) p n)"

definition dfc_command_read_records :: "DfcCommand \<Rightarrow> u8 \<Rightarrow> u32 \<Rightarrow> u32 \<Rightarrow> bool \<Rightarrow> DfcCommandStatus \<times> DfcCommand" where
  "dfc_command_read_records c file_no record_no record_cnt iso_chaining =
     file_range c (if iso_chaining then DFC_CMD_READ_RECORDS_ISO else DFC_CMD_READ_RECORDS) file_no record_no record_cnt
       None 0"

definition dfc_command_write_record ::
  "DfcCommand \<Rightarrow> u8 \<Rightarrow> u32 \<Rightarrow> bytes option \<Rightarrow> size_t \<Rightarrow> bool \<Rightarrow> DfcCommandStatus \<times> DfcCommand" where
  "dfc_command_write_record c file_no offset p n iso_chaining =
     (if n > DFC_COMMAND_MAX_DATA - FILE_HEADER_LENGTH then (DfcCommandTooLong, c)
      else file_range c (if iso_chaining then DFC_CMD_WRITE_RECORD_ISO else DFC_CMD_WRITE_RECORD) file_no offset
        (of_nat n) p n)"

definition dfc_command_update_record ::
  "DfcCommand \<Rightarrow> u8 \<Rightarrow> u32 \<Rightarrow> u32 \<Rightarrow> bytes option \<Rightarrow> size_t \<Rightarrow> bool \<Rightarrow> DfcCommandStatus \<times> DfcCommand" where
  "dfc_command_update_record c file_no record_no offset p n iso_chaining =
     (if \<not> valid_file_number file_no \<or> (p = None \<and> n \<noteq> 0) then (DfcCommandInvalid, c)
      else if record_no > DFC_COMMAND_UINT24_MAX \<or> offset > DFC_COMMAND_UINT24_MAX \<or> n > unat DFC_COMMAND_UINT24_MAX
      then (DfcCommandInvalid, c)
      else
        let b = builder_start c (if iso_chaining then DFC_CMD_UPDATE_RECORD_ISO else DFC_CMD_UPDATE_RECORD);
            b = put_byte b file_no;
            b = put_u24 b record_no;
            b = put_u24 b offset;
            b = put_u24 b (of_nat n);
            b = put b p n
        in builder_finish b)"

definition dfc_command_clear_record_file :: "DfcCommand \<Rightarrow> u8 \<Rightarrow> DfcCommandStatus \<times> DfcCommand" where
  "dfc_command_clear_record_file c file_no =
     (if \<not> valid_file_number file_no then (DfcCommandInvalid, c) else with_byte c DFC_CMD_CLEAR_RECORD_FILE file_no)"

subsection \<open>Values and transactions\<close>

definition dfc_command_get_value :: "DfcCommand \<Rightarrow> u8 \<Rightarrow> DfcCommandStatus \<times> DfcCommand" where
  "dfc_command_get_value c file_no =
     (if \<not> valid_file_number file_no then (DfcCommandInvalid, c) else with_byte c DFC_CMD_GET_VALUE file_no)"

definition change_value :: "DfcCommand \<Rightarrow> u8 \<Rightarrow> u8 \<Rightarrow> u32 \<Rightarrow> DfcCommandStatus \<times> DfcCommand" where
  "change_value c ins file_no amount =
     (if \<not> valid_file_number file_no then (DfcCommandInvalid, c)
      else
        let b = builder_start c ins;
            b = put_byte b file_no;
            b = put_i32 b amount
        in builder_finish b)"

definition dfc_command_credit :: "DfcCommand \<Rightarrow> u8 \<Rightarrow> u32 \<Rightarrow> DfcCommandStatus \<times> DfcCommand" where
  "dfc_command_credit c file_no amount = change_value c DFC_CMD_CREDIT file_no amount"

definition dfc_command_debit :: "DfcCommand \<Rightarrow> u8 \<Rightarrow> u32 \<Rightarrow> DfcCommandStatus \<times> DfcCommand" where
  "dfc_command_debit c file_no amount = change_value c DFC_CMD_DEBIT file_no amount"

definition dfc_command_limited_credit :: "DfcCommand \<Rightarrow> u8 \<Rightarrow> u32 \<Rightarrow> DfcCommandStatus \<times> DfcCommand" where
  "dfc_command_limited_credit c file_no amount = change_value c DFC_CMD_LIMITED_CREDIT file_no amount"

definition dfc_command_commit_transaction :: "DfcCommand \<Rightarrow> DfcCommandStatus \<times> DfcCommand" where
  "dfc_command_commit_transaction c = simple c DFC_CMD_COMMIT_TRANSACTION"

definition dfc_command_commit_transaction_with_option :: "DfcCommand \<Rightarrow> u8 \<Rightarrow> DfcCommandStatus \<times> DfcCommand" where
  "dfc_command_commit_transaction_with_option c opt = with_byte c DFC_CMD_COMMIT_TRANSACTION opt"

definition dfc_command_commit_reader_id :: "DfcCommand \<Rightarrow> bytes option \<Rightarrow> DfcCommandStatus \<times> DfcCommand" where
  "dfc_command_commit_reader_id c reader_id =
     (if reader_id = None then (DfcCommandInvalid, c)
      else with_bytes c DFC_CMD_COMMIT_READER_ID reader_id DFC_COMMAND_READER_ID_LENGTH)"

definition dfc_command_abort_transaction :: "DfcCommand \<Rightarrow> DfcCommandStatus \<times> DfcCommand" where
  "dfc_command_abort_transaction c = simple c DFC_CMD_ABORT_TRANSACTION"

subsection \<open>Keys\<close>

definition dfc_command_change_key :: "DfcCommand \<Rightarrow> u8 \<Rightarrow> bytes option \<Rightarrow> size_t \<Rightarrow> DfcCommandStatus \<times> DfcCommand" where
  "dfc_command_change_key c key_no p n =
     (if p = None \<or> n = 0 then (DfcCommandInvalid, c)
      else
        let b = builder_start c DFC_CMD_CHANGE_KEY;
            b = put_byte b key_no;
            b = put b p n
        in builder_finish b)"

definition dfc_command_change_key_ev2 ::
  "DfcCommand \<Rightarrow> u8 \<Rightarrow> u8 \<Rightarrow> bytes option \<Rightarrow> size_t \<Rightarrow> DfcCommandStatus \<times> DfcCommand" where
  "dfc_command_change_key_ev2 c key_set_no key_no p n =
     (if p = None \<or> n = 0 then (DfcCommandInvalid, c)
      else
        let b = builder_start c DFC_CMD_CHANGE_KEY_EV2;
            b = put_byte b key_set_no;
            b = put_byte b key_no;
            b = put b p n
        in builder_finish b)"

definition dfc_command_change_key_settings :: "DfcCommand \<Rightarrow> bytes option \<Rightarrow> size_t \<Rightarrow> DfcCommandStatus \<times> DfcCommand" where
  "dfc_command_change_key_settings c p n =
     (if n = 0 then (DfcCommandInvalid, c) else with_bytes c DFC_CMD_CHANGE_KEY_SETTINGS p n)"

definition dfc_command_initialize_key_set :: "DfcCommand \<Rightarrow> u8 \<Rightarrow> u8 \<Rightarrow> DfcCommandStatus \<times> DfcCommand" where
  "dfc_command_initialize_key_set c key_set_no key_type =
     with_bytes c DFC_CMD_INITIALIZE_KEY_SET (Some [key_set_no, key_type]) 2"

definition dfc_command_finalize_key_set :: "DfcCommand \<Rightarrow> u8 \<Rightarrow> u8 \<Rightarrow> DfcCommandStatus \<times> DfcCommand" where
  "dfc_command_finalize_key_set c key_set_no key_set_version =
     with_bytes c DFC_CMD_FINALIZE_KEY_SET (Some [key_set_no, key_set_version]) 2"

definition dfc_command_roll_key_set :: "DfcCommand \<Rightarrow> u8 \<Rightarrow> DfcCommandStatus \<times> DfcCommand" where
  "dfc_command_roll_key_set c key_set_no = with_byte c DFC_CMD_ROLL_KEY_SET key_set_no"

subsection \<open>EV2, EV3 and authentication\<close>

definition dfc_command_set_configuration :: "DfcCommand \<Rightarrow> u8 \<Rightarrow> bytes option \<Rightarrow> size_t \<Rightarrow> DfcCommandStatus \<times> DfcCommand" where
  "dfc_command_set_configuration c opt p n =
     (if p = None \<and> n \<noteq> 0 then (DfcCommandInvalid, c)
      else
        let b = builder_start c DFC_CMD_SET_CONFIGURATION;
            b = put_byte b opt;
            b = put b p n
        in builder_finish b)"

definition dfc_command_notify_transaction_success :: "DfcCommand \<Rightarrow> DfcCommandStatus \<times> DfcCommand" where
  "dfc_command_notify_transaction_success c = simple c DFC_CMD_NOTIFY_TRANSACTION_SUCCESS"

definition dfc_command_prepare_proximity_check :: "DfcCommand \<Rightarrow> DfcCommandStatus \<times> DfcCommand" where
  "dfc_command_prepare_proximity_check c = simple c DFC_CMD_PREPARE_PROXIMITY_CHECK"

definition dfc_command_proximity_check :: "DfcCommand \<Rightarrow> bytes option \<Rightarrow> size_t \<Rightarrow> DfcCommandStatus \<times> DfcCommand" where
  "dfc_command_proximity_check c p n = with_bytes c DFC_CMD_PROXIMITY_CHECK p n"

definition dfc_command_verify_proximity_check :: "DfcCommand \<Rightarrow> bytes option \<Rightarrow> size_t \<Rightarrow> DfcCommandStatus \<times> DfcCommand" where
  "dfc_command_verify_proximity_check c p n = with_bytes c DFC_CMD_VERIFY_PROXIMITY_CHECK p n"

definition dfc_command_authenticate :: "DfcCommand \<Rightarrow> u8 \<Rightarrow> u8 \<Rightarrow> DfcCommandStatus \<times> DfcCommand" where
  "dfc_command_authenticate c cipher key_no =
     (if cipher \<noteq> DFC_CMD_AUTHENTICATE_LEGACY \<and> cipher \<noteq> DFC_CMD_AUTHENTICATE_ISO \<and> cipher \<noteq> DFC_CMD_AUTHENTICATE_AES
      then (DfcCommandInvalid, c)
      else with_byte c cipher key_no)"

definition dfc_command_authenticate_ev2_first ::
  "DfcCommand \<Rightarrow> u8 \<Rightarrow> bytes option \<Rightarrow> size_t \<Rightarrow> DfcCommandStatus \<times> DfcCommand" where
  "dfc_command_authenticate_ev2_first c key_no capabilities capabilities_len =
     (if (if capabilities \<noteq> None then capabilities_len \<noteq> DFC_COMMAND_EV2_CAPABILITY_LENGTH else capabilities_len \<noteq> 0)
      then (DfcCommandInvalid, c)
      else
        let b = builder_start c DFC_CMD_AUTHENTICATE_EV2_FIRST;
            b = put_byte b key_no;
            b = put_byte b (of_nat capabilities_len);
            b = put b capabilities capabilities_len
        in builder_finish b)"

definition dfc_command_authenticate_ev2_non_first :: "DfcCommand \<Rightarrow> u8 \<Rightarrow> DfcCommandStatus \<times> DfcCommand" where
  "dfc_command_authenticate_ev2_non_first c key_no = with_byte c DFC_CMD_AUTHENTICATE_EV2_NON_FIRST key_no"

definition dfc_command_additional_frame :: "DfcCommand \<Rightarrow> bytes option \<Rightarrow> size_t \<Rightarrow> DfcCommandStatus \<times> DfcCommand" where
  "dfc_command_additional_frame c p n = with_bytes c DFC_CMD_ADDITIONAL_FRAME p n"

subsection \<open>The builder refines appending octets\<close>

definition command_wf :: "DfcCommand \<Rightarrow> bool" where
  "command_wf c \<longleftrightarrow> length (cmd_data c) = DFC_COMMAND_MAX_DATA"

text \<open>The octets a command carries, and the command that carries the given ones.\<close>

definition command_payload :: "DfcCommand \<Rightarrow> bytes" where
  "command_payload c = take (cmd_data_len c) (cmd_data c)"

definition command_filled :: "DfcCommand \<Rightarrow> u8 \<Rightarrow> bytes \<Rightarrow> DfcCommand" where
  "command_filled c ins xs = c\<lparr>cmd_ins := ins, cmd_data := mem_write 0 xs (cmd_data c), cmd_data_len := length xs\<rparr>"

definition builder_holds :: "DfcCommand \<Rightarrow> u8 \<Rightarrow> bytes \<Rightarrow> Builder \<Rightarrow> bool" where
  "builder_holds c ins xs b \<longleftrightarrow>
     (if length xs \<le> DFC_COMMAND_MAX_DATA then b = \<lparr>b_command = command_filled c ins xs, b_overflow = False\<rparr>
      else b_overflow b \<and> command_wf (b_command b) \<and> cmd_data_len (b_command b) \<le> DFC_COMMAND_MAX_DATA)"

text \<open>The result of an encoder for a valid request with these octets.\<close>

definition encoded :: "DfcCommand \<Rightarrow> u8 \<Rightarrow> bytes \<Rightarrow> DfcCommandStatus \<times> DfcCommand \<Rightarrow> bool" where
  "encoded c ins xs r \<longleftrightarrow>
     (if length xs \<le> DFC_COMMAND_MAX_DATA then r = (DfcCommandOk, command_filled c ins xs)
      else fst r = DfcCommandTooLong \<and> command_wf (snd r) \<and> cmd_data_len (snd r) \<le> DFC_COMMAND_MAX_DATA)"

lemma builder_start_holds: "builder_holds c ins [] (builder_start c ins)"
  by (simp add: builder_holds_def builder_start_def command_filled_def)

lemma mem_write_extend:
  "length xs + length ys \<le> length buf \<Longrightarrow> mem_write (length xs) ys (mem_write 0 xs buf) = mem_write 0 (xs @ ys) buf"
  by (simp add: mem_write_def add.commute)

lemma put_holds:
  assumes b: "builder_holds c ins xs b" and wf: "command_wf c" and n: "n \<le> length (the p) \<or> n = 0"
  shows "builder_holds c ins (xs @ take n (the p)) (put b p n)"
proof -
  have lp: "length (take n (the p)) = n" using n by auto
  show ?thesis
  proof (cases "length xs \<le> DFC_COMMAND_MAX_DATA")
    case True
    then have be: "b = \<lparr>b_command = command_filled c ins xs, b_overflow = False\<rparr>" using b by (simp add: builder_holds_def)
    show ?thesis
    proof (cases "length xs + n \<le> DFC_COMMAND_MAX_DATA")
      case fits: True
      then have "\<not> n > DFC_COMMAND_MAX_DATA - length xs" by simp
      moreover have "mem_write (length xs) (take n (the p)) (mem_write 0 xs (cmd_data c)) = mem_write 0 (xs @ take n (the p)) (cmd_data c)"
        using fits lp wf by (intro mem_write_extend) (simp add: command_wf_def)
      ultimately show ?thesis using fits lp
        by (cases "n = 0") (simp_all add: builder_holds_def be put_def Let_def command_filled_def)
    next
      case False
      then have "n > DFC_COMMAND_MAX_DATA - length xs" using True by linarith
      then show ?thesis using False lp wf True
        by (simp add: builder_holds_def be put_def Let_def command_filled_def command_wf_def)
    qed
  next
    case False
    then show ?thesis using b by (simp add: builder_holds_def put_def Let_def)
  qed
qed

lemma put_byte_holds: "builder_holds c ins xs b \<Longrightarrow> command_wf c \<Longrightarrow> builder_holds c ins (xs @ [v]) (put_byte b v)"
  using put_holds [of c ins xs b 1 "Some [v]"] by (simp add: put_byte_def)

lemma holds_eq: "builder_holds c ins xs b \<Longrightarrow> xs = ys \<Longrightarrow> builder_holds c ins ys b"
  by simp

lemma put_u16_holds: "builder_holds c ins xs b \<Longrightarrow> command_wf c \<Longrightarrow> builder_holds c ins (xs @ le16 v) (put_u16 b v)"
  unfolding put_u16_def Let_def by (rule holds_eq, (rule put_byte_holds)+) (simp_all add: le16_def)

lemma put_u24_holds: "builder_holds c ins xs b \<Longrightarrow> command_wf c \<Longrightarrow> builder_holds c ins (xs @ le24 v) (put_u24 b v)"
  unfolding put_u24_def Let_def by (rule holds_eq, (rule put_byte_holds)+) (simp_all add: le24_def)

lemma put_i32_holds: "builder_holds c ins xs b \<Longrightarrow> command_wf c \<Longrightarrow> builder_holds c ins (xs @ le32 v) (put_i32 b v)"
  unfolding put_i32_def Let_def by (rule holds_eq, (rule put_byte_holds)+) (simp_all add: le32_def)

lemma if_holds:
  "(P \<Longrightarrow> builder_holds c ins (xs @ ys) b) \<Longrightarrow> builder_holds c ins xs b' \<Longrightarrow>
    builder_holds c ins (xs @ (if P then ys else [])) (if P then b else b')"
  by simp

lemma put_file_head_holds:
  assumes "builder_holds c ins xs b" and wf: "command_wf c"
  shows "builder_holds c ins (xs @ [no] @ (if has_iso then le16 fid else []) @ [comm] @ le16 rights) (put_file_head b no has_iso fid comm rights)"
proof -
  have no: "builder_holds c ins (xs @ [no]) (put_byte b no)" using assms by (rule put_byte_holds)
  have "builder_holds c ins ((xs @ [no]) @ (if has_iso then le16 fid else [])) (if has_iso then put_u16 (put_byte b no) fid else put_byte b no)"
    by (rule if_holds [OF put_u16_holds [OF no wf] no])
  from put_u16_holds [OF put_byte_holds [OF this wf] wf] show ?thesis
    unfolding put_file_head_def Let_def by simp
qed

lemma finish_encoded: "builder_holds c ins xs b \<Longrightarrow> xs = ys \<Longrightarrow> encoded c ins ys (builder_finish b)"
  by (auto simp: builder_holds_def encoded_def builder_finish_def)

lemmas builder_rules = builder_start_holds put_byte_holds put_u16_holds put_u24_holds put_i32_holds put_file_head_holds put_holds

lemma simple_encoded: "command_wf c \<Longrightarrow> encoded c ins [] (simple c ins)"
  unfolding simple_def by (rule finish_encoded, rule builder_rules, rule refl)

lemma with_byte_encoded: "command_wf c \<Longrightarrow> encoded c ins [v] (with_byte c ins v)"
  unfolding with_byte_def by (rule finish_encoded, rule builder_rules, rule builder_rules) simp_all

lemma with_bytes_encoded:
  "command_wf c \<Longrightarrow> n \<le> length (the p) \<or> n = 0 \<Longrightarrow> \<not> (p = None \<and> n \<noteq> 0) \<Longrightarrow> encoded c ins (take n (the p)) (with_bytes c ins p n)"
  unfolding with_bytes_def if_not_P by (rule finish_encoded, rule builder_rules, rule builder_rules) simp_all

subsection \<open>The requests and what they must produce\<close>

text \<open>
  Every public encoder as a request, with the octets the command set prescribes for it. A pointer
  argument is readable when it is NULL or its buffer has the announced octets.
\<close>

definition octets :: "bytes option \<Rightarrow> size_t \<Rightarrow> bytes" where
  "octets p n = take n (the p)"

definition readable :: "bytes option \<Rightarrow> size_t \<Rightarrow> bool" where
  "readable p n \<longleftrightarrow> (case p of None \<Rightarrow> True | Some xs \<Rightarrow> n \<le> length xs)"

definition sized :: "bytes option \<Rightarrow> size_t \<Rightarrow> bool" where
  "sized p n \<longleftrightarrow> p \<noteq> None \<or> n = 0"

definition application_request_ok :: "DfcCommandCreateApplication \<Rightarrow> bool" where
  "application_request_ok a \<longleftrightarrow>
     (case ca_df_name a of
        None \<Rightarrow> ca_df_name_len a = 0
      | Some _ \<Rightarrow> ca_has_iso_file_id a \<and> ca_df_name_len a \<in> {1..16}) \<and>
     (ca_has_iso_file_id a \<longrightarrow> ca_iso_file_id a \<notin> {0x0000, 0x3F00, 0x3FFF, 0xFFFF}) \<and>
     (if ca_has_extended_settings a
      then ca_extended_settings a < 0x20 \<and> (ca_extended_settings a AND 1 \<noteq> 0) = ca_has_key_sets a
      else \<not> ca_has_key_sets a) \<and>
     (ca_has_key_sets a \<longrightarrow> ca_key_set_count a \<in> {2..16} \<and> ca_key_set_roll_key_no a < 14 \<and> ca_key_set_max_key_size a \<in> {16, 24})"

definition application_request_octets :: "DfcCommandCreateApplication \<Rightarrow> bytes" where
  "application_request_octets a = ca_aid a @
     [ca_key_settings_1 a, ca_key_settings_2 a OR (if ca_has_iso_file_id a then 0x20 else 0) OR
        (if ca_has_extended_settings a then 0x10 else 0)] @
     (if ca_has_extended_settings a
      then ca_extended_settings a #
        (if ca_has_key_sets a
         then [ca_key_set_version a, ca_key_set_count a, ca_key_set_max_key_size a, ca_key_set_roll_key_no a] else [])
      else []) @
     (if ca_has_iso_file_id a then le16 (ca_iso_file_id a) else []) @ octets (ca_df_name a) (ca_df_name_len a)"

definition file_head_octets :: "u8 \<Rightarrow> bool \<Rightarrow> u16 \<Rightarrow> u8 \<Rightarrow> u16 \<Rightarrow> bytes" where
  "file_head_octets no has_iso fid comm rights = [no] @ (if has_iso then le16 fid else []) @ [comm] @ le16 rights"

definition iso_id_ok :: "bool \<Rightarrow> u16 \<Rightarrow> bool" where
  "iso_id_ok has_iso fid \<longleftrightarrow> (has_iso \<longrightarrow> fid \<notin> {0x0000, 0x3F00, 0x3FFF, 0xFFFF})"

definition data_file_request_ok :: "DfcCommandDataFile \<Rightarrow> bool" where
  "data_file_request_ok d \<longleftrightarrow> cdf_file_no d < 32 \<and> cdf_size d < 2 ^ 24 \<and> iso_id_ok (cdf_has_iso_file_id d) (cdf_iso_file_id d)"

definition data_file_request_octets :: "DfcCommandDataFile \<Rightarrow> bytes" where
  "data_file_request_octets d =
     file_head_octets (cdf_file_no d) (cdf_has_iso_file_id d) (cdf_iso_file_id d) (cdf_comm_settings d) (cdf_access_rights d) @
     le24 (cdf_size d)"

definition record_file_request_ok :: "DfcCommandRecordFile \<Rightarrow> bool" where
  "record_file_request_ok d \<longleftrightarrow> crf_file_no d < 32 \<and> 0 < crf_record_size d \<and> crf_record_size d < 2 ^ 24 \<and>
     0 < crf_max_records d \<and> crf_max_records d < 2 ^ 24 \<and> iso_id_ok (crf_has_iso_file_id d) (crf_iso_file_id d)"

datatype (plugins del: size transfer lifting code quickcheck_random quickcheck_exhaustive quickcheck_bounded_forall quickcheck_full_exhaustive quickcheck_narrowing) request =
    ReqRaw u8 "bytes option" size_t
  | ReqSelectApplication "bytes option" "bytes option"
  | ReqGetVersion
  | ReqGetFreeMemory
  | ReqFormatPicc
  | ReqGetKeySettings
  | ReqGetApplicationIds
  | ReqGetDfNames
  | ReqGetFileIds
  | ReqGetIsoFileIds
  | ReqGetCardUid
  | ReqReadSignature u8
  | ReqGetKeyVersion u8
  | ReqGetKeySetVersions
  | ReqCreateApplication "DfcCommandCreateApplication option"
  | ReqDeleteApplication "bytes option"
  | ReqCreateDelegatedApplication "DfcCommandCreateDelegatedApplication option"
  | ReqGetDelegatedInfo u16
  | ReqCreateStandardDataFile "DfcCommandDataFile option"
  | ReqCreateBackupDataFile "DfcCommandDataFile option"
  | ReqCreateRecordFile "DfcCommandRecordFile option"
  | ReqCreateValueFile "DfcCommandValueFile option"
  | ReqCreateTransactionMacFile "DfcCommandTransactionMacFile option"
  | ReqDeleteFile u8
  | ReqGetFileSettings u8
  | ReqGetFileCounters u8
  | ReqChangeFileSettings u8 u8 u16 "bytes option" size_t
  | ReqReadData u8 u32 u32
  | ReqReadDataIso u8 u32 u32
  | ReqWriteData u8 u32 "bytes option" size_t
  | ReqWriteDataIso u8 u32 "bytes option" size_t
  | ReqReadRecords u8 u32 u32 bool
  | ReqWriteRecord u8 u32 "bytes option" size_t bool
  | ReqUpdateRecord u8 u32 u32 "bytes option" size_t bool
  | ReqClearRecordFile u8
  | ReqGetValue u8
  | ReqCredit u8 u32
  | ReqDebit u8 u32
  | ReqLimitedCredit u8 u32
  | ReqCommitTransaction
  | ReqCommitWithOption u8
  | ReqCommitReaderId "bytes option"
  | ReqAbortTransaction
  | ReqChangeKey u8 "bytes option" size_t
  | ReqChangeKeyEv2 u8 u8 "bytes option" size_t
  | ReqChangeKeySettings "bytes option" size_t
  | ReqInitializeKeySet u8 u8
  | ReqFinalizeKeySet u8 u8
  | ReqRollKeySet u8
  | ReqSetConfiguration u8 "bytes option" size_t
  | ReqNotifyTransactionSuccess
  | ReqPrepareProximityCheck
  | ReqProximityCheck "bytes option" size_t
  | ReqVerifyProximityCheck "bytes option" size_t
  | ReqAuthenticate u8 u8
  | ReqAuthenticateEv2First u8 "bytes option" size_t
  | ReqAuthenticateEv2NonFirst u8
  | ReqAdditionalFrame "bytes option" size_t

primrec encode_request :: "request \<Rightarrow> DfcCommand \<Rightarrow> DfcCommandStatus \<times> DfcCommand" where
  "encode_request (ReqRaw i p n) c = dfc_command_encode_raw c i p n"
| "encode_request (ReqSelectApplication a s) c = dfc_command_select_application c a s"
| "encode_request ReqGetVersion c = dfc_command_get_version c"
| "encode_request ReqGetFreeMemory c = dfc_command_get_free_memory c"
| "encode_request ReqFormatPicc c = dfc_command_format_picc c"
| "encode_request ReqGetKeySettings c = dfc_command_get_key_settings c"
| "encode_request ReqGetApplicationIds c = dfc_command_get_application_ids c"
| "encode_request ReqGetDfNames c = dfc_command_get_df_names c"
| "encode_request ReqGetFileIds c = dfc_command_get_file_ids c"
| "encode_request ReqGetIsoFileIds c = dfc_command_get_iso_file_ids c"
| "encode_request ReqGetCardUid c = dfc_command_get_card_uid c"
| "encode_request (ReqReadSignature i) c = dfc_command_read_signature c i"
| "encode_request (ReqGetKeyVersion k) c = dfc_command_get_key_version c k"
| "encode_request ReqGetKeySetVersions c = dfc_command_get_key_set_versions c"
| "encode_request (ReqCreateApplication a) c = dfc_command_create_application c a"
| "encode_request (ReqDeleteApplication a) c = dfc_command_delete_application c a"
| "encode_request (ReqCreateDelegatedApplication a) c = dfc_command_create_delegated_application c a"
| "encode_request (ReqGetDelegatedInfo s) c = dfc_command_get_delegated_application_info c s"
| "encode_request (ReqCreateStandardDataFile d) c = dfc_command_create_standard_data_file c d"
| "encode_request (ReqCreateBackupDataFile d) c = dfc_command_create_backup_data_file c d"
| "encode_request (ReqCreateRecordFile d) c = dfc_command_create_record_file c d"
| "encode_request (ReqCreateValueFile d) c = dfc_command_create_value_file c d"
| "encode_request (ReqCreateTransactionMacFile d) c = dfc_command_create_transaction_mac_file c d"
| "encode_request (ReqDeleteFile f) c = dfc_command_delete_file c f"
| "encode_request (ReqGetFileSettings f) c = dfc_command_get_file_settings c f"
| "encode_request (ReqGetFileCounters f) c = dfc_command_get_file_counters c f"
| "encode_request (ReqChangeFileSettings f m r p n) c = dfc_command_change_file_settings c f m r p n"
| "encode_request (ReqReadData f x y) c = dfc_command_read_data c f x y"
| "encode_request (ReqReadDataIso f x y) c = dfc_command_read_data_iso_chaining c f x y"
| "encode_request (ReqWriteData f x p n) c = dfc_command_write_data c f x p n"
| "encode_request (ReqWriteDataIso f x p n) c = dfc_command_write_data_iso_chaining c f x p n"
| "encode_request (ReqReadRecords f x y i) c = dfc_command_read_records c f x y i"
| "encode_request (ReqWriteRecord f x p n i) c = dfc_command_write_record c f x p n i"
| "encode_request (ReqUpdateRecord f r x p n i) c = dfc_command_update_record c f r x p n i"
| "encode_request (ReqClearRecordFile f) c = dfc_command_clear_record_file c f"
| "encode_request (ReqGetValue f) c = dfc_command_get_value c f"
| "encode_request (ReqCredit f v) c = dfc_command_credit c f v"
| "encode_request (ReqDebit f v) c = dfc_command_debit c f v"
| "encode_request (ReqLimitedCredit f v) c = dfc_command_limited_credit c f v"
| "encode_request ReqCommitTransaction c = dfc_command_commit_transaction c"
| "encode_request (ReqCommitWithOption v) c = dfc_command_commit_transaction_with_option c v"
| "encode_request (ReqCommitReaderId p) c = dfc_command_commit_reader_id c p"
| "encode_request ReqAbortTransaction c = dfc_command_abort_transaction c"
| "encode_request (ReqChangeKey k p n) c = dfc_command_change_key c k p n"
| "encode_request (ReqChangeKeyEv2 s k p n) c = dfc_command_change_key_ev2 c s k p n"
| "encode_request (ReqChangeKeySettings p n) c = dfc_command_change_key_settings c p n"
| "encode_request (ReqInitializeKeySet s t) c = dfc_command_initialize_key_set c s t"
| "encode_request (ReqFinalizeKeySet s v) c = dfc_command_finalize_key_set c s v"
| "encode_request (ReqRollKeySet s) c = dfc_command_roll_key_set c s"
| "encode_request (ReqSetConfiguration v p n) c = dfc_command_set_configuration c v p n"
| "encode_request ReqNotifyTransactionSuccess c = dfc_command_notify_transaction_success c"
| "encode_request ReqPrepareProximityCheck c = dfc_command_prepare_proximity_check c"
| "encode_request (ReqProximityCheck p n) c = dfc_command_proximity_check c p n"
| "encode_request (ReqVerifyProximityCheck p n) c = dfc_command_verify_proximity_check c p n"
| "encode_request (ReqAuthenticate i k) c = dfc_command_authenticate c i k"
| "encode_request (ReqAuthenticateEv2First k p n) c = dfc_command_authenticate_ev2_first c k p n"
| "encode_request (ReqAuthenticateEv2NonFirst k) c = dfc_command_authenticate_ev2_non_first c k"
| "encode_request (ReqAdditionalFrame p n) c = dfc_command_additional_frame c p n"

primrec request_valid :: "request \<Rightarrow> bool" where
  "request_valid (ReqRaw i p n) = (sized p n)"
| "request_valid (ReqSelectApplication a s) = (a \<noteq> None)"
| "request_valid ReqGetVersion = (True)"
| "request_valid ReqGetFreeMemory = (True)"
| "request_valid ReqFormatPicc = (True)"
| "request_valid ReqGetKeySettings = (True)"
| "request_valid ReqGetApplicationIds = (True)"
| "request_valid ReqGetDfNames = (True)"
| "request_valid ReqGetFileIds = (True)"
| "request_valid ReqGetIsoFileIds = (True)"
| "request_valid ReqGetCardUid = (True)"
| "request_valid (ReqReadSignature i) = (True)"
| "request_valid (ReqGetKeyVersion k) = (True)"
| "request_valid ReqGetKeySetVersions = (True)"
| "request_valid (ReqCreateApplication a) = (a \<noteq> None \<and> application_request_ok (the a))"
| "request_valid (ReqDeleteApplication a) = (a \<noteq> None)"
| "request_valid (ReqCreateDelegatedApplication a) = (a \<noteq> None)"
| "request_valid (ReqGetDelegatedInfo s) = (True)"
| "request_valid (ReqCreateStandardDataFile d) = (d \<noteq> None \<and> data_file_request_ok (the d))"
| "request_valid (ReqCreateBackupDataFile d) = (d \<noteq> None \<and> data_file_request_ok (the d))"
| "request_valid (ReqCreateRecordFile d) = (d \<noteq> None \<and> record_file_request_ok (the d))"
| "request_valid (ReqCreateValueFile d) = (d \<noteq> None \<and> cvf_file_no (the d) < 32 \<and> sint (cvf_lower_limit (the d)) \<le> sint (cvf_value (the d)) \<and>
       sint (cvf_value (the d)) \<le> sint (cvf_upper_limit (the d)))"
| "request_valid (ReqCreateTransactionMacFile d) = (d \<noteq> None \<and> ctf_file_no (the d) < 32)"
| "request_valid (ReqDeleteFile f) = (f < 32)"
| "request_valid (ReqGetFileSettings f) = (f < 32)"
| "request_valid (ReqGetFileCounters f) = (f < 32)"
| "request_valid (ReqChangeFileSettings f m r p n) = (f < 32 \<and> sized p n)"
| "request_valid (ReqReadData f x y) = (f < 32 \<and> x < 2 ^ 24 \<and> y < 2 ^ 24)"
| "request_valid (ReqReadDataIso f x y) = (f < 32 \<and> x < 2 ^ 24 \<and> y < 2 ^ 24)"
| "request_valid (ReqWriteData f x p n) = (f < 32 \<and> x < 2 ^ 24 \<and> sized p n)"
| "request_valid (ReqWriteDataIso f x p n) = (f < 32 \<and> x < 2 ^ 24 \<and> sized p n)"
| "request_valid (ReqReadRecords f x y i) = (f < 32 \<and> x < 2 ^ 24 \<and> y < 2 ^ 24)"
| "request_valid (ReqWriteRecord f x p n i) = (f < 32 \<and> x < 2 ^ 24 \<and> sized p n)"
| "request_valid (ReqUpdateRecord f r x p n i) = (f < 32 \<and> r < 2 ^ 24 \<and> x < 2 ^ 24 \<and> n < 2 ^ 24 \<and> sized p n)"
| "request_valid (ReqClearRecordFile f) = (f < 32)"
| "request_valid (ReqGetValue f) = (f < 32)"
| "request_valid (ReqCredit f v) = (f < 32)"
| "request_valid (ReqDebit f v) = (f < 32)"
| "request_valid (ReqLimitedCredit f v) = (f < 32)"
| "request_valid ReqCommitTransaction = (True)"
| "request_valid (ReqCommitWithOption v) = (True)"
| "request_valid (ReqCommitReaderId p) = (p \<noteq> None)"
| "request_valid ReqAbortTransaction = (True)"
| "request_valid (ReqChangeKey k p n) = (p \<noteq> None \<and> 0 < n)"
| "request_valid (ReqChangeKeyEv2 s k p n) = (p \<noteq> None \<and> 0 < n)"
| "request_valid (ReqChangeKeySettings p n) = (p \<noteq> None \<and> 0 < n)"
| "request_valid (ReqInitializeKeySet s t) = (True)"
| "request_valid (ReqFinalizeKeySet s v) = (True)"
| "request_valid (ReqRollKeySet s) = (True)"
| "request_valid (ReqSetConfiguration v p n) = (sized p n)"
| "request_valid ReqNotifyTransactionSuccess = (True)"
| "request_valid ReqPrepareProximityCheck = (True)"
| "request_valid (ReqProximityCheck p n) = (sized p n)"
| "request_valid (ReqVerifyProximityCheck p n) = (sized p n)"
| "request_valid (ReqAuthenticate i k) = (i \<in> {0x0A, 0x1A, 0xAA})"
| "request_valid (ReqAuthenticateEv2First k p n) = (n = (if p = None then 0 else 6))"
| "request_valid (ReqAuthenticateEv2NonFirst k) = (True)"
| "request_valid (ReqAdditionalFrame p n) = (sized p n)"

primrec request_ins :: "request \<Rightarrow> u8" where
  "request_ins (ReqRaw i p n) = i"
| "request_ins (ReqSelectApplication a s) = DFC_CMD_SELECT_APPLICATION"
| "request_ins ReqGetVersion = DFC_CMD_GET_VERSION"
| "request_ins ReqGetFreeMemory = DFC_CMD_FREE_MEM"
| "request_ins ReqFormatPicc = DFC_CMD_FORMAT_PICC"
| "request_ins ReqGetKeySettings = DFC_CMD_GET_KEY_SETTINGS"
| "request_ins ReqGetApplicationIds = DFC_CMD_GET_APPLICATION_IDS"
| "request_ins ReqGetDfNames = DFC_CMD_GET_DF_NAMES"
| "request_ins ReqGetFileIds = DFC_CMD_GET_FILE_IDS"
| "request_ins ReqGetIsoFileIds = DFC_CMD_GET_ISO_FILE_IDS"
| "request_ins ReqGetCardUid = DFC_CMD_GET_CARD_UID"
| "request_ins (ReqReadSignature i) = DFC_CMD_READ_SIGNATURE"
| "request_ins (ReqGetKeyVersion k) = DFC_CMD_GET_KEY_VERSION"
| "request_ins ReqGetKeySetVersions = DFC_CMD_GET_KEY_VERSION"
| "request_ins (ReqCreateApplication a) = DFC_CMD_CREATE_APPLICATION"
| "request_ins (ReqDeleteApplication a) = DFC_CMD_DELETE_APPLICATION"
| "request_ins (ReqCreateDelegatedApplication a) = DFC_CMD_CREATE_DELEGATED_APPLICATION"
| "request_ins (ReqGetDelegatedInfo s) = DFC_CMD_GET_DELEGATED_INFO"
| "request_ins (ReqCreateStandardDataFile d) = DFC_CMD_CREATE_STD_DATA_FILE"
| "request_ins (ReqCreateBackupDataFile d) = DFC_CMD_CREATE_BACKUP_DATA_FILE"
| "request_ins (ReqCreateRecordFile d) = (if crf_cyclic (the d) then DFC_CMD_CREATE_CYCLIC_RECORD_FILE else DFC_CMD_CREATE_LINEAR_RECORD_FILE)"
| "request_ins (ReqCreateValueFile d) = DFC_CMD_CREATE_VALUE_FILE"
| "request_ins (ReqCreateTransactionMacFile d) = DFC_CMD_CREATE_TRANSACTION_MAC_FILE"
| "request_ins (ReqDeleteFile f) = DFC_CMD_DELETE_FILE"
| "request_ins (ReqGetFileSettings f) = DFC_CMD_GET_FILE_SETTINGS"
| "request_ins (ReqGetFileCounters f) = DFC_CMD_GET_FILE_COUNTERS"
| "request_ins (ReqChangeFileSettings f m r p n) = DFC_CMD_CHANGE_FILE_SETTINGS"
| "request_ins (ReqReadData f x y) = DFC_CMD_READ_DATA"
| "request_ins (ReqReadDataIso f x y) = DFC_CMD_READ_DATA_ISO"
| "request_ins (ReqWriteData f x p n) = DFC_CMD_WRITE_DATA"
| "request_ins (ReqWriteDataIso f x p n) = DFC_CMD_WRITE_DATA_ISO"
| "request_ins (ReqReadRecords f x y i) = (if i then DFC_CMD_READ_RECORDS_ISO else DFC_CMD_READ_RECORDS)"
| "request_ins (ReqWriteRecord f x p n i) = (if i then DFC_CMD_WRITE_RECORD_ISO else DFC_CMD_WRITE_RECORD)"
| "request_ins (ReqUpdateRecord f r x p n i) = (if i then DFC_CMD_UPDATE_RECORD_ISO else DFC_CMD_UPDATE_RECORD)"
| "request_ins (ReqClearRecordFile f) = DFC_CMD_CLEAR_RECORD_FILE"
| "request_ins (ReqGetValue f) = DFC_CMD_GET_VALUE"
| "request_ins (ReqCredit f v) = DFC_CMD_CREDIT"
| "request_ins (ReqDebit f v) = DFC_CMD_DEBIT"
| "request_ins (ReqLimitedCredit f v) = DFC_CMD_LIMITED_CREDIT"
| "request_ins ReqCommitTransaction = DFC_CMD_COMMIT_TRANSACTION"
| "request_ins (ReqCommitWithOption v) = DFC_CMD_COMMIT_TRANSACTION"
| "request_ins (ReqCommitReaderId p) = DFC_CMD_COMMIT_READER_ID"
| "request_ins ReqAbortTransaction = DFC_CMD_ABORT_TRANSACTION"
| "request_ins (ReqChangeKey k p n) = DFC_CMD_CHANGE_KEY"
| "request_ins (ReqChangeKeyEv2 s k p n) = DFC_CMD_CHANGE_KEY_EV2"
| "request_ins (ReqChangeKeySettings p n) = DFC_CMD_CHANGE_KEY_SETTINGS"
| "request_ins (ReqInitializeKeySet s t) = DFC_CMD_INITIALIZE_KEY_SET"
| "request_ins (ReqFinalizeKeySet s v) = DFC_CMD_FINALIZE_KEY_SET"
| "request_ins (ReqRollKeySet s) = DFC_CMD_ROLL_KEY_SET"
| "request_ins (ReqSetConfiguration v p n) = DFC_CMD_SET_CONFIGURATION"
| "request_ins ReqNotifyTransactionSuccess = DFC_CMD_NOTIFY_TRANSACTION_SUCCESS"
| "request_ins ReqPrepareProximityCheck = DFC_CMD_PREPARE_PROXIMITY_CHECK"
| "request_ins (ReqProximityCheck p n) = DFC_CMD_PROXIMITY_CHECK"
| "request_ins (ReqVerifyProximityCheck p n) = DFC_CMD_VERIFY_PROXIMITY_CHECK"
| "request_ins (ReqAuthenticate i k) = i"
| "request_ins (ReqAuthenticateEv2First k p n) = DFC_CMD_AUTHENTICATE_EV2_FIRST"
| "request_ins (ReqAuthenticateEv2NonFirst k) = DFC_CMD_AUTHENTICATE_EV2_NON_FIRST"
| "request_ins (ReqAdditionalFrame p n) = DFC_CMD_ADDITIONAL_FRAME"

primrec request_payload :: "request \<Rightarrow> bytes" where
  "request_payload (ReqRaw i p n) = octets p n"
| "request_payload (ReqSelectApplication a s) = rev (octets a 3) @ (if s = None then [] else rev (octets s 3))"
| "request_payload ReqGetVersion = []"
| "request_payload ReqGetFreeMemory = []"
| "request_payload ReqFormatPicc = []"
| "request_payload ReqGetKeySettings = []"
| "request_payload ReqGetApplicationIds = []"
| "request_payload ReqGetDfNames = []"
| "request_payload ReqGetFileIds = []"
| "request_payload ReqGetIsoFileIds = []"
| "request_payload ReqGetCardUid = []"
| "request_payload (ReqReadSignature i) = [i]"
| "request_payload (ReqGetKeyVersion k) = [k]"
| "request_payload ReqGetKeySetVersions = [0x40, 0x80]"
| "request_payload (ReqCreateApplication a) = application_request_octets (the a)"
| "request_payload (ReqDeleteApplication a) = octets a 3"
| "request_payload (ReqCreateDelegatedApplication a) = cda_aid (the a) @ le16 (cda_slot_number (the a)) @ [cda_slot_version (the a)] @ le16 (cda_quota_limit (the a)) @
       [cda_key_settings_1 (the a), cda_key_settings_2 (the a)]"
| "request_payload (ReqGetDelegatedInfo s) = le16 s"
| "request_payload (ReqCreateStandardDataFile d) = data_file_request_octets (the d)"
| "request_payload (ReqCreateBackupDataFile d) = data_file_request_octets (the d)"
| "request_payload (ReqCreateRecordFile d) = file_head_octets (crf_file_no (the d)) (crf_has_iso_file_id (the d)) (crf_iso_file_id (the d))
       (crf_comm_settings (the d)) (crf_access_rights (the d)) @ le24 (crf_record_size (the d)) @ le24 (crf_max_records (the d))"
| "request_payload (ReqCreateValueFile d) = file_head_octets (cvf_file_no (the d)) False 0 (cvf_comm_settings (the d)) (cvf_access_rights (the d)) @
       le32 (cvf_lower_limit (the d)) @ le32 (cvf_upper_limit (the d)) @ le32 (cvf_value (the d)) @ [cvf_limited_credit (the d)]"
| "request_payload (ReqCreateTransactionMacFile d) = file_head_octets (ctf_file_no (the d)) False 0 (ctf_comm_settings (the d)) (ctf_access_rights (the d)) @
       [ctf_key_type (the d)] @ ctf_key (the d) @ [ctf_key_version (the d)]"
| "request_payload (ReqDeleteFile f) = [f]"
| "request_payload (ReqGetFileSettings f) = [f]"
| "request_payload (ReqGetFileCounters f) = [f]"
| "request_payload (ReqChangeFileSettings f m r p n) = [f, m] @ le16 r @ octets p n"
| "request_payload (ReqReadData f x y) = f # le24 x @ le24 y"
| "request_payload (ReqReadDataIso f x y) = f # le24 x @ le24 y"
| "request_payload (ReqWriteData f x p n) = f # le24 x @ le24 (of_nat n) @ octets p n"
| "request_payload (ReqWriteDataIso f x p n) = f # le24 x @ le24 (of_nat n) @ octets p n"
| "request_payload (ReqReadRecords f x y i) = f # le24 x @ le24 y"
| "request_payload (ReqWriteRecord f x p n i) = f # le24 x @ le24 (of_nat n) @ octets p n"
| "request_payload (ReqUpdateRecord f r x p n i) = f # le24 r @ le24 x @ le24 (of_nat n) @ octets p n"
| "request_payload (ReqClearRecordFile f) = [f]"
| "request_payload (ReqGetValue f) = [f]"
| "request_payload (ReqCredit f v) = f # le32 v"
| "request_payload (ReqDebit f v) = f # le32 v"
| "request_payload (ReqLimitedCredit f v) = f # le32 v"
| "request_payload ReqCommitTransaction = []"
| "request_payload (ReqCommitWithOption v) = [v]"
| "request_payload (ReqCommitReaderId p) = octets p 16"
| "request_payload ReqAbortTransaction = []"
| "request_payload (ReqChangeKey k p n) = k # octets p n"
| "request_payload (ReqChangeKeyEv2 s k p n) = s # k # octets p n"
| "request_payload (ReqChangeKeySettings p n) = octets p n"
| "request_payload (ReqInitializeKeySet s t) = [s, t]"
| "request_payload (ReqFinalizeKeySet s v) = [s, v]"
| "request_payload (ReqRollKeySet s) = [s]"
| "request_payload (ReqSetConfiguration v p n) = v # octets p n"
| "request_payload ReqNotifyTransactionSuccess = []"
| "request_payload ReqPrepareProximityCheck = []"
| "request_payload (ReqProximityCheck p n) = octets p n"
| "request_payload (ReqVerifyProximityCheck p n) = octets p n"
| "request_payload (ReqAuthenticate i k) = [k]"
| "request_payload (ReqAuthenticateEv2First k p n) = k # of_nat n # octets p n"
| "request_payload (ReqAuthenticateEv2NonFirst k) = [k]"
| "request_payload (ReqAdditionalFrame p n) = octets p n"

primrec request_readable :: "request \<Rightarrow> bool" where
  "request_readable (ReqRaw i p n) = (readable p n)"
| "request_readable (ReqSelectApplication a s) = (readable a 3 \<and> readable s 3)"
| "request_readable ReqGetVersion = (True)"
| "request_readable ReqGetFreeMemory = (True)"
| "request_readable ReqFormatPicc = (True)"
| "request_readable ReqGetKeySettings = (True)"
| "request_readable ReqGetApplicationIds = (True)"
| "request_readable ReqGetDfNames = (True)"
| "request_readable ReqGetFileIds = (True)"
| "request_readable ReqGetIsoFileIds = (True)"
| "request_readable ReqGetCardUid = (True)"
| "request_readable (ReqReadSignature i) = (True)"
| "request_readable (ReqGetKeyVersion k) = (True)"
| "request_readable ReqGetKeySetVersions = (True)"
| "request_readable (ReqCreateApplication a) = (a = None \<or> length (ca_aid (the a)) = 3 \<and> readable (ca_df_name (the a)) (ca_df_name_len (the a)))"
| "request_readable (ReqDeleteApplication a) = (readable a 3)"
| "request_readable (ReqCreateDelegatedApplication a) = (a = None \<or> length (cda_aid (the a)) = 3)"
| "request_readable (ReqGetDelegatedInfo s) = (True)"
| "request_readable (ReqCreateStandardDataFile d) = (True)"
| "request_readable (ReqCreateBackupDataFile d) = (True)"
| "request_readable (ReqCreateRecordFile d) = (True)"
| "request_readable (ReqCreateValueFile d) = (True)"
| "request_readable (ReqCreateTransactionMacFile d) = (d = None \<or> length (ctf_key (the d)) = 16)"
| "request_readable (ReqDeleteFile f) = (True)"
| "request_readable (ReqGetFileSettings f) = (True)"
| "request_readable (ReqGetFileCounters f) = (True)"
| "request_readable (ReqChangeFileSettings f m r p n) = (readable p n)"
| "request_readable (ReqReadData f x y) = (True)"
| "request_readable (ReqReadDataIso f x y) = (True)"
| "request_readable (ReqWriteData f x p n) = (readable p n)"
| "request_readable (ReqWriteDataIso f x p n) = (readable p n)"
| "request_readable (ReqReadRecords f x y i) = (True)"
| "request_readable (ReqWriteRecord f x p n i) = (readable p n)"
| "request_readable (ReqUpdateRecord f r x p n i) = (readable p n)"
| "request_readable (ReqClearRecordFile f) = (True)"
| "request_readable (ReqGetValue f) = (True)"
| "request_readable (ReqCredit f v) = (True)"
| "request_readable (ReqDebit f v) = (True)"
| "request_readable (ReqLimitedCredit f v) = (True)"
| "request_readable ReqCommitTransaction = (True)"
| "request_readable (ReqCommitWithOption v) = (True)"
| "request_readable (ReqCommitReaderId p) = (readable p 16)"
| "request_readable ReqAbortTransaction = (True)"
| "request_readable (ReqChangeKey k p n) = (readable p n)"
| "request_readable (ReqChangeKeyEv2 s k p n) = (readable p n)"
| "request_readable (ReqChangeKeySettings p n) = (readable p n)"
| "request_readable (ReqInitializeKeySet s t) = (True)"
| "request_readable (ReqFinalizeKeySet s v) = (True)"
| "request_readable (ReqRollKeySet s) = (True)"
| "request_readable (ReqSetConfiguration v p n) = (readable p n)"
| "request_readable ReqNotifyTransactionSuccess = (True)"
| "request_readable ReqPrepareProximityCheck = (True)"
| "request_readable (ReqProximityCheck p n) = (readable p n)"
| "request_readable (ReqVerifyProximityCheck p n) = (readable p n)"
| "request_readable (ReqAuthenticate i k) = (True)"
| "request_readable (ReqAuthenticateEv2First k p n) = (readable p n)"
| "request_readable (ReqAuthenticateEv2NonFirst k) = (True)"
| "request_readable (ReqAdditionalFrame p n) = (readable p n)"

text \<open>The write commands refuse oversized data before they look at anything else.\<close>

definition request_oversized :: "request \<Rightarrow> bool" where
  "request_oversized q \<longleftrightarrow>
     (case q of ReqWriteData f x p n \<Rightarrow> 248 < n | ReqWriteDataIso f x p n \<Rightarrow> 248 < n | ReqWriteRecord f x p n i \<Rightarrow> 248 < n
      | _ \<Rightarrow> False)"

subsection \<open>Every encoder meets its request\<close>

definition meets :: "bool \<Rightarrow> u8 \<Rightarrow> bytes \<Rightarrow> DfcCommand \<Rightarrow> DfcCommandStatus \<times> DfcCommand \<Rightarrow> bool" where
  "meets ok ins xs c r \<longleftrightarrow> (if ok then encoded c ins xs r else r = (DfcCommandInvalid, c))"

lemma file_number_bound: "valid_file_number f \<longleftrightarrow> f < 32"
  by (simp add: valid_file_number_def DFC_COMMAND_MAX_FILE_NUMBER_def word_le_nat_alt word_less_nat_alt less_Suc_eq_le [symmetric])

lemma u24_bound: "x > DFC_COMMAND_UINT24_MAX \<longleftrightarrow> \<not> x < 2 ^ 24"
proof -
  have "x < 2 ^ 24 \<longleftrightarrow> x \<le> 0xFFFFFF" by (simp add: word_le_nat_alt word_less_nat_alt less_Suc_eq_le [symmetric])
  then show ?thesis by (simp add: DFC_COMMAND_UINT24_MAX_def linorder_not_le)
qed

lemma u24_size_bound: "n > unat DFC_COMMAND_UINT24_MAX \<longleftrightarrow> \<not> n < 2 ^ 24"
  by (auto simp: DFC_COMMAND_UINT24_MAX_def)

lemma readable_length: "readable p n \<Longrightarrow> sized p n \<Longrightarrow> n \<le> length (the p) \<or> n = 0"
  by (auto simp: readable_def sized_def split: option.splits)

text \<open>One rule per construct of an encoder: its guards, its branches and its appends.\<close>

lemma meets_cong:
  "meets ok ins xs c r \<Longrightarrow> ok = ok' \<Longrightarrow> (ok' \<Longrightarrow> xs = xs') \<Longrightarrow> (ok' \<Longrightarrow> ins = ins') \<Longrightarrow> meets ok' ins' xs' c r"
  by (auto simp: meets_def)

lemma meets_guard:
  "(\<not> g \<Longrightarrow> meets ok ins xs c r) \<Longrightarrow> meets (\<not> g \<and> ok) ins xs c (if g then (DfcCommandInvalid, c) else r)"
  by (auto simp: meets_def)

lemma meets_option:
  "(\<And>a. p = Some a \<Longrightarrow> meets (ok a) (ins a) (xs a) c (r a)) \<Longrightarrow>
    meets (p \<noteq> None \<and> ok (the p)) (ins (the p)) (xs (the p)) c (case p of None \<Rightarrow> (DfcCommandInvalid, c) | Some a \<Rightarrow> r a)"
  by (cases p) (auto simp: meets_def)

lemma meets_finish: "builder_holds c ins xs b \<Longrightarrow> meets True ins xs c (builder_finish b)"
  using finish_encoded [of c ins xs b xs] by (simp add: meets_def)

lemma put_array_holds:
  "builder_holds c ins xs b \<Longrightarrow> command_wf c \<Longrightarrow> length ys = n \<Longrightarrow> builder_holds c ins (xs @ ys) (put b (Some ys) n)"
  using put_holds [of c ins xs b n "Some ys"] by simp

lemma put_readable_holds:
  "builder_holds c ins xs b \<Longrightarrow> command_wf c \<Longrightarrow> readable p n \<Longrightarrow> sized p n \<Longrightarrow> builder_holds c ins (xs @ octets p n) (put b p n)"
  using put_holds [of c ins xs b n p] readable_length [of p n] by (simp add: octets_def)

lemmas meets_rules = meets_guard meets_finish builder_start_holds put_byte_holds put_u16_holds put_u24_holds put_i32_holds
  put_file_head_holds put_array_holds put_readable_holds

lemma sized_iff: "\<not> (p = None \<and> n \<noteq> 0) \<longleftrightarrow> sized p n"
  by (auto simp: sized_def)

lemma reserved_ids: "has_iso \<and> dfc_iso_file_id_is_reserved fid \<longleftrightarrow> \<not> iso_id_ok has_iso fid"
  by (auto simp: iso_id_ok_def dfc_iso_file_id_is_reserved_def)

lemmas guard_simps = file_number_bound u24_bound sized_iff [symmetric] reserved_ids

lemma simple_meets: "command_wf c \<Longrightarrow> meets True ins [] c (simple c ins)"
  unfolding simple_def by (rule meets_rules | assumption)+

lemma with_byte_meets: "command_wf c \<Longrightarrow> meets True ins [v] c (with_byte c ins v)"
  unfolding with_byte_def by (rule meets_cong, (rule meets_rules | assumption)+) simp_all

lemma with_bytes_meets:
  "command_wf c \<Longrightarrow> readable p n \<Longrightarrow> meets (sized p n) ins (octets p n) c (with_bytes c ins p n)"
  unfolding with_bytes_def by (rule meets_cong, (rule meets_rules | assumption)+) (simp_all add: sized_def)

lemma file_range_meets:
  "command_wf c \<Longrightarrow> readable p n \<Longrightarrow>
    meets (f < 32 \<and> x < 2 ^ 24 \<and> y < 2 ^ 24 \<and> sized p n) ins (f # le24 x @ le24 y @ octets p n) c (file_range c ins f x y p n)"
  unfolding file_range_def Let_def by (rule meets_cong, (rule meets_rules | assumption)+) (auto simp: guard_simps)

lemma change_value_meets: "command_wf c \<Longrightarrow> meets (f < 32) ins (f # le32 v) c (change_value c ins f v)"
  unfolding change_value_def Let_def by (rule meets_cong, (rule meets_rules | assumption)+) (auto simp: guard_simps)

lemma data_file_meets:
  "command_wf c \<Longrightarrow> meets (d \<noteq> None \<and> data_file_request_ok (the d)) ins (data_file_request_octets (the d)) c (data_file c ins d)"
  unfolding data_file_def Let_def
  by (rule meets_cong, rule meets_option, (rule meets_rules | assumption)+)
    (auto simp: guard_simps data_file_request_ok_def data_file_request_octets_def file_head_octets_def)

lemma record_file_meets:
  "command_wf c \<Longrightarrow> meets (d \<noteq> None \<and> record_file_request_ok (the d)) (request_ins (ReqCreateRecordFile d))
    (request_payload (ReqCreateRecordFile d)) c (dfc_command_create_record_file c d)"
  unfolding dfc_command_create_record_file_def Let_def
  by (rule meets_cong, rule meets_option, (rule meets_rules | assumption)+)
    (auto simp: guard_simps record_file_request_ok_def file_head_octets_def word_gt_0)

lemma value_file_meets:
  "command_wf c \<Longrightarrow> meets (request_valid (ReqCreateValueFile d)) DFC_CMD_CREATE_VALUE_FILE
    (request_payload (ReqCreateValueFile d)) c (dfc_command_create_value_file c d)"
  unfolding dfc_command_create_value_file_def Let_def
  by (rule meets_cong, rule meets_option, (rule meets_rules | assumption)+) (auto simp: guard_simps file_head_octets_def)

lemma transaction_mac_file_meets:
  "command_wf c \<Longrightarrow> request_readable (ReqCreateTransactionMacFile d) \<Longrightarrow>
    meets (request_valid (ReqCreateTransactionMacFile d)) DFC_CMD_CREATE_TRANSACTION_MAC_FILE
      (request_payload (ReqCreateTransactionMacFile d)) c (dfc_command_create_transaction_mac_file c d)"
  unfolding dfc_command_create_transaction_mac_file_def Let_def
  by (rule meets_cong, rule meets_option, (rule meets_rules | assumption)+)
    (auto simp: guard_simps file_head_octets_def command_constants)

lemma delegated_application_meets:
  "command_wf c \<Longrightarrow> request_readable (ReqCreateDelegatedApplication d) \<Longrightarrow>
    meets (d \<noteq> None) DFC_CMD_CREATE_DELEGATED_APPLICATION
      (request_payload (ReqCreateDelegatedApplication d)) c (dfc_command_create_delegated_application c d)"
  unfolding dfc_command_create_delegated_application_def Let_def
  by (rule meets_cong, rule meets_option, (rule meets_rules | assumption)+) (auto simp: command_constants)

lemma change_file_settings_meets:
  "command_wf c \<Longrightarrow> readable p n \<Longrightarrow>
    meets (f < 32 \<and> sized p n) DFC_CMD_CHANGE_FILE_SETTINGS ([f, m] @ le16 r @ octets p n) c
      (dfc_command_change_file_settings c f m r p n)"
  unfolding dfc_command_change_file_settings_def Let_def
  by (rule meets_cong, (rule meets_rules | assumption)+) (auto simp: guard_simps)

lemma update_record_meets:
  "command_wf c \<Longrightarrow> readable p n \<Longrightarrow>
    meets (request_valid (ReqUpdateRecord f r x p n i)) (request_ins (ReqUpdateRecord f r x p n i))
      (request_payload (ReqUpdateRecord f r x p n i)) c (dfc_command_update_record c f r x p n i)"
  unfolding dfc_command_update_record_def Let_def
  by (rule meets_cong, (rule meets_rules | assumption)+)
    (auto simp: guard_simps u24_size_bound)

lemma change_key_meets:
  "command_wf c \<Longrightarrow> readable p n \<Longrightarrow>
    meets (p \<noteq> None \<and> 0 < n) DFC_CMD_CHANGE_KEY (k # octets p n) c (dfc_command_change_key c k p n)"
  unfolding dfc_command_change_key_def Let_def
  by (rule meets_cong, (rule meets_rules | assumption)+) (auto simp: sized_def)

lemma change_key_ev2_meets:
  "command_wf c \<Longrightarrow> readable p n \<Longrightarrow>
    meets (p \<noteq> None \<and> 0 < n) DFC_CMD_CHANGE_KEY_EV2 (s # k # octets p n) c (dfc_command_change_key_ev2 c s k p n)"
  unfolding dfc_command_change_key_ev2_def Let_def
  by (rule meets_cong, (rule meets_rules | assumption)+) (auto simp: sized_def)

lemma set_configuration_meets:
  "command_wf c \<Longrightarrow> readable p n \<Longrightarrow>
    meets (sized p n) DFC_CMD_SET_CONFIGURATION (v # octets p n) c (dfc_command_set_configuration c v p n)"
  unfolding dfc_command_set_configuration_def Let_def
  by (rule meets_cong, (rule meets_rules | assumption)+) (auto simp: sized_def)

lemma authenticate_ev2_first_meets:
  "command_wf c \<Longrightarrow> readable p n \<Longrightarrow>
    meets (n = (if p = None then 0 else 6)) DFC_CMD_AUTHENTICATE_EV2_FIRST (k # of_nat n # octets p n) c
      (dfc_command_authenticate_ev2_first c k p n)"
  unfolding dfc_command_authenticate_ev2_first_def Let_def
  by (rule meets_cong, (rule meets_rules | assumption)+) (auto simp: sized_def command_constants split: if_splits)

lemma select_application_meets:
  assumes wf: "command_wf c" and rd: "readable a 3" "readable s 3"
  shows "meets (a \<noteq> None) DFC_CMD_SELECT_APPLICATION (rev (octets a 3) @ (if s = None then [] else rev (octets s 3))) c
    (dfc_command_select_application c a s)"
proof (cases a)
  case (Some x)
  have three: "rev (take 3 y) = [y ! 2, y ! 1, y ! 0]" if "3 \<le> length y" for y :: bytes
    using that by (cases y rule: list.exhaust; cases "tl y"; cases "tl (tl y)") (auto simp: numeral_3_eq_3)
  have ox: "rev (octets a 3) = [x ! 2, x ! 1, x ! 0]" using rd(1) Some by (simp add: readable_def octets_def three)
  have one: "builder_holds c DFC_CMD_SELECT_APPLICATION ([] @ [x ! 2, x ! 1, x ! 0])
      (put (builder_start c DFC_CMD_SELECT_APPLICATION) (Some [x ! 2, x ! 1, x ! 0]) DFC_COMMAND_AID_LENGTH)" (is "builder_holds c _ _ ?b")
    by (rule put_array_holds [OF builder_start_holds wf]) (simp add: command_constants)
  show ?thesis
  proof (cases s)
    case None
    show ?thesis unfolding dfc_command_select_application_def Some None option.case Let_def
      by (rule meets_cong [OF meets_finish [OF one]]) (simp_all add: ox [unfolded Some])
  next
    case s: (Some y)
    have oy: "rev (octets s 3) = [y ! 2, y ! 1, y ! 0]" using rd(2) s by (simp add: readable_def octets_def three)
    have "builder_holds c DFC_CMD_SELECT_APPLICATION (([] @ [x ! 2, x ! 1, x ! 0]) @ [y ! 2, y ! 1, y ! 0])
      (put ?b (Some [y ! 2, y ! 1, y ! 0]) DFC_COMMAND_AID_LENGTH)"
      by (rule put_array_holds [OF one wf]) (simp add: command_constants)
    then show ?thesis unfolding dfc_command_select_application_def Some s option.case Let_def
      by (rule meets_cong [OF meets_finish]) (simp_all add: ox [unfolded Some] oy [unfolded s])
  qed
qed (simp add: meets_def dfc_command_select_application_def)

lemma create_application_ok: "create_application_is_valid a = application_request_ok a"
proof -
  have bounds: "x > EXTENDED_SETTINGS_MAX \<longleftrightarrow> \<not> x < 0x20" "x > KEY_SET_ROLL_KEY_MAX \<longleftrightarrow> \<not> x < 14"
    "x < KEY_SET_COUNT_MIN \<longleftrightarrow> \<not> 2 \<le> x" "x > KEY_SET_COUNT_MAX \<longleftrightarrow> \<not> x \<le> 16" for x :: u8
    by (auto simp: EXTENDED_SETTINGS_MAX_def KEY_SET_ROLL_KEY_MAX_def KEY_SET_COUNT_MIN_def KEY_SET_COUNT_MAX_def
      word_le_nat_alt word_less_nat_alt)
  have res: "dfc_iso_file_id_is_reserved v \<longleftrightarrow> v \<in> {0x0000, 0x3F00, 0x3FFF, 0xFFFF}" for v
    by (simp add: dfc_iso_file_id_is_reserved_def)
  show ?thesis
    unfolding create_application_is_valid_def application_request_ok_def bounds res Let_def command_constants
      DFC_EXTENDED_SETTINGS_KEY_SETS_def DFC_KEY_SET_MAXIMUM_16_BYTE_def DFC_KEY_SET_MAXIMUM_24_BYTE_def
    by (cases "ca_df_name a") (simp_all add: Suc_le_eq, blast+)
qed

lemma create_application_meets:
  assumes wf: "command_wf c" and rd: "request_readable (ReqCreateApplication a)"
  shows "meets (request_valid (ReqCreateApplication a)) DFC_CMD_CREATE_APPLICATION (request_payload (ReqCreateApplication a)) c
    (dfc_command_create_application c a)"
proof (cases "a \<noteq> None \<and> application_request_ok (the a)")
  case True
  then obtain x where a: "a = Some x" and ok: "application_request_ok x" by auto
  let ?ins = DFC_CMD_CREATE_APPLICATION
  define ks2 where "ks2 = ca_key_settings_2 x OR (if ca_has_iso_file_id x then 0x20 else 0) OR
      (if ca_has_extended_settings x then 0x10 else 0)"
  define ext where "ext = (if ca_has_extended_settings x
      then ca_extended_settings x #
        (if ca_has_key_sets x
         then [ca_key_set_version x, ca_key_set_count x, ca_key_set_max_key_size x, ca_key_set_roll_key_no x] else [])
      else [])"
  have la: "length (ca_aid x) = DFC_COMMAND_AID_LENGTH" and rn: "readable (ca_df_name x) (ca_df_name_len x)"
    using rd a by (simp_all add: command_constants)
  have ks: "(if ca_has_extended_settings x
      then (if ca_has_iso_file_id x then ca_key_settings_2 x OR DFC_KS2_ISO_FILE_IDS else ca_key_settings_2 x) OR DFC_KS2_EXTENDED_SETTINGS
      else if ca_has_iso_file_id x then ca_key_settings_2 x OR DFC_KS2_ISO_FILE_IDS else ca_key_settings_2 x) = ks2"
    by (simp add: ks2_def DFC_KS2_ISO_FILE_IDS_def DFC_KS2_EXTENDED_SETTINGS_def or.assoc)
  define b1 where "b1 = put_byte (put_byte (put (builder_start c ?ins) (Some (ca_aid x)) DFC_COMMAND_AID_LENGTH)
      (ca_key_settings_1 x)) ks2"
  have h1: "builder_holds c ?ins (ca_aid x @ [ca_key_settings_1 x, ks2]) b1"
    unfolding b1_def by (rule holds_eq, (rule meets_rules | rule wf | rule la)+) simp
  define b2 where "b2 = (if ca_has_extended_settings x
      then if ca_has_key_sets x
        then put_byte (put_byte (put_byte (put_byte (put_byte b1 (ca_extended_settings x)) (ca_key_set_version x))
          (ca_key_set_count x)) (ca_key_set_max_key_size x)) (ca_key_set_roll_key_no x)
        else put_byte b1 (ca_extended_settings x)
      else b1)"
  have h2: "builder_holds c ?ins ((ca_aid x @ [ca_key_settings_1 x, ks2]) @ ext) b2"
    unfolding b2_def ext_def
    by (cases "ca_has_extended_settings x"; cases "ca_has_key_sets x"; simp only: if_True if_False;
        rule holds_eq, (rule put_byte_holds h1 wf)+; simp)
  define b3 where "b3 = (if ca_has_iso_file_id x then put_u16 b2 (ca_iso_file_id x) else b2)"
  have h3: "builder_holds c ?ins (((ca_aid x @ [ca_key_settings_1 x, ks2]) @ ext) @
      (if ca_has_iso_file_id x then le16 (ca_iso_file_id x) else [])) b3"
    unfolding b3_def by (rule if_holds [OF put_u16_holds [OF h2 wf] h2])
  define b4 where "b4 = (if ca_df_name x \<noteq> None then put b3 (ca_df_name x) (ca_df_name_len x) else b3)"
  have "builder_holds c ?ins (application_request_octets x) b4"
  proof (cases "ca_df_name x")
    case None
    then have "octets (ca_df_name x) (ca_df_name_len x) = []" using ok by (simp add: application_request_ok_def octets_def)
    then show ?thesis using h3 None by (simp add: b4_def application_request_octets_def ks2_def ext_def)
  next
    case (Some nm)
    then have "sized (ca_df_name x) (ca_df_name_len x)" by (simp add: sized_def)
    from put_readable_holds [OF h3 wf rn this] show ?thesis
      using Some by (simp add: b4_def application_request_octets_def ks2_def ext_def)
  qed
  moreover have "dfc_command_create_application c a = builder_finish b4"
    unfolding dfc_command_create_application_def a option.case create_application_ok Let_def ks
    using ok by (simp add: b4_def b3_def b2_def b1_def)
  ultimately show ?thesis using True a finish_encoded [of c ?ins "application_request_octets x" b4] by (simp add: meets_def)
next
  case False
  then show ?thesis
    by (cases a) (simp_all add: meets_def dfc_command_create_application_def create_application_ok)
qed

lemma write_data_meets:
  assumes "command_wf c" "readable p n" "\<not> 248 < n"
  shows "meets (f < 32 \<and> x < 2 ^ 24 \<and> sized p n) DFC_CMD_WRITE_DATA (f # le24 x @ le24 (of_nat n) @ octets p n) c
      (dfc_command_write_data c f x p n)"
    "meets (f < 32 \<and> x < 2 ^ 24 \<and> sized p n) DFC_CMD_WRITE_DATA_ISO (f # le24 x @ le24 (of_nat n) @ octets p n) c
      (dfc_command_write_data_iso_chaining c f x p n)"
    "meets (f < 32 \<and> x < 2 ^ 24 \<and> sized p n) (if i then DFC_CMD_WRITE_RECORD_ISO else DFC_CMD_WRITE_RECORD)
      (f # le24 x @ le24 (of_nat n) @ octets p n) c (dfc_command_write_record c f x p n i)"
proof -
  have small: "(of_nat n :: u32) < 2 ^ 24" using assms(3) by (simp add: word_less_nat_alt)
  have fits: "\<not> n > DFC_COMMAND_MAX_DATA - FILE_HEADER_LENGTH" using assms(3) by (simp add: command_constants)
  have wr: "meets (f < 32 \<and> x < 2 ^ 24 \<and> sized p n) ins (f # le24 x @ le24 (of_nat n) @ octets p n) c
      (file_range c ins f x (of_nat n) p n)" for ins
    using small by (intro meets_cong [OF file_range_meets [OF assms(1,2)]]) simp_all
  show "meets (f < 32 \<and> x < 2 ^ 24 \<and> sized p n) DFC_CMD_WRITE_DATA (f # le24 x @ le24 (of_nat n) @ octets p n) c
      (dfc_command_write_data c f x p n)"
    "meets (f < 32 \<and> x < 2 ^ 24 \<and> sized p n) DFC_CMD_WRITE_DATA_ISO (f # le24 x @ le24 (of_nat n) @ octets p n) c
      (dfc_command_write_data_iso_chaining c f x p n)"
    "meets (f < 32 \<and> x < 2 ^ 24 \<and> sized p n) (if i then DFC_CMD_WRITE_RECORD_ISO else DFC_CMD_WRITE_RECORD)
      (f # le24 x @ le24 (of_nat n) @ octets p n) c (dfc_command_write_record c f x p n i)"
    unfolding dfc_command_write_data_def dfc_command_write_data_iso_chaining_def dfc_command_write_record_def if_not_P [OF fits]
    by (rule wr)+
qed

lemma read_data_meets:
  assumes "command_wf c"
  shows "meets (f < 32 \<and> x < 2 ^ 24 \<and> y < 2 ^ 24) ins (f # le24 x @ le24 y) c (file_range c ins f x y None 0)"
  by (rule meets_cong, rule file_range_meets, rule assms) (auto simp: readable_def sized_def octets_def)

lemmas encoder_meets = simple_meets with_byte_meets with_bytes_meets change_value_meets data_file_meets record_file_meets
  value_file_meets transaction_mac_file_meets delegated_application_meets change_file_settings_meets update_record_meets
  change_key_meets change_key_ev2_meets set_configuration_meets authenticate_ev2_first_meets select_application_meets
  create_application_meets write_data_meets read_data_meets

lemmas encoder_defs = dfc_command_encode_raw_def dfc_command_get_version_def dfc_command_get_free_memory_def
  dfc_command_format_picc_def dfc_command_get_key_settings_def dfc_command_get_application_ids_def dfc_command_get_df_names_def
  dfc_command_get_file_ids_def dfc_command_get_iso_file_ids_def dfc_command_get_card_uid_def dfc_command_read_signature_def
  dfc_command_get_key_version_def dfc_command_get_key_set_versions_def dfc_command_delete_application_def
  dfc_command_get_delegated_application_info_def dfc_command_create_standard_data_file_def
  dfc_command_create_backup_data_file_def dfc_command_delete_file_def dfc_command_get_file_settings_def
  dfc_command_get_file_counters_def dfc_command_read_data_def dfc_command_read_data_iso_chaining_def
  dfc_command_read_records_def dfc_command_clear_record_file_def dfc_command_get_value_def dfc_command_credit_def
  dfc_command_debit_def dfc_command_limited_credit_def dfc_command_commit_transaction_def
  dfc_command_commit_transaction_with_option_def dfc_command_commit_reader_id_def dfc_command_abort_transaction_def
  dfc_command_change_key_settings_def dfc_command_initialize_key_set_def dfc_command_finalize_key_set_def
  dfc_command_roll_key_set_def dfc_command_notify_transaction_success_def dfc_command_prepare_proximity_check_def
  dfc_command_proximity_check_def dfc_command_verify_proximity_check_def dfc_command_authenticate_def
  dfc_command_authenticate_ev2_non_first_def dfc_command_additional_frame_def

lemma encode_request_meets:
  "command_wf c \<Longrightarrow> request_readable q \<Longrightarrow> \<not> request_oversized q \<Longrightarrow>
    meets (request_valid q) (request_ins q) (request_payload q) c (encode_request q c)"
  by (cases q; hypsubst_thin;
      (simp only: encode_request.simps encoder_defs request_readable.simps request_oversized_def request.case,
       rule meets_cong, (rule encoder_meets meets_rules | assumption)+))
    (auto simp: guard_simps sized_def readable_def octets_def command_constants command_codes
      KEY_SET_VERSION_SELECTOR_def KEY_SET_VERSION_OPTION_def)

lemma encode_request_oversized:
  "request_oversized q \<Longrightarrow> encode_request q c = (DfcCommandTooLong, c)"
  by (cases q) (simp_all add: request_oversized_def dfc_command_write_data_def dfc_command_write_data_iso_chaining_def
    dfc_command_write_record_def command_constants)

lemma command_filled_wf:
  "command_wf c \<Longrightarrow> length xs \<le> DFC_COMMAND_MAX_DATA \<Longrightarrow>
    command_wf (command_filled c ins xs) \<and> command_payload (command_filled c ins xs) = xs \<and>
    cmd_ins (command_filled c ins xs) = ins \<and> cmd_data_len (command_filled c ins xs) = length xs"
  by (simp add: command_filled_def command_wf_def command_payload_def) (simp add: mem_write_def)

subsection \<open>The frames\<close>

text \<open>The ISO 7816 envelope of a command, and what a receiver reads from one.\<close>

definition command_apdu :: "DfcCommand \<Rightarrow> bytes" where
  "command_apdu c = [0x90, cmd_ins c, 0x00, 0x00] @
     (case command_payload c of [] \<Rightarrow> [0x00] | xs \<Rightarrow> of_nat (length xs) # xs @ [0x00])"

definition apdu_fields :: "bytes \<Rightarrow> u8 \<times> bytes" where
  "apdu_fields a = (a ! 1, if length a = 5 then [] else take (unat (a ! 4)) (drop 5 a))"

lemma length_command_payload:
  "command_wf c \<Longrightarrow> cmd_data_len c \<le> DFC_COMMAND_MAX_DATA \<Longrightarrow> length (command_payload c) = cmd_data_len c"
  by (simp add: command_payload_def command_wf_def)

lemma length_command_apdu:
  assumes "command_wf c" "cmd_data_len c \<le> DFC_COMMAND_MAX_DATA"
  shows "length (command_apdu c) = (if cmd_data_len c \<noteq> 0 then cmd_data_len c + 6 else 5)"
  using length_command_payload [OF assms] by (cases "command_payload c") (auto simp: command_apdu_def)

lemma apdu_fields_apdu:
  assumes "command_wf c" "cmd_data_len c \<le> DFC_COMMAND_MAX_DATA"
  shows "apdu_fields (command_apdu c) = (cmd_ins c, command_payload c)"
proof (cases "command_payload c")
  case Nil
  then show ?thesis by (simp add: apdu_fields_def command_apdu_def)
next
  case (Cons x xs)
  then have "length (x # xs) < 256" using length_command_payload [OF assms] assms(2) by (simp add: command_constants)
  then have "unat (of_nat (length (x # xs)) :: u8) = length (x # xs)" by (rule unat_of_nat_u8)
  then show ?thesis unfolding apdu_fields_def command_apdu_def Cons by (simp del: of_nat_Suc)
qed

lemma mem_write_over: "length xs \<le> length buf \<Longrightarrow> mem_write 0 xs buf = xs @ drop (length xs) buf"
  by (simp add: mem_write_def)

lemma mem_write_Suc: "mem_write (Suc k) xs (y # buf) = y # mem_write k xs buf"
  by (simp add: mem_write_def)

lemma list_update_over: "length xs = k \<Longrightarrow> (xs @ y # ys)[k := z] = xs @ z # ys"
  by (simp add: list_update_append)

lemma to_apdu_effect:
  assumes wf: "command_wf c" and len: "cmd_data_len c \<le> DFC_COMMAND_MAX_DATA" and cap: "cap \<le> length out"
  shows "dfc_command_to_apdu c out cap n =
    (if length (command_apdu c) \<le> cap
     then (DfcCommandOk, command_apdu c @ drop (length (command_apdu c)) out, length (command_apdu c))
     else (DfcCommandTooLong, out, n))"
proof -
  define k where "k = cmd_data_len c"
  have la: "length (command_apdu c) = (if k \<noteq> 0 then k + 6 else 5)" using length_command_apdu [OF wf len] by (simp add: k_def)
  have lp: "length (command_payload c) = k" using length_command_payload [OF wf len] by (simp add: k_def)
  show ?thesis
  proof (cases "length (command_apdu c) \<le> cap")
    case True
    then have "5 \<le> length out" using la cap by (auto split: if_splits)
    then obtain o0 o1 o2 o3 o4 rest where out: "out = o0 # o1 # o2 # o3 # o4 # rest"
      by (auto simp: numeral_eq_Suc Suc_le_length_iff)
    have "dfc_command_to_apdu c out cap n = (DfcCommandOk, command_apdu c @ drop (length (command_apdu c)) out, length (command_apdu c))"
    proof (cases "command_payload c")
      case Nil
      then have k: "k = 0" using lp by simp
      then have a: "command_apdu c = [0x90, cmd_ins c, 0, 0, 0]" using Nil by (simp add: command_apdu_def)
      show ?thesis using True k len unfolding a out
        by (simp add: dfc_command_to_apdu_def k_def [symmetric] Let_def DFC_ISO7816_CLA_WRAPPER_def)
    next
      case (Cons x xs)
      then have k: "0 < k" using lp by auto
      then have kr: "k < length rest" using True la cap by (simp add: out)
      then obtain y ys where r: "drop k rest = y # ys" by (metis Cons_nth_drop_Suc)
      have a: "command_apdu c = [0x90, cmd_ins c, 0, 0, of_nat k] @ command_payload c @ [0]"
        using lp by (simp add: command_apdu_def Cons del: of_nat_Suc)
      have w: "mem_write 5 (command_payload c) (v0 # v1 # v2 # v3 # v4 # rest) =
          v0 # v1 # v2 # v3 # v4 # command_payload c @ y # ys"
        for v0 v1 v2 v3 v4
        using kr lp r by (simp add: numeral_eq_Suc mem_write_Suc mem_write_over)
      have u: "(command_payload c @ y # ys)[k := 0] = command_payload c @ 0 # ys" using lp by (rule list_update_over)
      have d: "drop (length (command_apdu c)) out = ys" using r lp by (simp add: a out numeral_eq_Suc drop_Suc flip: tl_drop)
      have tp: "take k (cmd_data c) = command_payload c" by (simp add: command_payload_def k_def)
      have fits: "\<not> k + DFC_COMMAND_APDU_OVERHEAD > cap" using True la k by (simp add: command_constants)
      show ?thesis using k len fits
        unfolding dfc_command_to_apdu_def k_def [symmetric] Let_def d tp
        by (simp add: out w u a lp DFC_ISO7816_CLA_WRAPPER_def DFC_COMMAND_APDU_OVERHEAD_def)
    qed
    then show ?thesis using True by simp
  next
    case False
    then have "(if k \<noteq> 0 then k + DFC_COMMAND_APDU_OVERHEAD else 5) > cap" using la by (simp add: command_constants split: if_splits)
    then show ?thesis using False len unfolding dfc_command_to_apdu_def Let_def k_def [symmetric] by simp
  qed
qed

lemma to_frame_effect:
  assumes wf: "command_wf c" and len: "cmd_data_len c \<le> DFC_COMMAND_MAX_DATA" and cap: "cap \<le> length out"
  shows "dfc_command_to_frame c out cap n =
    (if Suc (cmd_data_len c) \<le> cap
     then (DfcCommandOk, (cmd_ins c # command_payload c) @ drop (Suc (cmd_data_len c)) out, Suc (cmd_data_len c))
     else (DfcCommandTooLong, out, n))"
proof (cases "Suc (cmd_data_len c) \<le> cap")
  case True
  then obtain x xs where out: "out = x # xs" using cap by (cases out) auto
  have "mem_write 1 (command_payload c) (cmd_ins c # xs) = cmd_ins c # command_payload c @ drop (cmd_data_len c) xs"
    using True cap length_command_payload [OF wf len] by (simp add: out mem_write_Suc mem_write_over)
  moreover have "cmd_data_len c = 0 \<Longrightarrow> command_payload c = []" by (simp add: command_payload_def)
  ultimately show ?thesis using True len
    by (simp add: dfc_command_to_frame_def out Let_def command_payload_def [symmetric])
next
  case False
  then show ?thesis using len by (simp add: dfc_command_to_frame_def)
qed

subsection \<open>Properties\<close>


definition blank_command :: DfcCommand where
  "blank_command = \<lparr>cmd_ins = 0, cmd_data = replicate 255 0, cmd_data_len = 0\<rparr>"

lemma blank_command_wf: "command_wf blank_command"
  by (simp add: command_wf_def blank_command_def command_constants)


text \<open>
  Framing is exact and loses nothing: a command is written as its ISO 7816 envelope or bare
  frame exactly when the buffer is large enough, the octets behind are untouched, and the
  instruction and data read back from the envelope are those of the command.
\<close>

theorem dfc_command_framing_round_trip:
  assumes "command_wf c" "cmd_data_len c \<le> 255" "cap \<le> length out"
  shows "dfc_command_to_apdu c out cap n =
      (if length (command_apdu c) \<le> cap
       then (DfcCommandOk, command_apdu c @ drop (length (command_apdu c)) out, length (command_apdu c))
       else (DfcCommandTooLong, out, n)) \<and>
    dfc_command_to_frame c out cap n =
      (if Suc (cmd_data_len c) \<le> cap
       then (DfcCommandOk, (cmd_ins c # command_payload c) @ drop (Suc (cmd_data_len c)) out, Suc (cmd_data_len c))
       else (DfcCommandTooLong, out, n)) \<and>
    apdu_fields (command_apdu c) = (cmd_ins c, command_payload c) \<and>
    length (command_apdu c) \<le> 261"
  using assms to_apdu_effect [of c cap out n] to_frame_effect [of c cap out n] apdu_fields_apdu [of c] length_command_apdu [of c]
  by (simp add: command_constants)

theorem dfc_command_framing_round_trip_witness:
  "dfc_command_to_apdu (command_filled blank_command 0x3D [1, 2]) (replicate 10 9) 10 0 =
     (DfcCommandOk, [0x90, 0x3D, 0, 0, 2, 1, 2, 0, 9, 9], 8)"
proof -
  let ?c = "command_filled blank_command 0x3D [1, 2]"
  have f: "command_wf ?c" "command_payload ?c = [1, 2]" "cmd_ins ?c = 0x3D" "cmd_data_len ?c = 2"
    using command_filled_wf [OF blank_command_wf, of "[1, 2]" "0x3D"] by (simp_all add: command_constants)
  then have a: "command_apdu ?c = [0x90, 0x3D, 0, 0, 2, 1, 2, 0]" by (simp add: command_apdu_def)
  have "(10::nat) \<le> length (replicate 10 (9::u8))" by simp
  from dfc_command_framing_round_trip [OF f(1) _ this, where n = 0, unfolded a f(4)] show ?thesis by (simp add: numeral_eq_Suc)
qed

text \<open>
  No argument is truncated on the wire: from the octets of a range command the file number,
  both 24-bit fields and the content come back exactly as the caller passed them.
\<close>

theorem dfc_command_range_fields:
  assumes "command_wf c" "readable p n" "fst (file_range c ins f x y p n) = DfcCommandOk"
  shows "cmd_ins (snd (file_range c ins f x y p n)) = ins \<and>
    (let d = command_payload (snd (file_range c ins f x y p n)) in
     d ! 0 = f \<and> read_u24_le (drop 1 d) = x \<and> read_u24_le (drop 4 d) = y \<and> drop 7 d = octets p n \<and> f < 32)"
proof -
  have m: "meets (f < 32 \<and> x < 2 ^ 24 \<and> y < 2 ^ 24 \<and> sized p n) ins (f # le24 x @ le24 y @ octets p n) c (file_range c ins f x y p n)"
    using assms(1,2) by (rule file_range_meets)
  have ok: "f < 32 \<and> x < 2 ^ 24 \<and> y < 2 ^ 24 \<and> sized p n"
    using m assms(3) by (cases "f < 32 \<and> x < 2 ^ 24 \<and> y < 2 ^ 24 \<and> sized p n") (simp_all add: meets_def)
  let ?d = "f # le24 x @ le24 y @ octets p n"
  have e: "encoded c ins ?d (file_range c ins f x y p n)" using m ok by (simp add: meets_def)
  then have fit: "length ?d \<le> DFC_COMMAND_MAX_DATA" using assms(3) by (auto simp: encoded_def split: if_splits)
  then have r: "file_range c ins f x y p n = (DfcCommandOk, command_filled c ins ?d)" using e by (simp add: encoded_def)
  have b: "x \<le> 0xFFFFFF" "y \<le> 0xFFFFFF" using ok u24_bound [of x] u24_bound [of y]
    by (simp_all add: DFC_COMMAND_UINT24_MAX_def linorder_not_less)
  have "drop 4 ?d = le24 y @ octets p n" "drop 7 ?d = octets p n" by (simp_all add: drop_Cons')
  then show ?thesis using command_filled_wf [OF assms(1) fit] b ok unfolding r Let_def by simp
qed

theorem dfc_command_range_fields_witness:
  "read_u24_le (drop 1 (command_payload (snd (file_range blank_command 0x3D 5 0x010203 2 (Some [7, 8]) 2)))) = 0x010203"
proof -
  have rd: "readable (Some [7, 8]) 2" by (simp add: readable_def)
  have "fst (file_range blank_command 0x3D 5 0x010203 2 (Some [7, 8]) 2) = DfcCommandOk"
    using file_range_meets [OF blank_command_wf rd, of 5 "0x010203" 2 "0x3D"]
    by (simp add: meets_def encoded_def sized_def octets_def command_constants)
  from dfc_command_range_fields [OF blank_command_wf rd this] show ?thesis by (simp add: Let_def)
qed

end
