(* ===== verification/Dfc_Emulator_State.thy ===== *)
theory Dfc_Emulator_State
  imports Dfc_Credential Dfc_Transaction_Mac
begin

text \<open>
  The state of the card emulator, \<^verbatim>\<open>DfcEmulator\<close> of \<^verbatim>\<open>src/dfc_emulator.h\<close>, with every
  feature enabled, and its response buffer \<^verbatim>\<open>DfcByteBuf\<close> (\<^verbatim>\<open>port/dfc_bytebuf.h\<close>,
  \<^verbatim>\<open>port/host/dfc_bytebuf_host.c\<close>). The struct's fields keep their names and widths and are
  grouped by the part of the protocol they serve, one record per group. A heap pointer is an
  option over the buffer it points to. The arms of the union of pending secrets are side by side:
  every use of it is a write to one arm or a wipe of the whole.
\<close>

subsection \<open>The response buffer\<close>

definition DFC_BYTEBUF_MAX :: size_t where "DFC_BYTEBUF_MAX = 256"

record DfcByteBuf =
  buf_data :: bytes
  buf_size_bytes :: size_t

definition dfc_bytebuf_reset :: "DfcByteBuf \<Rightarrow> DfcByteBuf" where
  "dfc_bytebuf_reset b = b\<lparr>buf_size_bytes := 0\<rparr>"

definition dfc_bytebuf_append_bytes :: "DfcByteBuf \<Rightarrow> bytes \<Rightarrow> DfcByteBuf" where
  "dfc_bytebuf_append_bytes b xs =
     (if buf_size_bytes b + length xs > DFC_BYTEBUF_MAX then b
      else b\<lparr>buf_data := mem_write (buf_size_bytes b) xs (buf_data b), buf_size_bytes := buf_size_bytes b + length xs\<rparr>)"

definition dfc_bytebuf_append_byte :: "DfcByteBuf \<Rightarrow> u8 \<Rightarrow> DfcByteBuf" where
  "dfc_bytebuf_append_byte b x =
     (if buf_size_bytes b + 1 > DFC_BYTEBUF_MAX then b
      else b\<lparr>buf_data := (buf_data b)[buf_size_bytes b := x], buf_size_bytes := buf_size_bytes b + 1\<rparr>)"

definition dfc_bytebuf_get_size_bytes :: "DfcByteBuf \<Rightarrow> size_t" where
  "dfc_bytebuf_get_size_bytes b = buf_size_bytes b"

definition zero_bytebuf :: DfcByteBuf where
  "zero_bytebuf = \<lparr>buf_data = replicate DFC_BYTEBUF_MAX 0, buf_size_bytes = 0\<rparr>"

subsection \<open>Constants\<close>

definition DFC_SDM_READ_CACHE_SIZE :: size_t where "DFC_SDM_READ_CACHE_SIZE = 192"
definition DFC_TRANSACTION_FILE_BITMAP_SIZE :: size_t where
  "DFC_TRANSACTION_FILE_BITMAP_SIZE = (DFC_MAX_FILES + 7) div 8"
definition DFC_EMULATOR_CHAIN_BUFFER_SIZE :: size_t where "DFC_EMULATOR_CHAIN_BUFFER_SIZE = DFC_MAX_FILE_DATA + 32"
definition DFC_EV2_RANDOM_LENGTH :: size_t where "DFC_EV2_RANDOM_LENGTH = 16"
definition DFC_EV2_TRANSACTION_IDENTIFIER_LENGTH :: size_t where "DFC_EV2_TRANSACTION_IDENTIFIER_LENGTH = 4"
definition DFC_EV2_CAPABILITY_LENGTH :: size_t where "DFC_EV2_CAPABILITY_LENGTH = 6"
definition DFC_ISO7816_AUTH_CHALLENGE_LONG :: size_t where "DFC_ISO7816_AUTH_CHALLENGE_LONG = 16"
definition DFC_PROXIMITY_RANDOM_LENGTH :: size_t where "DFC_PROXIMITY_RANDOM_LENGTH = 8"
definition DFC_PROXIMITY_PUBLISHED_TIME_LENGTH :: size_t where "DFC_PROXIMITY_PUBLISHED_TIME_LENGTH = 2"
definition DFC_PROXIMITY_TRANSCRIPT_MAX :: size_t where "DFC_PROXIMITY_TRANSCRIPT_MAX = DFC_PROXIMITY_RANDOM_LENGTH * 2"
definition DFC_DELEGATED_CREATE_MAX_HEADER_LENGTH :: size_t where "DFC_DELEGATED_CREATE_MAX_HEADER_LENGTH = 34"
definition DFC_VIRTUAL_CARD_CHALLENGE_LENGTH :: size_t where "DFC_VIRTUAL_CARD_CHALLENGE_LENGTH = DFC_AES_KEY_LENGTH"
definition DFC_VIRTUAL_CARD_CLEAR_DATA_LENGTH :: size_t where "DFC_VIRTUAL_CARD_CLEAR_DATA_LENGTH = DFC_AES_KEY_LENGTH"

subsection \<open>The transaction journal\<close>

text \<open>
  The pool of 8192 octets fits 16 bits, so journal offsets and record counts are 16 bits wide.
\<close>

record journal =
  transaction_snapshot_pool :: "bytes option"
  transaction_snapshot_app_index :: size_t
  transaction_snapshot_pool_length :: size_t
  transaction_snapshot_pool_capacity :: size_t
  transaction_snapshot_record_counts :: "u16 list"
  transaction_snapshot_offsets :: "u16 list"
  transaction_record_numbers :: "u32 list"
  transaction_record_operations :: bytes
  transaction_snapshot_captured :: bytes
  transaction_snapshot_created :: bytes
  transaction_snapshot_active :: bool
  transaction_snapshot_dirty :: bool

subsection \<open>Sessions\<close>

record DfcSecureMessaging =
  sm_cipher :: u8
  sm_session_key :: bytes
  sm_session_key_len :: u8
  sm_iv :: bytes
  sm_pcd :: bool

datatype DfcEmulatorSelectedApplication =
  DfcEmulatorSelectedApplicationNone | DfcEmulatorSelectedApplicationPicc | DfcEmulatorSelectedApplicationApp

record DfcPendingNativeAuthentication =
  native_random_b :: bytes
  native_encrypted_random_b :: bytes

record DfcPendingEv2Authentication =
  pending_static_key :: bytes
  pending_random_b :: bytes
  pending_transaction_identifier :: bytes
  pending_card_capabilities :: bytes
  pending_reader_capabilities :: bytes

record DfcPendingAuthenticationStorage =
  pending_native :: DfcPendingNativeAuthentication
  pending_ev2 :: DfcPendingEv2Authentication
  iso_auth_card_first :: bytes
  iso_auth_host_first :: bytes
  iso_auth_external_iv :: bytes
  iso_auth_key :: bytes

record emulator_auth =
  auth_cipher :: u8
  auth_key_no :: u8
  pending_auth_cipher :: u8
  pending_auth_key_no :: u8
  pending_authentication :: DfcPendingAuthenticationStorage
  awaiting_step2 :: bool
  iso_auth_phase :: u8
  iso_auth_challenge_len :: u8
  iso_auth_key_no :: u8
  iso_auth_cipher :: u8
  iso_auth_reference :: u8
  iso_auth_key_len :: size_t

record emulator_ev2 =
  ev2_command_counter :: u16
  ev2_response_plain :: bool
  ev2_authentication_pending :: bool
  ev2_authentication_non_first :: bool
  ev2_session_active :: bool
  ev2_authenticated_key_no :: u8
  ev2_pending_authenticated_key_no :: u8
  ev2_transaction_identifier :: bytes
  ev2_card_capabilities :: bytes
  ev2_reader_capabilities :: bytes
  ev2_session_encryption_key :: bytes
  ev2_session_mac_key :: bytes

record emulator_chain =
  pending_chain_len :: size_t
  pending_chain_offset :: size_t
  pending_chain_frame :: size_t
  pending_chain_last :: size_t
  pending_chain_zero :: bool
  pending_chain :: bytes
  pending_chain_chunks :: bytes
  pending_chain_chunk_count :: u8
  pending_chain_chunk_index :: u8
  command_chain :: "bytes option"
  command_chain_active :: bool
  command_chain_len :: size_t
  command_chain_expected :: size_t
  df_names_pending :: bool
  df_names_next :: size_t

record emulator_proximity =
  proximity_active :: bool
  proximity_verified :: bool
  proximity_offset :: size_t
  proximity_published_len :: size_t
  proximity_transcript_len :: size_t
  proximity_random :: bytes
  proximity_published :: bytes
  proximity_transcript :: bytes

record emulator_virtual_card =
  virtual_card_authentication_expected :: bool
  virtual_card_selection_pending :: bool
  virtual_card_selected :: bool
  virtual_card_challenge :: bytes
  virtual_card_clear_data :: bytes

record emulator_sdm =
  sdm_read_cache_len :: size_t
  sdm_read_cache_family :: u8
  sdm_read_cache_valid :: bool
  sdm_read_cache_file_number :: u8
  sdm_read_cache :: bytes

record emulator_tmac =
  transaction_reader_id_pending :: bool
  transaction_reader_id_persist :: bool
  transaction_mac :: DfcTransactionMacAccumulator
  transaction_mac_retryable_failure :: bool
  transaction_pending_reader_id :: bytes

record emulator_delegated =
  delegated_creation_pending :: bool
  delegated_creation_header_length :: size_t
  delegated_creation_header :: bytes

record DfcEmulator =
  tx_buffer :: DfcByteBuf
  secure_messaging :: "DfcSecureMessaging option"
  credential :: DfcCredential
  em_journal :: journal
  em_auth :: emulator_auth
  em_ev2 :: emulator_ev2
  em_chain :: emulator_chain
  em_proximity :: emulator_proximity
  em_virtual_card :: emulator_virtual_card
  em_sdm :: emulator_sdm
  em_tmac :: emulator_tmac
  em_delegated :: emulator_delegated
  selected_application :: DfcEmulatorSelectedApplication
  selected_app_index :: size_t
  get_version_frame :: u8
  data_written :: bool
  response_secured :: bool
  first_frame_logged :: bool
  transaction_timer_enabled :: bool
  transaction_timer_elapsed_milliseconds :: u32

subsection \<open>All octets zero\<close>

definition zero_journal :: journal where
  "zero_journal = \<lparr>transaction_snapshot_pool = None, transaction_snapshot_app_index = 0,
     transaction_snapshot_pool_length = 0, transaction_snapshot_pool_capacity = 0,
     transaction_snapshot_record_counts = replicate DFC_MAX_FILES 0,
     transaction_snapshot_offsets = replicate DFC_MAX_FILES 0,
     transaction_record_numbers = replicate DFC_MAX_FILES 0,
     transaction_record_operations = replicate DFC_MAX_FILES 0,
     transaction_snapshot_captured = replicate DFC_TRANSACTION_FILE_BITMAP_SIZE 0,
     transaction_snapshot_created = replicate DFC_TRANSACTION_FILE_BITMAP_SIZE 0,
     transaction_snapshot_active = False, transaction_snapshot_dirty = False\<rparr>"

definition zero_secure_messaging :: DfcSecureMessaging where
  "zero_secure_messaging = \<lparr>sm_cipher = 0, sm_session_key = replicate DFC_MAX_KEY_LEN 0, sm_session_key_len = 0,
     sm_iv = replicate 16 0, sm_pcd = False\<rparr>"

definition zero_pending_authentication :: DfcPendingAuthenticationStorage where
  "zero_pending_authentication = \<lparr>
     pending_native = \<lparr>native_random_b = replicate 16 0, native_encrypted_random_b = replicate 16 0\<rparr>,
     pending_ev2 = \<lparr>pending_static_key = replicate DFC_AES_KEY_LENGTH 0, pending_random_b = replicate DFC_EV2_RANDOM_LENGTH 0,
       pending_transaction_identifier = replicate DFC_EV2_TRANSACTION_IDENTIFIER_LENGTH 0,
       pending_card_capabilities = replicate DFC_EV2_CAPABILITY_LENGTH 0,
       pending_reader_capabilities = replicate DFC_EV2_CAPABILITY_LENGTH 0\<rparr>,
     iso_auth_card_first = replicate DFC_ISO7816_AUTH_CHALLENGE_LONG 0,
     iso_auth_host_first = replicate DFC_ISO7816_AUTH_CHALLENGE_LONG 0,
     iso_auth_external_iv = replicate DFC_AES_KEY_LENGTH 0, iso_auth_key = replicate DFC_MAX_KEY_LEN 0\<rparr>"

definition zero_auth :: emulator_auth where
  "zero_auth = \<lparr>auth_cipher = 0, auth_key_no = 0, pending_auth_cipher = 0, pending_auth_key_no = 0,
     pending_authentication = zero_pending_authentication, awaiting_step2 = False, iso_auth_phase = 0,
     iso_auth_challenge_len = 0, iso_auth_key_no = 0, iso_auth_cipher = 0, iso_auth_reference = 0, iso_auth_key_len = 0\<rparr>"

definition zero_ev2 :: emulator_ev2 where
  "zero_ev2 = \<lparr>ev2_command_counter = 0, ev2_response_plain = False, ev2_authentication_pending = False,
     ev2_authentication_non_first = False, ev2_session_active = False, ev2_authenticated_key_no = 0,
     ev2_pending_authenticated_key_no = 0,
     ev2_transaction_identifier = replicate DFC_EV2_TRANSACTION_IDENTIFIER_LENGTH 0,
     ev2_card_capabilities = replicate DFC_EV2_CAPABILITY_LENGTH 0,
     ev2_reader_capabilities = replicate DFC_EV2_CAPABILITY_LENGTH 0,
     ev2_session_encryption_key = replicate DFC_AES_KEY_LENGTH 0, ev2_session_mac_key = replicate DFC_AES_KEY_LENGTH 0\<rparr>"

definition zero_chain :: emulator_chain where
  "zero_chain = \<lparr>pending_chain_len = 0, pending_chain_offset = 0, pending_chain_frame = 0, pending_chain_last = 0,
     pending_chain_zero = False, pending_chain = replicate DFC_EMULATOR_CHAIN_BUFFER_SIZE 0,
     pending_chain_chunks = replicate DFC_MAX_APPS 0, pending_chain_chunk_count = 0, pending_chain_chunk_index = 0,
     command_chain = None, command_chain_active = False, command_chain_len = 0, command_chain_expected = 0,
     df_names_pending = False, df_names_next = 0\<rparr>"

definition zero_proximity :: emulator_proximity where
  "zero_proximity = \<lparr>proximity_active = False, proximity_verified = False, proximity_offset = 0,
     proximity_published_len = 0, proximity_transcript_len = 0,
     proximity_random = replicate DFC_PROXIMITY_RANDOM_LENGTH 0,
     proximity_published = replicate (1 + DFC_PROXIMITY_PUBLISHED_TIME_LENGTH + 1) 0,
     proximity_transcript = replicate DFC_PROXIMITY_TRANSCRIPT_MAX 0\<rparr>"

definition zero_virtual_card :: emulator_virtual_card where
  "zero_virtual_card = \<lparr>virtual_card_authentication_expected = False, virtual_card_selection_pending = False,
     virtual_card_selected = False, virtual_card_challenge = replicate DFC_VIRTUAL_CARD_CHALLENGE_LENGTH 0,
     virtual_card_clear_data = replicate DFC_VIRTUAL_CARD_CLEAR_DATA_LENGTH 0\<rparr>"

definition zero_sdm_cache :: emulator_sdm where
  "zero_sdm_cache = \<lparr>sdm_read_cache_len = 0, sdm_read_cache_family = 0, sdm_read_cache_valid = False,
     sdm_read_cache_file_number = 0, sdm_read_cache = replicate DFC_SDM_READ_CACHE_SIZE 0\<rparr>"

definition zero_tmac :: emulator_tmac where
  "zero_tmac = \<lparr>transaction_reader_id_pending = False, transaction_reader_id_persist = False,
     transaction_mac = dfc_transaction_mac_accumulator_clear, transaction_mac_retryable_failure = False,
     transaction_pending_reader_id = replicate DFC_TRANSACTION_READER_ID_LENGTH 0\<rparr>"

definition zero_delegated :: emulator_delegated where
  "zero_delegated = \<lparr>delegated_creation_pending = False, delegated_creation_header_length = 0,
     delegated_creation_header = replicate DFC_DELEGATED_CREATE_MAX_HEADER_LENGTH 0\<rparr>"

text \<open>The emulator after \<^verbatim>\<open>memset(emulator, 0, sizeof(*emulator))\<close> but for its four pointers.\<close>

definition zero_emulator :: "DfcByteBuf \<Rightarrow> DfcSecureMessaging option \<Rightarrow> DfcCredential \<Rightarrow> DfcEmulator" where
  "zero_emulator buf sm c = \<lparr>tx_buffer = buf, secure_messaging = sm, credential = c, em_journal = zero_journal,
     em_auth = zero_auth, em_ev2 = zero_ev2, em_chain = zero_chain, em_proximity = zero_proximity,
     em_virtual_card = zero_virtual_card, em_sdm = zero_sdm_cache, em_tmac = zero_tmac, em_delegated = zero_delegated,
     selected_application = DfcEmulatorSelectedApplicationNone, selected_app_index = 0, get_version_frame = 0,
     data_written = False, response_secured = False, first_frame_logged = False, transaction_timer_enabled = False,
     transaction_timer_elapsed_milliseconds = 0\<rparr>"

text \<open>
  \<^verbatim>\<open>dfc_emulator_alloc\<close> returns NULL when either of its two allocations fails. Whether the
  platform has room for the object, and the response buffer it hands out, are arguments.
\<close>

definition dfc_emulator_alloc :: "bool \<Rightarrow> DfcByteBuf option \<Rightarrow> DfcCredential option \<Rightarrow> DfcEmulator option" where
  "dfc_emulator_alloc object_allocated buffer c =
     (case c of
        None \<Rightarrow> None
      | Some cred \<Rightarrow>
          if \<not> object_allocated then None
          else
            (case buffer of
               None \<Rightarrow> None
             | Some buf \<Rightarrow> Some ((zero_emulator buf None cred)\<lparr>selected_application := DfcEmulatorSelectedApplicationPicc\<rparr>)))"

end
