(* ===== verification/Dfc_Journal.thy ===== *)
theory Dfc_Journal
  imports Dfc_Emulator_State
begin

text \<open>
  The transaction journal of the card, the transactional part of \<^verbatim>\<open>src/dfc_emulator.c\<close> with
  the functions of \<^verbatim>\<open>src/dfc_emulator_commands_transactions.c\<close> that open it. Backup and
  record files are written in place; before the first write to a file in a transaction its octets
  are copied into the journal, and aborting copies them back. A \<^verbatim>\<open>DfcFile*\<close> is its index.
\<close>

subsection \<open>Bitmaps and shape\<close>

definition transaction_file_bit :: "bytes \<Rightarrow> size_t \<Rightarrow> bool" where
  "transaction_file_bit bitmap index \<longleftrightarrow>
     index < DFC_MAX_FILES \<and> bitmap ! (index div 8) AND push_bit (index mod 8) 1 \<noteq> 0"

definition transaction_file_bit_set :: "bytes \<Rightarrow> size_t \<Rightarrow> bool \<Rightarrow> bytes" where
  "transaction_file_bit_set bitmap index v =
     (if index \<ge> DFC_MAX_FILES then bitmap
      else
        let msk = push_bit (index mod 8) 1 in
        if v then bitmap[index div 8 := bitmap ! (index div 8) OR msk]
        else bitmap[index div 8 := bitmap ! (index div 8) AND NOT msk])"

definition transaction_file_has_data :: "DfcFile \<Rightarrow> bool" where
  "transaction_file_has_data file \<longleftrightarrow>
     f_type file = DFC_FILE_TYPE_BACKUP_DATA \<or> f_type file = DFC_FILE_TYPE_LINEAR_RECORD \<or>
     f_type file = DFC_FILE_TYPE_CYCLIC_RECORD"

definition file_is_record :: "DfcFile \<Rightarrow> bool" where
  "file_is_record file \<longleftrightarrow> f_type file = DFC_FILE_TYPE_LINEAR_RECORD \<or> f_type file = DFC_FILE_TYPE_CYCLIC_RECORD"

definition file_record_count :: "DfcFile \<Rightarrow> u32" where
  "file_record_count file = record_count (state_record (f_state file))"

definition set_record_count :: "u32 \<Rightarrow> DfcFile \<Rightarrow> DfcFile" where
  "set_record_count n file = file\<lparr>f_state := (f_state file)\<lparr>state_record := (state_record (f_state file))\<lparr>record_count := n\<rparr>\<rparr>\<rparr>"

definition upd_journal :: "(journal \<Rightarrow> journal) \<Rightarrow> DfcEmulator \<Rightarrow> DfcEmulator" where
  "upd_journal g em = em\<lparr>em_journal := g (em_journal em)\<rparr>"

subsection \<open>Opening and closing the journal\<close>

definition transaction_snapshot_replace :: "DfcEmulator \<Rightarrow> bytes option \<Rightarrow> size_t \<Rightarrow> DfcEmulator" where
  "transaction_snapshot_replace em replacement replacement_capacity =
     upd_journal (\<lambda>j. j\<lparr>transaction_snapshot_pool := replacement, transaction_snapshot_pool_length := 0,
       transaction_snapshot_pool_capacity := (if replacement \<noteq> None then replacement_capacity else 0)\<rparr>) em"

definition dfc_emulator_discard_transaction_snapshot :: "DfcEmulator \<Rightarrow> DfcEmulator" where
  "dfc_emulator_discard_transaction_snapshot em = transaction_snapshot_replace em None 0"

definition transaction_snapshot_clear_state :: "DfcEmulator \<Rightarrow> DfcEmulator" where
  "transaction_snapshot_clear_state em =
     (let em = upd_journal (\<lambda>j. j\<lparr>transaction_snapshot_active := False, transaction_snapshot_app_index := 0,
            transaction_snapshot_dirty := False\<rparr>) em;
          em = dfc_emulator_discard_transaction_snapshot em
      in upd_journal (\<lambda>j. j\<lparr>transaction_snapshot_record_counts := replicate DFC_MAX_FILES 0,
           transaction_snapshot_offsets := replicate DFC_MAX_FILES 0,
           transaction_record_operations := replicate DFC_MAX_FILES 0,
           transaction_record_numbers := replicate DFC_MAX_FILES 0,
           transaction_snapshot_captured := replicate DFC_TRANSACTION_FILE_BITMAP_SIZE 0,
           transaction_snapshot_created := replicate DFC_TRANSACTION_FILE_BITMAP_SIZE 0\<rparr>) em)"

text \<open>
  The octets the files of the selected application can need, \<^term>\<open>None\<close> when they exceed the
  pool. The platform's allocator is an argument.
\<close>

fun snapshot_capacity_loop :: "size_t \<Rightarrow> DfcFile list \<Rightarrow> size_t \<Rightarrow> size_t option" where
  "snapshot_capacity_loop app [] capacity = Some capacity"
| "snapshot_capacity_loop app (file # files) capacity =
     (if unat (f_app_index file) \<noteq> app \<or>
         (f_type file \<noteq> DFC_FILE_TYPE_BACKUP_DATA \<and> f_type file \<noteq> DFC_FILE_TYPE_LINEAR_RECORD \<and>
          f_type file \<noteq> DFC_FILE_TYPE_CYCLIC_RECORD)
      then snapshot_capacity_loop app files capacity
      else if unat (f_data_len file) > DFC_FILE_POOL_SIZE - capacity then None
      else snapshot_capacity_loop app files (capacity + unat (f_data_len file)))"

definition dfc_emulator_command_transaction_snapshot_begin ::
  "(size_t \<Rightarrow> bytes option) \<Rightarrow> DfcEmulator \<Rightarrow> bool \<times> DfcEmulator" where
  "dfc_emulator_command_transaction_snapshot_begin platform_alloc em =
     (let j = em_journal em; c = credential em in
      if transaction_snapshot_active j then (transaction_snapshot_app_index j = selected_app_index em, em)
      else
        case snapshot_capacity_loop (selected_app_index em) (take (unat (c_num_files c)) (c_files c)) 0 of
          None \<Rightarrow> (False, em)
        | Some capacity \<Rightarrow>
            let sz = (if capacity \<noteq> 0 then capacity else 1) in
            (case platform_alloc sz of
               None \<Rightarrow> (False, em)
             | Some snapshot \<Rightarrow>
                 (True, em\<lparr>em_journal := j\<lparr>transaction_snapshot_pool := Some snapshot, transaction_snapshot_active := True,
                    transaction_snapshot_app_index := selected_app_index em, transaction_snapshot_pool_length := 0,
                    transaction_snapshot_pool_capacity := sz, transaction_snapshot_dirty := c_dirty c,
                    transaction_snapshot_record_counts := replicate DFC_MAX_FILES 0,
                    transaction_snapshot_offsets := replicate DFC_MAX_FILES 0,
                    transaction_snapshot_captured := replicate DFC_TRANSACTION_FILE_BITMAP_SIZE 0,
                    transaction_snapshot_created := replicate DFC_TRANSACTION_FILE_BITMAP_SIZE 0,
                    transaction_record_operations := replicate DFC_MAX_FILES 0,
                    transaction_record_numbers := replicate DFC_MAX_FILES 0\<rparr>\<rparr>)))"

subsection \<open>Files that come and go\<close>

definition snapshot_entry_copy :: "size_t \<Rightarrow> size_t \<Rightarrow> journal \<Rightarrow> journal" where
  "snapshot_entry_copy dst src j = j\<lparr>
     transaction_snapshot_record_counts := (transaction_snapshot_record_counts j)[dst := transaction_snapshot_record_counts j ! src],
     transaction_snapshot_offsets := (transaction_snapshot_offsets j)[dst := transaction_snapshot_offsets j ! src],
     transaction_record_operations := (transaction_record_operations j)[dst := transaction_record_operations j ! src],
     transaction_record_numbers := (transaction_record_numbers j)[dst := transaction_record_numbers j ! src],
     transaction_snapshot_captured := transaction_file_bit_set (transaction_snapshot_captured j) dst
       (transaction_file_bit (transaction_snapshot_captured j) src),
     transaction_snapshot_created := transaction_file_bit_set (transaction_snapshot_created j) dst
       (transaction_file_bit (transaction_snapshot_created j) src)\<rparr>"

definition snapshot_entry_reset :: "size_t \<Rightarrow> bool \<Rightarrow> journal \<Rightarrow> journal" where
  "snapshot_entry_reset index created j = j\<lparr>
     transaction_snapshot_record_counts := (transaction_snapshot_record_counts j)[index := 0],
     transaction_snapshot_offsets := (transaction_snapshot_offsets j)[index := 0],
     transaction_record_operations := (transaction_record_operations j)[index := 0],
     transaction_record_numbers := (transaction_record_numbers j)[index := 0],
     transaction_snapshot_captured := transaction_file_bit_set (transaction_snapshot_captured j) index False,
     transaction_snapshot_created := transaction_file_bit_set (transaction_snapshot_created j) index created\<rparr>"

definition dfc_emulator_transaction_snapshot_insert_file :: "DfcEmulator \<Rightarrow> size_t \<Rightarrow> bool \<times> DfcEmulator" where
  "dfc_emulator_transaction_snapshot_insert_file em file_index =
     (let j = em_journal em; c = credential em in
      if \<not> transaction_snapshot_active j then (True, em)
      else if file_index \<ge> unat (c_num_files c) then (False, em)
      else
        let file = c_files c ! file_index;
            j = fold (\<lambda>index. snapshot_entry_copy index (index - 1)) (rev [Suc file_index..<DFC_MAX_FILES]) j;
            j = snapshot_entry_reset file_index
              (unat (f_app_index file) = transaction_snapshot_app_index j \<and> transaction_file_has_data file) j
        in (True, em\<lparr>em_journal := j\<rparr>))"

definition dfc_emulator_transaction_snapshot_delete_file :: "DfcEmulator \<Rightarrow> size_t \<Rightarrow> DfcEmulator" where
  "dfc_emulator_transaction_snapshot_delete_file em file_index =
     (let j = em_journal em; c = credential em in
      if \<not> transaction_snapshot_active j \<or> file_index \<ge> unat (c_num_files c) then em
      else
        let j = (if transaction_file_bit (transaction_snapshot_captured j) file_index
                 then
                   let len = unat (f_data_len (c_files c ! file_index));
                       offset = unat (transaction_snapshot_offsets j ! file_index)
                   in if offset \<le> transaction_snapshot_pool_length j \<and> len \<le> transaction_snapshot_pool_length j - offset
                      then j\<lparr>transaction_snapshot_pool := map_option (mem_set offset 0 len) (transaction_snapshot_pool j)\<rparr>
                      else j
                 else j);
            j = fold (\<lambda>index. snapshot_entry_copy index (index + 1)) [file_index..<DFC_MAX_FILES - 1] j;
            j = snapshot_entry_reset (DFC_MAX_FILES - 1) False j
        in em\<lparr>em_journal := j\<rparr>)"

subsection \<open>Capturing a preimage\<close>

definition dfc_emulator_transaction_snapshot_capture_file :: "DfcEmulator \<Rightarrow> size_t \<Rightarrow> bool \<times> DfcEmulator" where
  "dfc_emulator_transaction_snapshot_capture_file em file_index =
     (let j = em_journal em; c = credential em in
      if \<not> transaction_snapshot_active j then (True, em)
      else if file_index \<ge> unat (c_num_files c) then (False, em)
      else
        let file = c_files c ! file_index; len = unat (f_data_len file) in
        if unat (f_app_index file) \<noteq> transaction_snapshot_app_index j \<or> \<not> transaction_file_has_data file then (False, em)
        else if transaction_file_bit (transaction_snapshot_created j) file_index \<or>
          transaction_file_bit (transaction_snapshot_captured j) file_index then (True, em)
        else if (len \<noteq> 0 \<and> transaction_snapshot_pool j = None) \<or> len > transaction_snapshot_pool_capacity j \<or>
          transaction_snapshot_pool_length j > transaction_snapshot_pool_capacity j - len then (False, em)
        else if len \<noteq> 0 \<and> dfc_file_data c file_index = None then (False, em)
        else
          let offset = transaction_snapshot_pool_length j;
              pool = (if len \<noteq> 0
                then map_option (mem_write offset (mem_read (the (dfc_file_data c file_index)) len (c_file_pool c)))
                  (transaction_snapshot_pool j)
                else transaction_snapshot_pool j)
          in (True, em\<lparr>em_journal := j\<lparr>
               transaction_snapshot_pool := pool,
               transaction_snapshot_offsets := (transaction_snapshot_offsets j)[file_index := of_nat offset],
               transaction_snapshot_record_counts := (transaction_snapshot_record_counts j)[file_index :=
                 (if file_is_record file then ucast (file_record_count file) else 0)],
               transaction_snapshot_pool_length := transaction_snapshot_pool_length j + len,
               transaction_snapshot_captured :=
                 transaction_file_bit_set (transaction_snapshot_captured j) file_index True\<rparr>\<rparr>))"

subsection \<open>The committed view\<close>

text \<open>A pointer into the file pool, a pointer into the journal, or NULL.\<close>

datatype committed_pointer = CommittedNull | CommittedFile size_t | CommittedJournal size_t

definition file_pointer :: "DfcCredential \<Rightarrow> size_t \<Rightarrow> committed_pointer" where
  "file_pointer c i = (case dfc_file_data c i of None \<Rightarrow> CommittedNull | Some p \<Rightarrow> CommittedFile p)"

text \<open>The pointer with the value stored through \<^verbatim>\<open>all_zero\<close>.\<close>

definition dfc_emulator_transaction_snapshot_committed_data :: "DfcEmulator \<Rightarrow> size_t \<Rightarrow> committed_pointer \<times> bool" where
  "dfc_emulator_transaction_snapshot_committed_data em file_index =
     (let j = em_journal em; c = credential em in
      if file_index \<ge> unat (c_num_files c) then (CommittedNull, False)
      else
        let file = c_files c ! file_index; len = unat (f_data_len file) in
        if \<not> transaction_snapshot_active j \<or> unat (f_app_index file) \<noteq> transaction_snapshot_app_index j \<or>
          \<not> transaction_file_has_data file then (file_pointer c file_index, False)
        else if transaction_file_bit (transaction_snapshot_created j) file_index then (CommittedNull, True)
        else if \<not> transaction_file_bit (transaction_snapshot_captured j) file_index then (file_pointer c file_index, False)
        else
          let offset = unat (transaction_snapshot_offsets j ! file_index) in
          if len = 0 then (CommittedNull, False)
          else if (len \<noteq> 0 \<and> transaction_snapshot_pool j = None) \<or> offset > transaction_snapshot_pool_length j \<or>
            len > transaction_snapshot_pool_length j - offset then (CommittedNull, False)
          else (CommittedJournal offset, False))"

definition dfc_emulator_transaction_snapshot_committed_record_count :: "DfcEmulator \<Rightarrow> size_t \<Rightarrow> u32" where
  "dfc_emulator_transaction_snapshot_committed_record_count em file_index =
     (let j = em_journal em; c = credential em in
      if file_index \<ge> unat (c_num_files c) then 0
      else
        let file = c_files c ! file_index in
        if \<not> transaction_snapshot_active j \<or> unat (f_app_index file) \<noteq> transaction_snapshot_app_index j \<or>
          (f_type file \<noteq> DFC_FILE_TYPE_LINEAR_RECORD \<and> f_type file \<noteq> DFC_FILE_TYPE_CYCLIC_RECORD) then file_record_count file
        else if transaction_file_bit (transaction_snapshot_created j) file_index then 0
        else if transaction_file_bit (transaction_snapshot_captured j) file_index
        then ucast (transaction_snapshot_record_counts j ! file_index)
        else file_record_count file)"

definition dfc_emulator_transaction_snapshot_note_persistent_change :: "DfcEmulator \<Rightarrow> DfcEmulator" where
  "dfc_emulator_transaction_snapshot_note_persistent_change em =
     (if transaction_snapshot_active (em_journal em) then upd_journal (\<lambda>j. j\<lparr>transaction_snapshot_dirty := True\<rparr>) em else em)"

definition dfc_emulator_transaction_snapshot_can_mirror_write ::
  "DfcEmulator \<Rightarrow> size_t \<Rightarrow> size_t \<Rightarrow> bytes option \<Rightarrow> size_t \<Rightarrow> bool" where
  "dfc_emulator_transaction_snapshot_can_mirror_write em file_index offset data len =
     (let c = credential em in
      if \<not> transaction_snapshot_active (em_journal em) then True
      else if file_index \<ge> unat (c_num_files c) \<or> (len \<noteq> 0 \<and> data = None) then False
      else
        let file = c_files c ! file_index in
        unat (f_app_index file) = transaction_snapshot_app_index (em_journal em) \<and> offset \<le> unat (f_data_len file) \<and>
        len \<le> unat (f_data_len file) - offset)"

definition dfc_emulator_transaction_snapshot_mirror_write ::
  "DfcEmulator \<Rightarrow> size_t \<Rightarrow> size_t \<Rightarrow> bytes option \<Rightarrow> size_t \<Rightarrow> bool \<times> DfcEmulator" where
  "dfc_emulator_transaction_snapshot_mirror_write em file_index offset data len =
     (if \<not> dfc_emulator_transaction_snapshot_can_mirror_write em file_index offset data len then (False, em)
      else (True, if transaction_snapshot_active (em_journal em)
        then upd_journal (\<lambda>j. j\<lparr>transaction_snapshot_dirty := True\<rparr>) em else em))"

subsection \<open>Aborting\<close>

text \<open>The first pass: whether a file's preimage can be trusted.\<close>

definition abort_entry_valid :: "journal \<Rightarrow> DfcCredential \<Rightarrow> size_t \<Rightarrow> size_t \<Rightarrow> bool" where
  "abort_entry_valid j c app_index index =
     (let file = c_files c ! index; len = unat (f_data_len file) in
      if unat (f_app_index file) \<noteq> app_index \<or> \<not> f_transaction_pending file \<or> \<not> transaction_file_has_data file \<or>
        transaction_file_bit (transaction_snapshot_created j) index then True
      else
        let offset = unat (transaction_snapshot_offsets j ! index) in
        \<not> (\<not> transaction_file_bit (transaction_snapshot_captured j) index \<or> (len \<noteq> 0 \<and> transaction_snapshot_pool j = None) \<or>
           offset > transaction_snapshot_pool_length j \<or> len > transaction_snapshot_pool_length j - offset \<or>
           (len \<noteq> 0 \<and> dfc_file_data c index = None)))"

text \<open>The wipe of one file when the journal cannot be trusted.\<close>

definition abort_wipe_file :: "size_t \<Rightarrow> size_t \<Rightarrow> DfcCredential \<Rightarrow> DfcCredential" where
  "abort_wipe_file app_index index c =
     (let file = c_files c ! index; len = unat (f_data_len file) in
      if unat (f_app_index file) \<noteq> app_index \<or> \<not> f_transaction_pending file \<or> \<not> transaction_file_has_data file then c
      else
        let c1 = (case dfc_file_data c index of
                    None \<Rightarrow> c
                  | Some p \<Rightarrow> if len \<noteq> 0 then c\<lparr>c_file_pool := mem_set p 0 len (c_file_pool c)\<rparr> else c)
        in upd_file index (\<lambda>f. (if file_is_record file then set_record_count 0 f else f)\<lparr>f_transaction_pending := False\<rparr>) c1)"

text \<open>The restoration of one file.\<close>

definition abort_restore_file :: "journal \<Rightarrow> size_t \<Rightarrow> size_t \<Rightarrow> DfcCredential \<Rightarrow> DfcCredential" where
  "abort_restore_file j app_index index c =
     (let file = c_files c ! index; len = unat (f_data_len file); p = the (dfc_file_data c index) in
      if unat (f_app_index file) \<noteq> app_index then c
      else
        let c1 =
          (if f_transaction_pending file \<and> transaction_file_has_data file then
             if transaction_file_bit (transaction_snapshot_created j) index then
               (let c1 = (if len \<noteq> 0 then c\<lparr>c_file_pool := mem_set p 0 len (c_file_pool c)\<rparr> else c)
                in if file_is_record file then upd_file index (set_record_count 0) c1 else c1)
             else if transaction_file_bit (transaction_snapshot_captured j) index then
               (let offset = unat (transaction_snapshot_offsets j ! index);
                    c1 = (if len \<noteq> 0
                      then c\<lparr>c_file_pool := mem_write p (mem_read offset len (the (transaction_snapshot_pool j))) (c_file_pool c)\<rparr>
                      else c)
                in if file_is_record file
                   then upd_file index (set_record_count (ucast (transaction_snapshot_record_counts j ! index))) c1 else c1)
             else c
           else c)
        in upd_file index (\<lambda>f. f\<lparr>f_transaction_pending := False\<rparr>) c1)"

definition dfc_emulator_abort_transaction_snapshot :: "DfcEmulator \<Rightarrow> bool \<times> DfcEmulator" where
  "dfc_emulator_abort_transaction_snapshot em =
     (let j = em_journal em; c = credential em; app_index = transaction_snapshot_app_index j;
          indices = [0..<unat (c_num_files c)]
      in
      if \<not> transaction_snapshot_active j then (False, em)
      else if \<not> (transaction_snapshot_pool_length j \<le> transaction_snapshot_pool_capacity j \<and>
        list_all (abort_entry_valid j c app_index) indices)
      then
        (let c' = fold (abort_wipe_file app_index) indices c in
         (True, transaction_snapshot_clear_state (em\<lparr>credential := c'\<lparr>c_dirty := True\<rparr>\<rparr>)))
      else
        (let c' = fold (abort_restore_file j app_index) indices c in
         (True, transaction_snapshot_clear_state (em\<lparr>credential := c'\<lparr>c_dirty := transaction_snapshot_dirty j\<rparr>\<rparr>))))"

subsection \<open>Record operations\<close>

definition dfc_emulator_command_transaction_record_operation :: "DfcEmulator \<Rightarrow> size_t \<Rightarrow> u8" where
  "dfc_emulator_command_transaction_record_operation em index =
     (if index < DFC_MAX_FILES then transaction_record_operations (em_journal em) ! index else 0)"

definition dfc_emulator_command_transaction_set_record_operation :: "DfcEmulator \<Rightarrow> size_t \<Rightarrow> u8 \<Rightarrow> u32 \<Rightarrow> DfcEmulator" where
  "dfc_emulator_command_transaction_set_record_operation em index operation record_number =
     (if index \<ge> DFC_MAX_FILES then em
      else upd_journal (\<lambda>j. j\<lparr>transaction_record_operations := (transaction_record_operations j)[index := operation],
        transaction_record_numbers := (transaction_record_numbers j)[index := record_number]\<rparr>) em)"

subsection \<open>Bits\<close>

lemma file_bit_iff: "transaction_file_bit bm i \<longleftrightarrow> i < DFC_MAX_FILES \<and> bit (bm ! (i div 8)) (i mod 8)"
  by (simp add: transaction_file_bit_def bit_iff_and_push_bit_not_eq_0)

lemma length_file_bit_set [simp]: "length (transaction_file_bit_set bm i v) = length bm"
  by (simp add: transaction_file_bit_set_def Let_def)

lemma file_bit_set:
  assumes "length bm = DFC_TRANSACTION_FILE_BITMAP_SIZE" "i < DFC_MAX_FILES"
  shows "transaction_file_bit (transaction_file_bit_set bm i v) k \<longleftrightarrow> (if k = i then v else transaction_file_bit bm k)"
proof -
  have i: "i div 8 < length bm" using assms by (simp add: DFC_TRANSACTION_FILE_BITMAP_SIZE_def DFC_MAX_FILES_def)
  have same: "k = i" if "k div 8 = i div 8" "k mod 8 = i mod 8" using that by (metis div_mult_mod_eq)
  have m: "n mod 8 < 8" for n :: nat by simp
  show ?thesis
  proof (cases "k div 8 = i div 8")
    case True
    then show ?thesis using i assms(2) same m [of k] m [of i]
      by (auto simp: file_bit_iff transaction_file_bit_set_def Let_def bit_simps)
  next
    case False
    then show ?thesis using assms(2) by (auto simp: file_bit_iff transaction_file_bit_set_def Let_def)
  qed
qed

lemma file_bit_zero [simp]: "\<not> transaction_file_bit (replicate DFC_TRANSACTION_FILE_BITMAP_SIZE 0) i"
proof -
  have "i < DFC_MAX_FILES \<Longrightarrow> i div 8 < DFC_TRANSACTION_FILE_BITMAP_SIZE"
    by (simp add: DFC_TRANSACTION_FILE_BITMAP_SIZE_def DFC_MAX_FILES_def)
  then show ?thesis by (auto simp: file_bit_iff)
qed

subsection \<open>Entries follow their files\<close>

text \<open>
  The journal's parallel arrays as one list of entries: record count, offset, record operation,
  record number, captured and created.
\<close>

type_synonym journal_entry = "u16 \<times> u16 \<times> u8 \<times> u32 \<times> bool \<times> bool"

definition journal_entry :: "journal \<Rightarrow> size_t \<Rightarrow> journal_entry" where
  "journal_entry j i = (transaction_snapshot_record_counts j ! i, transaction_snapshot_offsets j ! i,
     transaction_record_operations j ! i, transaction_record_numbers j ! i,
     transaction_file_bit (transaction_snapshot_captured j) i, transaction_file_bit (transaction_snapshot_created j) i)"

definition journal_entries :: "journal \<Rightarrow> journal_entry list" where
  "journal_entries j = map (journal_entry j) [0..<DFC_MAX_FILES]"

definition journal_arrays :: "journal \<Rightarrow> bool" where
  "journal_arrays j \<longleftrightarrow> length (transaction_snapshot_record_counts j) = DFC_MAX_FILES \<and>
     length (transaction_snapshot_offsets j) = DFC_MAX_FILES \<and> length (transaction_record_operations j) = DFC_MAX_FILES \<and>
     length (transaction_record_numbers j) = DFC_MAX_FILES \<and>
     length (transaction_snapshot_captured j) = DFC_TRANSACTION_FILE_BITMAP_SIZE \<and>
     length (transaction_snapshot_created j) = DFC_TRANSACTION_FILE_BITMAP_SIZE"

lemma length_journal_entries [simp]: "length (journal_entries j) = DFC_MAX_FILES"
  by (simp add: journal_entries_def)

lemma entry_copy:
  assumes "journal_arrays j" "dst < DFC_MAX_FILES" "src < DFC_MAX_FILES"
  shows "journal_arrays (snapshot_entry_copy dst src j) \<and>
    journal_entries (snapshot_entry_copy dst src j) = (journal_entries j)[dst := journal_entries j ! src]"
  using assms by (auto simp: journal_arrays_def snapshot_entry_copy_def journal_entries_def journal_entry_def file_bit_set
    nth_list_update intro!: nth_equalityI)

lemma entry_reset:
  assumes "journal_arrays j" "i < DFC_MAX_FILES"
  shows "journal_arrays (snapshot_entry_reset i v j) \<and>
    journal_entries (snapshot_entry_reset i v j) = (journal_entries j)[i := (0, 0, 0, 0, False, v)]"
  using assms by (auto simp: journal_arrays_def snapshot_entry_reset_def journal_entries_def journal_entry_def file_bit_set
    nth_list_update intro!: nth_equalityI)

text \<open>The two shifting loops as list operations.\<close>

lemma shift_down:
  "m < length xs \<Longrightarrow>
    length (fold (\<lambda>i xs. xs[i := xs ! (i + 1)]) [k..<m] xs) = length xs \<and>
    (\<forall>p < length xs. fold (\<lambda>i xs. xs[i := xs ! (i + 1)]) [k..<m] xs ! p = (if k \<le> p \<and> p < m then xs ! (p + 1) else xs ! p))"
  by (induction m) (auto simp: nth_list_update)

lemma shift_up:
  "m \<le> length xs \<Longrightarrow>
    length (fold (\<lambda>i xs. xs[i := xs ! (i - 1)]) (rev [Suc k..<m]) xs) = length xs \<and>
    (\<forall>p < length xs. fold (\<lambda>i xs. xs[i := xs ! (i - 1)]) (rev [Suc k..<m]) xs ! p =
      (if k < p \<and> p < m then xs ! (p - 1) else xs ! p))"
proof (induction m arbitrary: xs)
  case (Suc m)
  show ?case
  proof (cases "Suc k \<le> m")
    case True
    then show ?thesis using Suc.IH [of "xs[m := xs ! (m - 1)]"] Suc.prems by (auto simp: nth_list_update less_Suc_eq)
  qed auto
qed simp

lemma entries_shift_down:
  assumes "journal_arrays j" "m < DFC_MAX_FILES"
  shows "journal_arrays (fold (\<lambda>i. snapshot_entry_copy i (i + 1)) [k..<m] j) \<and>
    journal_entries (fold (\<lambda>i. snapshot_entry_copy i (i + 1)) [k..<m] j) =
      fold (\<lambda>i xs. xs[i := xs ! (i + 1)]) [k..<m] (journal_entries j)"
  using assms(2)
proof (induction m)
  case (Suc m)
  then show ?case using entry_copy [of "fold (\<lambda>i. snapshot_entry_copy i (i + 1)) [k..<m] j" m "m + 1"] assms(1) by simp
qed (use assms(1) in simp)

lemma entries_shift_up:
  "journal_arrays j \<Longrightarrow> m \<le> DFC_MAX_FILES \<Longrightarrow>
    journal_arrays (fold (\<lambda>i. snapshot_entry_copy i (i - 1)) (rev [Suc k..<m]) j) \<and>
    journal_entries (fold (\<lambda>i. snapshot_entry_copy i (i - 1)) (rev [Suc k..<m]) j) =
      fold (\<lambda>i xs. xs[i := xs ! (i - 1)]) (rev [Suc k..<m]) (journal_entries j)"
proof (induction m arbitrary: j)
  case (Suc m)
  then show ?case using entry_copy [of j m "m - 1"] Suc.IH [of "snapshot_entry_copy m (m - 1) j"]
    by (cases "Suc k \<le> m") auto
qed simp

lemma journal_arrays_pool [simp]:
  "journal_arrays (j\<lparr>transaction_snapshot_pool := p\<rparr>) = journal_arrays j"
  "journal_entries (j\<lparr>transaction_snapshot_pool := p\<rparr>) = journal_entries j"
  by (simp_all add: journal_arrays_def journal_entries_def journal_entry_def fun_eq_iff)

lemma entries_follow_files:
  assumes "transaction_snapshot_active (em_journal em)" "journal_arrays (em_journal em)"
    "i < unat (c_num_files (credential em))" "unat (c_num_files (credential em)) \<le> DFC_MAX_FILES"
  shows "journal_entries (em_journal (dfc_emulator_transaction_snapshot_delete_file em i)) =
      take i (journal_entries (em_journal em)) @ drop (Suc i) (journal_entries (em_journal em)) @ [(0, 0, 0, 0, False, False)] \<and>
    journal_entries (em_journal (snd (dfc_emulator_transaction_snapshot_insert_file em i))) =
      take i (journal_entries (em_journal em)) @
      (0, 0, 0, 0, False, unat (f_app_index (c_files (credential em) ! i)) = transaction_snapshot_app_index (em_journal em) \<and>
        transaction_file_has_data (c_files (credential em) ! i)) #
      butlast (drop i (journal_entries (em_journal em)))"
proof
  define es where "es = journal_entries (em_journal em)"
  have i: "i < DFC_MAX_FILES" and les: "length es = DFC_MAX_FILES" using assms by (simp_all add: es_def)
  define j where "j = (let j = em_journal em in if transaction_file_bit (transaction_snapshot_captured j) i
     then
       let len = unat (f_data_len (c_files (credential em) ! i)); offset = unat (transaction_snapshot_offsets j ! i)
       in if offset \<le> transaction_snapshot_pool_length j \<and> len \<le> transaction_snapshot_pool_length j - offset
          then j\<lparr>transaction_snapshot_pool := map_option (mem_set offset 0 len) (transaction_snapshot_pool j)\<rparr> else j
     else j)"
  have ja: "journal_arrays j" "journal_entries j = es" using assms(2) by (simp_all add: j_def Let_def es_def)
  have "journal_entries (em_journal (dfc_emulator_transaction_snapshot_delete_file em i)) =
      (fold (\<lambda>i xs. xs[i := xs ! (i + 1)]) [i..<DFC_MAX_FILES - 1] es)[DFC_MAX_FILES - 1 := (0, 0, 0, 0, False, False)]"
    using assms(1,3) entries_shift_down [OF ja(1), of "DFC_MAX_FILES - 1" i] entry_reset [of _ "DFC_MAX_FILES - 1" False] i
    unfolding dfc_emulator_transaction_snapshot_delete_file_def Let_def j_def [unfolded Let_def, symmetric] by (simp add: ja(2))
  also have "\<dots> = take i es @ drop (Suc i) es @ [(0, 0, 0, 0, False, False)]"
    using shift_down [of "DFC_MAX_FILES - 1" es i] i les by (intro nth_equalityI) (auto simp: nth_append nth_list_update)
  finally show "journal_entries (em_journal (dfc_emulator_transaction_snapshot_delete_file em i)) =
      take i (journal_entries (em_journal em)) @ drop (Suc i) (journal_entries (em_journal em)) @ [(0, 0, 0, 0, False, False)]"
    by (simp add: es_def)
  let ?j1 = "fold (\<lambda>i. snapshot_entry_copy i (i - 1)) (rev [Suc i..<DFC_MAX_FILES]) (em_journal em)"
  have app: "transaction_snapshot_app_index (fold (\<lambda>i. snapshot_entry_copy i (i - 1)) xs jj) = transaction_snapshot_app_index jj" for xs jj
    by (induction xs arbitrary: jj) (simp_all add: snapshot_entry_copy_def)
  let ?new = "unat (f_app_index (c_files (credential em) ! i)) = transaction_snapshot_app_index (em_journal em) \<and>
        transaction_file_has_data (c_files (credential em) ! i)"
  have "journal_entries (em_journal (snd (dfc_emulator_transaction_snapshot_insert_file em i))) =
      (fold (\<lambda>i xs. xs[i := xs ! (i - 1)]) (rev [Suc i..<DFC_MAX_FILES]) es)[i := (0, 0, 0, 0, False, ?new)]"
    using assms(1,3) entries_shift_up [OF assms(2) order_refl, of i] entry_reset [of ?j1 i ?new] i
    unfolding dfc_emulator_transaction_snapshot_insert_file_def Let_def app by (simp add: es_def)
  also have "\<dots> = take i es @ (0, 0, 0, 0, False, ?new) # butlast (drop i es)"
    using shift_up [of DFC_MAX_FILES es i] i les
    by (intro nth_equalityI) (auto simp: nth_append nth_list_update nth_Cons' nth_butlast)
  finally show "journal_entries (em_journal (snd (dfc_emulator_transaction_snapshot_insert_file em i))) =
      take i (journal_entries (em_journal em)) @ (0, 0, 0, 0, False, ?new) # butlast (drop i (journal_entries (em_journal em)))"
    by (simp add: es_def)
qed

end
