(* ===== verification/Dfc_Rollback.thy ===== *)
theory Dfc_Rollback
  imports Dfc_Journal "HOL-Library.Transitive_Closure_Table"
begin

text \<open>
  Rollback. A transaction is any sequence of the journal's operations and of in-place writes to
  files whose preimage was captured; whatever the sequence, aborting returns the credential to
  the value it had when the journal was opened.
\<close>

subsection \<open>The space of a transaction\<close>

definition journaled :: "DfcCredential \<Rightarrow> size_t \<Rightarrow> size_t \<Rightarrow> bool" where
  "journaled c a i \<longleftrightarrow> i < unat (c_num_files c) \<and> unat (f_app_index (c_files c ! i)) = a \<and>
     transaction_file_has_data (c_files c ! i)"

definition file_extent :: "DfcFile \<Rightarrow> nat set" where
  "file_extent f = {unat (f_data_offset f)..<unat (f_data_offset f) + unat (f_data_len f)}"

text \<open>What a transaction may change of a file record: its pending flag and its record count.\<close>

definition staged_file :: "bool \<Rightarrow> u32 \<Rightarrow> DfcFile \<Rightarrow> DfcFile" where
  "staged_file p n f = (if file_is_record f then set_record_count n f else f)\<lparr>f_transaction_pending := p\<rparr>"

lemma staged_file_simps [simp]:
  "f_app_index (staged_file p n f) = f_app_index f" "f_data_offset (staged_file p n f) = f_data_offset f"
  "f_data_len (staged_file p n f) = f_data_len f" "f_type (staged_file p n f) = f_type f"
  "f_transaction_pending (staged_file p n f) = p"
  by (simp_all add: staged_file_def set_record_count_def)

lemma staged_file_twice [simp]: "staged_file p n (staged_file q m f) = staged_file p n f"
  by (simp add: staged_file_def set_record_count_def file_is_record_def)

lemma has_data_staged [simp]:
  "transaction_file_has_data (staged_file p n f) = transaction_file_has_data f"
  "file_is_record (staged_file p n f) = file_is_record f"
  by (simp_all add: transaction_file_has_data_def file_is_record_def)

lemma staged_file_self: "f_transaction_pending f = p \<Longrightarrow> staged_file p (file_record_count f) f = f"
  by (simp add: staged_file_def set_record_count_def file_record_count_def)

lemma not_pending_update: "\<not> f_transaction_pending f \<Longrightarrow> f\<lparr>f_transaction_pending := False\<rparr> = f"
  by (cases f) simp

text \<open>The files of the application whose octets the journal does not hold yet.\<close>

definition unsaved :: "DfcCredential \<Rightarrow> size_t \<Rightarrow> journal \<Rightarrow> nat set" where
  "unsaved c a j = {i. journaled c a i \<and> \<not> transaction_file_bit (transaction_snapshot_captured j) i}"

definition unsaved_octets :: "DfcCredential \<Rightarrow> size_t \<Rightarrow> journal \<Rightarrow> nat" where
  "unsaved_octets c a j = (\<Sum>i \<in> unsaved c a j. unat (f_data_len (c_files c ! i)))"

lemma finite_unsaved [simp]: "finite (unsaved c a j)"
  by (rule finite_subset [of _ "{..<unat (c_num_files c)}"]) (auto simp: unsaved_def journaled_def)

text \<open>The credential a transaction starts from.\<close>

definition base_ok :: "DfcCredential \<Rightarrow> size_t \<Rightarrow> bool" where
  "base_ok c a \<longleftrightarrow> file_invar c \<and>
     list_all (\<lambda>f. unat (f_app_index f) = a \<longrightarrow> \<not> f_transaction_pending f) (live_files c) \<and>
     list_all (\<lambda>f. file_is_record f \<longrightarrow> unat (file_record_count f) < 65536) (live_files c)"

lemma base_okD:
  assumes "base_ok c a" "i < unat (c_num_files c)"
  shows "unat (f_app_index (c_files c ! i)) = a \<Longrightarrow> \<not> f_transaction_pending (c_files c ! i)"
    and "file_is_record (c_files c ! i) \<Longrightarrow> unat (file_record_count (c_files c ! i)) < 65536"
    and "i < length (c_files c)" and "i < DFC_MAX_FILES"
  using assms length_live_files [of c] live_files_nth [of i c]
  by (auto simp: base_ok_def list_all_length file_invar_def file_wf_def)

text \<open>
  The invariant of an open transaction over the committed credential: the credential differs from
  it only in the staged files, the journal has room for what it does not hold yet, a file with
  staged octets was captured first, a captured entry holds the committed octets and record count,
  and outside the staged files the pool is untouched.
\<close>

definition journal_frame :: "DfcCredential \<Rightarrow> DfcCredential \<Rightarrow> bool" where
  "journal_frame c0 c \<longleftrightarrow>
     c = c0\<lparr>c_files := c_files c, c_file_pool := c_file_pool c, c_dirty := c_dirty c\<rparr> \<and>
     length (c_files c) = length (c_files c0) \<and> length (c_file_pool c) = length (c_file_pool c0)"

definition journal_shape :: "DfcCredential \<Rightarrow> size_t \<Rightarrow> journal \<Rightarrow> bool" where
  "journal_shape c0 a j \<longleftrightarrow>
     transaction_snapshot_active j \<and> transaction_snapshot_app_index j = a \<and> transaction_snapshot_dirty j = c_dirty c0 \<and>
     transaction_snapshot_pool j \<noteq> None \<and> length (the (transaction_snapshot_pool j)) = transaction_snapshot_pool_capacity j \<and>
     transaction_snapshot_pool_capacity j \<le> DFC_FILE_POOL_SIZE \<and>
     transaction_snapshot_pool_length j + unsaved_octets c0 a j \<le> transaction_snapshot_pool_capacity j \<and>
     length (transaction_snapshot_offsets j) = DFC_MAX_FILES \<and> length (transaction_snapshot_record_counts j) = DFC_MAX_FILES \<and>
     length (transaction_snapshot_captured j) = DFC_TRANSACTION_FILE_BITMAP_SIZE \<and>
     (\<forall>i. \<not> transaction_file_bit (transaction_snapshot_created j) i)"

definition journal_files :: "DfcCredential \<Rightarrow> size_t \<Rightarrow> DfcCredential \<Rightarrow> bytes \<Rightarrow> bool" where
  "journal_files c0 a c captured \<longleftrightarrow>
     (\<forall>i < length (c_files c0). c_files c ! i = c_files c0 ! i \<or>
        journaled c0 a i \<and> transaction_file_bit captured i \<and> (\<exists>m. c_files c ! i = staged_file True m (c_files c0 ! i)))"

definition entry_saved :: "DfcCredential \<Rightarrow> journal \<Rightarrow> nat \<Rightarrow> bool" where
  "entry_saved c0 j i \<longleftrightarrow>
     unat (transaction_snapshot_offsets j ! i) + unat (f_data_len (c_files c0 ! i)) \<le> transaction_snapshot_pool_length j \<and>
     mem_read (unat (transaction_snapshot_offsets j ! i)) (unat (f_data_len (c_files c0 ! i))) (the (transaction_snapshot_pool j)) =
       file_bytes c0 i \<and>
     (file_is_record (c_files c0 ! i) \<longrightarrow>
       ucast (transaction_snapshot_record_counts j ! i) = file_record_count (c_files c0 ! i))"

definition journal_saved :: "DfcCredential \<Rightarrow> size_t \<Rightarrow> journal \<Rightarrow> bool" where
  "journal_saved c0 a j \<longleftrightarrow>
     (\<forall>i. journaled c0 a i \<longrightarrow> transaction_file_bit (transaction_snapshot_captured j) i \<longrightarrow> entry_saved c0 j i)"

definition staged_in :: "DfcCredential \<Rightarrow> size_t \<Rightarrow> DfcCredential \<Rightarrow> nat \<Rightarrow> bool" where
  "staged_in c0 a c i \<longleftrightarrow> journaled c0 a i \<and> f_transaction_pending (c_files c ! i)"

definition journal_pool :: "DfcCredential \<Rightarrow> size_t \<Rightarrow> DfcCredential \<Rightarrow> bool" where
  "journal_pool c0 a c \<longleftrightarrow>
     (\<forall>p < length (c_file_pool c0). (\<forall>i. staged_in c0 a c i \<longrightarrow> p \<notin> file_extent (c_files c0 ! i)) \<longrightarrow>
        c_file_pool c ! p = c_file_pool c0 ! p)"

definition journal_invar :: "DfcCredential \<Rightarrow> size_t \<Rightarrow> DfcEmulator \<Rightarrow> bool" where
  "journal_invar c0 a em \<longleftrightarrow> journal_frame c0 (credential em) \<and> journal_shape c0 a (em_journal em) \<and>
     journal_files c0 a (credential em) (transaction_snapshot_captured (em_journal em)) \<and>
     journal_saved c0 a (em_journal em) \<and> journal_pool c0 a (credential em)"

text \<open>An in-place write to a file, as the data and record handlers make it.\<close>

definition stage_write :: "size_t \<Rightarrow> size_t \<Rightarrow> bytes \<Rightarrow> u32 \<Rightarrow> DfcCredential \<Rightarrow> DfcCredential" where
  "stage_write i off xs n c =
     upd_file i (staged_file True n)
       (c\<lparr>c_file_pool := mem_write (unat (f_data_offset (c_files c ! i)) + off) xs (c_file_pool c)\<rparr>)"

inductive transaction_step :: "DfcEmulator \<Rightarrow> DfcEmulator \<Rightarrow> bool" where
  capture: "dfc_emulator_transaction_snapshot_capture_file em i = (True, em') \<Longrightarrow> transaction_step em em'"
| stage: "\<lbrakk>journaled (credential em) (transaction_snapshot_app_index (em_journal em)) i;
    transaction_file_bit (transaction_snapshot_captured (em_journal em)) i;
    off + length xs \<le> unat (f_data_len (c_files (credential em) ! i))\<rbrakk>
    \<Longrightarrow> transaction_step em (em\<lparr>credential := (stage_write i off xs n (credential em))\<lparr>c_dirty := d\<rparr>\<rparr>)"
| record_operation: "transaction_step em (dfc_emulator_command_transaction_set_record_operation em i operation record_number)"
| other: "\<lbrakk>credential em' = credential em; em_journal em' = em_journal em\<rbrakk> \<Longrightarrow> transaction_step em em'"

inductive_cases transaction_stepE: "transaction_step em em'"

subsection \<open>Facts of an open transaction\<close>

lemma ucast_u16_small: "unat (x :: u32) < 65536 \<Longrightarrow> (ucast (ucast x :: u16) :: u32) = x"
  by (rule word_unat_eq_iff [THEN iffD2]) (simp add: unsigned_ucast_eq unsigned_take_bit_eq take_bit_nat_eq_self)

lemma frame_fields:
  assumes "journal_frame c0 c"
  shows "c_num_files c = c_num_files c0" "c_file_pool_used c = c_file_pool_used c0"
    "length (c_files c) = length (c_files c0)" "length (c_file_pool c) = length (c_file_pool c0)"
proof -
  have e: "c = c0\<lparr>c_files := c_files c, c_file_pool := c_file_pool c, c_dirty := c_dirty c\<rparr>"
    using assms by (simp add: journal_frame_def)
  show "c_num_files c = c_num_files c0" "c_file_pool_used c = c_file_pool_used c0"
    using arg_cong [OF e, of c_num_files] arg_cong [OF e, of c_file_pool_used] by simp_all
qed (use assms in \<open>simp_all add: journal_frame_def\<close>)

lemma file_record_of:
  assumes "journal_files c0 a c bm" "i < length (c_files c0)"
  shows "f_app_index (c_files c ! i) = f_app_index (c_files c0 ! i)" "f_data_offset (c_files c ! i) = f_data_offset (c_files c0 ! i)"
    "f_data_len (c_files c ! i) = f_data_len (c_files c0 ! i)"
    "transaction_file_has_data (c_files c ! i) = transaction_file_has_data (c_files c0 ! i)"
    "file_is_record (c_files c ! i) = file_is_record (c_files c0 ! i)"
  using assms unfolding journal_files_def by (metis staged_file_simps has_data_staged)+

lemma journaled_of:
  assumes "base_ok c0 a" "journal_frame c0 c" "journal_files c0 a c bm"
  shows "journaled c a i \<longleftrightarrow> journaled c0 a i"
  using file_record_of [OF assms(3), of i] frame_fields [OF assms(2)] base_okD(3) [OF assms(1), of i] by (auto simp: journaled_def)

lemma file_data_of:
  assumes base: "base_ok c0 a" and fr: "journal_frame c0 c" and fs: "journal_files c0 a c bm" and i: "i < unat (c_num_files c0)"
  shows "dfc_file_data c i = (if f_data_len (c_files c0 ! i) = 0 then None else Some (unat (f_data_offset (c_files c0 ! i))))"
proof -
  have "dfc_file_data c i = dfc_file_data c0 i"
    using file_record_of [OF fs, of i] frame_fields [OF fr] base_okD(3) [OF base i] by (simp add: dfc_file_data_def Let_def)
  then show ?thesis using dfc_file_data_reads(1) [of c0 i] base i by (simp add: base_ok_def)
qed

lemma file_bytes_of:
  assumes "file_invar c0" "i < unat (c_num_files c0)" "f_data_len (c_files c0 ! i) \<noteq> 0"
  shows "file_bytes c0 i = mem_read (unat (f_data_offset (c_files c0 ! i))) (unat (f_data_len (c_files c0 ! i))) (c_file_pool c0)"
    and "unat (f_data_offset (c_files c0 ! i)) + unat (f_data_len (c_files c0 ! i)) \<le> length (c_file_pool c0)"
  using assms dfc_file_data_reads [of c0 i] file_pool_ok_inside [of c0 i] file_pool_used_le [of c0]
  by (auto simp: file_invar_def file_wf_def)

lemma file_extents_disjoint:
  assumes inv: "file_invar c0" and ik: "i < unat (c_num_files c0)" "k < unat (c_num_files c0)" "i \<noteq> k"
  shows "file_extent (c_files c0 ! i) \<inter> file_extent (c_files c0 ! k) = {}"
proof -
  have wf: "file_wf c0" and ok: "file_pool_ok c0" using inv by (auto simp: file_invar_def)
  have "slice_disj (file_slices c0 ! i) (file_slices c0 ! k)"
    using ok ik by (intro pool_ok_disj) (simp_all add: length_file_slices [OF wf])
  then show ?thesis using file_slice_eqs [OF file_wf_slot [OF wf ik(1)]] file_slice_eqs [OF file_wf_slot [OF wf ik(2)]] ik
    by (cases "f_data_len (c_files c0 ! i) = 0"; cases "f_data_len (c_files c0 ! k) = 0")
      (auto simp: file_extent_def slice_disj_def file_slices_nth [OF wf])
qed

subsection \<open>Capturing\<close>

definition with_entry :: "DfcCredential \<Rightarrow> nat \<Rightarrow> journal \<Rightarrow> journal" where
  "with_entry c0 i j = j\<lparr>
     transaction_snapshot_pool := map_option (mem_write (transaction_snapshot_pool_length j) (file_bytes c0 i)) (transaction_snapshot_pool j),
     transaction_snapshot_offsets := (transaction_snapshot_offsets j)[i := of_nat (transaction_snapshot_pool_length j)],
     transaction_snapshot_record_counts := (transaction_snapshot_record_counts j)[i :=
       (if file_is_record (c_files c0 ! i) then ucast (file_record_count (c_files c0 ! i)) else 0)],
     transaction_snapshot_pool_length := transaction_snapshot_pool_length j + unat (f_data_len (c_files c0 ! i)),
     transaction_snapshot_captured := transaction_file_bit_set (transaction_snapshot_captured j) i True\<rparr>"

lemma unstaged_bytes:
  assumes base: "base_ok c0 a" and fs: "journal_files c0 a c bm" and pl: "journal_pool c0 a c" and fr: "journal_frame c0 c"
    and i: "journaled c0 a i" "\<not> transaction_file_bit bm i" and len: "f_data_len (c_files c0 ! i) \<noteq> 0"
  shows "mem_read (unat (f_data_offset (c_files c0 ! i))) (unat (f_data_len (c_files c0 ! i))) (c_file_pool c) = file_bytes c0 i"
proof -
  have inv: "file_invar c0" and n: "i < unat (c_num_files c0)" using base i by (auto simp: base_ok_def journaled_def)
  note fb = file_bytes_of [OF inv n len]
  have "c_file_pool c ! p = c_file_pool c0 ! p" if p: "p \<in> file_extent (c_files c0 ! i)" for p
  proof -
    have "p \<notin> file_extent (c_files c0 ! k)" if k: "staged_in c0 a c k" for k
    proof -
      have kn: "k < unat (c_num_files c0)" using k by (auto simp: staged_in_def journaled_def)
      have "k \<noteq> i"
      proof
        assume "k = i"
        then have "c_files c ! i = c_files c0 ! i" using fs i base_okD(3) [OF base n] by (auto simp: journal_files_def)
        then show False using k base_okD(1) [OF base n] i \<open>k = i\<close> by (simp add: staged_in_def journaled_def)
      qed
      then show ?thesis using file_extents_disjoint [OF inv n kn] p by blast
    qed
    then show ?thesis using pl p fb(2) by (auto simp: journal_pool_def file_extent_def)
  qed
  then show ?thesis unfolding fb(1) using frame_fields [OF fr] fb(2)
    by (intro mem_read_cong) (auto simp: file_extent_def)
qed

lemma capture_effect:
  assumes base: "base_ok c0 a" and inv: "journal_invar c0 a em" and i: "journaled c0 a i"
  shows "dfc_emulator_transaction_snapshot_capture_file em i =
    (True, if transaction_file_bit (transaction_snapshot_captured (em_journal em)) i then em
      else em\<lparr>em_journal := with_entry c0 i (em_journal em)\<rparr>)"
proof -
  define j where "j = em_journal em"
  define c where "c = credential em"
  have fr: "journal_frame c0 c" and sh: "journal_shape c0 a j" and fs: "journal_files c0 a c (transaction_snapshot_captured j)"
    and pl: "journal_pool c0 a c"
    using inv by (simp_all add: journal_invar_def j_def c_def)
  have n: "i < unat (c_num_files c0)" "i < length (c_files c0)" using i base_okD(3) [OF base] by (auto simp: journaled_def)
  note rec = file_record_of [OF fs n(2)] and flds = frame_fields [OF fr] and dat = file_data_of [OF base fr fs n(1)]
  have ja: "journaled c a i" using i journaled_of [OF base fr fs] by simp
  have guards: "\<not> \<not> transaction_snapshot_active j" "\<not> i \<ge> unat (c_num_files c)"
    "\<not> (unat (f_app_index (c_files c ! i)) \<noteq> transaction_snapshot_app_index j \<or> \<not> transaction_file_has_data (c_files c ! i))"
    using sh ja by (auto simp: journal_shape_def journaled_def)
  show ?thesis
  proof (cases "transaction_file_bit (transaction_snapshot_captured j) i")
    case True
    then show ?thesis unfolding dfc_emulator_transaction_snapshot_capture_file_def Let_def j_def [symmetric] c_def [symmetric]
        if_not_P [OF guards(1)] if_not_P [OF guards(2)] if_not_P [OF guards(3)] by simp
  next
    case False
    let ?len = "unat (f_data_len (c_files c ! i))"
    have "i \<in> unsaved c0 a j" using i False by (simp add: unsaved_def)
    then have "unat (f_data_len (c_files c0 ! i)) \<le> unsaved_octets c0 a j" unfolding unsaved_octets_def
      by (intro member_le_sum) auto
    then have room: "\<not> ((?len \<noteq> 0 \<and> transaction_snapshot_pool j = None) \<or> ?len > transaction_snapshot_pool_capacity j \<or>
        transaction_snapshot_pool_length j > transaction_snapshot_pool_capacity j - ?len)"
      using sh rec by (auto simp: journal_shape_def)
    have nocr: "\<not> (transaction_file_bit (transaction_snapshot_created j) i \<or> transaction_file_bit (transaction_snapshot_captured j) i)"
      using sh False by (simp add: journal_shape_def)
    have data: "\<not> (?len \<noteq> 0 \<and> dfc_file_data c i = None)" using dat rec by (simp add: unat_eq_0)
    have bytes: "?len \<noteq> 0 \<Longrightarrow> mem_read (the (dfc_file_data c i)) ?len (c_file_pool c) = file_bytes c0 i"
      using unstaged_bytes [OF base fs pl fr i False] dat rec by (simp add: unat_eq_0)
    have empty: "?len = 0 \<Longrightarrow> file_bytes c0 i = []" using rec length_file_bytes [of c0 i] base n by (simp add: base_ok_def)
    have cnt: "file_record_count (c_files c ! i) = file_record_count (c_files c0 ! i)"
      using fs n(2) False by (auto simp: journal_files_def)
    have pool: "(if ?len \<noteq> 0
        then map_option (mem_write (transaction_snapshot_pool_length j) (mem_read (the (dfc_file_data c i)) ?len (c_file_pool c)))
          (transaction_snapshot_pool j)
        else transaction_snapshot_pool j) =
        map_option (mem_write (transaction_snapshot_pool_length j) (file_bytes c0 i)) (transaction_snapshot_pool j)"
      using bytes empty by (cases "?len = 0"; cases "transaction_snapshot_pool j") simp_all
    show ?thesis unfolding dfc_emulator_transaction_snapshot_capture_file_def Let_def j_def [symmetric] c_def [symmetric]
        if_not_P [OF guards(1)] if_not_P [OF guards(2)] if_not_P [OF guards(3)] if_not_P [OF nocr] if_not_P [OF room] if_not_P [OF data]
        pool if_not_P [OF False]
      by (simp add: with_entry_def cnt rec(3,5))
  qed
qed

lemma capture_only_journaled:
  assumes base: "base_ok c0 a" and inv: "journal_invar c0 a em"
    and cap: "dfc_emulator_transaction_snapshot_capture_file em i = (True, em')"
  shows "journaled c0 a i"
proof -
  have fr: "journal_frame c0 (credential em)" and fs: "journal_files c0 a (credential em) (transaction_snapshot_captured (em_journal em))"
    and sh: "journal_shape c0 a (em_journal em)"
    using inv by (simp_all add: journal_invar_def)
  have "journaled (credential em) a i"
    using cap sh unfolding dfc_emulator_transaction_snapshot_capture_file_def Let_def journaled_def journal_shape_def
    by (simp split: if_splits)
  then show ?thesis using journaled_of [OF base fr fs] by simp
qed

lemma with_entry_simps [simp]:
  "transaction_snapshot_active (with_entry c0 i j) = transaction_snapshot_active j"
  "transaction_snapshot_app_index (with_entry c0 i j) = transaction_snapshot_app_index j"
  "transaction_snapshot_dirty (with_entry c0 i j) = transaction_snapshot_dirty j"
  "transaction_snapshot_pool_capacity (with_entry c0 i j) = transaction_snapshot_pool_capacity j"
  "transaction_snapshot_created (with_entry c0 i j) = transaction_snapshot_created j"
  "transaction_snapshot_captured (with_entry c0 i j) = transaction_file_bit_set (transaction_snapshot_captured j) i True"
  "transaction_snapshot_pool_length (with_entry c0 i j) = transaction_snapshot_pool_length j + unat (f_data_len (c_files c0 ! i))"
  by (simp_all add: with_entry_def)

lemma with_entry_unsaved:
  assumes "length (transaction_snapshot_captured j) = DFC_TRANSACTION_FILE_BITMAP_SIZE" "i < DFC_MAX_FILES" "i \<in> unsaved c0 a j"
  shows "unsaved_octets c0 a (with_entry c0 i j) + unat (f_data_len (c_files c0 ! i)) = unsaved_octets c0 a j"
proof -
  have "unsaved c0 a (with_entry c0 i j) = unsaved c0 a j - {i}"
    using file_bit_set [OF assms(1,2)] by (auto simp: unsaved_def)
  then show ?thesis using assms(3) unfolding unsaved_octets_def
    by (simp add: sum.remove [of "unsaved c0 a j" i] add.commute)
qed

lemma with_entry_shape:
  assumes sh: "journal_shape c0 a j" and new: "i \<in> unsaved c0 a j" and i: "i < DFC_MAX_FILES" and inv: "file_invar c0"
  shows "journal_shape c0 a (with_entry c0 i j)"
proof -
  have len: "length (file_bytes c0 i) = unat (f_data_len (c_files c0 ! i))"
    using length_file_bytes [OF inv, of i] new by (simp add: unsaved_def journaled_def)
  have un: "unsaved_octets c0 a (with_entry c0 i j) + unat (f_data_len (c_files c0 ! i)) = unsaved_octets c0 a j"
    using with_entry_unsaved sh i new by (simp add: journal_shape_def)
  obtain pool where pool: "transaction_snapshot_pool j = Some pool" "length pool = transaction_snapshot_pool_capacity j"
    using sh by (auto simp: journal_shape_def)
  have "transaction_snapshot_pool_length j + length (file_bytes c0 i) \<le> length pool"
    using sh un pool len by (simp add: journal_shape_def)
  then show ?thesis using sh un pool by (simp add: journal_shape_def) (simp add: with_entry_def)
qed

lemma with_entry_saved:
  assumes base: "base_ok c0 a" and sh: "journal_shape c0 a j" and sv: "journal_saved c0 a j" and new: "i \<in> unsaved c0 a j"
  shows "journal_saved c0 a (with_entry c0 i j)"
  unfolding journal_saved_def
proof (intro allI impI)
  fix k assume k: "journaled c0 a k" and bit: "transaction_file_bit (transaction_snapshot_captured (with_entry c0 i j)) k"
  have inv: "file_invar c0" and n: "i < unat (c_num_files c0)" "k < unat (c_num_files c0)"
    using base k new by (auto simp: base_ok_def journaled_def unsaved_def)
  have m: "i < DFC_MAX_FILES" "k < DFC_MAX_FILES" using base_okD(4) [OF base] n by auto
  have len: "length (file_bytes c0 i) = unat (f_data_len (c_files c0 ! i))" using length_file_bytes [OF inv n(1)] .
  obtain pool where pool: "transaction_snapshot_pool j = Some pool" "length pool = transaction_snapshot_pool_capacity j"
    using sh by (auto simp: journal_shape_def)
  have "i \<in> unsaved c0 a j \<Longrightarrow> unat (f_data_len (c_files c0 ! i)) \<le> unsaved_octets c0 a j"
    unfolding unsaved_octets_def by (intro member_le_sum) auto
  then have fit: "transaction_snapshot_pool_length j + length (file_bytes c0 i) \<le> length pool"
    using sh pool len new by (simp add: journal_shape_def)
  have small: "transaction_snapshot_pool_length j < 65536" using fit pool sh by (simp add: journal_shape_def DFC_FILE_POOL_SIZE_def)
  show "entry_saved c0 (with_entry c0 i j) k"
  proof (cases "k = i")
    case True
    have cnt: "file_is_record (c_files c0 ! i) \<Longrightarrow>
        (ucast (ucast (file_record_count (c_files c0 ! i)) :: u16) :: u32) = file_record_count (c_files c0 ! i)"
      using base_okD(2) [OF base n(1)] by (intro ucast_u16_small)
    show ?thesis using True m sh pool fit small len cnt mem_read_write_same [of "transaction_snapshot_pool_length j" "file_bytes c0 i" pool]
      by (simp add: entry_saved_def journal_shape_def) (simp add: with_entry_def)
  next
    case False
    then have "transaction_file_bit (transaction_snapshot_captured j) k"
      using bit sh m by (simp add: journal_shape_def file_bit_set)
    then have e: "entry_saved c0 j k" using sv k by (simp add: journal_saved_def)
    have "mem_read (unat (transaction_snapshot_offsets j ! k)) (unat (f_data_len (c_files c0 ! k)))
        (mem_write (transaction_snapshot_pool_length j) (file_bytes c0 i) pool) =
      mem_read (unat (transaction_snapshot_offsets j ! k)) (unat (f_data_len (c_files c0 ! k))) pool"
      using e fit by (intro mem_read_write_other) (auto simp: entry_saved_def)
    then show ?thesis using e False pool by (simp add: entry_saved_def) (simp add: with_entry_def)
  qed
qed

lemma capture_invar:
  assumes base: "base_ok c0 a" and inv: "journal_invar c0 a em"
    and cap: "dfc_emulator_transaction_snapshot_capture_file em i = (True, em')"
  shows "journal_invar c0 a em'"
proof -
  have i: "journaled c0 a i" using capture_only_journaled [OF assms] .
  have m: "i < DFC_MAX_FILES" using base_okD(4) [OF base] i by (auto simp: journaled_def)
  define j where "j = em_journal em"
  have sh: "journal_shape c0 a j" and sv: "journal_saved c0 a j"
    and fs: "journal_files c0 a (credential em) (transaction_snapshot_captured j)"
    using inv by (simp_all add: journal_invar_def j_def)
  show ?thesis
  proof (cases "transaction_file_bit (transaction_snapshot_captured j) i")
    case True
    then show ?thesis using cap capture_effect [OF base inv i] inv by (simp add: j_def)
  next
    case False
    then have e: "em' = em\<lparr>em_journal := with_entry c0 i j\<rparr>" using cap capture_effect [OF base inv i] by (simp add: j_def)
    have new: "i \<in> unsaved c0 a j" using i False by (simp add: unsaved_def)
    have "journal_files c0 a (credential em) (transaction_snapshot_captured (with_entry c0 i j))"
      using fs sh m by (auto simp: journal_files_def journal_shape_def file_bit_set)
    then show ?thesis using inv with_entry_shape [OF sh new m] with_entry_saved [OF base sh sv new] base
      by (simp add: journal_invar_def e base_ok_def)
  qed
qed

subsection \<open>Staging\<close>

lemma frame_iff:
  "journal_frame c0 c \<longleftrightarrow>
    (\<exists>fs p d. c = c0\<lparr>c_files := fs, c_file_pool := p, c_dirty := d\<rparr> \<and> length fs = length (c_files c0) \<and> length p = length (c_file_pool c0))"
  by (auto simp: journal_frame_def)

lemma frame_update:
  "journal_frame c0 c \<Longrightarrow> length fs = length (c_files c0) \<Longrightarrow> length p = length (c_file_pool c0) \<Longrightarrow>
    journal_frame c0 (c\<lparr>c_files := fs, c_file_pool := p, c_dirty := d\<rparr>)"
  unfolding frame_iff by (elim exE conjE, rule exI [of _ fs], rule exI [of _ p], rule exI [of _ d]) simp

lemma stage_write_eq:
  "(stage_write i off xs n c)\<lparr>c_dirty := d\<rparr> =
    c\<lparr>c_files := (c_files c)[i := staged_file True n (c_files c ! i)],
      c_file_pool := mem_write (unat (f_data_offset (c_files c ! i)) + off) xs (c_file_pool c), c_dirty := d\<rparr>"
  by (simp add: stage_write_def upd_file_def)

lemma stage_invar:
  assumes base: "base_ok c0 a" and inv: "journal_invar c0 a em"
    and i: "journaled (credential em) a i" "transaction_file_bit (transaction_snapshot_captured (em_journal em)) i"
    and fit: "off + length xs \<le> unat (f_data_len (c_files (credential em) ! i))"
  shows "journal_invar c0 a (em\<lparr>credential := (stage_write i off xs n (credential em))\<lparr>c_dirty := d\<rparr>\<rparr>)"
proof -
  define c where "c = credential em"
  define bm where "bm = transaction_snapshot_captured (em_journal em)"
  have fr: "journal_frame c0 c" and fs: "journal_files c0 a c bm" and pl: "journal_pool c0 a c"
    using inv by (simp_all add: journal_invar_def c_def bm_def)
  have j0: "journaled c0 a i" using i(1) journaled_of [OF base fr fs] by (simp add: c_def)
  have n: "i < unat (c_num_files c0)" "i < length (c_files c0)" using j0 base_okD(3) [OF base] by (auto simp: journaled_def)
  note rec = file_record_of [OF fs n(2)] and flds = frame_fields [OF fr]
  let ?o = "unat (f_data_offset (c_files c ! i)) + off"
  define c' where "c' = c\<lparr>c_files := (c_files c)[i := staged_file True n (c_files c ! i)],
      c_file_pool := mem_write ?o xs (c_file_pool c), c_dirty := d\<rparr>"
  have inside: "?o + length xs \<le> length (c_file_pool c)" if "xs \<noteq> []"
  proof -
    have "f_data_len (c_files c0 ! i) \<noteq> 0" using that fit rec by (auto simp: c_def unat_eq_0)
    then show ?thesis using file_bytes_of(2) [of c0 i] base n fit rec flds by (simp add: base_ok_def c_def)
  qed
  have lenp: "length (mem_write ?o xs (c_file_pool c)) = length (c_file_pool c)"
    using inside by (cases xs) simp_all
  have nthp: "mem_write ?o xs (c_file_pool c) ! p = c_file_pool c ! p" if "p \<notin> file_extent (c_files c0 ! i)" "p < length (c_file_pool c)" for p
  proof (cases xs)
    case (Cons x xs')
    then show ?thesis using that inside fit rec
      by (subst nth_mem_write) (auto simp: file_extent_def c_def)
  qed simp
  have staged: "\<exists>m. staged_file True n (c_files c ! i) = staged_file True m (c_files c0 ! i)"
    using fs n(2) unfolding journal_files_def by (metis staged_file_twice)
  have "journal_frame c0 c'" unfolding c'_def using fr lenp flds by (intro frame_update) simp_all
  moreover have "journal_files c0 a c' bm" unfolding journal_files_def
  proof (intro allI impI)
    fix k assume k: "k < length (c_files c0)"
    show "c_files c' ! k = c_files c0 ! k \<or>
        journaled c0 a k \<and> transaction_file_bit bm k \<and> (\<exists>m. c_files c' ! k = staged_file True m (c_files c0 ! k))"
      using fs k staged j0 i(2) flds by (cases "k = i") (auto simp: c'_def journal_files_def bm_def)
  qed
  moreover have "journal_pool c0 a c'" unfolding journal_pool_def
  proof (intro allI impI)
    fix p assume p: "p < length (c_file_pool c0)" and out: "\<forall>k. staged_in c0 a c' k \<longrightarrow> p \<notin> file_extent (c_files c0 ! k)"
    have "staged_in c0 a c' i" using j0 n flds by (simp add: staged_in_def c'_def)
    then have pi: "p \<notin> file_extent (c_files c0 ! i)" using out by blast
    have "staged_in c0 a c k \<Longrightarrow> staged_in c0 a c' k" for k
      using n flds by (cases "k = i") (auto simp: staged_in_def c'_def)
    then have "c_file_pool c ! p = c_file_pool c0 ! p" using pl p out by (simp add: journal_pool_def)
    then show "c_file_pool c' ! p = c_file_pool c0 ! p" using nthp [OF pi] p flds by (simp add: c'_def)
  qed
  ultimately show ?thesis using inv unfolding stage_write_eq journal_invar_def
    by (simp add: c'_def [symmetric] c_def [symmetric] bm_def [symmetric])
qed

lemma record_operation_invar:
  "journal_invar c0 a em \<Longrightarrow> journal_invar c0 a (dfc_emulator_command_transaction_set_record_operation em i oper number)"
  unfolding journal_invar_def dfc_emulator_command_transaction_set_record_operation_def upd_journal_def
  by (auto simp: journal_shape_def journal_saved_def entry_saved_def unsaved_octets_def unsaved_def)

lemma transaction_step_invar:
  assumes "transaction_step em em'" "base_ok c0 a" "journal_invar c0 a em"
  shows "journal_invar c0 a em'"
  using assms(1)
proof cases
  case (capture i)
  then show ?thesis using capture_invar assms(2,3) by blast
next
  case (stage i off xs n d)
  moreover have "transaction_snapshot_app_index (em_journal em) = a" using assms(3) by (simp add: journal_invar_def journal_shape_def)
  ultimately show ?thesis using stage_invar [OF assms(2,3)] by simp
next
  case (record_operation i operation record_number)
  then show ?thesis using record_operation_invar assms(3) by simp
next
  case other
  then show ?thesis using assms(3) by (simp add: journal_invar_def)
qed

subsection \<open>Aborting\<close>

lemma abort_entries_valid:
  assumes base: "base_ok c0 a" and inv: "journal_invar c0 a em"
  shows "list_all (abort_entry_valid (em_journal em) (credential em) a) [0..<unat (c_num_files (credential em))]"
proof -
  define j where "j = em_journal em"
  define c where "c = credential em"
  have fr: "journal_frame c0 c" and sh: "journal_shape c0 a j" and fs: "journal_files c0 a c (transaction_snapshot_captured j)"
    and sv: "journal_saved c0 a j"
    using inv by (simp_all add: journal_invar_def j_def c_def)
  have "abort_entry_valid j c a i" if i: "i < unat (c_num_files c0)" for i
  proof (cases "unat (f_app_index (c_files c ! i)) = a \<and> f_transaction_pending (c_files c ! i) \<and> transaction_file_has_data (c_files c ! i)")
    case True
    have l: "i < length (c_files c0)" using base_okD(3) [OF base i] .
    note rec = file_record_of [OF fs l]
    have j0: "journaled c0 a i" using True rec i by (simp add: journaled_def)
    have "c_files c ! i \<noteq> c_files c0 ! i" using True base_okD(1) [OF base i] by auto
    then have cap: "transaction_file_bit (transaction_snapshot_captured j) i" using fs l by (auto simp: journal_files_def)
    then have e: "entry_saved c0 j i" using sv j0 by (simp add: journal_saved_def)
    show ?thesis using cap e sh rec file_data_of [OF base fr fs i]
      by (auto simp: abort_entry_valid_def Let_def entry_saved_def journal_shape_def unat_eq_0)
  next
    case False
    then show ?thesis by (auto simp: abort_entry_valid_def Let_def)
  qed
  then show ?thesis using frame_fields [OF fr] by (simp add: list_all_iff j_def c_def)
qed

lemma restore_file_effect:
  assumes base: "base_ok c0 a" and sh: "journal_shape c0 a j" and sv: "journal_saved c0 a j"
    and fr: "journal_frame c0 c" and i: "i < unat (c_num_files c0)"
    and fi: "c_files c ! i = c_files c0 ! i \<or>
      journaled c0 a i \<and> transaction_file_bit (transaction_snapshot_captured j) i \<and> (\<exists>m. c_files c ! i = staged_file True m (c_files c0 ! i))"
    and fd: "dfc_file_data c i = (if f_data_len (c_files c0 ! i) = 0 then None else Some (unat (f_data_offset (c_files c0 ! i))))"
  shows "abort_restore_file j a i c = c\<lparr>c_files := (c_files c)[i := c_files c0 ! i],
    c_file_pool := (if f_transaction_pending (c_files c ! i) \<and> journaled c0 a i \<and> f_data_len (c_files c0 ! i) \<noteq> 0
      then mem_write (unat (f_data_offset (c_files c0 ! i))) (file_bytes c0 i) (c_file_pool c) else c_file_pool c)\<rparr>"
proof (cases "c_files c ! i = c_files c0 ! i")
  case True
  have np: "unat (f_app_index (c_files c0 ! i)) = a \<Longrightarrow> \<not> f_transaction_pending (c_files c0 ! i)" using base_okD(1) [OF base i] .
  have self: "(c_files c)[i := c_files c0 ! i] = c_files c" using True by (metis list_update_id)
  have rhs: "c\<lparr>c_files := (c_files c)[i := c_files c0 ! i],
      c_file_pool := (if f_transaction_pending (c_files c ! i) \<and> journaled c0 a i \<and> f_data_len (c_files c0 ! i) \<noteq> 0
        then mem_write (unat (f_data_offset (c_files c0 ! i))) (file_bytes c0 i) (c_file_pool c) else c_file_pool c)\<rparr> = c"
  proof -
    have "\<not> (f_transaction_pending (c_files c ! i) \<and> journaled c0 a i \<and> f_data_len (c_files c0 ! i) \<noteq> 0)"
      using True np by (auto simp: journaled_def)
    then show ?thesis using self by (simp only: if_False) simp
  qed
  show ?thesis unfolding rhs
  proof (cases "unat (f_app_index (c_files c0 ! i)) = a")
    case app: True
    have "\<not> (f_transaction_pending (c_files c0 ! i) \<and> transaction_file_has_data (c_files c0 ! i))" using np [OF app] by simp
    moreover have "upd_file i (\<lambda>f. f\<lparr>f_transaction_pending := False\<rparr>) c = c"
      using not_pending_update [OF np [OF app]] self True by (simp add: upd_file_def)
    ultimately show "abort_restore_file j a i c = c" unfolding abort_restore_file_def Let_def True using app by (simp only: simp_thms if_False)
  next
    case False
    then show "abort_restore_file j a i c = c" unfolding abort_restore_file_def Let_def True by (simp only: simp_thms if_True)
  qed
next
  case False
  then obtain m where st: "c_files c ! i = staged_file True m (c_files c0 ! i)" and j0: "journaled c0 a i"
    and cap: "transaction_file_bit (transaction_snapshot_captured j) i" using fi by blast
  have e: "entry_saved c0 j i" using sv j0 cap by (simp add: journal_saved_def)
  have np: "\<not> f_transaction_pending (c_files c0 ! i)" using base_okD(1) [OF base i] j0 by (simp add: journaled_def)
  have ncr: "\<not> transaction_file_bit (transaction_snapshot_created j) i" using sh by (simp add: journal_shape_def)
  have il: "i < length (c_files c)" using base_okD(3) [OF base i] frame_fields [OF fr] by simp
  have bk: "(set_record_count (file_record_count (c_files c0 ! i)) (staged_file True m (c_files c0 ! i)))\<lparr>f_transaction_pending := False\<rparr> =
      c_files c0 ! i" if "file_is_record (c_files c0 ! i)"
    using np that by (simp add: staged_file_def set_record_count_def file_record_count_def)
  have bk': "(staged_file True m (c_files c0 ! i))\<lparr>f_transaction_pending := False\<rparr> = c_files c0 ! i" if "\<not> file_is_record (c_files c0 ! i)"
    using np that by (simp add: staged_file_def)
  let ?orig = "c_files c0 ! i" and ?f = "c_files c ! i"
  have g: "\<not> unat (f_app_index ?f) \<noteq> a" "f_transaction_pending ?f \<and> transaction_file_has_data ?f"
    using j0 by (simp_all add: st journaled_def)
  have same: "f_data_len ?f = f_data_len ?orig" "file_is_record ?f = file_is_record ?orig" "f_transaction_pending ?f" by (simp_all add: st)
  have pre: "mem_read (unat (transaction_snapshot_offsets j ! i)) (unat (f_data_len ?orig)) (the (transaction_snapshot_pool j)) = file_bytes c0 i"
    and cnt: "file_is_record ?orig \<Longrightarrow> ucast (transaction_snapshot_record_counts j ! i) = file_record_count ?orig"
    using e by (simp_all add: entry_saved_def)
  define pool where "pool = (if f_data_len ?orig \<noteq> 0 then mem_write (unat (f_data_offset ?orig)) (file_bytes c0 i) (c_file_pool c) else c_file_pool c)"
  have c1: "(if unat (f_data_len ?f) \<noteq> 0
      then c\<lparr>c_file_pool := mem_write (the (dfc_file_data c i))
        (mem_read (unat (transaction_snapshot_offsets j ! i)) (unat (f_data_len ?f)) (the (transaction_snapshot_pool j))) (c_file_pool c)\<rparr>
      else c) = c\<lparr>c_file_pool := pool\<rparr>"
    using fd pre by (simp add: same pool_def unat_eq_0)
  have upd: "upd_file i g (upd_file i h (c\<lparr>c_file_pool := pool\<rparr>)) = c\<lparr>c_files := (c_files c)[i := g (h ?f)], c_file_pool := pool\<rparr>"
    "upd_file i g (c\<lparr>c_file_pool := pool\<rparr>) = c\<lparr>c_files := (c_files c)[i := g ?f], c_file_pool := pool\<rparr>" for g h
    using il by (simp_all add: upd_file_def)
  have "abort_restore_file j a i c = c\<lparr>c_files := (c_files c)[i := ?orig], c_file_pool := pool\<rparr>"
  proof (cases "file_is_record ?orig")
    case True
    then have r: "file_is_record ?f" by (simp add: same)
    show ?thesis
      unfolding abort_restore_file_def Let_def if_not_P [OF g(1)] if_P [OF g(2)] if_not_P [OF ncr] if_P [OF cap] c1 if_P [OF r]
      unfolding upd(1) cnt [OF True] unfolding st bk [OF True] by (rule refl)
  next
    case False
    then have r: "\<not> file_is_record ?f" by (simp add: same)
    show ?thesis
      unfolding abort_restore_file_def Let_def if_not_P [OF g(1)] if_P [OF g(2)] if_not_P [OF ncr] if_P [OF cap] c1 if_not_P [OF r]
      unfolding upd(2) unfolding st bk' [OF False] by (rule refl)
  qed
  then show ?thesis using j0 by (simp only: same pool_def simp_thms)
qed

text \<open>The loop of the abort, after the first files have been restored.\<close>

lemma restore_loop:
  assumes base: "base_ok c0 a" and inv: "journal_invar c0 a em" and k: "k \<le> unat (c_num_files c0)"
  defines "c \<equiv> credential em" and "ck \<equiv> fold (abort_restore_file (em_journal em) a) [0..<k] (credential em)"
  shows "journal_frame c0 ck \<and> (\<forall>i < length (c_files c0). c_files ck ! i = (if i < k then c_files c0 ! i else c_files c ! i)) \<and>
    (\<forall>p < length (c_file_pool c0). (\<forall>i \<ge> k. staged_in c0 a c i \<longrightarrow> p \<notin> file_extent (c_files c0 ! i)) \<longrightarrow>
      c_file_pool ck ! p = c_file_pool c0 ! p)"
  using k unfolding ck_def
proof (induction k)
  case 0
  then show ?case using inv by (simp add: journal_invar_def journal_pool_def c_def)
next
  case (Suc k)
  define j where "j = em_journal em"
  define d where "d = fold (abort_restore_file j a) [0..<k] c"
  have fr0: "journal_frame c0 c" and sh: "journal_shape c0 a j" and fs: "journal_files c0 a c (transaction_snapshot_captured j)"
    and sv: "journal_saved c0 a j"
    using inv by (simp_all add: journal_invar_def j_def c_def)
  have k: "k < unat (c_num_files c0)" "k < length (c_files c0)" using Suc.prems base_okD(3) [OF base, of k] by auto
  have fr: "journal_frame c0 d" and ff: "\<And>i. i < length (c_files c0) \<Longrightarrow> c_files d ! i = (if i < k then c_files c0 ! i else c_files c ! i)"
    and pp: "\<And>p. p < length (c_file_pool c0) \<Longrightarrow> (\<forall>i \<ge> k. staged_in c0 a c i \<longrightarrow> p \<notin> file_extent (c_files c0 ! i)) \<Longrightarrow>
      c_file_pool d ! p = c_file_pool c0 ! p"
    using Suc.IH k by (simp_all add: d_def j_def c_def)
  have dk: "c_files d ! k = c_files c ! k" using ff k by simp
  have fk: "c_files d ! k = c_files c0 ! k \<or> journaled c0 a k \<and> transaction_file_bit (transaction_snapshot_captured j) k \<and>
      (\<exists>m. c_files d ! k = staged_file True m (c_files c0 ! k))"
    using fs k unfolding dk by (auto simp: journal_files_def)
  have "dfc_file_data d k = dfc_file_data c k"
    using frame_fields [OF fr] frame_fields [OF fr0] by (simp add: dfc_file_data_def Let_def dk)
  then have fd: "dfc_file_data d k = (if f_data_len (c_files c0 ! k) = 0 then None else Some (unat (f_data_offset (c_files c0 ! k))))"
    using file_data_of [OF base fr0 fs k(1)] by simp
  define pool where "pool = (if f_transaction_pending (c_files c ! k) \<and> journaled c0 a k \<and> f_data_len (c_files c0 ! k) \<noteq> 0
      then mem_write (unat (f_data_offset (c_files c0 ! k))) (file_bytes c0 k) (c_file_pool d) else c_file_pool d)"
  have step: "abort_restore_file j a k d = d\<lparr>c_files := (c_files d)[k := c_files c0 ! k], c_file_pool := pool\<rparr>"
    using restore_file_effect [OF base sh sv fr k(1) fk fd] by (simp add: pool_def dk)
  have fin: "file_invar c0" using base by (simp add: base_ok_def)
  note flds = frame_fields [OF fr]
  have lenb: "length (file_bytes c0 k) = unat (f_data_len (c_files c0 ! k))" using length_file_bytes [OF fin k(1)] .
  have ins: "f_data_len (c_files c0 ! k) \<noteq> 0 \<Longrightarrow>
      unat (f_data_offset (c_files c0 ! k)) + length (file_bytes c0 k) \<le> length (c_file_pool d)"
    using file_bytes_of(2) [OF fin k(1)] flds lenb by simp
  have "length pool = length (c_file_pool c0)" using ins flds by (simp add: pool_def)
  then have "journal_frame c0 (abort_restore_file j a k d)"
    using frame_update [OF fr, of "(c_files d)[k := c_files c0 ! k]" pool "c_dirty d"] flds step by simp
  moreover have "pool ! p = c_file_pool c0 ! p"
    if p: "p < length (c_file_pool c0)" and out: "\<forall>i \<ge> Suc k. staged_in c0 a c i \<longrightarrow> p \<notin> file_extent (c_files c0 ! i)" for p
  proof (cases "staged_in c0 a c k \<and> p \<in> file_extent (c_files c0 ! k)")
    case True
    then have len: "f_data_len (c_files c0 ! k) \<noteq> 0" by (auto simp: file_extent_def)
    then have "pool = mem_write (unat (f_data_offset (c_files c0 ! k))) (file_bytes c0 k) (c_file_pool d)"
      using True by (simp add: pool_def staged_in_def)
    moreover have "file_bytes c0 k ! (p - unat (f_data_offset (c_files c0 ! k))) = c_file_pool c0 ! p"
      using True file_bytes_of [OF fin k(1) len] p by (auto simp: file_extent_def)
    ultimately show ?thesis using True ins [OF len] lenb by (simp add: nth_mem_write file_extent_def)
  next
    case False
    then have out': "\<forall>i \<ge> k. staged_in c0 a c i \<longrightarrow> p \<notin> file_extent (c_files c0 ! i)"
      using out by (metis Suc_leI le_neq_implies_less)
    have "pool ! p = c_file_pool d ! p"
      using False ins lenb p flds by (auto simp: pool_def nth_mem_write staged_in_def file_extent_def)
    then show ?thesis using pp [OF p out'] by simp
  qed
  ultimately show ?case using ff k flds unfolding j_def [symmetric] c_def [symmetric]
    by (simp add: d_def [symmetric] step nth_list_update less_Suc_eq)
qed

lemma abort_restores:
  assumes base: "base_ok c0 a" and inv: "journal_invar c0 a em"
  shows "dfc_emulator_abort_transaction_snapshot em = (True, transaction_snapshot_clear_state (em\<lparr>credential := c0\<rparr>))"
proof -
  have fr: "journal_frame c0 (credential em)" and sh: "journal_shape c0 a (em_journal em)"
    and fs: "journal_files c0 a (credential em) (transaction_snapshot_captured (em_journal em))"
    using inv by (simp_all add: journal_invar_def)
  let ?n = "unat (c_num_files c0)"
  define d where "d = fold (abort_restore_file (em_journal em) a) [0..<?n] (credential em)"
  have fd: "journal_frame c0 d" and files: "\<And>i. i < length (c_files c0) \<Longrightarrow> c_files d ! i = (if i < ?n then c_files c0 ! i else c_files (credential em) ! i)"
    and pool: "\<And>p. p < length (c_file_pool c0) \<Longrightarrow> (\<forall>i \<ge> ?n. staged_in c0 a (credential em) i \<longrightarrow> p \<notin> file_extent (c_files c0 ! i)) \<Longrightarrow>
      c_file_pool d ! p = c_file_pool c0 ! p"
    using restore_loop [OF base inv, of ?n] by (simp_all add: d_def)
  have "c_files d ! i = c_files c0 ! i" if "i < length (c_files c0)" for i
    using files [OF that] fs that by (auto simp: journal_files_def journaled_def)
  then have "c_files d = c_files c0" using frame_fields [OF fd] by (intro nth_equalityI) auto
  moreover have "c_file_pool d = c_file_pool c0" using frame_fields [OF fd] pool
    by (intro nth_equalityI) (auto simp: staged_in_def journaled_def)
  moreover have "d\<lparr>c_dirty := c_dirty c0\<rparr> = c0\<lparr>c_files := c_files d, c_file_pool := c_file_pool d\<rparr>"
    using fd unfolding frame_iff by auto
  ultimately have d: "d\<lparr>c_dirty := c_dirty c0\<rparr> = c0" by simp
  have valid: "\<not> \<not> (transaction_snapshot_pool_length (em_journal em) \<le> transaction_snapshot_pool_capacity (em_journal em) \<and>
      list_all (abort_entry_valid (em_journal em) (credential em) a) [0..<unat (c_num_files (credential em))])"
    using sh abort_entries_valid [OF base inv] by (simp add: journal_shape_def)
  have act: "\<not> \<not> transaction_snapshot_active (em_journal em)" and app: "transaction_snapshot_app_index (em_journal em) = a"
    and dirty: "transaction_snapshot_dirty (em_journal em) = c_dirty c0"
    using sh by (simp_all add: journal_shape_def)
  show ?thesis unfolding dfc_emulator_abort_transaction_snapshot_def Let_def app if_not_P [OF act] if_not_P [OF valid] dirty
    using d frame_fields [OF fr] by (simp add: d_def)
qed

subsection \<open>Opening\<close>

definition journal_need :: "DfcCredential \<Rightarrow> size_t \<Rightarrow> nat" where
  "journal_need c a = (\<Sum>i | journaled c a i. unat (f_data_len (c_files c ! i)))"

lemma capacity_loop:
  "cap \<le> DFC_FILE_POOL_SIZE \<Longrightarrow> snapshot_capacity_loop a fs cap =
    (let s = sum_list (map (\<lambda>f. if unat (f_app_index f) = a \<and> transaction_file_has_data f then unat (f_data_len f) else 0) fs)
     in if cap + s \<le> DFC_FILE_POOL_SIZE then Some (cap + s) else None)"
  by (induction a fs cap rule: snapshot_capacity_loop.induct) (auto simp: Let_def transaction_file_has_data_def)

lemma journal_need_loop:
  assumes "file_wf c"
  shows "sum_list (map (\<lambda>f. if unat (f_app_index f) = a \<and> transaction_file_has_data f then unat (f_data_len f) else 0)
    (take (unat (c_num_files c)) (c_files c))) = journal_need c a"
proof -
  let ?n = "unat (c_num_files c)" and ?g = "\<lambda>f. if unat (f_app_index f) = a \<and> transaction_file_has_data f then unat (f_data_len f) else 0"
  have len: "length (take ?n (c_files c)) = ?n" using assms by (simp add: file_wf_def)
  have "sum_list (map ?g (take ?n (c_files c))) = (\<Sum>i = 0..<?n. ?g (c_files c ! i))"
    unfolding sum.list_conv_set_nth using len by (intro sum.cong) auto
  also have "\<dots> = (\<Sum>i \<in> {i \<in> {0..<?n}. unat (f_app_index (c_files c ! i)) = a \<and> transaction_file_has_data (c_files c ! i)}.
      unat (f_data_len (c_files c ! i)))"
    by (rule sum.inter_filter [symmetric]) simp
  also have "{i \<in> {0..<?n}. unat (f_app_index (c_files c ! i)) = a \<and> transaction_file_has_data (c_files c ! i)} = {i. journaled c a i}"
    by (auto simp: journaled_def)
  finally show ?thesis by (simp add: journal_need_def)
qed

lemma journal_need_fits:
  assumes "file_invar c"
  shows "journal_need c a \<le> DFC_FILE_POOL_SIZE"
proof -
  have wf: "file_wf c" and ok: "file_pool_ok c" using assms by (auto simp: file_invar_def)
  let ?fs = "take (unat (c_num_files c)) (c_files c)"
  have slot: "f \<in> set ?fs \<Longrightarrow> snd (file_slice f) = unat (f_data_len f)" for f
    using wf file_slice_eqs(1) [of f] by (simp add: file_wf_def list_all_iff)
  have "journal_need c a \<le> sum_list (map (snd \<circ> file_slice) ?fs)"
    unfolding journal_need_loop [OF wf, symmetric] by (rule sum_list_mono) (auto simp: slot)
  also have "\<dots> = file_pool_used c" using ok by (simp add: pool_ok_def file_slices_def)
  also have "\<dots> \<le> DFC_FILE_POOL_SIZE" using file_pool_used_le [OF wf ok] by (simp add: file_pool_used_def)
  finally show ?thesis .
qed

text \<open>The allocation law of the platform: what is handed out has the size asked for.\<close>

definition allocator :: "(size_t \<Rightarrow> bytes option) \<Rightarrow> bool" where
  "allocator alloc \<longleftrightarrow> (\<forall>n b. alloc n = Some b \<longrightarrow> length b = n)"

lemma begin_effect:
  assumes inv: "file_invar (credential em)" and idle: "\<not> transaction_snapshot_active (em_journal em)"
  defines "need \<equiv> journal_need (credential em) (selected_app_index em)"
  shows "fst (dfc_emulator_command_transaction_snapshot_begin alloc em) \<longleftrightarrow> alloc (if need \<noteq> 0 then need else 1) \<noteq> None"
proof -
  have wf: "file_wf (credential em)" using inv by (simp add: file_invar_def)
  have loop: "snapshot_capacity_loop (selected_app_index em) (take (unat (c_num_files (credential em))) (c_files (credential em))) 0 = Some need"
    using journal_need_fits [OF inv, of "selected_app_index em"] journal_need_loop [OF wf, of "selected_app_index em"]
    by (simp add: capacity_loop need_def)
  show ?thesis using idle unfolding dfc_emulator_command_transaction_snapshot_begin_def Let_def loop option.case
    by (simp split: option.splits)
qed

lemma begin_invar:
  assumes base: "base_ok (credential em) (selected_app_index em)" and idle: "\<not> transaction_snapshot_active (em_journal em)"
    and law: "allocator alloc" and opened: "dfc_emulator_command_transaction_snapshot_begin alloc em = (True, em')"
  shows "journal_invar (credential em) (selected_app_index em) em' \<and> selected_app_index em' = selected_app_index em \<and>
    credential em' = credential em \<and> journal_arrays (em_journal em')"
proof -
  let ?c = "credential em" and ?a = "selected_app_index em"
  have inv: "file_invar ?c" and wf: "file_wf ?c" using base by (auto simp: base_ok_def file_invar_def)
  define need where "need = journal_need ?c ?a"
  define sz where "sz = (if need \<noteq> 0 then need else 1)"
  have loop: "snapshot_capacity_loop ?a (take (unat (c_num_files ?c)) (c_files ?c)) 0 = Some need"
    using journal_need_fits [OF inv, of ?a] journal_need_loop [OF wf, of ?a] by (simp add: capacity_loop need_def)
  obtain snapshot where al: "alloc sz = Some snapshot"
    using opened idle unfolding dfc_emulator_command_transaction_snapshot_begin_def Let_def loop option.case sz_def
    by (cases "alloc (if need \<noteq> 0 then need else 1)") simp_all
  have len: "length snapshot = sz" using law al by (auto simp: allocator_def)
  have szb: "sz \<le> DFC_FILE_POOL_SIZE" "need \<le> sz"
    using journal_need_fits [OF inv, of ?a] by (auto simp: sz_def need_def DFC_FILE_POOL_SIZE_def)
  define j where "j = em_journal em'"
  have e: "credential em' = ?c" "selected_app_index em' = ?a" "transaction_snapshot_active j" "transaction_snapshot_app_index j = ?a"
    "transaction_snapshot_dirty j = c_dirty ?c" "transaction_snapshot_pool j = Some snapshot" "transaction_snapshot_pool_capacity j = sz"
    "transaction_snapshot_pool_length j = 0" "transaction_snapshot_offsets j = replicate DFC_MAX_FILES 0"
    "transaction_snapshot_record_counts j = replicate DFC_MAX_FILES 0"
    "transaction_snapshot_captured j = replicate DFC_TRANSACTION_FILE_BITMAP_SIZE 0"
    "transaction_snapshot_created j = replicate DFC_TRANSACTION_FILE_BITMAP_SIZE 0"
    "transaction_record_operations j = replicate DFC_MAX_FILES 0" "transaction_record_numbers j = replicate DFC_MAX_FILES 0"
    using opened idle al unfolding dfc_emulator_command_transaction_snapshot_begin_def Let_def loop option.case sz_def [symmetric]
    by (auto simp: j_def)
  have "unsaved_octets ?c ?a j = need" by (simp add: unsaved_octets_def unsaved_def e need_def journal_need_def)
  then have "journal_shape ?c ?a j" using e len szb by (simp add: journal_shape_def)
  moreover have "journal_saved ?c ?a j" by (simp add: journal_saved_def e)
  moreover have "journal_frame ?c ?c" "journal_files ?c ?a ?c b" "journal_pool ?c ?a ?c" for b
    by (simp_all add: journal_frame_def journal_files_def journal_pool_def)
  moreover have "journal_arrays j" by (simp add: journal_arrays_def e)
  ultimately show ?thesis using e by (simp add: journal_invar_def j_def)
qed

subsection \<open>Properties\<close>

abbreviation transaction_steps :: "DfcEmulator \<Rightarrow> DfcEmulator \<Rightarrow> bool" where
  "transaction_steps \<equiv> transaction_step\<^sup>*\<^sup>*"

lemma transaction_steps_invar:
  "transaction_steps em em' \<Longrightarrow> base_ok c0 a \<Longrightarrow> journal_invar c0 a em \<Longrightarrow> journal_invar c0 a em'"
  by (induction rule: rtranclp_induct) (auto intro: transaction_step_invar)

text \<open>A card with one backup file of two octets, for the concrete instances.\<close>

definition sample_backup :: DfcCredential where
  "sample_backup = zero_credential\<lparr>c_num_files := 1,
     c_files := zero_file\<lparr>f_type := DFC_FILE_TYPE_BACKUP_DATA, f_data_len := 2\<rparr> # replicate 31 zero_file,
     c_file_pool := [7, 8] @ replicate 8190 0, c_file_pool_used := 2\<rparr>"

definition sample_emulator :: DfcEmulator where
  "sample_emulator = zero_emulator zero_bytebuf None sample_backup"

definition sample_alloc :: "size_t \<Rightarrow> bytes option" where
  "sample_alloc n = Some (replicate n 0)"

definition sample_opened :: DfcEmulator where
  "sample_opened = snd (dfc_emulator_command_transaction_snapshot_begin sample_alloc sample_emulator)"

definition sample_captured :: DfcEmulator where
  "sample_captured = snd (dfc_emulator_transaction_snapshot_capture_file sample_opened 0)"

definition sample_staged :: DfcEmulator where
  "sample_staged = sample_captured\<lparr>credential := (stage_write 0 1 [5] 0 (credential sample_captured))\<lparr>c_dirty := True\<rparr>\<rparr>"

lemma sample_base: "base_ok (credential sample_emulator) (selected_app_index sample_emulator)"
  by (simp add: base_ok_def file_invar_def file_wf_def pool_ok_def sample_emulator_def zero_emulator_def sample_backup_def
    zero_credential_def zero_file_def file_slices_def file_slice_def file_pool_used_def live_files_def file_slot_ok_def
    file_is_record_def dfc_file_type_consts DFC_FILE_POOL_SIZE_def DFC_MAX_FILES_def DFC_FILE_POOL_NONE_def list_all_iff)

lemma sample_idle: "\<not> transaction_snapshot_active (em_journal sample_emulator)"
  by (simp add: sample_emulator_def zero_emulator_def zero_journal_def)

lemma sample_allocator: "allocator sample_alloc"
  by (simp add: allocator_def sample_alloc_def)

lemma sample_begin: "dfc_emulator_command_transaction_snapshot_begin sample_alloc sample_emulator = (True, sample_opened)"
  using begin_effect [OF _ sample_idle, of sample_alloc] sample_base
  by (simp add: base_ok_def sample_alloc_def sample_opened_def prod_eq_iff)

lemma sample_journaled: "journaled (credential sample_emulator) (selected_app_index sample_emulator) 0"
  by (simp add: journaled_def sample_emulator_def zero_emulator_def sample_backup_def zero_credential_def zero_file_def
    transaction_file_has_data_def)

lemma sample_invar: "journal_invar (credential sample_emulator) (selected_app_index sample_emulator) sample_opened"
  using begin_invar [OF sample_base sample_idle sample_allocator sample_begin] by simp

lemma sample_capture: "dfc_emulator_transaction_snapshot_capture_file sample_opened 0 = (True, sample_captured)"
  using capture_effect [OF sample_base sample_invar sample_journaled] by (simp add: sample_captured_def)

lemma sample_captured_facts:
  "credential sample_captured = sample_backup"
  "transaction_file_bit (transaction_snapshot_captured (em_journal sample_captured)) 0"
  "transaction_snapshot_app_index (em_journal sample_captured) = 0"
proof -
  have "credential sample_opened = sample_backup"
    using begin_invar [OF sample_base sample_idle sample_allocator sample_begin] by (simp add: sample_emulator_def zero_emulator_def)
  moreover have "transaction_snapshot_app_index (em_journal sample_opened) = 0"
    "length (transaction_snapshot_captured (em_journal sample_opened)) = DFC_TRANSACTION_FILE_BITMAP_SIZE"
    using sample_invar by (simp_all add: journal_invar_def journal_shape_def) (simp add: sample_emulator_def zero_emulator_def)
  ultimately show "credential sample_captured = sample_backup"
    "transaction_file_bit (transaction_snapshot_captured (em_journal sample_captured)) 0"
    "transaction_snapshot_app_index (em_journal sample_captured) = 0"
    using capture_effect [OF sample_base sample_invar sample_journaled]
    by (auto simp: sample_captured_def file_bit_set DFC_MAX_FILES_def)
qed

lemma sample_steps: "transaction_steps sample_opened sample_staged"
proof -
  have "transaction_step sample_opened sample_captured" by (rule transaction_step.capture [OF sample_capture])
  moreover have "transaction_step sample_captured sample_staged" unfolding sample_staged_def
    using sample_captured_facts sample_journaled
    by (intro transaction_step.stage) (simp_all add: sample_emulator_def zero_emulator_def sample_backup_def)
  ultimately show ?thesis by (metis rtranclp.rtrancl_into_rtrancl r_into_rtranclp)
qed

text \<open>
  C10. A transaction can always be undone. From the moment the journal is opened, whatever
  sequence of captures, in-place writes of captured files and record operations follows, aborting
  succeeds and returns the whole credential to its value at the opening: every octet of the pool,
  every file record and the dirty flag; and the journal is left closed and empty.
\<close>

theorem abort_undoes_transaction:
  assumes "base_ok (credential em) (selected_app_index em)" "\<not> transaction_snapshot_active (em_journal em)" "allocator alloc"
    and "dfc_emulator_command_transaction_snapshot_begin alloc em = (True, em1)" "transaction_steps em1 em2"
  shows "fst (dfc_emulator_abort_transaction_snapshot em2) \<and>
    credential (snd (dfc_emulator_abort_transaction_snapshot em2)) = credential em \<and>
    \<not> transaction_snapshot_active (em_journal (snd (dfc_emulator_abort_transaction_snapshot em2))) \<and>
    transaction_snapshot_pool (em_journal (snd (dfc_emulator_abort_transaction_snapshot em2))) = None"
proof -
  have "journal_invar (credential em) (selected_app_index em) em2"
    using transaction_steps_invar [OF assms(5,1)] begin_invar [OF assms(1-4)] by blast
  from abort_restores [OF assms(1) this] show ?thesis
    by (simp add: transaction_snapshot_clear_state_def dfc_emulator_discard_transaction_snapshot_def transaction_snapshot_replace_def
      upd_journal_def Let_def)
qed

theorem abort_undoes_transaction_witness:
  "c_file_pool (credential sample_staged) ! 1 = 5 \<and>
   credential (snd (dfc_emulator_abort_transaction_snapshot sample_staged)) = sample_backup"
  using abort_undoes_transaction [OF sample_base sample_idle sample_allocator sample_begin sample_steps]
  by (simp add: sample_staged_def sample_captured_facts stage_write_def mem_write_def)
    (simp add: sample_emulator_def zero_emulator_def sample_backup_def zero_file_def)

text \<open>
  C20. The journal never runs out of room: it is sized so that at any point of a transaction every
  file of the application can still be captured, and opening it fails only when the platform has
  no memory.
\<close>

theorem capture_always_possible:
  assumes "base_ok (credential em) (selected_app_index em)" "\<not> transaction_snapshot_active (em_journal em)" "allocator alloc"
  shows "fst (dfc_emulator_command_transaction_snapshot_begin alloc em) =
      (alloc (max 1 (journal_need (credential em) (selected_app_index em))) \<noteq> None) \<and>
    (\<forall>em1 em2 i. dfc_emulator_command_transaction_snapshot_begin alloc em = (True, em1) \<longrightarrow> transaction_steps em1 em2 \<longrightarrow>
       journaled (credential em) (selected_app_index em) i \<longrightarrow> fst (dfc_emulator_transaction_snapshot_capture_file em2 i))"
proof
  have "max 1 (journal_need (credential em) (selected_app_index em)) =
      (if journal_need (credential em) (selected_app_index em) \<noteq> 0 then journal_need (credential em) (selected_app_index em) else 1)"
    by auto
  then show "fst (dfc_emulator_command_transaction_snapshot_begin alloc em) =
      (alloc (max 1 (journal_need (credential em) (selected_app_index em))) \<noteq> None)"
    using begin_effect [OF _ assms(2)] assms(1) by (simp add: base_ok_def)
next
  show "\<forall>em1 em2 i. dfc_emulator_command_transaction_snapshot_begin alloc em = (True, em1) \<longrightarrow> transaction_steps em1 em2 \<longrightarrow>
       journaled (credential em) (selected_app_index em) i \<longrightarrow> fst (dfc_emulator_transaction_snapshot_capture_file em2 i)"
  proof (intro allI impI)
    fix em1 em2 i
    assume b: "dfc_emulator_command_transaction_snapshot_begin alloc em = (True, em1)" and s: "transaction_steps em1 em2"
      and i: "journaled (credential em) (selected_app_index em) i"
    have "journal_invar (credential em) (selected_app_index em) em2"
      using transaction_steps_invar [OF s assms(1)] begin_invar [OF assms b] by blast
    then show "fst (dfc_emulator_transaction_snapshot_capture_file em2 i)" using capture_effect [OF assms(1) _ i] by simp
  qed
qed

theorem capture_always_possible_witness:
  "fst (dfc_emulator_transaction_snapshot_capture_file sample_staged 0)"
  using capture_always_possible [OF sample_base sample_idle sample_allocator] sample_begin sample_steps sample_journaled by blast

text \<open>
  C23. The journal follows the file table: when a file record is removed from the table the entry
  at its place is removed, and when one is inserted a fresh entry appears at its place, marked as
  created in this transaction exactly if it is a data or record file of the journal's application;
  every other file keeps its own entry.
\<close>

theorem journal_entries_follow_files:
  assumes "transaction_snapshot_active (em_journal em)" "journal_arrays (em_journal em)"
    "i < unat (c_num_files (credential em))" "unat (c_num_files (credential em)) \<le> DFC_MAX_FILES"
  shows "journal_entries (em_journal (dfc_emulator_transaction_snapshot_delete_file em i)) =
      take i (journal_entries (em_journal em)) @ drop (Suc i) (journal_entries (em_journal em)) @ [(0, 0, 0, 0, False, False)] \<and>
    journal_entries (em_journal (snd (dfc_emulator_transaction_snapshot_insert_file em i))) =
      take i (journal_entries (em_journal em)) @
      (0, 0, 0, 0, False, unat (f_app_index (c_files (credential em) ! i)) = transaction_snapshot_app_index (em_journal em) \<and>
        transaction_file_has_data (c_files (credential em) ! i)) #
      butlast (drop i (journal_entries (em_journal em)))"
  using assms by (rule entries_follow_files)

theorem journal_entries_follow_files_witness:
  "journal_entries (em_journal (dfc_emulator_transaction_snapshot_delete_file sample_captured 0)) =
    drop 1 (journal_entries (em_journal sample_captured)) @ [(0, 0, 0, 0, False, False)]"
proof -
  have "journal_invar (credential sample_emulator) (selected_app_index sample_emulator) sample_captured"
    using capture_invar [OF sample_base sample_invar sample_capture] .
  then have "transaction_snapshot_active (em_journal sample_captured)" by (simp add: journal_invar_def journal_shape_def)
  moreover have "journal_arrays (em_journal sample_opened)"
    using begin_invar [OF sample_base sample_idle sample_allocator sample_begin] by simp
  then have "journal_arrays (em_journal sample_captured)"
    using capture_effect [OF sample_base sample_invar sample_journaled]
    by (auto simp: sample_captured_def journal_arrays_def with_entry_def)
  ultimately show ?thesis using journal_entries_follow_files [of sample_captured 0]
    by (simp add: sample_captured_facts sample_backup_def DFC_MAX_FILES_def)
qed

end
