(* ===== verification/Dfc_Session.thy ===== *)
theory Dfc_Session
  imports Dfc_Rollback
begin

text \<open>
  Sessions, selection and transactions of the card: the rest of \<^verbatim>\<open>src/dfc_emulator.c\<close>, the
  access rules of \<^verbatim>\<open>src/dfc_emulator_access.c\<close>, ISO 7816 SELECT of
  \<^verbatim>\<open>src/dfc_emulator_iso7816.c\<close> and \<^verbatim>\<open>dfc_emulator_retire_sdm_read_cache\<close> of
  \<^verbatim>\<open>src/dfc_emulator_commands_data.c\<close>.
\<close>

subsection \<open>Constants\<close>

definition DFC_SM_DISABLE_D40 :: u8 where "DFC_SM_DISABLE_D40 = 0x01"
definition DFC_SM_DISABLE_EV1 :: u8 where "DFC_SM_DISABLE_EV1 = 0x02"
definition DFC_TRANSACTION_TIMER_EXPIRY_MILLISECONDS :: u32 where "DFC_TRANSACTION_TIMER_EXPIRY_MILLISECONDS = 1000"
definition DFC_TRANSACTION_TIMER_CAPABILITY_OFFSET :: size_t where "DFC_TRANSACTION_TIMER_CAPABILITY_OFFSET = 5"
definition DFC_TRANSACTION_TIMER_SHORT :: u8 where "DFC_TRANSACTION_TIMER_SHORT = 0x01"
definition DFC_LIMITED_CREDIT_TRANSACTION_CONSUMED :: u32 where "DFC_LIMITED_CREDIT_TRANSACTION_CONSUMED = -1"

definition DFC_ISO7816_CLA_STANDARD :: u8 where "DFC_ISO7816_CLA_STANDARD = 0x00"
definition DFC_ISO7816_INS_SELECT :: u8 where "DFC_ISO7816_INS_SELECT = 0xA4"
definition DFC_ISO7816_SW_OK_HI :: u8 where "DFC_ISO7816_SW_OK_HI = 0x90"
definition DFC_ISO7816_SW_OK_LO :: u8 where "DFC_ISO7816_SW_OK_LO = 0x00"
definition DFC_ISO7816_SW_NOT_FOUND_HI :: u8 where "DFC_ISO7816_SW_NOT_FOUND_HI = 0x6A"
definition DFC_ISO7816_SW_NOT_FOUND_LO :: u8 where "DFC_ISO7816_SW_NOT_FOUND_LO = 0x82"
definition DFC_ISO7816_SW_INS_NOT_SUPPORTED_HI :: u8 where "DFC_ISO7816_SW_INS_NOT_SUPPORTED_HI = 0x6D"
definition DFC_ISO7816_SW_INS_NOT_SUPPORTED_LO :: u8 where "DFC_ISO7816_SW_INS_NOT_SUPPORTED_LO = 0x00"
definition DFC_ISO_AID :: bytes where "DFC_ISO_AID = [0xD2, 0x76, 0x00, 0x00, 0x85, 0x01, 0x00]"

datatype DfcFileAccess = DfcFileAccessRead | DfcFileAccessWrite | DfcFileAccessReadWrite | DfcFileAccessChange

datatype DfcEmulatorAuthFamily = DfcEmulatorAuthFamilyNative | DfcEmulatorAuthFamilyEv2

subsection \<open>The selected object\<close>

definition dfc_emulator_current_app :: "DfcEmulator \<Rightarrow> size_t option" where
  "dfc_emulator_current_app em =
     (if selected_application em \<noteq> DfcEmulatorSelectedApplicationApp then None
      else dfc_credential_get_application (credential em) (selected_app_index em))"

definition dfc_emulator_accepts_auth_cipher :: "DfcEmulator \<Rightarrow> u8 \<Rightarrow> bool" where
  "dfc_emulator_accepts_auth_cipher em cipher =
     (let c = credential em;
          app = dfc_emulator_current_app em;
          commands = (case app of
              Some i \<Rightarrow> dfc_credential_app_auth_commands c (c_apps c ! i)
            | None \<Rightarrow> dfc_credential_picc_auth_commands c);
          disabled = (if c_picc_has_sm_disable c then c_picc_sm_disable c else 0);
          disabled = (case app of
              Some i \<Rightarrow> if a_has_sm_disable (c_apps c ! i) then disabled OR a_sm_disable (c_apps c ! i) else disabled
            | None \<Rightarrow> disabled)
      in if cipher = DFC_CMD_AUTHENTICATE_LEGACY then
           \<not> disabled AND DFC_SM_DISABLE_D40 \<noteq> 0 \<and> commands AND DFC_AUTH_COMMAND_D40 \<noteq> 0
         else if cipher = DFC_CMD_AUTHENTICATE_ISO then
           \<not> disabled AND DFC_SM_DISABLE_EV1 \<noteq> 0 \<and> commands AND DFC_AUTH_COMMAND_ISO_NATIVE \<noteq> 0
         else if cipher = DFC_CMD_AUTHENTICATE_AES then
           \<not> disabled AND DFC_SM_DISABLE_EV1 \<noteq> 0 \<and> commands AND DFC_AUTH_COMMAND_AES \<noteq> 0
         else if cipher = DFC_CMD_AUTHENTICATE_EV2_FIRST then commands AND DFC_AUTH_COMMAND_EV2_FIRST \<noteq> 0
         else if cipher = DFC_CMD_AUTHENTICATE_EV2_NON_FIRST then commands AND DFC_AUTH_COMMAND_EV2_NON_FIRST \<noteq> 0
         else False)"

definition dfc_emulator_key_len :: "DfcEmulator \<Rightarrow> size_t" where
  "dfc_emulator_key_len em =
     (let c = credential em in
      case dfc_emulator_current_app em of
        None \<Rightarrow> unat (c_picc_key_len c)
      | Some i \<Rightarrow>
          if unat (a_num_key_sets (c_apps c ! i)) \<ge> DFC_KEY_SET_MINIMUM_COUNT
          then (case dfc_credential_key_set_type c i 0 of
                  None \<Rightarrow> 0
                | Some p \<Rightarrow> dfc_key_set_type_length (c_key_set_metadata_pool c ! p))
          else unat (a_key_len (c_apps c ! i)))"

definition dfc_emulator_num_keys :: "DfcEmulator \<Rightarrow> size_t" where
  "dfc_emulator_num_keys em =
     (case dfc_emulator_current_app em of
        None \<Rightarrow> 1
      | Some i \<Rightarrow>
          let n = unat (a_num_keys (c_apps (credential em) ! i)) in if n \<noteq> 0 then n else 1)"

definition dfc_emulator_key :: "DfcEmulator \<Rightarrow> u8 \<Rightarrow> size_t option" where
  "dfc_emulator_key em key_no =
     (let app = dfc_emulator_current_app em in
      dfc_credential_key (credential em) app (if app \<noteq> None then unat key_no else 0))"

subsection \<open>Retiring authentications\<close>

definition dfc_emulator_discard_command_chain :: "DfcEmulator \<Rightarrow> DfcEmulator" where
  "dfc_emulator_discard_command_chain em = em\<lparr>em_chain := (em_chain em)\<lparr>command_chain := None,
     command_chain_active := False, command_chain_len := 0, command_chain_expected := 0\<rparr>\<rparr>"

definition clear_native_authentication :: "DfcEmulator \<Rightarrow> DfcEmulator" where
  "clear_native_authentication em = em\<lparr>
     secure_messaging := map_option (\<lambda>_. zero_secure_messaging) (secure_messaging em),
     em_auth := (em_auth em)\<lparr>auth_cipher := 0, auth_key_no := 0\<rparr>\<rparr>"

definition clear_ev2_authentication :: "DfcEmulator \<Rightarrow> bool \<Rightarrow> DfcEmulator" where
  "clear_ev2_authentication em keep_transaction_context =
     (let e = (em_ev2 em)\<lparr>ev2_session_active := False, ev2_authenticated_key_no := 0\<rparr>;
          e = (if \<not> keep_transaction_context then e\<lparr>ev2_command_counter := 0\<rparr> else e);
          e = e\<lparr>ev2_session_encryption_key := replicate DFC_AES_KEY_LENGTH 0,
            ev2_session_mac_key := replicate DFC_AES_KEY_LENGTH 0\<rparr>;
          e = (if \<not> keep_transaction_context
            then e\<lparr>ev2_transaction_identifier := replicate DFC_EV2_TRANSACTION_IDENTIFIER_LENGTH 0,
              ev2_card_capabilities := replicate DFC_EV2_CAPABILITY_LENGTH 0,
              ev2_reader_capabilities := replicate DFC_EV2_CAPABILITY_LENGTH 0\<rparr>
            else e)
      in em\<lparr>em_ev2 := e\<rparr>)"

definition dfc_emulator_clear_active_authentication :: "DfcEmulator \<Rightarrow> DfcEmulator" where
  "dfc_emulator_clear_active_authentication em = clear_ev2_authentication (clear_native_authentication em) False"

definition dfc_emulator_retire_ev2_non_first_authentication :: "DfcEmulator \<Rightarrow> DfcEmulator" where
  "dfc_emulator_retire_ev2_non_first_authentication em = clear_ev2_authentication (clear_native_authentication em) True"

definition dfc_emulator_commit_auth_family :: "DfcEmulator \<Rightarrow> DfcEmulatorAuthFamily \<Rightarrow> DfcEmulator" where
  "dfc_emulator_commit_auth_family em family =
     (if family = DfcEmulatorAuthFamilyEv2 then clear_native_authentication em else clear_ev2_authentication em False)"

definition dfc_emulator_clear_pending_authentication_storage :: "DfcEmulator \<Rightarrow> DfcEmulator" where
  "dfc_emulator_clear_pending_authentication_storage em =
     em\<lparr>em_auth := (em_auth em)\<lparr>pending_authentication := zero_pending_authentication\<rparr>\<rparr>"

definition dfc_emulator_clear_iso_authentication :: "DfcEmulator \<Rightarrow> DfcEmulator" where
  "dfc_emulator_clear_iso_authentication em =
     dfc_emulator_clear_pending_authentication_storage (em\<lparr>em_auth := (em_auth em)\<lparr>iso_auth_phase := 0,
       iso_auth_challenge_len := 0, iso_auth_key_no := 0, iso_auth_cipher := 0, iso_auth_reference := 0,
       iso_auth_key_len := 0\<rparr>\<rparr>)"

definition dfc_emulator_retire_sdm_read_cache :: "DfcEmulator \<Rightarrow> DfcEmulator" where
  "dfc_emulator_retire_sdm_read_cache em = em\<lparr>em_sdm := (em_sdm em)\<lparr>sdm_read_cache_valid := False,
     sdm_read_cache_file_number := 0, sdm_read_cache_family := 0, sdm_read_cache_len := 0,
     sdm_read_cache := replicate DFC_SDM_READ_CACHE_SIZE 0\<rparr>\<rparr>"

definition dfc_emulator_retire_authentication :: "DfcEmulator \<Rightarrow> DfcEmulator" where
  "dfc_emulator_retire_authentication em =
     (let wipe_len = min (pending_chain_len (em_chain em)) DFC_EMULATOR_CHAIN_BUFFER_SIZE;
          wipe_chunks = min (unat (pending_chain_chunk_count (em_chain em))) DFC_MAX_APPS;
          em = em\<lparr>em_auth := (em_auth em)\<lparr>awaiting_step2 := False\<rparr>\<rparr>;
          em = dfc_emulator_clear_iso_authentication em;
          em = clear_native_authentication em;
          em = em\<lparr>em_auth := (em_auth em)\<lparr>pending_auth_cipher := 0, pending_auth_key_no := 0\<rparr>, get_version_frame := 0\<rparr>;
          ch = (em_chain em)\<lparr>pending_chain_len := 0, pending_chain_offset := 0, pending_chain_frame := 0, pending_chain_last := 0,
            pending_chain_chunk_count := 0, pending_chain_chunk_index := 0\<rparr>;
          ch = (if wipe_len > 0 then ch\<lparr>pending_chain := mem_set 0 0 wipe_len (pending_chain ch)\<rparr> else ch);
          ch = (if wipe_chunks > 0 then ch\<lparr>pending_chain_chunks := mem_set 0 0 wipe_chunks (pending_chain_chunks ch)\<rparr> else ch);
          em = dfc_emulator_discard_command_chain (em\<lparr>em_chain := ch\<rparr>);
          em = em\<lparr>em_chain := (em_chain em)\<lparr>df_names_pending := False, df_names_next := 0\<rparr>,
            em_delegated := (em_delegated em)\<lparr>delegated_creation_pending := False, delegated_creation_header_length := 0,
              delegated_creation_header := replicate DFC_DELEGATED_CREATE_MAX_HEADER_LENGTH 0\<rparr>,
            em_proximity := (em_proximity em)\<lparr>proximity_active := False, proximity_verified := False, proximity_offset := 0,
              proximity_published_len := 0, proximity_transcript_len := 0,
              proximity_random := replicate DFC_PROXIMITY_RANDOM_LENGTH 0,
              proximity_published := replicate (1 + DFC_PROXIMITY_PUBLISHED_TIME_LENGTH + 1) 0,
              proximity_transcript := replicate DFC_PROXIMITY_TRANSCRIPT_MAX 0\<rparr>,
            em_ev2 := (em_ev2 em)\<lparr>ev2_response_plain := False, ev2_authentication_pending := False,
              ev2_authentication_non_first := False, ev2_session_active := False, ev2_authenticated_key_no := 0,
              ev2_pending_authenticated_key_no := 0, ev2_command_counter := 0,
              ev2_transaction_identifier := replicate DFC_EV2_TRANSACTION_IDENTIFIER_LENGTH 0,
              ev2_card_capabilities := replicate DFC_EV2_CAPABILITY_LENGTH 0,
              ev2_reader_capabilities := replicate DFC_EV2_CAPABILITY_LENGTH 0,
              ev2_session_encryption_key := replicate DFC_AES_KEY_LENGTH 0,
              ev2_session_mac_key := replicate DFC_AES_KEY_LENGTH 0\<rparr>\<rparr>
      in dfc_emulator_retire_sdm_read_cache em)"

subsection \<open>Transactions\<close>

definition clear_pending_value :: "DfcFile \<Rightarrow> DfcFile" where
  "clear_pending_value f = f\<lparr>f_state := (f_state f)\<lparr>state_value := (state_value (f_state f))\<lparr>value_pending := False,
     pending_delta := 0, pending_value := 0, pending_absolute := False, limited_credit_pending := 0\<rparr>\<rparr>\<rparr>"

definition value_file_pending :: "size_t \<Rightarrow> DfcFile \<Rightarrow> bool" where
  "value_file_pending app f \<longleftrightarrow> \<not> (unat (f_app_index f) \<noteq> app \<or> f_type f \<noteq> DFC_FILE_TYPE_VALUE \<or>
     \<not> value_pending (state_value (f_state f)))"

definition map_files :: "(DfcFile \<Rightarrow> DfcFile) \<Rightarrow> DfcCredential \<Rightarrow> DfcCredential" where
  "map_files g c = c\<lparr>c_files := map g (take (unat (c_num_files c)) (c_files c)) @ drop (unat (c_num_files c)) (c_files c)\<rparr>"

definition clear_transaction_mac :: "emulator_tmac \<Rightarrow> emulator_tmac" where
  "clear_transaction_mac t = t\<lparr>transaction_mac := dfc_transaction_mac_accumulator_clear,
     transaction_pending_reader_id := replicate DFC_TRANSACTION_READER_ID_LENGTH 0, transaction_reader_id_pending := False,
     transaction_reader_id_persist := False, transaction_mac_retryable_failure := False\<rparr>"

definition dfc_emulator_abort_transaction :: "DfcEmulator \<Rightarrow> bool \<times> DfcEmulator" where
  "dfc_emulator_abort_transaction em =
     (let t = em_tmac em;
          mac_pending = (acc_has_pending (transaction_mac t) \<or> transaction_reader_id_pending t);
          em = (if mac_pending then em\<lparr>em_tmac := clear_transaction_mac t\<rparr> else em);
          (restored, em) = dfc_emulator_abort_transaction_snapshot em;
          app = selected_app_index em;
          c = credential em;
          values_pending = list_ex (value_file_pending app) (take (unat (c_num_files c)) (c_files c))
      in (restored \<or> mac_pending \<or> values_pending,
          em\<lparr>credential := map_files (\<lambda>f. if value_file_pending app f then clear_pending_value f else f) c\<rparr>))"

definition publish_value :: "DfcFile \<Rightarrow> DfcFile" where
  "publish_value f =
     (let v = state_value (f_state f);
          v1 = v\<lparr>current_value := (if pending_absolute v then pending_value v else current_value v + pending_delta v)\<rparr>;
          v2 = (if limited_credit_pending v1 = DFC_LIMITED_CREDIT_TRANSACTION_CONSUMED then v1\<lparr>limited_credit_value := 0\<rparr>
            else if sint (limited_credit_pending v1) > 0 then v1\<lparr>limited_credit_value := limited_credit_pending v1\<rparr> else v1)
      in f\<lparr>f_state := (f_state f)\<lparr>state_value := v2\<lparr>value_pending := False, pending_delta := 0, pending_value := 0,
           pending_absolute := False, limited_credit_pending := 0\<rparr>\<rparr>\<rparr>)"

definition publish_file :: "size_t \<Rightarrow> DfcFile \<Rightarrow> DfcFile" where
  "publish_file app f =
     (if unat (f_app_index f) \<noteq> app then f
      else
        let f1 = (if f_type f = DFC_FILE_TYPE_VALUE \<and> value_pending (state_value (f_state f)) then publish_value f else f)
        in f1\<lparr>f_transaction_pending := False\<rparr>)"

definition dfc_emulator_publish_transaction :: "DfcEmulator \<Rightarrow> DfcEmulator" where
  "dfc_emulator_publish_transaction em =
     (let app = selected_app_index em;
          em = em\<lparr>credential := map_files (publish_file app) (credential em)\<rparr>;
          em = (if transaction_snapshot_active (em_journal em) \<and> transaction_snapshot_app_index (em_journal em) = app
            then transaction_snapshot_clear_state em else em);
          em = em\<lparr>em_tmac := clear_transaction_mac (em_tmac em)\<rparr>
      in em\<lparr>credential := dfc_credential_mark_dirty (credential em)\<rparr>)"

subsection \<open>Selection, reset and time\<close>

definition dfc_emulator_reset_session :: "DfcEmulator \<Rightarrow> DfcEmulator" where
  "dfc_emulator_reset_session em = dfc_emulator_retire_authentication (snd (dfc_emulator_abort_transaction em))"

definition dfc_emulator_select_application :: "DfcEmulator \<Rightarrow> DfcEmulatorSelectedApplication \<Rightarrow> size_t \<Rightarrow> DfcEmulator" where
  "dfc_emulator_select_application em selection app_index =
     (let em = dfc_emulator_reset_session em;
          em = em\<lparr>selected_application := selection,
            selected_app_index := (if selection = DfcEmulatorSelectedApplicationApp then app_index else 0)\<rparr>;
          app = (if selection = DfcEmulatorSelectedApplicationApp
            then dfc_credential_get_application (credential em) app_index else None)
      in em\<lparr>transaction_timer_enabled := (case app of
             None \<Rightarrow> False
           | Some i \<Rightarrow> a_has_capability_data (c_apps (credential em) ! i) \<and>
               a_capability_data (c_apps (credential em) ! i) ! DFC_TRANSACTION_TIMER_CAPABILITY_OFFSET = DFC_TRANSACTION_TIMER_SHORT),
           transaction_timer_elapsed_milliseconds := 0\<rparr>)"

definition dfc_emulator_reset_activation :: "DfcEmulator \<Rightarrow> DfcEmulator" where
  "dfc_emulator_reset_activation em =
     (let em = snd (dfc_emulator_abort_transaction em);
          sm = map_option (\<lambda>_. zero_secure_messaging) (secure_messaging em);
          c = credential em
      in (zero_emulator (dfc_bytebuf_reset zero_bytebuf) sm c)\<lparr>selected_application := DfcEmulatorSelectedApplicationPicc\<rparr>)"

definition dfc_emulator_advance_time :: "DfcEmulator \<Rightarrow> u32 \<Rightarrow> DfcEmulator" where
  "dfc_emulator_advance_time em elapsed_milliseconds =
     (if \<not> transaction_timer_enabled em then em
      else
        let t = (if -1 - transaction_timer_elapsed_milliseconds em < elapsed_milliseconds then -1
                 else transaction_timer_elapsed_milliseconds em + elapsed_milliseconds);
            em = em\<lparr>transaction_timer_elapsed_milliseconds := t\<rparr>
        in if t \<ge> DFC_TRANSACTION_TIMER_EXPIRY_MILLISECONDS then dfc_emulator_reset_activation em else em)"

subsection \<open>ISO 7816 SELECT\<close>

text \<open>
  The loop over the application records returns at the first one whose DF name is the data of the
  command. The flag behind \<^verbatim>\<open>app_selected\<close> is part of the result: \<^term>\<open>None\<close> when the command is
  not handled and the flag is left alone.
\<close>

definition iso_aid_matches :: "DfcApplication \<Rightarrow> u8 \<Rightarrow> bytes \<Rightarrow> bool" where
  "iso_aid_matches app lc data \<longleftrightarrow> a_iso_aid_len app > 0 \<and> lc = a_iso_aid_len app \<and>
     take (unat lc) data = take (unat lc) (a_iso_aid app)"

definition append_status_word :: "u8 \<Rightarrow> u8 \<Rightarrow> DfcByteBuf \<Rightarrow> DfcByteBuf" where
  "append_status_word hi lo b = dfc_bytebuf_append_byte (dfc_bytebuf_append_byte b hi) lo"

definition dfc_emulator_handle_iso7816_select ::
  "DfcEmulator \<Rightarrow> bytes \<Rightarrow> DfcByteBuf \<Rightarrow> size_t \<Rightarrow> bool \<times> bool option \<times> DfcEmulator \<times> DfcByteBuf" where
  "dfc_emulator_handle_iso7816_select em apdu tx prefix_len =
     (if length apdu < 4 \<or> apdu ! 0 \<noteq> DFC_ISO7816_CLA_STANDARD then (False, None, em, tx)
      else if apdu ! 1 \<noteq> DFC_ISO7816_INS_SELECT then
        (True, Some False, em, append_status_word DFC_ISO7816_SW_INS_NOT_SUPPORTED_HI DFC_ISO7816_SW_INS_NOT_SUPPORTED_LO tx)
      else
        let p1 = apdu ! 2;
            lc = (if length apdu > 4 then apdu ! 4 else 0);
            data = (if lc > 0 \<and> length apdu \<ge> 5 + unat lc then Some (drop 5 apdu) else None);
            c = credential em;
            found = (case data of
                None \<Rightarrow> None
              | Some d \<Rightarrow> if p1 \<noteq> 0x04 then None
                  else find (\<lambda>i. iso_aid_matches (c_apps c ! i) lc d) [0..<unat (c_num_apps c)]);
            picc = (case data of
                None \<Rightarrow> False
              | Some d \<Rightarrow> p1 = 0x04 \<and> unat lc = length DFC_ISO_AID \<and> take (unat lc) d = DFC_ISO_AID)
        in case found of
             Some i \<Rightarrow> (True, Some True, dfc_emulator_select_application em DfcEmulatorSelectedApplicationApp i,
               append_status_word DFC_ISO7816_SW_OK_HI DFC_ISO7816_SW_OK_LO tx)
           | None \<Rightarrow>
               if picc then (True, Some False, dfc_emulator_select_application em DfcEmulatorSelectedApplicationPicc 0,
                 append_status_word DFC_ISO7816_SW_OK_HI DFC_ISO7816_SW_OK_LO tx)
               else
                 let tx' = append_status_word DFC_ISO7816_SW_NOT_FOUND_HI DFC_ISO7816_SW_NOT_FOUND_LO tx
                 in (dfc_bytebuf_get_size_bytes tx' > prefix_len, Some False, dfc_emulator_reset_session em, tx'))"

subsection \<open>Access rules\<close>

definition dfc_emulator_native_authentication_active :: "DfcEmulator \<Rightarrow> bool" where
  "dfc_emulator_native_authentication_active em \<longleftrightarrow> auth_cipher (em_auth em) \<noteq> 0 \<and>
     (case secure_messaging em of None \<Rightarrow> False | Some sm \<Rightarrow> sm_cipher sm = auth_cipher (em_auth em))"

definition dfc_emulator_is_authenticated_with_key :: "DfcEmulator \<Rightarrow> u8 \<Rightarrow> bool" where
  "dfc_emulator_is_authenticated_with_key em key_no \<longleftrightarrow>
     (dfc_emulator_native_authentication_active em \<and> auth_key_no (em_auth em) = key_no) \<or>
     (ev2_session_active (em_ev2 em) \<and> ev2_authenticated_key_no (em_ev2 em) = key_no)"

definition dfc_emulator_access_nibble_allows :: "DfcEmulator \<Rightarrow> u8 \<Rightarrow> bool" where
  "dfc_emulator_access_nibble_allows em nibble =
     (if nibble = DFC_ACCESS_FREE then True
      else if nibble = DFC_ACCESS_DENY then False
      else dfc_emulator_is_authenticated_with_key em nibble)"

fun file_access_nibbles :: "DfcFile \<Rightarrow> DfcFileAccess \<Rightarrow> u8 \<times> u8" where
  "file_access_nibbles f DfcFileAccessRead = (dfc_access_nibble (f_access_rights f) 12, dfc_access_nibble (f_access_rights f) 4)"
| "file_access_nibbles f DfcFileAccessWrite = (dfc_access_nibble (f_access_rights f) 8, dfc_access_nibble (f_access_rights f) 4)"
| "file_access_nibbles f DfcFileAccessReadWrite = (dfc_access_nibble (f_access_rights f) 4, DFC_ACCESS_DENY)"
| "file_access_nibbles f DfcFileAccessChange = (dfc_access_nibble (f_access_rights f) 0, DFC_ACCESS_DENY)"

definition dfc_emulator_file_access_allowed :: "DfcEmulator \<Rightarrow> DfcFile \<Rightarrow> DfcFileAccess \<Rightarrow> bool" where
  "dfc_emulator_file_access_allowed em f access =
     (case file_access_nibbles f access of (primary, alternate) \<Rightarrow>
        dfc_emulator_access_nibble_allows em primary \<or> dfc_emulator_access_nibble_allows em alternate)"

definition dfc_emulator_file_access_is_free :: "DfcFile \<Rightarrow> DfcFileAccess \<Rightarrow> bool" where
  "dfc_emulator_file_access_is_free f access =
     (case file_access_nibbles f access of (primary, alternate) \<Rightarrow> primary = DFC_ACCESS_FREE \<or> alternate = DFC_ACCESS_FREE)"

definition session_authenticated :: "DfcEmulator \<Rightarrow> bool" where
  "session_authenticated em \<longleftrightarrow> dfc_emulator_native_authentication_active em \<or> ev2_session_active (em_ev2 em)"

definition dfc_emulator_file_effective_comm_settings_for_rights ::
  "DfcEmulator \<Rightarrow> DfcFile \<Rightarrow> bool \<Rightarrow> bool \<Rightarrow> bool \<Rightarrow> u8 \<Rightarrow> u8" where
  "dfc_emulator_file_effective_comm_settings_for_rights em f rd wr rw configured_comm =
     (let configured_comm = configured_comm AND DFC_COMM_MODE_MASK in
      if \<not> session_authenticated em then configured_comm
      else
        let nibbles = [if rd then dfc_access_nibble (f_access_rights f) 12 else DFC_ACCESS_DENY,
              if wr then dfc_access_nibble (f_access_rights f) 8 else DFC_ACCESS_DENY,
              if rw then dfc_access_nibble (f_access_rights f) 4 else DFC_ACCESS_DENY];
            free_access = list_ex (\<lambda>n. n = DFC_ACCESS_FREE) nibbles;
            authenticated_access = list_ex (\<lambda>n. n \<noteq> DFC_ACCESS_FREE \<and> n < DFC_ACCESS_FREE \<and>
              dfc_emulator_is_authenticated_with_key em n) nibbles
        in if free_access \<and> \<not> authenticated_access then DFC_COMM_PLAIN else configured_comm)"

definition dfc_emulator_file_effective_comm_settings :: "DfcEmulator \<Rightarrow> DfcFile \<Rightarrow> DfcFileAccess \<Rightarrow> u8 \<Rightarrow> u8" where
  "dfc_emulator_file_effective_comm_settings em f access configured_comm =
     (let configured_comm = configured_comm AND DFC_COMM_MODE_MASK in
      if \<not> session_authenticated em then configured_comm
      else
        case file_access_nibbles f access of (primary, alternate) \<Rightarrow>
          let free_access = (primary = DFC_ACCESS_FREE \<or> alternate = DFC_ACCESS_FREE);
              authenticated_access =
                ((primary < DFC_ACCESS_FREE \<and> dfc_emulator_is_authenticated_with_key em primary) \<or>
                 (alternate < DFC_ACCESS_FREE \<and> dfc_emulator_is_authenticated_with_key em alternate))
          in if free_access \<and> \<not> authenticated_access then DFC_COMM_PLAIN else configured_comm)"

subsection \<open>Ending a session\<close>

text \<open>
  What is left of a session that has ended: no key authenticates, every secret of a completed or a
  pending authentication is wiped, and the response still waiting to be fetched with it.
\<close>

definition session_over :: "DfcEmulator \<Rightarrow> bool" where
  "session_over em \<longleftrightarrow> em_auth em = zero_auth \<and> em_ev2 em = zero_ev2 \<and> em_proximity em = zero_proximity \<and>
     em_delegated em = zero_delegated \<and> em_sdm em = zero_sdm_cache \<and>
     secure_messaging em \<in> {None, Some zero_secure_messaging} \<and>
     pending_chain_len (em_chain em) = 0 \<and> \<not> command_chain_active (em_chain em) \<and> command_chain (em_chain em) = None"

lemma session_over_retire: "session_over (dfc_emulator_retire_authentication em)"
  by (cases "secure_messaging em") (simp_all add: session_over_def dfc_emulator_retire_authentication_def Let_def zero_auth_def zero_ev2_def
      zero_proximity_def zero_delegated_def zero_sdm_cache_def dfc_emulator_retire_sdm_read_cache_def
      dfc_emulator_discard_command_chain_def clear_native_authentication_def dfc_emulator_clear_iso_authentication_def
      dfc_emulator_clear_pending_authentication_storage_def)

lemma session_over_upd [simp]:
  "session_over (em\<lparr>selected_application := s\<rparr>) = session_over em"
  "session_over (em\<lparr>selected_app_index := i\<rparr>) = session_over em"
  "session_over (em\<lparr>transaction_timer_enabled := b\<rparr>) = session_over em"
  "session_over (em\<lparr>transaction_timer_elapsed_milliseconds := t\<rparr>) = session_over em"
  by (simp_all add: session_over_def)

lemma session_over_access:
  assumes "session_over em"
  shows "\<not> session_authenticated em" "\<not> dfc_emulator_is_authenticated_with_key em k"
    "dfc_emulator_file_access_allowed em f access \<longleftrightarrow> dfc_emulator_file_access_is_free f access"
  using assms
  by (auto simp: session_over_def session_authenticated_def dfc_emulator_is_authenticated_with_key_def
      dfc_emulator_native_authentication_active_def zero_auth_def zero_ev2_def dfc_emulator_file_access_allowed_def
      dfc_emulator_file_access_is_free_def dfc_emulator_access_nibble_allows_def split: prod.splits)

lemma session_over_select: "session_over (dfc_emulator_select_application em s i)"
  by (simp add: dfc_emulator_select_application_def Let_def dfc_emulator_reset_session_def session_over_retire)

lemma session_over_activation: "session_over (dfc_emulator_reset_activation em)"
  by (cases "secure_messaging (snd (dfc_emulator_abort_transaction em))")
    (simp_all add: dfc_emulator_reset_activation_def Let_def session_over_def zero_emulator_def zero_chain_def)

text \<open>A card with an open EV2 session under key 3 and a file that key 3 may read, for the concrete instances.\<close>

definition sample_session :: DfcEmulator where
  "sample_session = sample_emulator\<lparr>em_ev2 := zero_ev2\<lparr>ev2_session_active := True, ev2_authenticated_key_no := 3\<rparr>,
     transaction_timer_enabled := True\<rparr>"

definition sample_readable :: DfcFile where
  "sample_readable = zero_file\<lparr>f_access_rights := 0x3FFF\<rparr>"

lemma sample_session_key: "dfc_emulator_is_authenticated_with_key sample_session 3"
  by (simp add: sample_session_def dfc_emulator_is_authenticated_with_key_def)

lemma session_end_effect:
  assumes "em' \<in> {dfc_emulator_reset_session em, dfc_emulator_select_application em s i, dfc_emulator_reset_activation em}"
  shows "em_auth em' = zero_auth" "em_ev2 em' = zero_ev2" "em_proximity em' = zero_proximity"
    "em_delegated em' = zero_delegated" "em_sdm em' = zero_sdm_cache"
    "secure_messaging em' \<in> {None, Some zero_secure_messaging}"
    "pending_chain_len (em_chain em') = 0 \<and> command_chain (em_chain em') = None"
    "\<not> dfc_emulator_is_authenticated_with_key em' k"
    "dfc_emulator_file_access_allowed em' f access \<longleftrightarrow> dfc_emulator_file_access_is_free f access"
proof -
  have over: "session_over em'"
    using assms session_over_select session_over_activation session_over_retire
    by (auto simp: dfc_emulator_reset_session_def)
  show "em_auth em' = zero_auth" "em_ev2 em' = zero_ev2" "em_proximity em' = zero_proximity"
    "em_delegated em' = zero_delegated" "em_sdm em' = zero_sdm_cache"
    "secure_messaging em' \<in> {None, Some zero_secure_messaging}"
    "pending_chain_len (em_chain em') = 0 \<and> command_chain (em_chain em') = None"
    using over by (simp_all add: session_over_def)
  show "\<not> dfc_emulator_is_authenticated_with_key em' k"
    "dfc_emulator_file_access_allowed em' f access \<longleftrightarrow> dfc_emulator_file_access_is_free f access"
    using session_over_access [OF over] by simp_all
qed

text \<open>C11. Selecting an application or the card level, resetting the session and resetting the activation
  all end the session, from every state: no key number authenticates afterwards, the keys and random
  numbers of completed and pending authentications, of the secure messaging context, of a proximity
  check and of a delegated creation are wiped, no response or command chain survives, and from then on
  a file can be reached only through a right that is free.\<close>

theorem session_end_forgets:
  assumes "em' \<in> {dfc_emulator_reset_session em, dfc_emulator_select_application em s i, dfc_emulator_reset_activation em}"
  shows "em_auth em' = zero_auth \<and> em_ev2 em' = zero_ev2 \<and> em_proximity em' = zero_proximity \<and>
    em_delegated em' = zero_delegated \<and> em_sdm em' = zero_sdm_cache \<and>
    secure_messaging em' \<in> {None, Some zero_secure_messaging} \<and>
    pending_chain_len (em_chain em') = 0 \<and> command_chain (em_chain em') = None \<and>
    (\<forall>k. \<not> dfc_emulator_is_authenticated_with_key em' k) \<and>
    (\<forall>f access. dfc_emulator_file_access_allowed em' f access \<longleftrightarrow> dfc_emulator_file_access_is_free f access)"
  by (intro conjI allI session_end_effect [OF assms] session_end_effect(7) [OF assms, THEN conjunct1]
    session_end_effect(7) [OF assms, THEN conjunct2])


theorem session_end_forgets_witness:
  "dfc_emulator_is_authenticated_with_key sample_session 3 \<and>
   \<not> dfc_emulator_is_authenticated_with_key (dfc_emulator_select_application sample_session DfcEmulatorSelectedApplicationPicc 0) 3"
  using session_end_forgets [of "dfc_emulator_select_application sample_session DfcEmulatorSelectedApplicationPicc 0"
      sample_session DfcEmulatorSelectedApplicationPicc 0] sample_session_key
  by simp

subsection \<open>Access rights\<close>

text \<open>
  The rights a command may rest on, from the four hexadecimal digits of the access rights: read,
  write, read and write, change.
\<close>

definition right_digit :: "DfcFile \<Rightarrow> nat \<Rightarrow> nat" where
  "right_digit f n = unat (f_access_rights f) div 16 ^ n mod 16"

fun rights_of :: "DfcFileAccess \<Rightarrow> nat list" where
  "rights_of DfcFileAccessRead = [3, 1]"
| "rights_of DfcFileAccessWrite = [2, 1]"
| "rights_of DfcFileAccessReadWrite = [1]"
| "rights_of DfcFileAccessChange = [0]"

definition key_right :: "DfcEmulator \<Rightarrow> DfcFile \<Rightarrow> nat \<Rightarrow> bool" where
  "key_right em f n \<longleftrightarrow> right_digit f n < 14 \<and> dfc_emulator_is_authenticated_with_key em (of_nat (right_digit f n))"

lemma right_digit_less: "right_digit f n < 16"
  by (simp add: right_digit_def)

lemma nibble_digit: "dfc_access_nibble (f_access_rights f) (4 * n) = of_nat (right_digit f n)"
proof -
  have m: "(0x0F :: u16) = mask 4" by (simp add: mask_eq_exp_minus_1)
  have r: "unat (f_access_rights f) < 65536" by (rule unat_u16_less)
  have "unat (drop_bit (4 * n) (f_access_rights f) AND 0x0F) = right_digit f n"
    using r unfolding m
    by (simp add: right_digit_def unsigned_take_bit_eq unsigned_drop_bit_eq min_def flip: take_bit_eq_mask)
      (simp add: take_bit_eq_mod drop_bit_eq_div power_mult)
  then show ?thesis
    by (metis dfc_access_nibble_def of_nat_unat)
qed

lemma nibble_digits:
  "dfc_access_nibble (f_access_rights f) 12 = of_nat (right_digit f 3)"
  "dfc_access_nibble (f_access_rights f) 8 = of_nat (right_digit f 2)"
  "dfc_access_nibble (f_access_rights f) 4 = of_nat (right_digit f 1)"
  "dfc_access_nibble (f_access_rights f) 0 = of_nat (right_digit f 0)"
  using nibble_digit [of f 3] nibble_digit [of f 2] nibble_digit [of f 1] nibble_digit [of f 0] by simp_all

lemma digit_word:
  "(of_nat (right_digit f n) :: u8) = DFC_ACCESS_FREE \<longleftrightarrow> right_digit f n = 14"
  "(of_nat (right_digit f n) :: u8) = DFC_ACCESS_DENY \<longleftrightarrow> right_digit f n = 15"
  "(of_nat (right_digit f n) :: u8) < DFC_ACCESS_FREE \<longleftrightarrow> right_digit f n < 14"
proof -
  have "unat (of_nat (right_digit f n) :: u8) = right_digit f n"
    using right_digit_less [of f n] by (simp add: unat_of_nat)
  then show
    "(of_nat (right_digit f n) :: u8) = DFC_ACCESS_FREE \<longleftrightarrow> right_digit f n = 14"
    "(of_nat (right_digit f n) :: u8) = DFC_ACCESS_DENY \<longleftrightarrow> right_digit f n = 15"
    "(of_nat (right_digit f n) :: u8) < DFC_ACCESS_FREE \<longleftrightarrow> right_digit f n < 14"
    by (simp_all add: DFC_ACCESS_FREE_def DFC_ACCESS_DENY_def word_unat_eq_iff word_less_nat_alt)
qed

lemma nibble_allows_digit:
  "dfc_emulator_access_nibble_allows em (of_nat (right_digit f n)) \<longleftrightarrow> right_digit f n = 14 \<or> key_right em f n"
  using right_digit_less [of f n]
  by (auto simp: dfc_emulator_access_nibble_allows_def digit_word key_right_def)

lemma nibble_deny [simp]:
  "DFC_ACCESS_DENY \<noteq> DFC_ACCESS_FREE" "\<not> DFC_ACCESS_DENY < DFC_ACCESS_FREE"
  "\<not> dfc_emulator_access_nibble_allows em DFC_ACCESS_DENY"
  by (simp_all add: dfc_emulator_access_nibble_allows_def DFC_ACCESS_DENY_def DFC_ACCESS_FREE_def)

lemma access_control_rules:
  "dfc_emulator_file_access_allowed em f access \<longleftrightarrow> list_ex (\<lambda>n. right_digit f n = 14 \<or> key_right em f n) (rights_of access)"
  "dfc_emulator_file_access_is_free f access \<longleftrightarrow> list_ex (\<lambda>n. right_digit f n = 14) (rights_of access)"
  "dfc_emulator_file_effective_comm_settings em f access comm =
     (if session_authenticated em \<and> list_ex (\<lambda>n. right_digit f n = 14) (rights_of access) \<and>
         \<not> list_ex (key_right em f) (rights_of access)
      then DFC_COMM_PLAIN else comm AND DFC_COMM_MODE_MASK)"
  "dfc_emulator_file_access_allowed em f access \<and> \<not> dfc_emulator_file_access_is_free f access \<Longrightarrow>
     dfc_emulator_file_effective_comm_settings em f access comm = comm AND DFC_COMM_MODE_MASK"
proof -
  note defs = dfc_emulator_file_access_allowed_def dfc_emulator_file_access_is_free_def
    dfc_emulator_file_effective_comm_settings_def
  show allowed: "dfc_emulator_file_access_allowed em f access \<longleftrightarrow>
      list_ex (\<lambda>n. right_digit f n = 14 \<or> key_right em f n) (rights_of access)"
    by (cases access) (simp_all add: defs nibble_digits nibble_allows_digit)
  show free: "dfc_emulator_file_access_is_free f access \<longleftrightarrow> list_ex (\<lambda>n. right_digit f n = 14) (rights_of access)"
    by (cases access) (simp_all add: defs nibble_digits digit_word)
  show mode: "dfc_emulator_file_effective_comm_settings em f access comm =
     (if session_authenticated em \<and> list_ex (\<lambda>n. right_digit f n = 14) (rights_of access) \<and>
         \<not> list_ex (key_right em f) (rights_of access)
      then DFC_COMM_PLAIN else comm AND DFC_COMM_MODE_MASK)"
    by (cases access) (simp_all only: defs file_access_nibbles.simps rights_of.simps nibble_digits prod.case Let_def
        list_ex_iff digit_word key_right_def nibble_deny, auto simp: key_right_def)
  show "dfc_emulator_file_access_allowed em f access \<and> \<not> dfc_emulator_file_access_is_free f access \<Longrightarrow>
     dfc_emulator_file_effective_comm_settings em f access comm = comm AND DFC_COMM_MODE_MASK"
    unfolding allowed free mode by (cases access) auto
qed

text \<open>C12. A file operation is allowed exactly when one of the rights it may rest on is the free right
  or names a key the session is authenticated with; the right that denies never allows. The
  communication mode of an allowed operation is the configured one, without the flag bits stored beside
  it, except that an authenticated session falls back to plain when the operation is free and none of
  its rights names the authenticated key: protection is never dropped on an operation that a key had
  to grant.\<close>

theorem access_control_correct:
  "(dfc_emulator_file_access_allowed em f access \<longleftrightarrow>
      list_ex (\<lambda>n. right_digit f n = 14 \<or> key_right em f n) (rights_of access)) \<and>
   (dfc_emulator_file_access_is_free f access \<longleftrightarrow> list_ex (\<lambda>n. right_digit f n = 14) (rights_of access)) \<and>
   dfc_emulator_file_effective_comm_settings em f access comm =
     (if session_authenticated em \<and> list_ex (\<lambda>n. right_digit f n = 14) (rights_of access) \<and>
         \<not> list_ex (key_right em f) (rights_of access)
      then DFC_COMM_PLAIN else comm AND DFC_COMM_MODE_MASK) \<and>
   (dfc_emulator_file_access_allowed em f access \<and> \<not> dfc_emulator_file_access_is_free f access \<longrightarrow>
     dfc_emulator_file_effective_comm_settings em f access comm = comm AND DFC_COMM_MODE_MASK)"
  by (intro conjI impI access_control_rules) simp_all


theorem access_control_correct_witness:
  "dfc_emulator_file_access_allowed sample_session sample_readable DfcFileAccessRead \<and>
   dfc_emulator_file_effective_comm_settings sample_session sample_readable DfcFileAccessRead 0x43 = 0x03"
proof -
  have "dfc_emulator_file_access_allowed sample_session sample_readable DfcFileAccessRead \<and>
      \<not> dfc_emulator_file_access_is_free sample_readable DfcFileAccessRead"
    unfolding access_control_rules(1,2)
    by (simp add: key_right_def right_digit_def sample_readable_def zero_file_def sample_session_key)
  with access_control_correct [of sample_session sample_readable DfcFileAccessRead "0x43"] show ?thesis
    by (simp add: DFC_COMM_MODE_MASK_def)
qed

text \<open>The rule for value commands, which may rest on any chosen set of the three rights, agrees with
  the rule for the single operations wherever both apply: reading rests on the first and the third
  right, writing on the second and the third, and read-and-write on the third alone.\<close>

theorem comm_settings_for_rights_agree:
  "dfc_emulator_file_effective_comm_settings_for_rights em f (access = DfcFileAccessRead) (access = DfcFileAccessWrite) True comm =
     dfc_emulator_file_effective_comm_settings em f access comm"
  if "access \<noteq> DfcFileAccessChange"
  using that
  by (cases access) (auto simp: dfc_emulator_file_effective_comm_settings_for_rights_def
      dfc_emulator_file_effective_comm_settings_def Let_def nibble_digits digit_word key_right_def)

theorem comm_settings_for_rights_agree_witness:
  "dfc_emulator_file_effective_comm_settings_for_rights sample_session sample_readable True False True 0x43 =
     dfc_emulator_file_effective_comm_settings sample_session sample_readable DfcFileAccessRead 0x43"
  using comm_settings_for_rights_agree [of DfcFileAccessRead sample_session sample_readable "0x43"] by simp

subsection \<open>The transaction timer\<close>

lemma u32_max [simp]: "unat (-1 :: u32) = 4294967295"
  by (simp add: unsigned_minus_1_eq_mask mask_eq_exp_minus_1)

lemma u32_saturates: "-1 - t < (e :: u32) \<longleftrightarrow> \<not> unat t + unat e < 2 ^ 32"
proof -
  have "unat t < 4294967296" by (rule unat_u32_less)
  then have "t \<le> -1" by (simp add: word_le_nat_alt)
  then have "unat (-1 - t) = 4294967295 - unat t" by (simp add: unat_sub)
  with \<open>unat t < 4294967296\<close> show ?thesis by (simp add: word_less_nat_alt) linarith
qed

lemma u32_add: "unat (t + e) = unat t + unat (e :: u32)" if "unat t + unat e < 2 ^ 32"
  using that unat_of_nat_u32 [of "unat t + unat e"] by simp

lemma timer_tick:
  assumes "transaction_timer_enabled em"
  shows "dfc_emulator_advance_time em e =
    (let n = unat (transaction_timer_elapsed_milliseconds em) + unat e;
         em' = em\<lparr>transaction_timer_elapsed_milliseconds :=
           (if n < 2 ^ 32 then transaction_timer_elapsed_milliseconds em + e else -1)\<rparr>
     in if n < 1000 then em' else dfc_emulator_reset_activation em')"
proof (cases "unat (transaction_timer_elapsed_milliseconds em) + unat e < 2 ^ 32")
  case True
  then show ?thesis
    using assms u32_add [OF True] u32_saturates [of "transaction_timer_elapsed_milliseconds em" e]
    by (simp add: dfc_emulator_advance_time_def word_le_nat_alt DFC_TRANSACTION_TIMER_EXPIRY_MILLISECONDS_def Let_def)
next
  case False
  then show ?thesis
    using assms u32_saturates [of "transaction_timer_elapsed_milliseconds em" e]
    by (simp add: dfc_emulator_advance_time_def word_le_nat_alt DFC_TRANSACTION_TIMER_EXPIRY_MILLISECONDS_def Let_def)
qed

lemma abort_snapshot_timer:
  "dfc_emulator_abort_transaction_snapshot (em\<lparr>transaction_timer_elapsed_milliseconds := t\<rparr>) =
     map_prod id (\<lambda>em. em\<lparr>transaction_timer_elapsed_milliseconds := t\<rparr>) (dfc_emulator_abort_transaction_snapshot em)"
  by (auto simp: dfc_emulator_abort_transaction_snapshot_def transaction_snapshot_clear_state_def
      dfc_emulator_discard_transaction_snapshot_def transaction_snapshot_replace_def upd_journal_def Let_def split: option.splits)

lemma abort_snapshot_timer_tmac:
  "dfc_emulator_abort_transaction_snapshot (em\<lparr>transaction_timer_elapsed_milliseconds := t, em_tmac := x\<rparr>) =
     map_prod id (\<lambda>em. em\<lparr>transaction_timer_elapsed_milliseconds := t\<rparr>)
       (dfc_emulator_abort_transaction_snapshot (em\<lparr>em_tmac := x\<rparr>))"
proof -
  have "em\<lparr>transaction_timer_elapsed_milliseconds := t, em_tmac := x\<rparr> = em\<lparr>em_tmac := x, transaction_timer_elapsed_milliseconds := t\<rparr>"
    by simp
  then show ?thesis by (simp only: abort_snapshot_timer)
qed

lemma reset_activation_timer:
  "dfc_emulator_reset_activation (em\<lparr>transaction_timer_elapsed_milliseconds := t\<rparr>) = dfc_emulator_reset_activation em"
  by (auto simp: dfc_emulator_reset_activation_def dfc_emulator_abort_transaction_def Let_def abort_snapshot_timer
      abort_snapshot_timer_tmac split: prod.splits)

lemma reset_activation_stops_timer: "\<not> transaction_timer_enabled (dfc_emulator_reset_activation em)"
  by (simp add: dfc_emulator_reset_activation_def Let_def zero_emulator_def)

lemma timer_stopped: "\<not> transaction_timer_enabled em \<Longrightarrow> fold (\<lambda>e em. dfc_emulator_advance_time em e) es em = em"
  by (induction es) (simp_all add: dfc_emulator_advance_time_def)

text \<open>C22. While the timer of an application runs, however the elapsed time is cut into ticks, the
  activation is reset exactly when the ticks add up to a second or more; until then nothing but the
  timer changes, and no sum of ticks can wrap the counter round.\<close>

theorem transaction_timer_correct:
  assumes "transaction_timer_enabled em" "unat (transaction_timer_elapsed_milliseconds em) < 1000"
  shows "fold (\<lambda>e em. dfc_emulator_advance_time em e) es em =
    (let n = unat (transaction_timer_elapsed_milliseconds em) + sum_list (map unat es)
     in if n < 1000 then em\<lparr>transaction_timer_elapsed_milliseconds := of_nat n\<rparr> else dfc_emulator_reset_activation em)"
  using assms
proof (induction es arbitrary: em)
  case Nil
  then show ?case by simp
next
  case (Cons e es)
  let ?n = "unat (transaction_timer_elapsed_milliseconds em) + unat e"
  show ?case
  proof (cases "?n < 1000")
    case True
    let ?em = "em\<lparr>transaction_timer_elapsed_milliseconds := transaction_timer_elapsed_milliseconds em + e\<rparr>"
    have tick: "dfc_emulator_advance_time em e = ?em"
      using True timer_tick [OF Cons.prems(1), of e] by (simp add: Let_def)
    have n: "unat (transaction_timer_elapsed_milliseconds ?em) = ?n"
      using True u32_add [of "transaction_timer_elapsed_milliseconds em" e] by simp
    show ?thesis
      using Cons.IH [of ?em] Cons.prems(1) True n
      by (simp add: tick Let_def reset_activation_timer add.assoc)
  next
    case False
    then have "dfc_emulator_advance_time em e = dfc_emulator_reset_activation em"
      using timer_tick [OF Cons.prems(1), of e] by (simp add: Let_def reset_activation_timer)
    with False show ?thesis
      by (simp add: timer_stopped reset_activation_stops_timer Let_def)
  qed
qed

theorem transaction_timer_correct_witness:
  "fold (\<lambda>e em. dfc_emulator_advance_time em e) [400, 599] sample_session =
     sample_session\<lparr>transaction_timer_elapsed_milliseconds := 999\<rparr> \<and>
   fold (\<lambda>e em. dfc_emulator_advance_time em e) [400, 600] sample_session = dfc_emulator_reset_activation sample_session"
  using transaction_timer_correct [of sample_session "[400, 599]"] transaction_timer_correct [of sample_session "[400, 600]"]
  by (simp add: sample_session_def sample_emulator_def zero_emulator_def)

subsection \<open>Selection by name\<close>

definition buf_contents :: "DfcByteBuf \<Rightarrow> bytes" where
  "buf_contents b = take (buf_size_bytes b) (buf_data b)"

definition buf_ok :: "DfcByteBuf \<Rightarrow> bool" where
  "buf_ok b \<longleftrightarrow> length (buf_data b) = DFC_BYTEBUF_MAX \<and> buf_size_bytes b \<le> DFC_BYTEBUF_MAX"

lemma buf_append_byte:
  assumes "buf_ok b"
  shows "buf_ok (dfc_bytebuf_append_byte b x)"
    "buf_size_bytes b < DFC_BYTEBUF_MAX \<Longrightarrow> buf_contents (dfc_bytebuf_append_byte b x) = buf_contents b @ [x]"
    "buf_size_bytes b < DFC_BYTEBUF_MAX \<Longrightarrow> buf_size_bytes (dfc_bytebuf_append_byte b x) = buf_size_bytes b + 1"
  using assms by (auto simp: buf_ok_def dfc_bytebuf_append_byte_def buf_contents_def take_Suc_conv_app_nth)

lemma buf_append_bytes:
  assumes "buf_ok b"
  shows "buf_ok (dfc_bytebuf_append_bytes b xs)"
    "buf_size_bytes b + length xs \<le> DFC_BYTEBUF_MAX \<Longrightarrow> buf_contents (dfc_bytebuf_append_bytes b xs) = buf_contents b @ xs"
    "buf_size_bytes b + length xs \<le> DFC_BYTEBUF_MAX \<Longrightarrow>
       buf_size_bytes (dfc_bytebuf_append_bytes b xs) = buf_size_bytes b + length xs"
  using assms by (auto simp: buf_ok_def dfc_bytebuf_append_bytes_def buf_contents_def mem_write_def)

lemma buf_append_status_word:
  assumes "buf_ok b" "buf_size_bytes b + 2 \<le> DFC_BYTEBUF_MAX"
  shows "buf_contents (append_status_word hi lo b) = buf_contents b @ [hi, lo]"
    "buf_size_bytes (append_status_word hi lo b) = buf_size_bytes b + 2"
  using assms by (simp_all add: append_status_word_def buf_append_byte)

definition df_name :: "DfcApplication \<Rightarrow> bytes" where
  "df_name app = take (unat (a_iso_aid_len app)) (a_iso_aid app)"

definition names_fit :: "DfcCredential \<Rightarrow> bool" where
  "names_fit c \<longleftrightarrow> (\<forall>app \<in> set (take (unat (c_num_apps c)) (c_apps c)). unat (a_iso_aid_len app) \<le> length (a_iso_aid app)) \<and>
     unat (c_num_apps c) \<le> length (c_apps c)"

lemma iso_aid_matches_name:
  assumes "unat (a_iso_aid_len app) \<le> length (a_iso_aid app)" "length name = unat lc" "name \<noteq> []"
  shows "iso_aid_matches app lc (name @ rest) \<longleftrightarrow> df_name app = name"
proof
  assume "iso_aid_matches app lc (name @ rest)"
  with assms show "df_name app = name" by (auto simp: iso_aid_matches_def df_name_def)
next
  assume name: "df_name app = name"
  then have "unat lc = unat (a_iso_aid_len app)" using assms by (auto simp: df_name_def)
  then have "lc = a_iso_aid_len app" by (simp add: word_unat_eq_iff)
  with name assms show "iso_aid_matches app lc (name @ rest)"
    by (auto simp: iso_aid_matches_def df_name_def word_less_nat_alt)
qed

lemma find_first:
  "find P [0..<n] = Some i \<longleftrightarrow> i < n \<and> P i \<and> (\<forall>j < i. \<not> P j)"
  by (auto simp: find_Some_iff)

definition carries_name :: "DfcCredential \<Rightarrow> bytes \<Rightarrow> nat \<Rightarrow> bool" where
  "carries_name c name i \<longleftrightarrow> i < unat (c_num_apps c) \<and> df_name (c_apps c ! i) = name"

lemma names_fit_nth:
  assumes "names_fit c" "i < unat (c_num_apps c)"
  shows "unat (a_iso_aid_len (c_apps c ! i)) \<le> length (a_iso_aid (c_apps c ! i))"
proof -
  have "c_apps c ! i \<in> set (take (unat (c_num_apps c)) (c_apps c))"
    using assms by (auto simp: names_fit_def in_set_conv_nth intro: exI [of _ i])
  with assms show ?thesis by (simp add: names_fit_def)
qed

lemma find_by_name:
  assumes "names_fit c" "length name = unat lc" "name \<noteq> []"
  shows "find (\<lambda>i. iso_aid_matches (c_apps c ! i) lc (name @ rest)) [0..<unat (c_num_apps c)] = Some i \<longleftrightarrow>
      carries_name c name i \<and> (\<forall>j < i. \<not> carries_name c name j)"
    "find (\<lambda>i. iso_aid_matches (c_apps c ! i) lc (name @ rest)) [0..<unat (c_num_apps c)] = None \<longleftrightarrow>
      (\<forall>j. \<not> carries_name c name j)"
proof -
  have m: "iso_aid_matches (c_apps c ! i) lc (name @ rest) \<longleftrightarrow> df_name (c_apps c ! i) = name" if "i < unat (c_num_apps c)" for i
    using assms that by (intro iso_aid_matches_name) (simp_all add: names_fit_nth)
  show "find (\<lambda>i. iso_aid_matches (c_apps c ! i) lc (name @ rest)) [0..<unat (c_num_apps c)] = Some i \<longleftrightarrow>
      carries_name c name i \<and> (\<forall>j < i. \<not> carries_name c name j)"
    unfolding find_first carries_name_def using m by (metis order.strict_trans)
  show "find (\<lambda>i. iso_aid_matches (c_apps c ! i) lc (name @ rest)) [0..<unat (c_num_apps c)] = None \<longleftrightarrow>
      (\<forall>j. \<not> carries_name c name j)"
    unfolding find_None_iff carries_name_def using m by auto
qed

lemma select_by_name:
  assumes "length name = unat lc" "name \<noteq> []"
  shows "dfc_emulator_handle_iso7816_select em ([0x00, 0xA4, 0x04, p2, lc] @ name @ rest) tx prefix_len =
    (case find (\<lambda>i. iso_aid_matches (c_apps (credential em) ! i) lc (name @ rest)) [0..<unat (c_num_apps (credential em))] of
       Some i \<Rightarrow> (True, Some True, dfc_emulator_select_application em DfcEmulatorSelectedApplicationApp i,
         append_status_word 0x90 0x00 tx)
     | None \<Rightarrow> if name = DFC_ISO_AID
         then (True, Some False, dfc_emulator_select_application em DfcEmulatorSelectedApplicationPicc 0, append_status_word 0x90 0x00 tx)
         else (dfc_bytebuf_get_size_bytes (append_status_word 0x6A 0x82 tx) > prefix_len, Some False,
           dfc_emulator_reset_session em, append_status_word 0x6A 0x82 tx))"
proof -
  have "unat lc > 0" using assms by (metis length_greater_0_conv)
  then have "lc > 0" by (simp add: word_less_nat_alt)
  then show ?thesis
    using assms
    by (auto simp: dfc_emulator_handle_iso7816_select_def Let_def DFC_ISO7816_CLA_STANDARD_def DFC_ISO7816_INS_SELECT_def
        DFC_ISO7816_SW_OK_HI_def DFC_ISO7816_SW_OK_LO_def DFC_ISO7816_SW_NOT_FOUND_HI_def DFC_ISO7816_SW_NOT_FOUND_LO_def
        split: option.splits)
qed

lemma select_fields:
  "selected_application (dfc_emulator_select_application em s i) = s"
  "selected_app_index (dfc_emulator_select_application em s i) = (if s = DfcEmulatorSelectedApplicationApp then i else 0)"
  by (simp_all add: dfc_emulator_select_application_def Let_def)

lemma abort_transaction_selection:
  "selected_application (snd (dfc_emulator_abort_transaction em)) = selected_application em"
  "selected_app_index (snd (dfc_emulator_abort_transaction em)) = selected_app_index em"
  by (auto simp: dfc_emulator_abort_transaction_def Let_def dfc_emulator_abort_transaction_snapshot_def
      transaction_snapshot_clear_state_def dfc_emulator_discard_transaction_snapshot_def transaction_snapshot_replace_def
      upd_journal_def split: prod.splits option.splits)

lemma reset_session_selection:
  "selected_application (dfc_emulator_reset_session em) = selected_application em"
  "selected_app_index (dfc_emulator_reset_session em) = selected_app_index em"
  by (simp_all add: dfc_emulator_reset_session_def dfc_emulator_retire_authentication_def Let_def
      dfc_emulator_retire_sdm_read_cache_def dfc_emulator_discard_command_chain_def clear_native_authentication_def
      dfc_emulator_clear_iso_authentication_def dfc_emulator_clear_pending_authentication_storage_def abort_transaction_selection)

lemma iso7816_select_effect:
  assumes name: "length name = unat lc" "name \<noteq> []" and c: "names_fit (credential em)"
    and tx: "buf_ok tx" "buf_size_bytes tx + 2 \<le> DFC_BYTEBUF_MAX" "prefix_len \<le> buf_size_bytes tx"
    and res: "dfc_emulator_handle_iso7816_select em ([0x00, 0xA4, 0x04, p2, lc] @ name @ rest) tx prefix_len =
      (handled, app_selected, em', tx')"
  shows "handled" "session_over em'"
    "carries_name (credential em) name i \<and> (\<forall>j < i. \<not> carries_name (credential em) name j) \<Longrightarrow>
       app_selected = Some True \<and> selected_application em' = DfcEmulatorSelectedApplicationApp \<and> selected_app_index em' = i \<and>
       buf_contents tx' = buf_contents tx @ [0x90, 0x00]"
    "(\<forall>j. \<not> carries_name (credential em) name j) \<and> name = DFC_ISO_AID \<Longrightarrow>
       app_selected = Some False \<and> selected_application em' = DfcEmulatorSelectedApplicationPicc \<and>
       buf_contents tx' = buf_contents tx @ [0x90, 0x00]"
    "(\<forall>j. \<not> carries_name (credential em) name j) \<and> name \<noteq> DFC_ISO_AID \<Longrightarrow>
       app_selected = Some False \<and> selected_application em' = selected_application em \<and>
       selected_app_index em' = selected_app_index em \<and> buf_contents tx' = buf_contents tx @ [0x6A, 0x82]"
proof -
  note find = find_by_name [OF c name, of rest]
  note eq = res [unfolded select_by_name [OF name]]
  have reset: "session_over (dfc_emulator_reset_session em)"
    unfolding dfc_emulator_reset_session_def by (rule session_over_retire)
  show "handled" "session_over em'"
    using eq tx buf_append_status_word [OF tx(1,2)] reset
    by (auto simp: dfc_bytebuf_get_size_bytes_def session_over_select split: option.splits if_splits)
  show "carries_name (credential em) name i \<and> (\<forall>j < i. \<not> carries_name (credential em) name j) \<Longrightarrow>
       app_selected = Some True \<and> selected_application em' = DfcEmulatorSelectedApplicationApp \<and> selected_app_index em' = i \<and>
       buf_contents tx' = buf_contents tx @ [0x90, 0x00]"
    using eq unfolding find(1) [symmetric] by (auto simp: select_fields buf_append_status_word [OF tx(1,2)])
  show "(\<forall>j. \<not> carries_name (credential em) name j) \<and> name = DFC_ISO_AID \<Longrightarrow>
       app_selected = Some False \<and> selected_application em' = DfcEmulatorSelectedApplicationPicc \<and>
       buf_contents tx' = buf_contents tx @ [0x90, 0x00]"
    using eq unfolding find(2) [symmetric] by (auto simp: select_fields buf_append_status_word [OF tx(1,2)])
  show "(\<forall>j. \<not> carries_name (credential em) name j) \<and> name \<noteq> DFC_ISO_AID \<Longrightarrow>
       app_selected = Some False \<and> selected_application em' = selected_application em \<and>
       selected_app_index em' = selected_app_index em \<and> buf_contents tx' = buf_contents tx @ [0x6A, 0x82]"
    using eq unfolding find(2) [symmetric] by (auto simp: reset_session_selection buf_append_status_word [OF tx(1,2)])
qed

text \<open>C21. A SELECT by name selects the first application that carries the name and only then, when no
  application does, the card level under its well-known name; both answer 90 00. Any other name
  answers 6A 82 and leaves the selection alone. In all three cases the session before it has ended.\<close>

theorem iso7816_select_correct:
  assumes "length name = unat lc" "name \<noteq> []" "names_fit (credential em)"
    and "buf_ok tx" "buf_size_bytes tx + 2 \<le> DFC_BYTEBUF_MAX" "prefix_len \<le> buf_size_bytes tx"
    and "dfc_emulator_handle_iso7816_select em ([0x00, 0xA4, 0x04, p2, lc] @ name @ rest) tx prefix_len =
      (handled, app_selected, em', tx')"
  shows "handled \<and> session_over em' \<and>
    (\<forall>i. carries_name (credential em) name i \<and> (\<forall>j < i. \<not> carries_name (credential em) name j) \<longrightarrow>
       app_selected = Some True \<and> selected_application em' = DfcEmulatorSelectedApplicationApp \<and> selected_app_index em' = i \<and>
       buf_contents tx' = buf_contents tx @ [0x90, 0x00]) \<and>
    ((\<forall>j. \<not> carries_name (credential em) name j) \<and> name = DFC_ISO_AID \<longrightarrow>
       app_selected = Some False \<and> selected_application em' = DfcEmulatorSelectedApplicationPicc \<and>
       buf_contents tx' = buf_contents tx @ [0x90, 0x00]) \<and>
    ((\<forall>j. \<not> carries_name (credential em) name j) \<and> name \<noteq> DFC_ISO_AID \<longrightarrow>
       app_selected = Some False \<and> selected_application em' = selected_application em \<and>
       selected_app_index em' = selected_app_index em \<and> buf_contents tx' = buf_contents tx @ [0x6A, 0x82])"
proof (intro conjI)
  note effect = iso7816_select_effect [OF assms]
  show handled "session_over em'" by (rule effect(1), rule effect(2))
  show "\<forall>i. carries_name (credential em) name i \<and> (\<forall>j < i. \<not> carries_name (credential em) name j) \<longrightarrow>
       app_selected = Some True \<and> selected_application em' = DfcEmulatorSelectedApplicationApp \<and> selected_app_index em' = i \<and>
       buf_contents tx' = buf_contents tx @ [0x90, 0x00]" by (intro allI impI) (rule effect(3))
  show "(\<forall>j. \<not> carries_name (credential em) name j) \<and> name = DFC_ISO_AID \<longrightarrow>
       app_selected = Some False \<and> selected_application em' = DfcEmulatorSelectedApplicationPicc \<and>
       buf_contents tx' = buf_contents tx @ [0x90, 0x00]" by (rule impI) (rule effect(4))
  show "(\<forall>j. \<not> carries_name (credential em) name j) \<and> name \<noteq> DFC_ISO_AID \<longrightarrow>
       app_selected = Some False \<and> selected_application em' = selected_application em \<and>
       selected_app_index em' = selected_app_index em \<and> buf_contents tx' = buf_contents tx @ [0x6A, 0x82]"
    by (rule impI) (rule effect(5))
qed


theorem iso7816_select_correct_witness:
  "selected_application (fst (snd (snd (dfc_emulator_handle_iso7816_select sample_session
       ([0x00, 0xA4, 0x04, 0x00, 7] @ DFC_ISO_AID @ []) zero_bytebuf 0)))) = DfcEmulatorSelectedApplicationPicc"
proof -
  let ?r = "dfc_emulator_handle_iso7816_select sample_session ([0x00, 0xA4, 0x04, 0x00, 7] @ DFC_ISO_AID @ []) zero_bytebuf 0"
  have c: "c_num_apps (credential sample_session) = 0"
    by (simp add: sample_session_def sample_emulator_def zero_emulator_def sample_backup_def zero_credential_def)
  obtain h a em' tx' where r: "?r = (h, a, em', tx')" by (cases ?r) auto
  have "selected_application em' = DfcEmulatorSelectedApplicationPicc"
    using iso7816_select_correct [OF _ _ _ _ _ _ r]
    by (simp add: DFC_ISO_AID_def names_fit_def c buf_ok_def zero_bytebuf_def DFC_BYTEBUF_MAX_def carries_name_def)
  with r show ?thesis by simp
qed

end
