(* ===== verification/Dfc_Secure_Messaging.thy ===== *)
theory Dfc_Secure_Messaging
  imports Dfc_Emulator_State Dfc_Response
begin

text \<open>
  Secure messaging of the D40 and EV1 sessions, \<^verbatim>\<open>src/dfc_secure_messaging.c\<close>: the D40
  CBC-MAC, the chained EV1 CMAC, enciphered payloads with their checksums, and the wrappers of both
  parties. A session (\<^verbatim>\<open>DfcSecureMessaging\<close>) is passed and returned. An output buffer is an option,
  \<^term>\<open>None\<close> for NULL, and is returned beside the length. Inputs are values: the code reads them in
  full before it writes the output, so an input that lies in the output buffer is its old contents.
  The wipes of local arrays are not modelled.
\<close>

subsection \<open>Constants\<close>

definition DFC_SM_MAX_CIPHER_BLOCK_SIZE :: size_t where "DFC_SM_MAX_CIPHER_BLOCK_SIZE = 16"
definition DFC_SM_LEGACY_BLOCK_SIZE :: size_t where "DFC_SM_LEGACY_BLOCK_SIZE = 8"
definition DFC_SM_LEGACY_MAC_LENGTH :: size_t where "DFC_SM_LEGACY_MAC_LENGTH = 4"
definition DFC_SM_LENGTH_MARKER :: u8 where "DFC_SM_LENGTH_MARKER = 0x80"
definition DFC_SM_MAX_CRYPTO_SIZE :: size_t where
  "DFC_SM_MAX_CRYPTO_SIZE = DFC_MAX_FILE_DATA + DFC_SM_MAX_CIPHER_BLOCK_SIZE"

lemmas dfc_sm_consts = DFC_SM_MAX_CIPHER_BLOCK_SIZE_def DFC_SM_LEGACY_BLOCK_SIZE_def DFC_SM_LEGACY_MAC_LENGTH_def
  DFC_SM_LENGTH_MARKER_def DFC_SM_MAX_CRYPTO_SIZE_def

text \<open>The octets behind a pointer with its length.\<close>

definition opt_octets :: "bytes option \<Rightarrow> size_t \<Rightarrow> bytes" where
  "opt_octets p n = (case p of None \<Rightarrow> [] | Some d \<Rightarrow> take n d)"

subsection \<open>Sessions\<close>

definition cipher_accepts_key_length :: "u8 \<Rightarrow> size_t \<Rightarrow> bool" where
  "cipher_accepts_key_length cipher key_len =
     (if cipher = DFC_CMD_AUTHENTICATE_LEGACY then key_len = 8 \<or> key_len = 16
      else if cipher = DFC_CMD_AUTHENTICATE_ISO then key_len = 8 \<or> key_len = 16 \<or> key_len = 24
      else if cipher = DFC_CMD_AUTHENTICATE_AES then key_len = DFC_AES_KEY_LENGTH
      else False)"

definition session_is_valid :: "DfcSecureMessaging \<Rightarrow> bool" where
  "session_is_valid sm = cipher_accepts_key_length (sm_cipher sm) (unat (sm_session_key_len sm))"

definition output_fits :: "bytes option \<Rightarrow> size_t \<Rightarrow> size_t \<Rightarrow> bool" where
  "output_fits out capacity required \<longleftrightarrow> required = 0 \<or> (out \<noteq> None \<and> capacity \<ge> required)"

definition dfc_secure_messaging_init :: "u8 \<Rightarrow> bytes option \<Rightarrow> size_t \<Rightarrow> bytes option \<Rightarrow> bool \<times> DfcSecureMessaging" where
  "dfc_secure_messaging_init cipher session_key session_key_len initial_iv =
     (if session_key = None \<or> \<not> cipher_accepts_key_length cipher session_key_len then (False, zero_secure_messaging)
      else (True, zero_secure_messaging\<lparr>sm_cipher := cipher, sm_session_key_len := of_nat session_key_len,
        sm_session_key := mem_write 0 (opt_octets session_key session_key_len) (sm_session_key zero_secure_messaging),
        sm_iv := (case initial_iv of None \<Rightarrow> sm_iv zero_secure_messaging | Some iv \<Rightarrow> take 16 iv)\<rparr>))"

definition dfc_secure_messaging_alloc ::
  "bool \<Rightarrow> u8 \<Rightarrow> bytes option \<Rightarrow> size_t \<Rightarrow> bytes option \<Rightarrow> DfcSecureMessaging option" where
  "dfc_secure_messaging_alloc object_allocated cipher session_key session_key_len initial_iv =
     (if session_key = None \<or> \<not> cipher_accepts_key_length cipher session_key_len then None
      else if \<not> object_allocated then None
      else case dfc_secure_messaging_init cipher session_key session_key_len initial_iv of
        (False, _) \<Rightarrow> None
      | (True, sm) \<Rightarrow> Some sm)"

text \<open>The contents of a session when it is handed back to the allocator.\<close>

definition dfc_secure_messaging_free :: "DfcSecureMessaging \<Rightarrow> DfcSecureMessaging" where
  "dfc_secure_messaging_free sm = zero_secure_messaging"

definition dfc_secure_messaging_reset_iv :: "DfcSecureMessaging \<Rightarrow> DfcSecureMessaging" where
  "dfc_secure_messaging_reset_iv sm = sm\<lparr>sm_iv := replicate 16 0\<rparr>"

definition dfc_secure_messaging_applies_ev1 :: "DfcSecureMessaging \<Rightarrow> u8 \<Rightarrow> bool" where
  "dfc_secure_messaging_applies_ev1 sm cmd \<longleftrightarrow>
     sm_cipher sm \<noteq> DFC_CMD_AUTHENTICATE_LEGACY \<and> cmd \<noteq> DFC_CMD_SELECT_APPLICATION \<and>
     cmd \<noteq> DFC_CMD_AUTHENTICATE_LEGACY \<and> cmd \<noteq> DFC_CMD_AUTHENTICATE_ISO \<and>
     cmd \<noteq> DFC_CMD_AUTHENTICATE_AES \<and> cmd \<noteq> DFC_CMD_AUTHENTICATE_EV2_FIRST \<and>
     cmd \<noteq> DFC_CMD_AUTHENTICATE_EV2_NON_FIRST \<and> cmd \<noteq> DFC_CMD_ADDITIONAL_FRAME"

text \<open>The end of the octets that are not trailing zeros.\<close>

fun nonzero_end :: "bytes \<Rightarrow> size_t \<Rightarrow> size_t" where
  "nonzero_end data 0 = 0"
| "nonzero_end data (Suc n) = (if data ! n = 0 then nonzero_end data n else Suc n)"

definition first_padded_clear_length :: "bytes \<Rightarrow> size_t \<Rightarrow> size_t \<Rightarrow> size_t" where
  "first_padded_clear_length data len crc_len =
     (let e = nonzero_end data len in
      if e = 0 then 0
      else
        let last_nonzero = e - 1;
            required_crc_end = last_nonzero + (if data ! last_nonzero = DFC_SM_LENGTH_MARKER then 0 else 1)
        in if required_crc_end > crc_len then required_crc_end - crc_len else 0)"

subsection \<open>The D40 MAC\<close>

text \<open>
  One segment: the octets still to take are \<open>data\<close>, the state is the chaining value, the
  block being filled, the last ciphertext and the octets pending. \<^term>\<open>None\<close> is a cipher failure.
\<close>

function d40_absorb ::
  "'x mbedtls \<Rightarrow> 'x option \<Rightarrow> bytes \<Rightarrow> bytes \<times> bytes \<times> bytes \<times> size_t \<Rightarrow> (bytes \<times> bytes \<times> bytes \<times> size_t) option" where
  "d40_absorb lib cipher data (iv, block, encrypted, pending_len) =
     (if data = [] \<or> pending_len \<ge> DFC_SM_LEGACY_BLOCK_SIZE then Some (iv, block, encrypted, pending_len)
      else
        let take_len = min (DFC_SM_LEGACY_BLOCK_SIZE - pending_len) (length data);
            block = mem_write pending_len (take take_len data) block;
            pending_len = pending_len + take_len
        in if pending_len = DFC_SM_LEGACY_BLOCK_SIZE then
             (case dfc_crypto_des_block_crypt lib cipher (xor_bytes block iv) of
                None \<Rightarrow> None
              | Some y \<Rightarrow> d40_absorb lib cipher (drop take_len data) (y, replicate DFC_SM_LEGACY_BLOCK_SIZE 0, y, 0))
           else d40_absorb lib cipher (drop take_len data) (iv, block, encrypted, pending_len))"
  by pat_completeness auto
termination
  by (relation "measure (\<lambda>(lib, cipher, data, st). length data)") (auto simp: DFC_SM_LEGACY_BLOCK_SIZE_def)

declare d40_absorb.simps [simp del]

fun d40_absorb_segments ::
  "'x mbedtls \<Rightarrow> 'x option \<Rightarrow> DfcCryptoSegment list \<Rightarrow> bytes \<times> bytes \<times> bytes \<times> size_t \<Rightarrow>
   (bytes \<times> bytes \<times> bytes \<times> size_t) option" where
  "d40_absorb_segments lib cipher [] st = Some st"
| "d40_absorb_segments lib cipher (s # segments) st =
     (case d40_absorb lib cipher (seg_octets s) st of
        None \<Rightarrow> None
      | Some st' \<Rightarrow> d40_absorb_segments lib cipher segments st')"

fun d40_segments_total :: "DfcCryptoSegment list \<Rightarrow> size_t \<Rightarrow> size_t option" where
  "d40_segments_total [] total_len = Some total_len"
| "d40_segments_total (s # segments) total_len =
     (if (seg_length s \<noteq> 0 \<and> seg_data s = None) \<or> seg_length s > SIZE_MAX - total_len then None
      else d40_segments_total segments (total_len + seg_length s))"

definition d40_mac_segments :: "'x mbedtls \<Rightarrow> DfcSecureMessaging \<Rightarrow> DfcCryptoSegment list \<Rightarrow> bool \<times> bytes" where
  "d40_mac_segments lib sm segments =
     (let zero_mac = replicate DFC_SM_LEGACY_MAC_LENGTH 0; zero_block = replicate DFC_SM_LEGACY_BLOCK_SIZE 0 in
      case d40_segments_total segments 0 of
        None \<Rightarrow> (False, zero_mac)
      | Some total_len \<Rightarrow>
          if total_len = 0 then (True, zero_mac)
          else
            (case dfc_crypto_des_block_init lib True (Some (sm_session_key sm)) (unat (sm_session_key_len sm)) of
               None \<Rightarrow> (False, zero_mac)
             | Some cipher \<Rightarrow>
                 (case d40_absorb_segments lib (Some cipher) segments (zero_block, zero_block, zero_block, 0) of
                    None \<Rightarrow> (False, zero_mac)
                  | Some (iv, block, encrypted, pending_len) \<Rightarrow>
                      if pending_len \<noteq> 0 then
                        (case dfc_crypto_des_block_crypt lib (Some cipher) (xor_bytes block iv) of
                           None \<Rightarrow> (False, zero_mac)
                         | Some y \<Rightarrow> (True, take DFC_SM_LEGACY_MAC_LENGTH y))
                      else (True, take DFC_SM_LEGACY_MAC_LENGTH encrypted))))"

subsection \<open>The EV1 CMAC\<close>

definition compute_full_cmac_segments ::
  "'x mbedtls \<Rightarrow> DfcSecureMessaging \<Rightarrow> DfcCryptoSegment list \<Rightarrow> bool \<times> bytes \<times> size_t" where
  "compute_full_cmac_segments lib sm segments =
     (if sm_cipher sm = DFC_CMD_AUTHENTICATE_AES then
        (case aes_cmac_segments_with_iv lib (Some (sm_session_key sm)) (unat (sm_session_key_len sm)) segments (sm_iv sm) of
           (False, mac) \<Rightarrow> (False, mac, 0)
         | (True, mac) \<Rightarrow> (True, mac, 16))
      else
        (case des_cmac_segments_with_iv lib (Some (sm_session_key sm)) (unat (sm_session_key_len sm)) segments
                (take DFC_SM_LEGACY_BLOCK_SIZE (sm_iv sm)) of
           (False, mac) \<Rightarrow> (False, mac, 0)
         | (True, mac) \<Rightarrow> (True, mac, 8)))"

definition update_iv_from_full_cmac :: "DfcSecureMessaging \<Rightarrow> bytes \<Rightarrow> size_t \<Rightarrow> DfcSecureMessaging" where
  "update_iv_from_full_cmac sm full_mac full_mac_len =
     sm\<lparr>sm_iv := mem_write 0 (take (min full_mac_len 16) full_mac) (replicate 16 0)\<rparr>"

definition segment :: "bytes option \<Rightarrow> size_t \<Rightarrow> DfcCryptoSegment" where
  "segment data len = \<lparr>seg_data = data, seg_length = len\<rparr>"

definition dfc_secure_messaging_update_ev1_command ::
  "'x mbedtls \<Rightarrow> DfcSecureMessaging \<Rightarrow> u8 \<Rightarrow> bytes option \<Rightarrow> size_t \<Rightarrow> bool \<times> DfcSecureMessaging" where
  "dfc_secure_messaging_update_ev1_command lib sm cmd data data_len =
     (if data_len \<noteq> 0 \<and> data = None then (False, sm)
      else if sm_cipher sm = DFC_CMD_AUTHENTICATE_LEGACY \<or>
          (cmd \<noteq> DFC_CMD_ADDITIONAL_FRAME \<and> \<not> dfc_secure_messaging_applies_ev1 sm cmd) then (True, sm)
      else case compute_full_cmac_segments lib sm [segment (Some [cmd]) 1, segment data data_len] of
        (False, _, _) \<Rightarrow> (False, sm)
      | (True, full_mac, full_mac_len) \<Rightarrow> (True, update_iv_from_full_cmac sm full_mac full_mac_len))"

definition dfc_secure_messaging_update_ev1_command_full ::
  "'x mbedtls \<Rightarrow> DfcSecureMessaging \<Rightarrow> bytes option \<Rightarrow> size_t \<Rightarrow> bool \<times> DfcSecureMessaging" where
  "dfc_secure_messaging_update_ev1_command_full lib sm command command_len =
     (if command = None \<or> command_len = 0 then (False, sm)
      else if sm_cipher sm = DFC_CMD_AUTHENTICATE_LEGACY \<or> \<not> dfc_secure_messaging_applies_ev1 sm (the command ! 0)
      then (True, sm)
      else case compute_full_cmac_segments lib sm [segment command command_len] of
        (False, _, _) \<Rightarrow> (False, sm)
      | (True, full_mac, full_mac_len) \<Rightarrow> (True, update_iv_from_full_cmac sm full_mac full_mac_len))"

definition dfc_secure_messaging_ev1_transmits_command_mac :: "u8 \<Rightarrow> bool" where
  "dfc_secure_messaging_ev1_transmits_command_mac cmd \<longleftrightarrow>
     dfc_file_command_base cmd \<in> {DFC_CMD_WRITE_DATA, DFC_CMD_WRITE_RECORD, DFC_CMD_UPDATE_RECORD, DFC_CMD_CREDIT,
       DFC_CMD_DEBIT, DFC_CMD_LIMITED_CREDIT, DFC_CMD_GET_FILE_COUNTERS, DFC_CMD_COMMIT_READER_ID}"

text \<open>A length of \<open>SIZE_MAX\<close> is the failure of the functions below.\<close>

definition dfc_secure_messaging_verify_ev1_transmitted_command_mac ::
  "'x mbedtls \<Rightarrow> DfcSecureMessaging \<Rightarrow> u8 \<Rightarrow> bytes \<Rightarrow> size_t \<Rightarrow> size_t \<times> DfcSecureMessaging" where
  "dfc_secure_messaging_verify_ev1_transmitted_command_mac lib sm cmd data data_len =
     (if data_len < 8 then (SIZE_MAX, sm)
      else
        let plain_len = data_len - 8 in
        case compute_full_cmac_segments lib sm [segment (Some [cmd]) 1, segment (Some data) plain_len] of
          (False, _, _) \<Rightarrow> (SIZE_MAX, sm)
        | (True, full_mac, full_mac_len) \<Rightarrow>
            if \<not> dfc_ct_equal full_mac (drop plain_len data) (min 8 full_mac_len) then (SIZE_MAX, sm)
            else (plain_len, update_iv_from_full_cmac sm full_mac full_mac_len))"

definition dfc_secure_messaging_verify_ev1_transmitted_command_mac_full ::
  "'x mbedtls \<Rightarrow> DfcSecureMessaging \<Rightarrow> bytes option \<Rightarrow> size_t \<Rightarrow> size_t \<times> DfcSecureMessaging" where
  "dfc_secure_messaging_verify_ev1_transmitted_command_mac_full lib sm command command_len =
     (if command = None \<or> command_len < 1 + DFC_WIRE_MAC_LENGTH then (SIZE_MAX, sm)
      else
        let clear_len = command_len - DFC_WIRE_MAC_LENGTH in
        case compute_full_cmac_segments lib sm [segment command clear_len] of
          (False, _, _) \<Rightarrow> (SIZE_MAX, sm)
        | (True, full_mac, full_mac_len) \<Rightarrow>
            if full_mac_len < DFC_WIRE_MAC_LENGTH \<or>
               \<not> dfc_ct_equal full_mac (drop clear_len (the command)) DFC_WIRE_MAC_LENGTH then (SIZE_MAX, sm)
            else (clear_len - 1, update_iv_from_full_cmac sm full_mac full_mac_len))"

definition dfc_secure_messaging_command_payload_length ::
  "DfcSecureMessaging option \<Rightarrow> bool \<Rightarrow> u8 \<Rightarrow> size_t \<Rightarrow> size_t" where
  "dfc_secure_messaging_command_payload_length sm ev2 comm_mode clear_len =
     (if (comm_mode \<noteq> DFC_COMM_PLAIN \<and> comm_mode \<noteq> DFC_COMM_MAC \<and> comm_mode \<noteq> DFC_COMM_ENCIPHERED) \<or>
         (ev2 \<and> sm \<noteq> None) then SIZE_MAX
      else if comm_mode = DFC_COMM_PLAIN then clear_len
      else if \<not> ev2 \<and> sm = None then SIZE_MAX
      else
        let (overhead, block) =
              (if comm_mode = DFC_COMM_MAC then
                 (if ev2 \<or> sm_cipher (the sm) \<noteq> DFC_CMD_AUTHENTICATE_LEGACY then DFC_WIRE_MAC_LENGTH
                  else DFC_SM_LEGACY_MAC_LENGTH, 1)
               else if ev2 then (1, DFC_AES_KEY_LENGTH)
               else (if sm_cipher (the sm) = DFC_CMD_AUTHENTICATE_LEGACY then 2 else 4,
                     if sm_cipher (the sm) = DFC_CMD_AUTHENTICATE_AES then DFC_AES_KEY_LENGTH else DFC_SM_LEGACY_BLOCK_SIZE));
            trailer = (if ev2 \<and> comm_mode = DFC_COMM_ENCIPHERED then DFC_WIRE_MAC_LENGTH else 0);
            maximum_extra = overhead + block - 1 + trailer
        in if clear_len > SIZE_MAX - maximum_extra then SIZE_MAX
           else (clear_len + overhead + block - 1) div block * block + trailer)"

definition dfc_secure_messaging_generate_ev1_response_mac ::
  "'x mbedtls \<Rightarrow> DfcSecureMessaging \<Rightarrow> u8 \<Rightarrow> bytes option \<Rightarrow> size_t \<Rightarrow> (bytes \<times> DfcSecureMessaging) option" where
  "dfc_secure_messaging_generate_ev1_response_mac lib sm status plain plain_len =
     (if \<not> session_is_valid sm \<or> sm_cipher sm = DFC_CMD_AUTHENTICATE_LEGACY \<or> (plain_len \<noteq> 0 \<and> plain = None) then None
      else case compute_full_cmac_segments lib sm [segment plain plain_len, segment (Some [status]) 1] of
        (False, _, _) \<Rightarrow> None
      | (True, full_mac, full_mac_len) \<Rightarrow>
          if full_mac_len < DFC_WIRE_MAC_LENGTH then None
          else Some (take DFC_WIRE_MAC_LENGTH full_mac, update_iv_from_full_cmac sm full_mac full_mac_len))"

definition dfc_secure_messaging_generate_ev1_response ::
  "'x mbedtls \<Rightarrow> DfcSecureMessaging \<Rightarrow> u8 \<Rightarrow> bytes option \<Rightarrow> size_t \<Rightarrow> bytes option \<Rightarrow> size_t \<Rightarrow>
   size_t \<times> DfcSecureMessaging \<times> bytes option" where
  "dfc_secure_messaging_generate_ev1_response lib sm status plain plain_len out out_capacity =
     (if plain_len > SIZE_MAX - DFC_WIRE_MAC_LENGTH \<or> \<not> output_fits out out_capacity (plain_len + DFC_WIRE_MAC_LENGTH) \<or>
         (plain_len \<noteq> 0 \<and> plain = None) then (0, sm, out)
      else case dfc_secure_messaging_generate_ev1_response_mac lib sm status plain plain_len of
        None \<Rightarrow> (0, sm, out)
      | Some (mac, sm') \<Rightarrow>
          (plain_len + DFC_WIRE_MAC_LENGTH, sm',
           Some (mem_write plain_len mac (mem_write 0 (opt_octets plain plain_len) (the out)))))"

definition dfc_secure_messaging_generate_ev1_response_in_place ::
  "'x mbedtls \<Rightarrow> DfcSecureMessaging \<Rightarrow> u8 \<Rightarrow> bytes option \<Rightarrow> size_t \<Rightarrow> size_t \<Rightarrow>
   size_t \<times> DfcSecureMessaging \<times> bytes option" where
  "dfc_secure_messaging_generate_ev1_response_in_place lib sm status buffer plain_len capacity =
     (if \<not> session_is_valid sm \<or> sm_cipher sm = DFC_CMD_AUTHENTICATE_LEGACY \<or> buffer = None \<or>
         plain_len > capacity \<or> DFC_WIRE_MAC_LENGTH > capacity - plain_len then (0, sm, buffer)
      else case dfc_secure_messaging_generate_ev1_response_mac lib sm status buffer plain_len of
        None \<Rightarrow> (0, sm, buffer)
      | Some (mac, sm') \<Rightarrow> (plain_len + DFC_WIRE_MAC_LENGTH, sm', Some (mem_write plain_len mac (the buffer))))"

definition dfc_secure_messaging_unwrap_ev1_response ::
  "'x mbedtls \<Rightarrow> DfcSecureMessaging \<Rightarrow> u8 \<Rightarrow> bytes option \<Rightarrow> size_t \<Rightarrow> bytes option \<Rightarrow> size_t \<Rightarrow>
   size_t \<times> DfcSecureMessaging \<times> bytes option" where
  "dfc_secure_messaging_unwrap_ev1_response lib sm status wrapped wrapped_len out out_capacity =
     (if \<not> session_is_valid sm \<or> sm_cipher sm = DFC_CMD_AUTHENTICATE_LEGACY \<or> (wrapped_len \<noteq> 0 \<and> wrapped = None)
      then (SIZE_MAX, sm, out)
      else
        let expected_mac_len = (if sm_cipher sm = DFC_CMD_AUTHENTICATE_AES then 16 else 8);
            truncated_len = min 8 expected_mac_len
        in if wrapped_len < truncated_len then (SIZE_MAX, sm, out)
           else
             let plain_len = wrapped_len - truncated_len in
             if \<not> output_fits out out_capacity plain_len then (SIZE_MAX, sm, out)
             else case compute_full_cmac_segments lib sm [segment wrapped plain_len, segment (Some [status]) 1] of
               (False, _, _) \<Rightarrow> (SIZE_MAX, sm, out)
             | (True, full_mac, full_mac_len) \<Rightarrow>
                 if \<not> dfc_ct_equal full_mac (drop plain_len (the wrapped)) (min 8 full_mac_len) then (SIZE_MAX, sm, out)
                 else (plain_len, update_iv_from_full_cmac sm full_mac full_mac_len,
                       if plain_len \<noteq> 0 then map_option (mem_write 0 (opt_octets wrapped plain_len)) out else out))"

subsection \<open>Enciphered payloads\<close>

definition legacy_cbc_forward ::
  "'x mbedtls \<Rightarrow> DfcSecureMessaging \<Rightarrow> bool \<Rightarrow> bytes option \<Rightarrow> size_t \<Rightarrow> bytes \<Rightarrow> bool \<times> bytes" where
  "legacy_cbc_forward lib sm encrypt inp len out =
     (if len > DFC_SM_MAX_CRYPTO_SIZE then (False, out)
      else dfc_crypto_des_chain lib encrypt DfcCryptoDesChainForward (Some (sm_session_key sm)) (unat (sm_session_key_len sm))
        (replicate 8 0) inp out len)"

definition legacy_cbc_reverse ::
  "'x mbedtls \<Rightarrow> DfcSecureMessaging \<Rightarrow> bool \<Rightarrow> bytes option \<Rightarrow> size_t \<Rightarrow> bytes \<Rightarrow> bool \<times> bytes" where
  "legacy_cbc_reverse lib sm encrypt inp len out =
     (if len > DFC_SM_MAX_CRYPTO_SIZE then (False, out)
      else dfc_crypto_des_chain lib encrypt DfcCryptoDesChainReverse (Some (sm_session_key sm)) (unat (sm_session_key_len sm))
        (replicate 8 0) inp out len)"

definition sm_block_size :: "DfcSecureMessaging \<Rightarrow> size_t" where
  "sm_block_size sm = (if sm_cipher sm = DFC_CMD_AUTHENTICATE_AES then DFC_AES_KEY_LENGTH else DFC_SM_LEGACY_BLOCK_SIZE)"

definition sm_crc_len :: "DfcSecureMessaging \<Rightarrow> size_t" where
  "sm_crc_len sm = (if sm_cipher sm = DFC_CMD_AUTHENTICATE_LEGACY then 2 else 4)"

text \<open>The checksum octets of a payload in the order the code stores them.\<close>

definition sm_crc_octets :: "DfcSecureMessaging \<Rightarrow> bytes \<Rightarrow> bytes \<Rightarrow> bytes \<Rightarrow> bytes" where
  "sm_crc_octets sm prefix plain suffix =
     (if sm_cipher sm = DFC_CMD_AUTHENTICATE_LEGACY then
        let crc = (ucast (dfc_crc16_iso14443 plain) :: u32)
        in [ucast (crc AND 0xFF), ucast (drop_bit 8 crc AND 0xFF)]
      else
        let crc = dfc_crc32_extend (dfc_crc32_extend (dfc_crc32_extend 0xFFFFFFFF prefix) plain) suffix
        in [ucast (crc AND 0xFF), ucast (drop_bit 8 crc AND 0xFF), ucast (drop_bit 16 crc AND 0xFF),
            ucast (drop_bit 24 crc AND 0xFF)])"

text \<open>
  The cipher of a session, forwards and backwards, in the buffer \<open>o\<close>: the result is the buffer
  with its first \<open>len\<close> octets replaced and the next chaining value, \<^term>\<open>None\<close> on a failure. The
  CBC calls update the 16-octet chaining value in place, DES its first eight octets.
\<close>

definition sm_encrypt ::
  "'x mbedtls \<Rightarrow> DfcSecureMessaging \<Rightarrow> size_t \<Rightarrow> bytes \<Rightarrow> bytes \<Rightarrow> (bytes \<times> bytes) option" where
  "sm_encrypt lib sm len next_iv buf =
     (let key = Some (sm_session_key sm); key_len = unat (sm_session_key_len sm) in
      if sm_cipher sm = DFC_CMD_AUTHENTICATE_AES then
        map_option (\<lambda>(y, iv). (mem_write 0 y buf, iv)) (dfc_worker_aes_cbc_encrypt lib key key_len next_iv (take len buf))
      else if sm_cipher sm = DFC_CMD_AUTHENTICATE_LEGACY then
        (case legacy_cbc_forward lib sm (\<not> sm_pcd sm) None len buf of
           (True, buf') \<Rightarrow> Some (buf', next_iv)
         | (False, _) \<Rightarrow> None)
      else
        map_option (\<lambda>(y, iv). (mem_write 0 y buf, mem_write 0 iv next_iv))
          (dfc_worker_des_cbc_encrypt lib key key_len (take DFC_SM_LEGACY_BLOCK_SIZE next_iv) (take len buf)))"

definition sm_decrypt ::
  "'x mbedtls \<Rightarrow> DfcSecureMessaging \<Rightarrow> bytes \<Rightarrow> size_t \<Rightarrow> bytes \<Rightarrow> bytes \<Rightarrow> (bytes \<times> bytes) option" where
  "sm_decrypt lib sm wrapped len next_iv buf =
     (let key = Some (sm_session_key sm); key_len = unat (sm_session_key_len sm) in
      if sm_cipher sm = DFC_CMD_AUTHENTICATE_AES then
        map_option (\<lambda>(y, iv). (mem_write 0 y buf, iv)) (dfc_worker_aes_cbc_decrypt lib key key_len next_iv (take len wrapped))
      else if sm_cipher sm = DFC_CMD_AUTHENTICATE_LEGACY then
        (case legacy_cbc_reverse lib sm (\<not> sm_pcd sm) (Some wrapped) len buf of
           (True, buf') \<Rightarrow> Some (buf', next_iv)
         | (False, _) \<Rightarrow> None)
      else
        map_option (\<lambda>(y, iv). (mem_write 0 y buf, mem_write 0 iv next_iv))
          (dfc_worker_des_cbc_decrypt lib key key_len (take DFC_SM_LEGACY_BLOCK_SIZE next_iv) (take len wrapped)))"

text \<open>The chaining value an operation starts from.\<close>

definition sm_start_iv :: "DfcSecureMessaging \<Rightarrow> bytes" where
  "sm_start_iv sm = (if sm_cipher sm \<noteq> DFC_CMD_AUTHENTICATE_LEGACY then sm_iv sm else replicate 16 0)"

definition sm_store_iv :: "DfcSecureMessaging \<Rightarrow> bytes \<Rightarrow> DfcSecureMessaging" where
  "sm_store_iv sm next_iv = (if sm_cipher sm \<noteq> DFC_CMD_AUTHENTICATE_LEGACY then sm\<lparr>sm_iv := next_iv\<rparr> else sm)"

text \<open>A payload is at most \<^const>\<open>DFC_MAX_FILE_DATA\<close> octets, so the code's check for overflow by the marker's block cannot fire.\<close>

definition sm_padded_len :: "DfcSecureMessaging \<Rightarrow> size_t \<Rightarrow> bool \<Rightarrow> size_t" where
  "sm_padded_len sm with_crc_len response_padding =
     (let block_size = sm_block_size sm;
          padded_len = (with_crc_len + block_size - 1) div block_size * block_size;
          padded_len = (if padded_len = 0 then block_size else padded_len)
      in if response_padding \<and> padded_len = with_crc_len then padded_len + block_size else padded_len)"

text \<open>The output buffer with payload, checksum and padding in place, before it is enciphered.\<close>

definition sm_fill :: "bytes \<Rightarrow> size_t \<Rightarrow> bytes \<Rightarrow> size_t \<Rightarrow> size_t \<Rightarrow> bool \<Rightarrow> bytes \<Rightarrow> bytes" where
  "sm_fill p plain_len crc with_crc_len padded_len response_padding out =
     (let buf = mem_write plain_len crc (mem_write 0 p out) in
      if response_padding
      then mem_set (with_crc_len + 1) 0 (padded_len - with_crc_len - 1) (buf[with_crc_len := DFC_SM_LENGTH_MARKER])
      else if padded_len > with_crc_len then mem_set with_crc_len 0 (padded_len - with_crc_len) buf else buf)"

definition enciphered_encode ::
  "'x mbedtls \<Rightarrow> DfcSecureMessaging \<Rightarrow> bytes option \<Rightarrow> size_t \<Rightarrow> bytes option \<Rightarrow> size_t \<Rightarrow> bytes option \<Rightarrow> size_t \<Rightarrow> bool \<Rightarrow>
   bytes option \<Rightarrow> size_t \<Rightarrow> size_t \<times> DfcSecureMessaging \<times> bytes option" where
  "enciphered_encode lib sm crc_prefix crc_prefix_len plain plain_len crc_suffix crc_suffix_len response_padding out out_capacity =
     (if \<not> session_is_valid sm \<or> (plain_len \<noteq> 0 \<and> plain = None) \<or> (crc_prefix_len \<noteq> 0 \<and> crc_prefix = None) \<or>
         (crc_suffix_len \<noteq> 0 \<and> crc_suffix = None) \<or> plain_len > DFC_MAX_FILE_DATA then (0, sm, out)
      else
        let block_size = sm_block_size sm; crc_len = sm_crc_len sm in
        if plain_len > SIZE_MAX - crc_len then (0, sm, out)
        else
          let with_crc_len = plain_len + crc_len in
          if with_crc_len > SIZE_MAX - (block_size - 1) then (0, sm, out)
          else
            let padded_len = sm_padded_len sm with_crc_len response_padding in
            if padded_len > DFC_SM_MAX_CRYPTO_SIZE then (0, sm, out)
            else if \<not> output_fits out out_capacity padded_len then (0, sm, out)
            else
              let p = opt_octets plain plain_len;
                  crc = sm_crc_octets sm (opt_octets crc_prefix crc_prefix_len) p (opt_octets crc_suffix crc_suffix_len);
                  buf = sm_fill p plain_len crc with_crc_len padded_len response_padding (the out)
              in case sm_encrypt lib sm padded_len (sm_start_iv sm) buf of
                   None \<Rightarrow> (0, sm, Some (mem_set 0 0 padded_len buf))
                 | Some (buf', next_iv) \<Rightarrow> (padded_len, sm_store_iv sm next_iv, Some buf'))"

text \<open>
  The search for the end of the payload, from \<open>candidate\<close> on: the first boundary whose checksum
  agrees, the running checksum being that of the octets before it.
\<close>

function legacy_crc_search :: "bytes \<Rightarrow> size_t \<Rightarrow> size_t \<Rightarrow> u16 \<Rightarrow> size_t option" where
  "legacy_crc_search out wrapped_len candidate expected_crc =
     (if candidate + 2 \<le> wrapped_len then
        let actual_crc = (ucast (out ! candidate) :: u16) OR push_bit 8 (ucast (out ! (candidate + 1)))
        in if actual_crc = expected_crc then Some candidate
           else legacy_crc_search out wrapped_len (candidate + 1) (dfc_crc16_iso14443_extend expected_crc [out ! candidate])
      else None)"
  by pat_completeness auto
termination
  by (relation "measure (\<lambda>(out, wrapped_len, candidate, crc). wrapped_len - candidate)") auto

function ev1_crc_search :: "bytes \<Rightarrow> size_t \<Rightarrow> bytes \<Rightarrow> size_t \<Rightarrow> u32 \<Rightarrow> size_t option" where
  "ev1_crc_search out wrapped_len suffix clear_len running_crc =
     (if clear_len \<le> wrapped_len - 4 \<and> 4 \<le> wrapped_len then
        let expected_crc = dfc_crc32_extend running_crc suffix;
            actual_crc = (ucast (out ! clear_len) :: u32) OR push_bit 8 (ucast (out ! (clear_len + 1))) OR
              push_bit 16 (ucast (out ! (clear_len + 2))) OR push_bit 24 (ucast (out ! (clear_len + 3)))
        in if actual_crc = expected_crc then Some clear_len
           else ev1_crc_search out wrapped_len suffix (clear_len + 1) (dfc_crc32_extend running_crc [out ! clear_len])
      else None)"
  by pat_completeness auto
termination
  by (relation "measure (\<lambda>(out, wrapped_len, suffix, clear_len, crc). Suc wrapped_len - clear_len)") auto

declare legacy_crc_search.simps [simp del] ev1_crc_search.simps [simp del]

definition sm_crc_search :: "DfcSecureMessaging \<Rightarrow> bytes \<Rightarrow> bytes \<Rightarrow> bytes \<Rightarrow> size_t \<Rightarrow> size_t option" where
  "sm_crc_search sm prefix suffix out wrapped_len =
     (let first_candidate = first_padded_clear_length out wrapped_len (sm_crc_len sm) in
      if sm_cipher sm = DFC_CMD_AUTHENTICATE_LEGACY then
        legacy_crc_search out wrapped_len first_candidate (dfc_crc16_iso14443_extend 0x6363 (take first_candidate out))
      else
        ev1_crc_search out wrapped_len suffix first_candidate
          (dfc_crc32_extend (dfc_crc32_extend 0xFFFFFFFF prefix) (take first_candidate out)))"

definition enciphered_decode ::
  "'x mbedtls \<Rightarrow> DfcSecureMessaging \<Rightarrow> bytes option \<Rightarrow> size_t \<Rightarrow> bytes option \<Rightarrow> size_t \<Rightarrow> bytes option \<Rightarrow> size_t \<Rightarrow>
   bytes option \<Rightarrow> size_t \<Rightarrow> size_t \<times> DfcSecureMessaging \<times> bytes option" where
  "enciphered_decode lib sm crc_prefix crc_prefix_len crc_suffix crc_suffix_len wrapped wrapped_len out out_capacity =
     (if \<not> session_is_valid sm \<or> wrapped = None \<or> wrapped_len = 0 \<or> wrapped_len > DFC_SM_MAX_CRYPTO_SIZE \<or>
         (crc_prefix_len \<noteq> 0 \<and> crc_prefix = None) \<or> (crc_suffix_len \<noteq> 0 \<and> crc_suffix = None) \<or>
         \<not> output_fits out out_capacity wrapped_len then (SIZE_MAX, sm, out)
      else
        let buf = the out; wiped = (\<lambda>b. (SIZE_MAX, sm, Some (mem_set 0 0 wrapped_len b))) in
        if wrapped_len mod sm_block_size sm \<noteq> 0 then wiped buf
        else case sm_decrypt lib sm (the wrapped) wrapped_len (sm_start_iv sm) buf of
          None \<Rightarrow> wiped buf
        | Some (buf', next_iv) \<Rightarrow>
            if wrapped_len < sm_crc_len sm then wiped buf'
            else (case sm_crc_search sm (opt_octets crc_prefix crc_prefix_len) (opt_octets crc_suffix crc_suffix_len)
                    buf' wrapped_len of
                    None \<Rightarrow> wiped buf'
                  | Some data_len \<Rightarrow> (data_len, sm_store_iv sm next_iv,
                      Some (if data_len < wrapped_len then mem_set data_len 0 (wrapped_len - data_len) buf' else buf'))))"

subsection \<open>The wrappers of both parties\<close>

definition d40_session_is_valid :: "DfcSecureMessaging \<Rightarrow> bool" where
  "d40_session_is_valid sm \<longleftrightarrow> session_is_valid sm \<and> sm_cipher sm = DFC_CMD_AUTHENTICATE_LEGACY"

definition dfc_secure_messaging_wrap_d40_command_mac ::
  "'x mbedtls \<Rightarrow> DfcSecureMessaging \<Rightarrow> bytes option \<Rightarrow> size_t \<Rightarrow> bytes option \<Rightarrow> size_t \<Rightarrow> size_t \<times> bytes option" where
  "dfc_secure_messaging_wrap_d40_command_mac lib sm plain plain_len out out_capacity =
     (if \<not> d40_session_is_valid sm \<or> (plain_len \<noteq> 0 \<and> plain = None) \<or> plain_len > SIZE_MAX - DFC_SM_LEGACY_MAC_LENGTH \<or>
         \<not> output_fits out out_capacity (plain_len + DFC_SM_LEGACY_MAC_LENGTH) then (0, out)
      else case d40_mac_segments lib sm [segment plain plain_len] of
        (False, _) \<Rightarrow> (0, out)
      | (True, mac) \<Rightarrow> (plain_len + DFC_SM_LEGACY_MAC_LENGTH,
          Some (mem_write plain_len mac (mem_write 0 (opt_octets plain plain_len) (the out)))))"

text \<open>The cleared length behind \<^verbatim>\<open>out_len\<close> is part of the result.\<close>

definition d40_mac_verify ::
  "'x mbedtls \<Rightarrow> DfcSecureMessaging \<Rightarrow> bytes option \<Rightarrow> size_t \<Rightarrow> bytes option \<Rightarrow> size_t \<Rightarrow> bool \<times> size_t \<times> bytes option" where
  "d40_mac_verify lib sm wrapped wrapped_len out out_capacity =
     (if \<not> d40_session_is_valid sm \<or> (wrapped_len \<noteq> 0 \<and> wrapped = None) \<or> wrapped_len < DFC_SM_LEGACY_MAC_LENGTH
      then (False, 0, out)
      else
        let data_len = wrapped_len - DFC_SM_LEGACY_MAC_LENGTH in
        if \<not> output_fits out out_capacity data_len then (False, 0, out)
        else case d40_mac_segments lib sm [segment wrapped data_len] of
          (False, _) \<Rightarrow> (False, 0, out)
        | (True, mac) \<Rightarrow>
            if \<not> dfc_ct_equal mac (drop data_len (the wrapped)) DFC_SM_LEGACY_MAC_LENGTH then (False, 0, out)
            else (True, data_len, if data_len \<noteq> 0 then map_option (mem_write 0 (opt_octets wrapped data_len)) out else out))"

definition dfc_secure_messaging_verify_d40_command_mac ::
  "'x mbedtls \<Rightarrow> DfcSecureMessaging \<Rightarrow> bytes option \<Rightarrow> size_t \<Rightarrow> bytes option \<Rightarrow> size_t \<Rightarrow> bool \<times> size_t \<times> bytes option" where
  "dfc_secure_messaging_verify_d40_command_mac = d40_mac_verify"

definition dfc_secure_messaging_generate_d40_response_mac ::
  "'x mbedtls \<Rightarrow> DfcSecureMessaging \<Rightarrow> bytes option \<Rightarrow> size_t \<Rightarrow> bytes option \<Rightarrow> size_t \<Rightarrow> size_t \<times> bytes option" where
  "dfc_secure_messaging_generate_d40_response_mac = dfc_secure_messaging_wrap_d40_command_mac"

definition dfc_secure_messaging_unwrap_d40_response_mac ::
  "'x mbedtls \<Rightarrow> DfcSecureMessaging \<Rightarrow> bytes option \<Rightarrow> size_t \<Rightarrow> bytes option \<Rightarrow> size_t \<Rightarrow> bool \<times> size_t \<times> bytes option" where
  "dfc_secure_messaging_unwrap_d40_response_mac = d40_mac_verify"

definition dfc_secure_messaging_wrap ::
  "'x mbedtls \<Rightarrow> DfcSecureMessaging \<Rightarrow> u8 \<Rightarrow> bytes option \<Rightarrow> size_t \<Rightarrow> bytes option \<Rightarrow> size_t \<Rightarrow> bytes option \<Rightarrow> size_t \<Rightarrow>
   size_t \<times> DfcSecureMessaging \<times> bytes option" where
  "dfc_secure_messaging_wrap lib sm comm_mode header header_len plain plain_len out out_capacity =
     (if \<not> session_is_valid sm \<or> (header_len \<noteq> 0 \<and> header = None) \<or> (plain_len \<noteq> 0 \<and> plain = None) then (0, sm, out)
      else if comm_mode = DFC_COMM_PLAIN then
        if \<not> output_fits out out_capacity plain_len then (0, sm, out)
        else (plain_len, sm, if plain_len \<noteq> 0 then map_option (mem_write 0 (opt_octets plain plain_len)) out else out)
      else if comm_mode = DFC_COMM_MAC then (0, sm, out)
      else if comm_mode \<noteq> DFC_COMM_ENCIPHERED then (0, sm, out)
      else enciphered_encode lib sm header header_len plain plain_len None 0 False out out_capacity)"

definition dfc_secure_messaging_unwrap ::
  "'x mbedtls \<Rightarrow> DfcSecureMessaging \<Rightarrow> u8 \<Rightarrow> u8 \<Rightarrow> bytes option \<Rightarrow> size_t \<Rightarrow> bytes option \<Rightarrow> size_t \<Rightarrow>
   bool \<times> size_t \<times> DfcSecureMessaging \<times> bytes option" where
  "dfc_secure_messaging_unwrap lib sm comm_mode status wrapped wrapped_len out out_capacity =
     (if \<not> session_is_valid sm \<or> (wrapped_len \<noteq> 0 \<and> wrapped = None) then (False, 0, sm, out)
      else if comm_mode = DFC_COMM_PLAIN then
        if \<not> output_fits out out_capacity wrapped_len then (False, 0, sm, out)
        else (True, wrapped_len, sm, if wrapped_len \<noteq> 0 then map_option (mem_write 0 (opt_octets wrapped wrapped_len)) out else out)
      else if comm_mode = DFC_COMM_MAC then (False, 0, sm, out)
      else if comm_mode \<noteq> DFC_COMM_ENCIPHERED then (False, 0, sm, out)
      else case enciphered_decode lib sm None 0 (Some [status]) 1 wrapped wrapped_len out out_capacity of
        (clear_len, sm', out') \<Rightarrow> if clear_len = SIZE_MAX then (False, 0, sm', out') else (True, clear_len, sm', out'))"

definition dfc_secure_messaging_generate_response_with_length_marker ::
  "'x mbedtls \<Rightarrow> DfcSecureMessaging \<Rightarrow> u8 \<Rightarrow> u8 \<Rightarrow> bytes option \<Rightarrow> size_t \<Rightarrow> bytes option \<Rightarrow> size_t \<Rightarrow> bool \<Rightarrow>
   size_t \<times> DfcSecureMessaging \<times> bytes option" where
  "dfc_secure_messaging_generate_response_with_length_marker lib sm comm_mode status plain plain_len out out_capacity length_unknown =
     (if \<not> session_is_valid sm \<or> (plain_len \<noteq> 0 \<and> plain = None) then (0, sm, out)
      else if comm_mode = DFC_COMM_PLAIN then
        if \<not> output_fits out out_capacity plain_len then (0, sm, out)
        else (plain_len, sm, if plain_len \<noteq> 0 then map_option (mem_write 0 (opt_octets plain plain_len)) out else out)
      else if comm_mode = DFC_COMM_MAC then (0, sm, out)
      else if comm_mode \<noteq> DFC_COMM_ENCIPHERED then (0, sm, out)
      else enciphered_encode lib sm None 0 plain plain_len (Some [status]) 1 length_unknown out out_capacity)"

definition dfc_secure_messaging_generate_response ::
  "'x mbedtls \<Rightarrow> DfcSecureMessaging \<Rightarrow> u8 \<Rightarrow> u8 \<Rightarrow> bytes option \<Rightarrow> size_t \<Rightarrow> bytes option \<Rightarrow> size_t \<Rightarrow>
   size_t \<times> DfcSecureMessaging \<times> bytes option" where
  "dfc_secure_messaging_generate_response lib sm comm_mode status plain plain_len out out_capacity =
     dfc_secure_messaging_generate_response_with_length_marker lib sm comm_mode status plain plain_len out out_capacity False"

definition dfc_secure_messaging_verify_command ::
  "'x mbedtls \<Rightarrow> DfcSecureMessaging \<Rightarrow> u8 \<Rightarrow> bytes option \<Rightarrow> size_t \<Rightarrow> bytes option \<Rightarrow> size_t \<Rightarrow> bytes option \<Rightarrow> size_t \<Rightarrow>
   size_t \<times> DfcSecureMessaging \<times> bytes option" where
  "dfc_secure_messaging_verify_command lib sm comm_mode header header_len wrapped wrapped_len out out_capacity =
     (if \<not> session_is_valid sm \<or> (header_len \<noteq> 0 \<and> header = None) \<or> (wrapped_len \<noteq> 0 \<and> wrapped = None) then (0, sm, out)
      else if comm_mode = DFC_COMM_PLAIN then
        if \<not> output_fits out out_capacity wrapped_len then (0, sm, out)
        else (wrapped_len, sm, if wrapped_len \<noteq> 0 then map_option (mem_write 0 (opt_octets wrapped wrapped_len)) out else out)
      else if comm_mode = DFC_COMM_MAC then (0, sm, out)
      else if comm_mode \<noteq> DFC_COMM_ENCIPHERED then (0, sm, out)
      else case enciphered_decode lib sm header header_len None 0 wrapped wrapped_len out out_capacity of
        (clear_len, sm', out') \<Rightarrow> (if clear_len = SIZE_MAX then 0 else clear_len, sm', out'))"

subsection \<open>The D40 MAC as a CBC-MAC\<close>

definition zero_padded :: "bytes \<Rightarrow> bytes" where
  "zero_padded m = m @ replicate ((8 - length m mod 8) mod 8) 0"

definition d40_mac_reference :: "'x mbedtls \<Rightarrow> DfcSecureMessaging \<Rightarrow> bytes \<Rightarrow> bytes option" where
  "d40_mac_reference lib sm m =
     (if m = [] then Some (replicate 4 0)
      else case dfc_crypto_des_block_init lib True (Some (sm_session_key sm)) (unat (sm_session_key_len sm)) of
        None \<Rightarrow> None
      | Some cipher \<Rightarrow> map_option (take 4)
          (cbc_mac (dfc_crypto_des_block_crypt lib (Some cipher)) (replicate 8 0) (chunks 8 (zero_padded m))))"

definition d40_state :: "(bytes \<Rightarrow> bytes option) \<Rightarrow> bytes \<Rightarrow> bytes \<times> bytes \<times> bytes \<times> size_t \<Rightarrow> bool" where
  "d40_state enc m st \<longleftrightarrow> (case st of (iv, block, encrypted, pl) \<Rightarrow>
     \<exists>h t. m = h @ t \<and> 8 dvd length h \<and> length t = pl \<and> pl < 8 \<and> block = t @ replicate (8 - pl) 0 \<and>
       cbc_mac enc (replicate 8 0) (chunks 8 h) = Some iv \<and> (h \<noteq> [] \<longrightarrow> encrypted = iv))"

definition d40_breaks :: "(bytes \<Rightarrow> bytes option) \<Rightarrow> bytes \<Rightarrow> bool" where
  "d40_breaks enc m \<longleftrightarrow> (\<exists>h t. m = h @ t \<and> 8 dvd length h \<and> cbc_mac enc (replicate 8 0) (chunks 8 h) = None)"

lemma d40_breaks_append: "d40_breaks enc m \<Longrightarrow> d40_breaks enc (m @ m')"
  by (fastforce simp: d40_breaks_def)

lemma d40_absorb_correct:
  "d40_state (dfc_crypto_des_block_crypt lib cipher) m st \<Longrightarrow>
   case d40_absorb lib cipher data st of
     None \<Rightarrow> d40_breaks (dfc_crypto_des_block_crypt lib cipher) (m @ data)
   | Some st' \<Rightarrow> d40_state (dfc_crypto_des_block_crypt lib cipher) (m @ data) st'"
proof (induction lib cipher data st arbitrary: m rule: d40_absorb.induct)
  case (1 lib cipher data iv block encrypted pl)
  let ?enc = "dfc_crypto_des_block_crypt lib cipher"
  obtain h t where st: "m = h @ t" "8 dvd length h" "length t = pl" "pl < 8" "block = t @ replicate (8 - pl) 0"
    "cbc_mac ?enc (replicate 8 0) (chunks 8 h) = Some iv" "h \<noteq> [] \<longrightarrow> encrypted = iv"
    using "1.prems" by (auto simp: d40_state_def)
  show ?case
  proof (cases "data = []")
    case True
    then show ?thesis using "1.prems" by (simp add: d40_absorb.simps)
  next
    case False
    define k where "k = min (8 - pl) (length data)"
    let ?b = "mem_write pl (take k data) block"
    have k: "k \<le> length data" "k \<le> 8 - pl" "0 < k" using False st(4) by (auto simp: k_def)
    have b: "?b = t @ take k data @ replicate (8 - (pl + k)) 0"
      using st(3,4,5) k by (simp add: mem_write_def min_def)
    have data: "data = take k data @ drop k data" by simp
    note ih = "1.IH" [unfolded DFC_SM_LEGACY_BLOCK_SIZE_def, OF _ k_def refl refl]
    show ?thesis
    proof (cases "pl + k = 8")
      case full: True
      have lb: "length (t @ take k data) = 8" using st(3) full k by simp
      have c: "cbc_mac ?enc (replicate 8 0) (chunks 8 (h @ t @ take k data)) = ?enc (xor_bytes ?b iv)"
        using st(2,6) chunks_block [OF lb, of "[]"] b full
        by (simp add: chunks_append cbc_mac_append xor_bytes_commute [of iv] split: option.split)
      show ?thesis
      proof (cases "?enc (xor_bytes ?b iv)")
        case None
        have "d40_breaks ?enc (m @ data)"
          unfolding d40_breaks_def using None c st(1,2) lb data
          by (intro exI [of _ "h @ t @ take k data"] exI [of _ "drop k data"]) simp
        then show ?thesis
          using None False st(4) full by (subst d40_absorb.simps) (simp add: DFC_SM_LEGACY_BLOCK_SIZE_def k_def [symmetric] Let_def)
      next
        case (Some y)
        have "d40_state ?enc (m @ take k data) (y, replicate 8 0, y, 0)"
          unfolding d40_state_def prod.case
          using c Some st(1,2) lb by (intro exI [of _ "h @ t @ take k data"] exI [of _ "[]"]) simp
        from ih(1) [OF _ full Some this, unfolded append_assoc append_take_drop_id] show ?thesis
          using Some False st(4) full by (subst d40_absorb.simps) (simp add: DFC_SM_LEGACY_BLOCK_SIZE_def k_def [symmetric] Let_def)
      qed
    next
      case False2: False
      have "d40_state ?enc (m @ take k data) (iv, ?b, encrypted, pl + k)"
        unfolding d40_state_def prod.case
        using st k False2 b by (intro exI [of _ h] exI [of _ "t @ take k data"]) auto
      from ih(2) [OF _ False2 this, unfolded append_assoc append_take_drop_id] show ?thesis
        using False st(4) False2 by (subst d40_absorb.simps) (simp add: DFC_SM_LEGACY_BLOCK_SIZE_def k_def [symmetric] Let_def)
    qed
  qed
qed

lemma d40_absorb_segments_correct:
  "d40_state (dfc_crypto_des_block_crypt lib cipher) m st \<Longrightarrow>
   case d40_absorb_segments lib cipher segments st of
     None \<Rightarrow> d40_breaks (dfc_crypto_des_block_crypt lib cipher) (m @ message_of segments)
   | Some st' \<Rightarrow> d40_state (dfc_crypto_des_block_crypt lib cipher) (m @ message_of segments) st'"
proof (induction segments arbitrary: m st)
  case (Cons s segments)
  note step = d40_absorb_correct [OF Cons.prems, of "seg_octets s"]
  show ?case
  proof (cases "d40_absorb lib cipher (seg_octets s) st")
    case None
    then show ?thesis using step d40_breaks_append by (fastforce simp flip: append_assoc)
  next
    case (Some st')
    then show ?thesis using step Cons.IH [of "m @ seg_octets s" st'] by (auto split: option.splits)
  qed
qed simp

lemma d40_segments_total_eq:
  "list_all seg_ok segments \<Longrightarrow> n + length (message_of segments) \<le> SIZE_MAX \<Longrightarrow>
   d40_segments_total segments n = Some (n + length (message_of segments))"
proof (induction segments arbitrary: n)
  case (Cons s segments)
  have "length (seg_octets s) = seg_length s" using Cons.prems(1) by (simp add: seg_octets_length)
  moreover have "seg_length s \<noteq> 0 \<Longrightarrow> seg_data s \<noteq> None" using Cons.prems(1) by (cases "seg_data s") (simp_all add: seg_ok_def)
  ultimately show ?case using Cons by auto
qed simp

lemma d40_mac_eq:
  assumes segs: "list_all seg_ok segments" "length (message_of segments) \<le> SIZE_MAX"
  shows "d40_mac_segments lib sm segments =
    (case d40_mac_reference lib sm (message_of segments) of None \<Rightarrow> (False, replicate 4 0) | Some mac \<Rightarrow> (True, mac))"
proof (cases "message_of segments = [] \<or>
    dfc_crypto_des_block_init lib True (Some (sm_session_key sm)) (unat (sm_session_key_len sm)) = None")
  case True
  then show ?thesis
    using d40_segments_total_eq [OF segs(1), of 0] segs(2)
    by (auto simp: d40_mac_segments_def d40_mac_reference_def DFC_SM_LEGACY_MAC_LENGTH_def Let_def simp del: concat_eq_Nil_conv)
next
  case False
  let ?m = "message_of segments" and ?z = "replicate 8 0 :: bytes"
  obtain cipher where c: "dfc_crypto_des_block_init lib True (Some (sm_session_key sm)) (unat (sm_session_key_len sm)) = Some cipher"
    using False by auto
  let ?enc = "dfc_crypto_des_block_crypt lib (Some cipher)"
  have st0: "d40_state ?enc [] (?z, ?z, ?z, 0)" by (simp add: d40_state_def)
  have total: "d40_segments_total segments 0 = Some (length ?m)" using d40_segments_total_eq [OF segs(1), of 0] segs(2) by simp
  have ne: "length ?m \<noteq> 0" using False by (simp del: concat_eq_Nil_conv)
  note abs = d40_absorb_segments_correct [OF st0, of segments]
  have shape: "d40_mac_reference lib sm ?m = map_option (take 4) (cbc_mac ?enc ?z (chunks 8 (zero_padded ?m)))"
    using False c by (simp add: d40_mac_reference_def del: concat_eq_Nil_conv)
  show ?thesis
  proof (cases "d40_absorb_segments lib (Some cipher) segments (?z, ?z, ?z, 0)")
    case None
    then obtain h t where ht: "?m = h @ t" "8 dvd length h" "cbc_mac ?enc ?z (chunks 8 h) = None"
      using abs by (auto simp: d40_breaks_def)
    then have "cbc_mac ?enc ?z (chunks 8 (zero_padded ?m)) = None"
      by (simp add: zero_padded_def chunks_append cbc_mac_append)
    then show ?thesis
      using None c total ne shape
      by (simp add: d40_mac_segments_def Let_def DFC_SM_LEGACY_BLOCK_SIZE_def DFC_SM_LEGACY_MAC_LENGTH_def)
  next
    case (Some st)
    obtain iv block encrypted pl where st: "st = (iv, block, encrypted, pl)" by (cases st)
    obtain h t where ht: "?m = h @ t" "8 dvd length h" "length t = pl" "pl < 8" "block = t @ replicate (8 - pl) 0"
      "cbc_mac ?enc ?z (chunks 8 h) = Some iv" "h \<noteq> [] \<longrightarrow> encrypted = iv"
      using abs Some st by (auto simp: d40_state_def)
    have md: "length ?m mod 8 = pl" using ht(1-4) by (auto simp: mod_add_left_eq elim!: dvdE)
    have "cbc_mac ?enc ?z (chunks 8 (zero_padded ?m)) = (if pl = 0 then Some encrypted else ?enc (xor_bytes block iv))"
    proof (cases "pl = 0")
      case True
      then show ?thesis using ht md ne by (simp add: zero_padded_def)
    next
      case False
      then have "zero_padded ?m = h @ block" using ht md by (simp add: zero_padded_def)
      moreover have "chunks 8 block = [block]" using ht(3-5) chunks_block [of block 8 "[]"] by simp
      ultimately show ?thesis
        using ht False by (simp add: chunks_append cbc_mac_append xor_bytes_commute [of iv] split: option.split)
    qed
    then show ?thesis
      using Some st c total ne shape
      by (simp add: d40_mac_segments_def Let_def DFC_SM_LEGACY_BLOCK_SIZE_def DFC_SM_LEGACY_MAC_LENGTH_def
          split: option.splits del: concat_eq_Nil_conv)
  qed
qed

subsection \<open>The EV1 CMAC against its specification\<close>

definition sm_kind :: "DfcSecureMessaging \<Rightarrow> CmacKind" where
  "sm_kind sm = (if sm_cipher sm = DFC_CMD_AUTHENTICATE_AES then AesCmac else DesCmac)"

definition ev1_cmac :: "'x mbedtls \<Rightarrow> DfcSecureMessaging \<Rightarrow> bytes \<Rightarrow> bytes option" where
  "ev1_cmac lib sm m = cmac_specification (sm_kind sm) lib (Some (sm_session_key sm)) (unat (sm_session_key_len sm))
     (take (CMAC_BLOCK_SIZE (sm_kind sm)) (sm_iv sm)) m"

text \<open>The session whose chaining value is a full CMAC.\<close>

definition sm_chained :: "DfcSecureMessaging \<Rightarrow> bytes \<Rightarrow> DfcSecureMessaging" where
  "sm_chained sm mac = sm\<lparr>sm_iv := mac @ replicate (16 - length mac) 0\<rparr>"

lemma cmac_specification_length:
  assumes "block_library lib" "cmac_specification kind lib key key_len iv m = Some mac"
  shows "length mac = CMAC_BLOCK_SIZE kind"
  using assms cmac_encrypt_length
  by (auto simp: cmac_specification_def cmac_reference_def Let_def split: option.splits)

lemma ev1_cmac_length:
  assumes "block_library lib" "ev1_cmac lib sm m = Some mac"
  shows "length mac = CMAC_BLOCK_SIZE (sm_kind sm)" "8 \<le> length mac" "length mac \<le> 16"
  using cmac_specification_length [OF assms(1) assms(2) [unfolded ev1_cmac_def]]
  by (simp_all add: sm_kind_def split: if_splits)

lemma full_cmac_eq:
  assumes lib: "block_library lib" and iv: "length (sm_iv sm) = 16"
    and segs: "list_all seg_ok segments" "length (message_of segments) \<le> SIZE_MAX - 15"
  shows "compute_full_cmac_segments lib sm segments =
    (case ev1_cmac lib sm (message_of segments) of
       None \<Rightarrow> (False, replicate (CMAC_BLOCK_SIZE (sm_kind sm)) 0, 0)
     | Some mac \<Rightarrow> (True, mac, length mac))"
proof -
  have "length (message_of segments) \<le> SIZE_MAX - (CMAC_BLOCK_SIZE (sm_kind sm) - 1)"
    using segs(2) by (cases "sm_kind sm") simp_all
  moreover have "length (take (CMAC_BLOCK_SIZE (sm_kind sm)) (sm_iv sm)) = CMAC_BLOCK_SIZE (sm_kind sm)"
    using iv by (cases "sm_kind sm") simp_all
  ultimately show ?thesis
    using cmac_segments_eq [OF lib _ segs(1), of "take (CMAC_BLOCK_SIZE (sm_kind sm)) (sm_iv sm)" "sm_kind sm"
        "Some (sm_session_key sm)" "unat (sm_session_key_len sm)"] iv ev1_cmac_length(1) [OF lib, of sm "message_of segments"]
    by (auto simp: compute_full_cmac_segments_def ev1_cmac_def aes_cmac_segments_with_iv_def des_cmac_segments_with_iv_def
        sm_kind_def DFC_SM_LEGACY_BLOCK_SIZE_def split: option.splits)
qed

lemma update_iv_eq:
  "length mac \<le> 16 \<Longrightarrow> update_iv_from_full_cmac sm mac (length mac) = sm_chained sm mac"
  by (simp add: update_iv_from_full_cmac_def sm_chained_def mem_write_def)

lemma segment_simps [simp]:
  "seg_ok (segment (Some d) n) \<longleftrightarrow> n \<le> length d" "seg_ok (segment None n) \<longleftrightarrow> n = 0"
  "seg_octets (segment (Some d) n) = take n d" "seg_octets (segment None n) = []"
  by (simp_all add: segment_def seg_ok_def seg_octets_def)

text \<open>What the holder of a session accepts as a MAC of \<open>m\<close>, and the session afterwards.\<close>

definition ev1_accepts :: "'x mbedtls \<Rightarrow> DfcSecureMessaging \<Rightarrow> bytes \<Rightarrow> bytes \<Rightarrow> DfcSecureMessaging option" where
  "ev1_accepts lib sm m mac =
     (case ev1_cmac lib sm m of
        None \<Rightarrow> None
      | Some full \<Rightarrow> if take 8 full = mac then Some (sm_chained sm full) else None)"

lemma verify_transmitted_eq:
  assumes lib: "block_library lib" and iv: "length (sm_iv sm) = 16" and len: "length data \<le> SIZE_MAX - 16"
  shows "dfc_secure_messaging_verify_ev1_transmitted_command_mac lib sm cmd data (length data) =
    (if length data < 8 then (SIZE_MAX, sm)
     else case ev1_accepts lib sm (cmd # take (length data - 8) data) (drop (length data - 8) data) of
       None \<Rightarrow> (SIZE_MAX, sm)
     | Some sm' \<Rightarrow> (length data - 8, sm'))"
proof (cases "length data < 8")
  case False
  let ?n = "length data - 8"
  have c: "compute_full_cmac_segments lib sm [segment (Some [cmd]) 1, segment (Some data) ?n] =
    (case ev1_cmac lib sm (cmd # take ?n data) of
       None \<Rightarrow> (False, replicate (CMAC_BLOCK_SIZE (sm_kind sm)) 0, 0)
     | Some mac \<Rightarrow> (True, mac, length mac))"
    using full_cmac_eq [OF lib iv, of "[segment (Some [cmd]) 1, segment (Some data) ?n]"] len by (simp add: SIZE_MAX_def)
  show ?thesis
  proof (cases "ev1_cmac lib sm (cmd # take ?n data)")
    case (Some mac)
    have l: "8 \<le> length mac" "length mac \<le> 16" using ev1_cmac_length [OF lib Some] by simp_all
    then have "dfc_ct_equal mac (drop ?n data) 8 \<longleftrightarrow> take 8 mac = drop ?n data"
      using False dfc_ct_equal_iff [of 8 mac "drop ?n data"] by simp
    then show ?thesis
      using False Some l c
      by (simp add: dfc_secure_messaging_verify_ev1_transmitted_command_mac_def ev1_accepts_def update_iv_eq Let_def)
  qed (use False c in \<open>simp add: dfc_secure_messaging_verify_ev1_transmitted_command_mac_def ev1_accepts_def Let_def\<close>)
qed (simp add: dfc_secure_messaging_verify_ev1_transmitted_command_mac_def)

lemma verify_transmitted_full_eq:
  assumes lib: "block_library lib" and iv: "length (sm_iv sm) = 16" and len: "length data \<le> SIZE_MAX - 16"
  shows "dfc_secure_messaging_verify_ev1_transmitted_command_mac_full lib sm (Some (cmd # data)) (Suc (length data)) =
    dfc_secure_messaging_verify_ev1_transmitted_command_mac lib sm cmd data (length data)"
proof (cases "length data < 8")
  case False
  then obtain k where k: "length data = k + 8" by (metis add.commute le_Suc_ex not_less)
  have c: "compute_full_cmac_segments lib sm [segment (Some (cmd # data)) (Suc k)] =
    (case ev1_cmac lib sm (cmd # take k data) of
       None \<Rightarrow> (False, replicate (CMAC_BLOCK_SIZE (sm_kind sm)) 0, 0)
     | Some mac \<Rightarrow> (True, mac, length mac))"
    using full_cmac_eq [OF lib iv, of "[segment (Some (cmd # data)) (Suc k)]"] len k by (simp add: SIZE_MAX_def)
  show ?thesis
  proof (cases "ev1_cmac lib sm (cmd # take k data)")
    case (Some mac)
    have l: "8 \<le> length mac" "length mac \<le> 16" using ev1_cmac_length [OF lib Some] by simp_all
    then have "dfc_ct_equal mac (drop k data) 8 \<longleftrightarrow> take 8 mac = drop k data"
      using k dfc_ct_equal_iff [of 8 mac "drop k data"] by simp
    then show ?thesis
      using Some l c unfolding verify_transmitted_eq [OF lib iv len] unfolding k
      by (simp add: dfc_secure_messaging_verify_ev1_transmitted_command_mac_full_def ev1_accepts_def update_iv_eq
          DFC_WIRE_MAC_LENGTH_def Let_def)
  next
    case None
    then show ?thesis
      using c unfolding verify_transmitted_eq [OF lib iv len] unfolding k
      by (simp add: ev1_accepts_def Let_def DFC_WIRE_MAC_LENGTH_def
          dfc_secure_messaging_verify_ev1_transmitted_command_mac_full_def)
  qed
qed (simp add: dfc_secure_messaging_verify_ev1_transmitted_command_mac_full_def
    dfc_secure_messaging_verify_ev1_transmitted_command_mac_def DFC_WIRE_MAC_LENGTH_def)

lemma unwrap_ev1_eq:
  assumes lib: "block_library lib" and iv: "length (sm_iv sm) = 16" and len: "length w \<le> SIZE_MAX - 16" "length w - 8 \<le> length out"
    and sm: "session_is_valid sm" "sm_cipher sm \<noteq> DFC_CMD_AUTHENTICATE_LEGACY"
  shows "dfc_secure_messaging_unwrap_ev1_response lib sm status (Some w) (length w) (Some out) (length out) =
    (if length w < 8 then (SIZE_MAX, sm, Some out)
     else case ev1_accepts lib sm (take (length w - 8) w @ [status]) (drop (length w - 8) w) of
       None \<Rightarrow> (SIZE_MAX, sm, Some out)
     | Some sm' \<Rightarrow> (length w - 8, sm', Some (mem_write 0 (take (length w - 8) w) out)))"
proof (cases "length w < 8")
  case False
  let ?n = "length w - 8"
  have c: "compute_full_cmac_segments lib sm [segment (Some w) ?n, segment (Some [status]) 1] =
    (case ev1_cmac lib sm (take ?n w @ [status]) of
       None \<Rightarrow> (False, replicate (CMAC_BLOCK_SIZE (sm_kind sm)) 0, 0)
     | Some mac \<Rightarrow> (True, mac, length mac))"
    using full_cmac_eq [OF lib iv, of "[segment (Some w) ?n, segment (Some [status]) 1]"] len by (simp add: SIZE_MAX_def)
  have fits: "output_fits (Some out) (length out) ?n" using len(2) by (simp add: output_fits_def)
  show ?thesis
  proof (cases "ev1_cmac lib sm (take ?n w @ [status])")
    case (Some mac)
    have l: "8 \<le> length mac" "length mac \<le> 16" using ev1_cmac_length [OF lib Some] by simp_all
    then have "dfc_ct_equal mac (drop ?n w) 8 \<longleftrightarrow> take 8 mac = drop ?n w"
      using False dfc_ct_equal_iff [of 8 mac "drop ?n w"] by simp
    then show ?thesis
      using False Some l c sm fits
      by (auto simp: dfc_secure_messaging_unwrap_ev1_response_def ev1_accepts_def update_iv_eq Let_def opt_octets_def mem_write_def)
  qed (use False c sm fits in \<open>simp add: dfc_secure_messaging_unwrap_ev1_response_def ev1_accepts_def Let_def\<close>)
qed (use sm in \<open>simp add: dfc_secure_messaging_unwrap_ev1_response_def Let_def\<close>)

lemma generate_ev1_eq:
  assumes lib: "block_library lib" and iv: "length (sm_iv sm) = 16"
    and len: "length plain \<le> SIZE_MAX - 16" "length plain + 8 \<le> length out"
    and sm: "session_is_valid sm" "sm_cipher sm \<noteq> DFC_CMD_AUTHENTICATE_LEGACY"
  shows "dfc_secure_messaging_generate_ev1_response lib sm status (Some plain) (length plain) (Some out) (length out) =
    (case ev1_cmac lib sm (plain @ [status]) of
       None \<Rightarrow> (0, sm, Some out)
     | Some mac \<Rightarrow> (length plain + 8, sm_chained sm mac, Some (mem_write 0 (plain @ take 8 mac) out)))"
proof -
  have c: "compute_full_cmac_segments lib sm [segment (Some plain) (length plain), segment (Some [status]) 1] =
    (case ev1_cmac lib sm (plain @ [status]) of
       None \<Rightarrow> (False, replicate (CMAC_BLOCK_SIZE (sm_kind sm)) 0, 0)
     | Some mac \<Rightarrow> (True, mac, length mac))"
    using full_cmac_eq [OF lib iv, of "[segment (Some plain) (length plain), segment (Some [status]) 1]"] len by (simp add: SIZE_MAX_def)
  have fits: "output_fits (Some out) (length out) (length plain + DFC_WIRE_MAC_LENGTH)"
    "\<not> SIZE_MAX - DFC_WIRE_MAC_LENGTH < length plain" using len by (simp_all add: output_fits_def DFC_WIRE_MAC_LENGTH_def)
  show ?thesis
  proof (cases "ev1_cmac lib sm (plain @ [status])")
    case (Some mac)
    have l: "8 \<le> length mac" "length mac \<le> 16" using ev1_cmac_length [OF lib Some] by simp_all
    then show ?thesis
      using Some c sm fits len mem_write_append [of 0 plain "take 8 mac" out]
      by (simp add: dfc_secure_messaging_generate_ev1_response_def dfc_secure_messaging_generate_ev1_response_mac_def
          update_iv_eq opt_octets_def DFC_WIRE_MAC_LENGTH_def)
  qed (use c sm fits in \<open>simp add: dfc_secure_messaging_generate_ev1_response_def dfc_secure_messaging_generate_ev1_response_mac_def\<close>)
qed

end
