(* ===== verification/Dfc_Transactions.thy ===== *)
theory Dfc_Transactions
  imports Dfc_Session Dfc_Secure_Messaging
begin

text \<open>
  The transaction commands of the card, \<^verbatim>\<open>src/dfc_emulator_commands_transactions.c\<close>: the
  transaction MAC of the selected application, value files, commit and abort. A handler takes the
  emulator, the command and the response buffer and returns the emulator and the buffer. The entries
  of the journal in the same file are in \<^verbatim>\<open>Dfc_Journal\<close>.
\<close>

subsection \<open>Small helpers\<close>

definition DFC_TRANSACTION_ENCRYPTION_DERIVATION_LABEL :: u8 where "DFC_TRANSACTION_ENCRYPTION_DERIVATION_LABEL = 0xA5"

definition dfc_emulator_file_lookup_failure_status :: "u8 \<Rightarrow> bool \<Rightarrow> u8" where
  "dfc_emulator_file_lookup_failure_status file_number exist =
     (if file_number > 0x1F then DFC_STATUS_PARAMETER_ERROR
      else if exist then DFC_STATUS_PERMISSION_DENIED else DFC_STATUS_FILE_NOT_FOUND)"

definition dfc_emulator_command_read_int32_le :: "bytes \<Rightarrow> u32" where
  "dfc_emulator_command_read_int32_le data = ucast (data ! 0) OR push_bit 8 (ucast (data ! 1)) OR
     push_bit 16 (ucast (data ! 2)) OR push_bit 24 (ucast (data ! 3))"

definition dfc_emulator_command_file_allows_read :: "DfcFile \<Rightarrow> DfcEmulator \<Rightarrow> bool" where
  "dfc_emulator_command_file_allows_read f em = dfc_emulator_file_access_allowed em f DfcFileAccessRead"

definition dfc_emulator_command_file_allows_write :: "DfcFile \<Rightarrow> DfcEmulator \<Rightarrow> bool" where
  "dfc_emulator_command_file_allows_write f em = dfc_emulator_file_access_allowed em f DfcFileAccessWrite"

definition dfc_emulator_command_file_allows_read_write :: "DfcFile \<Rightarrow> DfcEmulator \<Rightarrow> bool" where
  "dfc_emulator_command_file_allows_read_write f em = dfc_emulator_file_access_allowed em f DfcFileAccessReadWrite"

text \<open>The file record an index stands for.\<close>

definition file_at :: "DfcEmulator \<Rightarrow> size_t \<Rightarrow> DfcFile" where
  "file_at em i = c_files (credential em) ! i"

subsection \<open>The transaction MAC of the selected application\<close>

definition transaction_mac_file :: "DfcEmulator \<Rightarrow> size_t option" where
  "transaction_mac_file em = dfc_credential_find_transaction_mac_file (credential em) (selected_app_index em)"

definition mac_counter :: "DfcEmulator \<Rightarrow> size_t \<Rightarrow> u32" where
  "mac_counter em i = tmac_counter (state_transaction_mac (f_state (file_at em i)))"

definition dfc_emulator_command_transaction_mac_can_add_data :: "DfcEmulator \<Rightarrow> size_t \<Rightarrow> bool" where
  "dfc_emulator_command_transaction_mac_can_add_data em data_length =
     (case transaction_mac_file em of None \<Rightarrow> True | Some i \<Rightarrow> mac_counter em i \<noteq> -1)"

datatype TransactionMacUpdateResult = TransactionMacUpdateOk | TransactionMacUpdateTerminal | TransactionMacUpdateCryptoFailed

text \<open>The candidate is not set on a terminal result; no caller reads it then.\<close>

definition transaction_mac_candidate ::
  "'x mbedtls \<Rightarrow> DfcEmulator \<Rightarrow> TransactionMacUpdateResult \<times> DfcTransactionMacAccumulator" where
  "transaction_mac_candidate lib em =
     (let c = credential em; acc = transaction_mac (em_tmac em) in
      case transaction_mac_file em of
        None \<Rightarrow> (TransactionMacUpdateTerminal, acc)
      | Some i \<Rightarrow>
          if mac_counter em i = -1 \<or>
             (unat (c_uid_len c) \<noteq> DFC_DESFIRE_UID_SHORT_LEN \<and> unat (c_uid_len c) \<noteq> DFC_DESFIRE_UID_LEN)
          then (TransactionMacUpdateTerminal, acc)
          else if acc_initialized acc then (TransactionMacUpdateOk, acc)
          else
            (case dfc_transaction_mac_derive_session_key lib (Some (tmac_key (state_transaction_mac (f_state (file_at em i)))))
                    (Some (c_uid c)) (unat (c_uid_len c)) (mac_counter em i + 1) of
               (False, _) \<Rightarrow> (TransactionMacUpdateCryptoFailed, acc)
             | (True, session_key) \<Rightarrow>
                 (case dfc_transaction_mac_accumulator_init (Some session_key) of
                    (initialized, candidate) \<Rightarrow>
                      (if initialized then TransactionMacUpdateOk else TransactionMacUpdateCryptoFailed, candidate))))"

definition transaction_mac_publish_candidate ::
  "DfcEmulator \<Rightarrow> DfcTransactionMacAccumulator \<Rightarrow> TransactionMacUpdateResult \<Rightarrow> bool \<times> DfcEmulator" where
  "transaction_mac_publish_candidate em candidate result =
     (let t = (em_tmac em)\<lparr>transaction_mac_retryable_failure := (result = TransactionMacUpdateCryptoFailed)\<rparr>;
          t = (if result = TransactionMacUpdateOk then t\<lparr>transaction_mac := candidate\<rparr> else t)
      in (result = TransactionMacUpdateOk, em\<lparr>em_tmac := t\<rparr>))"

text \<open>
  The frame the entry points share: no file, no work; no candidate, a failure that notes whether it may
  be retried; otherwise the entry is added to the candidate, which replaces the accumulator only on success.
\<close>

definition transaction_mac_add ::
  "'x mbedtls \<Rightarrow> DfcEmulator \<Rightarrow> (DfcTransactionMacAccumulator \<Rightarrow> TransactionMacUpdateResult \<times> DfcTransactionMacAccumulator) \<Rightarrow>
   bool \<times> DfcEmulator" where
  "transaction_mac_add lib em add =
     (if transaction_mac_file em = None then (True, em)
      else case transaction_mac_candidate lib em of
        (result, candidate) \<Rightarrow>
          if result \<noteq> TransactionMacUpdateOk
          then (False, em\<lparr>em_tmac := (em_tmac em)\<lparr>transaction_mac_retryable_failure := (result = TransactionMacUpdateCryptoFailed)\<rparr>\<rparr>)
          else (case add candidate of (result, candidate) \<Rightarrow> transaction_mac_publish_candidate em candidate result))"

definition added :: "bool \<times> DfcTransactionMacAccumulator \<Rightarrow> TransactionMacUpdateResult \<times> DfcTransactionMacAccumulator" where
  "added r = (case r of (ok, acc) \<Rightarrow> (if ok then TransactionMacUpdateOk else TransactionMacUpdateCryptoFailed, acc))"

definition dfc_emulator_command_transaction_mac_add_data ::
  "'x mbedtls \<Rightarrow> DfcEmulator \<Rightarrow> u8 \<Rightarrow> u8 \<Rightarrow> u32 \<Rightarrow> u32 \<Rightarrow> bytes option \<Rightarrow> size_t \<Rightarrow> bool \<times> DfcEmulator" where
  "dfc_emulator_command_transaction_mac_add_data lib em command file_number offset len data data_length =
     transaction_mac_add lib em (\<lambda>candidate.
       if offset > 0xFFFFFF \<or> len > 0xFFFFFF \<or> (data_length \<noteq> 0 \<and> data = None) then (TransactionMacUpdateTerminal, candidate)
       else added (dfc_transaction_mac_accumulator_add_data lib candidate command file_number offset len data data_length))"

definition dfc_emulator_command_transaction_mac_add_zero_data ::
  "'x mbedtls \<Rightarrow> DfcEmulator \<Rightarrow> u8 \<Rightarrow> u8 \<Rightarrow> u32 \<Rightarrow> u32 \<Rightarrow> size_t \<Rightarrow> bool \<times> DfcEmulator" where
  "dfc_emulator_command_transaction_mac_add_zero_data lib em command file_number offset len data_length =
     transaction_mac_add lib em (\<lambda>candidate.
       if offset > 0xFFFFFF \<or> len > 0xFFFFFF then (TransactionMacUpdateCryptoFailed, candidate)
       else added (dfc_transaction_mac_accumulator_add_zero_data lib candidate command file_number offset len data_length))"

definition dfc_emulator_command_transaction_mac_add_record_update ::
  "'x mbedtls \<Rightarrow> DfcEmulator \<Rightarrow> u8 \<Rightarrow> u8 \<Rightarrow> u32 \<Rightarrow> u32 \<Rightarrow> u32 \<Rightarrow> bytes option \<Rightarrow> size_t \<Rightarrow> bool \<times> DfcEmulator" where
  "dfc_emulator_command_transaction_mac_add_record_update lib em command file_number record_number offset len data data_length =
     transaction_mac_add lib em (\<lambda>candidate.
       if record_number > 0xFFFFFF \<or> offset > 0xFFFFFF \<or> len > 0xFFFFFF \<or> (data_length \<noteq> 0 \<and> data = None)
       then (TransactionMacUpdateTerminal, candidate)
       else added (dfc_transaction_mac_accumulator_add_record_update lib candidate command file_number record_number offset len
         data data_length))"

definition dfc_emulator_command_transaction_mac_can_add_record_update :: "DfcEmulator \<Rightarrow> size_t \<Rightarrow> bool" where
  "dfc_emulator_command_transaction_mac_can_add_record_update em data_length =
     (case transaction_mac_file em of None \<Rightarrow> True | Some i \<Rightarrow> mac_counter em i \<noteq> -1)"

definition dfc_emulator_command_transaction_mac_add_value ::
  "'x mbedtls \<Rightarrow> DfcEmulator \<Rightarrow> u8 \<Rightarrow> u8 \<Rightarrow> bytes option \<Rightarrow> bool \<times> DfcEmulator" where
  "dfc_emulator_command_transaction_mac_add_value lib em command file_number value_octets =
     transaction_mac_add lib em (\<lambda>candidate.
       if value_octets = None then (TransactionMacUpdateTerminal, candidate)
       else added (dfc_transaction_mac_accumulator_add_value lib candidate command file_number value_octets))"

definition dfc_emulator_command_transaction_mac_add_clear_record ::
  "'x mbedtls \<Rightarrow> DfcEmulator \<Rightarrow> u8 \<Rightarrow> bool \<times> DfcEmulator" where
  "dfc_emulator_command_transaction_mac_add_clear_record lib em file_number =
     transaction_mac_add lib em (\<lambda>candidate.
       added (dfc_transaction_mac_accumulator_add_clear_record lib candidate file_number))"

definition dfc_emulator_command_transaction_mac_can_add_clear_record :: "DfcEmulator \<Rightarrow> bool" where
  "dfc_emulator_command_transaction_mac_can_add_clear_record em =
     (case transaction_mac_file em of None \<Rightarrow> True | Some i \<Rightarrow> mac_counter em i \<noteq> -1)"

subsection \<open>Value files\<close>

text \<open>Values are signed 32-bit numbers, read with \<^const>\<open>sint\<close>; sums are formed in 64 bits, which three of them cannot leave.\<close>

definition value_delta_result :: "DfcFile \<Rightarrow> u32 \<Rightarrow> u32 option" where
  "value_delta_result f delta =
     (let v = state_value (f_state f);
          current = (if value_pending v
            then (if pending_absolute v then sint (pending_value v) else sint (current_value v) + sint (pending_delta v))
            else sint (current_value v));
          next_value = current + sint delta
      in if next_value < sint (lower_limit v) \<or> next_value > sint (upper_limit v) then None else Some (word_of_int next_value))"

definition value_refusal_status :: "DfcFile \<Rightarrow> bool \<Rightarrow> bool \<Rightarrow> bool \<Rightarrow> u8" where
  "value_refusal_status f rd wr rw =
     (if (rd \<and> dfc_access_nibble (f_access_rights f) 12 < DFC_ACCESS_FREE) \<or>
         (wr \<and> dfc_access_nibble (f_access_rights f) 8 < DFC_ACCESS_FREE) \<or>
         (rw \<and> dfc_access_nibble (f_access_rights f) 4 < DFC_ACCESS_FREE)
      then DFC_STATUS_AUTHENTICATION_ERR else DFC_STATUS_PERMISSION_DENIED)"

text \<open>A handler that ends with a status and no data.\<close>

definition respond :: "u8 \<Rightarrow> DfcEmulator \<Rightarrow> DfcByteBuf \<Rightarrow> DfcEmulator \<times> DfcByteBuf" where
  "respond status em tx = (em, dfc_bytebuf_append_byte tx status)"

definition native_session :: "DfcEmulator \<Rightarrow> DfcSecureMessaging" where
  "native_session em = the (secure_messaging em)"

definition value_octets_of :: "u32 \<Rightarrow> bytes" where
  "value_octets_of raw = [ucast (raw AND 0xFF), ucast (drop_bit 8 raw AND 0xFF), ucast (drop_bit 16 raw AND 0xFF),
     ucast (drop_bit 24 raw AND 0xFF)]"

definition dfc_emulator_command_get_value ::
  "'x mbedtls \<Rightarrow> DfcEmulator \<Rightarrow> bytes \<Rightarrow> DfcByteBuf \<Rightarrow> DfcEmulator \<times> DfcByteBuf" where
  "dfc_emulator_command_get_value lib em apdu tx =
     (case dfc_credential_find_file_in_app (credential em) (selected_app_index em) (apdu ! 1) of
        None \<Rightarrow> respond (dfc_emulator_file_lookup_failure_status (apdu ! 1) False) em tx
      | Some i \<Rightarrow>
          let f = file_at em i in
          if f_type f \<noteq> 0x02 then respond DFC_STATUS_PERMISSION_DENIED em tx
          else if \<not> (dfc_emulator_command_file_allows_read f em \<or> dfc_emulator_command_file_allows_write f em \<or>
                  dfc_emulator_command_file_allows_read_write f em)
          then respond (value_refusal_status f True True True) em tx
          else
            let value_bytes = value_octets_of (current_value (state_value (f_state f))) in
            case dfc_emulator_command_transaction_mac_add_value lib em DFC_CMD_GET_VALUE (apdu ! 1) (Some value_bytes) of
              (False, em) \<Rightarrow> respond DFC_STATUS_BOUNDARY_ERROR em tx
            | (True, em) \<Rightarrow>
                let comm = dfc_emulator_file_effective_comm_settings_for_rights em f True True True (f_comm_settings f);
                    ev1_sm = (dfc_emulator_native_authentication_active em \<and>
                      dfc_secure_messaging_applies_ev1 (native_session em) DFC_CMD_GET_VALUE);
                    protect_here = (dfc_emulator_native_authentication_active em \<and> comm \<noteq> DFC_COMM_PLAIN \<and>
                      (\<not> ev1_sm \<or> comm = DFC_COMM_ENCIPHERED))
                in if protect_here then
                     let zero_wrapped = replicate DFC_SM_MAX_CIPHER_BLOCK_SIZE 0;
                         (wrapped_len, sm', wrapped) =
                           (if comm = DFC_COMM_MAC then
                              (case dfc_secure_messaging_generate_d40_response_mac lib (native_session em) (Some value_bytes) 4
                                 (Some zero_wrapped) DFC_SM_MAX_CIPHER_BLOCK_SIZE of (n, out) \<Rightarrow> (n, native_session em, out))
                            else dfc_secure_messaging_generate_response lib (native_session em) DFC_COMM_ENCIPHERED DFC_STATUS_OK
                              (Some value_bytes) 4 (Some zero_wrapped) DFC_SM_MAX_CIPHER_BLOCK_SIZE);
                         em = em\<lparr>secure_messaging := Some sm'\<rparr>
                     in if wrapped_len = 0
                        then respond DFC_STATUS_INTEGRITY_ERROR (dfc_emulator_reset_session em) (dfc_bytebuf_reset tx)
                        else (em\<lparr>response_secured := True\<rparr>,
                          dfc_bytebuf_append_bytes (dfc_bytebuf_append_byte tx DFC_STATUS_OK) (take wrapped_len (the wrapped)))
                   else (em, dfc_bytebuf_append_bytes (dfc_bytebuf_append_byte tx DFC_STATUS_OK) value_bytes))"

text \<open>
  The amount of a value command, by the mode of the session: a status with the emulator, or the amount with
  the emulator. The body is the file number and what follows it. The local array \<^verbatim>\<open>clear\<close> is not
  initialised by the code; what it holds on entry is the argument \<open>clear\<close>.
\<close>

definition value_amount_ev1 ::
  "'x mbedtls \<Rightarrow> bytes \<Rightarrow> DfcEmulator \<Rightarrow> u8 \<Rightarrow> u8 \<Rightarrow> bytes \<Rightarrow> (u8 \<times> DfcEmulator) + (u32 \<times> DfcEmulator)" where
  "value_amount_ev1 lib clear em cmd comm body =
     (let sm = native_session em; body_len = length body;
          broken = (\<lambda>em. Inl (DFC_STATUS_INTEGRITY_ERROR, dfc_emulator_reset_session em)) in
      if comm = DFC_COMM_MAC \<and> dfc_secure_messaging_ev1_transmits_command_mac cmd then
        (case dfc_secure_messaging_verify_ev1_transmitted_command_mac lib sm cmd body body_len of
           (clear_len, sm') \<Rightarrow>
             let em = em\<lparr>secure_messaging := Some sm'\<rparr> in
             if clear_len = SIZE_MAX \<or> clear_len < 5 then broken em
             else Inr (dfc_emulator_command_read_int32_le (drop 1 body), em))
      else if comm = DFC_COMM_ENCIPHERED then
        (if body_len < 1 + 8 then Inl (DFC_STATUS_LENGTH_ERROR, em)
         else if body_len - 1 > DFC_SM_MAX_CIPHER_BLOCK_SIZE then Inl (DFC_STATUS_LENGTH_ERROR, em)
         else case dfc_secure_messaging_verify_command lib sm DFC_COMM_ENCIPHERED (Some [cmd, body ! 0]) 2
                     (Some (drop 1 body)) (body_len - 1) (Some clear) DFC_SM_MAX_CIPHER_BLOCK_SIZE of
           (clear_len, sm', clear) \<Rightarrow>
             let em = em\<lparr>secure_messaging := Some sm'\<rparr> in
             if clear_len < 4 then broken em else Inr (dfc_emulator_command_read_int32_le (the clear), em))
      else
        (case dfc_secure_messaging_update_ev1_command lib sm cmd (Some body) body_len of
           (False, sm') \<Rightarrow> broken (em\<lparr>secure_messaging := Some sm'\<rparr>)
         | (True, sm') \<Rightarrow>
             let em = em\<lparr>secure_messaging := Some sm'\<rparr> in
             if body_len < 5 then Inl (DFC_STATUS_LENGTH_ERROR, em)
             else Inr (dfc_emulator_command_read_int32_le (drop 1 body), em)))"

definition value_amount_d40 ::
  "'x mbedtls \<Rightarrow> bytes \<Rightarrow> DfcEmulator \<Rightarrow> u8 \<Rightarrow> u8 \<Rightarrow> bytes \<Rightarrow> (u8 \<times> DfcEmulator) + (u32 \<times> DfcEmulator)" where
  "value_amount_d40 lib clear em cmd comm body =
     (let sm = native_session em; body_len = length body in
      if body_len < 1 then Inl (DFC_STATUS_LENGTH_ERROR, em)
      else if body_len - 1 > DFC_SM_MAX_CIPHER_BLOCK_SIZE then Inl (DFC_STATUS_LENGTH_ERROR, em)
      else if comm = DFC_COMM_ENCIPHERED \<and>
        (body_len - 1) mod (if sm_cipher sm = DFC_CMD_AUTHENTICATE_AES then DFC_AES_KEY_LENGTH else DFC_SM_LEGACY_BLOCK_SIZE) \<noteq> 0
      then Inl (DFC_STATUS_LENGTH_ERROR, em)
      else
        let (d40_mac_ok, clear_len, sm', clear) =
              (if comm = DFC_COMM_MAC then
                 (case dfc_secure_messaging_verify_d40_command_mac lib sm (Some (drop 1 body)) (body_len - 1) (Some clear)
                         DFC_SM_MAX_CIPHER_BLOCK_SIZE of (ok, n, out) \<Rightarrow> (ok, n, sm, the out))
               else if comm = DFC_COMM_ENCIPHERED then
                 (case dfc_secure_messaging_verify_command lib sm DFC_COMM_ENCIPHERED (Some [cmd, body ! 0]) 2 (Some (drop 1 body))
                         (body_len - 1) (Some clear) DFC_SM_MAX_CIPHER_BLOCK_SIZE of (n, sm', out) \<Rightarrow> (True, n, sm', the out))
               else (True, body_len - 1, sm, clear));
            em = em\<lparr>secure_messaging := Some sm'\<rparr>
        in if \<not> d40_mac_ok \<or> (clear_len < 4 \<and> comm \<noteq> DFC_COMM_PLAIN) then Inl (DFC_STATUS_INTEGRITY_ERROR, em)
           else if comm = DFC_COMM_PLAIN then
             (if body_len \<noteq> 5 then Inl (DFC_STATUS_LENGTH_ERROR, em)
              else Inr (dfc_emulator_command_read_int32_le (drop 1 body), em))
           else Inr (dfc_emulator_command_read_int32_le clear, em))"

definition value_amount ::
  "'x mbedtls \<Rightarrow> bytes \<Rightarrow> DfcEmulator \<Rightarrow> u8 \<Rightarrow> u8 \<Rightarrow> bytes \<Rightarrow> (u8 \<times> DfcEmulator) + (u32 \<times> DfcEmulator)" where
  "value_amount lib clear em cmd comm body =
     (if dfc_emulator_native_authentication_active em \<and> dfc_secure_messaging_applies_ev1 (native_session em) cmd
      then value_amount_ev1 lib clear em cmd comm body
      else if dfc_emulator_native_authentication_active em \<and> \<not> dfc_secure_messaging_applies_ev1 (native_session em) cmd
      then value_amount_d40 lib clear em cmd comm body
      else if length body \<noteq> 5 then Inl (DFC_STATUS_LENGTH_ERROR, em)
      else Inr (dfc_emulator_command_read_int32_le (drop 1 body), em))"

text \<open>The limited-credit rule, the status that refuses an amount or none.\<close>

definition limited_credit_refusal :: "DfcValueFileState \<Rightarrow> u32 \<Rightarrow> u8 option" where
  "limited_credit_refusal v amount =
     (if limited_credit v AND 0x01 = 0 then Some DFC_STATUS_PERMISSION_DENIED
      else
        let available = (if sint (limited_credit_pending v) > 0 then limited_credit_pending v else limited_credit_value v)
        in if limited_credit_pending v = DFC_LIMITED_CREDIT_TRANSACTION_CONSUMED \<or> sint amount > sint available
           then Some DFC_STATUS_BOUNDARY_ERROR else None)"

text \<open>The pending state of a value file after an accepted command.\<close>

definition stage_value :: "u32 \<Rightarrow> u32 \<Rightarrow> bool \<Rightarrow> bool \<Rightarrow> DfcValueFileState \<Rightarrow> DfcValueFileState" where
  "stage_value next_value amount debit limited v =
     (let aggregate = sint next_value - sint (current_value v);
          v = v\<lparr>value_pending := True, pending_value := next_value, pending_absolute := True,
            pending_delta := (if aggregate > 2147483647 then 2147483647
              else if aggregate < - 2147483648 then word_of_int (- 2147483648) else word_of_int aggregate)\<rparr>
      in if limited then v\<lparr>limited_credit_pending := DFC_LIMITED_CREDIT_TRANSACTION_CONSUMED\<rparr>
         else if debit \<and> sint (limited_credit_pending v) \<ge> 0 then
           (if sint amount > 2147483647 - sint (limited_credit_pending v) then v\<lparr>limited_credit_pending := 2147483647\<rparr>
            else v\<lparr>limited_credit_pending := limited_credit_pending v + amount\<rparr>)
         else v)"

definition upd_value :: "size_t \<Rightarrow> (DfcValueFileState \<Rightarrow> DfcValueFileState) \<Rightarrow> DfcEmulator \<Rightarrow> DfcEmulator" where
  "upd_value i g em = em\<lparr>credential := upd_file i (\<lambda>f. f\<lparr>f_state := (f_state f)\<lparr>state_value := g (state_value (f_state f))\<rparr>\<rparr>)
     (credential em)\<rparr>"

text \<open>Which right a value command needs, and the status without it.\<close>

definition value_command_allowed :: "DfcFile \<Rightarrow> DfcEmulator \<Rightarrow> bool \<Rightarrow> bool \<Rightarrow> bool" where
  "value_command_allowed f em debit limited =
     (if \<not> debit \<and> \<not> limited then dfc_emulator_command_file_allows_read_write f em
      else if debit then dfc_emulator_command_file_allows_write f em \<or> dfc_emulator_command_file_allows_read f em
      else dfc_emulator_command_file_allows_write f em)"

definition value_command_refusal :: "DfcFile \<Rightarrow> bool \<Rightarrow> bool \<Rightarrow> u8" where
  "value_command_refusal f debit limited =
     (if \<not> debit \<and> \<not> limited then value_refusal_status f False False True
      else if debit then value_refusal_status f True True True else value_refusal_status f False True True)"

text \<open>The command once its amount is known.\<close>

definition value_delta_apply ::
  "'x mbedtls \<Rightarrow> DfcEmulator \<Rightarrow> size_t \<Rightarrow> u8 \<Rightarrow> DfcByteBuf \<Rightarrow> u8 \<Rightarrow> bool \<Rightarrow> bool \<Rightarrow> u32 \<Rightarrow> DfcEmulator \<times> DfcByteBuf" where
  "value_delta_apply lib em i number tx cmd debit limited amount =
     (let f = file_at em i; v = state_value (f_state f); delta = (if debit then - amount else amount) in
      if sint amount < 0 then respond DFC_STATUS_PARAMETER_ERROR em tx
      else case (if limited then limited_credit_refusal v amount else None) of
        Some status \<Rightarrow> respond status em tx
      | None \<Rightarrow>
          (case value_delta_result f delta of
             None \<Rightarrow> respond DFC_STATUS_BOUNDARY_ERROR em tx
           | Some next_value \<Rightarrow>
               (case dfc_emulator_command_transaction_mac_add_value lib em cmd number (Some (dfc_write_uint32_le amount)) of
                  (False, em) \<Rightarrow> respond DFC_STATUS_BOUNDARY_ERROR em tx
                | (True, em) \<Rightarrow> respond DFC_STATUS_OK (upd_value i (stage_value next_value amount debit limited) em) tx)))"

definition dfc_emulator_command_value_delta ::
  "'x mbedtls \<Rightarrow> bytes \<Rightarrow> DfcEmulator \<Rightarrow> bytes \<Rightarrow> DfcByteBuf \<Rightarrow> u8 \<Rightarrow> bool \<Rightarrow> bool \<Rightarrow> DfcEmulator \<times> DfcByteBuf" where
  "dfc_emulator_command_value_delta lib clear em apdu tx cmd debit limited =
     (case dfc_credential_find_file_in_app (credential em) (selected_app_index em) (apdu ! 1) of
        None \<Rightarrow> respond (dfc_emulator_file_lookup_failure_status (apdu ! 1) False) em tx
      | Some i \<Rightarrow>
          let f = file_at em i in
          if f_type f \<noteq> 0x02 then respond DFC_STATUS_PERMISSION_DENIED em tx
          else if \<not> value_command_allowed f em debit limited then respond (value_command_refusal f debit limited) em tx
          else
            case value_amount lib clear em cmd
                   (dfc_emulator_file_effective_comm_settings_for_rights em f debit (debit \<or> limited) True (f_comm_settings f))
                   (drop 1 apdu) of
              Inl (status, em) \<Rightarrow> respond status em tx
            | Inr (amount, em) \<Rightarrow> value_delta_apply lib em i (apdu ! 1) tx cmd debit limited amount)"

subsection \<open>Commit and abort\<close>

definition transaction_mac_calculate :: "'x mbedtls \<Rightarrow> DfcEmulator \<Rightarrow> size_t \<Rightarrow> (bytes \<times> u32) option" where
  "transaction_mac_calculate lib em i =
     (if mac_counter em i = -1 then None
      else case dfc_transaction_mac_accumulator_finalize lib (transaction_mac (em_tmac em)) of
        (False, _) \<Rightarrow> None
      | (True, full_mac) \<Rightarrow> Some (dfc_truncate_aes_wire_mac full_mac, mac_counter em i + 1))"

definition upd_tmac_file ::
  "size_t \<Rightarrow> (DfcTransactionMacFileState \<Rightarrow> DfcTransactionMacFileState) \<Rightarrow> DfcEmulator \<Rightarrow> DfcEmulator" where
  "upd_tmac_file i g em = em\<lparr>credential := upd_file i (\<lambda>f. f\<lparr>f_state := (f_state f)\<lparr>state_transaction_mac :=
     g (state_transaction_mac (f_state f))\<rparr>\<rparr>) (credential em)\<rparr>"

text \<open>The reader identifier of the command, checked and freed of its MAC, with the length the command then has.\<close>

definition clear_reader_id_of :: "'x mbedtls \<Rightarrow> DfcEmulator \<Rightarrow> bytes \<Rightarrow> (bytes \<times> size_t) option \<times> DfcEmulator" where
  "clear_reader_id_of lib em buffer =
     (if \<not> dfc_emulator_native_authentication_active em then (Some (drop 1 buffer, length buffer), em)
      else
        let sm = native_session em;
            (clear_length, clear_reader_id, em) =
              (if dfc_secure_messaging_applies_ev1 sm (buffer ! 0) then
                 (case dfc_secure_messaging_verify_ev1_transmitted_command_mac lib sm (buffer ! 0) (drop 1 buffer) (length buffer - 1) of
                    (n, sm') \<Rightarrow> (n, take DFC_TRANSACTION_READER_ID_LENGTH (drop 1 buffer), em\<lparr>secure_messaging := Some sm'\<rparr>))
               else
                 (case dfc_secure_messaging_verify_d40_command_mac lib sm (Some (drop 1 buffer)) (length buffer - 1)
                         (Some (replicate DFC_TRANSACTION_READER_ID_LENGTH 0)) DFC_TRANSACTION_READER_ID_LENGTH of
                    (valid, n, out) \<Rightarrow> (if valid then n else SIZE_MAX, the out, em)))
        in if clear_length \<noteq> DFC_TRANSACTION_READER_ID_LENGTH then (None, em)
           else (Some (clear_reader_id, 1 + clear_length), em))"

definition reader_id_vector :: "bytes \<Rightarrow> size_t \<Rightarrow> u32 \<Rightarrow> bytes" where
  "reader_id_vector uid uid_len next_counter =
     (let vector = [DFC_TRANSACTION_ENCRYPTION_DERIVATION_LABEL, DFC_DERIVATION_COUNTER_HIGH, DFC_DERIVATION_COUNTER_LOW,
            DFC_DERIVED_AES_KEY_LENGTH_HIGH, DFC_DERIVED_AES_KEY_LENGTH_LOW] @ replicate 11 0;
          vector = mem_write DFC_TRANSACTION_VECTOR_COUNTER_OFFSET (dfc_write_uint32_le next_counter) vector
      in mem_write DFC_TRANSACTION_VECTOR_UID_OFFSET (take uid_len uid) vector)"

text \<open>The previous reader identifier, enciphered under a key of its own for the coming transaction.\<close>

definition encrypted_previous_reader_id :: "'x mbedtls \<Rightarrow> DfcEmulator \<Rightarrow> size_t \<Rightarrow> bytes option" where
  "encrypted_previous_reader_id lib em i =
     (let c = credential em; st = state_transaction_mac (f_state (file_at em i)) in
      case aes_cmac lib (Some (tmac_key st)) DFC_AES_KEY_LENGTH
             (Some (reader_id_vector (c_uid c) (unat (c_uid_len c)) (mac_counter em i + 1))) DFC_AES_KEY_LENGTH of
        (False, _) \<Rightarrow> None
      | (True, session_key) \<Rightarrow>
          map_option fst (dfc_worker_aes_cbc_encrypt lib (Some session_key) DFC_AES_KEY_LENGTH (replicate DFC_AES_KEY_LENGTH 0)
            (tmac_previous_reader_id st)))"

definition set_retryable :: "bool \<Rightarrow> DfcEmulator \<Rightarrow> DfcEmulator" where
  "set_retryable b em = em\<lparr>em_tmac := (em_tmac em)\<lparr>transaction_mac_retryable_failure := b\<rparr>\<rparr>"

definition dfc_emulator_command_commit_reader_id ::
  "'x mbedtls \<Rightarrow> DfcEmulator \<Rightarrow> bytes \<Rightarrow> DfcByteBuf \<Rightarrow> DfcEmulator \<times> DfcByteBuf" where
  "dfc_emulator_command_commit_reader_id lib em buffer tx =
     (case clear_reader_id_of lib em buffer of
        (None, em) \<Rightarrow> respond DFC_STATUS_INTEGRITY_ERROR em tx
      | (Some (reader_id, buffer_len), em) \<Rightarrow>
          (case transaction_mac_file em of
             None \<Rightarrow> respond DFC_STATUS_FILE_NOT_FOUND em tx
           | Some i \<Rightarrow>
               let f = file_at em i in
               if buffer_len \<noteq> 1 + DFC_TRANSACTION_READER_ID_LENGTH then respond DFC_STATUS_LENGTH_ERROR em tx
               else if dfc_access_nibble (f_access_rights f) 4 = DFC_ACCESS_DENY \<or> transaction_reader_id_pending (em_tmac em)
               then respond DFC_STATUS_PERMISSION_DENIED em tx
               else if \<not> dfc_emulator_file_access_allowed em f DfcFileAccessReadWrite
               then respond DFC_STATUS_AUTHENTICATION_ERR em tx
               else if mac_counter em i = -1 then respond DFC_STATUS_INTEGRITY_ERROR em tx
               else
                 let authenticated = (dfc_emulator_native_authentication_active em \<or> ev2_session_active (em_ev2 em)) in
                 case (if authenticated then encrypted_previous_reader_id lib em i
                       else Some (replicate DFC_TRANSACTION_READER_ID_LENGTH 0)) of
                   None \<Rightarrow> respond DFC_STATUS_INTEGRITY_ERROR (set_retryable True em) tx
                 | Some encrypted \<Rightarrow>
                     (case transaction_mac_candidate lib em of (result, candidate) \<Rightarrow>
                        let (result, candidate) =
                              (if result = TransactionMacUpdateOk
                               then added (dfc_transaction_mac_accumulator_add_reader_id lib candidate (Some reader_id)
                                 (if authenticated then Some encrypted else None))
                               else (result, candidate))
                        in if result \<noteq> TransactionMacUpdateOk
                           then respond DFC_STATUS_BOUNDARY_ERROR (set_retryable (result = TransactionMacUpdateCryptoFailed) em) tx
                           else
                             let em = em\<lparr>em_tmac := (em_tmac em)\<lparr>transaction_mac := candidate,
                                   transaction_pending_reader_id := take DFC_TRANSACTION_READER_ID_LENGTH reader_id,
                                   transaction_reader_id_pending := True, transaction_reader_id_persist := authenticated\<rparr>\<rparr>;
                                 tx = dfc_bytebuf_append_byte tx DFC_STATUS_OK
                             in (em, if authenticated then dfc_bytebuf_append_bytes tx encrypted else tx))))"

definition transaction_changed :: "DfcEmulator \<Rightarrow> bool" where
  "transaction_changed em \<longleftrightarrow> acc_has_pending (transaction_mac (em_tmac em)) \<or>
     list_ex (\<lambda>f. unat (f_app_index f) = selected_app_index em \<and>
       ((f_type f = DFC_FILE_TYPE_VALUE \<and> value_pending (state_value (f_state f))) \<or> f_transaction_pending f))
       (take (unat (c_num_files (credential em))) (c_files (credential em)))"

definition dfc_emulator_command_commit_transaction ::
  "'x mbedtls \<Rightarrow> DfcEmulator \<Rightarrow> bool \<Rightarrow> DfcByteBuf \<Rightarrow> DfcEmulator \<times> DfcByteBuf" where
  "dfc_emulator_command_commit_transaction lib em return_transaction_mac tx =
     (if \<not> transaction_changed em then respond DFC_STATUS_NO_CHANGES em tx
      else case transaction_mac_file em of
        None \<Rightarrow> respond DFC_STATUS_OK (dfc_emulator_publish_transaction em) tx
      | Some i \<Rightarrow>
          if dfc_access_nibble (f_access_rights (file_at em i)) 4 \<noteq> DFC_ACCESS_DENY \<and>
             \<not> transaction_reader_id_pending (em_tmac em)
          then respond DFC_STATUS_PERMISSION_DENIED em tx
          else case transaction_mac_calculate lib em i of
            None \<Rightarrow> respond DFC_STATUS_INTEGRITY_ERROR em tx
          | Some (mac, next_counter) \<Rightarrow>
              let t = em_tmac em;
                  em = (if transaction_reader_id_persist t
                    then upd_tmac_file i (\<lambda>s. s\<lparr>tmac_previous_reader_id := transaction_pending_reader_id t\<rparr>) em else em);
                  em = dfc_emulator_publish_transaction em;
                  tx = dfc_bytebuf_append_byte tx DFC_STATUS_OK;
                  em = upd_tmac_file i (\<lambda>s. s\<lparr>tmac_counter := next_counter\<rparr>) em
              in (em, if return_transaction_mac
                      then dfc_bytebuf_append_bytes (dfc_bytebuf_append_bytes tx
                        [ucast next_counter, ucast (drop_bit 8 next_counter), ucast (drop_bit 16 next_counter),
                         ucast (drop_bit 24 next_counter)]) mac
                      else tx))"

definition dfc_emulator_command_abort_transaction :: "DfcEmulator \<Rightarrow> DfcByteBuf \<Rightarrow> DfcEmulator \<times> DfcByteBuf" where
  "dfc_emulator_command_abort_transaction em tx =
     (case dfc_emulator_abort_transaction em of (changed, em) \<Rightarrow>
        respond (if changed then DFC_STATUS_OK else DFC_STATUS_NO_CHANGES) em tx)"

definition dfc_emulator_command_clear_selected_app_pending_values :: "DfcEmulator \<Rightarrow> DfcEmulator" where
  "dfc_emulator_command_clear_selected_app_pending_values em =
     em\<lparr>credential := map_files (\<lambda>f. if unat (f_app_index f) \<noteq> selected_app_index em \<or> f_type f \<noteq> DFC_FILE_TYPE_VALUE then f
          else clear_pending_value f) (credential em),
        em_tmac := clear_transaction_mac (em_tmac em)\<rparr>"

end
