(* ===== verification/Dfc_Purse.thy ===== *)
theory Dfc_Purse
  imports Dfc_Transactions
begin

text \<open>
  What the transaction commands mean: each value file is a purse with a committed balance, perhaps a
  staged one, and two limits. Every command of \<^verbatim>\<open>Dfc_Transactions\<close>, and every session event of
  \<^verbatim>\<open>Dfc_Session\<close>, moves each purse by one step of that abstract machine, from which the limits follow.
  A commit is all or nothing and final.
\<close>

subsection \<open>The abstract purse\<close>

text \<open>Lower limit, upper limit, committed balance, staged balance.\<close>

type_synonym purse = "int \<times> int \<times> int \<times> int option"

definition purse_balance :: "purse \<Rightarrow> int" where
  "purse_balance p = (case p of (lo, up, b, s) \<Rightarrow> case s of None \<Rightarrow> b | Some x \<Rightarrow> x)"

inductive purse_step :: "purse \<Rightarrow> purse \<Rightarrow> bool" where
  stay: "purse_step p p"
| stage: "lo \<le> purse_balance (lo, up, b, s) + d \<Longrightarrow> purse_balance (lo, up, b, s) + d \<le> up \<Longrightarrow>
    purse_step (lo, up, b, s) (lo, up, b, Some (purse_balance (lo, up, b, s) + d))"
| commit: "purse_step (lo, up, b, Some x) (lo, up, x, None)"
| abort: "purse_step (lo, up, b, s) (lo, up, b, None)"

definition purse_ok :: "purse \<Rightarrow> bool" where
  "purse_ok p \<longleftrightarrow> (case p of (lo, up, b, s) \<Rightarrow> lo \<le> b \<and> b \<le> up \<and> (case s of None \<Rightarrow> True | Some x \<Rightarrow> lo \<le> x \<and> x \<le> up))"

lemma purse_step_ok: "purse_step p q \<Longrightarrow> purse_ok p \<Longrightarrow> purse_ok q"
  by (induction rule: purse_step.induct) (auto simp: purse_ok_def split: option.splits)

definition purse_of :: "DfcValueFileState \<Rightarrow> purse" where
  "purse_of v = (sint (lower_limit v), sint (upper_limit v), sint (current_value v),
     if value_pending v then Some (sint (pending_value v)) else None)"

subsection \<open>The value part of the files\<close>

definition val_of :: "DfcFile \<Rightarrow> u8 \<times> u8 \<times> DfcValueFileState" where
  "val_of f = (f_app_index f, f_type f, state_value (f_state f))"

definition file_values :: "DfcCredential \<Rightarrow> (u8 \<times> u8 \<times> DfcValueFileState) list" where
  "file_values c = map val_of (take (unat (c_num_files c)) (c_files c))"

text \<open>A pending value is held in full: the delta form is never needed to publish it.\<close>

definition held :: "u8 \<times> u8 \<times> DfcValueFileState \<Rightarrow> bool" where
  "held x \<longleftrightarrow> (case x of (_, ty, v) \<Rightarrow> ty = DFC_FILE_TYPE_VALUE \<longrightarrow> value_pending v \<longrightarrow> pending_absolute v)"

definition values_held :: "DfcEmulator \<Rightarrow> bool" where
  "values_held em \<longleftrightarrow> list_all held (file_values (credential em))"

definition moves :: "u8 \<times> u8 \<times> DfcValueFileState \<Rightarrow> u8 \<times> u8 \<times> DfcValueFileState \<Rightarrow> bool" where
  "moves x y \<longleftrightarrow> (case x of (a, ty, v) \<Rightarrow> case y of (a', ty', v') \<Rightarrow>
     a' = a \<and> ty' = ty \<and> held y \<and> (ty = DFC_FILE_TYPE_VALUE \<longrightarrow> purse_step (purse_of v) (purse_of v')))"

lemma moves_refl: "held x \<Longrightarrow> moves x x"
  by (cases x) (simp add: moves_def stay)

definition all_move :: "DfcCredential \<Rightarrow> DfcCredential \<Rightarrow> bool" where
  "all_move c c' \<longleftrightarrow> list_all2 moves (file_values c) (file_values c')"

lemma all_move_same: "values_held em \<Longrightarrow> file_values c = file_values (credential em) \<Longrightarrow> all_move (credential em) c"
  by (simp add: all_move_def values_held_def list_all2_conv_all_nth list_all_length moves_refl)

lemma file_values_map_files: "file_values (map_files g c) = map (val_of \<circ> g) (take (unat (c_num_files c)) (c_files c))"
  by (simp add: file_values_def map_files_def) linarith

lemma all_move_map_files:
  assumes "\<And>f. held (val_of f) \<Longrightarrow> moves (val_of f) (val_of (g f))" "values_held em"
    "file_values (credential em) = file_values c"
  shows "all_move (credential em) (map_files g c)"
proof -
  have "list_all held (map val_of (take (unat (c_num_files c)) (c_files c)))"
    using assms(2,3) by (simp add: values_held_def file_values_def)
  then show ?thesis
    unfolding all_move_def assms(3) unfolding file_values_map_files unfolding file_values_def
    using assms(1) by (simp add: list_all2_conv_all_nth list_all_length)
qed

lemma file_values_simps [simp]:
  "file_values (c\<lparr>c_file_pool := p\<rparr>) = file_values c" "file_values (c\<lparr>c_dirty := d\<rparr>) = file_values c"
  by (simp_all add: file_values_def)

lemma file_values_upd_file:
  assumes "\<And>f. val_of (g f) = val_of f"
  shows "file_values (upd_file i g c) = file_values c"
  unfolding file_values_def upd_file_def
proof (rule nth_equalityI)
  fix k assume k: "k < length (map val_of (take (unat (c_num_files (c\<lparr>c_files := (c_files c)[i := g (c_files c ! i)]\<rparr>)))
    (c_files (c\<lparr>c_files := (c_files c)[i := g (c_files c ! i)]\<rparr>))))"
  then show "map val_of (take (unat (c_num_files (c\<lparr>c_files := (c_files c)[i := g (c_files c ! i)]\<rparr>)))
      (c_files (c\<lparr>c_files := (c_files c)[i := g (c_files c ! i)]\<rparr>))) ! k = map val_of (take (unat (c_num_files c)) (c_files c)) ! k"
    by (cases "k = i") (simp_all add: assms)
qed simp

subsection \<open>Session events\<close>

lemma abort_wipe_values: "file_values (abort_wipe_file a i c) = file_values c"
  by (auto simp: abort_wipe_file_def Let_def file_values_upd_file val_of_def set_record_count_def split: option.splits)

lemma abort_restore_values: "file_values (abort_restore_file j a i c) = file_values c"
  by (auto simp: abort_restore_file_def Let_def file_values_upd_file val_of_def set_record_count_def)

lemma fold_values: "(\<And>i c. file_values (g i c) = file_values c) \<Longrightarrow> file_values (fold g is c) = file_values c"
  by (induction "is" arbitrary: c) simp_all

lemma snapshot_clear_credential [simp]: "credential (transaction_snapshot_clear_state em) = credential em"
  by (auto simp: transaction_snapshot_clear_state_def dfc_emulator_discard_transaction_snapshot_def transaction_snapshot_replace_def
      upd_journal_def Let_def split: option.splits)

lemma abort_snapshot_values:
  "file_values (credential (snd (dfc_emulator_abort_transaction_snapshot em))) = file_values (credential em)"
  by (simp add: dfc_emulator_abort_transaction_snapshot_def Let_def fold_values abort_wipe_values abort_restore_values)

lemma retire_credential [simp]: "credential (dfc_emulator_retire_authentication em) = credential em"
  by (simp add: dfc_emulator_retire_authentication_def Let_def dfc_emulator_retire_sdm_read_cache_def
      dfc_emulator_discard_command_chain_def clear_native_authentication_def dfc_emulator_clear_iso_authentication_def
      dfc_emulator_clear_pending_authentication_storage_def)

lemma clear_pending_moves: "moves (val_of f) (val_of (clear_pending_value f))"
  by (simp add: moves_def val_of_def clear_pending_value_def held_def purse_of_def abort)

lemma publish_moves: "held (val_of f) \<Longrightarrow> moves (val_of f) (val_of (publish_file app f))"
  by (auto simp: moves_def val_of_def publish_file_def publish_value_def held_def purse_of_def Let_def stay commit)

lemma abort_transaction_moves:
  assumes "values_held em"
  shows "all_move (credential em) (credential (snd (dfc_emulator_abort_transaction em)))"
proof -
  let ?em = "if acc_has_pending (transaction_mac (em_tmac em)) \<or> transaction_reader_id_pending (em_tmac em)
    then em\<lparr>em_tmac := clear_transaction_mac (em_tmac em)\<rparr> else em"
  obtain restored em1 where a: "dfc_emulator_abort_transaction_snapshot ?em = (restored, em1)" by (cases "dfc_emulator_abort_transaction_snapshot ?em")
  have "file_values (credential em) = file_values (credential em1)"
    using abort_snapshot_values [of ?em] a by (simp split: if_splits)
  then have "all_move (credential em) (map_files
      (\<lambda>f. if value_file_pending (selected_app_index em1) f then clear_pending_value f else f) (credential em1))"
    using assms by (intro all_move_map_files) (auto simp: clear_pending_moves moves_refl)
  then show ?thesis using a by (simp add: dfc_emulator_abort_transaction_def Let_def)
qed

lemma publish_transaction_moves:
  "values_held em \<Longrightarrow> all_move (credential em) (credential (dfc_emulator_publish_transaction em))"
  using all_move_map_files [of "publish_file (selected_app_index em)" em "credential em"] publish_moves
  by (simp add: dfc_emulator_publish_transaction_def Let_def all_move_def dfc_credential_mark_dirty_def)

lemma reset_session_moves: "values_held em \<Longrightarrow> all_move (credential em) (credential (dfc_emulator_reset_session em))"
  by (simp add: dfc_emulator_reset_session_def abort_transaction_moves)

lemma select_moves: "values_held em \<Longrightarrow> all_move (credential em) (credential (dfc_emulator_select_application em s i))"
  using reset_session_moves by (simp add: dfc_emulator_select_application_def Let_def)

lemma reset_activation_moves: "values_held em \<Longrightarrow> all_move (credential em) (credential (dfc_emulator_reset_activation em))"
  using abort_transaction_moves by (simp add: dfc_emulator_reset_activation_def Let_def zero_emulator_def)

lemma clear_selected_moves:
  "values_held em \<Longrightarrow> all_move (credential em) (credential (dfc_emulator_command_clear_selected_app_pending_values em))"
  using all_move_map_files [of "\<lambda>f. if unat (f_app_index f) \<noteq> selected_app_index em \<or> f_type f \<noteq> DFC_FILE_TYPE_VALUE then f
      else clear_pending_value f" em "credential em"]
  by (auto simp: dfc_emulator_command_clear_selected_app_pending_values_def clear_pending_moves moves_refl)

subsection \<open>Commands\<close>

lemma mac_add_credential: "transaction_mac_add lib em add = (ok, em') \<Longrightarrow> credential em' = credential em"
  by (auto simp: transaction_mac_add_def transaction_mac_publish_candidate_def Let_def split: if_splits prod.splits)

lemma add_value_credential:
  "dfc_emulator_command_transaction_mac_add_value lib em cmd n v = (ok, em') \<Longrightarrow> credential em' = credential em"
  unfolding dfc_emulator_command_transaction_mac_add_value_def by (rule mac_add_credential)

text \<open>An emulator whose files are those of \<open>em\<close>, or those of \<open>em\<close> after its session was reset.\<close>

definition same_or_reset :: "DfcEmulator \<Rightarrow> DfcEmulator \<Rightarrow> bool" where
  "same_or_reset em em' \<longleftrightarrow> credential em' = credential em \<or>
     (\<exists>em1. credential em1 = credential em \<and> em' = dfc_emulator_reset_session em1)"

lemma same_or_reset_refl [simp]: "same_or_reset em em"
  by (simp add: same_or_reset_def)

lemma same_or_resetI: "credential em' = credential em \<Longrightarrow> same_or_reset em em'"
  by (simp add: same_or_reset_def)

lemma same_or_reset_session: "credential em1 = credential em \<Longrightarrow> same_or_reset em (dfc_emulator_reset_session em1)"
  by (auto simp: same_or_reset_def)

lemma same_or_reset_moves:
  assumes "values_held em" "same_or_reset em em'"
  shows "all_move (credential em) (credential em')"
proof (cases "credential em' = credential em")
  case False
  then obtain em1 where "credential em1 = credential em" "em' = dfc_emulator_reset_session em1"
    using assms(2) by (auto simp: same_or_reset_def)
  then show ?thesis using reset_session_moves [of em1] assms(1) by (simp add: values_held_def)
qed (simp add: all_move_same assms(1))

lemma value_amount_ev1_effect:
  "value_amount_ev1 lib clear em cmd comm body = Inl (status, em') \<Longrightarrow> same_or_reset em em'"
  "value_amount_ev1 lib clear em cmd comm body = Inr (amount, em') \<Longrightarrow> credential em' = credential em"
proof -
  have r: "same_or_reset em (dfc_emulator_reset_session (em\<lparr>secure_messaging := s\<rparr>))" for s
    by (rule same_or_reset_session) simp
  have k: "same_or_reset em (em\<lparr>secure_messaging := s\<rparr>)" for s by (simp add: same_or_resetI)
  show "value_amount_ev1 lib clear em cmd comm body = Inl (status, em') \<Longrightarrow> same_or_reset em em'"
    by (auto simp: value_amount_ev1_def Let_def r k split: if_splits prod.splits bool.splits)
  show "value_amount_ev1 lib clear em cmd comm body = Inr (amount, em') \<Longrightarrow> credential em' = credential em"
    by (auto simp: value_amount_ev1_def Let_def split: if_splits prod.splits bool.splits)
qed

lemma value_amount_d40_effect:
  "value_amount_d40 lib clear em cmd comm body = Inl (status, em') \<Longrightarrow> credential em' = credential em"
  "value_amount_d40 lib clear em cmd comm body = Inr (amount, em') \<Longrightarrow> credential em' = credential em"
  by (auto simp: value_amount_d40_def Let_def split: if_splits prod.splits)

lemma value_amount_effect:
  "value_amount lib clear em cmd comm body = Inl (status, em') \<Longrightarrow> same_or_reset em em'"
  "value_amount lib clear em cmd comm body = Inr (amount, em') \<Longrightarrow> credential em' = credential em"
  unfolding value_amount_def
  by (auto split: if_splits dest: value_amount_ev1_effect value_amount_d40_effect intro: same_or_resetI)

lemma get_value_effect: "same_or_reset em (fst (dfc_emulator_command_get_value lib em apdu tx))"
  by (auto simp: dfc_emulator_command_get_value_def respond_def Let_def dest!: add_value_credential
      intro: same_or_resetI same_or_reset_session split: option.splits prod.splits bool.splits)

lemma clear_reader_id_credential: "clear_reader_id_of lib em buffer = (r, em') \<Longrightarrow> credential em' = credential em"
  by (auto simp: clear_reader_id_of_def Let_def split: if_splits prod.splits)

lemma commit_reader_id_effect: "credential (fst (dfc_emulator_command_commit_reader_id lib em buffer tx)) = credential em"
  by (auto simp: dfc_emulator_command_commit_reader_id_def respond_def set_retryable_def Let_def dest!: clear_reader_id_credential
      split: option.splits prod.splits)

lemma sint_of_int_u32: "- (2 ^ 31) \<le> x \<Longrightarrow> x < 2 ^ 31 \<Longrightarrow> sint (word_of_int x :: u32) = x"
  using signed_take_bit_int_eq_self [of 31 x] by (simp add: signed_of_int)

lemma sint_u32_bounds: "- (2 ^ 31) \<le> sint (w :: u32)" "sint (w :: u32) < 2 ^ 31"
  using sint_ge [of w] sint_lt [of w] by simp_all

lemma value_delta_result_balance:
  assumes "value_delta_result f delta = Some n" "f_type f = DFC_FILE_TYPE_VALUE" "held (val_of f)"
  shows "sint n = purse_balance (purse_of (state_value (f_state f))) + sint delta"
    "sint (lower_limit (state_value (f_state f))) \<le> sint n" "sint n \<le> sint (upper_limit (state_value (f_state f)))"
proof -
  let ?v = "state_value (f_state f)"
  have abs: "value_pending ?v \<longrightarrow> pending_absolute ?v" using assms(2,3) by (simp add: held_def val_of_def)
  then have n: "n = word_of_int (purse_balance (purse_of ?v) + sint delta)"
    and b: "sint (lower_limit ?v) \<le> purse_balance (purse_of ?v) + sint delta" "purse_balance (purse_of ?v) + sint delta \<le> sint (upper_limit ?v)"
    using assms(1) by (auto simp: value_delta_result_def Let_def purse_balance_def purse_of_def split: if_splits)
  have "sint n = purse_balance (purse_of ?v) + sint delta"
    unfolding n using b sint_u32_bounds [of "lower_limit ?v"] sint_u32_bounds [of "upper_limit ?v"] by (intro sint_of_int_u32) linarith+
  then show "sint n = purse_balance (purse_of ?v) + sint delta" "sint (lower_limit ?v) \<le> sint n" "sint n \<le> sint (upper_limit ?v)"
    using b by simp_all
qed

lemma stage_value_purse:
  "purse_of (stage_value n amount debit limited v) =
     (sint (lower_limit v), sint (upper_limit v), sint (current_value v), Some (sint n))"
  "pending_absolute (stage_value n amount debit limited v)"
  by (simp_all add: stage_value_def Let_def purse_of_def)

lemma staged_moves:
  assumes "value_delta_result f delta = Some n" "f_type f = DFC_FILE_TYPE_VALUE" "held (val_of f)"
  shows "moves (val_of f) (val_of (f\<lparr>f_state := (f_state f)\<lparr>state_value := stage_value n amount debit limited (state_value (f_state f))\<rparr>\<rparr>))"
proof -
  let ?v = "state_value (f_state f)"
  note b = value_delta_result_balance [OF assms]
  obtain lo up c s where p: "purse_of ?v = (lo, up, c, s)" by (cases "purse_of ?v")
  have "purse_step (purse_of ?v) (lo, up, c, Some (sint n))"
  proof -
    have "lo = sint (lower_limit ?v)" "up = sint (upper_limit ?v)" using p by (simp_all add: purse_of_def)
    then show ?thesis using stage [of lo up c s "sint delta"] b unfolding p by simp
  qed
  then show ?thesis
    using p stage_value_purse(2) unfolding moves_def val_of_def held_def by (simp add: stage_value_purse) (simp add: purse_of_def)
qed

lemma all_move_upd_value:
  assumes "values_held em" "credential em' = credential em" "i < unat (c_num_files (credential em))"
    "moves (val_of (file_at em i)) (val_of ((file_at em i)\<lparr>f_state := (f_state (file_at em i))\<lparr>state_value := g (state_value (f_state (file_at em i)))\<rparr>\<rparr>))"
  shows "all_move (credential em) (credential (upd_value i g em'))"
proof -
  let ?xs = "take (unat (c_num_files (credential em))) (c_files (credential em))"
  let ?h = "\<lambda>f. f\<lparr>f_state := (f_state f)\<lparr>state_value := g (state_value (f_state f))\<rparr>\<rparr>"
  have v: "file_values (credential (upd_value i g em')) = map val_of (?xs[i := ?h (c_files (credential em) ! i)])"
    using assms(2) by (simp add: upd_value_def file_values_def upd_file_def take_update_swap)
  have "moves (val_of (?xs ! k)) (val_of (?xs[i := ?h (c_files (credential em) ! i)] ! k))" if k: "k < length ?xs" for k
  proof (cases "k = i")
    case True
    then show ?thesis using k assms(4) by (simp add: file_at_def)
  next
    case False
    have "held (val_of (?xs ! k))" using assms(1) k by (simp add: values_held_def file_values_def list_all_length)
    then show ?thesis using False k by (simp add: moves_refl)
  qed
  then show ?thesis unfolding all_move_def v unfolding file_values_def by (simp add: list_all2_conv_all_nth)
qed

lemma find_file_in_app_bound:
  "dfc_credential_find_file_in_app c a n = Some i \<Longrightarrow> i < unat (c_num_files c) \<and> unat (f_app_index (c_files c ! i)) = a \<and> f_number (c_files c ! i) = n"
  unfolding dfc_credential_find_file_in_app_def by (drule find_index_from_Some) auto

lemma value_delta_apply_cases:
  fixes lib em i number tx cmd debit limited amount
  defines "em' \<equiv> fst (value_delta_apply lib em i number tx cmd debit limited amount)"
  shows "credential em' = credential em \<or> (\<exists>em1 n. credential em1 = credential em \<and> 0 \<le> sint amount \<and>
    value_delta_result (file_at em i) (if debit then - amount else amount) = Some n \<and>
    em' = upd_value i (stage_value n amount debit limited) em1)"
proof (cases "sint amount < 0 \<or> (limited \<and> limited_credit_refusal (state_value (f_state (file_at em i))) amount \<noteq> None) \<or>
    value_delta_result (file_at em i) (if debit then - amount else amount) = None")
  case True
  then have "em' = em"
    unfolding em'_def value_delta_apply_def Let_def by (auto simp: respond_def split: option.split)
  then show ?thesis by simp
next
  case False
  then obtain n where n: "value_delta_result (file_at em i) (if debit then - amount else amount) = Some n" by auto
  obtain ok em1 where a: "dfc_emulator_command_transaction_mac_add_value lib em cmd number (Some (dfc_write_uint32_le amount)) = (ok, em1)"
    by (cases "dfc_emulator_command_transaction_mac_add_value lib em cmd number (Some (dfc_write_uint32_le amount))")
  have "em' = (if ok then upd_value i (stage_value n amount debit limited) em1 else em1)"
    using False n a unfolding em'_def value_delta_apply_def Let_def by (auto simp: respond_def)
  then show ?thesis using add_value_credential [OF a] False n by auto
qed

text \<open>What a value command does: nothing but a status, a reset session, or exactly one staged value.\<close>

lemma value_delta_cases:
  fixes lib clear em apdu tx cmd debit limited
  defines "em' \<equiv> fst (dfc_emulator_command_value_delta lib clear em apdu tx cmd debit limited)"
  shows "same_or_reset em em' \<or> (\<exists>i em1 amount n. dfc_credential_find_file_in_app (credential em) (selected_app_index em) (apdu ! 1) = Some i \<and>
    f_type (file_at em i) = DFC_FILE_TYPE_VALUE \<and> credential em1 = credential em \<and> 0 \<le> sint amount \<and>
    value_delta_result (file_at em i) (if debit then - amount else amount) = Some n \<and>
    em' = upd_value i (stage_value n amount debit limited) em1)"
proof (cases "dfc_credential_find_file_in_app (credential em) (selected_app_index em) (apdu ! 1)")
  case (Some i)
  let ?f = "file_at em i"
  let ?comm = "dfc_emulator_file_effective_comm_settings_for_rights em ?f debit (debit \<or> limited) True (f_comm_settings ?f)"
  have e: "em' = (if f_type ?f = 0x02 \<and> value_command_allowed ?f em debit limited
      then (case value_amount lib clear em cmd ?comm (drop 1 apdu) of
          Inl (status, em1) \<Rightarrow> em1
        | Inr (amount, em1) \<Rightarrow> fst (value_delta_apply lib em1 i (apdu ! 1) tx cmd debit limited amount)) else em)"
    unfolding em'_def dfc_emulator_command_value_delta_def Some option.case Let_def
    by (simp add: respond_def split: sum.split prod.split)
  consider "em' = em" | status em1 where "value_amount lib clear em cmd ?comm (drop 1 apdu) = Inl (status, em1)" "em' = em1"
    | amount em1 where "f_type ?f = 0x02" "value_amount lib clear em cmd ?comm (drop 1 apdu) = Inr (amount, em1)"
      "em' = fst (value_delta_apply lib em1 i (apdu ! 1) tx cmd debit limited amount)"
    using e by (cases "value_amount lib clear em cmd ?comm (drop 1 apdu)") (auto split: if_splits)
  then show ?thesis
  proof cases
    case 3
    have c1: "credential em1 = credential em" using value_amount_effect(2) 3(2) by blast
    have f1: "file_at em1 i = ?f" using c1 by (simp add: file_at_def)
    have ty: "f_type ?f = DFC_FILE_TYPE_VALUE" using 3(1) by (simp add: DFC_FILE_TYPE_VALUE_def)
    show ?thesis
      using value_delta_apply_cases [of lib em1 i "apdu ! 1" tx cmd debit limited amount, folded 3(3), unfolded f1 c1] Some ty same_or_resetI
      by blast
  qed (use value_amount_effect(1) in auto)
qed (simp add: em'_def dfc_emulator_command_value_delta_def respond_def)

lemma value_delta_moves:
  assumes "values_held em"
  shows "all_move (credential em) (credential (fst (dfc_emulator_command_value_delta lib clear em apdu tx cmd debit limited)))"
proof -
  let ?em' = "fst (dfc_emulator_command_value_delta lib clear em apdu tx cmd debit limited)"
  consider "same_or_reset em ?em'" | i em1 amount n where "dfc_credential_find_file_in_app (credential em) (selected_app_index em) (apdu ! 1) = Some i"
    "f_type (file_at em i) = DFC_FILE_TYPE_VALUE" "credential em1 = credential em"
    "value_delta_result (file_at em i) (if debit then - amount else amount) = Some n"
    "?em' = upd_value i (stage_value n amount debit limited) em1"
    using value_delta_cases [of em lib clear apdu tx cmd debit limited] by blast
  then show ?thesis
  proof cases
    case 2
    have i: "i < unat (c_num_files (credential em))" using find_file_in_app_bound [OF 2(1)] by simp
    show ?thesis
    proof (cases "i < length (c_files (credential em))")
      case True
      have "held (val_of (file_at em i))"
        using assms i True by (simp add: values_held_def file_values_def list_all_length file_at_def)
      then show ?thesis
        unfolding 2(5) by (intro all_move_upd_value [OF assms 2(3) i] staged_moves [OF 2(4,2)])
    next
      case False
      then show ?thesis unfolding 2(5) using assms 2(3)
        by (intro all_move_same) (simp_all add: upd_value_def upd_file_def file_values_def list_update_beyond not_less)
    qed
  qed (rule same_or_reset_moves [OF assms])
qed

lemma upd_tmac_values: "file_values (credential (upd_tmac_file i g em)) = file_values (credential em)"
  by (simp add: upd_tmac_file_def file_values_upd_file val_of_def)

lemma commit_transaction_moves:
  assumes "values_held em"
  shows "all_move (credential em) (credential (fst (dfc_emulator_command_commit_transaction lib em return_mac tx)))"
proof -
  have pub: "all_move (credential em) (credential em2)"
    if "file_values (credential em1) = file_values (credential em)"
      "file_values (credential em2) = file_values (credential (dfc_emulator_publish_transaction em1))" for em1 em2
  proof -
    have "values_held em1" using assms that(1) by (simp add: values_held_def)
    then show ?thesis using publish_transaction_moves [of em1] that by (simp add: all_move_def)
  qed
  have same: "all_move (credential em) (credential em)" by (rule all_move_same [OF assms refl])
  have pub2: "all_move (credential em) (credential (upd_tmac_file i g (dfc_emulator_publish_transaction (upd_tmac_file i h em))))"
    "all_move (credential em) (credential (upd_tmac_file i g (dfc_emulator_publish_transaction em)))"
    "all_move (credential em) (credential (dfc_emulator_publish_transaction em))" for i g h
    by (rule pub [of "upd_tmac_file i h em"], simp_all only: upd_tmac_values) (rule pub [of em], simp_all only: upd_tmac_values)+
  show ?thesis
    by (auto simp: dfc_emulator_command_commit_transaction_def respond_def Let_def same pub2 split: option.split)
qed

subsection \<open>Every event of the card\<close>

inductive card_step :: "'x mbedtls \<Rightarrow> DfcEmulator \<Rightarrow> DfcEmulator \<Rightarrow> bool" for lib where
  card_value: "card_step lib em (fst (dfc_emulator_command_value_delta lib clear em apdu tx cmd debit limited))"
| card_get_value: "card_step lib em (fst (dfc_emulator_command_get_value lib em apdu tx))"
| card_reader_id: "card_step lib em (fst (dfc_emulator_command_commit_reader_id lib em buffer tx))"
| card_commit: "card_step lib em (fst (dfc_emulator_command_commit_transaction lib em return_mac tx))"
| card_abort: "card_step lib em (fst (dfc_emulator_command_abort_transaction em tx))"
| card_clear: "card_step lib em (dfc_emulator_command_clear_selected_app_pending_values em)"
| card_reset: "card_step lib em (dfc_emulator_reset_session em)"
| card_select: "card_step lib em (dfc_emulator_select_application em s i)"
| card_time: "card_step lib em (dfc_emulator_advance_time em t)"

lemma card_step_moves: "card_step lib em em' \<Longrightarrow> values_held em \<Longrightarrow> all_move (credential em) (credential em')"
proof (induction rule: card_step.induct)
  case (card_abort em tx)
  then show ?case
    using abort_transaction_moves [of em] by (simp add: dfc_emulator_command_abort_transaction_def respond_def case_prod_beta)
next
  case (card_time em t)
  then show ?case
    using reset_activation_moves [of "em\<lparr>transaction_timer_elapsed_milliseconds := u\<rparr>" for u] all_move_same [of em "credential em"]
    by (auto simp: dfc_emulator_advance_time_def Let_def values_held_def reset_activation_timer)
qed (simp_all add: value_delta_moves same_or_reset_moves get_value_effect commit_reader_id_effect all_move_same commit_transaction_moves
    clear_selected_moves reset_session_moves select_moves)

lemma moves_held: "moves x y \<Longrightarrow> held y"
  by (cases x; cases y) (simp add: moves_def)

lemma all_move_held: "all_move (credential em) (credential em') \<Longrightarrow> values_held em'"
  by (auto simp: all_move_def values_held_def list_all2_conv_all_nth list_all_length dest: moves_held)

subsection \<open>Properties\<close>

definition values_in_limits :: "DfcEmulator \<Rightarrow> bool" where
  "values_in_limits em \<longleftrightarrow> list_all (\<lambda>(a, ty, v). ty = DFC_FILE_TYPE_VALUE \<longrightarrow> purse_ok (purse_of v)) (file_values (credential em))"

lemma all_move_limits:
  assumes "all_move (credential em) (credential em')" "values_in_limits em"
  shows "values_in_limits em'"
proof -
  have "purse_ok (purse_of v')" if "n < length (file_values (credential em'))" "file_values (credential em') ! n = (a, DFC_FILE_TYPE_VALUE, v')" for n a v'
  proof -
    obtain a0 ty v where x: "file_values (credential em) ! n = (a0, ty, v)" by (cases "file_values (credential em) ! n")
    have len: "n < length (file_values (credential em))" and m: "moves (a0, ty, v) (a, DFC_FILE_TYPE_VALUE, v')"
      using assms(1) that x by (auto simp: all_move_def list_all2_conv_all_nth)
    have "purse_ok (purse_of v)" "purse_step (purse_of v) (purse_of v')"
      using assms(2) len m x by (auto simp: values_in_limits_def list_all_length moves_def)
    then show ?thesis by (rule purse_step_ok [rotated])
  qed
  then show ?thesis by (auto simp: values_in_limits_def list_all_length split: prod.splits)
qed

text \<open>
  The card of the concrete instances: application 0 is selected and has one value file between 0 and 100
  that holds 40, which anyone may read and write.
\<close>

definition sample_purse_file :: DfcFile where
  "sample_purse_file = zero_file\<lparr>f_number := 1, f_type := DFC_FILE_TYPE_VALUE, f_access_rights := 0xEEEE,
     f_state := zero_file_state\<lparr>state_value := (state_value zero_file_state)\<lparr>upper_limit := 100, current_value := 40\<rparr>\<rparr>\<rparr>"

definition sample_purse_card :: DfcEmulator where
  "sample_purse_card = (zero_emulator zero_bytebuf None (zero_credential\<lparr>c_num_files := 1,
     c_files := (c_files zero_credential)[0 := sample_purse_file]\<rparr>))\<lparr>selected_application := DfcEmulatorSelectedApplicationApp\<rparr>"

lemma sample_purse_values:
  "file_values (credential sample_purse_card) = [(0, DFC_FILE_TYPE_VALUE, (state_value zero_file_state)\<lparr>upper_limit := 100, current_value := 40\<rparr>)]"
proof -
  have "c_files zero_credential = zero_file # replicate (DFC_MAX_FILES - 1) zero_file"
    by (simp add: zero_credential_def DFC_MAX_FILES_def numeral_eq_Suc)
  then show ?thesis
    by (simp add: file_values_def sample_purse_card_def zero_emulator_def val_of_def sample_purse_file_def zero_file_def)
qed

lemma sample_purse_ok [simp]: "values_held sample_purse_card" "values_in_limits sample_purse_card"
  by (simp_all add: values_held_def values_in_limits_def sample_purse_values held_def purse_ok_def purse_of_def zero_file_state_def)



text \<open>
  C5. Whatever commands and session events follow one another, the committed balance of every value file, and the staged
  one, stay between its limits.
\<close>

theorem values_stay_in_limits:
  assumes "(card_step lib)\<^sup>*\<^sup>* em em'" "values_held em" "values_in_limits em"
  shows "values_in_limits em'"
proof -
  have "values_held em' \<and> values_in_limits em'"
    using assms by induction (auto dest: card_step_moves all_move_held all_move_limits)
  then show ?thesis by blast
qed

theorem values_stay_in_limits_witness:
  "values_in_limits (dfc_emulator_reset_session (dfc_emulator_command_clear_selected_app_pending_values sample_purse_card))"
proof -
  have "(card_step xor_library)\<^sup>*\<^sup>* sample_purse_card
      (dfc_emulator_reset_session (dfc_emulator_command_clear_selected_app_pending_values sample_purse_card))"
    using card_clear [of xor_library sample_purse_card] card_reset [of xor_library] by (meson rtranclp.rtrancl_into_rtrancl rtranclp.rtrancl_refl)
  then show ?thesis by (rule values_stay_in_limits) simp_all
qed

lemma sint_minus_u32: "0 \<le> sint a \<Longrightarrow> sint (- a) = - sint a" for a :: u32
  using sint_of_int_u32 [of "- sint a"] sint_u32_bounds [of a] by simp

text \<open>
  C7. A credit or debit in the clear is accepted exactly when the balance with the transaction's earlier commands and
  this amount stays between the limits. Accepted, it stages exactly that sum, computed without wrap-around; refused,
  it changes nothing.
\<close>

theorem value_command_correct:
  fixes em apdu
  assumes "dfc_credential_find_file_in_app (credential em) (selected_app_index em) (apdu ! 1) = Some i" "i < length (c_files (credential em))"
    "f_type (file_at em i) = DFC_FILE_TYPE_VALUE" "values_held em" "value_command_allowed (file_at em i) em debit False"
    "\<not> dfc_emulator_native_authentication_active em" "transaction_mac_file em = None" "length apdu = 6"
    "0 \<le> sint (dfc_emulator_command_read_int32_le (drop 2 apdu))" "purse_of (state_value (f_state (file_at em i))) = (lo, up, b, s)"
    "d = (if debit then - 1 else 1) * sint (dfc_emulator_command_read_int32_le (drop 2 apdu))"
  shows "\<exists>em'. dfc_emulator_command_value_delta lib clear em apdu tx cmd debit False =
      (em', dfc_bytebuf_append_byte tx (if lo \<le> purse_balance (lo, up, b, s) + d \<and> purse_balance (lo, up, b, s) + d \<le> up
        then DFC_STATUS_OK else DFC_STATUS_BOUNDARY_ERROR)) \<and>
    (if lo \<le> purse_balance (lo, up, b, s) + d \<and> purse_balance (lo, up, b, s) + d \<le> up
     then purse_of (state_value (f_state (file_at em' i))) = (lo, up, b, Some (purse_balance (lo, up, b, s) + d)) else em' = em)"
proof -
  let ?a = "dfc_emulator_command_read_int32_le (drop 2 apdu)" and ?f = "file_at em i"
  let ?delta = "if debit then - ?a else ?a"
  have d: "sint ?delta = d" using assms(9,11) sint_minus_u32 [of ?a] by simp
  have i: "i < unat (c_num_files (credential em))" using find_file_in_app_bound [OF assms(1)] by simp
  have held: "held (val_of ?f)" using assms(2,4) i by (simp add: values_held_def file_values_def list_all_length file_at_def)
  have amount: "value_amount lib clear em cmd comm (drop 1 apdu) = Inr (?a, em)" for comm
    using assms(6,8) by (simp add: value_amount_def numeral_2_eq_2)
  have "dfc_emulator_command_value_delta lib clear em apdu tx cmd debit False = value_delta_apply lib em i (apdu ! 1) tx cmd debit False ?a"
    using assms(1,3,5) by (simp add: dfc_emulator_command_value_delta_def amount [unfolded One_nat_def] DFC_FILE_TYPE_VALUE_def)
  moreover have "dfc_emulator_command_transaction_mac_add_value lib em cmd n v = (True, em)" for n v
    using assms(7) by (simp add: dfc_emulator_command_transaction_mac_add_value_def transaction_mac_add_def)
  ultimately have run: "dfc_emulator_command_value_delta lib clear em apdu tx cmd debit False =
      (case value_delta_result ?f ?delta of None \<Rightarrow> (em, dfc_bytebuf_append_byte tx DFC_STATUS_BOUNDARY_ERROR)
       | Some n \<Rightarrow> (upd_value i (stage_value n ?a debit False) em, dfc_bytebuf_append_byte tx DFC_STATUS_OK))"
    using assms(9) by (simp add: value_delta_apply_def Let_def respond_def split: option.split)
  have lim: "lo = sint (lower_limit (state_value (f_state ?f)))" "up = sint (upper_limit (state_value (f_state ?f)))"
    "b = sint (current_value (state_value (f_state ?f)))" using assms(10) by (simp_all add: purse_of_def)
  show ?thesis
  proof (cases "value_delta_result ?f ?delta")
    case None
    have "\<not> (lo \<le> purse_balance (lo, up, b, s) + d \<and> purse_balance (lo, up, b, s) + d \<le> up)"
      using None held assms(3,10) d by (auto simp: value_delta_result_def Let_def purse_balance_def purse_of_def held_def val_of_def split: if_splits)
    then show ?thesis using None run by (intro exI [of _ em]) auto
  next
    case (Some n)
    note r = value_delta_result_balance [OF Some assms(3) held, unfolded assms(10) d]
    have "file_at (upd_value i (stage_value n ?a debit False) em) i =
        ?f\<lparr>f_state := (f_state ?f)\<lparr>state_value := stage_value n ?a debit False (state_value (f_state ?f))\<rparr>\<rparr>"
      using assms(2) by (simp add: upd_value_def file_at_def upd_file_def)
    then show ?thesis using Some run r lim by (simp add: stage_value_purse)
  qed
qed

theorem value_command_correct_witness:
  "\<exists>em'. dfc_emulator_command_value_delta xor_library [] sample_purse_card [DFC_CMD_DEBIT, 1, 30, 0, 0, 0] zero_bytebuf DFC_CMD_DEBIT True False =
      (em', dfc_bytebuf_append_byte zero_bytebuf DFC_STATUS_OK) \<and> purse_of (state_value (f_state (file_at em' 0))) = (0, 100, 40, Some 10)"
proof -
  have cs: "c_files (credential sample_purse_card) = sample_purse_file # replicate 31 zero_file"
    by (simp add: sample_purse_card_def zero_emulator_def zero_credential_def DFC_MAX_FILES_def numeral_eq_Suc)
  have n: "c_num_files (credential sample_purse_card) = 1" "selected_app_index sample_purse_card = 0"
    "auth_cipher (em_auth sample_purse_card) = 0" by (simp_all add: sample_purse_card_def zero_emulator_def zero_auth_def)
  have f: "file_at sample_purse_card 0 = sample_purse_file" by (simp add: file_at_def cs)
  have find: "dfc_credential_find_file_in_app (credential sample_purse_card) (selected_app_index sample_purse_card) 1 = Some 0"
    "transaction_mac_file sample_purse_card = None"
    by (simp_all add: dfc_credential_find_file_in_app_def transaction_mac_file_def dfc_credential_find_transaction_mac_file_def
        find_index_from.simps cs n sample_purse_file_def zero_file_def DFC_FILE_TYPE_VALUE_def DFC_FILE_TYPE_TRANSACTION_MAC_def)
  have a: "dfc_emulator_command_read_int32_le [30, 0, 0, 0] = 30" by (simp add: dfc_emulator_command_read_int32_le_def)
  have allowed: "value_command_allowed sample_purse_file sample_purse_card True False" by code_simp
  have p: "purse_of (state_value (f_state sample_purse_file)) = (0, 100, 40, None)"
    by (simp add: purse_of_def sample_purse_file_def zero_file_state_def)
  show ?thesis
    using value_command_correct [of sample_purse_card "[DFC_CMD_DEBIT, 1, 30, 0, 0, 0]" 0 True 0 100 40 None "- 30" xor_library "[]" zero_bytebuf
        DFC_CMD_DEBIT] find f a allowed p cs n
    by (simp add: dfc_emulator_native_authentication_active_def purse_balance_def sample_purse_file_def zero_file_def)
qed



end
