(* ===== verification/Dfc_Commit.thy ===== *)
theory Dfc_Commit
  imports Dfc_Purse
begin

text \<open>
  A whole transaction at the card, from its first logged operation to the answer of the commit: what the
  card accumulates through the entry points of \<^verbatim>\<open>Dfc_Transactions\<close> is what the reader's verifier of
  \<^verbatim>\<open>Dfc_Transaction_Mac\<close> records, so the reader accepts the MAC of the commit's answer. A commit is
  all or nothing and final. The derivation vector of the reader identifier has its bounds.
\<close>

subsection \<open>Logging at the card\<close>

lemma transaction_mac_add_success:
  assumes "transaction_mac_file em = Some i" "transaction_mac_add lib em add = (True, em')"
  obtains cand acc where "transaction_mac_candidate lib em = (TransactionMacUpdateOk, cand)" "add cand = (TransactionMacUpdateOk, acc)"
    "em' = em\<lparr>em_tmac := (em_tmac em)\<lparr>transaction_mac_retryable_failure := False, transaction_mac := acc\<rparr>\<rparr>"
proof -
  obtain r cand where c: "transaction_mac_candidate lib em = (r, cand)" by fastforce
  then have r: "r = TransactionMacUpdateOk" using assms by (auto simp: transaction_mac_add_def split: if_splits)
  obtain r2 acc where a: "add cand = (r2, acc)" by fastforce
  have "r2 = TransactionMacUpdateOk" "em' = em\<lparr>em_tmac := (em_tmac em)\<lparr>transaction_mac_retryable_failure := False, transaction_mac := acc\<rparr>\<rparr>"
    using assms c r a by (auto simp: transaction_mac_add_def transaction_mac_publish_candidate_def Let_def split: if_splits)
  with that c r a show thesis by blast
qed

lemma added_ok: "added r = (TransactionMacUpdateOk, acc) \<longleftrightarrow> r = (True, acc)"
  by (cases r) (simp add: added_def)

text \<open>
  The operations of a transaction as the card logs them, the reader identifier through its command. How the
  reader puts the identifier into a frame of the session is an argument.
\<close>

fun emulator_add :: "'x mbedtls \<Rightarrow> (DfcEmulator \<Rightarrow> bytes \<Rightarrow> bytes) \<Rightarrow> DfcEmulator \<Rightarrow> tm_op \<Rightarrow> bool \<times> DfcEmulator" where
  "emulator_add lib frame em (TmData command number offset len data) =
     dfc_emulator_command_transaction_mac_add_data lib em command number offset len (Some data) (length data)"
| "emulator_add lib frame em (TmZeroData command number offset len n) =
     dfc_emulator_command_transaction_mac_add_zero_data lib em command number offset len n"
| "emulator_add lib frame em (TmRecordUpdate command number rec offset len data) =
     dfc_emulator_command_transaction_mac_add_record_update lib em command number rec offset len (Some data) (length data)"
| "emulator_add lib frame em (TmValue command number amount) =
     dfc_emulator_command_transaction_mac_add_value lib em command number (Some (dfc_write_uint32_le amount))"
| "emulator_add lib frame em (TmClearRecord number) = dfc_emulator_command_transaction_mac_add_clear_record lib em number"
| "emulator_add lib frame em (TmReaderId current previous) =
     (case dfc_emulator_command_commit_reader_id lib em (frame em current) zero_bytebuf of (em', tx) \<Rightarrow>
        (\<not> transaction_reader_id_pending (em_tmac em) \<and> transaction_reader_id_pending (em_tmac em') \<and>
         transaction_pending_reader_id (em_tmac em') = current \<and>
         (case transaction_mac_file em of None \<Rightarrow> False
          | Some i \<Rightarrow> previous = (if transaction_reader_id_persist (em_tmac em') then encrypted_previous_reader_id lib em i else None)), em'))"

lemma clear_reader_id_of_frame:
  assumes "clear_reader_id_of lib em buffer = (r, em1)"
  obtains sm where "em1 = em\<lparr>secure_messaging := sm\<rparr>"
  using assms
  by (auto simp: clear_reader_id_of_def Let_def split: if_splits prod.splits intro: that [of "secure_messaging em"])

lemma session_frame:
  "transaction_mac_file (em\<lparr>secure_messaging := sm\<rparr>) = transaction_mac_file em"
  "transaction_mac_candidate lib (em\<lparr>secure_messaging := sm\<rparr>) = transaction_mac_candidate lib em"
  "encrypted_previous_reader_id lib (em\<lparr>secure_messaging := sm\<rparr>) i = encrypted_previous_reader_id lib em i"
proof -
  have "file_at (em\<lparr>secure_messaging := sm\<rparr>) = file_at em" "mac_counter (em\<lparr>secure_messaging := sm\<rparr>) = mac_counter em"
    "transaction_mac_file (em\<lparr>secure_messaging := sm\<rparr>) = transaction_mac_file em"
    by (simp_all add: transaction_mac_file_def mac_counter_def file_at_def fun_eq_iff)
  then show "transaction_mac_file (em\<lparr>secure_messaging := sm\<rparr>) = transaction_mac_file em"
    "transaction_mac_candidate lib (em\<lparr>secure_messaging := sm\<rparr>) = transaction_mac_candidate lib em"
    "encrypted_previous_reader_id lib (em\<lparr>secure_messaging := sm\<rparr>) i = encrypted_previous_reader_id lib em i"
    by (simp_all add: transaction_mac_candidate_def encrypted_previous_reader_id_def Let_def cong: option.case_cong if_cong)
qed

lemma add_reader_id_take:
  "dfc_transaction_mac_accumulator_add_reader_id lib acc (Some (take DFC_TRANSACTION_READER_ID_LENGTH current)) previous =
   dfc_transaction_mac_accumulator_add_reader_id lib acc (Some current) previous"
  by (simp add: dfc_transaction_mac_accumulator_add_reader_id_def entry_reader_id_def)

lemma reader_id_logged:
  assumes "dfc_emulator_command_commit_reader_id lib em buffer tx = (em', tx')" "transaction_mac_file em = Some i"
    "\<not> transaction_reader_id_pending (em_tmac em)" "transaction_reader_id_pending (em_tmac em')"
  obtains cand acc where "transaction_mac_candidate lib em = (TransactionMacUpdateOk, cand)"
    "dfc_transaction_mac_accumulator_add_reader_id lib cand (Some (transaction_pending_reader_id (em_tmac em')))
       (if transaction_reader_id_persist (em_tmac em') then encrypted_previous_reader_id lib em i else None) = (True, acc)"
    "transaction_mac (em_tmac em') = acc" "credential em' = credential em" "selected_app_index em' = selected_app_index em"
proof -
  obtain r em1 where r: "clear_reader_id_of lib em buffer = (r, em1)" by fastforce
  then obtain sm where sm: "em1 = em\<lparr>secure_messaging := sm\<rparr>" by (rule clear_reader_id_of_frame)
  obtain cur n where cur: "r = Some (cur, n)" using assms(1,3,4) r sm by (cases r) (auto simp: dfc_emulator_command_commit_reader_id_def respond_def)
  let ?auth = "dfc_emulator_native_authentication_active em1 \<or> ev2_session_active (em_ev2 em1)"
  obtain res cand where cand: "transaction_mac_candidate lib em = (res, cand)" by fastforce
  let ?prev = "if ?auth then encrypted_previous_reader_id lib em i else Some (replicate DFC_TRANSACTION_READER_ID_LENGTH 0)"
  obtain enc where enc: "?prev = Some enc"
    using assms r cur sm by (cases ?prev) (auto simp: dfc_emulator_command_commit_reader_id_def respond_def set_retryable_def session_frame Let_def split: if_splits)
  have res: "res = TransactionMacUpdateOk"
    using assms r cur sm cand enc
    by (auto simp: dfc_emulator_command_commit_reader_id_def respond_def set_retryable_def session_frame Let_def split: if_splits)
  obtain ok acc where acc: "dfc_transaction_mac_accumulator_add_reader_id lib cand (Some cur) (if ?auth then Some enc else None) = (ok, acc)"
    by fastforce
  have ok: "ok"
    using assms r cur sm cand enc res acc
    by (auto simp: dfc_emulator_command_commit_reader_id_def respond_def set_retryable_def session_frame Let_def added_def split: if_splits)
  have em': "em' = em1\<lparr>em_tmac := (em_tmac em1)\<lparr>transaction_mac := acc,
      transaction_pending_reader_id := take DFC_TRANSACTION_READER_ID_LENGTH cur,
      transaction_reader_id_pending := True, transaction_reader_id_persist := ?auth\<rparr>\<rparr>"
    using assms r cur sm cand enc res acc ok
    by (auto simp: dfc_emulator_command_commit_reader_id_def respond_def set_retryable_def session_frame Let_def added_def split: if_splits)
  show thesis
    using that [of cand acc] cand res acc ok enc sm by (auto simp: em' add_reader_id_take split: if_splits)
qed

lemma emulator_add_logged:
  assumes "emulator_add lib frame em op = (True, em')" "transaction_mac_file em = Some i"
  obtains cand acc where "transaction_mac_candidate lib em = (TransactionMacUpdateOk, cand)" "card_add lib cand op = (True, acc)"
    "transaction_mac (em_tmac em') = acc" "credential em' = credential em" "selected_app_index em' = selected_app_index em"
proof (cases "\<exists>current previous. op = TmReaderId current previous")
  case True
  then obtain current previous where op: "op = TmReaderId current previous" by blast
  obtain em2 tx where run: "dfc_emulator_command_commit_reader_id lib em (frame em current) zero_bytebuf = (em2, tx)" by fastforce
  have "em2 = em'" "\<not> transaction_reader_id_pending (em_tmac em)" "transaction_reader_id_pending (em_tmac em')"
    "transaction_pending_reader_id (em_tmac em') = current"
    "previous = (if transaction_reader_id_persist (em_tmac em') then encrypted_previous_reader_id lib em i else None)"
    using assms run by (auto simp: op)
  with reader_id_logged [OF run assms(2)] that show thesis by (auto simp: op)
next
  case False
  have "\<exists>cand acc. transaction_mac_candidate lib em = (TransactionMacUpdateOk, cand) \<and> card_add lib cand op = (True, acc) \<and>
    em' = em\<lparr>em_tmac := (em_tmac em)\<lparr>transaction_mac_retryable_failure := False, transaction_mac := acc\<rparr>\<rparr>"
    using assms(1) False
    by (cases op) (auto simp: dfc_emulator_command_transaction_mac_add_data_def dfc_emulator_command_transaction_mac_add_zero_data_def
        dfc_emulator_command_transaction_mac_add_record_update_def dfc_emulator_command_transaction_mac_add_value_def
        dfc_emulator_command_transaction_mac_add_clear_record_def added_ok split: if_splits
        elim!: transaction_mac_add_success [OF assms(2)])
  with that show thesis by auto
qed

text \<open>The octets the card has logged since the transaction began on the card \<^term>\<open>em0\<close>.\<close>

definition next_session_key :: "'x mbedtls \<Rightarrow> DfcEmulator \<Rightarrow> size_t \<Rightarrow> bool \<times> bytes" where
  "next_session_key lib em i = dfc_transaction_mac_derive_session_key lib (Some (tmac_key (state_transaction_mac (f_state (file_at em i)))))
     (Some (c_uid (credential em))) (unat (c_uid_len (credential em))) (mac_counter em i + 1)"

definition emulator_log :: "'x mbedtls \<Rightarrow> DfcEmulator \<Rightarrow> size_t \<Rightarrow> DfcEmulator \<Rightarrow> bytes \<Rightarrow> bool" where
  "emulator_log lib em0 i em m \<longleftrightarrow> transaction_mac_file em0 = Some i \<and> credential em = credential em0 \<and>
     selected_app_index em = selected_app_index em0 \<and>
     (if acc_initialized (transaction_mac (em_tmac em))
      then \<exists>sk. next_session_key lib em0 i = (True, sk) \<and> card_log lib sk (transaction_mac (em_tmac em)) m
      else m = [])"

lemma candidate_log:
  assumes "emulator_log lib em0 i em m" "transaction_mac_candidate lib em = (TransactionMacUpdateOk, cand)" "block_library lib"
  obtains sk where "next_session_key lib em0 i = (True, sk)" "card_log lib sk cand m"
proof -
  have same: "transaction_mac_file em = Some i" "file_at em = file_at em0" "mac_counter em = mac_counter em0" "credential em = credential em0"
    using assms(1) by (auto simp: emulator_log_def transaction_mac_file_def file_at_def mac_counter_def fun_eq_iff)
  show thesis
  proof (cases "acc_initialized (transaction_mac (em_tmac em))")
    case True
    then have "cand = transaction_mac (em_tmac em)" using assms(2) same by (auto simp: transaction_mac_candidate_def Let_def split: if_splits)
    then show thesis using True assms(1) that by (auto simp: emulator_log_def)
  next
    case False
    then have m: "m = []" using assms(1) by (simp add: emulator_log_def)
    obtain ok sk where sk: "next_session_key lib em0 i = (ok, sk)" by fastforce
    then have init: "ok" "dfc_transaction_mac_accumulator_init (Some sk) = (True, cand)"
      using assms(2) same False by (auto simp: transaction_mac_candidate_def next_session_key_def Let_def split: if_splits bool.splits prod.splits)
    have "length sk = 16" using derive_length [OF assms(3)] sk init(1) by (auto simp: next_session_key_def)
    then show thesis using that [of sk] accumulator_init_log [of sk cand lib] sk init m by auto
  qed
qed

interpretation emulator: transaction_record "emulator_add lib frame" "\<lambda>em m. block_library lib \<longrightarrow> emulator_log lib em0 i em m" tm_octets tm_wf
  for lib frame em0 i
proof (unfold_locales, intro impI)
  fix em m op em'
  assume a: "block_library lib \<longrightarrow> emulator_log lib em0 i em m" "tm_wf op" "emulator_add lib frame em op = (True, em')" "block_library lib"
  then have log: "emulator_log lib em0 i em m" by simp
  then have f: "transaction_mac_file em = Some i" by (auto simp: emulator_log_def transaction_mac_file_def)
  from a(3) f obtain cand acc where c: "transaction_mac_candidate lib em = (TransactionMacUpdateOk, cand)" "card_add lib cand op = (True, acc)"
    "transaction_mac (em_tmac em') = acc" "credential em' = credential em" "selected_app_index em' = selected_app_index em"
    by (rule emulator_add_logged)
  from candidate_log [OF log c(1) a(4)] obtain sk where sk: "next_session_key lib em0 i = (True, sk)" "card_log lib sk cand m" .
  from card.add_accepted [OF sk(2) a(2) c(2)] have "card_log lib sk acc (m @ tm_octets op)" .
  moreover have "acc_initialized acc" using calculation a(4) by (simp add: card_log_def accumulated_def)
  ultimately show "emulator_log lib em0 i em' (m @ tm_octets op)" using log sk c by (auto simp: emulator_log_def)
qed

subsection \<open>The commit\<close>

definition commit_answer :: "DfcByteBuf \<Rightarrow> u32 \<Rightarrow> bytes \<Rightarrow> DfcByteBuf" where
  "commit_answer tx counter mac =
     dfc_bytebuf_append_bytes (dfc_bytebuf_append_bytes (dfc_bytebuf_append_byte tx DFC_STATUS_OK) (dfc_write_uint32_le counter)) mac"

lemma commit_changes:
  assumes "dfc_emulator_command_commit_transaction lib em True tx = (em', tx')" "em' \<noteq> em" "transaction_mac_file em = Some i"
  obtains mac where "dfc_transaction_mac_accumulator_finalize lib (transaction_mac (em_tmac em)) = (True, mac)"
    "tx' = commit_answer tx (mac_counter em i + 1) (dfc_truncate_aes_wire_mac mac)"
  using assms
  by (auto simp: dfc_emulator_command_commit_transaction_def respond_def transaction_mac_calculate_def Let_def commit_answer_def
      dfc_write_uint32_le_def split: if_splits option.splits prod.splits bool.splits)

text \<open>Nothing of a transaction is left.\<close>

definition settled :: "DfcEmulator \<Rightarrow> bool" where
  "settled em \<longleftrightarrow> \<not> acc_has_pending (transaction_mac (em_tmac em)) \<and> \<not> transaction_reader_id_pending (em_tmac em) \<and>
     \<not> transaction_snapshot_active (em_journal em) \<and>
     list_all (\<lambda>f. \<not> value_file_pending (selected_app_index em) f \<and> (unat (f_app_index f) = selected_app_index em \<longrightarrow> \<not> f_transaction_pending f))
       (take (unat (c_num_files (credential em))) (c_files (credential em)))"

lemma map_files_id:
  "list_all (\<lambda>f. g f = f) (take (unat (c_num_files c)) (c_files c)) \<Longrightarrow> map_files g c = c"
  by (simp add: map_files_def list_all_iff map_idI)

lemma settled_final:
  assumes "settled em"
  shows "\<not> transaction_changed em" "dfc_emulator_abort_transaction em = (False, em)"
proof -
  have none: "list_all (\<lambda>f. \<not> value_file_pending (selected_app_index em) f) (take (unat (c_num_files (credential em))) (c_files (credential em)))"
    using assms by (auto simp: settled_def list_all_iff)
  show "\<not> transaction_changed em"
    using assms by (auto simp: settled_def transaction_changed_def list_all_iff list_ex_iff value_file_pending_def)
  have "map_files (\<lambda>f. if value_file_pending (selected_app_index em) f then clear_pending_value f else f) (credential em) = credential em"
    using none by (intro map_files_id) (auto simp: list_all_iff)
  moreover have "\<not> list_ex (value_file_pending (selected_app_index em)) (take (unat (c_num_files (credential em))) (c_files (credential em)))"
    using none by (auto simp: list_all_iff list_ex_iff)
  ultimately show "dfc_emulator_abort_transaction em = (False, em)"
    using assms by (simp add: dfc_emulator_abort_transaction_def dfc_emulator_abort_transaction_snapshot_def settled_def Let_def)
qed

lemma snapshot_clear_state_frame:
  "credential (transaction_snapshot_clear_state em) = credential em" "em_tmac (transaction_snapshot_clear_state em) = em_tmac em"
  "selected_app_index (transaction_snapshot_clear_state em) = selected_app_index em"
  "\<not> transaction_snapshot_active (em_journal (transaction_snapshot_clear_state em))"
  by (simp_all add: transaction_snapshot_clear_state_def upd_journal_def dfc_emulator_discard_transaction_snapshot_def
      transaction_snapshot_replace_def Let_def)

lemma publish_transaction_frame:
  "credential (dfc_emulator_publish_transaction em) = dfc_credential_mark_dirty (map_files (publish_file (selected_app_index em)) (credential em))"
  "em_tmac (dfc_emulator_publish_transaction em) = clear_transaction_mac (em_tmac em)"
  "selected_app_index (dfc_emulator_publish_transaction em) = selected_app_index em"
  by (simp_all add: dfc_emulator_publish_transaction_def Let_def snapshot_clear_state_frame)

lemma publish_file_settled:
  "\<not> value_file_pending app (publish_file app f)" "unat (f_app_index (publish_file app f)) = app \<Longrightarrow> \<not> f_transaction_pending (publish_file app f)"
  by (auto simp: publish_file_def publish_value_def value_file_pending_def Let_def split: if_splits)

lemma published_files:
  "take (unat (c_num_files (dfc_credential_mark_dirty (map_files g c)))) (c_files (dfc_credential_mark_dirty (map_files g c))) =
   map g (take (unat (c_num_files c)) (c_files c))"
  by (simp add: dfc_credential_mark_dirty_def map_files_def) linarith

lemma publish_settled:
  assumes "transaction_snapshot_active (em_journal em) \<longrightarrow> transaction_snapshot_app_index (em_journal em) = selected_app_index em"
  shows "settled (dfc_emulator_publish_transaction em)"
proof -
  have "\<not> transaction_snapshot_active (em_journal (dfc_emulator_publish_transaction em))"
    using assms by (simp add: dfc_emulator_publish_transaction_def Let_def snapshot_clear_state_frame)
  then show ?thesis
    by (simp add: settled_def publish_transaction_frame published_files clear_transaction_mac_def dfc_transaction_mac_accumulator_clear_def
        list_all_iff publish_file_settled)
qed

lemma list_all_update:
  assumes "\<And>f. P (h f) \<longleftrightarrow> P f"
  shows "list_all P (take n (xs[i := h (xs ! i)])) \<longleftrightarrow> list_all P (take n xs)"
proof -
  have "P (xs[i := h (xs ! i)] ! k) \<longleftrightarrow> P (xs ! k)" if "k < length xs" for k
    using that assms by (cases "k = i") simp_all
  then show ?thesis by (auto simp: list_all_length)
qed

lemma upd_tmac_settled: "settled (upd_tmac_file i g em) \<longleftrightarrow> settled em"
proof -
  let ?h = "\<lambda>f. f\<lparr>f_state := (f_state f)\<lparr>state_transaction_mac := g (state_transaction_mac (f_state f))\<rparr>\<rparr>"
  let ?P = "\<lambda>f. \<not> value_file_pending (selected_app_index em) f \<and> (unat (f_app_index f) = selected_app_index em \<longrightarrow> \<not> f_transaction_pending f)"
  have "?P (?h f) \<longleftrightarrow> ?P f" for f by (simp add: value_file_pending_def)
  from list_all_update [of ?P ?h, OF this] show ?thesis by (simp add: settled_def upd_tmac_file_def upd_file_def)
qed

lemma upd_tmac_counter:
  "i < length (c_files (credential em)) \<Longrightarrow> mac_counter (upd_tmac_file i (\<lambda>s. s\<lparr>tmac_counter := n\<rparr>) em) i = n"
  by (simp add: mac_counter_def file_at_def upd_tmac_file_def upd_file_def)

text \<open>
  C3. The reader accepts the answer of the commit. The card logs the operations of a transaction through its entry points,
  the reader's verifier records the same operations for the coming counter, and the commit goes through: then its answer
  carries that counter and a MAC, and the verifier accepts an octet string exactly when it is this MAC.
\<close>

theorem committed_mac_verifies:
  assumes lib: "block_library lib" and mac_file: "transaction_mac_file em0 = Some i"
    and fresh: "\<not> acc_initialized (transaction_mac (em_tmac em0))"
    and key: "tmac_key (state_transaction_mac (f_state (file_at em0 i))) = key" "length key = 16"
    and uid: "c_uid (credential em0) = uid" "unat (c_uid_len (credential em0)) \<le> length uid"
    and reader: "length buf \<le> SIZE_MAX" "dfc_transaction_mac_verifier_init (Some buf) (length buf) (Some key) (Some uid)
      (unat (c_uid_len (credential em0))) (mac_counter em0 i + 1) = (DfcTransactionMacOk, v0)"
    and ops: "list_all tm_wf ops" "add_all reader_add v0 ops = Some v" "add_all (emulator_add lib frame) em0 ops = Some em1"
    and commit: "dfc_emulator_command_commit_transaction lib em1 True tx = (em2, tx2)" "em2 \<noteq> em1"
  shows "\<exists>mac. length mac = 8 \<and> tx2 = commit_answer tx (mac_counter em0 i + 1) mac \<and>
    (\<forall>w. length w = 8 \<longrightarrow> dfc_transaction_mac_verify lib v (Some w) = (DfcTransactionMacOk, w = mac))"
proof -
  let ?m = "[] @ concat (map tm_octets ops)" and ?n = "unat (c_uid_len (credential em0))"
  note vl = verifier_init_log [OF reader(2,1) key(2) uid(2)]
  have r: "reader_log key (v_uid v0) ?n (mac_counter em0 i + 1) v ?m" by (rule reader.add_all_holds [OF vl(1) ops(1,2)])
  have "block_library lib \<longrightarrow> emulator_log lib em0 i em0 []" using mac_file fresh by (simp add: emulator_log_def)
  from emulator.add_all_holds [OF this ops(1,3)] have log: "emulator_log lib em0 i em1 ?m" using lib by blast
  then have f1: "transaction_mac_file em1 = Some i" "mac_counter em1 i = mac_counter em0 i"
    by (auto simp: emulator_log_def transaction_mac_file_def mac_counter_def file_at_def)
  obtain full where full: "dfc_transaction_mac_accumulator_finalize lib (transaction_mac (em_tmac em1)) = (True, full)"
    "tx2 = commit_answer tx (mac_counter em1 i + 1) (dfc_truncate_aes_wire_mac full)"
    by (rule commit_changes [OF commit f1(1)])
  then have "acc_initialized (transaction_mac (em_tmac em1))"
    by (auto simp: dfc_transaction_mac_accumulator_finalize_def Let_def split: if_splits)
  with log obtain sk where sk: "next_session_key lib em0 i = (True, sk)" "accumulated lib (transaction_mac (em_tmac em1)) ?m"
    "acc_session_key (transaction_mac (em_tmac em1)) = sk" using lib by (auto simp: emulator_log_def card_log_def)
  have m: "?m \<noteq> []" by (rule finalize_needs_data [OF sk(2) full(1)])
  have spec: "cmac_specification AesCmac lib (Some sk) 16 (replicate 16 0) ?m = Some full"
    using finalize_eq [OF lib sk(2) m] full(1) sk(3) by (auto split: option.splits)
  have "dfc_transaction_mac_derive_session_key lib (Some key) (Some (v_uid v0)) ?n (mac_counter em0 i + 1) = (True, sk)"
    unfolding derive_uid_cong [OF vl(2)] using sk(1) key(1) uid(1) by (simp add: next_session_key_def)
  from verify_eq [OF lib r m this] have "dfc_transaction_mac_verify lib v (Some w) = (DfcTransactionMacOk, w = dfc_truncate_aes_wire_mac full)"
    if "length w = 8" for w using that spec by auto
  then show ?thesis using full(2) f1(2) by (intro exI [of _ "dfc_truncate_aes_wire_mac full"]) simp
qed

text \<open>A card whose selected application has a transaction MAC file that wants no reader identifier.\<close>

definition sample_mac_file :: DfcFile where
  "sample_mac_file = zero_file\<lparr>f_type := DFC_FILE_TYPE_TRANSACTION_MAC, f_access_rights := 0xFFFF,
     f_state := zero_file_state\<lparr>state_transaction_mac := (state_transaction_mac zero_file_state)\<lparr>tmac_key := replicate 16 1\<rparr>\<rparr>\<rparr>"

definition sample_mac_card :: DfcEmulator where
  "sample_mac_card = (zero_emulator zero_bytebuf None (zero_credential\<lparr>c_num_files := 1, c_uid_len := 4,
     c_files := (c_files zero_credential)[0 := sample_mac_file]\<rparr>))\<lparr>selected_application := DfcEmulatorSelectedApplicationApp\<rparr>"

lemma sample_mac_card_facts:
  "file_at sample_mac_card 0 = sample_mac_file" "transaction_mac_file sample_mac_card = Some 0" "mac_counter sample_mac_card 0 = 0"
  "tmac_key (state_transaction_mac (f_state sample_mac_file)) = replicate 16 1" "c_uid_len (credential sample_mac_card) = 4"
  "length (c_uid (credential sample_mac_card)) = 10"
  "\<not> acc_initialized (transaction_mac (em_tmac sample_mac_card))"
  "dfc_access_nibble (f_access_rights sample_mac_file) 4 = DFC_ACCESS_DENY"
proof -
  have cs: "c_files (credential sample_mac_card) = sample_mac_file # replicate 31 zero_file"
    by (simp add: sample_mac_card_def zero_emulator_def zero_credential_def DFC_MAX_FILES_def numeral_eq_Suc)
  have n: "c_num_files (credential sample_mac_card) = 1" "selected_app_index sample_mac_card = 0"
    by (simp_all add: sample_mac_card_def zero_emulator_def)
  show f: "file_at sample_mac_card 0 = sample_mac_file" by (simp add: file_at_def cs)
  show "transaction_mac_file sample_mac_card = Some 0"
    by (simp add: transaction_mac_file_def dfc_credential_find_transaction_mac_file_def find_index_from.simps cs n sample_mac_file_def zero_file_def)
  show "mac_counter sample_mac_card 0 = 0" by (simp add: mac_counter_def f sample_mac_file_def zero_file_state_def)
  show "tmac_key (state_transaction_mac (f_state sample_mac_file)) = replicate 16 1" by (simp add: sample_mac_file_def)
  show "c_uid_len (credential sample_mac_card) = 4" "length (c_uid (credential sample_mac_card)) = 10"
    "\<not> acc_initialized (transaction_mac (em_tmac sample_mac_card))"
    by (simp_all add: sample_mac_card_def zero_emulator_def zero_credential_def zero_tmac_def dfc_transaction_mac_accumulator_clear_def)
  show "dfc_access_nibble (f_access_rights sample_mac_file) 4 = DFC_ACCESS_DENY"
    by (simp add: sample_mac_file_def dfc_access_nibble_def DFC_ACCESS_DENY_def)
qed

theorem committed_mac_verifies_witness:
  "\<exists>v em1 em2 mac. add_all (emulator_add xor_library (\<lambda>_. Cons DFC_CMD_COMMIT_READER_ID)) sample_mac_card [TmClearRecord 3] = Some em1 \<and>
     dfc_emulator_command_commit_transaction xor_library em1 True zero_bytebuf = (em2, commit_answer zero_bytebuf 1 mac) \<and>
     dfc_transaction_mac_verify xor_library v (Some mac) = (DfcTransactionMacOk, True)"
proof -
  let ?card = sample_mac_card and ?key = "replicate 16 (1 :: u8)" and ?uid = "c_uid (credential sample_mac_card)" and ?op = "TmClearRecord 3"
  note facts = sample_mac_card_facts
  obtain v0 where v0: "dfc_transaction_mac_verifier_init (Some (replicate 32 0)) 32 (Some ?key) (Some ?uid) 4 1 = (DfcTransactionMacOk, v0)"
    by (simp add: dfc_transaction_mac_verifier_init_def DFC_DESFIRE_UID_SHORT_LEN_def)
  obtain sk where sk: "dfc_transaction_mac_derive_session_key xor_library (Some ?key) (Some ?uid) 4 1 = (True, sk)"
    using derive_total [of xor_library ?key 1 4 ?uid] facts(6) by auto
  obtain acc0 where acc0: "dfc_transaction_mac_accumulator_init (Some sk) = (True, acc0)"
    by (simp add: dfc_transaction_mac_accumulator_init_def)
  have cand: "transaction_mac_candidate xor_library ?card = (TransactionMacUpdateOk, acc0)"
    using sk acc0 by (simp add: transaction_mac_candidate_def facts DFC_DESFIRE_UID_SHORT_LEN_def)
  have log: "accumulated xor_library acc0 []"
    using accumulator_init_log [OF derive_length [OF xor_library(1) sk] acc0, of xor_library] by (simp add: card_log_def)
  obtain e where e: "tm_entry ?op = Some e" by (simp add: entry_clear_record_def)
  have wf: "entry_wf e" "entry_octets e = tm_octets ?op" using tm_entry_correct [OF _ e] by simp_all
  have lo: "length (tm_octets ?op) = 16" by (simp add: tm_octets_def pad16_def)
  obtain acc where acc: "accumulator_add_entry xor_library acc0 e = (True, acc)"
    using accumulator_add_entry_accepted [OF xor_library(1) xor_works wf(1), of acc0] log lo wf(2) by (auto simp: accumulated_def SIZE_MAX_def)
  have rec: "accumulated xor_library acc (tm_octets ?op)" "tm_octets ?op \<noteq> []"
    using accumulator_add_entry_correct(1) [OF xor_library(1) wf(1) log acc] wf(2) lo by auto
  then obtain full where full: "dfc_transaction_mac_accumulator_finalize xor_library acc = (True, full)"
    using finalize_eq [OF xor_library(1)] specification_total [OF xor_works, of "acc_session_key acc" "replicate 16 0" "tm_octets ?op"] by fastforce
  obtain v where v: "add_all reader_add v0 [?op] = Some v"
    using v0 append_entry_effect [OF wf(1), of "replicate 32 0" 32 0] e wf(2) lo
    by (auto simp: dfc_transaction_mac_verifier_init_def DFC_DESFIRE_UID_SHORT_LEN_def dfc_transaction_mac_add_clear_record_def
        verifier_is_valid_def zero_verifier_def dfc_transaction_mac_input_add_clear_record_def verifier_appended_def SIZE_MAX_def)
  let ?em1 = "?card\<lparr>em_tmac := (em_tmac ?card)\<lparr>transaction_mac_retryable_failure := False, transaction_mac := acc\<rparr>\<rparr>"
  have card: "add_all (emulator_add xor_library (\<lambda>_. Cons DFC_CMD_COMMIT_READER_ID)) ?card [?op] = Some ?em1"
    using cand acc e by (simp add: dfc_emulator_command_transaction_mac_add_clear_record_def transaction_mac_add_def facts added_def
        transaction_mac_publish_candidate_def dfc_transaction_mac_accumulator_add_clear_record_def)
  have f1: "transaction_mac_file ?em1 = Some 0" "mac_counter ?em1 0 = 0" "file_at ?em1 0 = sample_mac_file"
    using facts by (simp_all add: transaction_mac_file_def mac_counter_def file_at_def)
  have "acc_has_pending acc" using rec by (auto simp: accumulated_def)
  then have ch: "transaction_changed ?em1" by (simp add: transaction_changed_def)
  have persist: "\<not> transaction_reader_id_persist (em_tmac ?card)" and len: "0 < length (c_files (credential (dfc_emulator_publish_transaction ?em1)))"
    by (simp_all add: publish_transaction_frame dfc_credential_mark_dirty_def map_files_def sample_mac_card_def zero_emulator_def zero_tmac_def
        zero_credential_def DFC_MAX_FILES_def)
  obtain em2 tx2 where run: "dfc_emulator_command_commit_transaction xor_library ?em1 True zero_bytebuf = (em2, tx2)" by fastforce
  have "em2 = upd_tmac_file 0 (\<lambda>s. s\<lparr>tmac_counter := 1\<rparr>) (dfc_emulator_publish_transaction ?em1)"
    using run ch full by (simp add: dfc_emulator_command_commit_transaction_def f1 facts transaction_mac_calculate_def Let_def persist)
  then have "mac_counter em2 0 = 1" by (simp only: upd_tmac_counter [OF len])
  then have ne: "em2 \<noteq> ?em1" using f1(2) by auto
  have "\<exists>mac. length mac = 8 \<and> tx2 = commit_answer zero_bytebuf 1 mac \<and>
      (\<forall>w. length w = 8 \<longrightarrow> dfc_transaction_mac_verify xor_library v (Some w) = (DfcTransactionMacOk, w = mac))"
    using committed_mac_verifies [OF xor_library(1) facts(2,7), of ?key ?uid "replicate 32 0" v0 "[?op]" v "\<lambda>_. Cons DFC_CMD_COMMIT_READER_ID" ?em1 zero_bytebuf em2 tx2]
      facts v0 v card run ne by (simp add: SIZE_MAX_def)
  then obtain mac where mac: "tx2 = commit_answer zero_bytebuf 1 mac" "dfc_transaction_mac_verify xor_library v (Some mac) = (DfcTransactionMacOk, True)"
    by auto
  show ?thesis by (rule exI [of _ v], rule exI [of _ ?em1], rule exI [of _ em2], rule exI [of _ mac]) (use card run mac in blast)
qed

text \<open>
  C6. A commit is all or nothing, and final. Refused, it leaves the card exactly as it was. Accepted, it raises the counter
  of the transaction MAC by one without wrap-around, keeps every octet of the files, and leaves nothing that a further
  commit could publish or an abort could undo.
\<close>

theorem commit_all_or_nothing:
  assumes "transaction_snapshot_active (em_journal em) \<longrightarrow> transaction_snapshot_app_index (em_journal em) = selected_app_index em"
    "unat (c_num_files (credential em)) \<le> length (c_files (credential em))"
    "dfc_emulator_command_commit_transaction lib em return_mac tx = (em', tx')"
  shows "(em' = em \<and> tx' \<in> dfc_bytebuf_append_byte tx ` {DFC_STATUS_NO_CHANGES, DFC_STATUS_PERMISSION_DENIED, DFC_STATUS_INTEGRITY_ERROR}) \<or>
    (transaction_changed em \<and> \<not> transaction_changed em' \<and> dfc_emulator_abort_transaction em' = (False, em') \<and>
     c_file_pool (credential em') = c_file_pool (credential em) \<and>
     (case transaction_mac_file em of None \<Rightarrow> True | Some i \<Rightarrow> unat (mac_counter em' i) = unat (mac_counter em i) + 1))"
proof -
  have pub: "settled (dfc_emulator_publish_transaction em1)" "c_file_pool (credential (dfc_emulator_publish_transaction em1)) = c_file_pool (credential em)"
    "length (c_files (credential (dfc_emulator_publish_transaction em1))) = length (c_files (credential em))"
    if "em_journal em1 = em_journal em" "selected_app_index em1 = selected_app_index em" "c_file_pool (credential em1) = c_file_pool (credential em)"
      "length (c_files (credential em1)) = length (c_files (credential em))" for em1
    using that publish_settled [of em1] assms(1) by (simp_all add: publish_transaction_frame dfc_credential_mark_dirty_def map_files_def)
  show ?thesis
  proof (cases "em' = em \<and> tx' \<in> dfc_bytebuf_append_byte tx ` {DFC_STATUS_NO_CHANGES, DFC_STATUS_PERMISSION_DENIED, DFC_STATUS_INTEGRITY_ERROR}")
    case False
    then have ch: "transaction_changed em" using assms(3) by (auto simp: dfc_emulator_command_commit_transaction_def respond_def split: if_splits)
    show ?thesis
    proof (cases "transaction_mac_file em")
      case None
      then have "em' = dfc_emulator_publish_transaction em" using assms(3) ch by (simp add: dfc_emulator_command_commit_transaction_def respond_def)
      then show ?thesis using None ch pub [of em] settled_final [of em'] by simp
    next
      case (Some i)
      let ?persist = "transaction_reader_id_persist (em_tmac em)"
      define em1 where "em1 = (if ?persist then upd_tmac_file i (\<lambda>s. s\<lparr>tmac_previous_reader_id := transaction_pending_reader_id (em_tmac em)\<rparr>) em else em)"
      have c: "mac_counter em i \<noteq> - 1" "em' = upd_tmac_file i (\<lambda>s. s\<lparr>tmac_counter := mac_counter em i + 1\<rparr>) (dfc_emulator_publish_transaction em1)"
        using assms(3) ch Some False
        by (auto simp: dfc_emulator_command_commit_transaction_def respond_def transaction_mac_calculate_def em1_def Let_def
            split: if_splits prod.splits bool.splits)
      have i: "i < length (c_files (credential em))"
        using Some assms(2) find_index_from_Some by (fastforce simp: transaction_mac_file_def dfc_credential_find_transaction_mac_file_def)
      have em1: "em_journal em1 = em_journal em" "selected_app_index em1 = selected_app_index em"
        "c_file_pool (credential em1) = c_file_pool (credential em)" "length (c_files (credential em1)) = length (c_files (credential em))"
        by (simp_all add: em1_def upd_tmac_file_def upd_file_def)
      note p = pub [OF em1]
      have "settled em'" using p(1) by (simp add: c(2) upd_tmac_settled)
      moreover have "mac_counter em' i = mac_counter em i + 1" using upd_tmac_counter i p(3) unfolding c(2) by simp
      moreover have "unat (mac_counter em i + 1) = unat (mac_counter em i) + 1" using c(1) by (metis add.commute unatSuc Suc_eq_plus1 add_eq_0_iff)
      moreover have "c_file_pool (credential em') = c_file_pool (credential em)" using p(2) by (simp add: c(2) upd_tmac_file_def upd_file_def)
      ultimately show ?thesis using Some ch settled_final [of em'] by simp
    qed
  qed simp
qed

theorem commit_all_or_nothing_witness:
  "\<exists>em. transaction_changed em \<and> \<not> transaction_changed (fst (dfc_emulator_command_commit_transaction xor_library em False zero_bytebuf))"
proof -
  let ?v = "(state_value (f_state sample_purse_file))\<lparr>value_pending := True, pending_absolute := True, pending_value := 10\<rparr>"
  let ?f = "sample_purse_file\<lparr>f_state := (f_state sample_purse_file)\<lparr>state_value := ?v\<rparr>\<rparr>"
  let ?em = "sample_purse_card\<lparr>credential := (credential sample_purse_card)\<lparr>c_files := ?f # replicate 31 zero_file\<rparr>\<rparr>"
  have n: "c_num_files (credential sample_purse_card) = 1" "selected_app_index sample_purse_card = 0" "\<not> c_dirty (credential sample_purse_card)"
    "\<not> transaction_snapshot_active (em_journal sample_purse_card)"
    by (simp_all add: sample_purse_card_def zero_emulator_def zero_credential_def zero_journal_def)
  have f: "f_type sample_purse_file = DFC_FILE_TYPE_VALUE" "f_app_index sample_purse_file = 0" by (simp_all add: sample_purse_file_def zero_file_def)
  have ch: "transaction_changed ?em" by (simp add: transaction_changed_def n f)
  have none: "transaction_mac_file ?em = None"
    by (simp add: transaction_mac_file_def dfc_credential_find_transaction_mac_file_def find_index_from.simps n f
        DFC_FILE_TYPE_VALUE_def DFC_FILE_TYPE_TRANSACTION_MAC_def)
  obtain em' tx' where run: "dfc_emulator_command_commit_transaction xor_library ?em False zero_bytebuf = (em', tx')" by fastforce
  have "em' = dfc_emulator_publish_transaction ?em"
    using run ch none by (simp add: dfc_emulator_command_commit_transaction_def respond_def)
  then have "c_dirty (credential em')" by (simp add: publish_transaction_frame dfc_credential_mark_dirty_def)
  then have "em' \<noteq> ?em" using n(3) by auto
  then have "\<not> transaction_changed em'"
    using commit_all_or_nothing [OF _ _ run] n by simp
  then show ?thesis using ch run by (intro exI [of _ ?em]) simp
qed

text \<open>
  C9. The derivation vector of the reader identifier has sixteen octets and room for a seven-octet identifier of the card. Of the
  identifier lengths a credential may have, ten does not fit: three octets are written behind the array, before the
  accumulator is asked and refuses such a card.
\<close>

theorem reader_id_vector_overrun:
  assumes "length uid = DFC_DESFIRE_UID_MAX_LENGTH" "dfc_uid_length_is_valid n"
  shows "length (reader_id_vector uid n counter) = DFC_AES_KEY_LENGTH + (if n = DFC_DESFIRE_UID_MAX_LENGTH then 3 else 0)"
  using assms
  by (auto simp: dfc_uid_length_is_valid_def reader_id_vector_def mem_write_def Let_def DFC_DESFIRE_UID_MAX_LENGTH_def DFC_DESFIRE_UID_LONG_LEN_def DFC_DESFIRE_UID_LEN_def
      DFC_DESFIRE_UID_SHORT_LEN_def DFC_AES_KEY_LENGTH_def DFC_TRANSACTION_VECTOR_COUNTER_OFFSET_def DFC_TRANSACTION_VECTOR_UID_OFFSET_def
      dfc_write_uint32_le_def)

theorem reader_id_vector_overrun_witness:
  "dfc_uid_length_is_valid 10 \<and> length (reader_id_vector (replicate 10 4) 10 1) = 19"
proof -
  have v: "dfc_uid_length_is_valid 10" by (simp add: dfc_uid_length_is_valid_def DFC_DESFIRE_UID_LONG_LEN_def)
  then show ?thesis using reader_id_vector_overrun [of "replicate 10 4" 10 1] by (simp add: DFC_DESFIRE_UID_MAX_LENGTH_def DFC_AES_KEY_LENGTH_def)
qed

end
