(* ===== verification/Dfc_Channel.thy ===== *)
theory Dfc_Channel
  imports Dfc_Secure_Messaging
begin

text \<open>
  Reader and card over the MAC modes of secure messaging. The locale \<open>authentic_channel\<close> is the
  contract of a MAC channel between two sessions that mirror each other: what one party seals the
  other opens, and nothing else is opened. It is interpreted on the chained EV1 CMAC, with the reader's
  half of \<^verbatim>\<open>src/dfc_reader.c\<close>, and on the D40 MAC; whole conversations follow in the locale.
\<close>

subsection \<open>The reader's EV1 CMAC\<close>

definition DFC_WORKER_CMAC_SIZE :: size_t where "DFC_WORKER_CMAC_SIZE = 8"

text \<open>The session of the exchange is its \<^verbatim>\<open>DfcSecureMessaging\<close>; the full MAC is returned.\<close>

definition ev1_cmac_segments ::
  "'x mbedtls \<Rightarrow> DfcSecureMessaging \<Rightarrow> DfcCryptoSegment list \<Rightarrow> bool \<times> bytes \<times> DfcSecureMessaging" where
  "ev1_cmac_segments lib sm segments =
     (if sm_cipher sm = DFC_CMD_AUTHENTICATE_AES then
        (case aes_cmac_segments_with_iv lib (Some (sm_session_key sm)) (unat (sm_session_key_len sm)) segments (sm_iv sm) of
           (False, full) \<Rightarrow> (False, full, sm)
         | (True, full) \<Rightarrow> (True, full, sm\<lparr>sm_iv := take 16 full\<rparr>))
      else
        (case des_cmac_segments_with_iv lib (Some (sm_session_key sm)) (unat (sm_session_key_len sm)) segments
                (take 8 (sm_iv sm)) of
           (False, full) \<Rightarrow> (False, full, sm)
         | (True, full) \<Rightarrow> (True, full, sm\<lparr>sm_iv := mem_write 0 (take 8 full) (replicate 16 0)\<rparr>)))"

definition ev1_command_cmac ::
  "'x mbedtls \<Rightarrow> DfcSecureMessaging \<Rightarrow> u8 \<Rightarrow> bytes option \<Rightarrow> size_t \<Rightarrow> bool \<times> bytes \<times> DfcSecureMessaging" where
  "ev1_command_cmac lib sm ins data len = ev1_cmac_segments lib sm [segment (Some [ins]) 1, segment data len]"

lemma ev1_cmac_segments_eq:
  assumes lib: "block_library lib" and iv: "length (sm_iv sm) = 16"
    and segs: "list_all seg_ok segments" "length (message_of segments) \<le> SIZE_MAX - 15"
  shows "ev1_cmac_segments lib sm segments =
    (case ev1_cmac lib sm (message_of segments) of
       None \<Rightarrow> (False, replicate (CMAC_BLOCK_SIZE (sm_kind sm)) 0, sm)
     | Some mac \<Rightarrow> (True, mac, sm_chained sm mac))"
proof (cases "sm_cipher sm = DFC_CMD_AUTHENTICATE_AES")
  case True
  then show ?thesis
    using full_cmac_eq [OF assms] ev1_cmac_length(1) [OF lib, of sm "message_of segments"]
    by (auto simp: ev1_cmac_segments_def compute_full_cmac_segments_def sm_chained_def sm_kind_def split: prod.splits bool.splits option.splits)
next
  case False
  then show ?thesis
    using full_cmac_eq [OF assms] ev1_cmac_length(1) [OF lib, of sm "message_of segments"]
    by (auto simp: ev1_cmac_segments_def compute_full_cmac_segments_def sm_chained_def sm_kind_def mem_write_def
        DFC_SM_LEGACY_BLOCK_SIZE_def split: prod.splits bool.splits option.splits)
qed

subsection \<open>The contract of a MAC channel\<close>

primrec seal_all :: "('s \<Rightarrow> 'm \<Rightarrow> ('w \<times> 's) option) \<Rightarrow> 's \<Rightarrow> 'm list \<Rightarrow> ('w list \<times> 's) option" where
  "seal_all seal s [] = Some ([], s)"
| "seal_all seal s (m # ms) =
     (case seal s m of
        None \<Rightarrow> None
      | Some (w, s') \<Rightarrow> map_option (\<lambda>(ws, t). (w # ws, t)) (seal_all seal s' ms))"

locale authentic_channel =
  fixes seal :: "'s \<Rightarrow> 'm \<Rightarrow> ('w \<times> 's) option" and unseal :: "'s \<Rightarrow> 'w \<Rightarrow> ('m \<times> 's) option"
    and peer :: "'s \<Rightarrow> 's" and ok :: "'s \<Rightarrow> bool" and msg :: "'m \<Rightarrow> bool" and wire :: "'w \<Rightarrow> bool"
  assumes peer_peer: "peer (peer s) = s"
    and seal_ok: "\<lbrakk>ok s; msg m; seal s m = Some (w, s')\<rbrakk> \<Longrightarrow> ok s' \<and> wire w"
    and unseal_iff: "\<lbrakk>ok s; wire w\<rbrakk> \<Longrightarrow> unseal (peer s) w = Some (m, t) \<longleftrightarrow> msg m \<and> seal s m = Some (w, peer t)"
begin

text \<open>A transcript is accepted exactly when it is the one its messages are sealed to.\<close>

lemma transcript_iff:
  "\<lbrakk>ok s; list_all wire ws\<rbrakk> \<Longrightarrow>
   seal_all unseal (peer s) ws = Some (ms, t) \<longleftrightarrow> list_all msg ms \<and> seal_all seal s ms = Some (ws, peer t)"
proof (induction ws arbitrary: s ms)
  case Nil
  show ?case
  proof
    assume "list_all msg ms \<and> seal_all seal s ms = Some ([], peer t)"
    then show "seal_all unseal (peer s) [] = Some (ms, t)"
      by (cases ms) (auto simp: peer_peer split: option.splits)
  qed (auto simp: peer_peer)
next
  case (Cons w ws)
  have wire: "wire w" "list_all wire ws" using Cons.prems(2) by simp_all
  show ?case
  proof
    assume "seal_all unseal (peer s) (w # ws) = Some (ms, t)"
    then obtain m s' ms' where u: "unseal (peer s) w = Some (m, s')" "seal_all unseal s' ws = Some (ms', t)" "ms = m # ms'"
      by (auto split: option.splits)
    have m: "msg m" "seal s m = Some (w, peer s')" using u(1) unseal_iff [OF Cons.prems(1) wire(1)] by blast+
    moreover have "ok (peer s')" using seal_ok [OF Cons.prems(1) m] by blast
    ultimately show "list_all msg ms \<and> seal_all seal s ms = Some (w # ws, peer t)"
      using Cons.IH [of "peer s'" ms'] wire(2) u(2,3) by (simp add: peer_peer)
  next
    assume a: "list_all msg ms \<and> seal_all seal s ms = Some (w # ws, peer t)"
    then obtain m ms' s' where m: "ms = m # ms'" "msg m" "list_all msg ms'" "seal s m = Some (w, s')"
      "seal_all seal s' ms' = Some (ws, peer t)"
      by (cases ms) (auto split: option.splits)
    have "unseal (peer s) w = Some (m, peer s')"
      using m(2,4) unseal_iff [OF Cons.prems(1) wire(1)] by (simp add: peer_peer)
    moreover have "ok s'" using seal_ok [OF Cons.prems(1) m(2,4)] by blast
    ultimately show "seal_all unseal (peer s) (w # ws) = Some (ms, t)"
      using Cons.IH [of s' ms'] wire(2) m by simp
  qed
qed

text \<open>Everything that can be sealed arrives.\<close>

lemma sealed_wire:
  "\<lbrakk>ok s; list_all msg ms; seal_all seal s ms = Some (ws, t)\<rbrakk> \<Longrightarrow> list_all wire ws \<and> ok t"
  by (induction ms arbitrary: s ws) (auto split: option.splits dest: seal_ok)

lemma sealed_arrives:
  assumes "ok s" "list_all msg ms" "seal_all seal s ms = Some (ws, t)"
  shows "seal_all unseal (peer s) ws = Some (ms, peer t)"
  using transcript_iff [OF assms(1), of ws ms "peer t"] sealed_wire [OF assms] assms by (simp add: peer_peer)

end

subsection \<open>The chained EV1 CMAC\<close>

text \<open>
  The two directions. Reader and card hold the same session but for the role; the state of the
  channel is the card's, the reader's is its mirror. An instruction or a status travels in the clear
  beside the octets.
\<close>

definition sm_peer :: "DfcSecureMessaging \<Rightarrow> DfcSecureMessaging" where
  "sm_peer sm = sm\<lparr>sm_pcd := \<not> sm_pcd sm\<rparr>"

definition card_respond :: "'x mbedtls \<Rightarrow> DfcSecureMessaging \<Rightarrow> u8 \<times> bytes \<Rightarrow> ((u8 \<times> bytes) \<times> DfcSecureMessaging) option" where
  "card_respond lib sm = (\<lambda>(status, plain).
     case dfc_secure_messaging_generate_ev1_response lib sm status (Some plain) (length plain)
            (Some (replicate (length plain + 8) 0)) (length plain + 8) of
       (n, sm', out) \<Rightarrow> if n = 0 then None else Some ((status, take n (the out)), sm'))"

definition reader_take :: "'x mbedtls \<Rightarrow> DfcSecureMessaging \<Rightarrow> u8 \<times> bytes \<Rightarrow> ((u8 \<times> bytes) \<times> DfcSecureMessaging) option" where
  "reader_take lib sm = (\<lambda>(status, w).
     case dfc_secure_messaging_unwrap_ev1_response lib sm status (Some w) (length w) (Some (replicate (length w) 0)) (length w) of
       (n, sm', out) \<Rightarrow> if n = SIZE_MAX then None else Some ((status, take n (the out)), sm'))"

definition reader_command :: "'x mbedtls \<Rightarrow> DfcSecureMessaging \<Rightarrow> u8 \<times> bytes \<Rightarrow> ((u8 \<times> bytes) \<times> DfcSecureMessaging) option" where
  "reader_command lib sm = (\<lambda>(ins, data).
     case ev1_command_cmac lib sm ins (Some data) (length data) of
       (False, _, _) \<Rightarrow> None
     | (True, full, sm') \<Rightarrow> Some ((ins, data @ take DFC_WORKER_CMAC_SIZE full), sm'))"

definition card_take :: "'x mbedtls \<Rightarrow> DfcSecureMessaging \<Rightarrow> u8 \<times> bytes \<Rightarrow> ((u8 \<times> bytes) \<times> DfcSecureMessaging) option" where
  "card_take lib sm = (\<lambda>(ins, w).
     case dfc_secure_messaging_verify_ev1_transmitted_command_mac lib sm ins w (length w) of
       (n, sm') \<Rightarrow> if n = SIZE_MAX then None else Some ((ins, take n w), sm'))"

text \<open>A message of a conversation: a command of the reader (\<^term>\<open>True\<close>) or a response of the card.\<close>

type_synonym ev1_message = "bool \<times> u8 \<times> bytes"

fun ev1_seal :: "'x mbedtls \<Rightarrow> DfcSecureMessaging \<Rightarrow> ev1_message \<Rightarrow> (ev1_message \<times> DfcSecureMessaging) option" where
  "ev1_seal lib sm (True, c) = map_option (map_prod (Pair True) sm_peer) (reader_command lib (sm_peer sm) c)"
| "ev1_seal lib sm (False, r) = map_option (map_prod (Pair False) id) (card_respond lib sm r)"

fun ev1_unseal :: "'x mbedtls \<Rightarrow> DfcSecureMessaging \<Rightarrow> ev1_message \<Rightarrow> (ev1_message \<times> DfcSecureMessaging) option" where
  "ev1_unseal lib sm (True, c) = map_option (map_prod (Pair True) sm_peer) (card_take lib (sm_peer sm) c)"
| "ev1_unseal lib sm (False, r) = map_option (map_prod (Pair False) id) (reader_take lib sm r)"

definition ev1_session :: "DfcSecureMessaging \<Rightarrow> bool" where
  "ev1_session sm \<longleftrightarrow> session_is_valid sm \<and> sm_cipher sm \<noteq> DFC_CMD_AUTHENTICATE_LEGACY \<and> length (sm_iv sm) = 16"

definition ev1_fits :: "size_t \<Rightarrow> ev1_message \<Rightarrow> bool" where
  "ev1_fits k m \<longleftrightarrow> length (snd (snd m)) + k \<le> SIZE_MAX"

text \<open>What is authenticated, in the order of the code: instruction first, status last.\<close>

fun ev1_mac_input :: "ev1_message \<Rightarrow> bytes" where
  "ev1_mac_input (command, code, data) = (if command then code # data else data @ [code])"

fun ev1_with_mac :: "bytes \<Rightarrow> ev1_message \<Rightarrow> ev1_message" where
  "ev1_with_mac mac (command, code, data) = (command, code, data @ mac)"

lemma sm_peer_mac [simp]:
  "sm_peer (sm_peer sm) = sm" "ev1_cmac lib (sm_peer sm) = ev1_cmac lib sm" "sm_chained (sm_peer sm) mac = sm_peer (sm_chained sm mac)"
  "sm_iv (sm_peer sm) = sm_iv sm" "session_is_valid (sm_peer sm) = session_is_valid sm"
  "sm_cipher (sm_peer sm) = sm_cipher sm" "ev1_accepts lib (sm_peer sm) m mac = map_option sm_peer (ev1_accepts lib sm m mac)"
  by (simp_all add: sm_peer_def ev1_cmac_def sm_chained_def session_is_valid_def sm_kind_def fun_eq_iff ev1_accepts_def split: option.splits)

lemma sm_peer_eq: "a = sm_peer b \<longleftrightarrow> b = sm_peer a"
  by auto

lemma ev1_seal_eq:
  assumes "block_library lib" "ev1_session sm" "ev1_fits 24 m"
  shows "ev1_seal lib sm m = map_option (\<lambda>mac. (ev1_with_mac (take 8 mac) m, sm_chained sm mac)) (ev1_cmac lib sm (ev1_mac_input m))"
proof -
  obtain command code data where m: "m = (command, code, data)" by (cases m)
  have l: "length data \<le> SIZE_MAX - 16" "length data \<le> SIZE_MAX - 24" using assms(3) m by (simp_all add: ev1_fits_def)
  show ?thesis
  proof (cases command)
    case True
    have "ev1_cmac_segments lib (sm_peer sm) [segment (Some [code]) 1, segment (Some data) (length data)] =
      (case ev1_cmac lib sm (code # data) of
         None \<Rightarrow> (False, replicate (CMAC_BLOCK_SIZE (sm_kind (sm_peer sm))) 0, sm_peer sm)
       | Some mac \<Rightarrow> (True, mac, sm_chained (sm_peer sm) mac))"
      using ev1_cmac_segments_eq [OF assms(1), of "sm_peer sm" "[segment (Some [code]) 1, segment (Some data) (length data)]"]
        assms(2) l by (simp add: ev1_session_def SIZE_MAX_def)
    then show ?thesis
      using True m by (simp add: reader_command_def ev1_command_cmac_def DFC_WORKER_CMAC_SIZE_def split: option.splits)
  next
    case False
    note ge = generate_ev1_eq [OF assms(1) _ l(1), where out = "replicate (length data + 8) 0" and sm = sm and status = code]
    have "length (take 8 mac) = 8" if "ev1_cmac lib sm (data @ [code]) = Some mac" for mac
      using ev1_cmac_length(2) [OF assms(1) that] by simp
    then show ?thesis
      using ge assms(2) False m by (auto simp: card_respond_def ev1_session_def mem_write_def split: option.splits)
  qed
qed

lemma ev1_unseal_eq:
  assumes "block_library lib" "ev1_session sm" "length data + 16 \<le> SIZE_MAX"
  shows "ev1_unseal lib (sm_peer sm) (command, code, data) =
    (if length data < 8 then None
     else let plain = (command, code, take (length data - 8) data) in
       map_option (\<lambda>sm'. (plain, sm_peer sm')) (ev1_accepts lib sm (ev1_mac_input plain) (drop (length data - 8) data)))"
proof -
  have l: "length data \<le> SIZE_MAX - 16" "length (sm_iv sm) = 16" "length (sm_iv (sm_peer sm)) = 16"
    "length data - 8 \<noteq> SIZE_MAX" using assms by (auto simp: ev1_session_def SIZE_MAX_def)
  show ?thesis
  proof (cases command)
    case True
    then show ?thesis
      using verify_transmitted_eq [OF assms(1) l(2,1), of code] l(4)
      by (simp add: card_take_def Let_def split: option.splits)
  next
    case False
    then show ?thesis
      using unwrap_ev1_eq [OF assms(1) l(3,1), where out = "replicate (length data) 0" and status = code] l(4) assms(2)
      by (simp add: reader_take_def Let_def ev1_session_def mem_write_def split: option.splits)
  qed
qed

lemma ev1_unseal_iff:
  assumes lib: "block_library lib" and sm: "ev1_session sm" and w: "ev1_fits 16 w"
  shows "ev1_unseal lib (sm_peer sm) w = Some (m, t) \<longleftrightarrow> ev1_fits 24 m \<and> ev1_seal lib sm m = Some (w, sm_peer t)"
proof -
  obtain command code data where w': "w = (command, code, data)" by (cases w)
  obtain command' code' plain where m': "m = (command', code', plain)" by (cases m)
  have u: "ev1_unseal lib (sm_peer sm) w = Some (m, t) \<longleftrightarrow> (\<exists>mac. ev1_cmac lib sm (ev1_mac_input m) = Some mac \<and>
      w = ev1_with_mac (take 8 mac) m \<and> t = sm_peer (sm_chained sm mac))"
  proof (cases "length data < 8")
    case True
    then have "w \<noteq> ev1_with_mac (take 8 mac) m" if "ev1_cmac lib sm x = Some mac" for mac x
      using ev1_cmac_length(2) [OF lib that] unfolding w' m' by auto
    moreover have "ev1_unseal lib (sm_peer sm) w = None"
      using True ev1_unseal_eq [OF lib sm, of data command code] w unfolding w' by (simp add: ev1_fits_def del: ev1_unseal.simps)
    ultimately show ?thesis by (simp del: ev1_unseal.simps ev1_mac_input.simps) blast
  next
    case False
    define h e where "h = take (length data - 8) data" and "e = drop (length data - 8) data"
    then have d: "data = h @ e" "length e = 8" "length data - 8 = length h" using False by simp_all
    have eq: "w = ev1_with_mac (take 8 mac) m \<longleftrightarrow> m = (command, code, h) \<and> e = take 8 mac" if "ev1_cmac lib sm x = Some mac" for mac x
    proof -
      have "length (take 8 mac) = length e" using ev1_cmac_length(2) [OF lib that] d(2) by simp
      then show ?thesis unfolding w' m' d(1) by (auto simp: append_eq_append_conv)
    qed
    have "ev1_unseal lib (sm_peer sm) w =
        map_option (\<lambda>sm'. ((command, code, h), sm_peer sm')) (ev1_accepts lib sm (ev1_mac_input (command, code, h)) e)"
      using ev1_unseal_eq [OF lib sm, of data command code] w w' False h_def e_def by (simp add: ev1_fits_def Let_def)
    then have "ev1_unseal lib (sm_peer sm) w = Some (m, t) \<longleftrightarrow> m = (command, code, h) \<and>
        (\<exists>mac. ev1_cmac lib sm (ev1_mac_input m) = Some mac \<and> take 8 mac = e \<and> t = sm_peer (sm_chained sm mac))"
      by (cases "ev1_cmac lib sm (ev1_mac_input (command, code, h))")
        (auto simp: ev1_accepts_def simp del: ev1_mac_input.simps split: if_splits)
    then show ?thesis using eq by blast
  qed
  have "ev1_fits 24 m" if "w = ev1_with_mac (take 8 mac) m" "ev1_cmac lib sm x = Some mac" for mac x
    using that w m' ev1_cmac_length(2) [OF lib that(2)] by (auto simp: ev1_fits_def)
  moreover have "ev1_seal lib sm m = Some (w, sm_peer t) \<longleftrightarrow> (\<exists>mac. ev1_cmac lib sm (ev1_mac_input m) = Some mac \<and>
      w = ev1_with_mac (take 8 mac) m \<and> t = sm_peer (sm_chained sm mac))" if "ev1_fits 24 m"
    unfolding ev1_seal_eq [OF lib sm that] map_option_eq_Some prod.inject sm_peer_eq by blast
  ultimately show ?thesis using u by blast
qed

lemma ev1_seal_session:
  assumes "block_library lib" "ev1_session sm" "ev1_fits 24 m" "ev1_seal lib sm m = Some (w, sm')"
  shows "ev1_session sm' \<and> ev1_fits 16 w"
proof -
  obtain mac where "ev1_cmac lib sm (ev1_mac_input m) = Some mac" "w = ev1_with_mac (take 8 mac) m" "sm' = sm_chained sm mac"
    using assms(4) unfolding ev1_seal_eq [OF assms(1-3)] by auto
  then show ?thesis
    using assms(2,3) ev1_cmac_length [OF assms(1), of sm _ mac]
    by (cases m) (auto simp: ev1_session_def ev1_fits_def sm_chained_def session_is_valid_def)
qed

interpretation ev1: authentic_channel "ev1_seal lib" "ev1_unseal lib" sm_peer "\<lambda>sm. block_library lib \<and> ev1_session sm"
    "ev1_fits 24" "ev1_fits 16" for lib
  by unfold_locales (simp, use ev1_seal_session in blast, use ev1_unseal_iff in blast)

subsection \<open>The D40 MAC\<close>

definition d40_seal :: "'x mbedtls \<Rightarrow> DfcSecureMessaging \<Rightarrow> bytes \<Rightarrow> (bytes \<times> DfcSecureMessaging) option" where
  "d40_seal lib sm plain =
     (case dfc_secure_messaging_wrap_d40_command_mac lib sm (Some plain) (length plain)
            (Some (replicate (length plain + 4) 0)) (length plain + 4) of
        (n, out) \<Rightarrow> if n = 0 then None else Some (take n (the out), sm))"

definition d40_unseal :: "'x mbedtls \<Rightarrow> DfcSecureMessaging \<Rightarrow> bytes \<Rightarrow> (bytes \<times> DfcSecureMessaging) option" where
  "d40_unseal lib sm w =
     (case dfc_secure_messaging_verify_d40_command_mac lib sm (Some w) (length w) (Some (replicate (length w) 0)) (length w) of
        (verified, n, out) \<Rightarrow> if verified then Some (take n (the out), sm) else None)"

lemma d40_mac_peer: "d40_mac_reference lib (sm_peer sm) = d40_mac_reference lib sm"
  by (simp add: d40_mac_reference_def sm_peer_def fun_eq_iff)

lemma cbc_mac_length:
  assumes "\<And>x y. enc x = Some y \<Longrightarrow> length y = n" "cbc_mac enc iv bs = Some y" "length iv = n"
  shows "length y = n"
  using assms by (induction bs arbitrary: iv) (auto split: option.splits)

lemma d40_mac_length: "block_library lib \<Longrightarrow> d40_mac_reference lib sm m = Some mac \<Longrightarrow> length mac = 4"
  using cbc_mac_length [of "dfc_crypto_des_block_crypt lib _" 8 "replicate 8 0"] block_library_des [of lib]
  by (fastforce simp: d40_mac_reference_def split: if_splits option.splits)

lemma d40_seal_eq:
  assumes "block_library lib" "d40_session_is_valid sm" "length plain + 4 \<le> SIZE_MAX"
  shows "d40_seal lib sm plain = map_option (\<lambda>mac. (plain @ mac, sm)) (d40_mac_reference lib sm plain)"
  using assms d40_mac_eq [of "[segment (Some plain) (length plain)]" lib sm] d40_mac_length [OF assms(1), of sm plain]
  by (auto simp: d40_seal_def dfc_secure_messaging_wrap_d40_command_mac_def output_fits_def DFC_SM_LEGACY_MAC_LENGTH_def
      opt_octets_def mem_write_def split: option.splits)

lemma d40_unseal_eq:
  assumes lib: "block_library lib" and sm: "d40_session_is_valid sm" and w: "length w \<le> SIZE_MAX"
  shows "d40_unseal lib (sm_peer sm) w =
    (if 4 \<le> length w \<and> d40_mac_reference lib sm (take (length w - 4) w) = Some (drop (length w - 4) w)
     then Some (take (length w - 4) w, sm_peer sm) else None)"
proof (cases "4 \<le> length w")
  case True
  let ?n = "length w - 4"
  have mac: "d40_mac_segments lib (sm_peer sm) [segment (Some w) ?n] =
      (case d40_mac_reference lib sm (take ?n w) of None \<Rightarrow> (False, replicate 4 0) | Some mac \<Rightarrow> (True, mac))"
    using d40_mac_eq [of "[segment (Some w) ?n]" lib "sm_peer sm"] w by (simp add: d40_mac_peer)
  have valid: "d40_session_is_valid (sm_peer sm)" using sm by (simp add: d40_session_is_valid_def)
  have ct: "dfc_ct_equal mac (drop ?n w) 4 \<longleftrightarrow> mac = drop ?n w" if "d40_mac_reference lib sm (take ?n w) = Some mac" for mac
    using dfc_ct_equal_iff [of 4 mac "drop ?n w"] d40_mac_length [OF lib that] True by simp
  show ?thesis
    using True mac valid ct
    by (auto simp: d40_unseal_def dfc_secure_messaging_verify_d40_command_mac_def d40_mac_verify_def output_fits_def Let_def
        DFC_SM_LEGACY_MAC_LENGTH_def opt_octets_def mem_write_def split: option.splits)
qed (simp add: d40_unseal_def dfc_secure_messaging_verify_d40_command_mac_def d40_mac_verify_def DFC_SM_LEGACY_MAC_LENGTH_def)

lemma d40_unseal_iff:
  assumes lib: "block_library lib" and sm: "d40_session_is_valid sm" and w: "length w \<le> SIZE_MAX"
  shows "d40_unseal lib (sm_peer sm) w = Some (m, t) \<longleftrightarrow> length m + 4 \<le> SIZE_MAX \<and> d40_seal lib sm m = Some (w, sm_peer t)"
proof
  assume u: "d40_unseal lib (sm_peer sm) w = Some (m, t)"
  then have "4 \<le> length w" "m = take (length w - 4) w" "t = sm_peer sm" "d40_mac_reference lib sm m = Some (drop (length w - 4) w)"
    unfolding d40_unseal_eq [OF assms] by (auto split: if_splits)
  then show "length m + 4 \<le> SIZE_MAX \<and> d40_seal lib sm m = Some (w, sm_peer t)"
    using w d40_seal_eq [OF lib sm, of m] by simp
next
  assume s: "length m + 4 \<le> SIZE_MAX \<and> d40_seal lib sm m = Some (w, sm_peer t)"
  then obtain mac where "d40_mac_reference lib sm m = Some mac" "w = m @ mac" "sm = sm_peer t"
    using d40_seal_eq [OF lib sm, of m, symmetric] by (auto simp: map_option_eq_Some)
  then show "d40_unseal lib (sm_peer sm) w = Some (m, t)"
    using d40_mac_length [OF lib, of sm m mac] unfolding d40_unseal_eq [OF assms] by simp
qed

interpretation d40: authentic_channel "d40_seal lib" "d40_unseal lib" sm_peer "\<lambda>sm. block_library lib \<and> d40_session_is_valid sm"
    "\<lambda>m. length m + 4 \<le> SIZE_MAX" "\<lambda>w. length w \<le> SIZE_MAX" for lib
proof unfold_locales
  show "(block_library lib \<and> d40_session_is_valid s') \<and> length w \<le> SIZE_MAX"
    if "block_library lib \<and> d40_session_is_valid s" "length m + 4 \<le> SIZE_MAX" "d40_seal lib s m = Some (w, s')" for s m w s'
    using that d40_seal_eq [of lib s m] d40_mac_length [of lib s m] by auto
qed (simp, use d40_unseal_iff in blast)

subsection \<open>Conversations\<close>

definition sample_ev1_session :: DfcSecureMessaging where
  "sample_ev1_session = zero_secure_messaging\<lparr>sm_cipher := DFC_CMD_AUTHENTICATE_AES, sm_session_key_len := 16\<rparr>"

definition sample_d40_session :: DfcSecureMessaging where
  "sample_d40_session = zero_secure_messaging\<lparr>sm_cipher := DFC_CMD_AUTHENTICATE_LEGACY, sm_session_key_len := 8\<rparr>"

lemma sample_sessions [simp]: "ev1_session sample_ev1_session" "d40_session_is_valid sample_d40_session"
  by (simp_all add: ev1_session_def d40_session_is_valid_def session_is_valid_def cipher_accepts_key_length_def sample_ev1_session_def
      sample_d40_session_def zero_secure_messaging_def DFC_CMD_AUTHENTICATE_AES_def DFC_CMD_AUTHENTICATE_LEGACY_def
      DFC_CMD_AUTHENTICATE_ISO_def DFC_AES_KEY_LENGTH_def)

lemma sample_d40_mac: "d40_mac_reference xor_library sample_d40_session (1 # 2 # replicate 7 3) = Some [2, 2, 3, 3]"
  by code_simp

lemma sample_ev1_seals:
  assumes "ev1_session sm" "sm_cipher sm = DFC_CMD_AUTHENTICATE_AES" "ev1_fits 24 m"
  shows "\<exists>w sm'. ev1_seal xor_library sm m = Some (w, sm') \<and> sm_cipher sm' = DFC_CMD_AUTHENTICATE_AES"
proof -
  have "unat (sm_session_key_len sm) = 16"
    using assms(1,2) by (simp add: ev1_session_def session_is_valid_def cipher_accepts_key_length_def DFC_CMD_AUTHENTICATE_AES_def
        DFC_CMD_AUTHENTICATE_LEGACY_def DFC_CMD_AUTHENTICATE_ISO_def DFC_AES_KEY_LENGTH_def)
  then obtain mac where "ev1_cmac xor_library sm (ev1_mac_input m) = Some mac"
    using specification_total [OF xor_works] assms(2) by (fastforce simp: ev1_cmac_def sm_kind_def)
  then show ?thesis
    using ev1_seal_eq [OF xor_library(1) assms(1,3)] assms(2) by (cases m) (simp add: sm_chained_def)
qed

text \<open>
  C13. A conversation of MACed commands and responses, in whatever order, is accepted exactly when it is
  the one that was sealed, octet for octet and in its order; the reader's and the card's sessions then
  still mirror each other. So nothing altered, dropped, repeated or moved is accepted.
\<close>

theorem ev1_conversation_authentic:
  assumes "block_library lib" "ev1_session sm" "list_all (ev1_fits 16) ws"
  shows "seal_all (ev1_unseal lib) (sm_peer sm) ws = Some (ms, reader') \<longleftrightarrow>
    list_all (ev1_fits 24) ms \<and> seal_all (ev1_seal lib) sm ms = Some (ws, sm_peer reader')"
  using ev1.transcript_iff [of lib sm ws ms reader'] assms by blast

theorem ev1_conversation_authentic_witness:
  "\<exists>ws reader'. length ws = 2 \<and>
     seal_all (ev1_unseal xor_library) (sm_peer sample_ev1_session) ws = Some ([(True, 0x3D, [1, 2]), (False, 0, [])], reader')"
proof -
  let ?ms = "[(True, 0x3D, [1, 2]), (False, 0, [])] :: ev1_message list"
  have fits: "ev1_fits 24 (True, 0x3D, [1, 2])" "ev1_fits 24 (False, 0, [])" by (simp_all add: ev1_fits_def SIZE_MAX_def)
  have c: "sm_cipher sample_ev1_session = DFC_CMD_AUTHENTICATE_AES" by (simp add: sample_ev1_session_def)
  obtain w s where w: "ev1_seal xor_library sample_ev1_session (True, 0x3D, [1, 2]) = Some (w, s)" "sm_cipher s = DFC_CMD_AUTHENTICATE_AES"
    using sample_ev1_seals [OF sample_sessions(1) c fits(1)] by blast
  then obtain w' s' where "ev1_seal xor_library s (False, 0, []) = Some (w', s')"
    using sample_ev1_seals [OF _ w(2) fits(2)] ev1_seal_session [OF xor_library(1) sample_sessions(1) fits(1) w(1)] by blast
  then have sealed: "seal_all (ev1_seal xor_library) sample_ev1_session ?ms = Some ([w, w'], s')"
    using w(1) by (simp del: ev1_seal.simps)
  then have "list_all (ev1_fits 16) [w, w']" using ev1.sealed_wire [of xor_library sample_ev1_session ?ms] fits by simp
  then have "seal_all (ev1_unseal xor_library) (sm_peer sample_ev1_session) [w, w'] = Some (?ms, sm_peer s')"
    using ev1_conversation_authentic [of xor_library sample_ev1_session "[w, w']" ?ms "sm_peer s'"] sealed fits
    by (simp del: seal_all.simps)
  then show ?thesis by (metis length_Cons list.size(3) numeral_2_eq_2)
qed

text \<open>
  C17. The D40 MAC over a payload in any number of pieces is the DES CBC-MAC from a zero chaining value over
  the zero-padded payload, cut to four octets; an empty payload has the zero MAC, and a cipher failure is
  reported with a zero MAC.
\<close>

theorem d40_mac_is_cbc_mac:
  assumes "list_all seg_ok segments" "length (message_of segments) \<le> SIZE_MAX"
  shows "d40_mac_segments lib sm segments =
    (case d40_mac_reference lib sm (message_of segments) of None \<Rightarrow> (False, replicate 4 0) | Some mac \<Rightarrow> (True, mac))"
  by (rule d40_mac_eq [OF assms])

theorem d40_mac_is_cbc_mac_witness:
  "d40_mac_segments xor_library sample_d40_session [segment (Some [1, 2]) 2, segment None 0, segment (Some (replicate 7 3)) 7] =
   (True, [2, 2, 3, 3])"
  using d40_mac_is_cbc_mac [of "[segment (Some [1, 2]) 2, segment None 0, segment (Some (replicate 7 3)) 7]" xor_library sample_d40_session]
  by (simp add: SIZE_MAX_def sample_d40_mac)

text \<open>
  Over a D40 session a sequence of MACed payloads is accepted exactly when it is what the other party
  sealed; neither session changes.
\<close>

theorem d40_conversation_authentic:
  assumes "block_library lib" "d40_session_is_valid sm" "list_all (\<lambda>w. length w \<le> SIZE_MAX) ws"
  shows "seal_all (d40_unseal lib) (sm_peer sm) ws = Some (ms, reader') \<longleftrightarrow>
    list_all (\<lambda>m. length m + 4 \<le> SIZE_MAX) ms \<and> seal_all (d40_seal lib) sm ms = Some (ws, sm_peer reader')"
  using d40.transcript_iff [of lib sm ws ms reader'] assms by blast

theorem d40_conversation_authentic_witness:
  "seal_all (d40_unseal xor_library) (sm_peer sample_d40_session) [[1, 2, 1, 2, 0, 0], replicate 4 0] =
   Some ([[1, 2], []], sm_peer sample_d40_session)"
proof -
  have "d40_mac_reference xor_library sample_d40_session [1, 2] = Some [1, 2, 0, 0]"
    by code_simp
  moreover have "d40_mac_reference xor_library sample_d40_session [] = Some (replicate 4 0)" by (simp add: d40_mac_reference_def)
  ultimately have "seal_all (d40_seal xor_library) sample_d40_session [[1, 2], []] = Some ([[1, 2, 1, 2, 0, 0], replicate 4 0], sample_d40_session)"
    using d40_seal_eq [OF xor_library(1) sample_sessions(2)] by (simp add: SIZE_MAX_def)
  then show ?thesis
    using d40_conversation_authentic [of xor_library sample_d40_session "[[1, 2, 1, 2, 0, 0], replicate 4 0]" "[[1, 2], []]"
        "sm_peer sample_d40_session"] by (simp add: SIZE_MAX_def del: seal_all.simps)
qed

end
