(* ===== verification/Dfc_Enciphered.thy ===== *)
theory Dfc_Enciphered
  imports Dfc_Channel
begin

text \<open>
  What the enciphered mode of secure messaging promises: the search for the end of a payload finds the
  first boundary that is followed by padding and carries the right checksum, and what one party
  enciphers the other recovers.
\<close>

subsection \<open>The end of an enciphered payload\<close>

definition padding_at :: "bytes \<Rightarrow> size_t \<Rightarrow> size_t \<Rightarrow> bool" where
  "padding_at buf n p \<longleftrightarrow> (\<forall>i \<in> {p..<n}. buf ! i = 0) \<or> (p < n \<and> buf ! p = 0x80 \<and> (\<forall>i \<in> {Suc p..<n}. buf ! i = 0))"

lemma nonzero_end_props:
  "nonzero_end data n \<le> n" "\<And>i. nonzero_end data n \<le> i \<Longrightarrow> i < n \<Longrightarrow> data ! i = 0"
  "nonzero_end data n \<noteq> 0 \<Longrightarrow> data ! (nonzero_end data n - 1) \<noteq> 0"
proof -
  show "nonzero_end data n \<le> n" by (induction n) simp_all
  show "nonzero_end data n \<le> i \<Longrightarrow> i < n \<Longrightarrow> data ! i = 0" for i
    by (induction n) (auto split: if_splits simp: less_Suc_eq)
  show "nonzero_end data n \<noteq> 0 \<Longrightarrow> data ! (nonzero_end data n - 1) \<noteq> 0"
    by (induction n) (auto split: if_splits)
qed

lemma first_padded_iff: "first_padded_clear_length data n k \<le> c \<longleftrightarrow> padding_at data n (c + k)"
proof (cases "nonzero_end data n = 0")
  case True
  then show ?thesis
    using nonzero_end_props(2) [of data n] by (auto simp: first_padded_clear_length_def padding_at_def)
next
  case False
  define l where "l = nonzero_end data n - 1"
  have l: "l < n" "data ! l \<noteq> 0" "\<And>i. l < i \<Longrightarrow> i < n \<Longrightarrow> data ! i = 0"
    using False nonzero_end_props [of data n] by (auto simp: l_def)
  let ?r = "l + (if data ! l = 0x80 then 0 else 1)"
  have f: "first_padded_clear_length data n k = (if ?r > k then ?r - k else 0)"
    using False unfolding first_padded_clear_length_def Let_def l_def [symmetric] DFC_SM_LENGTH_MARKER_def by simp
  have "first_padded_clear_length data n k \<le> c \<longleftrightarrow> ?r \<le> c + k"
    unfolding f by (cases "?r > k") auto
  also have "\<dots> \<longleftrightarrow> padding_at data n (c + k)"
  proof (cases "c + k \<le> l")
    case True
    have "\<not> (\<forall>i \<in> {c + k..<n}. data ! i = 0)" using True l(1,2) by auto
    moreover have "(\<forall>i \<in> {Suc (c + k)..<n}. data ! i = 0) \<longleftrightarrow> c + k = l"
      using True l by (auto simp: Suc_le_eq le_less)
    ultimately show ?thesis using True l(1) by (auto simp: padding_at_def)
  next
    case False
    then show ?thesis using l(3) by (auto simp: padding_at_def)
  qed
  finally show ?thesis .
qed

lemma crc16_extend_snoc: "dfc_crc16_iso14443_extend (dfc_crc16_iso14443_extend crc a) b = dfc_crc16_iso14443_extend crc (a @ b)"
  by (simp add: dfc_crc16_iso14443_extend_def)

lemma crc32_extend_snoc: "dfc_crc32_extend (dfc_crc32_extend crc a) b = dfc_crc32_extend crc (a @ b)"
  by (simp add: dfc_crc32_extend_def)

lemma le16_iff: "(ucast a :: u16) OR push_bit 8 (ucast b) = w \<longleftrightarrow> [a, b] = le16 w" for a b :: u8
proof
  assume "[a, b] = le16 w"
  then show "(ucast a :: u16) OR push_bit 8 (ucast b) = w" by (simp add: le16_def)
qed (metis le16_read)

lemma le32_iff:
  "(ucast a :: u32) OR push_bit 8 (ucast b) OR push_bit 16 (ucast c) OR push_bit 24 (ucast d) = w \<longleftrightarrow> [a, b, c, d] = le32 w"
  for a b c d :: u8
proof -
  have r: "(ucast a :: u32) OR push_bit 8 (ucast b) OR push_bit 16 (ucast c) OR push_bit 24 (ucast d) = read_i32_le ([a, b, c, d] @ [])"
    by (simp add: read_i32_le_def)
  show ?thesis
    unfolding r using le32_read [of a b c d "[]"] read_le32 [of w "[]"] by (metis append_Nil2)
qed

lemma sm_crc_octets_eq:
  "sm_crc_octets sm prefix plain suffix =
     (if sm_cipher sm = DFC_CMD_AUTHENTICATE_LEGACY then le16 (dfc_crc16_iso14443 plain)
      else le32 (dfc_crc32_extend 0xFFFFFFFF (prefix @ plain @ suffix)))"
proof -
  have m: "(0xFF :: u32) = mask 8" by (simp add: mask_eq_exp_minus_1)
  have b: "ucast (crc AND 0xFF) = (ucast crc :: u8)" for crc :: u32
    unfolding m by (rule bit_word_eqI) (simp add: bit_simps)
  have a: "ucast (drop_bit n crc AND 0xFF) = (ucast (drop_bit n crc) :: u8)" for n and crc :: u32
    by (rule b)
  have c: "ucast (ucast w :: u32) = (ucast w :: u8)" "ucast (drop_bit 8 (ucast w :: u32)) = (ucast (drop_bit 8 w) :: u8)" for w :: u16
    by (rule bit_word_eqI, simp add: bit_simps)+
  show ?thesis by (simp add: sm_crc_octets_def Let_def a b c le16_def le32_def crc32_extend_snoc)
qed

lemma length_sm_crc_octets [simp]: "length (sm_crc_octets sm prefix plain suffix) = sm_crc_len sm"
  by (simp add: sm_crc_octets_eq sm_crc_len_def)

lemma mem_read_two: "c + 2 \<le> length buf \<Longrightarrow> mem_read c 2 buf = [buf ! c, buf ! (c + 1)]"
  by (simp add: list_eq_iff_nth_eq less_Suc_eq numeral_2_eq_2)

lemma mem_read_four: "c + 4 \<le> length buf \<Longrightarrow> mem_read c 4 buf = [buf ! c, buf ! (c + 1), buf ! (c + 2), buf ! (c + 3)]"
  by (auto simp: list_eq_iff_nth_eq less_Suc_eq numeral_eq_Suc)

lemma legacy_search_eq:
  "n \<le> length buf \<Longrightarrow> crc = dfc_crc16_iso14443 (take c buf) \<Longrightarrow> legacy_crc_search buf n c crc =
    find_index_from (\<lambda>c. mem_read c 2 buf = le16 (dfc_crc16_iso14443 (take c buf))) c (n - 1)"
proof (induction buf n c crc rule: legacy_crc_search.induct)
  case (1 buf n c crc)
  show ?case
  proof (cases "c + 2 \<le> n")
    case True
    have r: "mem_read c 2 buf = [buf ! c, buf ! (c + 1)]" using True "1.prems"(1) by (intro mem_read_two) simp
    have t: "take (Suc c) buf = take c buf @ [buf ! c]" using True "1.prems"(1) by (simp add: take_Suc_conv_app_nth)
    have e: "dfc_crc16_iso14443_extend crc [buf ! c] = dfc_crc16_iso14443 (take (c + 1) buf)"
      using "1.prems"(2) by (simp add: t dfc_crc16_iso14443_def crc16_extend_snoc)
    have lt: "c < n - 1" using True by simp
    show ?thesis
      using True lt "1.IH" [OF True refl _ "1.prems"(1) e] "1.prems"(2)
      by (subst legacy_crc_search.simps, subst find_index_from.simps) (simp add: r le16_iff Let_def)
  next
    case False
    then show ?thesis by (subst legacy_crc_search.simps, subst find_index_from.simps) auto
  qed
qed

lemma ev1_search_eq:
  "n \<le> length buf \<Longrightarrow> 4 \<le> n \<Longrightarrow> crc = dfc_crc32_extend 0xFFFFFFFF (prefix @ take c buf) \<Longrightarrow>
   ev1_crc_search buf n suffix c crc =
    find_index_from (\<lambda>c. mem_read c 4 buf = le32 (dfc_crc32_extend 0xFFFFFFFF (prefix @ take c buf @ suffix))) c (n - 3)"
proof (induction buf n suffix c crc rule: ev1_crc_search.induct)
  case (1 buf n suffix c crc)
  show ?case
  proof (cases "c \<le> n - 4")
    case True
    have r: "mem_read c 4 buf = [buf ! c, buf ! (c + 1), buf ! (c + 2), buf ! (c + 3)]"
      using True "1.prems"(1,2) by (intro mem_read_four) simp
    have t: "take (Suc c) buf = take c buf @ [buf ! c]" using True "1.prems"(1,2) by (simp add: take_Suc_conv_app_nth)
    have e: "dfc_crc32_extend crc [buf ! c] = dfc_crc32_extend 0xFFFFFFFF (prefix @ take (c + 1) buf)"
      using "1.prems"(3) by (simp add: t crc32_extend_snoc)
    have lt: "c < n - 3" using True "1.prems"(2) by simp
    show ?thesis
      using True lt "1.IH" [OF conjI [OF True "1.prems"(2)] refl refl _ "1.prems"(1,2) e] "1.prems"(2,3)
      by (subst ev1_crc_search.simps, subst find_index_from.simps) (simp add: r le32_iff Let_def crc32_extend_snoc)
  next
    case False
    then show ?thesis using "1.prems"(2) by (subst ev1_crc_search.simps, subst find_index_from.simps) auto
  qed
qed

text \<open>A boundary: padding follows the checksum, and the checksum is that of the octets before it.\<close>

definition boundary :: "DfcSecureMessaging \<Rightarrow> bytes \<Rightarrow> bytes \<Rightarrow> bytes \<Rightarrow> size_t \<Rightarrow> size_t \<Rightarrow> bool" where
  "boundary sm prefix suffix buf n c \<longleftrightarrow> c + sm_crc_len sm \<le> n \<and> padding_at buf n (c + sm_crc_len sm) \<and>
     mem_read c (sm_crc_len sm) buf = sm_crc_octets sm prefix (take c buf) suffix"

lemma crc_search_correct:
  assumes "n \<le> length buf" "sm_crc_len sm \<le> n"
  shows "sm_crc_search sm prefix suffix buf n = Some c \<longleftrightarrow>
      boundary sm prefix suffix buf n c \<and> (\<forall>j < c. \<not> boundary sm prefix suffix buf n j)"
    "sm_crc_search sm prefix suffix buf n = None \<longleftrightarrow> (\<forall>j. \<not> boundary sm prefix suffix buf n j)"
proof -
  let ?k = "sm_crc_len sm" and ?f = "first_padded_clear_length buf n (sm_crc_len sm)"
  let ?P = "\<lambda>c. mem_read c ?k buf = sm_crc_octets sm prefix (take c buf) suffix"
  have s: "sm_crc_search sm prefix suffix buf n = find_index_from ?P ?f (n - (?k - 1))"
    using assms legacy_search_eq [OF assms(1) refl, of ?f] ev1_search_eq [OF assms(1) _ refl, where prefix = prefix and c = ?f and suffix = suffix]
    by (simp add: sm_crc_search_def sm_crc_octets_eq Let_def sm_crc_len_def dfc_crc16_iso14443_def crc32_extend_snoc
        split: if_splits)
  have k: "0 < ?k" by (simp add: sm_crc_len_def)
  have b: "boundary sm prefix suffix buf n j \<longleftrightarrow> ?f \<le> j \<and> j < n - (?k - 1) \<and> ?P j" for j
    using assms(2) k unfolding boundary_def first_padded_iff by auto
  show none: "sm_crc_search sm prefix suffix buf n = None \<longleftrightarrow> (\<forall>j. \<not> boundary sm prefix suffix buf n j)"
    unfolding s find_index_from_None b by auto
  show "sm_crc_search sm prefix suffix buf n = Some c \<longleftrightarrow>
      boundary sm prefix suffix buf n c \<and> (\<forall>j < c. \<not> boundary sm prefix suffix buf n j)"
  proof
    assume "sm_crc_search sm prefix suffix buf n = Some c"
    from find_index_from_Some [OF this [unfolded s]]
    show "boundary sm prefix suffix buf n c \<and> (\<forall>j < c. \<not> boundary sm prefix suffix buf n j)"
      unfolding b by auto
  next
    assume c: "boundary sm prefix suffix buf n c \<and> (\<forall>j < c. \<not> boundary sm prefix suffix buf n j)"
    then obtain c' where c': "sm_crc_search sm prefix suffix buf n = Some c'" using none by blast
    from find_index_from_Some [OF this [unfolded s]] c have "c' = c"
      unfolding b by (metis linorder_neqE_nat order_less_le_trans)
    with c' show "sm_crc_search sm prefix suffix buf n = Some c" by simp
  qed
qed

subsection \<open>The ciphers of the two parties\<close>

text \<open>
  What is relied on from mbedTLS: for a key of a documented length both directions can be set up, CBC
  decryption undoes CBC encryption from the same chaining value and leaves the same next one, and the
  two DES primitives are inverse to each other.
\<close>

definition cbc_library :: "'x mbedtls \<Rightarrow> bool" where
  "cbc_library lib \<longleftrightarrow>
     (\<forall>k iv x. length k = 16 \<longrightarrow> length iv = 16 \<longrightarrow> length x mod 16 = 0 \<longrightarrow>
        (\<exists>e d y iv'. aes_setkey lib True k = Some e \<and> aes_setkey lib False k = Some d \<and> length y = length x \<and> length iv' = 16 \<and>
           aes_crypt_cbc lib e True iv x = Some (y, iv') \<and> aes_crypt_cbc lib d False iv y = Some (x, iv'))) \<and>
     (\<forall>k iv x. length k \<in> {8, 16, 24} \<longrightarrow> length iv = 8 \<longrightarrow> length x mod 8 = 0 \<longrightarrow>
        (\<exists>e d y iv'. des_setkey lib True k = Some e \<and> des_setkey lib False k = Some d \<and> length y = length x \<and> length iv' = 8 \<and>
           des_crypt_cbc lib e True iv x = Some (y, iv') \<and> des_crypt_cbc lib d False iv y = Some (x, iv'))) \<and>
     (\<forall>k p. length k \<in> {8, 16, 24} \<longrightarrow>
        (\<exists>e d. des_setkey lib p k = Some e \<and> des_setkey lib (\<not> p) k = Some d \<and>
           (\<forall>x. length x = 8 \<longrightarrow> (\<exists>y. des_crypt_ecb lib e x = Some y \<and> length y = 8 \<and> des_crypt_ecb lib d y = Some x))))"

lemma cbc_aes:
  assumes "cbc_library lib" "length k = 16" "length iv = 16" "length x mod 16 = 0"
  shows "\<exists>e d y iv'. aes_setkey lib True k = Some e \<and> aes_setkey lib False k = Some d \<and> length y = length x \<and> length iv' = 16 \<and>
    aes_crypt_cbc lib e True iv x = Some (y, iv') \<and> aes_crypt_cbc lib d False iv y = Some (x, iv')"
  using assms(1) [unfolded cbc_library_def, THEN conjunct1, rule_format, OF assms(2-4)] .

lemma cbc_des:
  assumes "cbc_library lib" "length k \<in> {8, 16, 24}" "length iv = 8" "length x mod 8 = 0"
  shows "\<exists>e d y iv'. des_setkey lib True k = Some e \<and> des_setkey lib False k = Some d \<and> length y = length x \<and> length iv' = 8 \<and>
    des_crypt_cbc lib e True iv x = Some (y, iv') \<and> des_crypt_cbc lib d False iv y = Some (x, iv')"
  using assms(1) [unfolded cbc_library_def, THEN conjunct2, THEN conjunct1, rule_format, OF assms(2-4)] .

definition sm_ok :: "DfcSecureMessaging \<Rightarrow> bool" where
  "sm_ok sm \<longleftrightarrow> session_is_valid sm \<and> length (sm_iv sm) = 16 \<and> length (sm_session_key sm) = DFC_MAX_KEY_LEN"

lemma sm_peer_simps [simp]:
  "sm_cipher (sm_peer sm) = sm_cipher sm" "sm_session_key (sm_peer sm) = sm_session_key sm" "sm_iv (sm_peer sm) = sm_iv sm"
  "sm_session_key_len (sm_peer sm) = sm_session_key_len sm" "sm_pcd (sm_peer sm) \<longleftrightarrow> \<not> sm_pcd sm"
  "sm_block_size (sm_peer sm) = sm_block_size sm" "sm_crc_len (sm_peer sm) = sm_crc_len sm"
  "sm_start_iv (sm_peer sm) = sm_start_iv sm" "sm_store_iv (sm_peer sm) iv = sm_peer (sm_store_iv sm iv)"
  "session_is_valid (sm_peer sm) = session_is_valid sm" "sm_peer (sm_peer sm) = sm"
  "sm_crc_octets (sm_peer sm) = sm_crc_octets sm" "boundary (sm_peer sm) = boundary sm" "sm_crc_search (sm_peer sm) = sm_crc_search sm"
  by (simp_all add: sm_peer_def sm_block_size_def sm_crc_len_def sm_start_iv_def sm_store_iv_def session_is_valid_def
      sm_crc_octets_def boundary_def sm_crc_search_def fun_eq_iff)

lemma sm_key_lengths:
  assumes "sm_ok sm"
  shows "sm_cipher sm = DFC_CMD_AUTHENTICATE_AES \<Longrightarrow> unat (sm_session_key_len sm) = 16"
    "unat (sm_session_key_len sm) \<in> {8, 16, 24}"
    "length (take (unat (sm_session_key_len sm)) (sm_session_key sm)) = unat (sm_session_key_len sm)"
  using assms
  by (auto simp: sm_ok_def session_is_valid_def cipher_accepts_key_length_def DFC_CMD_AUTHENTICATE_AES_def
      DFC_CMD_AUTHENTICATE_LEGACY_def DFC_CMD_AUTHENTICATE_ISO_def DFC_AES_KEY_LENGTH_def DFC_MAX_KEY_LEN_def split: if_splits)

lemma des_chain_inverse:
  assumes lib: "block_library lib" "cbc_library lib" and k: "length (take key_len key) = key_len" "key_len \<in> {8, 16, 24}"
    and msg: "length msg mod 8 = 0" "length iv = 8"
  shows "\<exists>y. length y = length msg \<and> des_chain_reference lib p DfcCryptoDesChainForward (Some key) key_len iv msg = Some y \<and>
    des_chain_reference lib (\<not> p) DfcCryptoDesChainReverse (Some key) key_len iv y = Some msg"
proof -
  obtain e d where ed: "des_setkey lib p (take key_len key) = Some e" "des_setkey lib (\<not> p) (take key_len key) = Some d"
    and inv: "\<And>x. length x = 8 \<Longrightarrow> \<exists>y. des_crypt_ecb lib e x = Some y \<and> length y = 8 \<and> des_crypt_ecb lib d y = Some x"
    using lib(2) k unfolding cbc_library_def by metis
  let ?enc = "dfc_crypto_des_block_crypt lib (Some e)" and ?dec = "dfc_crypto_des_block_crypt lib (Some d)"
  have init: "dfc_crypto_des_block_init lib p (Some key) key_len = Some e"
    "dfc_crypto_des_block_init lib (\<not> p) (Some key) key_len = Some d"
    using k(2) ed by (auto simp: dfc_crypto_des_block_init_def)
  have dv: "8 dvd length msg" using msg(1) by (simp add: dvd_eq_mod_eq_0)
  obtain cs where cs: "chain_blocks ?enc DfcCryptoDesChainForward iv (chunks 8 msg) = Some cs"
    "list_all (\<lambda>b. length b = 8) cs" "length cs = length (chunks 8 msg)"
    "chain_blocks ?dec DfcCryptoDesChainReverse iv cs = Some (chunks 8 msg)"
    using chain_blocks_inverse [of ?enc ?dec, OF _ chunks_exact [OF dv] msg(2)] inv
    by (auto simp: dfc_crypto_des_block_crypt_def)
  have lc: "length (concat cs) = length msg"
    using concat_length_const [OF cs(2)] cs(3) length_chunks [OF dv] dv by simp
  show ?thesis
    using init cs lc msg(1)
    by (intro exI [of _ "concat cs"]) (simp add: des_chain_reference_def chunks_concat concat_chunks)
qed

lemma sm_cipher_inverse:
  assumes lib: "block_library lib" "cbc_library lib" and sm: "sm_ok sm"
    and len: "len mod sm_block_size sm = 0" "len \<le> DFC_SM_MAX_CRYPTO_SIZE" "len \<le> length buf"
  shows "\<exists>y iv'. length y = len \<and> length iv' = 16 \<and> sm_encrypt lib sm len (sm_start_iv sm) buf = Some (y @ drop len buf, iv') \<and>
    (\<forall>w buf2. len \<le> length w \<longrightarrow> take len w = y \<longrightarrow> len \<le> length buf2 \<longrightarrow>
       sm_decrypt lib (sm_peer sm) w len (sm_start_iv sm) buf2 = Some (take len buf @ drop len buf2, iv'))"
proof -
  let ?key = "sm_session_key sm" and ?kl = "unat (sm_session_key_len sm)" and ?x = "take len buf"
  note kl = sm_key_lengths [OF sm]
  consider (aes) "sm_cipher sm = DFC_CMD_AUTHENTICATE_AES" | (legacy) "sm_cipher sm = DFC_CMD_AUTHENTICATE_LEGACY"
    | (iso) "sm_cipher sm \<noteq> DFC_CMD_AUTHENTICATE_AES" "sm_cipher sm \<noteq> DFC_CMD_AUTHENTICATE_LEGACY" by blast
  then show ?thesis
  proof cases
    case aes
    then have kl16: "?kl = 16" and n: "length ?x mod 16 = 0" and iv: "length (sm_start_iv sm) = 16"
      using kl(1) len sm by (simp_all add: sm_block_size_def DFC_AES_KEY_LENGTH_def sm_start_iv_def sm_ok_def
          DFC_CMD_AUTHENTICATE_AES_def DFC_CMD_AUTHENTICATE_LEGACY_def)
    obtain e d y iv' where l: "aes_setkey lib True (take 16 ?key) = Some e" "aes_setkey lib False (take 16 ?key) = Some d"
      "length y = length ?x" "length iv' = 16" "aes_crypt_cbc lib e True (sm_start_iv sm) ?x = Some (y, iv')"
      "aes_crypt_cbc lib d False (sm_start_iv sm) y = Some (?x, iv')"
      using cbc_aes [OF lib(2) _ iv n, of "take 16 ?key"] kl(3) kl16 by auto
    show ?thesis
      using aes l kl16 n len
      by (intro exI [of _ y] exI [of _ iv']) (auto simp: sm_encrypt_def sm_decrypt_def dfc_worker_aes_cbc_encrypt_def
          dfc_worker_aes_cbc_decrypt_def dfc_crypto_aes_cbc_def Let_def mem_write_def)
  next
    case legacy
    have n: "length ?x mod 8 = 0"
      using legacy len by (simp add: sm_block_size_def DFC_SM_LEGACY_BLOCK_SIZE_def DFC_CMD_AUTHENTICATE_AES_def DFC_CMD_AUTHENTICATE_LEGACY_def)
    obtain y where y: "length y = len"
      "des_chain_reference lib (\<not> sm_pcd sm) DfcCryptoDesChainForward (Some ?key) ?kl (replicate 8 0) ?x = Some y"
      "des_chain_reference lib (sm_pcd sm) DfcCryptoDesChainReverse (Some ?key) ?kl (replicate 8 0) y = Some ?x"
      using des_chain_inverse [OF lib kl(3,2) n, of "replicate 8 0" "\<not> sm_pcd sm"] len by auto
    have a: "legacy_cbc_forward lib sm (\<not> sm_pcd sm) None len buf = (True, y @ drop len buf)"
      using des_chain_eq [OF lib(1), of "replicate 8 0" len buf None] y(2) len by (simp add: legacy_cbc_forward_def)
    have b: "legacy_cbc_reverse lib (sm_peer sm) (sm_pcd sm) (Some w) len buf2 = (True, ?x @ drop len buf2)"
      if "len \<le> length w" "take len w = y" "len \<le> length buf2" for w buf2
      using des_chain_eq [OF lib(1), of "replicate 8 0" len buf2 "Some w"] y(3) len that by (simp add: legacy_cbc_reverse_def)
    show ?thesis
      using legacy a b y(1)
      by (intro exI [of _ y] exI [of _ "sm_start_iv sm"]) (simp add: sm_encrypt_def sm_decrypt_def Let_def sm_start_iv_def
          DFC_CMD_AUTHENTICATE_AES_def DFC_CMD_AUTHENTICATE_LEGACY_def)
  next
    case iso
    have n: "length ?x mod 8 = 0" and iv: "length (take 8 (sm_start_iv sm)) = 8" "length (sm_start_iv sm) = 16"
      using iso len sm by (simp_all add: sm_block_size_def DFC_SM_LEGACY_BLOCK_SIZE_def sm_start_iv_def sm_ok_def)
    obtain e d y iv' where l: "des_setkey lib True (take ?kl ?key) = Some e" "des_setkey lib False (take ?kl ?key) = Some d"
      "length y = length ?x" "length iv' = 8" "des_crypt_cbc lib e True (take 8 (sm_start_iv sm)) ?x = Some (y, iv')"
      "des_crypt_cbc lib d False (take 8 (sm_start_iv sm)) y = Some (?x, iv')"
      using cbc_des [OF lib(2) _ iv(1) n, of "take ?kl ?key"] kl(2,3) by auto
    show ?thesis
      using iso l kl(2) n len iv(2)
      by (intro exI [of _ y] exI [of _ "mem_write 0 iv' (sm_start_iv sm)"])
        (auto simp: sm_encrypt_def sm_decrypt_def dfc_worker_des_cbc_encrypt_def dfc_crypto_des_block_init_def
          dfc_worker_des_cbc_decrypt_def dfc_crypto_des_cbc_def Let_def mem_write_def DFC_SM_LEGACY_BLOCK_SIZE_def)
  qed
qed

subsection \<open>The round trip\<close>

lemma round_up: "0 < b \<Longrightarrow> n \<le> (n + b - 1) div b * b \<and> (n + b - 1) div b * b < n + b" for n b :: nat
proof
  assume b: "0 < b"
  have e: "n + b - 1 = (n + b - 1) div b * b + (n + b - 1) mod b" by simp
  have m: "(n + b - 1) mod b < b" using b by simp
  show "n \<le> (n + b - 1) div b * b" using e m by linarith
  show "(n + b - 1) div b * b < n + b" using e b by linarith
qed

lemma sm_block_cases: "sm_block_size sm = 8 \<or> sm_block_size sm = 16" "sm_crc_len sm = 2 \<or> sm_crc_len sm = 4"
  by (simp_all add: sm_block_size_def sm_crc_len_def DFC_AES_KEY_LENGTH_def DFC_SM_LEGACY_BLOCK_SIZE_def)

lemma sm_padded_len_props:
  assumes "n \<le> DFC_MAX_FILE_DATA"
  shows "n + sm_crc_len sm \<le> sm_padded_len sm (n + sm_crc_len sm) r" "sm_padded_len sm (n + sm_crc_len sm) r mod sm_block_size sm = 0"
    "sm_padded_len sm (n + sm_crc_len sm) r \<le> DFC_SM_MAX_CRYPTO_SIZE" "r \<Longrightarrow> n + sm_crc_len sm < sm_padded_len sm (n + sm_crc_len sm) r"
proof -
  let ?b = "sm_block_size sm" and ?m = "n + sm_crc_len sm"
  let ?p = "(?m + ?b - 1) div ?b * ?b"
  have b: "0 < ?b" "?b \<le> 16" and m: "0 < ?m" "?m \<le> 2052" using sm_block_cases [of sm] assms by (auto simp: DFC_MAX_FILE_DATA_def)
  have "?m \<le> ?p" "?p < ?m + ?b" using round_up [OF b(1), of ?m] by blast+
  moreover from this m(1) have "?p \<noteq> 0" by linarith
  ultimately have p: "?m \<le> ?p" "?p < ?m + ?b" "?p mod ?b = 0" "?p \<noteq> 0" by simp_all
  have s: "sm_padded_len sm ?m r = (if r \<and> ?p = ?m then ?p + ?b else ?p)"
    unfolding sm_padded_len_def Let_def using p(4) m(1) by auto
  show "?m \<le> sm_padded_len sm ?m r" "r \<Longrightarrow> ?m < sm_padded_len sm ?m r" using p(1) b(1) s by (auto split: if_splits)
  show "sm_padded_len sm ?m r mod ?b = 0" 
  proof (cases "r \<and> ?p = ?m")
    case True
    then show ?thesis unfolding s if_P [OF True] using p(3) by (simp only: mod_add_self2)
  next
    case False
    show ?thesis unfolding s if_not_P [OF False] by (rule p(3))
  qed
  have le: "sm_padded_len sm ?m r \<le> ?m + ?b" using p(2) unfolding s by (simp split: if_split)
  have big: "k \<le> 2064" if "k < 2052 + 16 + 1" "k mod 8 = 0" for k :: nat
    using that by presburger
  have m8: "sm_padded_len sm ?m r mod 8 = 0"
    using \<open>sm_padded_len sm ?m r mod ?b = 0\<close> sm_block_cases(1) [of sm] by (auto simp: mod_eq_0_iff_dvd intro: dvd_trans [of 8 16])
  show "sm_padded_len sm ?m r \<le> DFC_SM_MAX_CRYPTO_SIZE"
    unfolding DFC_SM_MAX_CRYPTO_SIZE_def DFC_MAX_FILE_DATA_def DFC_SM_MAX_CIPHER_BLOCK_SIZE_def
    using big [OF _ m8] le m(2) b(2) by linarith
qed

definition sm_padding :: "bool \<Rightarrow> size_t \<Rightarrow> bytes" where
  "sm_padding r n = (if r then DFC_SM_LENGTH_MARKER # replicate (n - 1) 0 else replicate n 0)"

text \<open>The message an enciphered payload stands for: payload, checksum, padding.\<close>

definition sm_message :: "DfcSecureMessaging \<Rightarrow> bytes \<Rightarrow> bytes \<Rightarrow> bytes \<Rightarrow> bool \<Rightarrow> bytes" where
  "sm_message sm prefix plain suffix r = plain @ sm_crc_octets sm prefix plain suffix @
     sm_padding r (sm_padded_len sm (length plain + sm_crc_len sm) r - (length plain + sm_crc_len sm))"

lemma length_sm_message:
  "length plain \<le> DFC_MAX_FILE_DATA \<Longrightarrow>
   length (sm_message sm prefix plain suffix r) = sm_padded_len sm (length plain + sm_crc_len sm) r"
  using sm_padded_len_props(1,4) [where n = "length plain" and sm = sm and r = r] by (auto simp: sm_message_def sm_padding_def)

lemma sm_message_boundary:
  assumes "length plain \<le> DFC_MAX_FILE_DATA"
  shows "boundary sm prefix suffix (sm_message sm prefix plain suffix r @ rest) (length (sm_message sm prefix plain suffix r)) (length plain)"
proof -
  let ?n = "sm_padded_len sm (length plain + sm_crc_len sm) r"
  have len: "length (sm_message sm prefix plain suffix r) = ?n" by (rule length_sm_message [OF assms])
  note pl = sm_padded_len_props [OF assms, where sm = sm and r = r]
  let ?p = "length plain + sm_crc_len sm"
  have nth: "(sm_message sm prefix plain suffix r @ rest) ! i = sm_padding r (?n - ?p) ! (i - ?p)" if "?p \<le> i" "i < ?n" for i
  proof -
    let ?h = "plain @ sm_crc_octets sm prefix plain suffix" and ?pad = "sm_padding r (?n - ?p)"
    have "sm_message sm prefix plain suffix r @ rest = ?h @ ?pad @ rest" by (simp add: sm_message_def)
    moreover have "length ?h = ?p" by simp
    moreover have "i - ?p < length ?pad" using that pl(4) by (auto simp: sm_padding_def)
    ultimately show ?thesis using that(1) by (simp only: nth_append not_less [symmetric] if_False if_True)
  qed
  have "padding_at (sm_message sm prefix plain suffix r @ rest) ?n ?p"
  proof (cases r)
    case True
    then show ?thesis
      using pl(1,4) nth by (auto simp: padding_at_def sm_padding_def DFC_SM_LENGTH_MARKER_def nth_Cons split: nat.splits)
  next
    case False
    then show ?thesis using nth by (auto simp: padding_at_def sm_padding_def)
  qed
  then show ?thesis
    using pl(1) len by (simp add: boundary_def) (simp add: sm_message_def mem_read_def)
qed

lemma encode_message:
  fixes sm r prefix suffix
  assumes "length plain \<le> DFC_MAX_FILE_DATA" "DFC_SM_MAX_CRYPTO_SIZE \<le> length out"
  defines "n \<equiv> sm_padded_len sm (length plain + sm_crc_len sm) r" and "crc \<equiv> sm_crc_octets sm prefix plain suffix"
    and "w \<equiv> length plain + sm_crc_len sm"
  shows "sm_fill plain (length plain) crc w n r out = sm_message sm prefix plain suffix r @ drop n out"
proof -
  note pl = sm_padded_len_props [OF assms(1), where sm = sm and r = r, folded n_def, folded w_def]
  have lc: "length crc = sm_crc_len sm" by (simp add: crc_def)
  have no: "n \<le> length out" using pl(3) assms(2) by simp
  have b: "mem_write (length plain) crc (mem_write 0 plain out) = (plain @ crc) @ drop w out"
    using pl(1) no lc by (simp add: mem_write_def w_def ac_simps)
  have l: "length (plain @ crc) = w" by (simp add: w_def lc)
  show ?thesis
  proof (cases r)
    case True
    have d: "drop w out = out ! w # drop (Suc w) out" using pl(4) True no by (simp add: Cons_nth_drop_Suc)
    obtain k where k: "n = Suc (w + k)" using pl(4) True less_imp_Suc_add by blast
    have n: "sm_padded_len sm (length plain + sm_crc_len sm) True = Suc (w + k)" using k True by (simp add: n_def)
    have "((plain @ crc) @ drop w out)[w := DFC_SM_LENGTH_MARKER] = (plain @ crc @ [DFC_SM_LENGTH_MARKER]) @ drop (Suc w) out"
      using list_update_length [of "plain @ crc" "out ! w" "drop (Suc w) out" DFC_SM_LENGTH_MARKER] unfolding l d by simp
    then show ?thesis
      using True no l unfolding sm_fill_def b Let_def
      by (simp add: mem_set_def mem_write_def sm_message_def sm_padding_def crc_def [symmetric] n k) (simp add: w_def ac_simps)
  next
    case False
    have n: "sm_padded_len sm (length plain + sm_crc_len sm) False = n" using False by (simp add: n_def)
    show ?thesis
      using False pl(1) no l unfolding sm_fill_def b Let_def
      by (auto simp: mem_set_def mem_write_def sm_message_def sm_padding_def crc_def [symmetric] n w_def lc)
  qed
qed

text \<open>
  Encoding always succeeds on a valid session and a payload that fits; decoding at the other party then comes
  down to the search for the end in the very message.
\<close>

lemma enciphered_effect:
  fixes sm r prefix suffix
  assumes lib: "block_library lib" "cbc_library lib" and sm: "sm_ok sm"
    and arg: "pl \<noteq> 0 \<longrightarrow> prefix \<noteq> None" "sl \<noteq> 0 \<longrightarrow> suffix \<noteq> None" "length plain \<le> DFC_MAX_FILE_DATA"
    and out: "DFC_SM_MAX_CRYPTO_SIZE \<le> length out" "DFC_SM_MAX_CRYPTO_SIZE \<le> length out2"
  defines "m \<equiv> sm_message sm (opt_octets prefix pl) plain (opt_octets suffix sl) r"
  shows "\<exists>sm' w. enciphered_encode lib sm prefix pl (Some plain) (length plain) suffix sl r (Some out) (length out) = (length m, sm', Some w) \<and>
    length m \<le> length w \<and>
    (\<forall>c. sm_crc_search sm (opt_octets prefix pl) (opt_octets suffix sl) (m @ drop (length m) out2) (length m) = Some c \<longrightarrow>
      enciphered_decode lib (sm_peer sm) prefix pl suffix sl (Some w) (length m) (Some out2) (length out2) =
        (c, sm_peer sm', Some (if c < length m then mem_set c 0 (length m - c) (m @ drop (length m) out2) else m @ drop (length m) out2)))"
proof -
  let ?n = "length m" and ?P = "opt_octets prefix pl" and ?S = "opt_octets suffix sl"
  have n: "sm_padded_len sm (length plain + sm_crc_len sm) r = ?n" by (simp add: m_def length_sm_message [OF arg(3)])
  note pp = sm_padded_len_props [OF arg(3), where sm = sm and r = r, unfolded n]
  have val: "session_is_valid sm" using sm by (simp add: sm_ok_def)
  have no: "?n \<le> length out" "?n \<le> length out2" using pp(3) out by simp_all
  obtain y iv' where y: "length y = ?n" "length iv' = 16"
    "sm_encrypt lib sm ?n (sm_start_iv sm) (m @ drop ?n out) = Some (y @ drop ?n (m @ drop ?n out), iv')"
    "\<And>w buf2. ?n \<le> length w \<Longrightarrow> take ?n w = y \<Longrightarrow> ?n \<le> length buf2 \<Longrightarrow>
       sm_decrypt lib (sm_peer sm) w ?n (sm_start_iv sm) buf2 = Some (take ?n (m @ drop ?n out) @ drop ?n buf2, iv')"
    using sm_cipher_inverse [OF lib sm pp(2,3), of "m @ drop ?n out"] no by auto
  let ?w = "y @ drop ?n out" and ?sm' = "sm_store_iv sm iv'"
  have crc: "sm_crc_len sm \<le> 4" "0 < sm_crc_len sm" using sm_block_cases(2) [of sm] by auto
  have guards: "\<not> length plain > SIZE_MAX - sm_crc_len sm" "\<not> length plain + sm_crc_len sm > SIZE_MAX - (sm_block_size sm - 1)"
    using arg(3) crc sm_block_cases(1) [of sm] by (auto simp: SIZE_MAX_def DFC_MAX_FILE_DATA_def)
  have fits: "output_fits (Some out) (length out) ?n" "output_fits (Some out2) (length out2) ?n"
    using no by (simp_all add: output_fits_def)
  have enc: "enciphered_encode lib sm prefix pl (Some plain) (length plain) suffix sl r (Some out) (length out) = (?n, ?sm', Some ?w)"
    using val arg guards fits pp(3) y(1,3) encode_message [OF arg(3) out(1), where r = r and sm = sm and prefix = ?P and suffix = ?S, unfolded n]
    by (auto simp: enciphered_encode_def Let_def n opt_octets_def [of "Some plain"] m_def [symmetric])
  have dec: "sm_decrypt lib (sm_peer sm) ?w ?n (sm_start_iv sm) out2 = Some (m @ drop ?n out2, iv')"
    using y(4) [of ?w out2] y(1) no by simp
  have nl: "\<not> ?n < sm_crc_len sm" "\<not> DFC_SM_MAX_CRYPTO_SIZE < ?n" "?n mod sm_block_size sm = 0" using pp(1-3) by simp_all
  have ne: "?n \<noteq> 0" using pp(1) crc(2) by linarith
  have ptr: "\<not> (pl \<noteq> 0 \<and> prefix = None)" "\<not> (sl \<noteq> 0 \<and> suffix = None)" using arg(1,2) by blast+
  have "enciphered_decode lib (sm_peer sm) prefix pl suffix sl (Some ?w) ?n (Some out2) (length out2) =
      (c, sm_peer ?sm', Some (if c < ?n then mem_set c 0 (?n - c) (m @ drop ?n out2) else m @ drop ?n out2))"
    if "sm_crc_search sm ?P ?S (m @ drop ?n out2) ?n = Some c" for c
    using that val fits(2) dec nl ne ptr unfolding enciphered_decode_def Let_def by auto
  then show ?thesis using enc y(1) by auto
qed

lemma message_end_found:
  assumes "length plain \<le> DFC_MAX_FILE_DATA"
  shows "\<exists>c \<le> length plain. sm_crc_search sm prefix suffix (sm_message sm prefix plain suffix r @ rest)
      (length (sm_message sm prefix plain suffix r)) = Some c \<and>
    boundary sm prefix suffix (sm_message sm prefix plain suffix r @ rest) (length (sm_message sm prefix plain suffix r)) c"
proof -
  let ?m = "sm_message sm prefix plain suffix r"
  have l: "length ?m \<le> length (?m @ rest)" "sm_crc_len sm \<le> length ?m"
    using sm_padded_len_props(1) [OF assms, of sm r] length_sm_message [OF assms, of sm prefix suffix r] by simp_all
  note found = sm_message_boundary [OF assms, of sm prefix suffix r rest]
  then obtain c where c: "sm_crc_search sm prefix suffix (?m @ rest) (length ?m) = Some c"
    using crc_search_correct(2) [OF l, of prefix suffix] by (metis not_None_eq)
  then have "boundary sm prefix suffix (?m @ rest) (length ?m) c" "\<forall>j < c. \<not> boundary sm prefix suffix (?m @ rest) (length ?m) j"
    using crc_search_correct(1) [OF l, of prefix suffix c] by blast+
  then show ?thesis using c found by (meson not_less)
qed

subsection \<open>Properties\<close>

lemma xor_cbc_library [simp]: "cbc_library xor_library"
  by (auto simp: cbc_library_def xor_library_def min_def)

lemma sample_sessions_ok [simp]: "sm_ok sample_ev1_session" "sm_ok sample_d40_session"
  using sample_sessions
  by (simp_all add: sm_ok_def ev1_session_def d40_session_is_valid_def)
    (simp_all add: sample_ev1_session_def sample_d40_session_def zero_secure_messaging_def)

text \<open>
  C16. The end of an enciphered payload is the first position at which a correct checksum is followed by
  correct padding, zeros or 0x80 and zeros; the skipped prefix and the running checksum lose nothing. No
  such position, no payload.
\<close>

theorem enciphered_end_correct:
  assumes "n \<le> length buf" "sm_crc_len sm \<le> n"
  shows "(sm_crc_search sm prefix suffix buf n = Some c \<longleftrightarrow>
      boundary sm prefix suffix buf n c \<and> (\<forall>j < c. \<not> boundary sm prefix suffix buf n j)) \<and>
    (sm_crc_search sm prefix suffix buf n = None \<longleftrightarrow> (\<forall>j. \<not> boundary sm prefix suffix buf n j))"
  using crc_search_correct [OF assms] by blast

theorem enciphered_end_correct_witness:
  "boundary sample_d40_session [] [] [7, 65, 37, 0x80, 0, 0, 0, 0] 8 1 \<and>
   \<not> boundary sample_d40_session [] [] [7, 65, 37, 0x80, 0, 0, 0, 0] 8 0"
proof -
  have "sm_crc_search sample_d40_session [] [] [7, 65, 37, 0x80, 0, 0, 0, 0] 8 = Some 1" by code_simp
  then show ?thesis
    using enciphered_end_correct [of 8 "[7, 65, 37, 0x80, 0, 0, 0, 0]" sample_d40_session "[]" "[]" 1] sm_block_cases(2) [of sample_d40_session]
    by auto
qed

text \<open>The message whose end is sought, and that nothing in it looks like an earlier end.\<close>

definition first_end :: "DfcSecureMessaging \<Rightarrow> bytes \<Rightarrow> bytes \<Rightarrow> bytes \<Rightarrow> bool \<Rightarrow> bool" where
  "first_end sm prefix plain suffix r \<longleftrightarrow>
     (\<forall>c < length plain. \<not> boundary sm prefix suffix (sm_message sm prefix plain suffix r) (length (sm_message sm prefix plain suffix r)) c)"

lemma boundary_append: "boundary sm prefix suffix (m @ rest) (length m) c \<longleftrightarrow> boundary sm prefix suffix m (length m) c"
proof (cases "c + sm_crc_len sm \<le> length m")
  case True
  then have "padding_at (m @ rest) (length m) (c + sm_crc_len sm) \<longleftrightarrow> padding_at m (length m) (c + sm_crc_len sm)"
    by (auto simp: padding_at_def nth_append)
  moreover have "mem_read c (sm_crc_len sm) (m @ rest) = mem_read c (sm_crc_len sm) m" "take c (m @ rest) = take c m"
    using True by (simp_all add: mem_read_def)
  ultimately show ?thesis by (simp only: boundary_def)
qed (simp add: boundary_def)

lemma enciphered_round_trip:
  assumes "block_library lib" "cbc_library lib" "sm_ok sm" "length plain \<le> DFC_MAX_FILE_DATA"
    "DFC_SM_MAX_CRYPTO_SIZE \<le> length out" "DFC_SM_MAX_CRYPTO_SIZE \<le> length out2"
    "pl \<noteq> 0 \<longrightarrow> prefix \<noteq> None" "sl \<noteq> 0 \<longrightarrow> suffix \<noteq> None"
    "first_end sm (opt_octets prefix pl) plain (opt_octets suffix sl) r"
  shows "\<exists>n sm' w. enciphered_encode lib sm prefix pl (Some plain) (length plain) suffix sl r (Some out) (length out) = (n, sm', Some w) \<and>
    n = sm_padded_len sm (length plain + sm_crc_len sm) r \<and> length plain < n \<and> n \<le> length w \<and>
    enciphered_decode lib (sm_peer sm) prefix pl suffix sl (Some w) n (Some out2) (length out2) =
      (length plain, sm_peer sm', Some (plain @ replicate (n - length plain) 0 @ drop n out2))"
proof -
  let ?P = "opt_octets prefix pl" and ?S = "opt_octets suffix sl"
  let ?m = "sm_message sm ?P plain ?S r"
  have n: "length ?m = sm_padded_len sm (length plain + sm_crc_len sm) r" by (rule length_sm_message [OF assms(4)])
  have lt: "length plain < length ?m"
    using sm_padded_len_props(1) [OF assms(4), of sm r] sm_block_cases(2) [of sm] n by auto
  obtain c where "c \<le> length plain" "sm_crc_search sm ?P ?S (?m @ drop (length ?m) out2) (length ?m) = Some c"
    "boundary sm ?P ?S (?m @ drop (length ?m) out2) (length ?m) c"
    using message_end_found [OF assms(4)] by blast
  then have srch: "sm_crc_search sm ?P ?S (?m @ drop (length ?m) out2) (length ?m) = Some (length plain)"
    using assms(9) unfolding first_end_def boundary_append by (metis le_neq_implies_less)
  have "take (length plain) (?m @ drop (length ?m) out2) = plain" by (simp add: sm_message_def)
  then have "mem_set (length plain) 0 (length ?m - length plain) (?m @ drop (length ?m) out2) =
      plain @ replicate (length ?m - length plain) 0 @ drop (length ?m) out2"
    using lt by (simp add: mem_set_def mem_write_def)
  then show ?thesis
    using enciphered_effect [OF assms(1-3,7,8,4-6), where r = r] srch lt n by fastforce
qed

text \<open>
  C14. What a reader enciphers as a command the card reads back: payload, length and chaining value, with the
  rest of the card's buffer zeroed, for each of the three ciphers, whenever no earlier position of the message
  looks like its end.
\<close>

theorem enciphered_command_round_trip:
  assumes "block_library lib" "cbc_library lib" "sm_ok sm" "length plain \<le> DFC_MAX_FILE_DATA"
    "DFC_SM_MAX_CRYPTO_SIZE \<le> length out" "DFC_SM_MAX_CRYPTO_SIZE \<le> length out2" "first_end sm header plain [] False"
  shows "\<exists>n sm' w. dfc_secure_messaging_wrap lib sm DFC_COMM_ENCIPHERED (Some header) (length header)
      (Some plain) (length plain) (Some out) (length out) = (n, sm', Some w) \<and> n \<le> length w \<and>
    dfc_secure_messaging_verify_command lib (sm_peer sm) DFC_COMM_ENCIPHERED (Some header) (length header)
      (Some w) n (Some out2) (length out2) =
      (length plain, sm_peer sm', Some (plain @ replicate (n - length plain) 0 @ drop n out2))"
proof -
  obtain n sm' w where e: "enciphered_encode lib sm (Some header) (length header) (Some plain) (length plain) None 0 False (Some out) (length out) =
      (n, sm', Some w)" "n \<le> length w"
    "enciphered_decode lib (sm_peer sm) (Some header) (length header) None 0 (Some w) n (Some out2) (length out2) =
      (length plain, sm_peer sm', Some (plain @ replicate (n - length plain) 0 @ drop n out2))"
    using enciphered_round_trip [OF assms(1-6), of "length header" "Some header" 0 None False] assms(7) by (auto simp: opt_octets_def)
  have "length plain \<noteq> SIZE_MAX" "session_is_valid sm" using assms(3,4) by (auto simp: DFC_MAX_FILE_DATA_def SIZE_MAX_def sm_ok_def)
  then show ?thesis
    using e by (simp add: dfc_secure_messaging_wrap_def dfc_secure_messaging_verify_command_def DFC_COMM_ENCIPHERED_def
        DFC_COMM_PLAIN_def DFC_COMM_MAC_def)
qed

lemma sample_first_end: "first_end sample_d40_session [] [7] [] False" "first_end sample_d40_session [] [7] [0] True"
proof -
  have "sm_message sample_d40_session [] [7] [] False = [7, 65, 37, 0, 0, 0, 0, 0]"
    "sm_message sample_d40_session [] [7] [0] True = [7, 65, 37, 0x80, 0, 0, 0, 0]" by code_simp+
  moreover have "\<not> boundary sample_d40_session [] [] [7, 65, 37, 0, 0, 0, 0, 0] 8 0"
    "\<not> boundary sample_d40_session [] [0] [7, 65, 37, 0x80, 0, 0, 0, 0] 8 0" by code_simp+
  ultimately show "first_end sample_d40_session [] [7] [] False" "first_end sample_d40_session [] [7] [0] True"
    by (simp_all add: first_end_def eval_nat_numeral)
qed

theorem enciphered_command_round_trip_witness:
  "\<exists>n sm' w. dfc_secure_messaging_wrap xor_library sample_d40_session DFC_COMM_ENCIPHERED (Some []) 0
      (Some [7]) 1 (Some (replicate 2064 9)) 2064 = (n, sm', Some w) \<and>
    dfc_secure_messaging_verify_command xor_library (sm_peer sample_d40_session) DFC_COMM_ENCIPHERED (Some []) 0
      (Some w) n (Some (replicate 2064 9)) 2064 = (1, sm_peer sm', Some ([7] @ replicate (n - 1) 0 @ drop n (replicate 2064 9)))"
  using enciphered_command_round_trip [OF xor_library(1) xor_cbc_library sample_sessions_ok(2), of "[7]" "replicate 2064 9" "replicate 2064 9" "[]"]
    sample_first_end(1)
  by (auto simp: dfc_sm_consts DFC_MAX_FILE_DATA_def)





lemma crc16_residue: "dfc_crc16_iso14443 (p @ le16 (dfc_crc16_iso14443 p)) = 0"
proof -
  let ?c = "dfc_crc16_iso14443 p"
  have low: "(ucast (crc AND 0xFF) :: u8) = ucast crc" for crc :: u16
  proof -
    have m: "(0xFF :: u16) = mask 8" by (simp add: mask_eq_exp_minus_1)
    show ?thesis unfolding m by (rule bit_word_eqI) (simp add: bit_simps)
  qed
  have step: "crc16_byte crc (ucast crc) = drop_bit 8 crc" for crc by (simp add: crc16_byte_def low)
  have "drop_bit 8 (drop_bit 8 ?c) = 0" by (rule bit_word_eqI) (simp add: bit_simps)
  then show ?thesis
    using step [of ?c] step [of "drop_bit 8 ?c"]
    by (simp add: dfc_crc16_iso14443_def dfc_crc16_iso14443_extend_def le16_def)
qed

text \<open>
  C19. A payload that ends in its own checksum does not survive the enciphered mode of a D40 session: the checksum of the
  whole is zero, the search stops at the inner checksum, and the card reads a payload at least two octets short.
\<close>

theorem enciphered_payload_cut_short:
  assumes "block_library lib" "cbc_library lib" "sm_ok sm" "sm_cipher sm = DFC_CMD_AUTHENTICATE_LEGACY"
    "plain = inner @ le16 (dfc_crc16_iso14443 inner)" "length plain \<le> DFC_MAX_FILE_DATA"
    "DFC_SM_MAX_CRYPTO_SIZE \<le> length out" "DFC_SM_MAX_CRYPTO_SIZE \<le> length out2"
  shows "\<exists>n sm' w. dfc_secure_messaging_wrap lib sm DFC_COMM_ENCIPHERED (Some header) (length header)
      (Some plain) (length plain) (Some out) (length out) = (n, sm', Some w) \<and>
    fst (dfc_secure_messaging_verify_command lib (sm_peer sm) DFC_COMM_ENCIPHERED (Some header) (length header)
      (Some w) n (Some out2) (length out2)) + 2 \<le> length plain"
proof -
  let ?m = "sm_message sm header plain [] False"
  have val: "session_is_valid sm" using assms(3) by (simp add: sm_ok_def)
  obtain sm' w where e: "enciphered_encode lib sm (Some header) (length header) (Some plain) (length plain) None 0 False (Some out) (length out) =
      (length ?m, sm', Some w)"
    "\<And>c. sm_crc_search sm header [] (?m @ drop (length ?m) out2) (length ?m) = Some c \<Longrightarrow>
      fst (enciphered_decode lib (sm_peer sm) (Some header) (length header) None 0 (Some w) (length ?m) (Some out2) (length out2)) = c"
    using enciphered_effect [OF assms(1-3) _ _ assms(6-8), of "length header" "Some header" 0 None False] by (auto simp: opt_octets_def)
  have m: "?m = inner @ le16 (dfc_crc16_iso14443 inner) @ replicate (2 + (length ?m - length plain - 2)) 0"
  proof -
    have "sm_crc_octets sm header plain [] = replicate 2 0"
      using crc16_residue [of inner] assms(4,5) by (simp add: sm_crc_octets_eq le16_def numeral_2_eq_2)
    moreover have "sm_crc_len sm = 2" using assms(4) by (simp add: sm_crc_len_def)
    ultimately show ?thesis
      using assms(5) length_sm_message [OF assms(6), of sm header "[]" False]
      by (simp add: sm_message_def sm_padding_def replicate_add [symmetric])
  qed
  have lm: "length inner + 2 \<le> length ?m" "sm_crc_len sm = 2"
    using length_sm_message [OF assms(6), of sm header "[]" False] sm_padded_len_props(1) [OF assms(6), of sm False] assms(4,5)
    by (simp_all add: sm_crc_len_def le16_def)
  have "boundary sm header [] ?m (length ?m) (length inner)"
  proof -
    have "mem_read (length inner) 2 ?m = le16 (dfc_crc16_iso14443 inner)" "take (length inner) ?m = inner"
      by (subst m, simp add: mem_read_def)+
    moreover have "?m ! i = 0" if "length inner + 2 \<le> i" "i < length ?m" for i
    proof -
      define k where "k = 2 + (length ?m - length plain - 2)"
      have eq: "?m = (inner @ le16 (dfc_crc16_iso14443 inner)) @ replicate k 0" unfolding k_def by (subst m) simp
      have "i - (length inner + 2) < k" using that arg_cong [OF eq, of length] by (simp add: le16_def)
      then show ?thesis using that(1) by (subst eq, subst nth_append) (simp add: le16_def)
    qed
    ultimately show ?thesis
      using assms(4,5) lm by (auto simp: boundary_def padding_at_def sm_crc_octets_eq sm_crc_len_def)
  qed
  then have b: "boundary sm header [] (?m @ drop (length ?m) out2) (length ?m) (length inner)" by (simp add: boundary_append)
  obtain c where c: "sm_crc_search sm header [] (?m @ drop (length ?m) out2) (length ?m) = Some c"
    using message_end_found [OF assms(6)] by blast
  have "\<not> length inner < c"
    using b crc_search_correct(1) [of "length ?m" "?m @ drop (length ?m) out2" sm header "[]" c] lm c by auto
  moreover have "c \<noteq> SIZE_MAX" using calculation assms(5,6) by (auto simp: SIZE_MAX_def DFC_MAX_FILE_DATA_def)
  ultimately show ?thesis
    using e(1) e(2) [OF c] val assms(5)
    by (auto simp: dfc_secure_messaging_wrap_def dfc_secure_messaging_verify_command_def DFC_COMM_ENCIPHERED_def
        DFC_COMM_PLAIN_def DFC_COMM_MAC_def split: prod.splits)
qed

theorem enciphered_payload_cut_short_witness:
  "\<exists>n sm' w. dfc_secure_messaging_wrap xor_library sample_d40_session DFC_COMM_ENCIPHERED (Some []) 0
      (Some [7, 65, 37]) 3 (Some (replicate 2064 9)) 2064 = (n, sm', Some w) \<and>
    fst (dfc_secure_messaging_verify_command xor_library (sm_peer sample_d40_session) DFC_COMM_ENCIPHERED (Some []) 0
      (Some w) n (Some (replicate 2064 9)) 2064) + 2 \<le> 3"
proof -
  have "[7, 65, 37] = [7] @ le16 (dfc_crc16_iso14443 [7])" by code_simp
  then show ?thesis
    using enciphered_payload_cut_short [OF xor_library(1) xor_cbc_library sample_sessions_ok(2), of "[7, 65, 37]" "[7]"
        "replicate 2064 9" "replicate 2064 9" "[]"]
    by (simp add: dfc_sm_consts DFC_MAX_FILE_DATA_def sample_d40_session_def)
qed

end
