(* ===== verification/Spec2Isabelle.thy ===== *)
theory Spec2Isabelle
  imports Dfc_Credential Dfc_An10922 Dfc_Transaction_Mac Dfc_Command Dfc_Commit Dfc_Enciphered
begin

text \<open>
  A model of the credential core of the DESFire engine.
\<close>

section \<open>Properties that span components\<close>

text \<open>
  An application the card lists is the application the reader then selects: the identifier
  decoded from a GetApplicationIDs response, given to the SelectApplication encoder, puts exactly
  the octets on the wire that the card sent for it.
\<close>

theorem listed_application_selects:
  assumes "length aids = 3 * cap" "n \<le> cap" "3 * n \<le> length response" "i < n" "command_wf c"
  shows "\<exists>out. dfc_response_decode_application_ids (ResponseBuffer response) (3 * n) (Some aids) cap = (DfcResponseDecodeOk, Some out, n) \<and>
    fst (dfc_command_select_application c (Some (mem_read (3 * i) 3 out)) None) = DfcCommandOk \<and>
    command_payload (snd (dfc_command_select_application c (Some (mem_read (3 * i) 3 out)) None)) = mem_read (3 * i) 3 response"
proof -
  obtain out where dec: "dfc_response_decode_application_ids (ResponseBuffer response) (3 * n) (Some aids) cap = (DfcResponseDecodeOk, Some out, n)"
    and aid: "mem_read (3 * i) 3 out = rev (mem_read (3 * i) 3 response)"
    using decode_application_ids_effect [of aids cap n "ResponseBuffer response"] assms by auto
  have len: "length (mem_read (3 * i) 3 response) = 3" using assms by simp
  let ?a = "mem_read (3 * i) 3 out"
  have rd: "readable (Some ?a) 3" "readable None 3" using len by (simp_all add: readable_def aid)
  have "encoded c DFC_CMD_SELECT_APPLICATION (mem_read (3 * i) 3 response) (dfc_command_select_application c (Some ?a) None)"
    using select_application_meets [OF assms(5) rd] len by (simp add: meets_def octets_def aid)
  then have "dfc_command_select_application c (Some ?a) None =
      (DfcCommandOk, command_filled c DFC_CMD_SELECT_APPLICATION (mem_read (3 * i) 3 response))"
    using len by (simp add: encoded_def command_constants)
  then show ?thesis using dec command_filled_wf [OF assms(5), of "mem_read (3 * i) 3 response"] len
    by (simp add: command_constants)
qed

theorem listed_application_selects_witness:
  "\<exists>out. dfc_response_decode_application_ids (ResponseBuffer [1, 2, 3, 4, 5, 6]) 6 (Some (replicate 6 0)) 2 = (DfcResponseDecodeOk, Some out, 2) \<and>
    command_payload (snd (dfc_command_select_application blank_command (Some (mem_read 3 3 out)) None)) = [4, 5, 6]"
  using listed_application_selects [of "replicate 6 0" 2 2 "[1, 2, 3, 4, 5, 6]" 1 blank_command] blank_command_wf
  by (auto simp: mem_read_def)

end
